(* ===== verification/Prelude.thy ===== *)
theory Prelude
  imports Main "HOL-Library.Word" "HOL-Library.AList" "HOL-Library.Sublist"
begin

text \<open>
  Prelude: what every component of the model shares.  Go maps are association lists (the order of
  the list is one iteration order; Go leaves it open, so statements quantify over the list), Go
  strings are byte strings (\<open>char list\<close>), Go's \<open>(value, error)\<close> results are sums with \<open>Inl\<close> the
  error.  The theory also holds the string operations of the Go standard library that the source
  calls (\<open>strings.TrimSpace\<close>, \<open>strings.Split\<close>, \<open>strings.Index\<close>, \<open>strings.Contains\<close>,
  \<open>strconv.Itoa\<close>, \<open>fmt\<close>'s \<open>%04d\<close> and \<open>%q\<close>), the collections of rewrite rules and the
  generic lemmas about lists, maps and transition systems.
\<close>

named_theorems record_frame \<open>fields an operation leaves unchanged\<close>
named_theorems op_defs \<open>definitions unfolded when an operation is executed symbolically\<close>

type_synonym i64 = "64 word"

section \<open>Results\<close>

fun traverse :: "('a \<Rightarrow> 'e + 'b) \<Rightarrow> 'a list \<Rightarrow> 'e + 'b list" where
  "traverse f [] = Inr []"
| "traverse f (x # xs) =
     (case f x of Inl e \<Rightarrow> Inl e
      | Inr y \<Rightarrow> (case traverse f xs of Inl e \<Rightarrow> Inl e | Inr ys \<Rightarrow> Inr (y # ys)))"

lemma traverse_cong [fundef_cong]:
  "xs = ys \<Longrightarrow> (\<And>x. x \<in> set ys \<Longrightarrow> f x = g x) \<Longrightarrow> traverse f xs = traverse g ys"
  by (induction ys arbitrary: xs) (auto split: sum.splits)

lemma traverse_map_Inr:
  "(\<And>x. x \<in> set xs \<Longrightarrow> f (g x) = Inr (h x)) \<Longrightarrow> traverse f (map g xs) = Inr (map h xs)"
  by (induction xs) auto

definition of_opt :: "'e \<Rightarrow> 'a option \<Rightarrow> 'e + 'a" where
  "of_opt e x = (case x of None \<Rightarrow> Inl e | Some y \<Rightarrow> Inr y)"

lemma of_opt_simps [simp]: "of_opt e None = Inl e" "of_opt e (Some x) = Inr x"
  by (simp_all add: of_opt_def)

definition bindr :: "'e + 'a \<Rightarrow> ('a \<Rightarrow> 'e + 'b) \<Rightarrow> 'e + 'b" where
  "bindr x f = (case x of Inl e \<Rightarrow> Inl e | Inr y \<Rightarrow> f y)"

lemma bindr_simps [simp]: "bindr (Inl e) f = Inl e" "bindr (Inr y) f = f y"
  by (simp_all add: bindr_def)

lemma bindr_cong [fundef_cong]:
  "x = y \<Longrightarrow> (\<And>a. y = Inr a \<Longrightarrow> f a = g a) \<Longrightarrow> bindr x f = bindr y g"
  by (auto simp: bindr_def split: sum.splits)

lemma bindr_Inr: "bindr x f = Inr z \<longleftrightarrow> (\<exists>y. x = Inr y \<and> f y = Inr z)"
  by (auto simp: bindr_def split: sum.splits)

section \<open>Lists\<close>

text \<open>The first result of a partial function along a list (a \<open>for\<close> loop that returns).\<close>

fun first_some :: "('a \<Rightarrow> 'b option) \<Rightarrow> 'a list \<Rightarrow> 'b option" where
  "first_some f [] = None"
| "first_some f (x # xs) = (case f x of None \<Rightarrow> first_some f xs | Some y \<Rightarrow> Some y)"

lemma first_some_None [simp]: "first_some f xs = None \<longleftrightarrow> (\<forall>x \<in> set xs. f x = None)"
  by (induction xs) (auto split: option.splits)

lemma first_some_SomeD: "first_some f xs = Some y \<Longrightarrow> \<exists>x \<in> set xs. f x = Some y"
  by (induction xs) (auto split: option.splits)

text \<open>The index of the first element that satisfies a predicate.\<close>

fun find_idx :: "('a \<Rightarrow> bool) \<Rightarrow> 'a list \<Rightarrow> nat option" where
  "find_idx P [] = None"
| "find_idx P (x # xs) = (if P x then Some 0 else map_option Suc (find_idx P xs))"

lemma find_idx_None: "find_idx P xs = None \<longleftrightarrow> (\<forall>x \<in> set xs. \<not> P x)"
  by (induction xs) auto

lemma find_idx_Some:
  "find_idx P xs = Some i \<Longrightarrow> i < length xs \<and> P (xs ! i) \<and> (\<forall>j < i. \<not> P (xs ! j))"
proof (induction xs arbitrary: i)
  case (Cons x xs)
  show ?case
  proof (cases "P x")
    case False
    with Cons obtain i' where "i = Suc i'" "find_idx P xs = Some i'" by auto
    with Cons.IH [of i'] False show ?thesis by (auto simp: less_Suc_eq_0_disj)
  qed (use Cons in auto)
qed simp

lemma find_idx_exI: "x \<in> set xs \<Longrightarrow> P x \<Longrightarrow> \<exists>i. find_idx P xs = Some i"
  by (induction xs) auto

lemma find_idx_map: "find_idx P (map f xs) = find_idx (\<lambda>x. P (f x)) xs"
  by (induction xs) simp_all

definition delete_nth :: "nat \<Rightarrow> 'a list \<Rightarrow> 'a list" where
  "delete_nth i xs = take i xs @ drop (Suc i) xs"

lemma length_delete_nth [simp]: "i < length xs \<Longrightarrow> length (delete_nth i xs) = length xs - 1"
  by (auto simp: delete_nth_def)

lemma set_delete_nth: "set (delete_nth i xs) \<subseteq> set xs"
  by (auto simp: delete_nth_def dest: in_set_takeD in_set_dropD)

section \<open>Maps\<close>

lemma map_of_update [simp]: "map_of (AList.update k v m) = (map_of m)(k \<mapsto> v)"
  by (simp add: update_conv')

lemma map_of_delete [simp]: "map_of (AList.delete k m) = (map_of m)(k := None)"
  by (simp add: delete_conv')

lemma set_alist_update: "set (AList.update k v m) \<subseteq> insert (k, v) (set m)"
  by (induction m) auto

section \<open>Strings of the Go standard library\<close>

text \<open>The UTF-8 encodings of the code points that \<open>unicode.IsSpace\<close> accepts.\<close>

definition go_spaces :: "string list" where
  "go_spaces =
     [[CHR 0x09], [CHR 0x0A], [CHR 0x0B], [CHR 0x0C], [CHR 0x0D], [CHR 0x20],
      [CHR 0xC2, CHR 0x85], [CHR 0xC2, CHR 0xA0], [CHR 0xE1, CHR 0x9A, CHR 0x80]]
     @ map (\<lambda>b. [CHR 0xE2, CHR 0x80, b])
         [CHR 0x80, CHR 0x81, CHR 0x82, CHR 0x83, CHR 0x84, CHR 0x85, CHR 0x86, CHR 0x87,
          CHR 0x88, CHR 0x89, CHR 0x8A, CHR 0xA8, CHR 0xA9, CHR 0xAF]
     @ [[CHR 0xE2, CHR 0x81, CHR 0x9F], [CHR 0xE3, CHR 0x80, CHR 0x80]]"

fun strip_prefix :: "string \<Rightarrow> string \<Rightarrow> string option" where
  "strip_prefix [] s = Some s"
| "strip_prefix (c # p) [] = None"
| "strip_prefix (c # p) (d # s) = (if c = d then strip_prefix p s else None)"

lemma strip_prefix_Some: "strip_prefix p s = Some r \<longleftrightarrow> s = p @ r"
  by (induction p s rule: strip_prefix.induct) auto

lemma strip_prefix_self [simp]: "strip_prefix p (p @ r) = Some r"
  by (simp add: strip_prefix_Some)

text \<open>Drop leading members of a code while there is one (\<open>strings.TrimLeftFunc\<close>).\<close>

function trim_seq :: "string list \<Rightarrow> string \<Rightarrow> string" where
  "trim_seq code s =
     (case first_some (\<lambda>p. strip_prefix p s) code of
        None \<Rightarrow> s
      | Some r \<Rightarrow> if length r < length s then trim_seq code r else s)"
  by pat_completeness auto
termination
  by (relation "measure (\<lambda>(code, s). length s)") auto

declare trim_seq.simps [simp del]

definition go_trim_space :: "string \<Rightarrow> string" where
  "go_trim_space s = rev (trim_seq (map rev go_spaces) (rev (trim_seq go_spaces s)))"

lemma trim_seq_None: "first_some (\<lambda>p. strip_prefix p s) code = None \<Longrightarrow> trim_seq code s = s"
  by (subst trim_seq.simps) (simp only: option.case)

lemma trim_seq_Some:
  "first_some (\<lambda>p. strip_prefix p s) code = Some r \<Longrightarrow> trim_seq code s = (if length r < length s then trim_seq code r else s)"
  by (subst trim_seq.simps) (simp only: option.case)

lemma trim_seq_fix: "\<forall>p \<in> set code. \<not> prefix p s \<Longrightarrow> trim_seq code s = s"
proof (rule trim_seq_None)
  assume "\<forall>p \<in> set code. \<not> prefix p s"
  then have "strip_prefix p s = None" if "p \<in> set code" for p
    using that strip_prefix_Some [of p s] by (cases "strip_prefix p s") (auto simp: prefix_def)
  then show "first_some (\<lambda>p. strip_prefix p s) code = None" by simp
qed

lemma trim_seq_free: "[] \<notin> set code \<Longrightarrow> p \<in> set code \<Longrightarrow> \<not> prefix p (trim_seq code s)"
proof (induction code s rule: trim_seq.induct)
  case (1 code s)
  show ?case
  proof (cases "first_some (\<lambda>p. strip_prefix p s) code")
    case None
    then have "strip_prefix p s = None" using 1(3) by simp
    then show ?thesis by (auto simp: trim_seq_None [OF None] prefix_def)
  next
    case (Some r)
    then obtain q where "q \<in> set code" "s = q @ r"
      by (metis first_some_SomeD strip_prefix_Some)
    with 1(2) have "length r < length s" by (cases q) auto
    with 1(1) [OF Some _ 1(2,3)] show ?thesis by (simp add: trim_seq_Some [OF Some])
  qed
qed

lemma trim_seq_suffix: "suffix (trim_seq code s) s"
proof (induction code s rule: trim_seq.induct)
  case (1 code s)
  show ?case
  proof (cases "first_some (\<lambda>p. strip_prefix p s) code")
    case (Some r)
    then obtain q where "s = q @ r" by (metis first_some_SomeD strip_prefix_Some)
    then have "suffix r s" by (simp add: suffix_def)
    with 1 [OF Some] have "suffix (if length r < length s then trim_seq code r else s) s"
      by (auto intro: suffix_order.trans)
    then show ?thesis by (simp only: trim_seq_Some [OF Some])
  next
    case None
    then show ?thesis by (simp only: trim_seq_None suffix_order.refl)
  qed
qed

lemma go_spaces_nonempty: "[] \<notin> set go_spaces" "[] \<notin> set (map rev go_spaces)"
  by (simp_all add: go_spaces_def)

text \<open>Nothing is left to trim exactly when no space starts or ends the string.\<close>

lemma go_trim_space_free:
  assumes "c \<in> set go_spaces"
  shows "\<not> prefix c (go_trim_space s)" "\<not> suffix c (go_trim_space s)"
proof -
  let ?t = "trim_seq go_spaces s"
  have "suffix (rev (go_trim_space s)) (rev ?t)" by (simp add: go_trim_space_def trim_seq_suffix)
  then have "prefix (go_trim_space s) ?t" by (simp add: suffix_to_prefix)
  then show "\<not> prefix c (go_trim_space s)"
    using trim_seq_free [OF go_spaces_nonempty(1) assms, of s] by (meson prefix_order.trans)
  have "rev c \<in> set (map rev go_spaces)" using assms by simp
  from trim_seq_free [OF go_spaces_nonempty(2) this, of "rev ?t"] show "\<not> suffix c (go_trim_space s)"
    by (simp add: go_trim_space_def suffix_to_prefix)
qed

lemma go_trim_space_fix:
  assumes "\<And>c. c \<in> set go_spaces \<Longrightarrow> \<not> prefix c s \<and> \<not> suffix c s"
  shows "go_trim_space s = s"
proof -
  have "trim_seq go_spaces s = s" by (rule trim_seq_fix) (use assms in blast)
  moreover have "trim_seq (map rev go_spaces) (rev s) = rev s"
    by (rule trim_seq_fix) (use assms in \<open>auto simp: suffix_to_prefix\<close>)
  ultimately show ?thesis by (simp add: go_trim_space_def)
qed

lemma go_trim_space_idem [simp]: "go_trim_space (go_trim_space s) = go_trim_space s"
  by (rule go_trim_space_fix) (simp add: go_trim_space_free)

text \<open>\<open>strings.Split\<close> at a one-byte separator: never empty.\<close>

fun split_char :: "char \<Rightarrow> string \<Rightarrow> string list" where
  "split_char c [] = [[]]"
| "split_char c (x # xs) =
     (if x = c then [] # split_char c xs
      else (case split_char c xs of [] \<Rightarrow> [[x]] | p # ps \<Rightarrow> (x # p) # ps))"

lemma split_char_nonempty [simp]: "split_char c s \<noteq> []"
  by (induction s) (auto split: list.splits)

lemma split_char_none: "c \<notin> set s \<Longrightarrow> split_char c s = [s]"
  by (induction s) auto

lemma split_char_append: "c \<notin> set s \<Longrightarrow> split_char c (s @ c # r) = s # split_char c r"
  by (induction s) auto

lemma split_char_free: "p \<in> set (split_char c s) \<Longrightarrow> c \<notin> set p"
  by (induction s arbitrary: p) (auto split: if_splits list.splits)

text \<open>\<open>strings.Index\<close> and \<open>strings.Contains\<close>.\<close>

fun go_index :: "string \<Rightarrow> string \<Rightarrow> nat option" where
  "go_index [] sub = (if sub = [] then Some 0 else None)"
| "go_index (c # s) sub =
     (if prefix sub (c # s) then Some 0 else map_option Suc (go_index s sub))"

definition go_contains :: "string \<Rightarrow> string \<Rightarrow> bool" where
  "go_contains s sub = (go_index s sub \<noteq> None)"

lemma go_index_None: "go_index s sub = None \<longleftrightarrow> (\<nexists>a b. s = a @ sub @ b)"
proof (induction s)
  case (Cons c s)
  show ?case
  proof (cases "prefix sub (c # s)")
    case True
    then show ?thesis by (auto simp: prefix_def intro: exI [of _ "[]"])
  next
    case False
    then have "(\<exists>a b. c # s = a @ sub @ b) \<longleftrightarrow> (\<exists>a b. s = a @ sub @ b)"
      by (auto simp: prefix_def Cons_eq_append_conv)
    with False Cons show ?thesis by simp
  qed
qed auto

lemma go_contains_iff: "go_contains s sub \<longleftrightarrow> (\<exists>a b. s = a @ sub @ b)"
  using go_index_None [of s sub] by (auto simp: go_contains_def)

text \<open>\<open>strings.LastIndex\<close>.\<close>

fun go_last_index :: "string \<Rightarrow> string \<Rightarrow> nat option" where
  "go_last_index [] sub = (if sub = [] then Some 0 else None)"
| "go_last_index (c # s) sub =
     (case go_last_index s sub of
        Some i \<Rightarrow> Some (Suc i)
      | None \<Rightarrow> if prefix sub (c # s) then Some 0 else None)"

lemma go_last_index_None: "go_last_index s sub = None \<longleftrightarrow> (\<nexists>a b. s = a @ sub @ b)"
proof (induction s)
  case (Cons c s)
  have "(\<exists>a b. c # s = a @ sub @ b) \<longleftrightarrow> prefix sub (c # s) \<or> (\<exists>a b. s = a @ sub @ b)"
    by (metis (no_types, lifting) Cons_eq_append_conv append_Cons append_Nil prefix_def)
  with Cons show ?case by (auto split: option.splits)
qed auto

lemma go_index_char: "c \<notin> set a \<Longrightarrow> go_index (a @ c # b) [c] = Some (length a)"
  by (induction a) auto

lemma go_last_index_char: "c \<notin> set b \<Longrightarrow> go_last_index (a @ c # b) [c] = Some (length a)"
proof (induction a)
  case Nil
  then have "go_last_index b [c] = None" by (auto simp: go_last_index_None)
  then show ?case by simp
qed simp

text \<open>A substring is first found where no occurrence begins before it.\<close>

lemma go_index_before: "sub \<noteq> [] \<Longrightarrow> go_index (a @ butlast sub) sub = None \<Longrightarrow> go_index (a @ sub @ b) sub = Some (length a)"
proof (induction a)
  case Nil
  then show ?case by (cases sub) auto
next
  case (Cons c a)
  have "\<not> prefix sub ((c # a) @ sub @ b)"
  proof
    assume p: "prefix sub ((c # a) @ sub @ b)"
    then have t: "take (length sub) ((c # a) @ sub @ b) = sub" by (auto simp: prefix_def)
    have "prefix sub ((c # a) @ butlast sub)"
    proof -
      have "take (length sub) ((c # a) @ butlast sub) = take (length sub) ((c # a) @ sub @ b)"
        using Cons.prems(1) by (cases sub rule: rev_cases) auto
      with t show ?thesis by (metis take_is_prefix)
    qed
    with Cons.prems(2) show False by simp
  qed
  with Cons show ?case by (auto split: if_splits)
qed

lemma go_last_index_bound: "go_last_index s sub = Some i \<Longrightarrow> i \<le> length s"
  by (induction s arbitrary: i) (auto split: option.splits if_splits)

text \<open>\<open>strings.Join\<close>, and characters that the texts of the source contain.\<close>

fun str_join :: "string \<Rightarrow> string list \<Rightarrow> string" where
  "str_join sep [] = []"
| "str_join sep [x] = x"
| "str_join sep (x # y # xs) = x @ sep @ str_join sep (y # xs)"

lemma split_join_char: "cs \<noteq> [] \<Longrightarrow> \<forall>p \<in> set cs. c \<notin> set p \<Longrightarrow> split_char c (str_join [c] cs) = cs"
  by (induction "[c]" cs rule: str_join.induct) (simp_all add: split_char_none split_char_append)

abbreviation sq :: string where "sq \<equiv> [CHR 0x27]"
abbreviation nl :: string where "nl \<equiv> [CHR 0x0A]"
abbreviation em_dash :: string where "em_dash \<equiv> [CHR 0xE2, CHR 0x80, CHR 0x94]"
abbreviation arrow :: string where "arrow \<equiv> [CHR 0xE2, CHR 0x86, CHR 0x92]"
abbreviation dq :: string where "dq \<equiv> [CHR 0x22]"

text \<open>Decimal numerals: \<open>strconv.Itoa\<close> and the \<open>%04d\<close> verb.\<close>

definition digit_char :: "nat \<Rightarrow> char" where
  "digit_char d = char_of (48 + d)"

fun nat_dec :: "nat \<Rightarrow> string" where
  "nat_dec n = (if n < 10 then [digit_char n] else nat_dec (n div 10) @ [digit_char (n mod 10)])"

declare nat_dec.simps [simp del]

definition int_dec :: "int \<Rightarrow> string" where
  "int_dec i = (if i < 0 then CHR ''-'' # nat_dec (nat (- i)) else nat_dec (nat i))"

definition zeros :: "nat \<Rightarrow> string" where
  "zeros n = replicate n CHR ''0''"

text \<open>\<open>%04d\<close>: padded with zeros to width four, the sign counted.\<close>

definition dec04 :: "int \<Rightarrow> string" where
  "dec04 i =
     (if i < 0 then (let d = nat_dec (nat (- i)) in CHR ''-'' # zeros (3 - length d) @ d)
      else (let d = nat_dec (nat i) in zeros (4 - length d) @ d))"

text \<open>Decimal numerals are read back by \<open>dec_val\<close>, so they are injective.\<close>

definition dec_val :: "string \<Rightarrow> nat" where
  "dec_val s = foldl (\<lambda>a c. 10 * a + (of_char c - 48)) 0 s"

lemma of_char_digit [simp]: "d < 10 \<Longrightarrow> of_char (digit_char d) = 48 + d"
  by (simp add: digit_char_def)

lemma dec_val_snoc: "dec_val (s @ [c]) = 10 * dec_val s + (of_char c - 48)"
  by (simp add: dec_val_def)

lemma dec_val_nat_dec [simp]: "dec_val (nat_dec n) = n"
proof (induction n rule: nat_dec.induct)
  case (1 n)
  show ?case
  proof (cases "n < 10")
    case True
    then show ?thesis by (simp add: nat_dec.simps [of n] dec_val_def)
  next
    case False
    with 1 show ?thesis by (simp add: nat_dec.simps [of n] dec_val_snoc)
  qed
qed

lemma nat_dec_digits: "c \<in> set (nat_dec n) \<Longrightarrow> 48 \<le> (of_char c :: nat) \<and> (of_char c :: nat) < 58"
proof (induction n rule: nat_dec.induct)
  case (1 n)
  then show ?case by (cases "n < 10") (auto simp: nat_dec.simps [of n])
qed

lemma dec_val_zeros [simp]: "dec_val (zeros k @ s) = dec_val s"
  by (induction k) (simp_all add: dec_val_def zeros_def)

lemma zeros_digits: "c \<in> set (zeros k) \<Longrightarrow> (of_char c :: nat) = 48"
  by (simp add: zeros_def)

lemma dec04_neg_head: "i < 0 \<longleftrightarrow> hd (dec04 i @ ''x'') = CHR ''-''"
proof (cases "i < 0")
  case False
  then obtain d ds where "zeros (4 - length (nat_dec (nat i))) @ nat_dec (nat i) = d # ds"
    by (cases "zeros (4 - length (nat_dec (nat i))) @ nat_dec (nat i)")
      (auto simp: nat_dec.simps [of "nat i"] split: if_splits)
  moreover from this have "d \<in> set (zeros (4 - length (nat_dec (nat i))) @ nat_dec (nat i))" by simp
  then have "48 \<le> (of_char d :: nat)" using nat_dec_digits zeros_digits by fastforce
  then have "d \<noteq> CHR ''-''" by auto
  ultimately show ?thesis using False by (simp add: dec04_def Let_def)
qed (simp add: dec04_def Let_def)

lemma dec04_inj: "dec04 i = dec04 j \<longleftrightarrow> i = j"
proof
  assume eq: "dec04 i = dec04 j"
  then have sgn: "i < 0 \<longleftrightarrow> j < 0" by (simp add: dec04_neg_head [of i] dec04_neg_head [of j])
  show "i = j"
  proof (cases "i < 0")
    case True
    with sgn eq have "zeros (3 - length (nat_dec (nat (- i)))) @ nat_dec (nat (- i))
        = zeros (3 - length (nat_dec (nat (- j)))) @ nat_dec (nat (- j))"
      by (simp add: dec04_def Let_def)
    then have "nat (- i) = nat (- j)" by (metis dec_val_zeros dec_val_nat_dec)
    with True sgn show ?thesis by linarith
  next
    case False
    with sgn eq have "zeros (4 - length (nat_dec (nat i))) @ nat_dec (nat i)
        = zeros (4 - length (nat_dec (nat j))) @ nat_dec (nat j)"
      by (simp add: dec04_def Let_def)
    then have "nat i = nat j" by (metis dec_val_zeros dec_val_nat_dec)
    with False sgn show ?thesis by linarith
  qed
qed simp

text \<open>\<open>%q\<close> on strings whose non-ASCII runes are printable (their bytes are copied).\<close>

definition hex_char :: "nat \<Rightarrow> char" where
  "hex_char d = (if d < 10 then char_of (48 + d) else char_of (87 + d))"

definition quote_byte :: "char \<Rightarrow> string" where
  "quote_byte c =
     (let n = of_char c :: nat in
      if n = 34 then [CHR 0x5C, CHR 0x22] else if n = 92 then [CHR 0x5C, CHR 0x5C]
      else if n = 7 then [CHR 0x5C, CHR ''a''] else if n = 8 then [CHR 0x5C, CHR ''b'']
      else if n = 9 then [CHR 0x5C, CHR ''t''] else if n = 10 then [CHR 0x5C, CHR ''n'']
      else if n = 11 then [CHR 0x5C, CHR ''v''] else if n = 12 then [CHR 0x5C, CHR ''f'']
      else if n = 13 then [CHR 0x5C, CHR ''r'']
      else if n < 32 \<or> n = 127 then [CHR 0x5C, CHR ''x'', hex_char (n div 16), hex_char (n mod 16)]
      else [c])"

definition go_quote :: "string \<Rightarrow> string" where
  "go_quote s = [CHR 0x22] @ concat (map quote_byte s) @ [CHR 0x22]"

section \<open>Transition systems\<close>

text \<open>
  The contract every state machine of the library is proved against: an initial predicate, a step
  relation and an invariant that holds initially and is kept by each step.  The two lemmas are the
  inductions over runs that the components would otherwise repeat.
\<close>

locale transition_system =
  fixes init :: "'s \<Rightarrow> bool"
    and step :: "'s \<Rightarrow> 's \<Rightarrow> bool"
    and inv :: "'s \<Rightarrow> bool"
  assumes init_inv: "init s \<Longrightarrow> inv s"
    and step_inv: "inv s \<Longrightarrow> step s t \<Longrightarrow> inv t"
begin

lemma steps_inv: "step\<^sup>*\<^sup>* s t \<Longrightarrow> inv s \<Longrightarrow> inv t"
  by (induction rule: rtranclp_induct) (auto intro: step_inv)

lemma reachable_inv: "init s \<Longrightarrow> step\<^sup>*\<^sup>* s t \<Longrightarrow> inv t"
  by (blast intro: steps_inv init_inv)

end

section \<open>Keyed stores\<close>

text \<open>
  The contract of everything the program uses as a table: the tool registry, the plan store, the
  files of the persistence layer, the index of the long-term memory.  A client sees only \<open>get\<close> and
  \<open>put\<close>; the facts below are what the clients use.
\<close>

locale keyed_store =
  fixes get :: "'s \<Rightarrow> 'k \<Rightarrow> 'v option"
    and put :: "'k \<Rightarrow> 'v \<Rightarrow> 's \<Rightarrow> 's"
  assumes get_put: "get (put k v s) k' = (if k' = k then Some v else get s k')"
begin

lemma get_put_same: "get (put k v s) k = Some v"
  by (simp add: get_put)

lemma get_put_other: "k' \<noteq> k \<Longrightarrow> get (put k v s) k' = get s k'"
  by (simp add: get_put)

lemma get_put_all:
  "distinct (map fst kvs) \<Longrightarrow>
   get (fold (\<lambda>(k, v). put k v) kvs s) k
     = (case map_of kvs k of None \<Rightarrow> get s k | Some v \<Rightarrow> Some v)"
proof (induction kvs arbitrary: s)
  case (Cons p kvs)
  obtain k0 v0 where p: "p = (k0, v0)" by (cases p)
  with Cons.prems have "map_of kvs k0 = None" by (auto simp: map_of_eq_None_iff)
  with Cons p show ?case by (auto simp: get_put split: option.splits)
qed simp

lemma put_absent_keeps: "get s k = None \<Longrightarrow> get s k' = Some v' \<Longrightarrow> get (put k v s) k' = Some v'"
  by (auto simp: get_put)

end

end
