(* ===== verification/Types.thy ===== *)
theory Types
  imports Complex_Main Prelude
begin

text \<open>
  The value types of \<open>core/types\<close> and \<open>constants\<close>: roles, plan states, messages with their sealed
  \<open>Content\<close> interface, tool calls and results, and the JSON form of messages.

  Go's \<open>any\<close> is the type \<open>val\<close>.  A \<open>float64\<close> is its rational value (tool arguments come from JSON,
  which has no NaN and no infinities); a whole number read back from JSON is a float, so encoding
  and decoding turns \<open>VInt\<close> into \<open>VFloat\<close> (exact for integers up to \<open>2^53\<close>).  Strings are valid UTF-8.
  A JSON document is its tree (\<open>json\<close>): \<open>json.Marshal\<close>'s bytes parse back to the tree they print.
\<close>

section \<open>Enumerations (constants/enums.go)\<close>

text \<open>\<open>MultiModalType\<close> and \<open>RoleType\<close> are string types with named constants.\<close>

type_synonym multimodal_type = string
type_synonym role = string

definition MultiModalTypeUnknown :: multimodal_type where
  [simp]: "MultiModalTypeUnknown = ''unknown''"

definition MultiModalTypeText :: multimodal_type where
  [simp]: "MultiModalTypeText = ''text''"

definition MultiModalTypePDF :: multimodal_type where
  [simp]: "MultiModalTypePDF = ''pdf''"

definition MultiModalTypeWord :: multimodal_type where
  [simp]: "MultiModalTypeWord = ''word''"

definition MultiModalTypeExcel :: multimodal_type where
  [simp]: "MultiModalTypeExcel = ''excel''"

definition MultiModalTypeImage :: multimodal_type where
  [simp]: "MultiModalTypeImage = ''image''"

definition MultiModalTypeVideo :: multimodal_type where
  [simp]: "MultiModalTypeVideo = ''video''"

definition MultiModalTypeAudio :: multimodal_type where
  [simp]: "MultiModalTypeAudio = ''audio''"

definition RoleSystem :: role where
  [simp]: "RoleSystem = ''system''"

definition RoleUser :: role where
  [simp]: "RoleUser = ''user''"

definition RoleTool :: role where
  [simp]: "RoleTool = ''tool''"

definition RoleAssistant :: role where
  [simp]: "RoleAssistant = ''assistant''"

text \<open>\<open>PlanState\<close> is a string type too; the ten constants are a datatype here, and strings are
  converted at the one place where the source converts them.\<close>

datatype plan_state =
  PSNone | PSIntent | PSInit | PSDirect | PSConfirmed | PSRejected | PSDoing | PSUpdating
  | PSDone | PSFailed

fun plan_state_str :: "plan_state \<Rightarrow> string" where
  "plan_state_str PSNone = ''none''"
| "plan_state_str PSIntent = ''intent''"
| "plan_state_str PSInit = ''init''"
| "plan_state_str PSDirect = ''direct''"
| "plan_state_str PSConfirmed = ''confirmed''"
| "plan_state_str PSRejected = ''rejected''"
| "plan_state_str PSDoing = ''doing''"
| "plan_state_str PSUpdating = ''update''"
| "plan_state_str PSDone = ''done''"
| "plan_state_str PSFailed = ''failed''"

definition plan_states :: "plan_state list" where
  "plan_states =
     [PSNone, PSIntent, PSInit, PSDirect, PSConfirmed, PSRejected, PSDoing, PSUpdating, PSDone,
      PSFailed]"

text \<open>The conversion \<open>constants.PlanState(s)\<close> for a string that is one of the constants.\<close>

definition plan_state_of_str :: "string \<Rightarrow> plan_state option" where
  "plan_state_of_str s = List.find (\<lambda>p. plan_state_str p = s) plan_states"

lemma plan_state_of_str_str [simp]: "plan_state_of_str (plan_state_str p) = Some p"
  by (cases p) (simp_all add: plan_state_of_str_def plan_states_def)

lemma plan_state_str_inj: "plan_state_str a = plan_state_str b \<longleftrightarrow> a = b"
  by (metis option.inject plan_state_of_str_str)

datatype agent_identity = AgentMain | AgentWorker | AgentReviewer

section \<open>Sentinel errors (core/types/errors.go) and wrapped errors\<close>

datatype err =
    ErrContextLengthExceeded
  | ErrMaxStepsExceeded
  | ErrMaxCyclesExceeded
  | ErrCanceled
  | ErrNoToolCall
  | ErrOther string
  | ErrWrap string err
  | ErrDetail err string
  | ErrBoth err err

text \<open>\<open>ErrNoToolCall\<close> is the sentinel of llm/caller.go; \<open>ErrWrap s e\<close> is \<open>fmt.Errorf("s: %w", e)\<close> and
  \<open>ErrDetail e s\<close> is \<open>fmt.Errorf("%w: s", e)\<close>, \<open>ErrBoth a b\<close> is \<open>fmt.Errorf("%w: %w", a, b)\<close>.  \<open>errors.Is\<close> looks through what \<open>%w\<close> wraps.\<close>

fun err_is :: "err \<Rightarrow> err \<Rightarrow> bool" where
  "err_is (ErrWrap s e) t = (ErrWrap s e = t \<or> err_is e t)"
| "err_is (ErrDetail e s) t = (ErrDetail e s = t \<or> err_is e t)"
| "err_is (ErrBoth a b) t = (ErrBoth a b = t \<or> err_is a t \<or> err_is b t)"
| "err_is e t = (e = t)"

fun err_text :: "err \<Rightarrow> string" where
  "err_text ErrContextLengthExceeded = ''context length exceeded''"
| "err_text ErrMaxStepsExceeded = ''max ReAct steps exceeded''"
| "err_text ErrMaxCyclesExceeded = ''max state machine cycles exceeded''"
| "err_text ErrCanceled = ''context canceled''"
| "err_text ErrNoToolCall = ''llm: no matching tool call received''"
| "err_text (ErrOther s) = s"
| "err_text (ErrDetail e s) = err_text e @ '': '' @ s"
| "err_text (ErrBoth a b) = err_text a @ '': '' @ err_text b"
| "err_text (ErrWrap s e) = s @ '': '' @ err_text e"

section \<open>Values, usage, tool calls (core/types/message.go, core/types/tool.go)\<close>

datatype val =
    VNil
  | VBool bool
  | VInt int
  | VFloat rat
  | VStr string
  | VList "val list"
  | VMap "(string \<times> val) list"

record usage =
  u_total :: i64
  u_input :: i64
  u_cached :: i64
  u_reasoning :: i64
  u_output :: i64

definition usage_zero :: usage where
  "usage_zero = \<lparr>u_total = 0, u_input = 0, u_cached = 0, u_reasoning = 0, u_output = 0\<rparr>"

record multimodal =
  mm_id :: string
  mm_type :: multimodal_type
  mm_path :: string
  mm_base64 :: string
  mm_mime :: string
  mm_meta :: "(string \<times> val) list"

record tool_call_detail =
  tcd_id :: string
  tcd_name :: string
  tcd_args :: "(string \<times> val) list"

record tool_call_result =
  tcr_id :: string
  tcr_name :: string
  tcr_outputs :: "(string \<times> val) list"

record tool_definition =
  td_name :: string
  td_description :: string
  td_schema :: "(string \<times> val) list"
  td_output_schema :: "(string \<times> val) list"
  td_terminating :: bool

section \<open>Content and messages\<close>

text \<open>The sealed interface \<open>Content\<close>; \<open>NilContent\<close> is the nil interface value.\<close>

datatype content =
    TextContent string
  | ReasoningContent string
  | ToolCallContent "tool_call_detail list"
  | ToolResultContent "tool_call_result list"
  | MultiModalContent multimodal
  | CompositeContent "content list"
  | NilContent

record message =
  m_id :: string
  m_role :: role
  m_content :: content
  m_finish :: string
  m_usage :: "usage option"

definition new_message :: "role \<Rightarrow> string \<Rightarrow> content \<Rightarrow> message" where
  "new_message r mid c =
     \<lparr>m_id = mid, m_role = r, m_content = c, m_finish = [], m_usage = None\<rparr>"

definition new_system_message :: "string \<Rightarrow> content \<Rightarrow> message" where
  "new_system_message mid c = new_message RoleSystem mid c"

definition new_user_message :: "string \<Rightarrow> content \<Rightarrow> message" where
  "new_user_message mid c = new_message RoleUser mid c"

definition new_assistant_message :: "string \<Rightarrow> content \<Rightarrow> message" where
  "new_assistant_message mid c = new_message RoleAssistant mid c"

definition new_tool_message :: "string \<Rightarrow> tool_call_result list \<Rightarrow> message" where
  "new_tool_message mid rs = new_message RoleTool mid (ToolResultContent rs)"

text \<open>\<open>Message.ToolResults\<close>: the results of a tool message, or of the parts of a composite one.\<close>

fun part_results :: "content \<Rightarrow> tool_call_result list" where
  "part_results (ToolResultContent rs) = rs"
| "part_results _ = []"

fun content_results :: "content \<Rightarrow> tool_call_result list" where
  "content_results (ToolResultContent rs) = rs"
| "content_results (CompositeContent ps) = concat (map part_results ps)"
| "content_results _ = []"

definition tool_results :: "message \<Rightarrow> tool_call_result list" where
  "tool_results m = content_results (m_content m)"

text \<open>
  \<open>ExtractToolResult[T]\<close>: the type assertion \<open>.(T)\<close> is the partial projection \<open>as_t\<close> (a missing key
  yields the nil value, which no projection accepts).  \<open>None\<close> is the pair of the zero value and \<open>false\<close>.
\<close>

definition extract_tool_result ::
    "(val \<Rightarrow> 't option) \<Rightarrow> message list \<Rightarrow> string \<Rightarrow> string \<Rightarrow> 't option" where
  "extract_tool_result as_t ms tool key =
     first_some (\<lambda>m. first_some (\<lambda>r. if tcr_name r = tool
         then (case map_of (tcr_outputs r) key of None \<Rightarrow> None | Some v \<Rightarrow> as_t v) else None)
       (tool_results m)) ms"

fun as_string :: "val \<Rightarrow> string option" where
  "as_string (VStr s) = Some s"
| "as_string _ = None"

fun as_bool :: "val \<Rightarrow> bool option" where
  "as_bool (VBool b) = Some b"
| "as_bool _ = None"

section \<open>Agent input (core/types/agent\_input.go)\<close>

record agent_input =
  ai_text :: string
  ai_media :: "multimodal list"

definition is_text_only :: "agent_input \<Rightarrow> bool" where
  "is_text_only ai = (length (ai_media ai) = 0)"

definition agent_input_validate :: "agent_input \<Rightarrow> err option" where
  "agent_input_validate ai =
     (if go_trim_space (ai_text ai) = [] then Some (ErrOther ''agent input: text is required'')
      else (case ai_media ai of
              m # n # ms \<Rightarrow>
                if list_all (\<lambda>x. mm_type x = mm_type m) (n # ms) then None
                else Some (ErrOther ''agent input: cannot mix image and audio media in one request'')
            | _ \<Rightarrow> None))"

definition build_user_message :: "string \<Rightarrow> agent_input \<Rightarrow> message" where
  "build_user_message mid ai =
     (if is_text_only ai then new_user_message mid (TextContent (ai_text ai))
      else new_user_message mid
        (CompositeContent (TextContent (ai_text ai) # map MultiModalContent (ai_media ai))))"

end
