(* ===== verification/Json.thy ===== *)
theory Json
  imports Types
begin

text \<open>
  The JSON form of messages (core/types/message.go): the discriminated wrapper that \<open>marshalContent\<close>
  builds, its JSON object with the \<open>omitempty\<close> fields left out, and \<open>unmarshalContent\<close>.  The main
  fact is that decoding an encoded message gives the message back up to \<open>json_norm\<close>: media lose their
  base64 payload, whole numbers come back as floats.
\<close>

datatype json =
    JNull
  | JBool bool
  | JNum rat
  | JStr string
  | JArr "json list"
  | JObj "(string \<times> json) list"

section \<open>Go values as JSON\<close>

primrec json_of_val :: "val \<Rightarrow> json" where
  "json_of_val VNil = JNull"
| "json_of_val (VBool b) = JBool b"
| "json_of_val (VInt i) = JNum (of_int i)"
| "json_of_val (VFloat r) = JNum r"
| "json_of_val (VStr s) = JStr s"
| "json_of_val (VList vs) = JArr (map json_of_val vs)"
| "json_of_val (VMap m) = JObj (map (map_prod id json_of_val) m)"

primrec val_of_json :: "json \<Rightarrow> val" where
  "val_of_json JNull = VNil"
| "val_of_json (JBool b) = VBool b"
| "val_of_json (JNum r) = VFloat r"
| "val_of_json (JStr s) = VStr s"
| "val_of_json (JArr js) = VList (map val_of_json js)"
| "val_of_json (JObj ob) = VMap (map (map_prod id val_of_json) ob)"

text \<open>A value after a trip through JSON.\<close>

primrec norm_val :: "val \<Rightarrow> val" where
  "norm_val VNil = VNil"
| "norm_val (VBool b) = VBool b"
| "norm_val (VInt i) = VFloat (of_int i)"
| "norm_val (VFloat r) = VFloat r"
| "norm_val (VStr s) = VStr s"
| "norm_val (VList vs) = VList (map norm_val vs)"
| "norm_val (VMap m) = VMap (map (map_prod id norm_val) m)"

definition norm_map :: "(string \<times> val) list \<Rightarrow> (string \<times> val) list" where
  "norm_map m = map (map_prod id norm_val) m"

lemma val_json_roundtrip [simp]: "val_of_json (json_of_val v) = norm_val v"
  by (induction v) (auto simp: map_prod_def split: prod.splits)

lemma norm_val_idem [simp]: "norm_val (norm_val v) = norm_val v"
  by (induction v) (auto simp: map_prod_def split: prod.splits)

lemma norm_map_idem [simp]: "norm_map (norm_map m) = norm_map m"
  by (auto simp: norm_map_def)

section \<open>Encoding structs\<close>

definition json_map :: "(string \<times> val) list \<Rightarrow> json" where
  "json_map m = JObj (map (map_prod id json_of_val) m)"

definition omit_str :: "string \<Rightarrow> string \<Rightarrow> (string \<times> json) list" where
  "omit_str k s = (if s = [] then [] else [(k, JStr s)])"

definition omit_opt :: "string \<Rightarrow> json option \<Rightarrow> (string \<times> json) list" where
  "omit_opt k x = (case x of None \<Rightarrow> [] | Some j \<Rightarrow> [(k, j)])"

definition omit_arr :: "string \<Rightarrow> json list \<Rightarrow> (string \<times> json) list" where
  "omit_arr k js = (if js = [] then [] else [(k, JArr js)])"

definition json_detail :: "tool_call_detail \<Rightarrow> json" where
  "json_detail d =
     JObj [(''id'', JStr (tcd_id d)), (''tool_name'', JStr (tcd_name d)),
           (''args'', json_map (tcd_args d))]"

definition json_result :: "tool_call_result \<Rightarrow> json" where
  "json_result r =
     JObj [(''tool_call_id'', JStr (tcr_id r)), (''tool_name'', JStr (tcr_name r)),
           (''outputs'', json_map (tcr_outputs r))]"

text \<open>\<open>MultiModalDetail.MarshalJSON\<close> clears \<open>Base64\<close> first, so its \<open>omitempty\<close> field is never written.\<close>

definition json_multimodal :: "multimodal \<Rightarrow> json" where
  "json_multimodal m =
     (let s = m\<lparr>mm_base64 := []\<rparr> in
      JObj ([(''id'', JStr (mm_id s)), (''type'', JStr (mm_type s))]
        @ omit_str ''path'' (mm_path s) @ omit_str ''base64'' (mm_base64 s)
        @ omit_str ''mime_type'' (mm_mime s)
        @ (if mm_meta s = [] then [] else [(''meta'', json_map (mm_meta s))])))"

text \<open>Token counts are signed 64-bit integers.\<close>

definition json_i64 :: "i64 \<Rightarrow> json" where
  "json_i64 w = JNum (of_int (sint w))"

definition json_usage :: "usage \<Rightarrow> json" where
  "json_usage u =
     JObj [(''total_tokens'', json_i64 (u_total u)),
           (''input_tokens'', json_i64 (u_input u)),
           (''cached_tokens'', json_i64 (u_cached u)),
           (''reasoning_tokens'', json_i64 (u_reasoning u)),
           (''output_tokens'', json_i64 (u_output u))]"

section \<open>Decoding structs\<close>

definition json_err :: err where
  "json_err = ErrOther ''json: cannot unmarshal''"

text \<open>A missing field and \<open>null\<close> leave the zero value; a value of another kind is an error.\<close>

fun dec_str :: "json option \<Rightarrow> err + string" where
  "dec_str None = Inr []"
| "dec_str (Some JNull) = Inr []"
| "dec_str (Some (JStr s)) = Inr s"
| "dec_str (Some _) = Inl json_err"

fun dec_arr :: "json option \<Rightarrow> err + json list" where
  "dec_arr None = Inr []"
| "dec_arr (Some JNull) = Inr []"
| "dec_arr (Some (JArr js)) = Inr js"
| "dec_arr (Some _) = Inl json_err"

fun dec_map :: "json option \<Rightarrow> err + (string \<times> val) list" where
  "dec_map None = Inr []"
| "dec_map (Some JNull) = Inr []"
| "dec_map (Some (JObj ob)) = Inr (map (map_prod id val_of_json) ob)"
| "dec_map (Some _) = Inl json_err"

fun dec_int64 :: "json option \<Rightarrow> err + i64" where
  "dec_int64 None = Inr 0"
| "dec_int64 (Some JNull) = Inr 0"
| "dec_int64 (Some (JNum r)) =
     (if of_int \<lfloor>r\<rfloor> = r \<and> - (2 ^ 63) \<le> \<lfloor>r\<rfloor> \<and> \<lfloor>r\<rfloor> < 2 ^ 63 then Inr (word_of_int \<lfloor>r\<rfloor>)
      else Inl json_err)"
| "dec_int64 (Some _) = Inl json_err"

fun dec_obj :: "json \<Rightarrow> err + (string \<rightharpoonup> json)" where
  "dec_obj (JObj ob) = Inr (map_of ob)"
| "dec_obj JNull = Inr (\<lambda>_. None)"
| "dec_obj _ = Inl json_err"

definition dec_detail :: "json \<Rightarrow> err + tool_call_detail" where
  "dec_detail j =
     bindr (dec_obj j) (\<lambda>ob.
     bindr (dec_str (ob ''id'')) (\<lambda>i.
     bindr (dec_str (ob ''tool_name'')) (\<lambda>n.
     bindr (dec_map (ob ''args'')) (\<lambda>a.
       Inr \<lparr>tcd_id = i, tcd_name = n, tcd_args = a\<rparr>))))"

definition dec_result :: "json \<Rightarrow> err + tool_call_result" where
  "dec_result j =
     bindr (dec_obj j) (\<lambda>ob.
     bindr (dec_str (ob ''tool_call_id'')) (\<lambda>i.
     bindr (dec_str (ob ''tool_name'')) (\<lambda>n.
     bindr (dec_map (ob ''outputs'')) (\<lambda>a.
       Inr \<lparr>tcr_id = i, tcr_name = n, tcr_outputs = a\<rparr>))))"

definition dec_multimodal :: "json \<Rightarrow> err + multimodal" where
  "dec_multimodal j =
     bindr (dec_obj j) (\<lambda>ob.
     bindr (dec_str (ob ''id'')) (\<lambda>i.
     bindr (dec_str (ob ''type'')) (\<lambda>t.
     bindr (dec_str (ob ''path'')) (\<lambda>p.
     bindr (dec_str (ob ''base64'')) (\<lambda>b.
     bindr (dec_str (ob ''mime_type'')) (\<lambda>mi.
     bindr (dec_map (ob ''meta'')) (\<lambda>me.
       Inr \<lparr>mm_id = i, mm_type = t, mm_path = p, mm_base64 = b, mm_mime = mi, mm_meta = me\<rparr>)))))))"

definition dec_usage :: "json option \<Rightarrow> err + usage option" where
  "dec_usage jo =
     (case jo of None \<Rightarrow> Inr None
      | Some j \<Rightarrow> if j = JNull then Inr None else
         bindr (dec_obj j) (\<lambda>ob.
         bindr (dec_int64 (ob ''total_tokens'')) (\<lambda>t.
         bindr (dec_int64 (ob ''input_tokens'')) (\<lambda>i.
         bindr (dec_int64 (ob ''cached_tokens'')) (\<lambda>c.
         bindr (dec_int64 (ob ''reasoning_tokens'')) (\<lambda>r.
         bindr (dec_int64 (ob ''output_tokens'')) (\<lambda>u.
           Inr (Some \<lparr>u_total = t, u_input = i, u_cached = c, u_reasoning = r, u_output = u\<rparr>))))))))"

section \<open>Round trips of the structs\<close>

definition norm_detail :: "tool_call_detail \<Rightarrow> tool_call_detail" where
  "norm_detail d = d\<lparr>tcd_args := norm_map (tcd_args d)\<rparr>"

definition norm_result :: "tool_call_result \<Rightarrow> tool_call_result" where
  "norm_result r = r\<lparr>tcr_outputs := norm_map (tcr_outputs r)\<rparr>"

definition norm_multimodal :: "multimodal \<Rightarrow> multimodal" where
  "norm_multimodal m = m\<lparr>mm_base64 := [], mm_meta := norm_map (mm_meta m)\<rparr>"

lemma norm_struct_idem [simp]:
  "norm_detail (norm_detail d) = norm_detail d"
  "norm_result (norm_result r) = norm_result r"
  "norm_multimodal (norm_multimodal m) = norm_multimodal m"
  by (simp_all add: norm_detail_def norm_result_def norm_multimodal_def)

lemma norm_map_json: "map (map_prod id val_of_json) (map (map_prod id json_of_val) m) = norm_map m"
  by (auto simp: norm_map_def)

lemma dec_detail_json [simp]: "dec_detail (json_detail d) = Inr (norm_detail d)"
  by (simp add: dec_detail_def json_detail_def json_map_def norm_map_json norm_detail_def
      del: map_map)

lemma dec_result_json [simp]: "dec_result (json_result r) = Inr (norm_result r)"
  by (simp add: dec_result_def json_result_def json_map_def norm_map_json norm_result_def
      del: map_map)

lemma dec_multimodal_json [simp]: "dec_multimodal (json_multimodal m) = Inr (norm_multimodal m)"
  by (simp add: dec_multimodal_def json_multimodal_def json_map_def norm_map_json
      norm_multimodal_def omit_str_def Let_def del: map_map)
    (auto simp: norm_map_def)

lemma word_of_int_sint: "word_of_int (sint w) = (w :: i64)"
  by transfer (simp add: take_bit_signed_take_bit)

lemma dec_int64_json [simp]: "dec_int64 (Some (json_i64 w)) = Inr w"
  using sint_range_size [of w] by (simp add: size_word_def json_i64_def word_of_int_sint del: of_int_sint)

lemma dec_usage_json [simp]: "dec_usage (Some (json_usage u)) = Inr (Some u)"
  by (simp add: dec_usage_def json_usage_def)

section \<open>The content wrapper\<close>

record wrapper =
  w_type :: string
  w_text :: string
  w_reasoning :: string
  w_details :: "tool_call_detail list"
  w_results :: "tool_call_result list"
  w_detail :: "multimodal option"
  w_parts :: "json list"

definition wrapper_zero :: wrapper where
  "wrapper_zero = \<lparr>w_type = [], w_text = [], w_reasoning = [], w_details = [], w_results = [],
     w_detail = None, w_parts = []\<rparr>"

definition json_wrapper :: "wrapper \<Rightarrow> json" where
  "json_wrapper w =
     JObj ([(''type'', JStr (w_type w))] @ omit_str ''text'' (w_text w)
       @ omit_str ''reasoning'' (w_reasoning w)
       @ omit_arr ''details'' (map json_detail (w_details w))
       @ omit_arr ''results'' (map json_result (w_results w))
       @ omit_opt ''detail'' (map_option json_multimodal (w_detail w))
       @ omit_arr ''parts'' (w_parts w))"

definition dec_opt_multimodal :: "json option \<Rightarrow> err + multimodal option" where
  "dec_opt_multimodal jo =
     (case jo of None \<Rightarrow> Inr None
      | Some j \<Rightarrow> if j = JNull then Inr None else bindr (dec_multimodal j) (\<lambda>m. Inr (Some m)))"

definition dec_wrapper :: "json \<Rightarrow> err + wrapper" where
  "dec_wrapper j =
     bindr (dec_obj j) (\<lambda>ob.
     bindr (dec_str (ob ''type'')) (\<lambda>ty.
     bindr (dec_str (ob ''text'')) (\<lambda>tx.
     bindr (dec_str (ob ''reasoning'')) (\<lambda>re.
     bindr (dec_arr (ob ''details'')) (\<lambda>jds.
     bindr (traverse dec_detail jds) (\<lambda>ds.
     bindr (dec_arr (ob ''results'')) (\<lambda>jrs.
     bindr (traverse dec_result jrs) (\<lambda>rs.
     bindr (dec_opt_multimodal (ob ''detail'')) (\<lambda>de.
     bindr (dec_arr (ob ''parts'')) (\<lambda>ps.
       Inr \<lparr>w_type = ty, w_text = tx, w_reasoning = re, w_details = ds, w_results = rs,
            w_detail = de, w_parts = ps\<rparr>))))))))))"

primrec marshal_content :: "content \<Rightarrow> wrapper" where
  "marshal_content (TextContent t) = wrapper_zero\<lparr>w_type := ''text'', w_text := t\<rparr>"
| "marshal_content (ReasoningContent r) =
     wrapper_zero\<lparr>w_type := ''reasoning'', w_reasoning := r\<rparr>"
| "marshal_content (ToolCallContent ds) =
     wrapper_zero\<lparr>w_type := ''tool_call'', w_details := ds\<rparr>"
| "marshal_content (ToolResultContent rs) =
     wrapper_zero\<lparr>w_type := ''tool_result'', w_results := rs\<rparr>"
| "marshal_content (MultiModalContent m) =
     wrapper_zero\<lparr>w_type := ''multi_modal'', w_detail := Some m\<rparr>"
| "marshal_content (CompositeContent ps) =
     wrapper_zero\<lparr>w_type := ''composite'', w_parts := map json_wrapper (map marshal_content ps)\<rparr>"
| "marshal_content NilContent = wrapper_zero\<lparr>w_type := ''unknown''\<rparr>"

text \<open>The parts of a decoded wrapper are strictly inside the document it was decoded from.\<close>

lemma map_of_size: "map_of ob k = Some j \<Longrightarrow> size j < size (JObj ob)"
proof (induction ob)
  case (Cons p ob)
  then show ?case by (cases p) (auto split: if_splits)
qed simp

lemma dec_arr_size:
  assumes "dec_arr (Some j) = Inr js" shows "size_list size js \<le> size j"
  using assms by (cases j) auto

lemma dec_wrapper_parts_size:
  assumes "dec_wrapper j = Inr w"
  shows "size_list size (w_parts w) < Suc (size j)"
proof -
  from assms obtain f where f: "dec_obj j = Inr f" and ps: "dec_arr (f ''parts'') = Inr (w_parts w)"
    by (auto simp: dec_wrapper_def bindr_Inr)
  show ?thesis
  proof (cases "f ''parts''")
    case None
    with ps show ?thesis by simp
  next
    case (Some j')
    with f obtain ob where "j = JObj ob" "map_of ob ''parts'' = Some j'"
      by (cases j) auto
    then have "size j' < size j" using map_of_size by blast
    with dec_arr_size [of j' "w_parts w"] ps Some show ?thesis by simp
  qed
qed

function unmarshal_content :: "wrapper \<Rightarrow> err + content" where
  "unmarshal_content w =
     (if w_type w = ''text'' then Inr (TextContent (w_text w))
      else if w_type w = ''reasoning'' then Inr (ReasoningContent (w_reasoning w))
      else if w_type w = ''tool_call'' then Inr (ToolCallContent (w_details w))
      else if w_type w = ''tool_result'' then Inr (ToolResultContent (w_results w))
      else if w_type w = ''multi_modal'' then
        Inr (MultiModalContent (case w_detail w of Some m \<Rightarrow> m
          | None \<Rightarrow> \<lparr>mm_id = [], mm_type = [], mm_path = [], mm_base64 = [], mm_mime = [],
                     mm_meta = []\<rparr>))
      else if w_type w = ''composite'' then
        bindr (traverse (\<lambda>raw.
            case dec_wrapper raw of
              Inl e \<Rightarrow> Inl (ErrWrap ''unmarshal composite part'' e)
            | Inr cw \<Rightarrow> unmarshal_content cw) (w_parts w))
          (\<lambda>parts. Inr (CompositeContent parts))
      else Inr NilContent)"
  by pat_completeness auto
termination
proof (relation "measure (\<lambda>w. size_list size (w_parts w))", goal_cases)
  case (2 w raw cw)
  then have "size_list size (w_parts cw) < Suc (size raw)"
    by (auto dest: dec_wrapper_parts_size)
  moreover from 2 have "Suc (size raw) \<le> size_list size (w_parts w)"
    by (auto simp: in_set_conv_decomp)
  ultimately show ?case by simp
qed simp

declare unmarshal_content.simps [simp del]

section \<open>Messages\<close>

definition marshal_message :: "message \<Rightarrow> json" where
  "marshal_message m =
     JObj ([(''id'', JStr (m_id m)), (''role'', JStr (m_role m)),
            (''content'', json_wrapper (marshal_content (m_content m)))]
       @ omit_str ''finish_reason'' (m_finish m)
       @ omit_opt ''usage'' (map_option json_usage (m_usage m)))"

definition unmarshal_message :: "json \<Rightarrow> err + message" where
  "unmarshal_message j =
     bindr (dec_obj j) (\<lambda>ob.
     bindr (dec_str (ob ''id'')) (\<lambda>i.
     bindr (dec_str (ob ''role'')) (\<lambda>r.
     bindr (case ob ''content'' of None \<Rightarrow> Inr wrapper_zero | Some c \<Rightarrow> dec_wrapper c) (\<lambda>w.
     bindr (dec_str (ob ''finish_reason'')) (\<lambda>f.
     bindr (dec_usage (ob ''usage'')) (\<lambda>u.
     bindr (unmarshal_content w) (\<lambda>c.
       Inr \<lparr>m_id = i, m_role = r, m_content = c, m_finish = f, m_usage = u\<rparr>)))))))"

section \<open>What the trip through JSON preserves\<close>

primrec json_norm :: "content \<Rightarrow> content" where
  "json_norm (TextContent t) = TextContent t"
| "json_norm (ReasoningContent r) = ReasoningContent r"
| "json_norm (ToolCallContent ds) = ToolCallContent (map norm_detail ds)"
| "json_norm (ToolResultContent rs) = ToolResultContent (map norm_result rs)"
| "json_norm (MultiModalContent m) = MultiModalContent (norm_multimodal m)"
| "json_norm (CompositeContent ps) = CompositeContent (map json_norm ps)"
| "json_norm NilContent = NilContent"

definition norm_message :: "message \<Rightarrow> message" where
  "norm_message m = m\<lparr>m_content := json_norm (m_content m)\<rparr>"

lemma json_norm_idem [simp]: "json_norm (json_norm c) = json_norm c"
  by (induction c) auto

definition norm_wrapper :: "wrapper \<Rightarrow> wrapper" where
  "norm_wrapper w = w\<lparr>w_details := map norm_detail (w_details w),
     w_results := map norm_result (w_results w),
     w_detail := map_option norm_multimodal (w_detail w)\<rparr>"

lemma json_multimodal_not_null [simp]: "json_multimodal m \<noteq> JNull"
  by (simp add: json_multimodal_def Let_def)

definition str_field :: "string \<Rightarrow> json option" where
  "str_field s = (if s = [] then None else Some (JStr s))"

definition arr_field :: "json list \<Rightarrow> json option" where
  "arr_field js = (if js = [] then None else Some (JArr js))"

lemma map_of_omit [simp]:
  "map_of (omit_str k s) k' = (if k' = k then str_field s else None)"
  "map_of (omit_arr k js) k' = (if k' = k then arr_field js else None)"
  "map_of (omit_opt k x) k' = (if k' = k then x else None)"
  by (auto simp: omit_str_def omit_arr_def omit_opt_def str_field_def arr_field_def
      split: option.splits)

lemma dec_fields [simp]:
  "dec_str (str_field s) = Inr s" "dec_arr (arr_field js) = Inr js"
  by (auto simp: str_field_def arr_field_def)

text \<open>Looking a field up in an object made of optional pieces.\<close>

definition orelse :: "'a option \<Rightarrow> 'a option \<Rightarrow> 'a option" where
  "orelse x y = (case x of None \<Rightarrow> y | Some v \<Rightarrow> Some v)"

lemma orelse_simps [simp]: "orelse None y = y" "orelse (Some v) y = Some v" "orelse x None = x"
  by (auto simp: orelse_def split: option.splits)

lemma map_of_pieces: "map_of (xs @ ys) k = orelse (map_of xs k) (map_of ys k)"
  by (simp add: orelse_def map_add_def split: option.splits)

lemma traverse_structs [simp]:
  "traverse dec_detail (map json_detail ds) = Inr (map norm_detail ds)"
  "traverse dec_result (map json_result rs) = Inr (map norm_result rs)"
  by (auto intro: traverse_map_Inr)

lemma dec_opt_multimodal_json [simp]:
  "dec_opt_multimodal (map_option json_multimodal x) = Inr (map_option norm_multimodal x)"
  by (cases x) (simp_all add: dec_opt_multimodal_def)

lemma dec_wrapper_json [simp]: "dec_wrapper (json_wrapper w) = Inr (norm_wrapper w)"
  by (simp add: dec_wrapper_def json_wrapper_def norm_wrapper_def map_of_pieces del: map_of_append)

lemma unmarshal_marshal [simp]:
  "unmarshal_content (norm_wrapper (marshal_content c)) = Inr (json_norm c)"
proof (induction c)
  case (CompositeContent ps)
  have "traverse (\<lambda>raw. case dec_wrapper raw of
            Inl e \<Rightarrow> Inl (ErrWrap ''unmarshal composite part'' e)
          | Inr cw \<Rightarrow> unmarshal_content cw) (map (\<lambda>c. json_wrapper (marshal_content c)) ps)
        = Inr (map json_norm ps)"
    by (rule traverse_map_Inr) (simp add: CompositeContent)
  then show ?case
    by (subst unmarshal_content.simps) (simp add: norm_wrapper_def wrapper_zero_def comp_def)
qed (subst unmarshal_content.simps, simp add: norm_wrapper_def wrapper_zero_def)+

lemma dec_usage_opt [simp]: "dec_usage (map_option json_usage u) = Inr u"
proof (cases u)
  case None
  then show ?thesis by (simp add: dec_usage_def)
qed simp

lemma unmarshal_marshal_message:
  "unmarshal_message (marshal_message m) = Inr (norm_message m)"
  by (simp add: unmarshal_message_def marshal_message_def norm_message_def
      map_of_pieces del: map_of_append)

text \<open>Tool results survive the trip up to the normal form of their outputs.\<close>

lemma part_results_norm: "part_results (json_norm c) = map norm_result (part_results c)"
  by (cases c) auto

lemma content_results_norm: "content_results (json_norm c) = map norm_result (content_results c)"
  by (cases c) (auto simp: map_concat part_results_norm comp_def)

end
