(* ===== verification/ToolArgs.thy ===== *)
theory ToolArgs
  imports Types
begin

text \<open>
  The argument helpers every tool uses (tools/tool.go): extraction of typed arguments from the
  \<open>map[string]any\<close> the LLM sent, result constructors and range checks.
\<close>

section \<open>Results\<close>

definition error_result :: "string \<Rightarrow> string \<Rightarrow> err \<Rightarrow> tool_call_result" where
  "error_result call_id tool e =
     \<lparr>tcr_id = call_id, tcr_name = tool, tcr_outputs = [(''error'', VStr (err_text e))]\<rparr>"

definition success_result ::
    "string \<Rightarrow> string \<Rightarrow> (string \<times> val) list \<Rightarrow> tool_call_result" where
  "success_result call_id tool outs = \<lparr>tcr_id = call_id, tcr_name = tool, tcr_outputs = outs\<rparr>"

definition ok_result :: "string \<Rightarrow> string \<Rightarrow> tool_call_result" where
  "ok_result call_id tool = success_result call_id tool [(''ok'', VBool True)]"

definition is_error :: "tool_call_result \<Rightarrow> bool" where
  "is_error r = (map_of (tcr_outputs r) ''error'' \<noteq> None)"

lemma is_error_simps [simp]:
  "is_error (error_result i t e)"
  "is_error (success_result i t outs) \<longleftrightarrow> map_of outs ''error'' \<noteq> None"
  by (simp_all add: is_error_def error_result_def success_result_def)

lemma result_name [simp]:
  "tcr_name (error_result i t e) = t" "tcr_name (success_result i t outs) = t"
  "tcr_id (error_result i t e) = i" "tcr_id (success_result i t outs) = i"
  "tcr_outputs (success_result i t outs) = outs"
  by (simp_all add: error_result_def success_result_def)

section \<open>Arguments\<close>

text \<open>The verb \<open>%T\<close> on the values JSON decoding produces.\<close>

fun go_type_name :: "val \<Rightarrow> string" where
  "go_type_name VNil = ''<nil>''"
| "go_type_name (VBool _) = ''bool''"
| "go_type_name (VInt _) = ''int''"
| "go_type_name (VFloat _) = ''float64''"
| "go_type_name (VStr _) = ''string''"
| "go_type_name (VList _) = ''[]interface {}''"
| "go_type_name (VMap _) = ''map[string]interface {}''"

abbreviation get_arg :: "tool_call_detail \<Rightarrow> string \<Rightarrow> val option" where
  "get_arg d k \<equiv> map_of (tcd_args d) k"

definition err_missing :: "string \<Rightarrow> err" where
  "err_missing k = ErrOther (''missing required argument: '' @ k)"

definition err_argument :: "string \<Rightarrow> string \<Rightarrow> err" where
  "err_argument k what = ErrOther (''argument '' @ go_quote k @ what)"

text \<open>\<open>Arg\<close>: a string argument, the empty string allowed.\<close>

definition arg :: "tool_call_detail \<Rightarrow> string \<Rightarrow> err + string" where
  "arg d k =
     (case get_arg d k of
        None \<Rightarrow> Inl (err_missing k)
      | Some (VStr s) \<Rightarrow> Inr s
      | Some _ \<Rightarrow> Inl (err_argument k '' must be a string''))"

definition required_string :: "tool_call_detail \<Rightarrow> string \<Rightarrow> err + string" where
  "required_string d k =
     (case get_arg d k of
        None \<Rightarrow> Inl (err_missing k)
      | Some (VStr s) \<Rightarrow>
          (if s = [] then Inl (err_argument k '' must not be empty'') else Inr s)
      | Some v \<Rightarrow> Inl (err_argument k ('' must be a string, got '' @ go_type_name v)))"

definition optional_string :: "tool_call_detail \<Rightarrow> string \<Rightarrow> string" where
  "optional_string d k =
     (case get_arg d k of None \<Rightarrow> [] | Some v \<Rightarrow> (case as_string v of None \<Rightarrow> [] | Some s \<Rightarrow> s))"

definition optional_string_err :: "tool_call_detail \<Rightarrow> string \<Rightarrow> err + string" where
  "optional_string_err d k =
     (case get_arg d k of
        None \<Rightarrow> Inr []
      | Some (VStr s) \<Rightarrow> Inr s
      | Some v \<Rightarrow> Inl (err_argument k ('' must be a string, got '' @ go_type_name v)))"

text \<open>
  \<open>int(n)\<close> for a \<open>float64\<close>: truncation towards zero; outside the range of \<open>int64\<close> the conversion is
  implementation defined, and gives \<open>-2^63\<close> on amd64.  The text of the error leaves the number out.
\<close>

definition trunc_rat :: "rat \<Rightarrow> int" where
  "trunc_rat r = (if r < 0 then \<lceil>r\<rceil> else \<lfloor>r\<rfloor>)"

definition go_int_of_float :: "rat \<Rightarrow> int" where
  "go_int_of_float r =
     (let i = trunc_rat r in if - (2 ^ 63) \<le> i \<and> i < 2 ^ 63 then i else - (2 ^ 63))"

definition int_of_number :: "string \<Rightarrow> val \<Rightarrow> err + int" where
  "int_of_number k v =
     (case v of
        VFloat r \<Rightarrow>
          (if r \<noteq> of_int (go_int_of_float r)
           then Inl (err_argument k '' must be a whole number, got '')
           else Inr (go_int_of_float r))
      | VInt i \<Rightarrow> Inr i
      | _ \<Rightarrow> Inl (err_argument k ('' must be an integer, got '' @ go_type_name v)))"

definition required_int :: "tool_call_detail \<Rightarrow> string \<Rightarrow> err + int" where
  "required_int d k =
     (case get_arg d k of None \<Rightarrow> Inl (err_missing k) | Some v \<Rightarrow> int_of_number k v)"

definition optional_int :: "tool_call_detail \<Rightarrow> string \<Rightarrow> int \<Rightarrow> err + int" where
  "optional_int d k dflt =
     (case get_arg d k of None \<Rightarrow> Inr dflt | Some v \<Rightarrow> int_of_number k v)"

definition optional_bool :: "tool_call_detail \<Rightarrow> string \<Rightarrow> bool \<Rightarrow> bool" where
  "optional_bool d k dflt =
     (case get_arg d k of None \<Rightarrow> dflt
      | Some v \<Rightarrow> (case as_bool v of None \<Rightarrow> dflt | Some b \<Rightarrow> b))"

definition one_of :: "string \<Rightarrow> string list \<Rightarrow> err option" where
  "one_of v allowed =
     (if v \<in> set allowed then None
      else Some (ErrOther (''value '' @ go_quote v @ '' is not valid; must be one of: ''
        @ ''['' @ str_join '' '' allowed @ '']'')))"

definition bounded_int :: "string \<Rightarrow> int \<Rightarrow> int \<Rightarrow> int \<Rightarrow> err option" where
  "bounded_int k v lo hi =
     (if v < lo \<or> v > hi
      then Some (err_argument k ('' must be between '' @ int_dec lo @ '' and '' @ int_dec hi
        @ '', got '' @ int_dec v))
      else None)"

section \<open>Facts\<close>

lemma trunc_rat_of_int [simp]: "trunc_rat (of_int i) = i"
  by (simp add: trunc_rat_def)

lemma int_of_number_Inr:
  "int_of_number k v = Inr i \<longleftrightarrow>
     v = VInt i \<or> (v = VFloat (of_int i) \<and> - (2 ^ 63) \<le> i \<and> i < 2 ^ 63)"
  by (cases v) (auto simp: int_of_number_def go_int_of_float_def Let_def split: if_splits)

lemma required_string_Inr:
  "required_string d k = Inr s \<longleftrightarrow> get_arg d k = Some (VStr s) \<and> s \<noteq> []"
  by (auto simp: required_string_def split: option.splits val.splits)

lemma arg_Inr: "arg d k = Inr s \<longleftrightarrow> get_arg d k = Some (VStr s)"
  by (auto simp: arg_def split: option.splits val.splits)

lemma one_of_None: "one_of v allowed = None \<longleftrightarrow> v \<in> set allowed"
  by (simp add: one_of_def)

end
