(* ===== verification/Registry.thy ===== *)
theory Registry
  imports ToolArgs "HOL-Library.List_Lexorder" "HOL-Library.Char_ord"
begin

text \<open>
  The tool registry (core/tool.go).  A tool implementation is a state-passing function: its context
  (the session id that \<open>core.SessionIDFromContext\<close> reads), the call, the program state before and
  after.  The registry is the record of its two maps; the mutex serialises the operations, so each
  is one function.
\<close>

type_synonym 's tool_fn = "string \<Rightarrow> tool_call_detail \<Rightarrow> 's \<Rightarrow> 's \<times> tool_call_result"

record 's registry_entry =
  re_fn :: "'s tool_fn"
  re_def :: tool_definition

record 's registry =
  rg_tools :: "(string \<times> 's registry_entry) list"
  rg_internal :: "string list"

definition empty_registry :: "'s registry" where
  "empty_registry = \<lparr>rg_tools = [], rg_internal = []\<rparr>"

definition reg_lookup :: "'s registry \<Rightarrow> string \<Rightarrow> 's registry_entry option" where
  "reg_lookup tr name = map_of (rg_tools tr) name"

definition reg_put :: "string \<Rightarrow> 's registry_entry \<Rightarrow> 's registry \<Rightarrow> 's registry" where
  "reg_put name e tr = tr\<lparr>rg_tools := AList.update name e (rg_tools tr)\<rparr>"

definition register :: "tool_definition \<Rightarrow> 's tool_fn \<Rightarrow> 's registry \<Rightarrow> 's registry" where
  "register def fn tr = reg_put (td_name def) \<lparr>re_fn = fn, re_def = def\<rparr> tr"

definition make_error_tool_outputs :: "err \<Rightarrow> (string \<times> val) list" where
  "make_error_tool_outputs e = [(''error'', VStr (err_text e))]"

definition reg_call ::
    "'s registry \<Rightarrow> string \<Rightarrow> tool_call_detail \<Rightarrow> 's \<Rightarrow> 's \<times> tool_call_result" where
  "reg_call tr sid d s =
     (case reg_lookup tr (tcd_name d) of
        None \<Rightarrow> (s, \<lparr>tcr_id = tcd_id d, tcr_name = tcd_name d,
                   tcr_outputs = make_error_tool_outputs
                     (ErrOther (''tool not found: '' @ tcd_name d))\<rparr>)
      | Some e \<Rightarrow> re_fn e sid d s)"

definition list_definitions :: "'s registry \<Rightarrow> tool_definition list" where
  "list_definitions tr = sort_key td_name (map (re_def \<circ> snd) (rg_tools tr))"

definition is_terminating :: "'s registry \<Rightarrow> string \<Rightarrow> bool" where
  "is_terminating tr name =
     (case reg_lookup tr name of None \<Rightarrow> False | Some e \<Rightarrow> td_terminating (re_def e))"

definition mark_as_internal :: "string list \<Rightarrow> 's registry \<Rightarrow> 's registry" where
  "mark_as_internal names tr = tr\<lparr>rg_internal := names @ rg_internal tr\<rparr>"

definition register_custom_tool ::
    "tool_definition \<Rightarrow> 's tool_fn \<Rightarrow> 's registry \<Rightarrow> err + 's registry" where
  "register_custom_tool def fn tr =
     (case reg_lookup tr (td_name def) of
        Some _ \<Rightarrow> Inl (ErrOther (''tool '' @ go_quote (td_name def) @ '' already registered''))
      | None \<Rightarrow> Inr (reg_put (td_name def) \<lparr>re_fn = fn, re_def = def\<rparr> tr))"

definition custom_tool_names :: "'s registry \<Rightarrow> string list" where
  "custom_tool_names tr = filter (\<lambda>n. n \<notin> set (rg_internal tr)) (map fst (rg_tools tr))"

text \<open>\<open>RegisterAll\<close> of tools/tool.go.\<close>

definition register_all :: "(tool_definition \<times> 's tool_fn) list \<Rightarrow> 's registry \<Rightarrow> 's registry" where
  "register_all ts tr = fold (\<lambda>(d, f). register d f) ts tr"

section \<open>The registry is a keyed store\<close>

interpretation reg: keyed_store reg_lookup reg_put
  by unfold_locales (simp add: reg_lookup_def reg_put_def)

text \<open>
  Well-formedness: one entry per name (they are the keys of a Go map) and every entry is stored
  under the name of its definition.
\<close>

definition registry_wf :: "'s registry \<Rightarrow> bool" where
  "registry_wf tr \<longleftrightarrow>
     distinct (map fst (rg_tools tr)) \<and>
     (\<forall>(n, e) \<in> set (rg_tools tr). td_name (re_def e) = n)"

lemma registry_wf_empty [simp]: "registry_wf empty_registry"
  by (simp add: registry_wf_def empty_registry_def)

lemma registry_wf_put:
  "registry_wf tr \<Longrightarrow> td_name (re_def e) = n \<Longrightarrow> registry_wf (reg_put n e tr)"
  using set_alist_update [of n e "rg_tools tr"]
  by (auto simp: registry_wf_def reg_put_def distinct_update)

lemma registry_wf_register [intro]: "registry_wf tr \<Longrightarrow> registry_wf (register d f tr)"
  by (simp add: register_def registry_wf_put)

lemma registry_wf_mark [intro]: "registry_wf tr \<Longrightarrow> registry_wf (mark_as_internal ns tr)"
  by (simp add: registry_wf_def mark_as_internal_def)

lemma registry_wf_custom:
  "registry_wf tr \<Longrightarrow> register_custom_tool d f tr = Inr tr' \<Longrightarrow> registry_wf tr'"
  by (auto simp: register_custom_tool_def intro!: registry_wf_put split: option.splits)

lemma registry_wf_register_all: "registry_wf tr \<Longrightarrow> registry_wf (register_all ts tr)"
  by (induction ts arbitrary: tr) (auto simp: register_all_def)

lemma names_of_wf:
  "registry_wf tr \<Longrightarrow> map td_name (map (re_def \<circ> snd) (rg_tools tr)) = map fst (rg_tools tr)"
  by (auto simp: registry_wf_def)

lemma list_definitions_sorted: "sorted (map td_name (list_definitions tr))"
  by (simp add: list_definitions_def)

lemma list_definitions_set:
  "set (list_definitions tr) = (re_def \<circ> snd) ` set (rg_tools tr)"
  by (simp add: list_definitions_def)

lemma list_definitions_distinct:
  assumes "registry_wf tr" shows "distinct (map td_name (list_definitions tr))"
proof -
  have "distinct (map td_name (map (re_def \<circ> snd) (rg_tools tr)))"
    using assms by (simp only: names_of_wf) (simp add: registry_wf_def)
  then show ?thesis
    by (simp only: list_definitions_def distinct_map distinct_sort set_sort)
qed

lemma reg_lookup_iff:
  assumes "registry_wf tr"
  shows "reg_lookup tr n = Some e \<longleftrightarrow> (n, e) \<in> set (rg_tools tr)"
  using assms by (simp add: reg_lookup_def registry_wf_def map_of_eq_Some_iff)

lemma list_definitions_iff:
  assumes wf: "registry_wf tr"
  shows "d \<in> set (list_definitions tr) \<longleftrightarrow> (\<exists>e. reg_lookup tr (td_name d) = Some e \<and> re_def e = d)"
proof -
  have "td_name (re_def e) = n" if "(n, e) \<in> set (rg_tools tr)" for n e
    using wf that by (auto simp: registry_wf_def)
  then have "(\<exists>e. (td_name d, e) \<in> set (rg_tools tr) \<and> re_def e = d)
      \<longleftrightarrow> (\<exists>n e. (n, e) \<in> set (rg_tools tr) \<and> re_def e = d)"
    by blast
  also have "\<dots> \<longleftrightarrow> d \<in> set (list_definitions tr)"
    by (force simp: list_definitions_set)
  finally show ?thesis by (simp only: reg_lookup_iff [OF wf])
qed

end
