(* ===== verification/PlanGraph.thy ===== *)
theory PlanGraph
  imports Types
begin

text \<open>
  The three-colour depth-first search of \<open>Plan.Validate\<close> (memory/working/working.go) over an arbitrary
  dependency graph, and its correctness: it reports a cycle exactly when there is one.  The closure
  \<open>dfs\<close> recurses on the parents of a node and mutates the captured colour map, so the model threads
  the colours.  Each recursive call starts at a white node and paints it, so a fuel of the number of
  white nodes is enough (\<open>dfs_enough\<close>): running out of fuel is \<open>None\<close>, a cycle is \<open>Some (Inl id)\<close>.
\<close>

datatype color = White | Gray | Black

fun dfs :: "nat \<Rightarrow> (string \<Rightarrow> string list) \<Rightarrow> (string \<Rightarrow> color) \<Rightarrow> string \<Rightarrow>
      (string + (string \<Rightarrow> color)) option"
  and dfs_parents :: "nat \<Rightarrow> (string \<Rightarrow> string list) \<Rightarrow> (string \<Rightarrow> color) \<Rightarrow> string list \<Rightarrow>
      (string + (string \<Rightarrow> color)) option" where
  "dfs 0 g c i = None"
| "dfs (Suc n) g c i =
     (case dfs_parents n g (c(i := Gray)) (g i) of
        None \<Rightarrow> None
      | Some (Inl e) \<Rightarrow> Some (Inl e)
      | Some (Inr c') \<Rightarrow> Some (Inr (c'(i := Black))))"
| "dfs_parents n g c [] = Some (Inr c)"
| "dfs_parents n g c (p # ps) =
     (case c p of
        Gray \<Rightarrow> Some (Inl p)
      | White \<Rightarrow>
          (case dfs n g c p of
             None \<Rightarrow> None
           | Some (Inl e) \<Rightarrow> Some (Inl e)
           | Some (Inr c') \<Rightarrow> dfs_parents n g c' ps)
      | Black \<Rightarrow> dfs_parents n g c ps)"

text \<open>The loop over all task ids.\<close>

fun visit_all :: "nat \<Rightarrow> (string \<Rightarrow> string list) \<Rightarrow> (string \<Rightarrow> color) \<Rightarrow> string list \<Rightarrow>
      (string + (string \<Rightarrow> color)) option" where
  "visit_all n g c [] = Some (Inr c)"
| "visit_all n g c (i # is) =
     (if c i = White then
        (case dfs n g c i of
           None \<Rightarrow> None
         | Some (Inl e) \<Rightarrow> Some (Inl e)
         | Some (Inr c') \<Rightarrow> visit_all n g c' is)
      else visit_all n g c is)"

definition edges :: "(string \<Rightarrow> string list) \<Rightarrow> (string \<times> string) set" where
  "edges g = {(x, y). y \<in> set (g x)}"

section \<open>What a search leaves unchanged\<close>

text \<open>Colours only grow: painted nodes keep their colour and no new gray node is left behind.\<close>

definition extends :: "(string \<Rightarrow> color) \<Rightarrow> (string \<Rightarrow> color) \<Rightarrow> bool" where
  "extends c c' \<longleftrightarrow> (\<forall>x. c x \<noteq> White \<longrightarrow> c' x = c x) \<and> (\<forall>x. c' x = Gray \<longrightarrow> c x = Gray)"

lemma extends_refl [simp]: "extends c c"
  unfolding extends_def by blast

lemma extends_keep: "extends c c' \<Longrightarrow> c x \<noteq> White \<Longrightarrow> c' x = c x"
  unfolding extends_def by blast

lemma extends_Gray: "extends c c' \<Longrightarrow> c' x = Gray \<Longrightarrow> c x = Gray"
  unfolding extends_def by blast

lemma extends_Black:
  assumes "extends c c'" and "c x = Black" shows "c' x = Black"
  using extends_keep [OF assms(1), of x] assms(2) by simp

lemma extends_Gray_keep:
  assumes "extends c c'" and "c x = Gray" shows "c' x = Gray"
  using extends_keep [OF assms(1), of x] assms(2) by simp

lemma extends_painted:
  assumes "extends c c'" and "c x \<noteq> White" shows "c' x \<noteq> White"
  using extends_keep [OF assms] assms(2) by simp

lemma extends_trans:
  assumes a: "extends c c1" and b: "extends c1 c2" shows "extends c c2"
  unfolding extends_def
proof (intro conjI allI impI)
  fix x assume x: "c x \<noteq> White"
  from extends_keep [OF b extends_painted [OF a x]] extends_keep [OF a x]
  show "c2 x = c x" by (rule trans)
next
  fix x assume "c2 x = Gray"
  then show "c x = Gray" by (rule extends_Gray [OF a extends_Gray [OF b]])
qed

lemma dfs_Inr_cases:
  assumes "dfs (Suc n) g c i = Some (Inr c')"
  obtains c2 where "dfs_parents n g (c(i := Gray)) (g i) = Some (Inr c2)" and "c' = c2(i := Black)"
  using assms by (auto split: option.splits sum.splits)

lemma dfs_parents_white_cases:
  assumes "dfs_parents n g c (p # ps) = Some (Inr c')" and "c p = White"
  obtains c1 where "dfs n g c p = Some (Inr c1)" and "dfs_parents n g c1 ps = Some (Inr c')"
  using assms by (auto split: option.splits sum.splits)

lemma dfs_frame:
  shows "dfs n g c i = Some (Inr c') \<Longrightarrow> c i = White \<Longrightarrow> c' i = Black \<and> extends c c'"
    and "dfs_parents n g c ps = Some (Inr c') \<Longrightarrow> (\<forall>p \<in> set ps. c' p = Black) \<and> extends c c'"
proof (induction n g c i and n g c ps arbitrary: c' and c' rule: dfs_dfs_parents.induct)
  case (2 n g c i)
  from "2.prems"(1) obtain c2 where c2: "dfs_parents n g (c(i := Gray)) (g i) = Some (Inr c2)"
    and c': "c' = c2(i := Black)"
    by (rule dfs_Inr_cases)
  from "2.IH" [OF c2] have "extends (c(i := Gray)) c2" by blast
  with c' "2.prems"(2) show ?case
    by (auto simp: extends_def)
next
  case (4 n g c p ps)
  show ?case
  proof (cases "c p")
    case White
    from "4.prems" White obtain c1 where c1: "dfs n g c p = Some (Inr c1)"
      and c2: "dfs_parents n g c1 ps = Some (Inr c')"
      by (rule dfs_parents_white_cases)
    have A: "c1 p = Black \<and> extends c c1" by (rule "4.IH"(1) [OF White c1 White])
    have B: "(\<forall>p \<in> set ps. c' p = Black) \<and> extends c1 c'"
      by (rule "4.IH"(2) [OF White c1 refl c2])
    from A B show ?thesis by (auto intro: extends_trans extends_Black)
  next
    case Gray
    with "4.prems" show ?thesis by simp
  next
    case Black
    with "4.prems" have r: "dfs_parents n g c ps = Some (Inr c')" by simp
    from "4.IH"(3) [OF Black r] Black show ?thesis by (auto intro: extends_Black)
  qed
qed auto

section \<open>Enough fuel\<close>

definition whites :: "string set \<Rightarrow> (string \<Rightarrow> color) \<Rightarrow> nat" where
  "whites U c = card {x \<in> U. c x = White}"

lemma whites_mono:
  assumes "finite U" and "\<And>x. c x \<noteq> White \<Longrightarrow> c' x \<noteq> White"
  shows "whites U c' \<le> whites U c"
  unfolding whites_def using assms by (intro card_mono) auto

lemma whites_gray:
  assumes "finite U" and "i \<in> U" and "c i = White"
  shows "Suc (whites U (c(i := Gray))) = whites U c"
proof -
  have "{x \<in> U. c x = White} = insert i {x \<in> U. (c(i := Gray)) x = White}"
    using assms by auto
  moreover have "i \<notin> {x \<in> U. (c(i := Gray)) x = White}" by simp
  ultimately show ?thesis using assms(1) by (simp add: whites_def)
qed

lemma dfs_enough:
  assumes U: "finite U" and closed: "\<And>x. x \<in> U \<Longrightarrow> set (g x) \<subseteq> U"
  shows "i \<in> U \<Longrightarrow> c i = White \<Longrightarrow> whites U c \<le> n \<Longrightarrow> dfs n g c i \<noteq> None"
    and "set ps \<subseteq> U \<Longrightarrow> whites U c \<le> n \<Longrightarrow> dfs_parents n g c ps \<noteq> None"
  using closed
proof (induction n g c i and n g c ps rule: dfs_dfs_parents.induct)
  case (1 g c i)
  then have "{x \<in> U. c x = White} \<noteq> {}" by blast
  with U 1 show ?case by (simp add: whites_def)
next
  case (2 n g c i)
  have "whites U (c(i := Gray)) \<le> n"
    using whites_gray [OF U, of i c] 2 by simp
  with 2 have "dfs_parents n g (c(i := Gray)) (g i) \<noteq> None" by blast
  then show ?case by (auto split: option.splits sum.splits)
next
  case (4 n g c p ps)
  show ?case
  proof (cases "c p")
    case White
    with 4 have ne: "dfs n g c p \<noteq> None" by simp
    show ?thesis
    proof (cases "dfs n g c p")
      case (Some r)
      show ?thesis
      proof (cases r)
        case (Inr c1)
        with Some have c1: "dfs n g c p = Some (Inr c1)" by simp
        have "whites U c1 \<le> whites U c"
          using dfs_frame(1) [OF c1 White] by (intro whites_mono [OF U]) (metis extends_painted)
        with "4.IH"(2) [OF White c1 refl] "4.prems" have "dfs_parents n g c1 ps \<noteq> None" by simp
        with White c1 show ?thesis by simp
      qed (use White Some in simp)
    qed (use ne in simp)
  qed (use 4 in auto)
qed simp_all

section \<open>A finished search is acyclic below the black nodes\<close>

definition settled :: "(string \<Rightarrow> string list) \<Rightarrow> (string \<Rightarrow> color) \<Rightarrow> bool" where
  "settled g c \<longleftrightarrow>
     (\<forall>x. c x = Black \<longrightarrow> (\<forall>y \<in> set (g x). c y = Black) \<and> (x, x) \<notin> (edges g)\<^sup>+)"

lemma settled_reach:
  assumes "settled g c" and "c x = Black" and "(x, y) \<in> (edges g)\<^sup>*"
  shows "c y = Black"
  using assms(3,2,1) by (induction rule: rtrancl_induct) (auto simp: settled_def edges_def)

lemma settled_blacken:
  assumes s: "settled g c" and gray: "c i = Gray" and succ: "\<forall>y \<in> set (g i). c y = Black"
  shows "settled g (c(i := Black))"
proof -
  have "(i, i) \<notin> (edges g)\<^sup>+"
  proof
    assume "(i, i) \<in> (edges g)\<^sup>+"
    then obtain y where "(i, y) \<in> edges g" and "(y, i) \<in> (edges g)\<^sup>*"
      by (meson tranclD)
    then have "c i = Black" using settled_reach [OF s, of y i] succ by (auto simp: edges_def)
    with gray show False by simp
  qed
  with s succ show ?thesis by (auto simp: settled_def)
qed

lemma dfs_settled:
  shows "dfs n g c i = Some (Inr c') \<Longrightarrow> c i = White \<Longrightarrow> settled g c \<Longrightarrow> settled g c'"
    and "dfs_parents n g c ps = Some (Inr c') \<Longrightarrow> settled g c \<Longrightarrow> settled g c'"
proof (induction n g c i and n g c ps arbitrary: c' and c' rule: dfs_dfs_parents.induct)
  case (2 n g c i)
  from "2.prems"(1) obtain c2 where c2: "dfs_parents n g (c(i := Gray)) (g i) = Some (Inr c2)"
    and c': "c' = c2(i := Black)"
    by (rule dfs_Inr_cases)
  have "settled g (c(i := Gray))" using "2.prems" by (auto simp: settled_def)
  with "2.IH" c2 have "settled g c2" by blast
  moreover from dfs_frame(2) [OF c2] have "c2 i = Gray" and "\<forall>y \<in> set (g i). c2 y = Black"
    by (auto intro: extends_Gray_keep)
  ultimately show ?case unfolding c' by (intro settled_blacken)
next
  case (4 n g c p ps)
  show ?case
  proof (cases "c p")
    case White
    from "4.prems"(1) White obtain c1 where c1: "dfs n g c p = Some (Inr c1)"
      and c2: "dfs_parents n g c1 ps = Some (Inr c')"
      by (rule dfs_parents_white_cases)
    have "settled g c1" by (rule "4.IH"(1) [OF White c1 White "4.prems"(2)])
    then show ?thesis by (rule "4.IH"(2) [OF White c1 refl c2])
  next
    case Gray
    with "4.prems" show ?thesis by simp
  next
    case Black
    with 4 show ?thesis by simp
  qed
qed simp_all

section \<open>A reported cycle is one\<close>

lemma dfs_cycle:
  shows "dfs n g c i = Some (Inl e) \<Longrightarrow> c i = White \<Longrightarrow>
           (\<And>x. c x = Gray \<Longrightarrow> (x, i) \<in> (edges g)\<^sup>*) \<Longrightarrow> (e, e) \<in> (edges g)\<^sup>+"
    and "dfs_parents n g c ps = Some (Inl e) \<Longrightarrow> set ps \<subseteq> set (g v) \<Longrightarrow> c v = Gray \<Longrightarrow>
           (\<And>x. c x = Gray \<Longrightarrow> (x, v) \<in> (edges g)\<^sup>*) \<Longrightarrow> (e, e) \<in> (edges g)\<^sup>+"
proof (induction n g c i and n g c ps arbitrary: e and e v rule: dfs_dfs_parents.induct)
  case (2 n g c i)
  from "2.prems"(1) have r: "dfs_parents n g (c(i := Gray)) (g i) = Some (Inl e)"
    by (auto split: option.splits sum.splits)
  show ?case
  proof (rule "2.IH" [OF r, of i])
    show "(x, i) \<in> (edges g)\<^sup>*" if "(c(i := Gray)) x = Gray" for x
      using that "2.prems"(3) by (cases "x = i") auto
  qed simp_all
next
  case (4 n g c p ps)
  have vp: "(v, p) \<in> edges g" using "4.prems"(2) by (simp add: edges_def)
  show ?case
  proof (cases "c p")
    case White
    show ?thesis
    proof (cases "dfs n g c p = Some (Inl e)")
      case True
      show ?thesis
        by (rule "4.IH"(1) [OF White True White])
          (use "4.prems"(4) vp in \<open>blast intro: rtrancl_into_rtrancl\<close>)
    next
      case False
      with "4.prems"(1) White obtain c1 where c1: "dfs n g c p = Some (Inr c1)"
        and r: "dfs_parents n g c1 ps = Some (Inl e)"
        by (auto split: option.splits sum.splits)
      from dfs_frame(1) [OF c1 White] have ex: "extends c c1" by blast
      show ?thesis
      proof (rule "4.IH"(2) [OF White c1 refl r, of v])
        show "set ps \<subseteq> set (g v)" using "4.prems"(2) by simp
        show "c1 v = Gray" using ex "4.prems"(3) by (rule extends_Gray_keep)
        show "(x, v) \<in> (edges g)\<^sup>*" if "c1 x = Gray" for x
          using "4.prems"(4) extends_Gray [OF ex that] by blast
      qed
    qed
  next
    case Gray
    with "4.prems" have "e = p" and "(p, v) \<in> (edges g)\<^sup>*" by auto
    with vp show ?thesis by (meson rtrancl_into_trancl1)
  next
    case Black
    with "4.prems"(1) have r: "dfs_parents n g c ps = Some (Inl e)" by simp
    show ?thesis
      by (rule "4.IH"(3) [OF Black r _ "4.prems"(3,4)]) (use "4.prems"(2) in simp_all)
  qed
qed simp_all

section \<open>The loop\<close>

lemma visit_all_Inr:
  "visit_all n g c is = Some (Inr c') \<Longrightarrow> settled g c \<Longrightarrow> (\<And>x. c x \<noteq> Gray) \<Longrightarrow>
     settled g c' \<and> (\<forall>i \<in> set is. c' i = Black) \<and> (\<forall>x. c x = Black \<longrightarrow> c' x = Black)"
proof (induction "is" arbitrary: c)
  case (Cons i "is")
  show ?case
  proof (cases "c i = White")
    case True
    with Cons.prems obtain c1 where c1: "dfs n g c i = Some (Inr c1)"
      and r: "visit_all n g c1 is = Some (Inr c')"
      by (auto split: option.splits sum.splits)
    from dfs_frame(1) [OF c1 True] have bl: "c1 i = Black" and ex: "extends c c1" by auto
    have "settled g c1" by (rule dfs_settled(1) [OF c1 True Cons.prems(2)])
    moreover have "\<And>x. c1 x \<noteq> Gray" using extends_Gray [OF ex] Cons.prems(3) by blast
    ultimately have "settled g c' \<and> (\<forall>i \<in> set is. c' i = Black)
        \<and> (\<forall>x. c1 x = Black \<longrightarrow> c' x = Black)"
      using Cons.IH [OF r] by blast
    then have st: "settled g c'" and bs: "\<forall>j \<in> set is. c' j = Black"
      and keep: "\<And>x. c1 x = Black \<Longrightarrow> c' x = Black" by blast+
    from bs keep [OF bl] have "\<forall>j \<in> set (i # is). c' j = Black" by (simp only: list.set ball_simps)
    moreover have "\<forall>x. c x = Black \<longrightarrow> c' x = Black"
      by (intro allI impI keep extends_Black [OF ex])
    ultimately show ?thesis using st by (intro conjI)
  next
    case False
    with Cons.prems(3) have ci: "c i = Black" by (cases "c i") auto
    from Cons.prems(1) False have r: "visit_all n g c is = Some (Inr c')" by simp
    have IH: "settled g c' \<and> (\<forall>i \<in> set is. c' i = Black) \<and> (\<forall>x. c x = Black \<longrightarrow> c' x = Black)"
      using Cons.IH [OF r Cons.prems(2,3)] .
    then have "c' i = Black" using ci by blast
    with IH show ?thesis unfolding list.set by blast
  qed
qed simp

lemma visit_all_Inl:
  "visit_all n g c is = Some (Inl e) \<Longrightarrow> (\<And>x. c x \<noteq> Gray) \<Longrightarrow> (e, e) \<in> (edges g)\<^sup>+"
proof (induction "is" arbitrary: c)
  case (Cons i "is")
  show ?case
  proof (cases "c i = White")
    case True
    show ?thesis
    proof (cases "dfs n g c i = Some (Inl e)")
      case t: True
      show ?thesis by (rule dfs_cycle(1) [OF t True]) (use Cons.prems in simp)
    next
      case False
      with Cons.prems(1) True obtain c1 where c1: "dfs n g c i = Some (Inr c1)"
        and r: "visit_all n g c1 is = Some (Inl e)"
        by (auto split: option.splits sum.splits)
      have "\<And>x. c1 x \<noteq> Gray"
        using dfs_frame(1) [OF c1 True] Cons.prems(2) by (blast dest: extends_Gray)
      with Cons.IH [OF r] show ?thesis .
    qed
  qed (use Cons in auto)
qed simp

lemma visit_all_enough:
  assumes U: "finite U" and closed: "\<And>x. x \<in> U \<Longrightarrow> set (g x) \<subseteq> U"
  shows "set is \<subseteq> U \<Longrightarrow> whites U c \<le> n \<Longrightarrow> visit_all n g c is \<noteq> None"
proof (induction "is" arbitrary: c)
  case (Cons i "is")
  show ?case
  proof (cases "c i = White")
    case True
    have ne: "dfs n g c i \<noteq> None"
      by (rule dfs_enough(1) [OF U]) (use closed Cons.prems True in auto)
    show ?thesis
    proof (cases "dfs n g c i")
      case (Some r)
      show ?thesis
      proof (cases r)
        case (Inr c1)
        with Some have c1: "dfs n g c i = Some (Inr c1)" by simp
        have "whites U c1 \<le> whites U c"
          using dfs_frame(1) [OF c1 True] by (intro whites_mono [OF U]) (metis extends_painted)
        with Cons have "visit_all n g c1 is \<noteq> None" by simp
        with True c1 show ?thesis by simp
      qed (use True Some in simp)
    qed (use ne in simp)
  qed (use Cons in simp)
qed simp

text \<open>
  The search over a closed finite graph decides acyclicity, whatever order the ids are visited in.
\<close>

lemma visit_all_correct:
  assumes U: "set order = U" and closed: "\<And>x. x \<in> U \<Longrightarrow> set (g x) \<subseteq> U"
    and outside: "\<And>x. x \<notin> U \<Longrightarrow> g x = []" and fuel: "card U \<le> n"
  shows "(\<exists>c. visit_all n g (\<lambda>_. White) order = Some (Inr c)) \<longleftrightarrow> acyclic (edges g)"
    and "visit_all n g (\<lambda>_. White) order \<noteq> None"
proof -
  have fin: "finite U" using U by auto
  have w: "whites U (\<lambda>_. White) \<le> n" using fuel by (simp add: whites_def)
  show ne: "visit_all n g (\<lambda>_. White) order \<noteq> None"
    by (rule visit_all_enough [OF fin]) (use closed U w in auto)
  have st: "settled g (\<lambda>_. White)" by (simp add: settled_def)
  have no_gray: "(\<lambda>_. White) x \<noteq> Gray" for x :: string by simp
  show "(\<exists>c. visit_all n g (\<lambda>_. White) order = Some (Inr c)) \<longleftrightarrow> acyclic (edges g)"
  proof
    assume "\<exists>c. visit_all n g (\<lambda>_. White) order = Some (Inr c)"
    then obtain c where c: "visit_all n g (\<lambda>_. White) order = Some (Inr c)" ..
    have fin_c: "settled g c \<and> (\<forall>i \<in> set order. c i = Black)"
      using visit_all_Inr [OF c st no_gray] by simp
    have "(x, x) \<notin> (edges g)\<^sup>+" for x
    proof (cases "x \<in> U")
      case True
      with fin_c U show ?thesis by (auto simp: settled_def)
    next
      case False
      then have "\<And>y. (x, y) \<notin> edges g" using outside by (simp add: edges_def)
      then show ?thesis by (metis tranclD)
    qed
    then show "acyclic (edges g)" by (simp add: acyclic_def)
  next
    assume ac: "acyclic (edges g)"
    show "\<exists>c. visit_all n g (\<lambda>_. White) order = Some (Inr c)"
    proof (cases "visit_all n g (\<lambda>_. White) order")
      case (Some r)
      show ?thesis
      proof (cases r)
        case (Inl e)
        with Some have "visit_all n g (\<lambda>_. White) order = Some (Inl e)" by simp
        from visit_all_Inl [OF this no_gray] ac show ?thesis by (simp add: acyclic_def)
      qed (use Some in simp)
    qed (use ne in simp)
  qed
qed

end
