(* ===== verification/Working.thy ===== *)
theory Working
  imports PlanGraph
begin

text \<open>
  Working memory (memory/working/working.go with persist/plan.go and persist/checkpoint.go): plans,
  their tasks, the in-memory plan store and the plan and checkpoint files.

  A \<open>*Plan\<close> is an address of the heap \<open>wm_heap\<close>: the store, the executor and the tools share one
  object and see each other's changes, as the source's pointers do.  A \<open>*Task\<close> is such an address
  with an index.  The association list \<open>wm_store\<close> is the map \<open>planStore\<close> in one iteration order; no
  theorem depends on which.  A file holds the value that was marshalled (the structs hold strings,
  integers and lists of them, which encoding/json reads back as they were); \<open>Timestamp\<close> is not kept.
  \<open>wm_io\<close> lists what the file system answers to the coming writes (\<open>Some e\<close>: the write fails and
  leaves the old file, as the source's rename of a temporary file does; exhausted: it succeeds).
  Versions are integers: \<open>Version++\<close> would wrap after \<open>2^63\<close> writes of one plan.
\<close>

section \<open>Types\<close>

datatype task_status = TaskStatusPending | TaskStatusDoing | TaskStatusDone | TaskStatusFailed

fun task_status_str :: "task_status \<Rightarrow> string" where
  "task_status_str TaskStatusPending = ''pending''"
| "task_status_str TaskStatusDoing = ''doing''"
| "task_status_str TaskStatusDone = ''done''"
| "task_status_str TaskStatusFailed = ''failed''"

definition task_status_of_str :: "string \<Rightarrow> task_status option" where
  "task_status_of_str s =
     List.find (\<lambda>t. task_status_str t = s)
       [TaskStatusPending, TaskStatusDoing, TaskStatusDone, TaskStatusFailed]"

lemma task_status_of_str_str [simp]: "task_status_of_str (task_status_str t) = Some t"
  by (cases t) (simp_all add: task_status_of_str_def)

record task =
  t_id :: string
  t_parent :: string
  t_goal :: string
  t_status :: task_status
  t_reason :: string
  t_action :: string
  t_usage :: "usage option"

record plan =
  p_id :: string
  p_session :: string
  p_name :: string
  p_tasks :: "task list"
  p_active :: "string list"
  p_state :: plan_state
  p_reason :: string
  p_version :: int

record checkpoint =
  cp_version :: int
  cp_reason :: string
  cp_plan :: plan

type_synonym paddr = nat
type_synonym task_ptr = "paddr \<times> nat"

record wm =
  wm_heap :: "paddr \<Rightarrow> plan"
  wm_next :: paddr
  wm_store :: "(string \<times> paddr) list"
  wm_files :: "(string \<times> plan) list"
  wm_cps :: "((string \<times> string) \<times> checkpoint) list"
  wm_io :: "err option list"

text \<open>Writing through a pointer, and allocating a plan.\<close>

definition upd_plan :: "paddr \<Rightarrow> (plan \<Rightarrow> plan) \<Rightarrow> wm \<Rightarrow> wm" where
  "upd_plan a f s = s\<lparr>wm_heap := (wm_heap s)(a := f (wm_heap s a))\<rparr>"

definition upd_task :: "task_ptr \<Rightarrow> (task \<Rightarrow> task) \<Rightarrow> wm \<Rightarrow> wm" where
  "upd_task q f s =
     upd_plan (fst q) (\<lambda>p. p\<lparr>p_tasks := (p_tasks p)[snd q := f (p_tasks p ! snd q)]\<rparr>) s"

definition new_plan :: "plan \<Rightarrow> wm \<Rightarrow> wm \<times> paddr" where
  "new_plan p s = (s\<lparr>wm_heap := (wm_heap s)(wm_next s := p), wm_next := Suc (wm_next s)\<rparr>, wm_next s)"

definition get_task :: "task_ptr \<Rightarrow> wm \<Rightarrow> task" where
  "get_task q s = p_tasks (wm_heap s (fst q)) ! snd q"

section \<open>Store and files\<close>

definition reset_plans :: "wm \<Rightarrow> wm" where
  "reset_plans s = s\<lparr>wm_store := []\<rparr>"

definition get_plan :: "wm \<Rightarrow> string \<Rightarrow> paddr option" where
  "get_plan s pid = map_of (wm_store s) pid"

definition store_plan :: "string \<Rightarrow> paddr \<Rightarrow> wm \<Rightarrow> wm" where
  "store_plan pid a s = s\<lparr>wm_store := AList.update pid a (wm_store s)\<rparr>"

text \<open>One write of the persistence layer: the answer, and the state with the answer consumed.\<close>

definition next_io :: "wm \<Rightarrow> err option \<times> wm" where
  "next_io s = (case wm_io s of [] \<Rightarrow> (None, s) | r # rs \<Rightarrow> (r, s\<lparr>wm_io := rs\<rparr>))"

definition pad_version :: "int \<Rightarrow> string" where
  "pad_version v = dec04 v"

definition save_plan_json :: "string \<Rightarrow> plan \<Rightarrow> wm \<Rightarrow> wm \<times> err option" where
  "save_plan_json pid p s =
     (case next_io s of
        (Some e, s') \<Rightarrow> (s', Some e)
      | (None, s') \<Rightarrow> (s'\<lparr>wm_files := AList.update pid p (wm_files s')\<rparr>, None))"

definition load_plan_json :: "string \<Rightarrow> wm \<Rightarrow> err + plan" where
  "load_plan_json pid s = of_opt (ErrWrap ''load plan'' (ErrOther ''no such file or directory'')) (map_of (wm_files s) pid)"

definition save_checkpoint_json :: "string \<Rightarrow> int \<Rightarrow> checkpoint \<Rightarrow> wm \<Rightarrow> wm \<times> err option" where
  "save_checkpoint_json pid v cp s =
     (case next_io s of
        (Some e, s') \<Rightarrow> (s', Some e)
      | (None, s') \<Rightarrow> (s'\<lparr>wm_cps := AList.update (pid, pad_version v) cp (wm_cps s')\<rparr>, None))"

definition load_checkpoint_json :: "string \<Rightarrow> int \<Rightarrow> wm \<Rightarrow> err + checkpoint" where
  "load_checkpoint_json pid v s =
     of_opt (ErrWrap ''checkpoint load'' (ErrOther ''no such file or directory''))
       (map_of (wm_cps s) (pid, pad_version v))"

text \<open>\<open>copyTasks\<close> makes the snapshot independent of the live plan: a HOL value already is.\<close>

definition snapshot :: "plan \<Rightarrow> plan" where
  "snapshot p =
     \<lparr>p_id = p_id p, p_session = p_session p, p_name = p_name p, p_tasks = p_tasks p,
      p_active = p_active p, p_state = p_state p, p_reason = p_reason p, p_version = p_version p\<rparr>"

lemma snapshot_id [simp]: "snapshot p = p"
  by (simp add: snapshot_def)

definition persist_plan :: "paddr \<Rightarrow> wm \<Rightarrow> wm \<times> err option" where
  "persist_plan a s = save_plan_json (p_id (wm_heap s a)) (wm_heap s a) s"

definition save_checkpoint :: "paddr option \<Rightarrow> string \<Rightarrow> wm \<Rightarrow> wm \<times> err option" where
  "save_checkpoint pa reason s =
     (case pa of
        None \<Rightarrow> (s, None)
      | Some a \<Rightarrow>
          (let s1 = upd_plan a (\<lambda>p. p\<lparr>p_version := p_version p + 1\<rparr>) s;
               p = wm_heap s1 a;
               cp = \<lparr>cp_version = p_version p, cp_reason = reason, cp_plan = snapshot p\<rparr>;
               s2 = store_plan (p_id p) a s1
           in (case persist_plan a s2 of
                 (s3, Some e) \<Rightarrow> (s3, Some (ErrWrap (''persist plan '' @ p_id p) e))
               | (s3, None) \<Rightarrow>
                   (case save_checkpoint_json (p_id p) (cp_version cp) cp s3 of
                      (s4, Some e) \<Rightarrow>
                        (s4, Some (ErrWrap (''persist checkpoint '' @ p_id p @ ''@'' @
                                            int_dec (cp_version cp)) e))
                    | (s4, None) \<Rightarrow> (s4, None)))))"

definition put_plan_with_reason :: "paddr option \<Rightarrow> string \<Rightarrow> wm \<Rightarrow> wm \<times> err option" where
  "put_plan_with_reason pa reason s = save_checkpoint pa reason s"

definition put_plan :: "paddr option \<Rightarrow> wm \<Rightarrow> wm \<times> err option" where
  "put_plan pa s = put_plan_with_reason pa [] s"

definition load_plan :: "string \<Rightarrow> wm \<Rightarrow> wm \<times> (err + paddr)" where
  "load_plan pid s =
     (case load_plan_json pid s of
        Inl e \<Rightarrow> (s, Inl e)
      | Inr p \<Rightarrow> (let (s1, a) = new_plan p s in (store_plan (p_id p) a s1, Inr a)))"

section \<open>Queries\<close>

definition list_plans :: "wm \<Rightarrow> paddr list" where
  "list_plans s = map snd (wm_store s)"

definition list_plans_by_session :: "string \<Rightarrow> wm \<Rightarrow> paddr list" where
  "list_plans_by_session sid s = filter (\<lambda>a. p_session (wm_heap s a) = sid) (map snd (wm_store s))"

definition is_incomplete :: "plan \<Rightarrow> bool" where
  "is_incomplete p = (p_state p = PSConfirmed \<or> p_state p = PSDoing \<or> p_state p = PSUpdating)"

definition latest_incomplete_plan :: "string \<Rightarrow> wm \<Rightarrow> paddr option" where
  "latest_incomplete_plan sid s =
     fold (\<lambda>a latest.
         if p_session (wm_heap s a) = sid \<and> is_incomplete (wm_heap s a) then
           (case latest of
              None \<Rightarrow> Some a
            | Some l \<Rightarrow> if p_version (wm_heap s a) > p_version (wm_heap s l) then Some a else latest)
         else latest)
       (map snd (wm_store s)) None"

definition find_task_idx :: "plan \<Rightarrow> string \<Rightarrow> nat option" where
  "find_task_idx p tid = find_idx (\<lambda>t. t_id t = tid) (p_tasks p)"

definition find_task :: "wm \<Rightarrow> string \<Rightarrow> task_ptr option" where
  "find_task s tid =
     first_some (\<lambda>a. map_option (Pair a) (find_idx (\<lambda>t. t_id t = tid) (p_tasks (wm_heap s a))))
       (map snd (wm_store s))"

definition split_parent_ids :: "string \<Rightarrow> string list" where
  "split_parent_ids raw =
     (let r = go_trim_space raw in
      if r = [] then []
      else filter (\<lambda>p. p \<noteq> []) (map go_trim_space (split_char CHR '','' r)))"

abbreviation parents :: "task \<Rightarrow> string list" where
  "parents t \<equiv> split_parent_ids (t_parent t)"

definition status_map :: "task list \<Rightarrow> string \<Rightarrow> task_status option" where
  "status_map ts = foldl (\<lambda>m t. m(t_id t \<mapsto> t_status t)) (\<lambda>_. None) ts"

definition all_parents_done :: "string list \<Rightarrow> (string \<Rightarrow> task_status option) \<Rightarrow> bool" where
  "all_parents_done pids m = list_all (\<lambda>pid. m pid = Some TaskStatusDone) pids"

text \<open>The pointers \<open>&plan.SubTasks[i]\<close> are the indices \<open>i\<close>.\<close>

definition ready_tasks :: "plan \<Rightarrow> nat list" where
  "ready_tasks p =
     (let ts = p_tasks p; m = status_map ts in
      filter (\<lambda>i. t_status (ts ! i) = TaskStatusPending \<and> all_parents_done (parents (ts ! i)) m)
        [0..<length ts])"

definition remove_from_slice :: "string list \<Rightarrow> string \<Rightarrow> string list" where
  "remove_from_slice xs item =
     (case find_idx (\<lambda>s. s = item) xs of None \<Rightarrow> xs | Some i \<Rightarrow> take i xs @ drop (Suc i) xs)"

section \<open>Validation\<close>

definition parent_error :: "string set \<Rightarrow> task \<Rightarrow> err option" where
  "parent_error ids t =
     first_some (\<lambda>pid.
         if pid \<notin> ids then
           Some (ErrOther (''task '' @ go_quote (t_id t) @ '' depends on non-existent parent '' @
                           go_quote pid))
         else if pid = t_id t then
           Some (ErrOther (''task '' @ go_quote (t_id t) @ '' depends on itself''))
         else None)
       (parents t)"

definition dep_graph :: "task list \<Rightarrow> string \<Rightarrow> string list" where
  "dep_graph ts i = concat (map parents (filter (\<lambda>t. t_id t = i) ts))"

text \<open>\<open>order\<close> is the order in which the loop \<open>for id := range taskIDs\<close> meets the ids.\<close>

definition validate :: "string list \<Rightarrow> plan \<Rightarrow> err option" where
  "validate order p =
     (let ts = p_tasks p in
      if ts = [] then Some (ErrOther ''plan has no tasks'')
      else (case first_some (parent_error (set (map t_id ts))) ts of
              Some e \<Rightarrow> Some e
            | None \<Rightarrow>
                (case visit_all (length ts) (dep_graph ts) (\<lambda>_. White) order of
                   None \<Rightarrow> Some (ErrOther ''out of fuel'')
                 | Some (Inl pid) \<Rightarrow>
                     Some (ErrOther (''plan contains a dependency cycle involving '' @ go_quote pid))
                 | Some (Inr c) \<Rightarrow> None)))"

definition depends :: "task list \<Rightarrow> (string \<times> string) set" where
  "depends ts = {(t_id t, pid) | t pid. t \<in> set ts \<and> pid \<in> set (parents t)}"

definition well_formed_plan :: "plan \<Rightarrow> bool" where
  "well_formed_plan p \<longleftrightarrow>
     p_tasks p \<noteq> [] \<and>
     (\<forall>t \<in> set (p_tasks p). set (parents t) \<subseteq> t_id ` set (p_tasks p)) \<and>
     acyclic (depends (p_tasks p))"

section \<open>Maps for tool output\<close>

definition usage_to_map :: "usage \<Rightarrow> val" where
  "usage_to_map u =
     VMap [(''total_tokens'', VInt (sint (u_total u))), (''input_tokens'', VInt (sint (u_input u))),
           (''cached_tokens'', VInt (sint (u_cached u))),
           (''reasoning_tokens'', VInt (sint (u_reasoning u))),
           (''output_tokens'', VInt (sint (u_output u)))]"

definition task_to_map :: "task \<Rightarrow> (string \<times> val) list" where
  "task_to_map t =
     [(''id'', VStr (t_id t)), (''goal'', VStr (t_goal t)),
      (''status'', VStr (task_status_str (t_status t)))]
     @ (if t_parent t \<noteq> [] then [(''parent_task_id'', VStr (t_parent t))] else [])
     @ (if t_reason t \<noteq> [] then [(''finished_reason'', VStr (t_reason t))] else [])
     @ (if t_action t \<noteq> [] then [(''action'', VStr (t_action t))] else [])
     @ (case t_usage t of None \<Rightarrow> [] | Some u \<Rightarrow> [(''usage'', usage_to_map u)])"

definition plan_to_map :: "plan \<Rightarrow> (string \<times> val) list" where
  "plan_to_map p =
     [(''id'', VStr (p_id p)), (''session_id'', VStr (p_session p)), (''name'', VStr (p_name p)),
      (''subtasks'', VList (map (\<lambda>t. VMap (task_to_map t)) (p_tasks p))),
      (''current_active_subtask_ids'', VList (map VStr (p_active p))),
      (''status'', VStr (plan_state_str (p_state p))), (''finished_reason'', VStr (p_reason p)),
      (''version'', VInt (p_version p))]"

definition plans_to_maps :: "wm \<Rightarrow> paddr list \<Rightarrow> val" where
  "plans_to_maps s as = VList (map (\<lambda>a. VMap (plan_to_map (wm_heap s a))) as)"

section \<open>Pointers, store and files\<close>

interpretation store: keyed_store get_plan store_plan
  by unfold_locales (simp add: get_plan_def store_plan_def)

text \<open>Checkpoint files are a table keyed by plan and version: the padded numerals are distinct.\<close>

definition get_cp :: "wm \<Rightarrow> string \<times> int \<Rightarrow> checkpoint option" where
  "get_cp s k = map_of (wm_cps s) (fst k, pad_version (snd k))"

definition put_cp :: "string \<times> int \<Rightarrow> checkpoint \<Rightarrow> wm \<Rightarrow> wm" where
  "put_cp k cp s = s\<lparr>wm_cps := AList.update (fst k, pad_version (snd k)) cp (wm_cps s)\<rparr>"

interpretation cps: keyed_store get_cp put_cp
  by unfold_locales (auto simp: get_cp_def put_cp_def pad_version_def dec04_inj prod_eq_iff)

lemma load_checkpoint_get:
  "load_checkpoint_json pid v s
     = of_opt (ErrWrap ''checkpoint load'' (ErrOther ''no such file or directory'')) (get_cp s (pid, v))"
  by (simp add: load_checkpoint_json_def get_cp_def)

lemma upd_plan_sel [simp]:
  "wm_next (upd_plan a f s) = wm_next s" "wm_store (upd_plan a f s) = wm_store s"
  "wm_files (upd_plan a f s) = wm_files s" "wm_cps (upd_plan a f s) = wm_cps s"
  "wm_io (upd_plan a f s) = wm_io s"
  "wm_heap (upd_plan a f s) b = (if b = a then f (wm_heap s a) else wm_heap s b)"
  by (simp_all add: upd_plan_def)

lemma store_plan_sel [simp]:
  "wm_next (store_plan k a s) = wm_next s" "wm_heap (store_plan k a s) = wm_heap s"
  "wm_files (store_plan k a s) = wm_files s" "wm_cps (store_plan k a s) = wm_cps s"
  "wm_io (store_plan k a s) = wm_io s"
  "wm_store (store_plan k a s) = AList.update k a (wm_store s)"
  by (simp_all add: store_plan_def)

lemma put_cp_sel [simp]:
  "wm_next (put_cp k cp s) = wm_next s" "wm_heap (put_cp k cp s) = wm_heap s"
  "wm_files (put_cp k cp s) = wm_files s" "wm_io (put_cp k cp s) = wm_io s"
  "wm_store (put_cp k cp s) = wm_store s"
  by (simp_all add: put_cp_def)

text \<open>The in-memory effect of every \<open>PutPlan\<close>, whatever the file system answers.\<close>

definition bump :: "paddr \<Rightarrow> wm \<Rightarrow> wm" where
  "bump a s = store_plan (p_id (wm_heap s a)) a (upd_plan a (\<lambda>p. p\<lparr>p_version := p_version p + 1\<rparr>) s)"

lemma bump_sel [simp]:
  "wm_next (bump a s) = wm_next s"
  "wm_files (bump a s) = wm_files s" "wm_cps (bump a s) = wm_cps s" "wm_io (bump a s) = wm_io s"
  "wm_heap (bump a s) b
     = (if b = a then (wm_heap s a)\<lparr>p_version := p_version (wm_heap s a) + 1\<rparr> else wm_heap s b)"
  "wm_store (bump a s) = AList.update (p_id (wm_heap s a)) a (wm_store s)"
  by (simp_all add: bump_def)

text \<open>The three outcomes of \<open>saveCheckpoint\<close>: both files written, the first refused, the second refused.\<close>

lemma save_checkpoint_cases:
  defines "P \<equiv> \<lambda>s a. wm_heap (bump a s) a"
  shows "save_checkpoint (Some a) r s =
     (case next_io (bump a s) of
        (Some e, s1) \<Rightarrow> (s1, Some (ErrWrap (''persist plan '' @ p_id (wm_heap s a)) e))
      | (None, s1) \<Rightarrow>
          (let s2 = s1\<lparr>wm_files := AList.update (p_id (wm_heap s a)) (P s a) (wm_files s1)\<rparr> in
           case next_io s2 of
             (Some e, s3) \<Rightarrow>
               (s3, Some (ErrWrap (''persist checkpoint '' @ p_id (wm_heap s a) @ ''@'' @
                                   int_dec (p_version (wm_heap s a) + 1)) e))
           | (None, s3) \<Rightarrow>
               (put_cp (p_id (wm_heap s a), p_version (wm_heap s a) + 1)
                  \<lparr>cp_version = p_version (wm_heap s a) + 1, cp_reason = r, cp_plan = P s a\<rparr> s3, None)))"
  by (simp add: save_checkpoint_def Let_def persist_plan_def save_plan_json_def
      save_checkpoint_json_def P_def bump_def put_cp_def split: prod.splits option.splits)

lemma next_io_sel [simp]:
  "wm_heap (snd (next_io s)) = wm_heap s" "wm_next (snd (next_io s)) = wm_next s"
  "wm_store (snd (next_io s)) = wm_store s" "wm_files (snd (next_io s)) = wm_files s"
  "wm_cps (snd (next_io s)) = wm_cps s"
  by (simp_all add: next_io_def split: list.splits)

lemma next_io_eq:
  "next_io s = (r, s') \<Longrightarrow> wm_heap s' = wm_heap s \<and> wm_next s' = wm_next s \<and> wm_store s' = wm_store s
     \<and> wm_files s' = wm_files s \<and> wm_cps s' = wm_cps s"
  by (metis next_io_sel snd_conv)

text \<open>Memory after a save does not depend on the outcome; files are as before or hold the new version.\<close>

lemma save_checkpoint_memory:
  assumes "save_checkpoint (Some a) r s = (s', res)"
  shows "wm_heap s' = wm_heap (bump a s)" and "wm_store s' = wm_store (bump a s)"
    and "wm_next s' = wm_next s"
  using assms
  by (auto simp: save_checkpoint_cases Let_def split: prod.splits option.splits dest!: next_io_eq)

lemma put_plan_memory [record_frame]:
  "wm_heap (fst (put_plan (Some a) s)) = wm_heap (bump a s)"
  "wm_store (fst (put_plan (Some a) s)) = wm_store (bump a s)"
  "wm_next (fst (put_plan (Some a) s)) = wm_next s"
  using save_checkpoint_memory [of a "[]" s "fst (put_plan (Some a) s)" "snd (put_plan (Some a) s)"]
  by (simp_all add: put_plan_def put_plan_with_reason_def)

text \<open>What a save does to the checkpoint files: at most the file of the new version changes.\<close>

lemma save_checkpoint_files:
  assumes "save_checkpoint (Some a) r s = (s', res)"
  defines "k \<equiv> (p_id (wm_heap s a), p_version (wm_heap s a) + 1)"
  shows "res = None \<Longrightarrow> get_cp s' k
           = Some \<lparr>cp_version = snd k, cp_reason = r, cp_plan = wm_heap s' a\<rparr>"
    and "res = None \<Longrightarrow> map_of (wm_files s') (fst k) = Some (wm_heap s' a)"
    and "res \<noteq> None \<Longrightarrow> wm_cps s' = wm_cps s"
    and "k' \<noteq> k \<Longrightarrow> get_cp s' k' = get_cp s k'"
    and "pid \<noteq> fst k \<Longrightarrow> map_of (wm_files s') pid = map_of (wm_files s) pid"
proof -
  have g: "get_cp t x = get_cp u x" if "wm_cps t = wm_cps u" for t u x
    using that by (simp add: get_cp_def)
  show "res = None \<Longrightarrow> get_cp s' k
           = Some \<lparr>cp_version = snd k, cp_reason = r, cp_plan = wm_heap s' a\<rparr>"
    and "res = None \<Longrightarrow> map_of (wm_files s') (fst k) = Some (wm_heap s' a)"
    and "res \<noteq> None \<Longrightarrow> wm_cps s' = wm_cps s"
    and "pid \<noteq> fst k \<Longrightarrow> map_of (wm_files s') pid = map_of (wm_files s) pid"
    using assms(1)
    by (auto simp: save_checkpoint_cases Let_def k_def cps.get_put split: prod.splits option.splits
        dest!: next_io_eq)
  show "k' \<noteq> k \<Longrightarrow> get_cp s' k' = get_cp s k'"
    using assms(1)
    by (auto simp: save_checkpoint_cases Let_def k_def cps.get_put split: prod.splits option.splits
        dest!: next_io_eq intro: g)
qed

section \<open>Ready tasks\<close>

lemma status_map_alt: "status_map ts = map_of (rev (map (\<lambda>t. (t_id t, t_status t)) ts))"
proof -
  have "foldl (\<lambda>m t. m(t_id t \<mapsto> t_status t)) m ts
      = m ++ map_of (rev (map (\<lambda>t. (t_id t, t_status t)) ts))" for m
    by (induction ts arbitrary: m) simp_all
  then show ?thesis by (simp add: status_map_def)
qed

lemma status_map_distinct:
  assumes "distinct (map t_id ts)"
  shows "status_map ts i = Some st \<longleftrightarrow> (\<exists>t \<in> set ts. t_id t = i \<and> t_status t = st)"
proof -
  let ?l = "map (\<lambda>t. (t_id t, t_status t)) ts"
  have "map fst (rev ?l) = rev (map t_id ts)" by (simp add: rev_map comp_def)
  then have "distinct (map fst (rev ?l))" using assms by simp
  then show ?thesis by (auto simp: status_map_alt)
qed

text \<open>A parent id is done when the last task of that id is.\<close>

definition parent_done :: "task list \<Rightarrow> string \<Rightarrow> bool" where
  "parent_done ts pid \<longleftrightarrow>
     (\<exists>i < length ts. t_id (ts ! i) = pid \<and> t_status (ts ! i) = TaskStatusDone \<and>
        (\<forall>j. i < j \<and> j < length ts \<longrightarrow> t_id (ts ! j) \<noteq> pid))"

lemma status_map_done: "status_map ts pid = Some TaskStatusDone \<longleftrightarrow> parent_done ts pid"
proof (induction ts rule: rev_induct)
  case (snoc t ts)
  show ?case
  proof (cases "t_id t = pid")
    case True
    have "i = length ts" if "i < length (ts @ [t])" "\<forall>j. i < j \<and> j < length (ts @ [t])
        \<longrightarrow> t_id ((ts @ [t]) ! j) \<noteq> pid" for i
      using that True by (metis length_append_singleton less_antisym lessI nth_append_length)
    then have "parent_done (ts @ [t]) pid \<longleftrightarrow> t_status t = TaskStatusDone"
      unfolding parent_done_def using True
      by (metis (no_types, lifting) length_append_singleton lessI less_antisym not_less_eq nth_append_length)
    with True show ?thesis by (simp add: status_map_def)
  next
    case False
    have "parent_done (ts @ [t]) pid \<longleftrightarrow> parent_done ts pid"
      using False unfolding parent_done_def
      by (auto simp: nth_append less_Suc_eq)
    with snoc False show ?thesis by (simp add: status_map_def)
  qed
qed (simp add: status_map_def parent_done_def)

lemma ready_tasks_set:
  "i \<in> set (ready_tasks p) \<longleftrightarrow>
     i < length (p_tasks p) \<and> t_status (p_tasks p ! i) = TaskStatusPending \<and>
     (\<forall>pid \<in> set (parents (p_tasks p ! i)). status_map (p_tasks p) pid = Some TaskStatusDone)"
  by (auto simp: ready_tasks_def Let_def all_parents_done_def list_all_iff)

lemma sorted_ready_tasks: "sorted (ready_tasks p)" "distinct (ready_tasks p)"
  by (simp_all add: ready_tasks_def Let_def sorted_wrt_filter)

section \<open>Validation\<close>

lemma depends_graph: "depends ts = edges (dep_graph ts)"
  by (auto simp: depends_def edges_def dep_graph_def)

lemma parent_error_None:
  "parent_error ids t = None \<longleftrightarrow> set (parents t) \<subseteq> ids - {t_id t}"
  by (auto simp: parent_error_def)

lemma validate_None:
  assumes "set order = t_id ` set (p_tasks p)"
  shows "validate order p = None \<longleftrightarrow> well_formed_plan p"
proof -
  let ?ts = "p_tasks p" and ?U = "t_id ` set (p_tasks p)"
  have graph: "set (dep_graph ?ts x) \<subseteq> \<Union> (set ` parents ` set ?ts)" for x
    by (auto simp: dep_graph_def)
  have self: "(\<forall>t \<in> set ?ts. t_id t \<notin> set (parents t))" if "acyclic (depends ?ts)"
    using that by (auto simp: acyclic_def depends_def)
  show ?thesis
  proof (cases "\<forall>t \<in> set ?ts. set (parents t) \<subseteq> ?U")
    case True
    have closed: "\<And>x. x \<in> ?U \<Longrightarrow> set (dep_graph ?ts x) \<subseteq> ?U" using graph True by blast
    have outside: "\<And>x. x \<notin> ?U \<Longrightarrow> dep_graph ?ts x = []"
      by (auto simp: dep_graph_def filter_empty_conv)
    have card: "card ?U \<le> length ?ts" by (metis card_length length_map list.set_map)
    note vc = visit_all_correct [OF assms closed outside card]
    have fs: "first_some (parent_error ?U) ?ts = None \<longleftrightarrow> (\<forall>t \<in> set ?ts. t_id t \<notin> set (parents t))"
      using True by (auto simp: parent_error_None)
    have "validate order p = None \<longleftrightarrow> ?ts \<noteq> [] \<and> first_some (parent_error ?U) ?ts = None
        \<and> (\<exists>c. visit_all (length ?ts) (dep_graph ?ts) (\<lambda>_. White) order = Some (Inr c))"
      by (auto simp: validate_def Let_def simp del: first_some_None split: option.splits sum.splits)
    also have "\<dots> \<longleftrightarrow> ?ts \<noteq> [] \<and> acyclic (depends ?ts)"
      using vc(1) fs self by (simp add: depends_graph) blast
    finally show ?thesis using True by (auto simp: well_formed_plan_def)
  next
    case False
    then have "first_some (parent_error ?U) ?ts \<noteq> None" by (auto simp: parent_error_None)
    then obtain e where "first_some (parent_error ?U) ?ts = Some e" by blast
    then have "validate order p \<noteq> None" by (simp add: validate_def Let_def)
    with False show ?thesis by (auto simp: well_formed_plan_def)
  qed
qed

text \<open>In a well-formed plan whose other tasks are all done, some pending task is ready.\<close>

lemma ready_exists:
  assumes wf: "well_formed_plan p" and d: "distinct (map t_id (p_tasks p))"
    and st: "\<And>t. t \<in> set (p_tasks p) \<Longrightarrow> t_status t \<in> {TaskStatusPending, TaskStatusDone}"
    and ex: "t \<in> set (p_tasks p)" "t_status t = TaskStatusPending"
  shows "ready_tasks p \<noteq> []"
proof -
  let ?ts = "p_tasks p"
  have "finite (depends ?ts)"
  proof (rule finite_subset)
    show "depends ?ts \<subseteq> t_id ` set ?ts \<times> t_id ` set ?ts"
      using wf by (auto simp: depends_def well_formed_plan_def)
  qed simp
  moreover have "acyclic ((depends ?ts)\<inverse>)" using wf by (simp add: well_formed_plan_def)
  ultimately have "wf ((depends ?ts)\<inverse>)" by (intro finite_acyclic_wf) simp_all
  then obtain i where i: "i \<in> {t_id t | t. t \<in> set ?ts \<and> t_status t = TaskStatusPending}"
    and least: "\<And>j. (j, i) \<in> (depends ?ts)\<inverse> \<Longrightarrow>
        j \<notin> {t_id t | t. t \<in> set ?ts \<and> t_status t = TaskStatusPending}"
    using ex by (elim wfE_min [where Q = "{t_id t | t. t \<in> set ?ts \<and> t_status t = TaskStatusPending}"])
      blast+
  from i obtain u where u: "u \<in> set ?ts" "t_status u = TaskStatusPending" "t_id u = i" by blast
  have "status_map ?ts pid = Some TaskStatusDone" if pid: "pid \<in> set (parents u)" for pid
  proof -
    from wf u pid obtain v where v: "v \<in> set ?ts" "t_id v = pid"
      unfolding well_formed_plan_def by blast
    have "(pid, i) \<in> (depends ?ts)\<inverse>" using u pid by (auto simp: depends_def)
    from least [OF this] v st [of v] show ?thesis
      using status_map_distinct [OF d] by blast
  qed
  moreover obtain k where "k < length ?ts" "?ts ! k = u" using u(1) by (auto simp: in_set_conv_nth)
  ultimately have "k \<in> set (ready_tasks p)" using u(2) by (simp add: ready_tasks_set)
  then show ?thesis by auto
qed

section \<open>Parent ids\<close>

text \<open>An id as the generator makes them: visible ASCII without the separator.\<close>

definition clean_id :: "string \<Rightarrow> bool" where
  "clean_id s \<longleftrightarrow> s \<noteq> [] \<and> list_all (\<lambda>c. 32 < (of_char c :: nat) \<and> (of_char c :: nat) < 127 \<and> c \<noteq> CHR '','') s"

definition join_ids :: "string list \<Rightarrow> string" where
  "join_ids ids = concat (case ids of [] \<Rightarrow> [] | i # is \<Rightarrow> i # map (\<lambda>j. CHR '','' # j) is)"

lemma split_join_ids:
  "ids \<noteq> [] \<Longrightarrow> \<forall>i \<in> set ids. CHR '','' \<notin> set i \<Longrightarrow> split_char CHR '','' (join_ids ids) = ids"
proof (induction ids)
  case (Cons i ids)
  show ?case
  proof (cases ids)
    case Nil
    with Cons.prems show ?thesis by (simp add: join_ids_def split_char_none)
  next
    case (Cons j js)
    then have "join_ids (i # ids) = i @ CHR '','' # join_ids ids" by (simp add: join_ids_def)
    with Cons Cons.prems Cons.IH show ?thesis by (simp add: split_char_append)
  qed
qed simp

lemma trim_seq_visible:
  assumes "list_all (\<lambda>p. p \<noteq> [] \<and> \<not> (32 < (of_char (hd p) :: nat) \<and> (of_char (hd p) :: nat) < 127)) code"
    and "32 < (of_char c :: nat)" "(of_char c :: nat) < 127"
  shows "trim_seq code (c # s) = c # s"
proof -
  have "strip_prefix p (c # s) = None" if "p \<in> set code" for p
  proof -
    have "p \<noteq> []" "hd p \<noteq> c" using that assms by (auto simp: list_all_iff)
    then show ?thesis by (cases p) simp_all
  qed
  then have "first_some (\<lambda>p. strip_prefix p (c # s)) code = None" by simp
  then show ?thesis by (subst trim_seq.simps) (simp only: option.case)
qed

lemma trim_seq_Nil [simp]: "trim_seq code [] = []"
  by (subst trim_seq.simps) (simp split: option.split)

lemma go_trim_Nil [simp]: "go_trim_space [] = []"
  by (simp add: go_trim_space_def)

lemma go_trim_visible:
  assumes "s \<noteq> []" "32 < (of_char (hd s) :: nat)" "(of_char (hd s) :: nat) < 127"
    "32 < (of_char (last s) :: nat)" "(of_char (last s) :: nat) < 127"
  shows "go_trim_space s = s"
proof -
  let ?ok = "list_all (\<lambda>p. p \<noteq> [] \<and> \<not> (32 < (of_char (hd p) :: nat) \<and> (of_char (hd p) :: nat) < 127))"
  have code: "?ok go_spaces" "?ok (map rev go_spaces)" by (simp_all add: go_spaces_def)
  have a: "trim_seq go_spaces s = s"
    using assms(1-3) trim_seq_visible [OF code(1), of "hd s" "tl s"] by simp
  have r: "rev s = last s # rev (butlast s)"
    using assms(1) by (metis append_butlast_last_id rev_eq_Cons_iff rev_rev_ident)
  have "trim_seq (map rev go_spaces) (rev s) = rev s"
    unfolding r by (rule trim_seq_visible [OF code(2) assms(4,5)])
  with a show ?thesis by (simp add: go_trim_space_def)
qed

lemma clean_id_D:
  assumes "clean_id s"
  shows "s \<noteq> []" "CHR '','' \<notin> set s" "go_trim_space s = s"
proof -
  show "s \<noteq> []" "CHR '','' \<notin> set s" using assms by (auto simp: clean_id_def list_all_iff)
  show "go_trim_space s = s"
    by (rule go_trim_visible) (use assms in \<open>auto simp: clean_id_def list_all_iff\<close>)
qed

lemma join_ids_ends:
  "\<forall>i \<in> set ids. clean_id i \<Longrightarrow> ids \<noteq> [] \<Longrightarrow>
     join_ids ids \<noteq> [] \<and> hd (join_ids ids) = hd (hd ids) \<and> last (join_ids ids) = last (last ids)"
proof (induction ids)
  case (Cons i ids)
  show ?case
  proof (cases ids)
    case Nil
    with Cons.prems show ?thesis by (auto simp: join_ids_def clean_id_def)
  next
    case (Cons j js)
    then have "join_ids (i # ids) = i @ CHR '','' # join_ids ids" by (simp add: join_ids_def)
    with Cons Cons.prems Cons.IH show ?thesis by (auto simp: clean_id_def)
  qed
qed simp

lemma split_parent_ids_join:
  assumes "\<forall>i \<in> set ids. clean_id i"
  shows "split_parent_ids (join_ids ids) = ids"
proof (cases "ids = []")
  case True
  then show ?thesis by (simp add: split_parent_ids_def join_ids_def)
next
  case False
  have ends: "join_ids ids \<noteq> []" "hd (join_ids ids) = hd (hd ids)" "last (join_ids ids) = last (last ids)"
    using join_ids_ends [OF assms False] by simp_all
  have "clean_id (hd ids)" "clean_id (last ids)" using assms False by simp_all
  then have "go_trim_space (join_ids ids) = join_ids ids"
    by (intro go_trim_visible) (auto simp: ends clean_id_def list_all_iff)
  moreover have "map go_trim_space ids = ids" using assms by (simp add: clean_id_D map_idI)
  moreover have "filter (\<lambda>p. p \<noteq> []) ids = ids" using assms by (simp add: clean_id_D filter_id_conv)
  ultimately show ?thesis
    using ends assms False by (simp add: split_parent_ids_def split_join_ids clean_id_D)
qed

section \<open>The latest incomplete plan\<close>

abbreviation resumable :: "string \<Rightarrow> wm \<Rightarrow> paddr \<Rightarrow> bool" where
  "resumable sid s a \<equiv> p_session (wm_heap s a) = sid \<and> is_incomplete (wm_heap s a)"

lemma latest_incomplete_spec:
  "case latest_incomplete_plan sid s of
     None \<Rightarrow> \<forall>a \<in> set (list_plans s). \<not> resumable sid s a
   | Some l \<Rightarrow> l \<in> set (list_plans s) \<and> resumable sid s l \<and>
       (\<forall>a \<in> set (list_plans s). resumable sid s a \<longrightarrow> p_version (wm_heap s a) \<le> p_version (wm_heap s l))"
proof -
  let ?f = "\<lambda>a latest. if resumable sid s a then
      (case latest of None \<Rightarrow> Some a
       | Some l \<Rightarrow> if p_version (wm_heap s a) > p_version (wm_heap s l) then Some a else latest)
      else latest"
  have "case fold ?f as None of
     None \<Rightarrow> \<forall>a \<in> set as. \<not> resumable sid s a
   | Some l \<Rightarrow> l \<in> set as \<and> resumable sid s l \<and>
       (\<forall>a \<in> set as. resumable sid s a \<longrightarrow> p_version (wm_heap s a) \<le> p_version (wm_heap s l))" for as
  proof (induction as rule: rev_induct)
    case (snoc a as)
    have step: "fold ?f (as @ [a]) None = ?f a (fold ?f as None)" by simp
    show ?case
    proof (cases "fold ?f as None")
      case None
      with snoc have none: "\<forall>b \<in> set as. \<not> resumable sid s b" by simp
      have r: "fold ?f (as @ [a]) None = (if resumable sid s a then Some a else None)"
        unfolding step None by simp
      show ?thesis unfolding r using none by auto
    next
      case (Some l)
      with snoc have l: "l \<in> set as" "resumable sid s l"
        and le: "\<And>b. b \<in> set as \<Longrightarrow> resumable sid s b \<Longrightarrow> p_version (wm_heap s b) \<le> p_version (wm_heap s l)"
        by simp_all
      have r: "fold ?f (as @ [a]) None =
          (if resumable sid s a \<and> p_version (wm_heap s a) > p_version (wm_heap s l) then Some a else Some l)"
        unfolding step Some by simp
      show ?thesis unfolding r using l le by (auto intro: order_trans less_imp_le)
    qed
  qed simp
  from this [of "map snd (wm_store s)"] show ?thesis
    unfolding latest_incomplete_plan_def list_plans_def .
qed

section \<open>Tasks by id\<close>

lemma find_task_Some:
  "find_task s tid = Some (a, i) \<Longrightarrow>
     a \<in> set (list_plans s) \<and> i < length (p_tasks (wm_heap s a)) \<and> t_id (p_tasks (wm_heap s a) ! i) = tid"
  unfolding find_task_def list_plans_def by (drule first_some_SomeD) (auto dest: find_idx_Some)

lemma find_task_exists:
  assumes "a \<in> set (list_plans s)" "t \<in> set (p_tasks (wm_heap s a))"
  shows "find_task s (t_id t) \<noteq> None"
proof -
  obtain i where "find_idx (\<lambda>u. t_id u = t_id t) (p_tasks (wm_heap s a)) = Some i"
    using find_idx_exI [OF assms(2), of "\<lambda>u. t_id u = t_id t"] by blast
  with assms(1) show ?thesis
    unfolding find_task_def list_plans_def first_some_None by (metis option.simps(3) option.simps(9))
qed

lemma remove_from_slice_remove1: "remove_from_slice xs x = remove1 x xs"
  unfolding remove_from_slice_def
proof (induction xs)
  case (Cons y ys)
  show ?case
  proof (cases "find_idx (\<lambda>s. s = x) ys")
    case None
    then have "x \<notin> set ys" by (auto simp: find_idx_None)
    with None show ?thesis by (cases "y = x") (simp_all add: remove1_idem)
  next
    case (Some i)
    with Cons.IH have "take i ys @ drop (Suc i) ys = remove1 x ys" by simp
    with Some show ?thesis by simp
  qed
qed simp

section \<open>The invariant of working memory\<close>

text \<open>
  Plans are stored, saved and checkpointed under their own id, pointers are allocated, and no plan
  has two tasks of one id.
\<close>

definition plan_ok :: "string \<Rightarrow> plan \<Rightarrow> bool" where
  "plan_ok pid p \<longleftrightarrow> p_id p = pid \<and> distinct (map t_id (p_tasks p))"

definition wm_inv :: "wm \<Rightarrow> bool" where
  "wm_inv s \<longleftrightarrow>
     distinct (map fst (wm_store s)) \<and>
     (\<forall>pid a. get_plan s pid = Some a \<longrightarrow> a < wm_next s \<and> plan_ok pid (wm_heap s a)) \<and>
     (\<forall>pid p. map_of (wm_files s) pid = Some p \<longrightarrow> plan_ok pid p) \<and>
     (\<forall>pid v cp. get_cp s (pid, v) = Some cp \<longrightarrow> cp_version cp = v \<and> plan_ok pid (cp_plan cp))"

definition empty_wm :: wm where
  "empty_wm = \<lparr>wm_heap = (\<lambda>_. \<lparr>p_id = [], p_session = [], p_name = [], p_tasks = [], p_active = [],
       p_state = PSNone, p_reason = [], p_version = 0\<rparr>),
     wm_next = 0, wm_store = [], wm_files = [], wm_cps = [], wm_io = []\<rparr>"

lemma wm_inv_empty: "wm_inv empty_wm"
  by (simp add: wm_inv_def empty_wm_def get_plan_def get_cp_def)

lemma wm_inv_plan:
  "wm_inv s \<Longrightarrow> get_plan s pid = Some a \<Longrightarrow> a < wm_next s \<and> plan_ok pid (wm_heap s a)"
  unfolding wm_inv_def by blast

lemma wm_inv_cp:
  "wm_inv s \<Longrightarrow> get_cp s (pid, v) = Some cp \<Longrightarrow> cp_version cp = v \<and> plan_ok pid (cp_plan cp)"
  unfolding wm_inv_def by blast

lemma wm_inv_store_iff:
  assumes "wm_inv s"
  shows "a \<in> set (list_plans s) \<longleftrightarrow> get_plan s (p_id (wm_heap s a)) = Some a"
proof
  assume "a \<in> set (list_plans s)"
  then obtain k where "(k, a) \<in> set (wm_store s)" by (auto simp: list_plans_def)
  then have k: "get_plan s k = Some a"
    using assms by (simp add: wm_inv_def get_plan_def)
  with wm_inv_plan [OF assms k] show "get_plan s (p_id (wm_heap s a)) = Some a"
    by (simp add: plan_ok_def)
next
  assume "get_plan s (p_id (wm_heap s a)) = Some a"
  then show "a \<in> set (list_plans s)"
    by (force simp: list_plans_def get_plan_def dest: map_of_SomeD)
qed

text \<open>
  Everything the tools and the executor do to a plan is an update through its pointer that keeps the
  id and the distinctness of the task ids, followed by a save.
\<close>

definition owned :: "wm \<Rightarrow> paddr \<Rightarrow> bool" where
  "owned s a \<longleftrightarrow> a < wm_next s \<and> plan_ok (p_id (wm_heap s a)) (wm_heap s a) \<and>
     (\<forall>pid. get_plan s pid = Some a \<longrightarrow> pid = p_id (wm_heap s a))"

lemma owned_stored: "wm_inv s \<Longrightarrow> get_plan s pid = Some a \<Longrightarrow> owned s a"
  unfolding owned_def using wm_inv_plan by (metis plan_ok_def)

lemma wm_inv_upd_plan:
  assumes inv: "wm_inv s" and ok: "\<And>pid. plan_ok pid (wm_heap s a) \<Longrightarrow> plan_ok pid (f (wm_heap s a))"
  shows "wm_inv (upd_plan a f s)"
proof -
  have "get_plan (upd_plan a f s) = get_plan s" "get_cp (upd_plan a f s) = get_cp s"
    by (auto simp: get_plan_def get_cp_def)
  with inv ok show ?thesis unfolding wm_inv_def by simp
qed

lemma owned_upd_plan:
  assumes "owned s a" and "\<And>pid. plan_ok pid (wm_heap s a) \<Longrightarrow> plan_ok pid (f (wm_heap s a))"
  shows "owned (upd_plan a f s) a"
proof -
  have g: "get_plan (upd_plan a f s) = get_plan s" by (auto simp: get_plan_def)
  from assms have "plan_ok (p_id (wm_heap s a)) (f (wm_heap s a))" by (simp add: owned_def)
  then have id: "p_id (f (wm_heap s a)) = p_id (wm_heap s a)" by (simp add: plan_ok_def)
  show ?thesis using assms unfolding owned_def by (simp add: g id)
qed

lemma wm_inv_save:
  assumes inv: "wm_inv s" and own: "owned s a"
  shows "wm_inv (fst (save_checkpoint (Some a) r s))"
proof -
  obtain s' res where sv: "save_checkpoint (Some a) r s = (s', res)" by fastforce
  note mem = save_checkpoint_memory [OF sv] and files = save_checkpoint_files [OF sv]
  let ?id = "p_id (wm_heap s a)"
  have ok: "plan_ok ?id (wm_heap s' a)" using own by (simp add: mem owned_def plan_ok_def)
  have gp: "get_plan s' pid = (if pid = ?id then Some a else get_plan s pid)" for pid
    by (simp add: get_plan_def mem)
  show ?thesis unfolding sv fst_conv wm_inv_def
  proof (intro conjI allI impI)
    show "distinct (map fst (wm_store s'))" using inv by (simp add: mem wm_inv_def distinct_update)
  next
    fix pid b assume b: "get_plan s' pid = Some b"
    have only: "pid = ?id" if "get_plan s pid = Some a" using own that unfolding owned_def by blast
    from b consider "pid = ?id" "b = a" | "pid \<noteq> ?id" "get_plan s pid = Some b" "b \<noteq> a"
      unfolding gp using only by (metis option.inject)
    then have "b < wm_next s' \<and> plan_ok pid (wm_heap s' b)"
    proof cases
      case 1
      with own ok show ?thesis by (simp add: mem(3) owned_def)
    next
      case 2
      then have "wm_heap s' b = wm_heap s b" by (simp add: mem(1))
      with wm_inv_plan [OF inv 2(2)] show ?thesis by (simp only: mem(3))
    qed
    then show "b < wm_next s'" "plan_ok pid (wm_heap s' b)" by blast+
  next
    fix pid p assume p: "map_of (wm_files s') pid = Some p"
    have same: "map_of (wm_files s') pid = map_of (wm_files s) pid \<or> (pid = ?id \<and> p = wm_heap s' a)"
      using sv p by (auto simp: save_checkpoint_cases Let_def mem split: prod.splits option.splits
          if_splits dest!: next_io_eq)
    then show "plan_ok pid p" using p inv ok by (auto simp: wm_inv_def)
  next
    fix pid v cp assume c: "get_cp s' (pid, v) = Some cp"
    show "cp_version cp = v" "plan_ok pid (cp_plan cp)"
    proof (atomize (full), cases "(pid, v) = (?id, p_version (wm_heap s a) + 1) \<and> res = None")
      case True
      with c files(1) ok show "cp_version cp = v \<and> plan_ok pid (cp_plan cp)" by auto
    next
      case False
      then have "get_cp s' (pid, v) = get_cp s (pid, v)"
        using files(3) files(4) [of "(pid, v)"] by (auto simp: get_cp_def)
      with c wm_inv_cp [OF inv] show "cp_version cp = v \<and> plan_ok pid (cp_plan cp)" by metis
    qed
  qed
qed

lemma wm_inv_put: "wm_inv s \<Longrightarrow> owned s a \<Longrightarrow> wm_inv (fst (put_plan (Some a) s))"
  unfolding put_plan_def put_plan_with_reason_def by (rule wm_inv_save)

lemma wm_inv_change:
  assumes "wm_inv s" "owned s a"
    and "\<And>pid. plan_ok pid (wm_heap s a) \<Longrightarrow> plan_ok pid (f (wm_heap s a))"
  shows "wm_inv (fst (put_plan (Some a) (upd_plan a f s)))"
  by (rule wm_inv_put [OF wm_inv_upd_plan owned_upd_plan]) (use assms in auto)

lemma wm_inv_new:
  assumes "wm_inv s" "plan_ok (p_id p) p" "new_plan p s = (s', a)"
  shows "wm_inv s'" "owned s' a" "wm_heap s' a = p" "a = wm_next s" "get_plan s' = get_plan s"
proof -
  have s': "s' = s\<lparr>wm_heap := (wm_heap s)(wm_next s := p), wm_next := Suc (wm_next s)\<rparr>"
    and a: "a = wm_next s" using assms(3) by (auto simp: new_plan_def)
  have g: "get_plan s' = get_plan s" "get_cp s' = get_cp s" "wm_store s' = wm_store s" "wm_files s' = wm_files s"
    by (simp_all add: s' get_plan_def get_cp_def fun_eq_iff)
  show "get_plan s' = get_plan s" "a = wm_next s" "wm_heap s' a = p" using g a by (simp_all add: s')
  have lt: "get_plan s pid = Some b \<Longrightarrow> b < wm_next s" for pid b using wm_inv_plan [OF assms(1)] by blast
  show "wm_inv s'"
    using assms(1) unfolding wm_inv_def g by (auto simp: s' less_Suc_eq dest: lt)
  show "owned s' a" unfolding owned_def g using assms(2) by (auto simp: s' a dest: lt)
qed

section \<open>The history of a plan\<close>

text \<open>
  The steps of working memory: a mutation through a stored pointer that keeps the version, a save, the
  creation of a plan under a fresh id, a reload from disk, and the loss of the in-memory store at a
  restart.  Writes may fail at any step (\<open>wm_io\<close> is arbitrary).
\<close>

definition unused_id :: "string \<Rightarrow> wm \<Rightarrow> bool" where
  "unused_id pid s \<longleftrightarrow>
     get_plan s pid = None \<and> map_of (wm_files s) pid = None \<and> (\<forall>v. get_cp s (pid, v) = None)"

inductive wm_step :: "wm \<Rightarrow> wm \<Rightarrow> bool" where
  mutate: "get_plan s pid = Some a \<Longrightarrow> (plan_ok pid (wm_heap s a) \<Longrightarrow> plan_ok pid (f (wm_heap s a))) \<Longrightarrow>
     p_version (f (wm_heap s a)) = p_version (wm_heap s a) \<Longrightarrow> wm_step s (upd_plan a f s)"
| save: "get_plan s pid = Some a \<Longrightarrow> wm_step s (fst (save_checkpoint (Some a) r s))"
| create: "unused_id (p_id p) s \<Longrightarrow> plan_ok (p_id p) p \<Longrightarrow> new_plan p s = (s1, a) \<Longrightarrow>
     wm_step s (fst (save_checkpoint (Some a) r s1))"
| reload: "wm_step s (fst (load_plan pid s))"
| restart: "wm_step s (reset_plans s)"

inductive_cases wm_stepE: "wm_step s t"

text \<open>Every checkpoint is at most as new as the plan file and as the live plan.\<close>

definition history_ok :: "wm \<Rightarrow> bool" where
  "history_ok s \<longleftrightarrow>
     (\<forall>pid v cp. get_cp s (pid, v) = Some cp \<longrightarrow>
        (\<exists>p. map_of (wm_files s) pid = Some p \<and> v \<le> p_version p) \<and>
        (\<forall>a. get_plan s pid = Some a \<longrightarrow> v \<le> p_version (wm_heap s a)))"

lemma history_D:
  assumes "history_ok s" "get_cp s (pid, v) = Some cp"
  obtains p where "map_of (wm_files s) pid = Some p" "v \<le> p_version p"
    and "\<And>a. get_plan s pid = Some a \<Longrightarrow> v \<le> p_version (wm_heap s a)"
  using assms unfolding history_ok_def by blast

lemma get_upd_plan [simp]:
  "get_plan (upd_plan a f s) = get_plan s" "get_cp (upd_plan a f s) = get_cp s"
  by (auto simp: get_plan_def get_cp_def)

lemma stored_unique:
  "wm_inv s \<Longrightarrow> get_plan s pid = Some a \<Longrightarrow> get_plan s pid' = Some a \<Longrightarrow> pid' = pid"
  using wm_inv_plan by (metis plan_ok_def)

text \<open>A save keeps every checkpoint whose version the live plan has reached.\<close>

lemma save_keeps_cp:
  assumes "save_checkpoint (Some a) r s = (s', res)"
    and "pid = p_id (wm_heap s a) \<Longrightarrow> v \<le> p_version (wm_heap s a)"
  shows "get_cp s' (pid, v) = get_cp s (pid, v)"
  by (rule save_checkpoint_files(4) [OF assms(1)]) (use assms(2) in auto)

lemma history_save:
  assumes inv: "wm_inv s" and own: "owned s a"
    and hist: "\<And>pid v cp. get_cp s (pid, v) = Some cp \<Longrightarrow>
        (\<exists>p. map_of (wm_files s) pid = Some p \<and> v \<le> p_version p) \<and>
        (\<forall>b. get_plan s pid = Some b \<longrightarrow> v \<le> p_version (wm_heap s b)) \<and>
        (pid = p_id (wm_heap s a) \<longrightarrow> v \<le> p_version (wm_heap s a))"
  shows "history_ok (fst (save_checkpoint (Some a) r s))"
proof -
  obtain s' res where sv: "save_checkpoint (Some a) r s = (s', res)" by fastforce
  note mem = save_checkpoint_memory [OF sv] and files = save_checkpoint_files [OF sv]
  let ?id = "p_id (wm_heap s a)" and ?n = "p_version (wm_heap s a)"
  have ver: "p_version (wm_heap s' a) = ?n + 1" by (simp add: mem)
  have gp: "get_plan s' pid = (if pid = ?id then Some a else get_plan s pid)" for pid
    by (simp add: get_plan_def mem)
  have on_disk: "map_of (wm_files s') pid = map_of (wm_files s) pid \<or>
      pid = ?id \<and> map_of (wm_files s') pid = Some (wm_heap s' a)" for pid
    using sv by (auto simp: save_checkpoint_cases Let_def mem split: prod.splits option.splits
        if_splits dest!: next_io_eq)
  have new: "pid = ?id \<and> v = ?n + 1 \<and> res = None"
    if "get_cp s' (pid, v) = Some cp" "get_cp s (pid, v) \<noteq> Some cp" for pid v cp
    using that files(3) files(4) [of "(pid, v)"] by (cases res) (auto simp: get_cp_def)
  show ?thesis unfolding sv fst_conv history_ok_def
  proof (intro allI impI conjI)
    fix pid v cp assume c: "get_cp s' (pid, v) = Some cp"
    show "\<exists>p. map_of (wm_files s') pid = Some p \<and> v \<le> p_version p"
    proof (cases "get_cp s (pid, v) = Some cp")
      case True
      from on_disk [of pid] hist [OF True] ver show ?thesis
        by (metis add.commute add_increasing zero_le_one)
    next
      case False
      from new [OF c False] files(2) ver show ?thesis by auto
    qed
    fix b assume b: "get_plan s' pid = Some b"
    show "v \<le> p_version (wm_heap s' b)"
    proof (cases "get_cp s (pid, v) = Some cp")
      case True
      from hist [OF True] b show ?thesis by (auto simp: gp mem split: if_splits)
    next
      case False
      from new [OF c False] b ver show ?thesis by (simp add: gp)
    qed
  qed
qed

lemma load_plan_cases:
  "load_plan pid s = (s', r) \<Longrightarrow>
     (s' = s \<and> map_of (wm_files s) pid = None) \<or>
     (\<exists>p. map_of (wm_files s) pid = Some p \<and> s' = store_plan (p_id p) (wm_next s) (fst (new_plan p s))
        \<and> r = Inr (wm_next s))"
  by (cases "map_of (wm_files s) pid")
    (auto simp: load_plan_def load_plan_json_def new_plan_def Let_def)

definition wm_ok :: "wm \<Rightarrow> bool" where
  "wm_ok s \<longleftrightarrow> wm_inv s \<and> history_ok s"

lemma wm_ok_load:
  assumes ok: "wm_ok s" shows "wm_ok (fst (load_plan pid s))"
proof -
  obtain s' r where l: "load_plan pid s = (s', r)" by fastforce
  from load_plan_cases [OF l] show ?thesis unfolding l fst_conv
  proof (elim disjE exE conjE)
    fix p assume p: "map_of (wm_files s) pid = Some p"
      and s': "s' = store_plan (p_id p) (wm_next s) (fst (new_plan p s))"
    have inv: "wm_inv s" and hist: "history_ok s" using ok by (simp_all add: wm_ok_def)
    have pok: "plan_ok pid p" using inv p unfolding wm_inv_def by blast
    then have id: "p_id p = pid" by (simp add: plan_ok_def)
    have lt: "b < wm_next s" if "get_plan s k = Some b" for k b using wm_inv_plan [OF inv that] by blast
    have heap: "wm_heap s' b = (if b = wm_next s then p else wm_heap s b)" for b
      by (simp add: s' new_plan_def)
    have gp: "get_plan s' k = (if k = pid then Some (wm_next s) else get_plan s k)" for k
      by (simp add: get_plan_def s' new_plan_def id)
    have rest: "wm_files s' = wm_files s" "get_cp s' = get_cp s" "wm_next s' = Suc (wm_next s)"
      by (auto simp: s' new_plan_def get_cp_def)
    have d: "distinct (map fst (wm_store s'))"
      using inv by (simp add: s' new_plan_def wm_inv_def distinct_update)
    have stored: "b < wm_next s' \<and> plan_ok k (wm_heap s' b)" if "get_plan s' k = Some b" for k b
      using that pok lt [of k b] wm_inv_plan [OF inv, of k b]
      by (cases "k = pid") (auto simp: gp heap rest)
    have "wm_inv s'"
      unfolding wm_inv_def using d stored inv by (simp add: rest) (simp add: wm_inv_def)
    moreover have "history_ok s'" unfolding history_ok_def rest
    proof (intro allI impI conjI)
      fix k v cp assume c: "get_cp s (k, v) = Some cp"
      then show "\<exists>p. map_of (wm_files s) k = Some p \<and> v \<le> p_version p"
        using hist unfolding history_ok_def by blast
      fix b assume b: "get_plan s' k = Some b"
      from c obtain q where q: "map_of (wm_files s) k = Some q" "v \<le> p_version q"
        and live: "\<And>b. get_plan s k = Some b \<Longrightarrow> v \<le> p_version (wm_heap s b)"
        using history_D [OF hist c] by metis
      show "v \<le> p_version (wm_heap s' b)"
      proof (cases "k = pid")
        case True
        with b q p show ?thesis by (simp add: gp heap)
      next
        case False
        with b live [of b] lt [of k b] show ?thesis by (simp add: gp heap)
      qed
    qed
    ultimately show "wm_ok s'" by (simp add: wm_ok_def)
  qed (use ok in simp)
qed

lemma wm_ok_step:
  assumes ok: "wm_ok s" and st: "wm_step s t" shows "wm_ok t"
  using st
proof cases
  case (mutate pid a f)
  have inv: "wm_inv s" and hist: "history_ok s" using ok by (simp_all add: wm_ok_def)
  have "plan_ok pid (wm_heap s a)" using wm_inv_plan [OF inv mutate(2)] by blast
  with mutate(3) have "plan_ok k (f (wm_heap s a))" if "plan_ok k (wm_heap s a)" for k
    using that by (simp add: plan_ok_def)
  then have "wm_inv t" unfolding mutate(1) by (rule wm_inv_upd_plan [OF inv])
  moreover have "history_ok t"
    using hist mutate(4) unfolding mutate(1) history_ok_def by simp
  ultimately show ?thesis by (simp add: wm_ok_def)
next
  case (save pid a r)
  have inv: "wm_inv s" and hist: "history_ok s" using ok by (simp_all add: wm_ok_def)
  have own: "owned s a" by (rule owned_stored [OF inv save(2)])
  have id: "p_id (wm_heap s a) = pid" using wm_inv_plan [OF inv save(2)] by (simp add: plan_ok_def)
  have "history_ok t" unfolding save(1)
    by (rule history_save [OF inv own]) (use hist save(2) id in \<open>auto simp: history_ok_def\<close>)
  with wm_inv_save [OF inv own] show ?thesis by (simp add: wm_ok_def save(1))
next
  case (create p s1 a r)
  have inv: "wm_inv s" and hist: "history_ok s" using ok by (simp_all add: wm_ok_def)
  note n = wm_inv_new [OF inv create(3,4)]
  have eqs: "get_cp s1 = get_cp s" "wm_files s1 = wm_files s"
    using create(4) by (auto simp: new_plan_def get_cp_def)
  have heap: "wm_heap s1 b = wm_heap s b" if "get_plan s k = Some b" for k b
    using create(4) wm_inv_plan [OF inv that] by (auto simp: new_plan_def)
  have "history_ok t" unfolding create(1)
  proof (rule history_save [OF n(1,2)], unfold eqs n(3,5), intro conjI allI impI)
    fix pid v cp assume c: "get_cp s (pid, v) = Some cp"
    then show "\<exists>p. map_of (wm_files s) pid = Some p \<and> v \<le> p_version p"
      using hist unfolding history_ok_def by blast
    show "v \<le> p_version (wm_heap s1 b)" if "get_plan s pid = Some b" for b
      using hist c that unfolding heap [OF that] history_ok_def by blast
    assume "pid = p_id p"
    with create(2) c show "v \<le> p_version p" by (simp add: unused_id_def)
  qed
  with wm_inv_save [OF n(1,2)] show ?thesis by (simp add: wm_ok_def create(1))
next
  case (reload pid)
  with wm_ok_load [OF ok] show ?thesis by simp
next
  case restart
  with ok show ?thesis
    by (simp add: wm_ok_def wm_inv_def history_ok_def reset_plans_def get_plan_def get_cp_def)
qed

interpretation wm_sys: transition_system "\<lambda>s. s = empty_wm" wm_step wm_ok
proof
  show "wm_ok s" if "s = empty_wm" for s
    unfolding that wm_ok_def
    using wm_inv_empty by (simp add: history_ok_def) (simp add: empty_wm_def get_cp_def)
qed (rule wm_ok_step)

text \<open>Checkpoints are never rewritten.\<close>

lemma cp_step:
  assumes ok: "wm_ok s" and st: "wm_step s t" and c: "get_cp s k = Some cp"
  shows "get_cp t k = Some cp"
proof -
  obtain pid v where k: "k = (pid, v)" by (cases k)
  have inv: "wm_inv s" and hist: "history_ok s" using ok by (simp_all add: wm_ok_def)
  from st show ?thesis
  proof cases
    case (save pid' a r)
    obtain s' res where sv: "save_checkpoint (Some a) r s = (s', res)" by fastforce
    have "p_id (wm_heap s a) = pid'" using wm_inv_plan [OF inv save(2)] by (simp add: plan_ok_def)
    with save(2) hist c k have "pid = p_id (wm_heap s a) \<Longrightarrow> v \<le> p_version (wm_heap s a)"
      by (auto simp: history_ok_def)
    from save_keeps_cp [OF sv this] c k save(1) sv show ?thesis by simp
  next
    case (create p s1 a r)
    obtain s' res where sv: "save_checkpoint (Some a) r s1 = (s', res)" by fastforce
    have g: "get_cp s1 = get_cp s" and a: "wm_heap s1 a = p"
      using create(4) by (auto simp: new_plan_def get_cp_def)
    have "pid \<noteq> p_id p" using create(2) c k by (auto simp: unused_id_def)
    with save_keeps_cp [OF sv, of pid v] c k create(1) sv show ?thesis by (simp add: g a)
  next
    case (reload pid')
    have "get_cp (fst (load_plan pid' s)) = get_cp s"
      using load_plan_cases [of pid' s] by (cases "load_plan pid' s") (auto simp: new_plan_def get_cp_def)
    with reload c show ?thesis by simp
  next
    case restart
    with c show ?thesis by (simp add: reset_plans_def get_cp_def)
  qed (use c in simp)
qed

lemma cp_steps: "wm_step\<^sup>*\<^sup>* s t \<Longrightarrow> wm_ok s \<Longrightarrow> get_cp s k = Some cp \<Longrightarrow> get_cp t k = Some cp"
proof (induction rule: rtranclp_induct)
  case (step y z)
  have "wm_ok y" by (rule wm_sys.steps_inv [OF step(1) step.prems(1)])
  from cp_step [OF this step(2)] step.IH step.prems show ?case by blast
qed

lemma steps_change:
  assumes "get_plan s pid = Some a" "plan_ok pid (wm_heap s a) \<Longrightarrow> plan_ok pid (f (wm_heap s a))"
    "p_version (f (wm_heap s a)) = p_version (wm_heap s a)"
  shows "wm_step\<^sup>*\<^sup>* s (fst (put_plan (Some a) (upd_plan a f s)))"
proof -
  have "wm_step s (upd_plan a f s)" by (rule wm_step.mutate) (use assms in auto)
  moreover have "wm_step (upd_plan a f s) (fst (put_plan (Some a) (upd_plan a f s)))"
    unfolding put_plan_def put_plan_with_reason_def by (rule wm_step.save [of _ pid]) (simp add: assms)
  ultimately show ?thesis by (meson converse_rtranclp_into_rtranclp r_into_rtranclp)
qed

lemma plan_ok_upd_task:
  assumes "\<And>t. t_id (f t) = t_id t"
  shows "plan_ok pid p \<Longrightarrow> plan_ok pid (p\<lparr>p_tasks := (p_tasks p)[i := f (p_tasks p ! i)]\<rparr>)"
proof -
  have "map t_id ((p_tasks p)[i := f (p_tasks p ! i)]) = map t_id (p_tasks p)"
    by (cases "i < length (p_tasks p)") (simp_all add: map_update assms list_update_beyond list_update_same_conv)
  then show "plan_ok pid p \<Longrightarrow> plan_ok pid (p\<lparr>p_tasks := (p_tasks p)[i := f (p_tasks p ! i)]\<rparr>)"
    by (simp add: plan_ok_def)
qed

section \<open>What updates and saves leave alone\<close>

text \<open>Ids, dependencies and the store: everything an executor relies on while statuses change.\<close>

definition skel :: "plan \<Rightarrow> string \<times> (string \<times> string) list" where
  "skel p = (p_id p, map (\<lambda>t. (t_id t, t_parent t)) (p_tasks p))"

definition same_layout :: "wm \<Rightarrow> wm \<Rightarrow> bool" where
  "same_layout s t \<longleftrightarrow> wm_store t = wm_store s \<and> (\<forall>b. skel (wm_heap t b) = skel (wm_heap s b))"

lemma same_layout_refl [simp]: "same_layout s s"
  by (simp add: same_layout_def)

lemma same_layout_trans [trans]: "same_layout s t \<Longrightarrow> same_layout t u \<Longrightarrow> same_layout s u"
  by (simp add: same_layout_def)

lemma skel_ids: "skel p = skel q \<Longrightarrow> map t_id (p_tasks p) = map t_id (p_tasks q)"
proof -
  assume "skel p = skel q"
  then have "map fst (snd (skel p)) = map fst (snd (skel q))" by (rule arg_cong)
  then show ?thesis by (simp add: skel_def comp_def)
qed

lemma skel_parents: "skel p = skel q \<Longrightarrow> map t_parent (p_tasks p) = map t_parent (p_tasks q)"
proof -
  assume "skel p = skel q"
  then have "map snd (snd (skel p)) = map snd (snd (skel q))" by (rule arg_cong)
  then show ?thesis by (simp add: skel_def comp_def)
qed

lemma skel_length: "skel p = skel q \<Longrightarrow> length (p_tasks p) = length (p_tasks q)"
  by (auto simp: skel_def dest: arg_cong [where f = length])

lemma skel_id: "skel p = skel q \<Longrightarrow> p_id p = p_id q"
  by (simp add: skel_def)

lemma skel_nth:
  assumes "skel p = skel q" "k < length (p_tasks p)"
  shows "t_id (p_tasks p ! k) = t_id (p_tasks q ! k)" "t_parent (p_tasks p ! k) = t_parent (p_tasks q ! k)"
  using assms skel_length [OF assms(1)] skel_ids [OF assms(1)] skel_parents [OF assms(1)]
  by (metis nth_map)+

lemma same_layout_find:
  assumes "same_layout s t" shows "find_task t tid = find_task s tid"
proof -
  have "find_idx (\<lambda>u. t_id u = tid) (p_tasks (wm_heap t b))
      = find_idx (\<lambda>u. t_id u = tid) (p_tasks (wm_heap s b))" for b
  proof -
    have "map t_id (p_tasks (wm_heap t b)) = map t_id (p_tasks (wm_heap s b))"
      using assms by (auto simp: same_layout_def intro: skel_ids)
    then show ?thesis
      using find_idx_map [of "\<lambda>i. i = tid" t_id] by metis
  qed
  with assms show ?thesis by (simp add: find_task_def same_layout_def)
qed

lemma same_layout_get: "same_layout s t \<Longrightarrow> get_plan t pid = get_plan s pid"
  by (simp add: same_layout_def get_plan_def)

lemma same_layout_upd_task:
  assumes "\<And>t. t_id (f t) = t_id t" "\<And>t. t_parent (f t) = t_parent t"
  shows "same_layout s (upd_task q f s)"
proof -
  have "map (\<lambda>t. (t_id t, t_parent t)) (xs[k := f (xs ! k)]) = map (\<lambda>t. (t_id t, t_parent t)) xs" for xs k
    by (cases "k < length xs")
      (simp_all add: map_update assms list_update_beyond list_update_same_conv)
  then show ?thesis by (simp add: same_layout_def upd_task_def skel_def)
qed

lemma same_layout_put:
  assumes "get_plan s (p_id (wm_heap s a)) = Some a"
  shows "same_layout s (fst (put_plan (Some a) s))"
proof -
  have "AList.update (p_id (wm_heap s a)) a (wm_store s) = wm_store s"
    using assms by (simp add: get_plan_def update_triv)
  then show ?thesis by (simp add: same_layout_def put_plan_memory skel_def)
qed

lemma put_plan_tasks [simp]:
  "p_tasks (wm_heap (fst (put_plan (Some a) s)) b) = p_tasks (wm_heap s b)"
  by (simp add: put_plan_memory)

lemma upd_task_tasks:
  "p_tasks (wm_heap (upd_task (a, k) f s) b) =
     (if b = a then (p_tasks (wm_heap s a))[k := f (p_tasks (wm_heap s a) ! k)] else p_tasks (wm_heap s b))"
  by (simp add: upd_task_def)

section \<open>What working memory guarantees\<close>

text \<open>C1. \<open>Validate\<close> accepts a plan exactly when it has a task, every parent id is the id of a task, and the
  dependency relation has no cycle (in particular no task depends on itself), in whatever order the
  map of ids is visited.\<close>

theorem validate_correct:
  assumes "set order = t_id ` set (p_tasks p)"
  shows "validate order p = None \<longleftrightarrow>
    p_tasks p \<noteq> [] \<and> (\<forall>t \<in> set (p_tasks p). set (parents t) \<subseteq> t_id ` set (p_tasks p)) \<and>
    acyclic {(t_id t, q) | t q. t \<in> set (p_tasks p) \<and> q \<in> set (parents t)}"
  using validate_None [OF assms] by (simp add: well_formed_plan_def depends_def)

definition demo_task :: "string \<Rightarrow> string \<Rightarrow> task_status \<Rightarrow> task" where
  "demo_task i ps st = \<lparr>t_id = i, t_parent = ps, t_goal = ''g'', t_status = st, t_reason = [],
     t_action = [], t_usage = None\<rparr>"

definition demo_plan :: "task list \<Rightarrow> plan" where
  "demo_plan ts = \<lparr>p_id = ''p'', p_session = ''s'', p_name = ''n'', p_tasks = ts, p_active = [],
     p_state = PSInit, p_reason = [], p_version = 1\<rparr>"

theorem validate_correct_witness:
  "acyclic {(t_id t, q) | t q. t \<in> set (p_tasks (demo_plan [demo_task ''a'' [] TaskStatusDone,
     demo_task ''b'' ''a'' TaskStatusPending])) \<and> q \<in> set (parents t)}
   \<and> validate [''a'', ''b''] (demo_plan [demo_task ''a'' ''b'' TaskStatusDone,
     demo_task ''b'' '' a'' TaskStatusPending]) \<noteq> None"
proof
  let ?p = "demo_plan [demo_task ''a'' [] TaskStatusDone, demo_task ''b'' ''a'' TaskStatusPending]"
  have "validate [''b'', ''a''] ?p = None" by code_simp
  then show "acyclic {(t_id t, q) | t q. t \<in> set (p_tasks ?p) \<and> q \<in> set (parents t)}"
    using validate_correct [of "[''b'', ''a'']" ?p] by (simp add: demo_plan_def demo_task_def insert_commute)
  show "validate [''a'', ''b''] (demo_plan [demo_task ''a'' ''b'' TaskStatusDone,
     demo_task ''b'' '' a'' TaskStatusPending]) \<noteq> None" by code_simp
qed

text \<open>C2. \<open>ReadyTasks\<close> returns, in plan order and without repetition, exactly the pending tasks all of whose
  parent ids name a task that is done (the last one of that id, should ids repeat).\<close>

theorem ready_tasks_exact:
  "sorted (ready_tasks p) \<and> distinct (ready_tasks p) \<and>
   set (ready_tasks p) = {i. i < length (p_tasks p) \<and> t_status (p_tasks p ! i) = TaskStatusPending \<and>
     set (parents (p_tasks p ! i)) \<subseteq> {pid. parent_done (p_tasks p) pid}}"
  by (auto simp: sorted_ready_tasks ready_tasks_set status_map_done)



text \<open>C4. A save that reports no error has bumped the version by one, and both the plan file and the
  checkpoint of the new version hold the live plan: after a restart, loading the plan gives it back.\<close>

theorem saved_plan_reloads:
  assumes "save_checkpoint (Some a) r s = (s', None)"
  shows "wm_heap s' a = (wm_heap s a)\<lparr>p_version := p_version (wm_heap s a) + 1\<rparr> \<and>
    (case load_plan (p_id (wm_heap s a)) (reset_plans s') of
       (t, Inr b) \<Rightarrow> get_plan t (p_id (wm_heap s a)) = Some b \<and> wm_heap t b = wm_heap s' a
     | (t, Inl e) \<Rightarrow> False) \<and>
    (case load_checkpoint_json (p_id (wm_heap s a)) (p_version (wm_heap s' a)) s' of
       Inr cp \<Rightarrow> cp_plan cp = wm_heap s' a \<and> cp_reason cp = r | Inl e \<Rightarrow> False)"
proof -
  note mem = save_checkpoint_memory [OF assms] and files = save_checkpoint_files [OF assms]
  have p: "map_of (wm_files s') (p_id (wm_heap s a)) = Some (wm_heap s' a)" using files(2) by simp
  have c: "get_cp s' (p_id (wm_heap s a), p_version (wm_heap s' a))
      = Some \<lparr>cp_version = p_version (wm_heap s' a), cp_reason = r, cp_plan = wm_heap s' a\<rparr>"
    using files(1) by (simp add: mem)
  have i: "p_id (wm_heap s' a) = p_id (wm_heap s a)" by (simp add: mem)
  show ?thesis
    using p c by (simp add: load_plan_def load_plan_json_def reset_plans_def new_plan_def i
        load_checkpoint_get store.get_put_same) (simp add: mem)
qed

theorem saved_plan_reloads_witness:
  "wm_heap (fst (save_checkpoint (Some 0) ''r'' empty_wm)) 0
     = (wm_heap empty_wm 0)\<lparr>p_version := p_version (wm_heap empty_wm 0) + 1\<rparr>"
proof -
  have "snd (save_checkpoint (Some 0) ''r'' empty_wm) = None" by code_simp
  then have "save_checkpoint (Some 0) ''r'' empty_wm = (fst (save_checkpoint (Some 0) ''r'' empty_wm), None)"
    by (simp add: prod_eq_iff)
  from saved_plan_reloads [OF this] show ?thesis by blast
qed



end
