(* ===== verification/Dag.thy ===== *)
theory Dag
  imports Working
begin

text \<open>
  The DAG task executor (runtime/engine/dag/dag.go).  \<open>ExecuteBatch\<close> spawns one goroutine per ready
  task; a goroutine is its program counter, and its steps are the stretches between which another
  goroutine, \<open>Cancel\<close> or the failure callback may run: the start check with the worker's run, the
  locked update of the task, the failure callback outside the lock, and the save with the hook.  A
  schedule says which goroutine moves next and when an outside cancellation arrives; every theorem
  quantifies over it.

  The worker, the failure callback and the task hook are arguments: state-passing functions of the
  whole state, so they may change plans, cancel the run or talk to a model (\<open>ds_ext\<close>).  The
  pointer \<open>task\<close> of a goroutine is read once, when it is spawned (id, goal and action of a task are
  never written afterwards).  Warnings are not modelled.
\<close>

section \<open>State\<close>

record batch_result =
  br_batched :: bool
  br_has_failed :: bool
  br_all_done :: bool

record 'x dag_state =
  ds_wm :: wm
  ds_parent_done :: bool            \<comment> \<open>the caller's context is cancelled\<close>
  ds_child_done :: bool             \<comment> \<open>the context of this \<open>ExecuteBatch\<close> is cancelled\<close>
  ds_cancel :: bool                 \<comment> \<open>\<open>d.cancel\<close> is set\<close>
  ds_hitl :: "(string \<times> nat) list"  \<comment> \<open>\<open>d.hitlAgents\<close>: task id to waiting agent\<close>
  ds_paused :: nat                  \<comment> \<open>pause count of the shared gate\<close>
  ds_ext :: 'x

text \<open>The outcome of a worker: its output, its usage and its error.\<close>

type_synonym worker_out = "string \<times> usage option \<times> err option"
type_synonym 'x worker = "string \<Rightarrow> string \<Rightarrow> 'x dag_state \<Rightarrow> 'x dag_state \<times> worker_out"

record 'x dag_env =
  de_worker :: "'x worker"
  de_on_failed :: "(string \<Rightarrow> string \<Rightarrow> string \<Rightarrow> 'x dag_state \<Rightarrow> 'x dag_state) option"
  de_on_updated :: "(string \<Rightarrow> string \<Rightarrow> string \<Rightarrow> string \<Rightarrow> 'x dag_state \<Rightarrow> 'x dag_state) option"

definition ctx_done :: "'x dag_state \<Rightarrow> bool" where
  "ctx_done st = (ds_parent_done st \<or> ds_child_done st)"

definition map_wm :: "(wm \<Rightarrow> wm) \<Rightarrow> 'x dag_state \<Rightarrow> 'x dag_state" where
  "map_wm f st = st\<lparr>ds_wm := f (ds_wm st)\<rparr>"

lemma map_wm_sel [simp]:
  "ds_wm (map_wm f st) = f (ds_wm st)" "ds_parent_done (map_wm f st) = ds_parent_done st"
  "ds_child_done (map_wm f st) = ds_child_done st" "ds_cancel (map_wm f st) = ds_cancel st"
  "ctx_done (map_wm f st) = ctx_done st" "ds_ext (map_wm f st) = ds_ext st"
  "ds_hitl (map_wm f st) = ds_hitl st" "ds_paused (map_wm f st) = ds_paused st"
  by (simp_all add: map_wm_def ctx_done_def)

text \<open>\<open>Cancel\<close>: a no-op unless a batch runs; the second call is one too.\<close>

definition dag_cancel :: "'x dag_state \<Rightarrow> 'x dag_state" where
  "dag_cancel st = (if ds_cancel st then st\<lparr>ds_child_done := True, ds_cancel := False\<rparr> else st)"

section \<open>Human in the loop\<close>

text \<open>The pause gate counts; \<open>Pause\<close> and \<open>Resume\<close> forward to it.\<close>

definition dag_pause :: "'x dag_state \<Rightarrow> 'x dag_state" where
  "dag_pause st = st\<lparr>ds_paused := ds_paused st + 1\<rparr>"

definition dag_resume :: "'x dag_state \<Rightarrow> 'x dag_state" where
  "dag_resume st = st\<lparr>ds_paused := (if ds_paused st > 0 then ds_paused st - 1 else 0)\<rparr>"

text \<open>The callback that \<open>SetOnHITL\<close> installs.\<close>

definition on_hitl :: "string \<Rightarrow> nat \<Rightarrow> 'x dag_state \<Rightarrow> 'x dag_state" where
  "on_hitl tid agent st = dag_pause (st\<lparr>ds_hitl := AList.update tid agent (ds_hitl st)\<rparr>)"

definition any_worker_waiting :: "(nat \<Rightarrow> 'x dag_state \<Rightarrow> bool) \<Rightarrow> 'x dag_state \<Rightarrow> bool" where
  "any_worker_waiting waiting st = list_ex (\<lambda>(_, g). waiting g st) (ds_hitl st)"

definition resume_any_worker :: "(nat \<Rightarrow> 'x dag_state \<Rightarrow> bool) \<Rightarrow>
    (nat \<Rightarrow> string \<Rightarrow> 'x dag_state \<Rightarrow> 'x dag_state \<times> err option) \<Rightarrow>
    string \<Rightarrow> 'x dag_state \<Rightarrow> 'x dag_state \<times> err option" where
  "resume_any_worker waiting resume response st =
     (case List.find (\<lambda>(_, g). waiting g st) (ds_hitl st) of
        None \<Rightarrow> (st, Some (ErrOther ''no worker waiting for human input''))
      | Some (tid, g) \<Rightarrow>
          (let (st1, e) = resume g response (st\<lparr>ds_hitl := AList.delete tid (ds_hitl st)\<rparr>)
           in (dag_resume st1, e)))"

section \<open>Goroutines\<close>

datatype goroutine =
    GReady string string string               \<comment> \<open>id, goal, action: not started\<close>
  | GRan string string worker_out             \<comment> \<open>the worker has returned\<close>
  | GFailed string string string string paddr string  \<comment> \<open>the failure callback is next; the last part is the task's status\<close>
  | GSave string string string paddr string \<comment> \<open>the save and the hook are next\<close>
  | GStop

definition set_status :: "task_status \<Rightarrow> string \<Rightarrow> task \<Rightarrow> task" where
  "set_status v r t = t\<lparr>t_status := v, t_reason := r\<rparr>"

text \<open>The start check, or the run of the worker.\<close>

definition g_start :: "'x dag_env \<Rightarrow> string \<Rightarrow> string \<Rightarrow> string \<Rightarrow> string \<Rightarrow> 'x dag_state \<Rightarrow>
    'x dag_state \<times> goroutine" where
  "g_start env pid tid goal action st =
     (if ctx_done st then
        (case get_plan (ds_wm st) pid of
           None \<Rightarrow> (st, GStop)
         | Some pm \<Rightarrow>
             (case find_task (ds_wm st) tid of
                None \<Rightarrow> (st, GStop)
              | Some q \<Rightarrow>
                  (map_wm (\<lambda>s. fst (put_plan (Some pm)
                     (upd_task q (set_status TaskStatusFailed ''cancelled'') s))) st, GStop)))
      else
        (let (st1, out) = de_worker env goal action st in (st1, GRan tid goal out)))"

text \<open>
  The update under the plan's lock; the flag says that \<open>failCount\<close> was incremented.  \<open>taskMu\<close> points into
  the slice of tasks found here: when the failure callback replaces that slice by a checkpoint's, the
  status reported at the end is still the one written here, so it is part of the goroutine's state.
\<close>

definition g_finish :: "'x dag_env \<Rightarrow> string \<Rightarrow> string \<Rightarrow> string \<Rightarrow> worker_out \<Rightarrow> 'x dag_state \<Rightarrow>
    'x dag_state \<times> bool \<times> goroutine" where
  "g_finish env pid tid goal out st =
     (case get_plan (ds_wm st) pid of
        None \<Rightarrow> (st, False, GStop)
      | Some pm \<Rightarrow>
          (case find_task (ds_wm st) tid of
             None \<Rightarrow> (st, False, GStop)
           | Some q \<Rightarrow>
               (case out of
                  (text, u, Some e) \<Rightarrow>
                    (map_wm (upd_task q (\<lambda>t. (set_status TaskStatusFailed (err_text e) t)\<lparr>t_usage := u\<rparr>)) st, True,
                     if err_text e \<noteq> [] \<and> de_on_failed env \<noteq> None
                     then GFailed tid goal (err_text e) text pm (task_status_str TaskStatusFailed)
                     else GSave tid goal text pm (task_status_str TaskStatusFailed))
                | (text, u, None) \<Rightarrow>
                    (map_wm (upd_task q (\<lambda>t. (set_status TaskStatusDone text t)\<lparr>t_usage := u\<rparr>)) st, False,
                     GSave tid goal text pm (task_status_str TaskStatusDone)))))"

definition g_callback :: "'x dag_env \<Rightarrow> string \<Rightarrow> string \<Rightarrow> string \<Rightarrow> 'x dag_state \<Rightarrow> 'x dag_state" where
  "g_callback env tid goal reason st =
     (case de_on_failed env of None \<Rightarrow> st | Some f \<Rightarrow> f tid goal reason st)"

definition g_save :: "'x dag_env \<Rightarrow> string \<Rightarrow> string \<Rightarrow> string \<Rightarrow> paddr \<Rightarrow> string \<Rightarrow> 'x dag_state \<Rightarrow> 'x dag_state" where
  "g_save env tid goal text pm status st =
     (let st1 = map_wm (\<lambda>s. fst (put_plan (Some pm) s)) st in
      case de_on_updated env of
        None \<Rightarrow> st1
      | Some f \<Rightarrow> f tid goal status text st1)"

fun g_step :: "'x dag_env \<Rightarrow> string \<Rightarrow> goroutine \<Rightarrow> 'x dag_state \<times> nat \<Rightarrow>
    goroutine \<times> 'x dag_state \<times> nat" where
  "g_step env pid (GReady tid goal action) (st, n) =
     (let (st1, g) = g_start env pid tid goal action st in (g, st1, n))"
| "g_step env pid (GRan tid goal out) (st, n) =
     (let (st1, failed, g) = g_finish env pid tid goal out st
      in (g, st1, if failed then n + 1 else n))"
| "g_step env pid (GFailed tid goal reason text pm status) (st, n) =
     (GSave tid goal text pm status, g_callback env tid goal reason st, n)"
| "g_step env pid (GSave tid goal text pm status) (st, n) = (GStop, g_save env tid goal text pm status st, n)"
| "g_step env pid GStop (st, n) = (GStop, st, n)"

fun g_left :: "goroutine \<Rightarrow> nat" where
  "g_left (GReady _ _ _) = 4"
| "g_left (GRan _ _ _) = 3"
| "g_left (GFailed _ _ _ _ _ _) = 2"
| "g_left (GSave _ _ _ _ _) = 1"
| "g_left GStop = 0"

lemma g_step_left: "g \<noteq> GStop \<Longrightarrow> g_left (fst (g_step env pid g (st, n))) < g_left g"
  by (cases g) (auto simp: g_start_def g_finish_def Let_def split: option.splits prod.splits)

section \<open>A batch under a schedule\<close>

text \<open>\<open>Run i\<close>: the \<open>i\<close>-th live goroutine (modulo their number) makes a step; \<open>CancelNow\<close>: the context
  is cancelled from outside.  An exhausted schedule runs the first live goroutine.\<close>

datatype choice = Run nat | CancelNow

definition live :: "goroutine list \<Rightarrow> nat list" where
  "live gs = filter (\<lambda>i. gs ! i \<noteq> GStop) [0..<length gs]"

definition pick :: "goroutine list \<Rightarrow> nat \<Rightarrow> nat" where
  "pick gs i = live gs ! (i mod length (live gs))"

lemma live_iff: "i \<in> set (live gs) \<longleftrightarrow> i < length gs \<and> gs ! i \<noteq> GStop"
  by (auto simp: live_def)

lemma pick_live: "live gs \<noteq> [] \<Longrightarrow> pick gs i < length gs \<and> gs ! pick gs i \<noteq> GStop"
proof -
  assume "live gs \<noteq> []"
  then have "pick gs i \<in> set (live gs)" by (simp add: pick_def)
  then show ?thesis using live_iff by blast
qed

lemma sum_list_update_less:
  "i < length gs \<Longrightarrow> f x < f (gs ! i) \<Longrightarrow> sum_list (map f (gs[i := x])) < (sum_list (map f gs) :: nat)"
proof (induction gs arbitrary: i)
  case (Cons g gs)
  then show ?case by (cases i) auto
qed simp

lemma run_measure:
  assumes "live gs \<noteq> []"
  shows "sum_list (map g_left (gs[pick gs i := fst (g_step env pid (gs ! pick gs i) st)]))
    < sum_list (map g_left gs)"
  using pick_live [OF assms, of i] g_step_left [of "gs ! pick gs i" env pid "fst st" "snd st"]
  by (simp add: sum_list_update_less)

function run_group :: "'x dag_env \<Rightarrow> string \<Rightarrow> choice list \<Rightarrow> goroutine list \<Rightarrow> 'x dag_state \<times> nat \<Rightarrow>
    choice list \<times> 'x dag_state \<times> nat" where
  "run_group env pid sched gs st =
     (if live gs = [] then (sched, st)
      else
        (case sched of
           CancelNow # rest \<Rightarrow>
             run_group env pid rest gs ((fst st)\<lparr>ds_parent_done := True\<rparr>, snd st)
         | Run i # rest \<Rightarrow>
             (let r = g_step env pid (gs ! pick gs i) st
              in run_group env pid rest (gs[pick gs i := fst r]) (snd r))
         | [] \<Rightarrow>
             (let r = g_step env pid (gs ! pick gs 0) st
              in run_group env pid [] (gs[pick gs 0 := fst r]) (snd r))))"
  by pat_completeness auto
termination
  by (relation "measures [\<lambda>(env, pid, sched, gs, st). sum_list (map g_left gs),
      \<lambda>(env, pid, sched, gs, st). length sched]") (simp_all add: run_measure)

declare run_group.simps [simp del]

section \<open>ExecuteBatch\<close>

definition is_dag_done :: "plan \<Rightarrow> bool" where
  "is_dag_done p =
     list_all (\<lambda>t. \<not> (t_status t = TaskStatusPending \<or> t_status t = TaskStatusDoing)) (p_tasks p)"

text \<open>The loops over the pointers of the ready tasks.\<close>

definition mark_tasks :: "paddr \<Rightarrow> nat list \<Rightarrow> (task \<Rightarrow> task) \<Rightarrow> wm \<Rightarrow> wm" where
  "mark_tasks a ks f s = fold (\<lambda>k. upd_task (a, k) f) ks s"

definition spawn :: "plan \<Rightarrow> nat \<Rightarrow> goroutine" where
  "spawn p k = GReady (t_id (p_tasks p ! k)) (t_goal (p_tasks p ! k)) (t_action (p_tasks p ! k))"

text \<open>The loop; its fuel counts batches, \<open>None\<close> is running out of it.\<close>

fun batch_loop :: "nat \<Rightarrow> 'x dag_env \<Rightarrow> paddr \<Rightarrow> bool \<Rightarrow> choice list \<Rightarrow> 'x dag_state \<Rightarrow>
    ('x dag_state \<times> batch_result) option" where
  "batch_loop 0 env a any sched st = None"
| "batch_loop (Suc n) env a any sched st =
     (let p = wm_heap (ds_wm st) a; ready = ready_tasks p in
      if ready = [] then
        Some (st, \<lparr>br_batched = any, br_has_failed = False, br_all_done = is_dag_done p\<rparr>)
      else if ctx_done st then
        (let st1 = map_wm (\<lambda>s. fst (put_plan (Some a)
                     (mark_tasks a ready (set_status TaskStatusFailed ''cancelled'') s))) st
         in Some (st1, \<lparr>br_batched = any, br_has_failed = True,
                        br_all_done = is_dag_done (wm_heap (ds_wm st1) a)\<rparr>))
      else
        (let st1 = map_wm (\<lambda>s. fst (put_plan (Some a)
                     (mark_tasks a ready (\<lambda>t. t\<lparr>t_status := TaskStatusDoing\<rparr>) s))) st;
             (rest, st2, fails) = run_group env (p_id p) sched (map (spawn p) ready) (st1, 0)
         in if fails > 0 then
              Some (st2, \<lparr>br_batched = True, br_has_failed = True,
                          br_all_done = is_dag_done (wm_heap (ds_wm st2) a)\<rparr>)
            else batch_loop n env a True rest st2))"

definition execute_batch :: "nat \<Rightarrow> 'x dag_env \<Rightarrow> paddr \<Rightarrow> choice list \<Rightarrow> 'x dag_state \<Rightarrow>
    ('x dag_state \<times> batch_result) option" where
  "execute_batch fuel env a sched st =
     map_option (\<lambda>(st', r). (st'\<lparr>ds_cancel := False\<rparr>, r))
       (batch_loop fuel env a False sched (st\<lparr>ds_child_done := False, ds_cancel := True\<rparr>))"

section \<open>The invariant of a batch\<close>

text \<open>
  What the executor relies on: the plan is stored under its id, and looking up the id of one of its
  tasks finds that task (no other plan has a task of the same id).
\<close>

definition plan_found :: "wm \<Rightarrow> paddr \<Rightarrow> bool" where
  "plan_found s a \<longleftrightarrow>
     get_plan s (p_id (wm_heap s a)) = Some a \<and>
     (\<forall>k < length (p_tasks (wm_heap s a)). find_task s (t_id (p_tasks (wm_heap s a) ! k)) = Some (a, k))"

lemma plan_found_layout:
  assumes l: "same_layout s t" and f: "plan_found s a" shows "plan_found t a"
proof -
  have sk: "skel (wm_heap t a) = skel (wm_heap s a)" using l by (simp add: same_layout_def)
  show ?thesis unfolding plan_found_def same_layout_find [OF l] same_layout_get [OF l] skel_id [OF sk]
    using f skel_nth [OF sk] skel_length [OF sk] by (simp add: plan_found_def)
qed

text \<open>
  Workers and hooks that leave working memory alone.  \<open>quiet\<close> says that they do not cancel the run
  either.
\<close>

definition local_env :: "bool \<Rightarrow> 'x dag_env \<Rightarrow> bool" where
  "local_env quiet env \<longleftrightarrow>
     (\<forall>goal action st. ds_wm (fst (de_worker env goal action st)) = ds_wm st \<and>
        (quiet \<longrightarrow> ctx_done (fst (de_worker env goal action st)) = ctx_done st)) \<and>
     (\<forall>f tid goal status text st. de_on_updated env = Some f \<longrightarrow>
        ds_wm (f tid goal status text st) = ds_wm st \<and>
        (quiet \<longrightarrow> ctx_done (f tid goal status text st) = ctx_done st))"

abbreviation status_at :: "wm \<Rightarrow> paddr \<Rightarrow> nat \<Rightarrow> task_status" where
  "status_at s a k \<equiv> t_status (p_tasks (wm_heap s a) ! k)"

text \<open>The statuses a task of the batch may end with while nothing has been counted as a failure.\<close>

definition final_statuses :: "bool \<Rightarrow> task_status set" where
  "final_statuses quiet = (if quiet then {TaskStatusDone} else {TaskStatusDone, TaskStatusFailed})"

definition g_ok :: "bool \<Rightarrow> wm \<Rightarrow> paddr \<Rightarrow> nat \<Rightarrow> goroutine \<Rightarrow> bool" where
  "g_ok quiet s a k g =
     (case g of
        GReady tid _ _ \<Rightarrow> tid = t_id (p_tasks (wm_heap s a) ! k)
      | GRan tid _ _ \<Rightarrow> tid = t_id (p_tasks (wm_heap s a) ! k)
      | GFailed _ _ _ _ _ _ \<Rightarrow> False
      | GSave _ _ _ pm _ \<Rightarrow> pm = a \<and> status_at s a k \<in> final_statuses quiet
      | GStop \<Rightarrow> status_at s a k \<in> final_statuses quiet)"

definition batch_inv :: "bool \<Rightarrow> paddr \<Rightarrow> wm \<Rightarrow> nat list \<Rightarrow> goroutine list \<Rightarrow> 'x dag_state \<times> nat \<Rightarrow> bool" where
  "batch_inv quiet a s0 ks gs x \<longleftrightarrow>
     snd x = 0 \<and> same_layout s0 (ds_wm (fst x)) \<and> length gs = length ks \<and>
     (\<forall>k < length (p_tasks (wm_heap s0 a)). k \<notin> set ks \<longrightarrow> status_at (ds_wm (fst x)) a k = status_at s0 a k) \<and>
     (\<forall>j < length ks. g_ok quiet (ds_wm (fst x)) a (ks ! j) (gs ! j)) \<and>
     (quiet \<longrightarrow> \<not> ctx_done (fst x))"

text \<open>A change of one task's status, or of nothing the invariant sees, is a step of the invariant.\<close>

lemma batch_inv_update:
  assumes inv: "batch_inv quiet a s0 ks gs x" and j: "j < length ks" and d: "distinct ks"
    and lay: "same_layout (ds_wm (fst x)) (ds_wm (fst y))"
    and other: "\<And>k. k < length (p_tasks (wm_heap s0 a)) \<Longrightarrow> k \<noteq> ks ! j \<Longrightarrow>
        status_at (ds_wm (fst y)) a k = status_at (ds_wm (fst x)) a k"
    and bound: "set ks \<subseteq> {..<length (p_tasks (wm_heap s0 a))}"
    and ok: "g_ok quiet (ds_wm (fst y)) a (ks ! j) g"
    and rest: "snd y = 0" "quiet \<Longrightarrow> \<not> ctx_done (fst y)"
  shows "batch_inv quiet a s0 ks (gs[j := g]) y"
proof -
  have l: "same_layout s0 (ds_wm (fst x))" and lg: "length gs = length ks"
    using inv by (simp_all add: batch_inv_def)
  have sk: "skel (wm_heap (ds_wm (fst y)) a) = skel (wm_heap (ds_wm (fst x)) a)"
    using lay by (simp add: same_layout_def)
  have len: "length (p_tasks (wm_heap (ds_wm (fst y)) a)) = length (p_tasks (wm_heap s0 a))"
    using same_layout_trans [OF l lay] by (auto simp: same_layout_def intro: skel_length)
  have gs: "g_ok quiet (ds_wm (fst y)) a (ks ! i) (gs[j := g] ! i)" if i: "i < length ks" for i
  proof (cases "i = j")
    case True
    with ok lg j show ?thesis by simp
  next
    case False
    then have ne: "ks ! i \<noteq> ks ! j" using d i j by (simp add: nth_eq_iff_index_eq)
    have lt: "ks ! i < length (p_tasks (wm_heap s0 a))" using bound i nth_mem by fastforce
    have "g_ok quiet (ds_wm (fst x)) a (ks ! i) (gs ! i)" using inv i by (simp add: batch_inv_def)
    moreover have "t_id (p_tasks (wm_heap (ds_wm (fst y)) a) ! (ks ! i))
        = t_id (p_tasks (wm_heap (ds_wm (fst x)) a) ! (ks ! i))"
      using skel_nth(1) [OF sk] lt len by simp
    ultimately show ?thesis
      using False other [OF lt ne] by (simp add: g_ok_def split: goroutine.splits)
  qed
  have out: "status_at (ds_wm (fst y)) a k = status_at s0 a k"
    if k: "k < length (p_tasks (wm_heap s0 a))" "k \<notin> set ks" for k
  proof -
    have "k \<noteq> ks ! j" using k(2) j nth_mem by blast
    with other [OF k(1)] inv k show ?thesis by (simp add: batch_inv_def)
  qed
  show ?thesis
    unfolding batch_inv_def using gs out lg rest same_layout_trans [OF l lay] by simp
qed

lemma set_status_sel [simp]:
  "t_id (set_status v r t) = t_id t" "t_parent (set_status v r t) = t_parent t"
  "t_status (set_status v r t) = v"
  by (simp_all add: set_status_def)

lemma status_upd_task:
  "k < length (p_tasks (wm_heap s a)) \<Longrightarrow> i < length (p_tasks (wm_heap s a)) \<Longrightarrow>
     status_at (upd_task (a, k) f s) a i = (if i = k then t_status (f (p_tasks (wm_heap s a) ! k)) else status_at s a i)"
  by (simp add: upd_task_tasks nth_list_update)

text \<open>Updating the status of a found task, with or without a save, keeps the layout.\<close>

lemma layout_change:
  assumes "\<And>t. t_id (f t) = t_id t" "\<And>t. t_parent (f t) = t_parent t"
  shows "same_layout s (upd_task q f s)"
    and "plan_found s a \<Longrightarrow> same_layout s (fst (put_plan (Some a) (upd_task q f s)))"
proof -
  show l: "same_layout s (upd_task q f s)" by (rule same_layout_upd_task) (use assms in auto)
  assume "plan_found s a"
  then have "plan_found (upd_task q f s) a" by (rule plan_found_layout [OF l])
  then have "same_layout (upd_task q f s) (fst (put_plan (Some a) (upd_task q f s)))"
    by (intro same_layout_put) (simp add: plan_found_def)
  with l show "same_layout s (fst (put_plan (Some a) (upd_task q f s)))" by (rule same_layout_trans)
qed

lemma g_step_inv:
  assumes inv: "batch_inv quiet a s0 ks gs x" and j: "j < length ks" and d: "distinct ks"
    and bound: "set ks \<subseteq> {..<length (p_tasks (wm_heap s0 a))}"
    and found: "plan_found s0 a" and env: "local_env quiet env"
  defines "r \<equiv> g_step env (p_id (wm_heap s0 a)) (gs ! j) x"
  shows "snd (snd r) > 0 \<or> batch_inv quiet a s0 ks (gs[j := fst r]) (snd r)"
proof -
  obtain st where x: "x = (st, 0)" using inv by (cases x) (simp add: batch_inv_def)
  let ?s = "ds_wm st" and ?k = "ks ! j"
  have lay: "same_layout s0 ?s" and g: "g_ok quiet ?s a ?k (gs ! j)"
    and quiet: "quiet \<Longrightarrow> \<not> ctx_done st"
    using inv j by (simp_all add: batch_inv_def x)
  have sk: "skel (wm_heap ?s a) = skel (wm_heap s0 a)" using lay by (simp add: same_layout_def)
  have fd: "plan_found ?s a" by (rule plan_found_layout [OF lay found])
  have len: "length (p_tasks (wm_heap ?s a)) = length (p_tasks (wm_heap s0 a))" by (rule skel_length [OF sk])
  have k: "?k < length (p_tasks (wm_heap ?s a))" using bound j len nth_mem by fastforce
  have gp: "get_plan ?s (p_id (wm_heap s0 a)) = Some a"
    using fd skel_id [OF sk] by (simp add: plan_found_def)
  have ft: "find_task ?s (t_id (p_tasks (wm_heap ?s a) ! ?k)) = Some (a, ?k)"
    using fd k by (simp add: plan_found_def)
  note upd = batch_inv_update [OF inv j d _ _ bound, unfolded x fst_conv]
  show ?thesis
  proof (cases "gs ! j")
    case (GReady tid goal action)
    with g have tid: "tid = t_id (p_tasks (wm_heap ?s a) ! ?k)" by (simp add: g_ok_def)
    show ?thesis
    proof (cases "ctx_done st")
      case True
      let ?w = "\<lambda>s. fst (put_plan (Some a) (upd_task (a, ?k) (set_status TaskStatusFailed ''cancelled'') s))"
      have r: "r = (GStop, map_wm ?w st, 0)"
        using True by (simp add: r_def GReady x g_start_def gp tid ft)
      have "batch_inv quiet a s0 ks (gs[j := GStop]) (map_wm ?w st, 0)"
      proof (rule upd)
        show "same_layout ?s (ds_wm (fst (map_wm ?w st, 0)))"
          using layout_change(2) [OF _ _ fd, of "set_status TaskStatusFailed ''cancelled''" "(a, ?k)"] by simp
        show "g_ok quiet (ds_wm (fst (map_wm ?w st, 0))) a ?k GStop"
          using quiet True k by (auto simp: g_ok_def final_statuses_def upd_task_tasks)
      qed (use quiet True k len in \<open>auto simp: upd_task_tasks\<close>)
      then show ?thesis by (simp add: r)
    next
      case False
      obtain st1 out where w: "de_worker env goal action st = (st1, out)" by (cases "de_worker env goal action st") blast
      with env have s1: "ds_wm st1 = ?s" and q1: "quiet \<Longrightarrow> ctx_done st1 = ctx_done st"
        unfolding local_env_def by (metis fst_conv)+
      have r: "r = (GRan tid goal out, st1, 0)"
        using False by (simp add: r_def GReady x g_start_def w)
      have "batch_inv quiet a s0 ks (gs[j := GRan tid goal out]) (st1, 0)"
        by (rule upd) (use s1 q1 False in \<open>simp_all add: g_ok_def tid\<close>)
      then show ?thesis by (simp add: r)
    qed
  next
    case (GRan tid goal out)
    with g have tid: "tid = t_id (p_tasks (wm_heap ?s a) ! ?k)" by (simp add: g_ok_def)
    obtain reply u e where out: "out = (reply, u, e)" by (cases out)
    show ?thesis
    proof (cases e)
      case None
      let ?f = "\<lambda>t. (set_status TaskStatusDone reply t)\<lparr>t_usage := u\<rparr>"
      let ?g = "GSave tid goal reply a (task_status_str TaskStatusDone)"
      have r: "r = (?g, map_wm (upd_task (a, ?k) ?f) st, 0)"
        by (simp add: r_def GRan x g_finish_def gp tid ft out None)
      have "batch_inv quiet a s0 ks (gs[j := ?g]) (map_wm (upd_task (a, ?k) ?f) st, 0)"
      proof (rule upd)
        show "same_layout ?s (ds_wm (fst (map_wm (upd_task (a, ?k) ?f) st, 0)))"
          using layout_change(1) [of ?f] by simp
        show "g_ok quiet (ds_wm (fst (map_wm (upd_task (a, ?k) ?f) st, 0))) a ?k ?g"
          using k by (simp add: g_ok_def final_statuses_def upd_task_tasks)
      qed (use quiet k len in \<open>auto simp: upd_task_tasks\<close>)
      then show ?thesis by (simp add: r)
    next
      case (Some e')
      have "snd (snd r) = 1"
        by (simp add: r_def GRan x g_finish_def gp tid ft out Some)
      then show ?thesis by simp
    qed
  next
    case (GSave tid goal reply pm q)
    with g have pm: "pm = a" and st: "status_at ?s a ?k \<in> final_statuses quiet"
      by (simp_all add: g_ok_def)
    let ?st = "g_save env tid goal reply a q st"
    have wm: "ds_wm ?st = fst (put_plan (Some a) ?s)"
      and qt: "quiet \<Longrightarrow> ctx_done ?st = ctx_done st"
      using env by (auto simp: g_save_def Let_def local_env_def split: option.splits)
    have r: "r = (GStop, ?st, 0)" by (simp add: r_def GSave x pm)
    have "batch_inv quiet a s0 ks (gs[j := GStop]) (?st, 0)"
    proof (rule upd)
      show "same_layout ?s (ds_wm (fst (?st, 0)))"
        using fd by (simp add: wm same_layout_put plan_found_def)
    qed (use quiet qt st in \<open>simp_all add: wm g_ok_def\<close>)
    then show ?thesis by (simp add: r)
  next
    case (GFailed tid goal reason reply pm q)
    with g show ?thesis by (simp add: g_ok_def)
  next
    case GStop
    then have "r = (GStop, x)" by (simp add: r_def x)
    moreover have "gs[j := GStop] = gs" using GStop by (metis list_update_id)
    ultimately show ?thesis using inv by simp
  qed
qed

lemma g_step_mono: "snd x \<le> snd (snd (g_step env pid g x))"
  by (cases x; cases g) (auto simp: Let_def split: prod.splits)

text \<open>The induction over a schedule, once for all.\<close>

lemma run_group_induct:
  assumes "P gs x"
    and "\<And>gs x j. P gs x \<Longrightarrow> j < length gs \<Longrightarrow> gs ! j \<noteq> GStop \<Longrightarrow>
        P (gs[j := fst (g_step env pid (gs ! j) x)]) (snd (g_step env pid (gs ! j) x))"
    and "\<And>gs x. P gs x \<Longrightarrow> CancelNow \<in> set sched \<Longrightarrow> P gs ((fst x)\<lparr>ds_parent_done := True\<rparr>, snd x)"
  shows "\<exists>gs'. live gs' = [] \<and> P gs' (snd (run_group env pid sched gs x)) \<and>
    set (fst (run_group env pid sched gs x)) \<subseteq> set sched"
  using assms
proof (induction env pid sched gs x rule: run_group.induct)
  case (1 env pid sched gs x)
  show ?case
  proof (cases "live gs = []")
    case True
    with 1(4) show ?thesis by (subst (1 2) run_group.simps) auto
  next
    case False
    have step: "P (gs[pick gs i := fst (g_step env pid (gs ! pick gs i) x)])
        (snd (g_step env pid (gs ! pick gs i) x))" for i
      by (rule 1(5) [OF 1(4)]) (use pick_live [OF False] in auto)
    show ?thesis
    proof (cases sched)
      case Nil
      from 1(1) [OF False Nil refl step 1(5)] False Nil show ?thesis
        by (subst (1 2) run_group.simps) (simp add: Let_def)
    next
      case (Cons c rest)
      show ?thesis
      proof (cases c)
        case (Run i)
        with Cons have sc: "sched = Run i # rest" by simp
        have "\<exists>gs'. live gs' = [] \<and> P gs' (snd (run_group env pid rest
            (gs[pick gs i := fst (g_step env pid (gs ! pick gs i) x)]) (snd (g_step env pid (gs ! pick gs i) x)))) \<and>
          set (fst (run_group env pid rest
            (gs[pick gs i := fst (g_step env pid (gs ! pick gs i) x)]) (snd (g_step env pid (gs ! pick gs i) x))))
          \<subseteq> set rest"
          by (rule 1(2) [OF False Cons Run refl step 1(5)]) (use 1(6) Cons in auto)
        with False sc show ?thesis
          by (subst (1 2) run_group.simps) (auto simp: Let_def)
      next
        case CancelNow
        with Cons have sc: "sched = CancelNow # rest" by simp
        have "\<exists>gs'. live gs' = [] \<and> P gs' (snd (run_group env pid rest gs
            ((fst x)\<lparr>ds_parent_done := True\<rparr>, snd x))) \<and>
          set (fst (run_group env pid rest gs ((fst x)\<lparr>ds_parent_done := True\<rparr>, snd x))) \<subseteq> set rest"
          by (rule 1(3) [OF False Cons CancelNow]) (use 1(4-6) sc in auto)
        with False sc show ?thesis
          by (subst (1 2) run_group.simps) auto
      qed
    qed
  qed
qed

lemma run_group_mono: "snd x \<le> snd (snd (run_group env pid sched gs x))"
  using run_group_induct [of "\<lambda>_ y. snd x \<le> snd y" gs x env pid sched]
    g_step_mono order_trans by (metis order_refl snd_conv)

section \<open>One batch\<close>

lemma run_batch:
  fixes x :: "'x dag_state \<times> nat"
  assumes inv: "batch_inv quiet a s0 ks gs x" and d: "distinct ks"
    and bound: "set ks \<subseteq> {..<length (p_tasks (wm_heap s0 a))}"
    and found: "plan_found s0 a" and env: "local_env quiet env"
    and sched: "quiet \<Longrightarrow> CancelNow \<notin> set sched"
    and run: "run_group env (p_id (wm_heap s0 a)) sched gs x = (rest, st2, fails)"
  shows "set rest \<subseteq> set sched"
    and "fails = 0 \<Longrightarrow> same_layout s0 (ds_wm st2)"
    and "fails = 0 \<Longrightarrow> quiet \<Longrightarrow> \<not> ctx_done st2"
    and "fails = 0 \<Longrightarrow> k < length (p_tasks (wm_heap s0 a)) \<Longrightarrow> k \<notin> set ks \<Longrightarrow>
      status_at (ds_wm st2) a k = status_at s0 a k"
    and "fails = 0 \<Longrightarrow> k \<in> set ks \<Longrightarrow> status_at (ds_wm st2) a k \<in> final_statuses quiet"
proof -
  let ?P = "\<lambda>gs (x :: 'x dag_state \<times> nat). 0 < snd x \<or> batch_inv quiet a s0 ks gs x"
  have "\<exists>gs'. live gs' = [] \<and> ?P gs' (snd (run_group env (p_id (wm_heap s0 a)) sched gs x)) \<and>
    set (fst (run_group env (p_id (wm_heap s0 a)) sched gs x)) \<subseteq> set sched"
  proof (rule run_group_induct)
    fix gs' x' j assume P: "?P gs' x'" and j: "j < length gs'"
    show "?P (gs'[j := fst (g_step env (p_id (wm_heap s0 a)) (gs' ! j) x')])
        (snd (g_step env (p_id (wm_heap s0 a)) (gs' ! j) x'))"
    proof (cases "0 < snd x'")
      case True
      with g_step_mono [of x' env "p_id (wm_heap s0 a)" "gs' ! j"] show ?thesis by simp
    next
      case False
      with P have i: "batch_inv quiet a s0 ks gs' x'" by blast
      then have "j < length ks" using j by (simp add: batch_inv_def)
      from g_step_inv [OF i this d bound found env] show ?thesis .
    qed
  next
    fix gs' x' assume P: "?P gs' x'" and c: "CancelNow \<in> set sched"
    with sched have "\<not> quiet" by blast
    with P show "?P gs' ((fst x')\<lparr>ds_parent_done := True\<rparr>, snd x')"
      by (simp add: batch_inv_def)
  qed (use inv in simp)
  then obtain gs' where dead: "live gs' = []" and P: "0 < fails \<or> batch_inv quiet a s0 ks gs' (st2, fails)"
    and sub: "set rest \<subseteq> set sched" by (auto simp: run)
  show "set rest \<subseteq> set sched" by (rule sub)
  assume "fails = 0"
  with P have b: "batch_inv quiet a s0 ks gs' (st2, 0)" by simp
  then show "same_layout s0 (ds_wm st2)" "quiet \<Longrightarrow> \<not> ctx_done st2"
    "k < length (p_tasks (wm_heap s0 a)) \<Longrightarrow> k \<notin> set ks \<Longrightarrow> status_at (ds_wm st2) a k = status_at s0 a k"
    by (simp_all add: batch_inv_def)
  show "status_at (ds_wm st2) a k \<in> final_statuses quiet" if "k \<in> set ks"
  proof -
    from that obtain j where j: "j < length ks" "ks ! j = k" by (auto simp: in_set_conv_nth)
    moreover have "gs' ! j = GStop" if "j < length gs'" for j
      using dead that live_iff [of j gs'] by auto
    ultimately have "g_ok quiet (ds_wm st2) a k GStop" using b by (metis batch_inv_def fst_conv)
    then show ?thesis by (simp add: g_ok_def)
  qed
qed

lemma mark_tasks_facts:
  assumes "\<And>t. t_id (f t) = t_id t" "\<And>t. t_parent (f t) = t_parent t" "\<And>t. t_status (f t) = v"
  shows "same_layout s (mark_tasks a ks f s)"
    and "i < length (p_tasks (wm_heap s a)) \<Longrightarrow>
      status_at (mark_tasks a ks f s) a i = (if i \<in> set ks then v else status_at s a i)"
proof (induction ks arbitrary: s)
  case (Cons k ks)
  {
    case 1
    show ?case
      using same_layout_trans [OF layout_change(1) [OF assms(1,2)] Cons.IH(1)]
      by (simp add: mark_tasks_def)
  next
    case 2
    have "length (p_tasks (wm_heap (upd_task (a, k) f s) a)) = length (p_tasks (wm_heap s a))"
      by (simp add: upd_task_tasks)
    with 2 Cons.IH(2) [of "upd_task (a, k) f s"]
    have "status_at (mark_tasks a (k # ks) f s) a i
        = (if i \<in> set ks then v else status_at (upd_task (a, k) f s) a i)"
      by (simp add: mark_tasks_def)
    also have "status_at (upd_task (a, k) f s) a i = (if i = k then v else status_at s a i)"
      using 2 assms(3) by (auto simp: upd_task_tasks nth_list_update)
    finally show ?case by auto
  }
qed (simp_all add: mark_tasks_def)

definition pending :: "wm \<Rightarrow> paddr \<Rightarrow> nat" where
  "pending s a = card {k. k < length (p_tasks (wm_heap s a)) \<and> status_at s a k = TaskStatusPending}"

definition begin_batch :: "paddr \<Rightarrow> nat list \<Rightarrow> wm \<Rightarrow> wm" where
  "begin_batch a ready s =
     fst (put_plan (Some a) (mark_tasks a ready (\<lambda>t. t\<lparr>t_status := TaskStatusDoing\<rparr>) s))"

lemma batch_round:
  fixes st :: "'x dag_state"
  assumes found: "plan_found (ds_wm st) a" and env: "local_env quiet env"
    and sched: "quiet \<Longrightarrow> CancelNow \<notin> set sched" and nc: "\<not> ctx_done st"
    and ready: "ready = ready_tasks (wm_heap (ds_wm st) a)"
    and run: "run_group env (p_id (wm_heap (ds_wm st) a)) sched (map (spawn (wm_heap (ds_wm st) a)) ready)
      (map_wm (begin_batch a ready) st, 0) = (rest, st2, fails)"
  shows "set rest \<subseteq> set sched"
    and "fails = 0 \<Longrightarrow> same_layout (ds_wm st) (ds_wm st2)"
    and "fails = 0 \<Longrightarrow> quiet \<Longrightarrow> \<not> ctx_done st2"
    and "fails = 0 \<Longrightarrow> k < length (p_tasks (wm_heap (ds_wm st) a)) \<Longrightarrow> k \<notin> set ready \<Longrightarrow>
      status_at (ds_wm st2) a k = status_at (ds_wm st) a k"
    and "fails = 0 \<Longrightarrow> k \<in> set ready \<Longrightarrow> status_at (ds_wm st2) a k \<in> final_statuses quiet"
proof -
  let ?s = "ds_wm st" and ?f = "\<lambda>t. t\<lparr>t_status := TaskStatusDoing\<rparr> :: task"
  let ?s1 = "begin_batch a ready ?s"
  have m: "same_layout ?s (mark_tasks a ready ?f ?s)"
    "\<And>i. i < length (p_tasks (wm_heap ?s a)) \<Longrightarrow> status_at (mark_tasks a ready ?f ?s) a i
        = (if i \<in> set ready then TaskStatusDoing else status_at ?s a i)"
    by (rule mark_tasks_facts; simp)+
  have lay: "same_layout ?s ?s1"
    using same_layout_trans [OF m(1) same_layout_put] plan_found_layout [OF m(1) found]
    by (simp add: begin_batch_def plan_found_def)
  have sk: "skel (wm_heap ?s1 a) = skel (wm_heap ?s a)" using lay by (simp add: same_layout_def)
  have found1: "plan_found ?s1 a" by (rule plan_found_layout [OF lay found])
  have len: "length (p_tasks (wm_heap ?s1 a)) = length (p_tasks (wm_heap ?s a))" by (rule skel_length [OF sk])
  have bound: "set ready \<subseteq> {..<length (p_tasks (wm_heap ?s a))}" by (auto simp: ready ready_tasks_set)
  have st1: "i < length (p_tasks (wm_heap ?s a)) \<Longrightarrow> status_at ?s1 a i
      = (if i \<in> set ready then TaskStatusDoing else status_at ?s a i)" for i
    using m(2) by (simp add: begin_batch_def)
  have inv: "batch_inv quiet a ?s1 ready (map (spawn (wm_heap ?s a)) ready) (map_wm (begin_batch a ready) st, 0)"
    unfolding batch_inv_def
  proof (intro conjI allI impI; (simp add: nc; fail)?)
    fix j assume j: "j < length ready"
    then have "ready ! j < length (p_tasks (wm_heap ?s1 a))" using bound len nth_mem by fastforce
    with j skel_nth(1) [OF sk] show "g_ok quiet (ds_wm (fst (map_wm (begin_batch a ready) st, 0))) a (ready ! j)
        (map (spawn (wm_heap ?s a)) ready ! j)"
      by (simp add: g_ok_def spawn_def)
  qed
  have pid: "p_id (wm_heap ?s1 a) = p_id (wm_heap ?s a)" by (rule skel_id [OF sk])
  have d: "distinct ready" by (simp add: ready sorted_ready_tasks)
  note r = run_batch [OF inv d bound [folded len] found1 env sched run [folded pid]]
  show "set rest \<subseteq> set sched" by (rule r(1)) simp
  show "fails = 0 \<Longrightarrow> same_layout ?s (ds_wm st2)" using same_layout_trans [OF lay r(2)] by blast
  show "fails = 0 \<Longrightarrow> quiet \<Longrightarrow> \<not> ctx_done st2" using r(3) by blast
  show "fails = 0 \<Longrightarrow> k < length (p_tasks (wm_heap ?s a)) \<Longrightarrow> k \<notin> set ready \<Longrightarrow>
      status_at (ds_wm st2) a k = status_at ?s a k"
    using r(4) [of k] st1 [of k] len by simp
  show "fails = 0 \<Longrightarrow> k \<in> set ready \<Longrightarrow> status_at (ds_wm st2) a k \<in> final_statuses quiet"
    using r(5) [of k] by blast
qed

lemma batch_loop_Suc:
  "batch_loop (Suc n) env a any sched st =
     (let p = wm_heap (ds_wm st) a; ready = ready_tasks p in
      if ready = [] then
        Some (st, \<lparr>br_batched = any, br_has_failed = False, br_all_done = is_dag_done p\<rparr>)
      else if ctx_done st then
        (let st1 = map_wm (\<lambda>s. fst (put_plan (Some a)
                     (mark_tasks a ready (set_status TaskStatusFailed ''cancelled'') s))) st
         in Some (st1, \<lparr>br_batched = any, br_has_failed = True,
                        br_all_done = is_dag_done (wm_heap (ds_wm st1) a)\<rparr>))
      else
        (case run_group env (p_id p) sched (map (spawn p) ready) (map_wm (begin_batch a ready) st, 0) of
           (rest, st2, fails) \<Rightarrow>
             if fails > 0 then
               Some (st2, \<lparr>br_batched = True, br_has_failed = True,
                           br_all_done = is_dag_done (wm_heap (ds_wm st2) a)\<rparr>)
             else batch_loop n env a True rest st2))"
proof -
  have "begin_batch a ready = (\<lambda>s. fst (put_plan (Some a)
      (mark_tasks a ready (\<lambda>t. t\<lparr>t_status := TaskStatusDoing\<rparr>) s)))" for ready
    by (simp add: begin_batch_def fun_eq_iff)
  then show ?thesis by (simp only: batch_loop.simps Let_def)
qed

section \<open>Termination\<close>

lemma round_pending_less:
  assumes lay: "same_layout s t" and ready: "ready = ready_tasks (wm_heap s a)" "ready \<noteq> []"
    and same: "\<And>k. k < length (p_tasks (wm_heap s a)) \<Longrightarrow> k \<notin> set ready \<Longrightarrow> status_at t a k = status_at s a k"
    and fin_st: "\<And>k. k \<in> set ready \<Longrightarrow> status_at t a k \<in> final_statuses quiet"
  shows "pending t a < pending s a"
proof -
  have len: "length (p_tasks (wm_heap t a)) = length (p_tasks (wm_heap s a))"
    using lay by (auto simp: same_layout_def intro: skel_length)
  have fin: "TaskStatusPending \<notin> final_statuses quiet" by (simp add: final_statuses_def)
  have rp: "k < length (p_tasks (wm_heap s a)) \<and> status_at s a k = TaskStatusPending" if "k \<in> set ready" for k
    using that by (simp add: ready(1) ready_tasks_set)
  let ?A = "{k. k < length (p_tasks (wm_heap t a)) \<and> status_at t a k = TaskStatusPending}"
  let ?B = "{k. k < length (p_tasks (wm_heap s a)) \<and> status_at s a k = TaskStatusPending}"
  have sub: "?A \<subseteq> ?B"
  proof
    fix k assume k: "k \<in> ?A"
    then have "k \<notin> set ready" using fin_st [of k] fin by auto
    with k same [of k] len show "k \<in> ?B" by simp
  qed
  obtain k where k: "k \<in> set ready" using ready(2) by (cases ready) auto
  have "k \<in> ?B" using rp [OF k] by simp
  moreover have "k \<notin> ?A" using fin_st [OF k] fin by auto
  ultimately have "?A \<subset> ?B" using sub by blast
  then show ?thesis unfolding pending_def by (intro psubset_card_mono) simp_all
qed

lemma batch_loop_returns:
  assumes "plan_found (ds_wm st) a" "local_env False env" "pending (ds_wm st) a < n"
  shows "batch_loop n env a any sched st \<noteq> None"
  using assms(1,3)
proof (induction n arbitrary: any sched st)
  case (Suc n)
  let ?p = "wm_heap (ds_wm st) a" and ?ready = "ready_tasks (wm_heap (ds_wm st) a)"
  obtain rest st2 fails where run: "run_group env (p_id ?p) sched (map (spawn ?p) ?ready)
      (map_wm (begin_batch a ?ready) st, 0) = (rest, st2, fails)" by (metis prod_cases3)
  have "batch_loop n env a True rest st2 \<noteq> None"
    if "?ready \<noteq> []" "\<not> ctx_done st" "fails = 0"
  proof (rule Suc.IH)
    note r = batch_round [OF Suc.prems(1) assms(2) _ that(2) refl run]
    have lay: "same_layout (ds_wm st) (ds_wm st2)" using r(2) that by blast
    show "plan_found (ds_wm st2) a" by (rule plan_found_layout [OF lay Suc.prems(1)])
    have "pending (ds_wm st2) a < pending (ds_wm st) a"
      by (rule round_pending_less [OF lay refl that(1)]) (use r(4,5) that(3) in blast)+
    with Suc.prems(2) show "pending (ds_wm st2) a < n" by simp
  qed
  then show ?case by (subst batch_loop_Suc) (simp add: Let_def run)
qed simp

section \<open>Completion\<close>

lemma well_formed_skel:
  assumes "skel p = skel q" shows "well_formed_plan p \<longleftrightarrow> well_formed_plan q"
proof -
  have key: "well_formed_plan p \<longleftrightarrow>
      (let E = set (snd (skel p)) in E \<noteq> {} \<and>
        (\<forall>x \<in> E. set (split_parent_ids (snd x)) \<subseteq> fst ` E) \<and>
        acyclic {(fst x, pid) | x pid. x \<in> E \<and> pid \<in> set (split_parent_ids (snd x))})" for p
  proof -
    let ?f = "\<lambda>t. (t_id t, t_parent t)"
    have "{(fst x, pid) | x pid. x \<in> ?f ` set (p_tasks p) \<and> pid \<in> set (split_parent_ids (snd x))}
        = {(fst (?f t), pid) | t pid. t \<in> set (p_tasks p) \<and> pid \<in> set (split_parent_ids (snd (?f t)))}"
      by blast
    then have eq: "{(fst x, pid) | x pid. x \<in> ?f ` set (p_tasks p) \<and> pid \<in> set (split_parent_ids (snd x))}
        = depends (p_tasks p)"
      by (simp only: depends_def fst_conv snd_conv)
    show ?thesis unfolding well_formed_plan_def Let_def skel_def snd_conv set_map eq
      by (simp add: image_image)
  qed
  show ?thesis unfolding key [of p] key [of q] assms ..
qed

definition startable :: "wm \<Rightarrow> paddr \<Rightarrow> bool" where
  "startable s a \<longleftrightarrow> plan_found s a \<and> well_formed_plan (wm_heap s a) \<and>
     distinct (map t_id (p_tasks (wm_heap s a))) \<and>
     (\<forall>t \<in> set (p_tasks (wm_heap s a)). t_status t = TaskStatusPending \<or> t_status t = TaskStatusDone)"

lemma startable_round:
  assumes st: "startable s a" and lay: "same_layout s t" and ready: "ready = ready_tasks (wm_heap s a)"
    and same: "\<And>k. k < length (p_tasks (wm_heap s a)) \<Longrightarrow> k \<notin> set ready \<Longrightarrow> status_at t a k = status_at s a k"
    and fin_st: "\<And>k. k \<in> set ready \<Longrightarrow> status_at t a k \<in> final_statuses True"
  shows "startable t a"
proof -
  have sk: "skel (wm_heap t a) = skel (wm_heap s a)" using lay by (simp add: same_layout_def)
  have "status_at t a k = TaskStatusPending \<or> status_at t a k = TaskStatusDone"
    if k: "k < length (p_tasks (wm_heap t a))" for k
  proof (cases "k \<in> set ready")
    case True
    with fin_st [of k] show ?thesis by (simp add: final_statuses_def)
  next
    case False
    have k': "k < length (p_tasks (wm_heap s a))" using k skel_length [OF sk] by simp
    with st have "status_at s a k = TaskStatusPending \<or> status_at s a k = TaskStatusDone"
      unfolding startable_def by (meson nth_mem)
    with same [OF k' False] show ?thesis by simp
  qed
  then have "\<forall>t \<in> set (p_tasks (wm_heap t a)). t_status t = TaskStatusPending \<or> t_status t = TaskStatusDone"
    by (metis in_set_conv_nth)
  then show ?thesis
    using st plan_found_layout [OF lay] well_formed_skel [OF sk] skel_ids [OF sk]
    by (simp add: startable_def)
qed

lemma startable_finished:
  assumes "startable s a" "ready_tasks (wm_heap s a) = []"
  shows "\<forall>t \<in> set (p_tasks (wm_heap s a)). t_status t = TaskStatusDone"
proof (rule ccontr)
  assume "\<not> (\<forall>t \<in> set (p_tasks (wm_heap s a)). t_status t = TaskStatusDone)"
  then obtain t where t: "t \<in> set (p_tasks (wm_heap s a))" "t_status t = TaskStatusPending"
    using assms(1) unfolding startable_def by blast
  have "ready_tasks (wm_heap s a) \<noteq> []"
    by (rule ready_exists [OF _ _ _ t]) (use assms(1) in \<open>auto simp: startable_def\<close>)
  with assms(2) show False by blast
qed

lemma batch_loop_done:
  assumes "startable (ds_wm st) a" "local_env True env" "CancelNow \<notin> set sched" "\<not> ctx_done st"
    and "batch_loop n env a any sched st = Some (st', r)" "\<not> br_has_failed r"
  shows "br_all_done r \<and> (\<forall>t \<in> set (p_tasks (wm_heap (ds_wm st') a)). t_status t = TaskStatusDone)"
  using assms(1,3-5)
proof (induction n arbitrary: any sched st)
  case (Suc n)
  let ?p = "wm_heap (ds_wm st) a" and ?ready = "ready_tasks (wm_heap (ds_wm st) a)"
  have found: "plan_found (ds_wm st) a" using Suc.prems(1) by (simp add: startable_def)
  obtain rest st2 fails where run: "run_group env (p_id ?p) sched (map (spawn ?p) ?ready)
      (map_wm (begin_batch a ?ready) st, 0) = (rest, st2, fails)" by (metis prod_cases3)
  note eq = Suc.prems(4) [unfolded batch_loop_Suc Let_def run prod.case]
  show ?case
  proof (cases "?ready = []")
    case True
    with eq have "st' = st" "br_all_done r = is_dag_done ?p" by auto
    with startable_finished [OF Suc.prems(1) True] show ?thesis
      by (auto simp: is_dag_done_def list_all_iff)
  next
    case False
    with eq Suc.prems(3) assms(6) have f: "fails = 0" and loop: "batch_loop n env a True rest st2 = Some (st', r)"
      by (auto split: if_splits)
    note rd = batch_round [OF found assms(2) _ Suc.prems(3) refl run]
    have lay: "same_layout (ds_wm st) (ds_wm st2)" using rd(2) Suc.prems(2) f by blast
    show ?thesis
    proof (rule Suc.IH [OF _ _ _ loop])
      show "startable (ds_wm st2) a"
        by (rule startable_round [OF Suc.prems(1) lay refl]) (use rd(4,5) Suc.prems(2) f in blast)+
      show "CancelNow \<notin> set rest" using rd(1) Suc.prems(2) by blast
      show "\<not> ctx_done st2" using rd(3) Suc.prems(2) f by blast
    qed
  qed
qed simp

text \<open>Workers that succeed are never counted as failures.\<close>

definition workers_succeed :: "'x dag_env \<Rightarrow> bool" where
  "workers_succeed env \<longleftrightarrow> (\<forall>goal action st. snd (snd (snd (de_worker env goal action st))) = None)"

lemma no_failures:
  fixes st :: "'x dag_state"
  assumes ok: "workers_succeed env"
    and run: "run_group env pid sched (map (spawn p) ks) (st, 0) = (rest, st2, fails)"
  shows "fails = 0"
proof -
  let ?good = "\<lambda>g. case g of GRan _ _ out \<Rightarrow> snd (snd out) = None | _ \<Rightarrow> True"
  let ?P = "\<lambda>gs (x :: 'x dag_state \<times> nat). snd x = 0 \<and> (\<forall>g \<in> set gs. ?good g)"
  have step: "snd (snd (g_step env pid g x)) = 0 \<and> ?good (fst (g_step env pid g x))"
    if "snd x = 0" "?good g" for g x
  proof -
    have w: "snd (snd out) = None" if "de_worker env goal action st = (st1, out)" for goal action st st1 out
      using ok that unfolding workers_succeed_def by (metis snd_conv)
    show ?thesis
      using that
      by (cases x; cases g)
        (auto simp: g_start_def g_finish_def Let_def split: option.splits prod.splits dest!: w)
  qed
  have "\<exists>gs'. live gs' = [] \<and> ?P gs' (snd (run_group env pid sched (map (spawn p) ks) (st, 0))) \<and>
    set (fst (run_group env pid sched (map (spawn p) ks) (st, 0))) \<subseteq> set sched"
  proof (rule run_group_induct)
    fix gs x j assume P: "?P gs x" and j: "j < length gs"
    then have "?good (gs ! j)" by simp
    with P step [of x "gs ! j"] show "?P (gs[j := fst (g_step env pid (gs ! j) x)]) (snd (g_step env pid (gs ! j) x))"
      using set_update_subset_insert by (metis (no_types, lifting) insert_iff subsetD)
  qed (auto simp: spawn_def)
  with run show ?thesis by auto
qed

lemma batch_loop_no_failure:
  assumes "workers_succeed env" "local_env True env" "CancelNow \<notin> set sched" "\<not> ctx_done st"
    "plan_found (ds_wm st) a" "batch_loop n env a any sched st = Some (st', r)"
  shows "\<not> br_has_failed r"
  using assms(3-6)
proof (induction n arbitrary: any sched st)
  case (Suc n)
  let ?p = "wm_heap (ds_wm st) a" and ?ready = "ready_tasks (wm_heap (ds_wm st) a)"
  obtain rest st2 fails where run: "run_group env (p_id ?p) sched (map (spawn ?p) ?ready)
      (map_wm (begin_batch a ?ready) st, 0) = (rest, st2, fails)" by (metis prod_cases3)
  have f: "fails = 0" by (rule no_failures [OF assms(1) run])
  note rd = batch_round [OF Suc.prems(3) assms(2) _ Suc.prems(2) refl run]
  note eq = Suc.prems(4) [unfolded batch_loop_Suc Let_def run prod.case]
  show ?case
  proof (cases "?ready = []")
    case False
    with eq Suc.prems(2) f have loop: "batch_loop n env a True rest st2 = Some (st', r)" by simp
    show ?thesis
    proof (rule Suc.IH [OF _ _ _ loop])
      show "CancelNow \<notin> set rest" using rd(1) Suc.prems(1) by blast
      show "\<not> ctx_done st2" using rd(3) Suc.prems(1) f by blast
      show "plan_found (ds_wm st2) a" using plan_found_layout [OF rd(2) Suc.prems(3)] Suc.prems(1) f by blast
    qed
  qed (use eq in auto)
qed simp

section \<open>What a batch keeps of the outside state\<close>

text \<open>What worker, callback and hook maintain of \<open>ds_ext\<close>, the whole execution maintains.\<close>

definition maintains_ext :: "('x \<Rightarrow> bool) \<Rightarrow> 'x dag_env \<Rightarrow> bool" where
  "maintains_ext I env \<longleftrightarrow>
     (\<forall>goal action st. I (ds_ext st) \<longrightarrow> I (ds_ext (fst (de_worker env goal action st)))) \<and>
     (\<forall>g tid goal reason st. de_on_failed env = Some g \<longrightarrow> I (ds_ext st) \<longrightarrow> I (ds_ext (g tid goal reason st))) \<and>
     (\<forall>g tid goal status out st. de_on_updated env = Some g \<longrightarrow>
        I (ds_ext st) \<longrightarrow> I (ds_ext (g tid goal status out st)))"

lemma g_step_maintains:
  assumes "maintains_ext I env" and "I (ds_ext (fst x))"
  shows "I (ds_ext (fst (snd (g_step env pid g x))))"
proof -
  have w: "I (ds_ext st) \<Longrightarrow> I (ds_ext st1)" if "de_worker env goal action st = (st1, out)" for goal action st st1 out
    using assms(1) that unfolding maintains_ext_def by (metis fst_conv)
  show ?thesis
    using assms
    by (cases x; cases g)
      (auto simp: g_start_def g_finish_def g_callback_def g_save_def Let_def maintains_ext_def
        split: option.splits prod.splits dest: w)
qed

lemma run_group_maintains:
  fixes x :: "'x dag_state \<times> nat"
  assumes "maintains_ext I env" and run: "run_group env pid sched gs x = (rest, st2, fails)" and "I (ds_ext (fst x))"
  shows "I (ds_ext st2)"
proof -
  have "\<exists>gs'. live gs' = [] \<and> I (ds_ext (fst (snd (run_group env pid sched gs x)))) \<and>
    set (fst (run_group env pid sched gs x)) \<subseteq> set sched"
    by (rule run_group_induct [of "\<lambda>_ y. I (ds_ext (fst y))"])
      (simp_all add: g_step_maintains [OF assms(1)] assms(3))
  then show ?thesis by (simp add: run)
qed

lemma batch_loop_maintains:
  assumes k: "maintains_ext I env"
  shows "batch_loop n env a any sched st = Some (st', r) \<Longrightarrow> I (ds_ext st) \<Longrightarrow> I (ds_ext st')"
proof (induction n arbitrary: any sched st)
  case (Suc n)
  let ?p = "wm_heap (ds_wm st) a" and ?ready = "ready_tasks (wm_heap (ds_wm st) a)"
  obtain rest st2 fails where run: "run_group env (p_id ?p) sched (map (spawn ?p) ?ready)
      (map_wm (begin_batch a ?ready) st, 0) = (rest, st2, fails)" by (metis prod_cases3)
  have e: "I (ds_ext st2)" using run_group_maintains [OF k run] Suc.prems(2) by simp
  note eq = Suc.prems(1) [unfolded batch_loop_Suc Let_def run prod.case]
  then consider "ds_ext st' = ds_ext st" | "st' = st2" | "batch_loop n env a True rest st2 = Some (st', r)"
    by (auto split: if_splits)
  then show ?case using e Suc.IH Suc.prems(2) by cases auto
qed simp

lemma execute_batch_maintains:
  "maintains_ext I env \<Longrightarrow> execute_batch fuel env a sched st = Some (st', r) \<Longrightarrow> I (ds_ext st) \<Longrightarrow> I (ds_ext st')"
  unfolding execute_batch_def by (auto dest: batch_loop_maintains)

text \<open>In particular a part of \<open>ds_ext\<close> that they leave as it is.\<close>

definition keeps_ext :: "('x \<Rightarrow> 'p) \<Rightarrow> 'x dag_env \<Rightarrow> bool" where
  "keeps_ext f env \<longleftrightarrow>
     (\<forall>goal action st. f (ds_ext (fst (de_worker env goal action st))) = f (ds_ext st)) \<and>
     (\<forall>g tid goal reason st. de_on_failed env = Some g \<longrightarrow> f (ds_ext (g tid goal reason st)) = f (ds_ext st)) \<and>
     (\<forall>g tid goal status out st. de_on_updated env = Some g \<longrightarrow>
        f (ds_ext (g tid goal status out st)) = f (ds_ext st))"

lemma execute_batch_keeps_ext:
  "keeps_ext f env \<Longrightarrow> execute_batch fuel env a sched st = Some (st', r) \<Longrightarrow> f (ds_ext st') = f (ds_ext st)"
  by (rule execute_batch_maintains [where I = "\<lambda>x. f x = f (ds_ext st)"])
    (simp_all add: keeps_ext_def maintains_ext_def)

section \<open>What the executor guarantees\<close>

lemma startable_iff:
  assumes "set order = t_id ` set (p_tasks (wm_heap s a))"
  shows "startable s a \<longleftrightarrow> plan_found s a \<and> validate order (wm_heap s a) = None \<and>
     distinct (map t_id (p_tasks (wm_heap s a))) \<and>
     (\<forall>t \<in> set (p_tasks (wm_heap s a)). t_status t = TaskStatusPending \<or> t_status t = TaskStatusDone)"
  by (simp add: startable_def validate_None [OF assms])




subsection \<open>Executions on a concrete plan\<close>

text \<open>Three tasks: \<open>b\<close> and \<open>c\<close> need \<open>a\<close>.  The workers echo the goal, or fail on the goal \<open>bad\<close>.\<close>

definition demo_state :: "task list \<Rightarrow> unit dag_state" where
  "demo_state ts =
     \<lparr>ds_wm = empty_wm\<lparr>wm_heap := (\<lambda>_. demo_plan ts), wm_next := 1, wm_store := [(''p'', 0)]\<rparr>,
      ds_parent_done = False, ds_child_done = False, ds_cancel = False, ds_hitl = [], ds_paused = 0,
      ds_ext = ()\<rparr>"

definition demo_tasks :: "task list" where
  "demo_tasks = [demo_task ''a'' [] TaskStatusPending, demo_task ''b'' ''a'' TaskStatusPending,
     demo_task ''c'' ''a'' TaskStatusPending]"

definition echo_env :: "unit dag_env" where
  "echo_env = \<lparr>de_worker = (\<lambda>goal action st. (st, goal, None, if goal = ''bad'' then Some (ErrOther ''e'') else None)),
     de_on_failed = None, de_on_updated = None\<rparr>"

definition good_env :: "unit dag_env" where
  "good_env = echo_env\<lparr>de_worker := (\<lambda>goal action st. (st, goal, None, None))\<rparr>"

lemma demo_found: "plan_found (ds_wm (demo_state demo_tasks)) 0"
proof -
  have "list_all (\<lambda>k. find_task (ds_wm (demo_state demo_tasks))
      (t_id (p_tasks (wm_heap (ds_wm (demo_state demo_tasks)) 0) ! k)) = Some (0, k)) [0..<3]"
    by code_simp
  moreover have "length (p_tasks (wm_heap (ds_wm (demo_state demo_tasks)) 0)) = 3" by code_simp
  moreover have "get_plan (ds_wm (demo_state demo_tasks)) (p_id (wm_heap (ds_wm (demo_state demo_tasks)) 0)) = Some 0"
    by code_simp
  ultimately show ?thesis by (simp add: plan_found_def list_all_iff)
qed




text \<open>A cancellation that arrives after a batch has been marked is not reported as a failure: here the
  context is cancelled before the only goroutine starts, the task ends failed with reason
  \<open>cancelled\<close>, and the report says no failure and all done.\<close>

theorem cancelled_batch_reports_success:
  "(case execute_batch 2 good_env 0 [CancelNow] (demo_state [demo_task ''a'' [] TaskStatusPending]) of
      Some (st', r) \<Rightarrow>
        r = \<lparr>br_batched = True, br_has_failed = False, br_all_done = True\<rparr> \<and>
        map (\<lambda>t. (t_status t, t_reason t)) (p_tasks (wm_heap (ds_wm st') 0))
          = [(TaskStatusFailed, ''cancelled'')]
    | None \<Rightarrow> False)"
  by code_simp

text \<open>A plan whose pending task waits for a failed one is left as it is, and the report says neither
  failure nor completion, so a caller that only looks at \<open>HasFailed\<close> takes it for finished.\<close>

theorem blocked_plan_reports_no_failure:
  "(case execute_batch 1 good_env 0 [] (demo_state [demo_task ''a'' [] TaskStatusFailed,
        demo_task ''b'' ''a'' TaskStatusPending]) of
      Some (st', r) \<Rightarrow>
        r = \<lparr>br_batched = False, br_has_failed = False, br_all_done = False\<rparr> \<and>
        map t_status (p_tasks (wm_heap (ds_wm st') 0)) = [TaskStatusFailed, TaskStatusPending]
    | None \<Rightarrow> False)"
  by code_simp

end
