(* ===== verification/Session.thy ===== *)
theory Session
  imports Json
begin

text \<open>
  Session memory (memory/session\_memory.go) and its files (persist/session.go): the message history of
  a session, its compression into a summary, the JSONL file and the manager of live sessions.

  A \<open>*SessionMemory\<close> is an address of the heap \<open>sm_heap\<close>; \<open>sm_map\<close> is the manager's \<open>sync.Map\<close> and
  \<open>sm_files\<close> the session files, as the events they hold (the bytes of a JSONL file parse back to
  its events).  \<open>Compress\<close> holds no lock while the model summarises, so it is two steps, a snapshot
  and an update, with anything between them.  The summariser is an argument.
\<close>

section \<open>Sessions\<close>

record session =
  ss_id :: string
  ss_history :: "message list"
  ss_summary :: string

definition new_session :: "string \<Rightarrow> session" where
  "new_session sid = \<lparr>ss_id = sid, ss_history = [], ss_summary = []\<rparr>"

definition append_messages :: "message list \<Rightarrow> session \<Rightarrow> session" where
  "append_messages ms s = s\<lparr>ss_history := ss_history s @ ms\<rparr>"

definition append_message :: "message \<Rightarrow> session \<Rightarrow> session" where
  "append_message m s = s\<lparr>ss_history := ss_history s @ [m]\<rparr>"

text \<open>\<open>mid\<close> is the id \<open>NewSystemMessage\<close> generates.\<close>

definition get_history_messages :: "string \<Rightarrow> session \<Rightarrow> message list" where
  "get_history_messages mid s =
     (if ss_summary s = [] then ss_history s
      else new_system_message mid (TextContent (ss_summary s)) # ss_history s)"

section \<open>Compression\<close>

type_synonym summarizer = "message list \<Rightarrow> string \<Rightarrow> string \<times> usage option \<times> err option"

record snapshot =
  sn_total :: nat
  sn_old :: "message list"
  sn_recent :: "message list"
  sn_summary :: string

text \<open>Step 1, under the read lock: \<open>None\<close> when there is nothing to compress.\<close>

definition compress_snapshot :: "nat \<Rightarrow> nat \<Rightarrow> session \<Rightarrow> snapshot option" where
  "compress_snapshot keep_last_n min_to_compress s =
     (let total = length (ss_history s) in
      if total \<le> keep_last_n then None
      else
        (let split_at = total - keep_last_n; old = take split_at (ss_history s) in
         if length old < min_to_compress then None
         else Some \<lparr>sn_total = total, sn_old = old, sn_recent = drop split_at (ss_history s),
                    sn_summary = ss_summary s\<rparr>))"

text \<open>Step 3, under the write lock.\<close>

definition compress_update :: "snapshot \<Rightarrow> string \<Rightarrow> session \<Rightarrow> session" where
  "compress_update sn new_summary s =
     s\<lparr>ss_summary := new_summary,
       ss_history := sn_recent sn @
         (if length (ss_history s) > sn_total sn then drop (sn_total sn) (ss_history s) else [])\<rparr>"

text \<open>Step 2 between them: the summariser's answer decides whether the update happens.\<close>

definition compress_finish :: "summarizer \<Rightarrow> snapshot \<Rightarrow> session \<Rightarrow> session \<times> usage option \<times> err option" where
  "compress_finish summarize sn s =
     (case summarize (sn_old sn) (sn_summary sn) of
        (_, u, Some e) \<Rightarrow> (s, u, Some (ErrWrap ''compress'' e))
      | (txt, u, None) \<Rightarrow> (compress_update sn txt s, u, None))"

section \<open>Tool results\<close>

definition rune_count :: "string \<Rightarrow> nat" where
  "rune_count s = length (filter (\<lambda>c. let n = of_char c :: nat in \<not> (128 \<le> n \<and> n < 192)) s)"

type_synonym field_summarizer = "string \<Rightarrow> string \<Rightarrow> string \<Rightarrow> err + string"

definition compress_field :: "field_summarizer \<Rightarrow> int \<Rightarrow> string \<Rightarrow> string \<Rightarrow> val \<Rightarrow> val" where
  "compress_field summarize max_chars tool k v =
     (case v of
        VStr raw \<Rightarrow>
          (if int (rune_count raw) \<le> max_chars then v
           else (case summarize tool k raw of Inl _ \<Rightarrow> v | Inr summary \<Rightarrow> VStr summary))
      | _ \<Rightarrow> v)"

definition compress_tool_result :: "field_summarizer \<Rightarrow> int \<Rightarrow> tool_call_result \<Rightarrow> tool_call_result" where
  "compress_tool_result summarize max_chars r =
     (if max_chars \<le> 0 then r
      else if map_of (tcr_outputs r) ''error'' \<noteq> None then r
      else r\<lparr>tcr_outputs := map (\<lambda>(k, v). (k, compress_field summarize max_chars (tcr_name r) k v))
                             (tcr_outputs r)\<rparr>)"

section \<open>The session file (persist/session.go)\<close>

record jsonl_event =
  ev_type :: string
  ev_payload :: json

definition session_events :: "string \<Rightarrow> string \<Rightarrow> message list \<Rightarrow> jsonl_event list" where
  "session_events sid summary ms =
     [\<lparr>ev_type = ''init'', ev_payload = JObj [(''session_id'', JStr sid)]\<rparr>]
     @ (if summary \<noteq> [] then
          [\<lparr>ev_type = ''summary'', ev_payload = JObj [(''summary'', JStr summary)]\<rparr>] else [])
     @ map (\<lambda>m. \<lparr>ev_type = ''msg'', ev_payload = marshal_message m\<rparr>) ms"

fun load_events :: "jsonl_event list \<Rightarrow> string \<times> message list \<Rightarrow> err + string \<times> message list" where
  "load_events [] acc = Inr acc"
| "load_events (e # es) (summary, ms) =
     (if ev_type e = ''summary'' then
        (case bindr (dec_obj (ev_payload e)) (\<lambda>ob. dec_str (ob ''summary'')) of
           Inl err \<Rightarrow> Inl (ErrWrap ''load session: unmarshal summary'' err)
         | Inr s \<Rightarrow> load_events es (s, ms))
      else if ev_type e = ''msg'' then
        (case unmarshal_message (ev_payload e) of
           Inl err \<Rightarrow> Inl (ErrWrap ''load session: unmarshal message'' err)
         | Inr m \<Rightarrow> load_events es (summary, ms @ [m]))
      else load_events es (summary, ms))"

section \<open>Live sessions\<close>

record sm =
  sm_heap :: "nat \<Rightarrow> session"
  sm_next :: nat
  sm_map :: "(string \<times> nat) list"
  sm_files :: "(string \<times> jsonl_event list) list"

definition persist_session :: "nat \<Rightarrow> sm \<Rightarrow> sm" where
  "persist_session a st =
     (let s = sm_heap st a in
      st\<lparr>sm_files := AList.update (ss_id s) (session_events (ss_id s) (ss_summary s) (ss_history s)) (sm_files st)\<rparr>)"

definition load_session_jsonl :: "string \<Rightarrow> sm \<Rightarrow> err + string \<times> message list" where
  "load_session_jsonl sid st =
     (case map_of (sm_files st) sid of None \<Rightarrow> Inr ([], []) | Some es \<Rightarrow> load_events es ([], []))"

definition alloc_session :: "session \<Rightarrow> sm \<Rightarrow> sm \<times> nat" where
  "alloc_session s st = (st\<lparr>sm_heap := (sm_heap st)(sm_next st := s), sm_next := Suc (sm_next st)\<rparr>, sm_next st)"

definition load_session_memory :: "string \<Rightarrow> sm \<Rightarrow> sm \<times> (err + nat option)" where
  "load_session_memory sid st =
     (case load_session_jsonl sid st of
        Inl e \<Rightarrow> (st, Inl e)
      | Inr (summary, ms) \<Rightarrow>
          if summary = [] \<and> ms = [] then (st, Inr None)
          else (let (st1, a) = alloc_session \<lparr>ss_id = sid, ss_history = ms, ss_summary = summary\<rparr> st
                in (st1, Inr (Some a))))"

text \<open>\<open>GetSessionMemory\<close>: the map lookup, the load and the store are three steps without a lock.\<close>

definition store_session :: "string \<Rightarrow> nat \<Rightarrow> sm \<Rightarrow> sm" where
  "store_session sid a st = st\<lparr>sm_map := AList.update sid a (sm_map st)\<rparr>"

definition get_session_memory :: "string \<Rightarrow> sm \<Rightarrow> sm \<times> nat option" where
  "get_session_memory sid st =
     (case map_of (sm_map st) sid of
        Some a \<Rightarrow> (st, Some a)
      | None \<Rightarrow>
          (case load_session_memory sid st of
             (st1, Inr (Some a)) \<Rightarrow> (store_session sid a st1, Some a)
           | (st1, _) \<Rightarrow> (st1, None)))"

text \<open>\<open>LoadOrStore\<close> is atomic.\<close>

definition load_or_store :: "string \<Rightarrow> nat \<Rightarrow> sm \<Rightarrow> sm \<times> nat" where
  "load_or_store sid a st =
     (case map_of (sm_map st) sid of Some b \<Rightarrow> (st, b) | None \<Rightarrow> (store_session sid a st, a))"

definition create_session_memory :: "string \<Rightarrow> sm \<Rightarrow> sm \<times> nat" where
  "create_session_memory sid st =
     (case get_session_memory sid st of
        (st1, Some a) \<Rightarrow> (st1, a)
      | (st1, None) \<Rightarrow>
          (let (st2, a) = alloc_session (new_session sid) st1 in load_or_store sid a st2))"

section \<open>Round trip of the session file\<close>

lemma load_msgs:
  "load_events (map (\<lambda>m. \<lparr>ev_type = ''msg'', ev_payload = marshal_message m\<rparr>) ms) (summary, acc)
     = Inr (summary, acc @ map norm_message ms)"
  by (induction ms arbitrary: acc) (simp_all add: unmarshal_marshal_message)

lemma load_session_events:
  "load_events (session_events sid summary ms) ([], []) = Inr (summary, map norm_message ms)"
  by (simp add: session_events_def load_msgs)


definition demo_sm :: sm where
  "demo_sm = \<lparr>sm_heap = (\<lambda>_. \<lparr>ss_id = ''s'', ss_history = [], ss_summary = ''sum''\<rparr>), sm_next = 1,
     sm_map = [], sm_files = []\<rparr>"



definition msg :: "string \<Rightarrow> message" where
  "msg i = new_user_message i (TextContent i)"


text \<open>Two compressions that overlap do lose messages: both take their snapshot, a message arrives, the
  first one finishes and then the second one, and the message is gone.\<close>

theorem overlapping_compressions_lose_message:
  "\<exists>s sn. compress_snapshot 1 1 s = Some sn \<and>
     (let s1 = append_message (msg ''new'') s;
          s2 = compress_update sn ''first'' s1;
          s3 = compress_update sn ''second'' s2
      in msg ''new'' \<in> set (ss_history s2) \<and> msg ''new'' \<notin> set (ss_history s3))"
  by (rule exI [of _ "\<lparr>ss_id = ''s'', ss_history = [msg ''a'', msg ''b'', msg ''c''], ss_summary = []\<rparr>"])
    (simp add: compress_snapshot_def compress_update_def append_message_def msg_def new_user_message_def
      new_message_def Let_def)

text \<open>Compression cuts the history by count alone: it can keep the results of a tool call and
  summarise away the assistant message that made the call.\<close>

theorem compression_orphans_tool_results:
  "\<exists>s sn call res. ss_history s = [msg ''q'', call, res] \<and>
     m_content call = ToolCallContent [\<lparr>tcd_id = ''c1'', tcd_name = ''t'', tcd_args = []\<rparr>] \<and>
     m_content res = ToolResultContent [\<lparr>tcr_id = ''c1'', tcr_name = ''t'', tcr_outputs = []\<rparr>] \<and>
     compress_snapshot 1 1 s = Some sn \<and> ss_history (compress_update sn ''sum'' s) = [res]"
proof -
  let ?call = "new_assistant_message ''m1'' (ToolCallContent [\<lparr>tcd_id = ''c1'', tcd_name = ''t'', tcd_args = []\<rparr>])"
  let ?res = "new_tool_message ''m2'' [\<lparr>tcr_id = ''c1'', tcr_name = ''t'', tcr_outputs = []\<rparr>]"
  let ?s = "\<lparr>ss_id = ''s'', ss_history = [msg ''q'', ?call, ?res], ss_summary = []\<rparr>"
  obtain sn where sn: "compress_snapshot 1 1 ?s = Some sn" by (simp add: compress_snapshot_def)
  then have "ss_history (compress_update sn ''sum'' ?s) = [?res]"
    by (auto simp: compress_snapshot_def compress_update_def)
  with sn show ?thesis
    by (intro exI [of _ ?s] exI [of _ sn] exI [of _ ?call] exI [of _ ?res])
      (simp add: new_assistant_message_def new_tool_message_def new_message_def)
qed

text \<open>Concurrent readers of a session on disk do not converge on one instance: when both miss the map
  and load, each keeps an instance of its own and the map holds the last, so later lookups do not
  see what is appended through the other.\<close>

theorem readers_get_two_instances:
  "\<exists>st st1 st2 a b. map_of (sm_map st) ''s'' = None \<and>
     load_session_memory ''s'' st = (st1, Inr (Some a)) \<and>
     load_session_memory ''s'' st1 = (st2, Inr (Some b)) \<and> a \<noteq> b \<and>
     snd (get_session_memory ''s'' (store_session ''s'' b (store_session ''s'' a st2))) = Some b"
proof -
  let ?st = "persist_session 0 demo_sm"
  let ?v = "\<lparr>ss_id = ''s'', ss_history = [], ss_summary = ''sum''\<rparr>"
  let ?st1 = "fst (alloc_session ?v ?st)" and ?st2 = "fst (alloc_session ?v (fst (alloc_session
      \<lparr>ss_id = ''s'', ss_history = [], ss_summary = ''sum''\<rparr> (persist_session 0 demo_sm))))"
  have f: "load_events (session_events ''s'' ''sum'' []) ([], []) = Inr (''sum'', [])"
    using load_session_events [of "''s''" "''sum''" "[]"] by simp
  have "load_session_memory ''s'' ?st = (?st1, Inr (Some 1))"
    and "load_session_memory ''s'' ?st1 = (?st2, Inr (Some 2))"
    by (simp_all add: load_session_memory_def load_session_jsonl_def persist_session_def demo_sm_def
        alloc_session_def f Let_def)
  then show ?thesis
    by (intro exI [of _ ?st] exI [of _ ?st1] exI [of _ ?st2] exI [of _ 1] exI [of _ 2])
      (simp add: persist_session_def demo_sm_def store_session_def get_session_memory_def Let_def)
qed

end
