(* ===== verification/PlanTools.thy ===== *)
theory PlanTools
  imports Working Registry Json
begin

text \<open>
  The plan and task tools of the planner agent (tools/internals/plan.go): every \<open>Execute\<close> method as a
  state-passing function of working memory, error branches included.  The id that
  \<open>utils.GeneratePlanID\<close> or \<open>utils.GenerateTaskID\<close> makes is an argument.  Each method holds the plan's
  lock around its mutation, so the mutation is one step.
\<close>

section \<open>The shape of an Execute method\<close>

text \<open>\<open>if err != nil { return tools.ErrorResult(...) }\<close>\<close>

definition try_arg :: "tool_call_detail \<Rightarrow> string \<Rightarrow> wm \<Rightarrow> err + 'a \<Rightarrow>
    ('a \<Rightarrow> wm \<times> tool_call_result) \<Rightarrow> wm \<times> tool_call_result" where
  "try_arg d tool s r k = (case r of Inl e \<Rightarrow> (s, error_result (tcd_id d) tool e) | Inr v \<Rightarrow> k v)"

definition check_arg :: "tool_call_detail \<Rightarrow> string \<Rightarrow> wm \<Rightarrow> err option \<Rightarrow>
    wm \<times> tool_call_result \<Rightarrow> wm \<times> tool_call_result" where
  "check_arg d tool s e k = (case e of Some e \<Rightarrow> (s, error_result (tcd_id d) tool e) | None \<Rightarrow> k)"

text \<open>Every method ends with \<open>PutPlan\<close> and reports its error, or succeeds with an output map.\<close>

definition put_and_report :: "tool_call_detail \<Rightarrow> string \<Rightarrow> paddr \<Rightarrow> (wm \<Rightarrow> (string \<times> val) list) \<Rightarrow>
    wm \<Rightarrow> wm \<times> tool_call_result" where
  "put_and_report d tool a out s =
     (case put_plan (Some a) s of
        (s', Some e) \<Rightarrow> (s', error_result (tcd_id d) tool e)
      | (s', None) \<Rightarrow> (s', success_result (tcd_id d) tool (out s')))"

definition lookup_plan :: "wm \<Rightarrow> string \<Rightarrow> err + paddr" where
  "lookup_plan s pid = of_opt (ErrOther (''plan not found: '' @ pid)) (get_plan s pid)"

definition lookup_task :: "wm \<Rightarrow> string \<Rightarrow> err + task_ptr" where
  "lookup_task s tid = of_opt (ErrOther (''task not found: '' @ tid)) (find_task s tid)"

section \<open>The tools\<close>

definition plan_create :: "string \<Rightarrow> string \<Rightarrow> tool_call_detail \<Rightarrow> wm \<Rightarrow> wm \<times> tool_call_result" where
  "plan_create new_id sid d s =
     try_arg d ''plan_create'' s (arg d ''name'') (\<lambda>name.
       let (s1, a) = new_plan \<lparr>p_id = new_id, p_session = sid, p_name = name, p_tasks = [],
                       p_active = [], p_state = PSInit, p_reason = [], p_version = 0\<rparr> s
       in put_and_report d ''plan_create'' a (\<lambda>s'. plan_to_map (wm_heap s' a)) s1)"

definition plan_query :: "string \<Rightarrow> tool_call_detail \<Rightarrow> wm \<Rightarrow> wm \<times> tool_call_result" where
  "plan_query sid d s =
     (let pid = optional_string d ''plan_id'' in
      if pid \<noteq> [] then
        try_arg d ''plan_query'' s (lookup_plan s pid) (\<lambda>a.
          (s, success_result (tcd_id d) ''plan_query'' (plan_to_map (wm_heap s a))))
      else
        (s, success_result (tcd_id d) ''plan_query''
          [(''plans'', norm_val (plans_to_maps s (list_plans s))),
           (''count'', VInt (int (length (list_plans s))))]))"

definition confirm_plan :: "string \<Rightarrow> tool_call_detail \<Rightarrow> wm \<Rightarrow> wm \<times> tool_call_result" where
  "confirm_plan sid d s =
     try_arg d ''confirm_plan'' s (required_string d ''plan_id'') (\<lambda>pid.
     try_arg d ''confirm_plan'' s (required_string d ''status'') (\<lambda>st.
     check_arg d ''confirm_plan'' s (one_of st [''doing'', ''rejected'', ''update''])
     (let reason = optional_string d ''reason'' in
      try_arg d ''confirm_plan'' s (lookup_plan s pid) (\<lambda>a.
        put_and_report d ''confirm_plan'' a
          (\<lambda>s'. [(''id'', VStr (p_id (wm_heap s' a))),
                 (''status'', VStr (plan_state_str (p_state (wm_heap s' a))))])
          (upd_plan a (\<lambda>p. p\<lparr>p_state := (case plan_state_of_str st of Some x \<Rightarrow> x | None \<Rightarrow> p_state p),
                              p_reason := (if reason \<noteq> [] then reason else p_reason p)\<rparr>) s)))))"

definition task_insert :: "string \<Rightarrow> string \<Rightarrow> tool_call_detail \<Rightarrow> wm \<Rightarrow> wm \<times> tool_call_result" where
  "task_insert new_id sid d s =
     try_arg d ''task_insert'' s (required_string d ''plan_id'') (\<lambda>pid.
     try_arg d ''task_insert'' s (required_string d ''goal'') (\<lambda>goal.
     (let action = optional_string d ''action'';
          parent = optional_string d ''parent_task_id''
      in try_arg d ''task_insert'' s (lookup_plan s pid) (\<lambda>a.
        let t = \<lparr>t_id = new_id, t_parent = parent, t_goal = goal, t_status = TaskStatusPending,
                 t_reason = [], t_action = action, t_usage = None\<rparr>
        in put_and_report d ''task_insert'' a
             (\<lambda>_. [(''task_id'', VStr (t_id t)), (''goal'', VStr (t_goal t))])
             (upd_plan a (\<lambda>p. p\<lparr>p_tasks := p_tasks p @ [t]\<rparr>) s)))))"

definition task_delete :: "string \<Rightarrow> tool_call_detail \<Rightarrow> wm \<Rightarrow> wm \<times> tool_call_result" where
  "task_delete sid d s =
     try_arg d ''task_delete'' s (required_string d ''task_id'') (\<lambda>tid.
     try_arg d ''task_delete'' s (lookup_task s tid) (\<lambda>(a, _).
     try_arg d ''task_delete'' s
       (of_opt (ErrOther ''task not found in plan'') (find_task_idx (wm_heap s a) tid)) (\<lambda>idx.
       put_and_report d ''task_delete'' a (\<lambda>_. [(''deleted'', VBool True)])
         (upd_plan a (\<lambda>p. p\<lparr>p_tasks := delete_nth idx (p_tasks p),
                             p_active := remove_from_slice (p_active p) tid\<rparr>) s))))"

definition task_query :: "string \<Rightarrow> tool_call_detail \<Rightarrow> wm \<Rightarrow> wm \<times> tool_call_result" where
  "task_query sid d s =
     (let tid = optional_string d ''task_id''; pid = optional_string d ''plan_id'' in
      if tid \<noteq> [] then
        try_arg d ''task_query'' s (lookup_task s tid) (\<lambda>q.
          (s, success_result (tcd_id d) ''task_query'' (task_to_map (get_task q s))))
      else if pid \<noteq> [] then
        try_arg d ''task_query'' s (lookup_plan s pid) (\<lambda>a.
          (s, success_result (tcd_id d) ''task_query''
            [(''tasks'', VList (map (\<lambda>t. VMap (task_to_map t)) (p_tasks (wm_heap s a)))),
             (''count'', VInt (int (length (p_tasks (wm_heap s a)))))]))
      else (s, error_result (tcd_id d) ''task_query'' (ErrOther ''task_id or plan_id required'')))"

definition task_status_update :: "string \<Rightarrow> tool_call_detail \<Rightarrow> wm \<Rightarrow> wm \<times> tool_call_result" where
  "task_status_update sid d s =
     try_arg d ''task_status_update'' s (required_string d ''task_id'') (\<lambda>tid.
     try_arg d ''task_status_update'' s (required_string d ''status'') (\<lambda>st.
     check_arg d ''task_status_update'' s (one_of st [''pending'', ''doing'', ''done'', ''failed''])
     (let reason = optional_string d ''reason'' in
      try_arg d ''task_status_update'' s (lookup_task s tid) (\<lambda>q.
        put_and_report d ''task_status_update'' (fst q)
          (\<lambda>s'. [(''id'', VStr (t_id (get_task q s'))),
                 (''status'', VStr (task_status_str (t_status (get_task q s'))))])
          (upd_task q (\<lambda>t. t\<lparr>t_status := (case task_status_of_str st of Some x \<Rightarrow> x | None \<Rightarrow> t_status t),
                              t_reason := (if reason \<noteq> [] then reason else t_reason t)\<rparr>) s)))))"

definition plan_rollback :: "string \<Rightarrow> tool_call_detail \<Rightarrow> wm \<Rightarrow> wm \<times> tool_call_result" where
  "plan_rollback sid d s =
     try_arg d ''plan_rollback'' s (arg d ''plan_id'') (\<lambda>pid.
     try_arg d ''plan_rollback'' s (lookup_plan s pid) (\<lambda>a.
     (let from = p_version (wm_heap s a) in
      try_arg d ''plan_rollback'' s (optional_int d ''version'' (from - 1)) (\<lambda>target.
        if target < 1 \<or> target \<ge> from then
          (s, error_result (tcd_id d) ''plan_rollback''
                (ErrOther (''version must be between 1 and '' @ int_dec (from - 1))))
        else
          try_arg d ''plan_rollback'' s (load_checkpoint_json pid target s) (\<lambda>cp.
            let q = cp_plan cp in
            put_and_report d ''plan_rollback'' a
              (\<lambda>s'. [(''plan_id'', VStr pid), (''from_version'', VInt from),
                     (''to_version'', VInt (p_version (wm_heap s' a)))])
              (upd_plan a (\<lambda>p. p\<lparr>p_name := p_name q, p_tasks := p_tasks q, p_active := p_active q,
                                  p_state := p_state q, p_reason := p_reason q\<rparr>) s))))))"

section \<open>Every tool is a run of working memory\<close>

abbreviation wm_steps :: "wm \<Rightarrow> wm \<Rightarrow> bool" where
  "wm_steps \<equiv> wm_step\<^sup>*\<^sup>*"

lemma try_arg_fst: "fst (try_arg d tool s r k) = (case r of Inl e \<Rightarrow> s | Inr v \<Rightarrow> fst (k v))"
  by (cases r) (simp_all add: try_arg_def)

lemma try_arg_simps [simp]:
  "try_arg d tool s (Inl e) k = (s, error_result (tcd_id d) tool e)"
  "try_arg d tool s (Inr v) k = k v"
  "check_arg d tool s (Some e) kk = (s, error_result (tcd_id d) tool e)"
  "check_arg d tool s None kk = kk"
  by (simp_all add: try_arg_def check_arg_def)

lemma try_arg_steps:
  "(\<And>v. r = Inr v \<Longrightarrow> wm_steps s (fst (k v))) \<Longrightarrow> wm_steps s (fst (try_arg d tool s r k))"
  by (cases r) simp_all

lemma check_arg_steps:
  "(c = None \<Longrightarrow> wm_steps s (fst k)) \<Longrightarrow> wm_steps s (fst (check_arg d tool s c k))"
  by (cases c) simp_all

lemma put_and_report_fst [simp]: "fst (put_and_report d tool a out s) = fst (put_plan (Some a) s)"
  by (simp add: put_and_report_def split: prod.splits option.splits)

lemma lookup_plan_Inr: "lookup_plan s pid = Inr a \<longleftrightarrow> get_plan s pid = Some a"
  by (cases "get_plan s pid") (simp_all add: lookup_plan_def)

lemma lookup_task_Inr: "lookup_task s tid = Inr q \<longleftrightarrow> find_task s tid = Some q"
  by (cases "find_task s tid") (simp_all add: lookup_task_def)

lemma load_checkpoint_Inr: "load_checkpoint_json pid v s = Inr cp \<longleftrightarrow> get_cp s (pid, v) = Some cp"
  by (cases "get_cp s (pid, v)") (simp_all add: load_checkpoint_get)

text \<open>The plan that \<open>FindTask\<close> returns is stored under its own id.\<close>

lemma task_plan_stored:
  "wm_inv s \<Longrightarrow> lookup_task s tid = Inr (a, i) \<Longrightarrow> get_plan s (p_id (wm_heap s a)) = Some a"
  using find_task_Some [of s tid a i] wm_inv_store_iff [of s a] by (simp add: lookup_task_Inr)

lemma put_steps:
  assumes "get_plan s pid = Some a" "plan_ok pid (wm_heap s a) \<Longrightarrow> plan_ok pid (f (wm_heap s a))"
    "p_version (f (wm_heap s a)) = p_version (wm_heap s a)"
  shows "wm_steps s (fst (put_and_report d tool a out (upd_plan a f s)))"
  unfolding put_and_report_fst by (rule steps_change) (use assms in auto)

lemma plan_query_steps: "fst (plan_query sid d s) = s"
  by (simp add: plan_query_def Let_def try_arg_fst split: sum.split)

lemma task_query_steps: "fst (task_query sid d s) = s"
  by (simp add: task_query_def Let_def try_arg_fst split: sum.split)

lemma plan_create_steps:
  assumes "unused_id i s" shows "wm_steps s (fst (plan_create i sid d s))"
  unfolding plan_create_def
proof (rule try_arg_steps)
  fix name
  let ?p = "\<lparr>p_id = i, p_session = sid, p_name = name, p_tasks = [], p_active = [], p_state = PSInit,
      p_reason = [], p_version = 0\<rparr>"
  obtain s1 a where n: "new_plan ?p s = (s1, a)" by fastforce
  have "wm_step s (fst (save_checkpoint (Some a) [] s1))"
    by (rule wm_step.create [OF _ _ n]) (simp_all add: assms plan_ok_def)
  then show "wm_steps s (fst (let (s1, a) = new_plan ?p s in
      put_and_report d ''plan_create'' a (\<lambda>s'. plan_to_map (wm_heap s' a)) s1))"
    by (simp add: n put_plan_def put_plan_with_reason_def)
qed

lemma confirm_plan_steps: "wm_steps s (fst (confirm_plan sid d s))"
  unfolding confirm_plan_def Let_def
proof (intro try_arg_steps check_arg_steps)
  fix a pid st
  let ?r = "optional_string d ''reason''"
  assume a: "lookup_plan s pid = Inr a"
  show "wm_steps s (fst (put_and_report d ''confirm_plan'' a
      (\<lambda>s'. [(''id'', VStr (p_id (wm_heap s' a))),
             (''status'', VStr (plan_state_str (p_state (wm_heap s' a))))])
      (upd_plan a (\<lambda>p. p\<lparr>p_state := case plan_state_of_str st of None \<Rightarrow> p_state p | Some x \<Rightarrow> x,
                          p_reason := if ?r \<noteq> [] then ?r else p_reason p\<rparr>) s)))"
    by (rule put_steps [OF a [unfolded lookup_plan_Inr]]) (simp_all add: plan_ok_def)
qed

definition fresh_task :: "string \<Rightarrow> wm \<Rightarrow> bool" where
  "fresh_task i s \<longleftrightarrow> (\<forall>pid a. get_plan s pid = Some a \<longrightarrow> i \<notin> t_id ` set (p_tasks (wm_heap s a)))"

lemma task_insert_steps:
  assumes "fresh_task i s" shows "wm_steps s (fst (task_insert i sid d s))"
  unfolding task_insert_def Let_def
proof (intro try_arg_steps)
  fix a pid goal
  assume a: "lookup_plan s pid = Inr a"
  with assms have fresh: "i \<notin> t_id ` set (p_tasks (wm_heap s a))"
    by (auto simp: fresh_task_def lookup_plan_Inr)
  let ?t = "\<lparr>t_id = i, t_parent = optional_string d ''parent_task_id'', t_goal = goal,
        t_status = TaskStatusPending, t_reason = [], t_action = optional_string d ''action'',
        t_usage = None\<rparr>"
  show "wm_steps s (fst (put_and_report d ''task_insert'' a
      (\<lambda>_. [(''task_id'', VStr (t_id ?t)), (''goal'', VStr (t_goal ?t))])
      (upd_plan a (\<lambda>p. p\<lparr>p_tasks := p_tasks p @ [?t]\<rparr>) s)))"
    by (rule put_steps [OF a [unfolded lookup_plan_Inr]]) (use fresh in \<open>simp_all add: plan_ok_def\<close>)
qed

lemma distinct_delete_nth: "distinct xs \<Longrightarrow> distinct (delete_nth i xs)"
  unfolding delete_nth_def using set_take_disj_set_drop_if_distinct [of xs i "Suc i"] by simp

lemma map_delete_nth: "map f (delete_nth i xs) = delete_nth i (map f xs)"
  by (simp add: delete_nth_def take_map drop_map)

lemma task_delete_steps:
  assumes "wm_inv s" shows "wm_steps s (fst (task_delete sid d s))"
  unfolding task_delete_def
proof (intro try_arg_steps, clarify, intro try_arg_steps)
  fix a i idx tid
  assume a: "lookup_task s tid = Inr (a, i)"
  show "wm_steps s (fst (put_and_report d ''task_delete'' a (\<lambda>_. [(''deleted'', VBool True)])
      (upd_plan a (\<lambda>p. p\<lparr>p_tasks := delete_nth idx (p_tasks p),
        p_active := remove_from_slice (p_active p) tid\<rparr>) s)))"
    by (rule put_steps [OF task_plan_stored [OF assms a]])
      (simp_all add: plan_ok_def map_delete_nth distinct_delete_nth)
qed

lemma task_status_update_steps:
  assumes "wm_inv s" shows "wm_steps s (fst (task_status_update sid d s))"
  unfolding task_status_update_def Let_def
proof (intro try_arg_steps check_arg_steps)
  fix q tid st
  let ?r = "optional_string d ''reason''"
  assume "lookup_task s tid = Inr q"
  then have g: "get_plan s (p_id (wm_heap s (fst q))) = Some (fst q)"
    using task_plan_stored [OF assms, of tid "fst q" "snd q"] by simp
  show "wm_steps s (fst (put_and_report d ''task_status_update'' (fst q)
      (\<lambda>s'. [(''id'', VStr (t_id (get_task q s'))),
             (''status'', VStr (task_status_str (t_status (get_task q s'))))])
      (upd_task q (\<lambda>t. t
      \<lparr>t_status := case task_status_of_str st of None \<Rightarrow> t_status t | Some x \<Rightarrow> x,
       t_reason := if ?r \<noteq> [] then ?r else t_reason t\<rparr>) s)))"
    unfolding upd_task_def by (rule put_steps [OF g plan_ok_upd_task]) simp_all
qed

lemma plan_rollback_steps:
  assumes "wm_inv s" shows "wm_steps s (fst (plan_rollback sid d s))"
  unfolding plan_rollback_def Let_def
proof (intro try_arg_steps)
  fix a pid v
  assume a: "lookup_plan s pid = Inr a"
  let ?put = "\<lambda>cp. put_and_report d ''plan_rollback'' a
        (\<lambda>s'. [(''plan_id'', VStr pid), (''from_version'', VInt (p_version (wm_heap s a))),
               (''to_version'', VInt (p_version (wm_heap s' a)))])
        (upd_plan a (\<lambda>p. p\<lparr>p_name := p_name (cp_plan cp), p_tasks := p_tasks (cp_plan cp),
           p_active := p_active (cp_plan cp), p_state := p_state (cp_plan cp),
           p_reason := p_reason (cp_plan cp)\<rparr>) s)"
  let ?roll = "\<lambda>cp. try_arg d ''plan_rollback'' s cp ?put"
  have "wm_steps s (fst (?roll (load_checkpoint_json pid v s)))"
  proof (rule try_arg_steps)
    fix cp assume c: "load_checkpoint_json pid v s = Inr cp"
    then have "plan_ok pid (cp_plan cp)" using wm_inv_cp [OF assms] by (simp add: load_checkpoint_Inr)
    then show "wm_steps s (fst (?put cp))"
      by (intro put_steps [OF a [unfolded lookup_plan_Inr]]) (simp_all add: plan_ok_def)
  qed
  then show "wm_steps s (fst (if v < 1 \<or> p_version (wm_heap s a) \<le> v
      then (s, error_result (tcd_id d) ''plan_rollback''
             (ErrOther (''version must be between 1 and '' @ int_dec (p_version (wm_heap s a) - 1))))
      else ?roll (load_checkpoint_json pid v s)))"
    by simp
qed

section \<open>What the tools guarantee\<close>



text \<open>A rollback whose version is in range and whose checkpoint exists restores the checkpoint: the
  live plan gets its name, tasks, active ids, state and reason, keeps its id and session, and moves
  on to a new version that is itself checkpointed; the restored checkpoint stays on disk.\<close>

theorem plan_rollback_restores:
  assumes "wm_step\<^sup>*\<^sup>* empty_wm s" and a: "get_plan s pid = Some a"
    and args: "get_arg d ''plan_id'' = Some (VStr pid)"
      "get_arg d ''version'' = Some (VFloat (of_int v))"
    and range: "1 \<le> v" "v < p_version (wm_heap s a)" "v < 2 ^ 63"
    and cp: "load_checkpoint_json pid v s = Inr cp" and io: "wm_io s = []"
  shows "case plan_rollback sid d s of (s', r) \<Rightarrow>
     \<not> is_error r \<and>
     wm_heap s' a = (cp_plan cp)\<lparr>p_id := pid, p_session := p_session (wm_heap s a),
                                p_version := p_version (wm_heap s a) + 1\<rparr> \<and>
     load_checkpoint_json pid v s' = Inr cp \<and>
     (\<exists>cp'. load_checkpoint_json pid (p_version (wm_heap s a) + 1) s' = Inr cp' \<and>
            cp_plan cp' = wm_heap s' a)"
proof -
  have inv: "wm_inv s" using wm_sys.reachable_inv [OF refl assms(1)] by (simp add: wm_ok_def)
  have id: "p_id (wm_heap s a) = pid" using wm_inv_plan [OF inv a] by (simp add: plan_ok_def)
  let ?q = "cp_plan cp"
  define s0 where "s0 = upd_plan a (\<lambda>p. p\<lparr>p_name := p_name ?q, p_tasks := p_tasks ?q, p_active := p_active ?q,
      p_state := p_state ?q, p_reason := p_reason ?q\<rparr>) s"
  have key: "p_id (wm_heap s0 a) = pid" "p_version (wm_heap s0 a) = p_version (wm_heap s a)"
    by (simp_all add: s0_def id)
  have "optional_int d ''version'' (p_version (wm_heap s a) - 1) = Inr v"
    unfolding optional_int_def args(2) using range by (simp add: int_of_number_Inr)
  moreover obtain s' res where sv: "save_checkpoint (Some a) [] s0 = (s', res)" by fastforce
  moreover have "res = None" using sv io
    by (auto simp: save_checkpoint_cases next_io_def s0_def Let_def)
  ultimately have run: "plan_rollback sid d s = (s', success_result (tcd_id d) ''plan_rollback''
      [(''plan_id'', VStr pid), (''from_version'', VInt (p_version (wm_heap s a))),
       (''to_version'', VInt (p_version (wm_heap s' a)))])"
    using range a cp args(1)
    by (simp add: plan_rollback_def arg_def lookup_plan_def put_and_report_def put_plan_def
        put_plan_with_reason_def s0_def)
  have heap: "wm_heap s' a = ?q\<lparr>p_id := pid, p_session := p_session (wm_heap s a),
      p_version := p_version (wm_heap s a) + 1\<rparr>"
    by (simp add: save_checkpoint_memory [OF sv] s0_def id)
  note files = save_checkpoint_files [OF sv, unfolded key]
  have "get_cp s' (pid, v) = get_cp s0 (pid, v)" by (rule files(4)) (use range in simp)
  also have "\<dots> = Some cp" using cp by (simp add: s0_def load_checkpoint_Inr)
  finally have "load_checkpoint_json pid v s' = Inr cp" by (simp add: load_checkpoint_Inr)
  moreover have "\<exists>cp'. load_checkpoint_json pid (p_version (wm_heap s a) + 1) s' = Inr cp' \<and>
      cp_plan cp' = wm_heap s' a"
    using files(1) [OF \<open>res = None\<close>] by (simp add: load_checkpoint_Inr)
  ultimately show ?thesis by (simp add: run heap)
qed

text \<open>A session: a plan, one task, the task marked done.\<close>

definition demo_create :: tool_call_detail where
  "demo_create = \<lparr>tcd_id = ''c1'', tcd_name = ''plan_create'', tcd_args = [(''name'', VStr ''demo'')]\<rparr>"

definition demo_insert :: tool_call_detail where
  "demo_insert = \<lparr>tcd_id = ''c2'', tcd_name = ''task_insert'',
     tcd_args = [(''plan_id'', VStr ''p1''), (''goal'', VStr ''train'')]\<rparr>"

definition demo_update :: tool_call_detail where
  "demo_update = \<lparr>tcd_id = ''c3'', tcd_name = ''task_status_update'',
     tcd_args = [(''task_id'', VStr ''t1''), (''status'', VStr ''done'')]\<rparr>"

definition demo_rollback :: tool_call_detail where
  "demo_rollback = \<lparr>tcd_id = ''c4'', tcd_name = ''plan_rollback'',
     tcd_args = [(''plan_id'', VStr ''p1''), (''version'', VFloat (of_int 2))]\<rparr>"

definition demo_wm :: wm where
  "demo_wm = fst (task_status_update ''s1'' demo_update
     (fst (task_insert ''t1'' ''s1'' demo_insert (fst (plan_create ''p1'' ''s1'' demo_create empty_wm)))))"

lemma demo_wm_run: "wm_step\<^sup>*\<^sup>* empty_wm demo_wm"
proof -
  let ?s1 = "fst (plan_create ''p1'' ''s1'' demo_create empty_wm)"
  let ?s2 = "fst (task_insert ''t1'' ''s1'' demo_insert ?s1)"
  have r1: "wm_step\<^sup>*\<^sup>* empty_wm ?s1"
    by (rule plan_create_steps) (simp add: unused_id_def empty_wm_def get_plan_def get_cp_def)
  have "wm_store ?s1 = [(''p1'', 0)] \<and> p_tasks (wm_heap ?s1 0) = []" by code_simp
  then have "fresh_task ''t1'' ?s1" by (simp add: fresh_task_def get_plan_def)
  then have r2: "wm_step\<^sup>*\<^sup>* ?s1 ?s2" by (rule task_insert_steps)
  from rtranclp_trans [OF r1 r2] have r: "wm_step\<^sup>*\<^sup>* empty_wm ?s2" .
  then have "wm_inv ?s2" using wm_sys.reachable_inv [OF refl r] by (simp add: wm_ok_def)
  from rtranclp_trans [OF r task_status_update_steps [OF this]] show ?thesis by (simp add: demo_wm_def)
qed

theorem plan_rollback_restores_witness:
  "case plan_rollback ''s1'' demo_rollback demo_wm of (s', r) \<Rightarrow>
     \<not> is_error r \<and> map t_status (p_tasks (wm_heap s' 0)) = [TaskStatusPending] \<and>
     p_version (wm_heap s' 0) = 4"
proof -
  obtain cp where cp: "load_checkpoint_json ''p1'' 2 demo_wm = Inr cp"
    "map t_status (p_tasks (cp_plan cp)) = [TaskStatusPending]"
  proof -
    have "(case load_checkpoint_json ''p1'' 2 demo_wm of Inl _ \<Rightarrow> False
        | Inr cp \<Rightarrow> map t_status (p_tasks (cp_plan cp)) = [TaskStatusPending])" by code_simp
    then show thesis using that by (simp split: sum.splits)
  qed
  have 1: "get_plan demo_wm ''p1'' = Some 0" by code_simp
  have 2: "p_version (wm_heap demo_wm 0) = 3" by code_simp
  have 3: "wm_io demo_wm = []" by code_simp
  have 4: "get_arg demo_rollback ''plan_id'' = Some (VStr ''p1'')"
    "get_arg demo_rollback ''version'' = Some (VFloat (of_int 2))"
    by (simp_all add: demo_rollback_def)
  show ?thesis
    using plan_rollback_restores [OF demo_wm_run 1 4 _ _ _ cp(1) 3, of "''s1''"] cp(2)
    by (simp add: 2 split: prod.splits)
qed

text \<open>A rollback to a version outside \<open>[1, current - 1]\<close>, or with a version that is not an integer,
  is refused: an error result, and working memory is untouched.\<close>

theorem plan_rollback_refuses:
  assumes "get_plan s pid = Some a" and "get_arg d ''plan_id'' = Some (VStr pid)"
    and "get_arg d ''version'' = Some w"
    and "\<nexists>v. int_of_number ''version'' w = Inr v \<and> 1 \<le> v \<and> v < p_version (wm_heap s a)"
  shows "fst (plan_rollback sid d s) = s \<and> is_error (snd (plan_rollback sid d s))"
proof (cases "int_of_number ''version'' w")
  case (Inl e)
  with assms show ?thesis
    by (simp add: plan_rollback_def arg_def lookup_plan_def optional_int_def)
next
  case (Inr v)
  with assms(4) have "v < 1 \<or> p_version (wm_heap s a) \<le> v" by auto
  with Inr assms(1-3) show ?thesis
    by (simp add: plan_rollback_def arg_def lookup_plan_def optional_int_def)
qed

theorem plan_rollback_refuses_witness:
  "is_error (snd (plan_rollback ''s1'' \<lparr>tcd_id = ''c'', tcd_name = ''plan_rollback'',
     tcd_args = [(''plan_id'', VStr ''p1''), (''version'', VFloat (of_int 3))]\<rparr> demo_wm))"
proof -
  have 1: "get_plan demo_wm ''p1'' = Some 0" and 2: "p_version (wm_heap demo_wm 0) = 3"
    by code_simp+
  show ?thesis
    by (rule conjunct2 [OF plan_rollback_refuses [OF 1, of _ "VFloat (of_int 3)"]])
      (auto simp: 2 int_of_number_Inr simp del: of_int_numeral)
qed

end
