(* ===== verification/LlmCaller.thy ===== *)
theory LlmCaller
  imports Types
begin

text \<open>
  The single-shot LLM caller (llm/caller.go): decoding of a response in four modes, and the extraction
  of the first balanced JSON value from free text.  The provider is an argument: it answers with a
  message, or with an error and perhaps a partial message.  Tracing spans are not modelled.  A JSON
  target is the decoder \<open>json.Unmarshal\<close> runs on it, an argument as well.
\<close>

section \<open>Text of a response\<close>

fun part_text :: "content \<Rightarrow> string" where
  "part_text (TextContent t) = t"
| "part_text _ = []"

fun extract_text :: "content \<Rightarrow> string" where
  "extract_text (TextContent t) = t"
| "extract_text (CompositeContent ps) = concat (map part_text ps)"
| "extract_text _ = []"

text \<open>\<open>strings.ToUpper\<close> as far as it can produce the letters of \<open>YES\<close>: ASCII letters, and U+017F whose
  upper case is \<open>S\<close>.\<close>

definition upper_char :: "char \<Rightarrow> char" where
  "upper_char c = (let n = of_char c :: nat in if 97 \<le> n \<and> n \<le> 122 then char_of (n - 32) else c)"

fun to_upper :: "string \<Rightarrow> string" where
  "to_upper [] = []"
| "to_upper [c] = [upper_char c]"
| "to_upper (c # d # s) =
     (if c = CHR 0xC5 \<and> d = CHR 0xBF then CHR ''S'' # to_upper s
      else upper_char c # to_upper (d # s))"

definition is_yes :: "string \<Rightarrow> bool" where
  "is_yes t = go_contains (to_upper (go_trim_space t)) ''YES''"

section \<open>Balanced delimiters\<close>

definition backslash :: char where "backslash = CHR 0x5C"
definition dquote :: char where "dquote = CHR 0x22"

text \<open>The scan of \<open>matchDelim\<close> from index \<open>i\<close> over the rest of the text.\<close>

fun match_go :: "char \<Rightarrow> char \<Rightarrow> int \<Rightarrow> bool \<Rightarrow> nat \<Rightarrow> string \<Rightarrow> nat option" where
  "match_go op cl depth in_str i [] = None"
| "match_go op cl depth in_str i (c # cs) =
     (if in_str then
        (if c = backslash then
           (case cs of [] \<Rightarrow> None | _ # cs' \<Rightarrow> match_go op cl depth True (i + 2) cs')
         else match_go op cl depth (c \<noteq> dquote) (i + 1) cs)
      else if c = dquote then match_go op cl depth True (i + 1) cs
      else if c = op then match_go op cl (depth + 1) False (i + 1) cs
      else if c = cl then
        (if depth - 1 = 0 then Some i else match_go op cl (depth - 1) False (i + 1) cs)
      else match_go op cl depth False (i + 1) cs)"

definition match_delim :: "string \<Rightarrow> char \<Rightarrow> char \<Rightarrow> nat option" where
  "match_delim s op cl = match_go op cl 0 False 0 s"

text \<open>The loop of \<open>extractJSON\<close>; its argument is the text from index \<open>i\<close> on.\<close>

fun extract_json :: "string \<Rightarrow> err + string" where
  "extract_json [] = Inl (ErrOther ''llm: no JSON object or array found in response'')"
| "extract_json (c # cs) =
     (if c = CHR ''{'' \<or> c = CHR ''['' then
        (case match_delim (c # cs) c (if c = CHR ''{'' then CHR ''}'' else CHR '']'') of
           Some e \<Rightarrow> Inr (take (e + 1) (c # cs))
         | None \<Rightarrow> extract_json cs)
      else extract_json cs)"

section \<open>Tool calls\<close>

fun part_calls :: "content \<Rightarrow> tool_call_detail list" where
  "part_calls (ToolCallContent ds) = ds"
| "part_calls _ = []"

fun tool_calls :: "content \<Rightarrow> tool_call_detail list" where
  "tool_calls (ToolCallContent ds) = ds"
| "tool_calls (CompositeContent ps) = concat (map part_calls ps)"
| "tool_calls _ = []"

definition tool_args :: "content \<Rightarrow> string \<Rightarrow> err + (string \<times> val) list" where
  "tool_args c name =
     (case List.find (\<lambda>d. tcd_name d = name) (tool_calls c) of
        Some d \<Rightarrow> Inr (tcd_args d)
      | None \<Rightarrow> Inl (ErrDetail ErrNoToolCall (go_quote name)))"

section \<open>Call\<close>

datatype mode = ModeText | ModeBool | ModeJSON | ModeToolCall

record 't request =
  rq_prompt :: string
  rq_messages :: "message list option"
  rq_mode :: mode
  rq_target :: "(string \<Rightarrow> err + 't) option"
  rq_tool :: "tool_definition option"

record 't llm_result =
  lr_text :: string
  lr_bool :: bool
  lr_args :: "(string \<times> val) list"
  lr_target :: "'t option"
  lr_usage :: "usage option"

text \<open>What \<open>Generate\<close> returns: a message, or an error with the message of a partial response.\<close>

datatype gen_result = GenOk message | GenErr err "message option"

type_synonym 's provider = "message list \<Rightarrow> tool_definition list \<Rightarrow> 's \<Rightarrow> 's \<times> gen_result"

definition empty_result :: "usage option \<Rightarrow> 't llm_result" where
  "empty_result u = \<lparr>lr_text = [], lr_bool = False, lr_args = [], lr_target = None, lr_usage = u\<rparr>"

text \<open>The switch on the mode, on a response without an error.\<close>

definition decode_response :: "'t request \<Rightarrow> message \<Rightarrow> 't llm_result \<times> err option" where
  "decode_response req resp =
     (let res = empty_result (m_usage resp) in
      case rq_mode req of
        ModeText \<Rightarrow> (res\<lparr>lr_text := extract_text (m_content resp)\<rparr>, None)
      | ModeBool \<Rightarrow> (res\<lparr>lr_bool := is_yes (extract_text (m_content resp))\<rparr>, None)
      | ModeJSON \<Rightarrow>
          (case rq_target req of
             None \<Rightarrow> (res, Some (ErrOther ''llm: ModeJSON requires a non-nil Target''))
           | Some unmarshal \<Rightarrow>
               (case extract_json (extract_text (m_content resp)) of
                  Inl e \<Rightarrow> (res, Some e)
                | Inr raw \<Rightarrow>
                    (case unmarshal raw of
                       Inl e \<Rightarrow> (res, Some (ErrWrap ''llm: json decode'' e))
                     | Inr t \<Rightarrow> (res\<lparr>lr_target := Some t\<rparr>, None))))
      | ModeToolCall \<Rightarrow>
          (let name = (case rq_tool req of None \<Rightarrow> [] | Some t \<Rightarrow> td_name t) in
           case tool_args (m_content resp) name of
             Inl e \<Rightarrow> (res, Some e)
           | Inr args \<Rightarrow> (res\<lparr>lr_args := args\<rparr>, None)))"

definition request_messages :: "string \<Rightarrow> 't request \<Rightarrow> message list" where
  "request_messages mid req =
     (case rq_messages req of
        None \<Rightarrow> [new_user_message mid (TextContent (rq_prompt req))]
      | Some ms \<Rightarrow> ms)"

definition request_tools :: "'t request \<Rightarrow> tool_definition list" where
  "request_tools req =
     (case (rq_mode req, rq_tool req) of (ModeToolCall, Some t) \<Rightarrow> [t] | _ \<Rightarrow> [])"

definition call :: "'s provider \<Rightarrow> string \<Rightarrow> 't request \<Rightarrow> 's \<Rightarrow> 's \<times> 't llm_result \<times> err option" where
  "call generate mid req s =
     (case generate (request_messages mid req) (request_tools req) s of
        (s', GenErr e partial) \<Rightarrow>
          (s', empty_result (case partial of None \<Rightarrow> None | Some m \<Rightarrow> m_usage m), Some e)
      | (s', GenOk resp) \<Rightarrow> (s', decode_response req resp))"

section \<open>JSON text\<close>

text \<open>
  The texts \<open>matchDelim\<close> has to get through: JSON values by the grammar of RFC 8259, with strings whose
  quotes and backslashes are escaped, and anything without quotes and brackets between the tokens
  (numbers, literals, white space, commas, colons).
\<close>

inductive str_body :: "string \<Rightarrow> bool" where
  "str_body []"
| "c \<noteq> dquote \<Longrightarrow> c \<noteq> backslash \<Longrightarrow> str_body s \<Longrightarrow> str_body (c # s)"
| "str_body s \<Longrightarrow> str_body (backslash # c # s)"

definition plain_char :: "char \<Rightarrow> bool" where
  "plain_char c \<longleftrightarrow> c \<noteq> dquote \<and> c \<notin> set ''{}[]''"

inductive json_items :: "string \<Rightarrow> bool" where
  items_Nil: "json_items []"
| items_plain: "plain_char c \<Longrightarrow> json_items s \<Longrightarrow> json_items (c # s)"
| items_str: "str_body t \<Longrightarrow> json_items s \<Longrightarrow> json_items (dquote # t @ dquote # s)"
| items_obj: "json_items t \<Longrightarrow> json_items s \<Longrightarrow> json_items (CHR ''{'' # t @ CHR ''}'' # s)"
| items_arr: "json_items t \<Longrightarrow> json_items s \<Longrightarrow> json_items (CHR ''['' # t @ CHR '']'' # s)"

definition json_object_text :: "string \<Rightarrow> bool" where
  "json_object_text t \<longleftrightarrow> (\<exists>b. json_items b \<and> (t = CHR ''{'' # b @ ''}'' \<or> t = CHR ''['' # b @ '']''))"

lemma delims [simp]:
  "dquote \<noteq> CHR ''{''" "dquote \<noteq> CHR ''}''" "dquote \<noteq> CHR ''[''" "dquote \<noteq> CHR '']''"
  "CHR ''{'' \<noteq> dquote" "CHR ''}'' \<noteq> dquote" "CHR ''['' \<noteq> dquote" "CHR '']'' \<noteq> dquote"
  "dquote \<noteq> backslash" "backslash \<noteq> dquote"
  by (simp_all add: dquote_def backslash_def)

lemma match_str: "str_body t \<Longrightarrow>
   match_go op cl d True i (t @ dquote # s) = match_go op cl d False (i + length t + 1) s"
proof (induction t arbitrary: i rule: str_body.induct)
  case (3 s c)
  then show ?case by (simp add: algebra_simps)
qed auto

abbreviation pair_of :: "char \<Rightarrow> char \<Rightarrow> bool" where
  "pair_of op cl \<equiv> (op, cl) \<in> {(CHR ''{'', CHR ''}''), (CHR ''['', CHR '']'')}"

text \<open>Items at a positive depth are scanned to their end and leave the depth as it was.\<close>

lemma match_items:
  "json_items t \<Longrightarrow> pair_of op cl \<Longrightarrow> d > 0 \<Longrightarrow>
   match_go op cl d False i (t @ s) = match_go op cl d False (i + length t) s"
proof (induction t arbitrary: i d s rule: json_items.induct)
  case (items_plain c t)
  then show ?case by (auto simp: plain_char_def)
next
  case (items_str t u)
  then show ?case by (auto simp: match_str algebra_simps)
next
  case (items_obj t u)
  have a: "match_go op cl e False j (t @ CHR ''}'' # u @ s) = match_go op cl e False (j + length t) (CHR ''}'' # u @ s)"
    if "e > 0" for e j
    using items_obj.IH(1) [OF items_obj.prems(1) that] .
  show ?case
    using items_obj.prems a [of d "i + 1"] a [of "d + 1" "i + 1"] items_obj.IH(2) [OF items_obj.prems]
    by (auto simp: algebra_simps)
next
  case (items_arr t u)
  have a: "match_go op cl e False j (t @ CHR '']'' # u @ s) = match_go op cl e False (j + length t) (CHR '']'' # u @ s)"
    if "e > 0" for e j
    using items_arr.IH(1) [OF items_arr.prems(1) that] .
  show ?case
    using items_arr.prems a [of d "i + 1"] a [of "d + 1" "i + 1"] items_arr.IH(2) [OF items_arr.prems]
    by (auto simp: algebra_simps)
qed simp

lemma match_value:
  assumes "json_items b" "pair_of op cl"
  shows "match_delim (op # b @ cl # s) op cl = Some (length b + 1)"
  using assms match_items [OF assms, of 1 1 "cl # s"]
  by (auto simp: match_delim_def)

lemma extract_json_skip:
  "(\<And>c. c \<in> set pre \<Longrightarrow> c \<noteq> CHR ''{'' \<and> c \<noteq> CHR ''['') \<Longrightarrow> extract_json (pre @ s) = extract_json s"
  by (induction pre) auto


text \<open>An object whose string holds a brace and a backslash-escaped letter.\<close>

definition demo_json :: string where
  "demo_json = CHR ''{'' # (dquote # ''a}'' @ [backslash, CHR ''b''] @ dquote # '':1'') @ ''}''"

lemma demo_json_text: "json_object_text demo_json"
proof -
  have "str_body (''a}'' @ [backslash, CHR ''b''])"
    by (simp, intro str_body.intros) (simp_all add: dquote_def backslash_def)
  moreover have "json_items '':1''" by (intro json_items.intros) (simp_all add: plain_char_def dquote_def)
  ultimately have "json_items (dquote # (''a}'' @ [backslash, CHR ''b'']) @ dquote # '':1'')"
    by (rule json_items.items_str)
  then show ?thesis
    unfolding json_object_text_def demo_json_def
    by (intro exI [of _ "dquote # ''a}'' @ [backslash, CHR ''b''] @ dquote # '':1''"]) simp
qed


text \<open>A tool-call request yields the arguments of the first call with the requested name; without one
  the error is recognised by \<open>errors.Is(err, ErrNoToolCall)\<close>, and the usage of the response survives
  in every mode, on success and on error.\<close>

theorem call_decodes:
  assumes "generate (request_messages mid req) (request_tools req) s = (s', GenOk resp)"
  shows "lr_usage (fst (snd (call generate mid req s))) = m_usage resp \<and>
    (rq_mode req = ModeToolCall \<and> rq_tool req = Some t \<longrightarrow>
      (case List.find (\<lambda>d. tcd_name d = td_name t) (tool_calls (m_content resp)) of
         Some d \<Rightarrow> snd (snd (call generate mid req s)) = None \<and>
                   lr_args (fst (snd (call generate mid req s))) = tcd_args d
       | None \<Rightarrow> \<exists>e. snd (snd (call generate mid req s)) = Some e \<and> err_is e ErrNoToolCall))"
  using assms
  by (auto simp: call_def decode_response_def Let_def empty_result_def tool_args_def
      split: mode.splits option.splits sum.splits)

definition demo_tool :: tool_definition where
  "demo_tool = \<lparr>td_name = ''t'', td_description = [], td_schema = [], td_output_schema = [],
     td_terminating = False\<rparr>"

definition demo_request :: "unit request" where
  "demo_request = \<lparr>rq_prompt = ''p'', rq_messages = None, rq_mode = ModeToolCall, rq_target = None,
     rq_tool = Some demo_tool\<rparr>"

definition demo_answer :: message where
  "demo_answer = new_assistant_message ''m'' (CompositeContent [TextContent ''hm'',
     ToolCallContent [\<lparr>tcd_id = ''1'', tcd_name = ''u'', tcd_args = []\<rparr>,
                      \<lparr>tcd_id = ''2'', tcd_name = ''t'', tcd_args = [(''x'', VInt 1)]\<rparr>]])"

theorem call_decodes_witness:
  "lr_args (fst (snd (call (\<lambda>_ _ s. (s, GenOk demo_answer)) ''u'' demo_request ()))) = [(''x'', VInt 1)]"
proof -
  have "find (\<lambda>d. tcd_name d = td_name demo_tool) (tool_calls (m_content demo_answer))
      = Some \<lparr>tcd_id = ''2'', tcd_name = ''t'', tcd_args = [(''x'', VInt 1)]\<rparr>" by code_simp
  moreover have "rq_mode demo_request = ModeToolCall \<and> rq_tool demo_request = Some demo_tool"
    by (simp add: demo_request_def)
  ultimately show ?thesis
    using call_decodes [of "\<lambda>_ _ s. (s, GenOk demo_answer)" "''u''" demo_request "()" "()" demo_answer demo_tool]
    by simp
qed

text \<open>\<open>isYes\<close> looks for the letters anywhere: an answer that denies, or that merely contains a word
  such as \<open>yesterday\<close>, counts as affirmative.\<close>

theorem is_yes_accepts_denials:
  "is_yes ''yes'' \<and> is_yes ''NO (a YES would be wrong)'' \<and> is_yes ''No, that was yesterday.'' \<and>
   \<not> is_yes ''NO''"
  by code_simp

end
