(* ===== verification/Hooks.thy ===== *)
theory Hooks
  imports Types
begin

text \<open>
  Event hooks (core/agents.go, core/hooks.go).  A callback is an optional transformer of the program
  state \<open>'s\<close>; \<open>None\<close> is the nil function.  \<open>OnToolCallEnd\<close> gets a result whose outputs map it shares with
  the agent, and the framework's own callback writes to it, so the callback also yields the map as it leaves
  it.  A model event is the call of one method of the \<open>ModelEventHandler\<close> interface.
\<close>

record 's hooks =
  hk_thinking_chunk :: "(agent_identity \<Rightarrow> string \<Rightarrow> 's \<Rightarrow> 's) option"
  hk_reply_chunk :: "(agent_identity \<Rightarrow> string \<Rightarrow> 's \<Rightarrow> 's) option"
  hk_block_thinking :: "(agent_identity \<Rightarrow> string \<Rightarrow> 's \<Rightarrow> 's) option"
  hk_block_reply :: "(agent_identity \<Rightarrow> string \<Rightarrow> 's \<Rightarrow> 's) option"
  hk_function_call :: "(agent_identity \<Rightarrow> tool_call_detail \<Rightarrow> 's \<Rightarrow> 's) option"
  hk_model_finished :: "(agent_identity \<Rightarrow> string \<Rightarrow> 's \<Rightarrow> 's) option"
  hk_error :: "(agent_identity \<Rightarrow> err \<Rightarrow> 's \<Rightarrow> 's) option"
  hk_usage_updated :: "(agent_identity \<Rightarrow> usage \<Rightarrow> 's \<Rightarrow> 's) option"
  hk_tool_call_end :: "(agent_identity \<Rightarrow> tool_call_result \<Rightarrow> 's \<Rightarrow> 's \<times> (string \<times> val) list) option"
  hk_wait_for_human :: "(agent_identity \<Rightarrow> string \<times> string \<Rightarrow> 's \<Rightarrow> 's) option"
  hk_plan_rollback :: "(agent_identity \<Rightarrow> string \<times> int \<times> string \<Rightarrow> 's \<Rightarrow> 's) option"
  hk_task_updated :: "(agent_identity \<Rightarrow> string \<times> string \<times> string \<times> string \<Rightarrow> 's \<Rightarrow> 's) option"
  hk_before_compress :: "(agent_identity \<Rightarrow> unit \<Rightarrow> 's \<Rightarrow> 's) option"

definition no_hooks :: "'s hooks" where
  "no_hooks = \<lparr>hk_thinking_chunk = None, hk_reply_chunk = None, hk_block_thinking = None,
     hk_block_reply = None, hk_function_call = None, hk_model_finished = None, hk_error = None,
     hk_usage_updated = None, hk_tool_call_end = None, hk_wait_for_human = None,
     hk_plan_rollback = None, hk_task_updated = None, hk_before_compress = None\<rparr>"

text \<open>\<open>if h != nil { h(id, a) }\<close>\<close>

definition fire :: "(agent_identity \<Rightarrow> 'a \<Rightarrow> 's \<Rightarrow> 's) option \<Rightarrow> agent_identity \<Rightarrow> 'a \<Rightarrow> 's \<Rightarrow> 's" where
  "fire h i x s = (case h of None \<Rightarrow> s | Some f \<Rightarrow> f i x s)"

lemma fire_simps [simp]: "fire None i x s = s" "fire (Some f) i x s = f i x s"
  by (simp_all add: fire_def)

text \<open>\<open>OnToolCallEnd\<close>: the result keeps its id and name and has the outputs as the callback leaves them.\<close>

definition fire_result :: "(agent_identity \<Rightarrow> tool_call_result \<Rightarrow> 's \<Rightarrow> 's \<times> (string \<times> val) list) option \<Rightarrow>
    agent_identity \<Rightarrow> tool_call_result \<Rightarrow> 's \<Rightarrow> 's \<times> tool_call_result" where
  "fire_result h i r s =
     (case h of None \<Rightarrow> (s, r) | Some f \<Rightarrow> (case f i r s of (s', outs) \<Rightarrow> (s', r\<lparr>tcr_outputs := outs\<rparr>)))"

lemma fire_result_keeps [simp]:
  "tcr_id (snd (fire_result h i r s)) = tcr_id r" "tcr_name (snd (fire_result h i r s)) = tcr_name r"
  "fire_result None i r s = (s, r)"
  by (simp_all add: fire_result_def split: option.splits prod.splits)

definition chain_result :: "(agent_identity \<Rightarrow> tool_call_result \<Rightarrow> 's \<Rightarrow> 's \<times> (string \<times> val) list) option \<Rightarrow>
    (agent_identity \<Rightarrow> tool_call_result \<Rightarrow> 's \<Rightarrow> 's \<times> (string \<times> val) list) option \<Rightarrow>
    (agent_identity \<Rightarrow> tool_call_result \<Rightarrow> 's \<Rightarrow> 's \<times> (string \<times> val) list) option" where
  "chain_result prev sys =
     (case sys of
        None \<Rightarrow> prev
      | Some f \<Rightarrow> Some (\<lambda>i r s. case fire_result (Some f) i r s of
          (s1, r1) \<Rightarrow> (case fire_result prev i r1 s1 of (s2, r2) \<Rightarrow> (s2, tcr_outputs r2))))"

lemma fire_chain_result [simp]:
  "fire_result (chain_result prev sys) i r s = (case fire_result sys i r s of (s1, r1) \<Rightarrow> fire_result prev i r1 s1)"
  by (auto simp: chain_result_def fire_result_def split: option.splits prod.splits)

text \<open>One field of \<open>Chain\<close>: the framework's callback first, then the previous one if there is one.\<close>

definition chain_field :: "(agent_identity \<Rightarrow> 'a \<Rightarrow> 's \<Rightarrow> 's) option \<Rightarrow>
    (agent_identity \<Rightarrow> 'a \<Rightarrow> 's \<Rightarrow> 's) option \<Rightarrow> (agent_identity \<Rightarrow> 'a \<Rightarrow> 's \<Rightarrow> 's) option" where
  "chain_field prev sys =
     (case sys of None \<Rightarrow> prev | Some f \<Rightarrow> Some (\<lambda>i x s. fire prev i x (f i x s)))"

definition chain :: "'s hooks \<Rightarrow> 's hooks \<Rightarrow> 's hooks" where
  "chain original sys =
     \<lparr>hk_thinking_chunk = chain_field (hk_thinking_chunk original) (hk_thinking_chunk sys),
      hk_reply_chunk = chain_field (hk_reply_chunk original) (hk_reply_chunk sys),
      hk_block_thinking = chain_field (hk_block_thinking original) (hk_block_thinking sys),
      hk_block_reply = chain_field (hk_block_reply original) (hk_block_reply sys),
      hk_function_call = chain_field (hk_function_call original) (hk_function_call sys),
      hk_model_finished = chain_field (hk_model_finished original) (hk_model_finished sys),
      hk_error = chain_field (hk_error original) (hk_error sys),
      hk_usage_updated = chain_field (hk_usage_updated original) (hk_usage_updated sys),
      hk_tool_call_end = chain_result (hk_tool_call_end original) (hk_tool_call_end sys),
      hk_wait_for_human = chain_field (hk_wait_for_human original) (hk_wait_for_human sys),
      hk_plan_rollback = chain_field (hk_plan_rollback original) (hk_plan_rollback sys),
      hk_task_updated = chain_field (hk_task_updated original) (hk_task_updated sys),
      hk_before_compress = chain_field (hk_before_compress original) (hk_before_compress sys)\<rparr>"

text \<open>The eight methods of the bridge \<open>AsModelEventHandler\<close>.\<close>

datatype model_event =
    OnThinkingChunk string | OnReplyChunk string | OnBlockThinking string | OnBlockReply string
  | OnFunctionCall tool_call_detail | OnFinished string | OnUsageUpdated usage | OnError err

fun as_model_event_handler :: "'s hooks \<Rightarrow> agent_identity \<Rightarrow> model_event \<Rightarrow> 's \<Rightarrow> 's" where
  "as_model_event_handler h i (OnThinkingChunk c) s = fire (hk_thinking_chunk h) i c s"
| "as_model_event_handler h i (OnReplyChunk c) s = fire (hk_reply_chunk h) i c s"
| "as_model_event_handler h i (OnBlockThinking r) s = fire (hk_block_thinking h) i r s"
| "as_model_event_handler h i (OnBlockReply t) s = fire (hk_block_reply h) i t s"
| "as_model_event_handler h i (OnFunctionCall d) s = fire (hk_function_call h) i d s"
| "as_model_event_handler h i (OnFinished r) s = fire (hk_model_finished h) i r s"
| "as_model_event_handler h i (OnUsageUpdated u) s = fire (hk_usage_updated h) i u s"
| "as_model_event_handler h i (OnError e) s = fire (hk_error h) i e s"

lemma fire_chain [simp]: "fire (chain_field prev sys) i x s = fire prev i x (fire sys i x s)"
  by (cases sys) (simp_all add: chain_field_def)

text \<open>\<open>CombineModelEventHandlers\<close> (core/types/lm\_provider.go): nil handlers are skipped, and the combined
  handler calls the others in order.\<close>

type_synonym 's model_handler = "model_event \<Rightarrow> 's \<Rightarrow> 's"

definition deliver :: "'s model_handler option \<Rightarrow> 's model_handler" where
  "deliver h e s = (case h of None \<Rightarrow> s | Some f \<Rightarrow> f e s)"

definition combine_model_event_handlers :: "'s model_handler option list \<Rightarrow> 's model_handler option" where
  "combine_model_event_handlers handlers =
     (case List.map_filter id handlers of
        [] \<Rightarrow> None
      | [h] \<Rightarrow> Some h
      | hs \<Rightarrow> Some (\<lambda>e. fold (\<lambda>h. h e) hs))"

lemma deliver_non_nil: "fold (\<lambda>h. deliver h e) handlers = fold (\<lambda>h. h e) (List.map_filter id handlers)"
  by (induction handlers) (auto simp: map_filter_simps deliver_def fun_eq_iff split: option.splits)

lemma combined_handler_delivers_to_all:
  "deliver (combine_model_event_handlers handlers) e s = fold (\<lambda>h. deliver h e) handlers s"
  unfolding deliver_non_nil
  by (auto simp: combine_model_event_handlers_def deliver_def split: list.splits)

text \<open>A chained hook set delivers every event to both sets, the framework's first, and each exactly
  once: for model events and for the agent-level events.\<close>

theorem chain_delivers_to_both:
  "as_model_event_handler (chain original sys) i e s
     = as_model_event_handler original i e (as_model_event_handler sys i e s) \<and>
   fire_result (hk_tool_call_end (chain original sys)) i r s
     = (case fire_result (hk_tool_call_end sys) i r s of (s1, r1) \<Rightarrow> fire_result (hk_tool_call_end original) i r1 s1) \<and>
   fire (hk_wait_for_human (chain original sys)) i w s
     = fire (hk_wait_for_human original) i w (fire (hk_wait_for_human sys) i w s) \<and>
   fire (hk_plan_rollback (chain original sys)) i p s
     = fire (hk_plan_rollback original) i p (fire (hk_plan_rollback sys) i p s) \<and>
   fire (hk_task_updated (chain original sys)) i t s
     = fire (hk_task_updated original) i t (fire (hk_task_updated sys) i t s) \<and>
   fire (hk_before_compress (chain original sys)) i () s
     = fire (hk_before_compress original) i () (fire (hk_before_compress sys) i () s)"
  by (cases e) (simp_all add: chain_def)

end
