(* ===== verification/Fsm.thy ===== *)
theory Fsm
  imports Dag Session PlanTools LlmCaller Hooks
begin

text \<open>
  The plan state machine (runtime/engine/fsm): the cycle of \<open>Machine.Run\<close>, the nine states, the ReAct and
  DAG actions, drift review and rollback.

  The whole state is the executor's \<open>dag_state\<close> with the per-run \<open>Context\<close> and the session as its
  extension.  What is injected as \<open>Dependencies\<close> is an argument (\<open>deps\<close>): the ReAct executor, the
  workers, the reviewer and the hooks are state-passing functions of the \<open>world\<close>, that is working
  memory, the session, the cancellation flag and everything outside (\<open>w_x\<close>); by its type none of them
  can touch the machine's control state.  The DAG executor is the model of dag.go, under the schedule
  \<open>fd_sched\<close> and with the fuel \<open>fd_fuel\<close>.  \<open>fd_order\<close> is the iteration order of the id map in
  \<open>Validate\<close>.  All generated message ids are \<open>fd_mid\<close>; the machine's own callbacks may read the
  session (\<open>fd_hooks\<close>).  Logging is not modelled.
\<close>

section \<open>State\<close>

record 'x fctx =
  fc_session :: session
  fc_current :: plan_state
  fc_prev :: plan_state
  fc_input :: agent_input
  fc_results :: "message list"
  fc_plan :: "paddr option"
  fc_plan_id :: string
  fc_work_mode :: string
  fc_step :: int
  fc_fails :: int
  fc_x :: 'x

type_synonym 'x fsm = "'x fctx dag_state"

record 'x world =
  w_wm :: wm
  w_session :: session
  w_done :: bool
  w_x :: 'x

definition world_of :: "'x fsm \<Rightarrow> 'x world" where
  "world_of s = \<lparr>w_wm = ds_wm s, w_session = fc_session (ds_ext s), w_done = ds_parent_done s,
     w_x = fc_x (ds_ext s)\<rparr>"

definition put_world :: "'x world \<Rightarrow> 'x fsm \<Rightarrow> 'x fsm" where
  "put_world w s = s\<lparr>ds_wm := w_wm w, ds_parent_done := w_done w,
     ds_ext := (ds_ext s)\<lparr>fc_session := w_session w, fc_x := w_x w\<rparr>\<rparr>"

definition map_ctx :: "('x fctx \<Rightarrow> 'x fctx) \<Rightarrow> 'x fsm \<Rightarrow> 'x fsm" where
  "map_ctx f s = s\<lparr>ds_ext := f (ds_ext s)\<rparr>"

record review_result =
  rv_drift :: bool
  rv_reason :: string
  rv_suggestion :: string
  rv_usage :: "usage option"

record machine_config =
  cf_max_cycles :: int
  cf_compress_max_attempts :: int
  cf_keep_last_n :: nat
  cf_min_messages_to_compress :: nat
  cf_review_interval :: int
  cf_max_failures_before_review :: int
  cf_force_mode :: string

record plan_task_params =
  pt_index :: nat
  pt_id :: string
  pt_goal :: string
  pt_action :: string
  pt_deps :: string

record plan_confirm_params =
  pc_name :: string
  pc_id :: string
  pc_tasks :: "plan_task_params list"

record plan_status_params =
  ps_name :: string
  ps_status :: string
  ps_done :: nat
  ps_total :: nat
  ps_failed :: nat
  ps_failed_tasks :: "(string \<times> string \<times> string) list"

record 'x deps =
  fd_react :: "message \<Rightarrow> message list \<Rightarrow> string list option \<Rightarrow> 'x world \<Rightarrow>
     'x world \<times> message list \<times> err option"
  fd_worker :: "string \<Rightarrow> string \<Rightarrow> 'x world \<Rightarrow> 'x world \<times> worker_out"
  fd_on_updated :: "(string \<Rightarrow> string \<Rightarrow> string \<Rightarrow> string \<Rightarrow> 'x world \<Rightarrow> 'x world) option"
  fd_reviewer :: "(string \<Rightarrow> string \<Rightarrow> string \<Rightarrow> 'x world \<Rightarrow> 'x world \<times> review_result) option"
  fd_summarize :: "message list \<Rightarrow> string \<Rightarrow> 'x \<Rightarrow> 'x \<times> string \<times> usage option \<times> err option"
  fd_hooks :: "session \<Rightarrow> 'x hooks"
  fd_identity :: agent_identity
  fd_render_confirm :: "plan_confirm_params \<Rightarrow> err + string"
  fd_render_status :: "plan_status_params \<Rightarrow> err + string"
  fd_planner_prompt :: "plan_state \<Rightarrow> string"
  fd_agent_context :: string
  fd_custom_tools :: "string list"
  fd_order :: "plan \<Rightarrow> string list"
  fd_sched :: "int \<Rightarrow> choice list"
  fd_fuel :: nat
  fd_mid :: string
  fd_config :: machine_config

definition live_plan :: "'x fsm \<Rightarrow> paddr \<Rightarrow> plan" where
  "live_plan s a = wm_heap (ds_wm s) a"

definition append_system :: "'x deps \<Rightarrow> string \<Rightarrow> 'x fsm \<Rightarrow> 'x fsm" where
  "append_system d t = map_ctx (\<lambda>c. c\<lparr>fc_session :=
     append_message (new_system_message (fd_mid d) (TextContent t)) (fc_session c)\<rparr>)"

definition put_plan_fsm :: "paddr \<Rightarrow> 'x fsm \<Rightarrow> 'x fsm \<times> err option" where
  "put_plan_fsm a s = (case put_plan (Some a) (ds_wm s) of (w, e) \<Rightarrow> (s\<lparr>ds_wm := w\<rparr>, e))"

section \<open>Tools of a state (state.go)\<close>

fun state_tools :: "plan_state \<Rightarrow> string list option" where
  "state_tools PSIntent =
     Some [''set_work_mode'']"
| "state_tools PSDirect =
     Some [''shell_exec'', ''web_fetch'', ''web_search'', ''file_read'', ''file_write'',
     ''file_copy'', ''file_delete'', ''dir_create'', ''dir_copy'', ''memory_store'',
     ''memory_search'', ''memory_get_section'', ''memory_remove'', ''memory_list_sections'',
     ''memory_stats'', ''memory_extract'', ''context_compress'', ''skill_use'', ''ask_human'']"
| "state_tools PSInit =
     Some [''plan_create'', ''task_insert'', ''memory_store'', ''memory_search'',
     ''memory_get_section'', ''memory_remove'', ''memory_list_sections'', ''memory_stats'',
     ''memory_extract'', ''skill_use'']"
| "state_tools PSConfirmed =
     Some [''ask_human'', ''confirm_plan'', ''memory_extract'']"
| "state_tools PSDoing =
     Some [''task_query'', ''task_status_update'']"
| "state_tools PSUpdating =
     Some [''memory_store'', ''memory_search'', ''memory_get_section'', ''memory_remove'',
     ''memory_list_sections'', ''memory_stats'', ''memory_extract'', ''skill_use'', ''task_insert'',
     ''task_delete'', ''task_query'', ''plan_query'']"
| "state_tools PSDone =
     Some [''task_query'', ''plan_query'', ''memory_extract'']"
| "state_tools PSFailed =
     Some [''task_query'', ''plan_query'', ''memory_extract'']"
| "state_tools PSRejected =
     Some []"
| "state_tools PSNone = None"

definition tools_for_state :: "plan_state \<Rightarrow> string list \<Rightarrow> string list option" where
  "tools_for_state st custom =
     (case state_tools st of None \<Rightarrow> None | Some ts \<Rightarrow> Some (if custom = [] then ts else ts @ custom))"

section \<open>Prompts (action.go)\<close>

definition build_plan_confirm_params :: "plan \<Rightarrow> plan_confirm_params" where
  "build_plan_confirm_params p =
     \<lparr>pc_name = p_name p, pc_id = p_id p,
      pc_tasks = map (\<lambda>(i, t). \<lparr>pt_index = i + 1, pt_id = t_id t, pt_goal = t_goal t, pt_action = t_action t,
                               pt_deps = (if t_parent t = [] then ''none'' else t_parent t)\<rparr>)
                   (zip [0..<length (p_tasks p)] (p_tasks p))\<rparr>"

definition failed_reason :: "task \<Rightarrow> string" where
  "failed_reason t =
     (let r = (if t_reason t = [] then ''(no reason)'' else t_reason t)
      in if length r > 200 then take 200 r @ ''...'' else r)"

definition build_plan_status_params :: "plan \<Rightarrow> plan_status_params" where
  "build_plan_status_params p =
     (let ts = p_tasks p; failed = filter (\<lambda>t. t_status t = TaskStatusFailed) ts in
      \<lparr>ps_name = p_name p, ps_status = plan_state_str (p_state p),
       ps_done = length (filter (\<lambda>t. t_status t = TaskStatusDone) ts), ps_total = length ts,
       ps_failed = length failed,
       ps_failed_tasks = map (\<lambda>t. (t_id t, t_goal t, failed_reason t)) failed\<rparr>)"

definition newline2 :: string where
  "newline2 = [CHR 0x0A, CHR 0x0A]"

definition build_prompt :: "'x deps \<Rightarrow> plan_state \<Rightarrow> plan option \<Rightarrow> err + string" where
  "build_prompt d st p =
     (let pre = (if fd_agent_context d \<noteq> [] then fd_agent_context d @ newline2 else []) in
      case p of
        None \<Rightarrow> Inr (pre @ fd_planner_prompt d st)
      | Some p \<Rightarrow>
          (case (if st = PSConfirmed then fd_render_confirm d (build_plan_confirm_params p)
                 else fd_render_status d (build_plan_status_params p)) of
             Inl e \<Rightarrow> Inl (ErrWrap ''render plan prompt'' e)
           | Inr rendered \<Rightarrow> Inr (pre @ rendered @ newline2 @ fd_planner_prompt d st)))"

section \<open>Actions (action.go)\<close>

definition run_react :: "'x deps \<Rightarrow> message \<Rightarrow> string list option \<Rightarrow> 'x fsm \<Rightarrow>
    'x fsm \<times> message list \<times> err option" where
  "run_react d sys tools s =
     (case fd_react d sys (get_history_messages (fd_mid d) (fc_session (ds_ext s))) tools (world_of s) of
        (w, ms, e) \<Rightarrow> (put_world w s, ms, e))"

definition compress_session :: "'x deps \<Rightarrow> 'x fsm \<Rightarrow> 'x fsm" where
  "compress_session d = map_ctx (\<lambda>c.
     case compress_snapshot (cf_keep_last_n (fd_config d)) (cf_min_messages_to_compress (fd_config d)) (fc_session c) of
       None \<Rightarrow> c
     | Some sn \<Rightarrow>
         (case fd_summarize d (sn_old sn) (sn_summary sn) (fc_x c) of
            (x, answer) \<Rightarrow> c\<lparr>fc_session := fst (compress_finish (\<lambda>_ _. answer) sn (fc_session c)), fc_x := x\<rparr>))"

definition before_compress :: "'x deps \<Rightarrow> 'x fsm \<Rightarrow> 'x fsm" where
  "before_compress d = map_ctx (\<lambda>c. c\<lparr>fc_x := fire (hk_before_compress (fd_hooks d (fc_session c))) (fd_identity d) () (fc_x c)\<rparr>)"

fun handle_context_exceeded :: "nat \<Rightarrow> 'x deps \<Rightarrow> message \<Rightarrow> string list option \<Rightarrow> 'x fsm \<Rightarrow>
    'x fsm \<times> message list \<times> err option" where
  "handle_context_exceeded 0 d sys tools s = (s, [], Some ErrContextLengthExceeded)"
| "handle_context_exceeded (Suc n) d sys tools s =
     (let s1 = before_compress d s;
          s2 = compress_session d s1;
          (s3, ms, e) = run_react d sys tools s2
      in case e of
           None \<Rightarrow> (s3, ms, None)
         | Some e' \<Rightarrow> if err_is e' ErrContextLengthExceeded then handle_context_exceeded n d sys tools s3
                     else (s3, ms, e))"

definition react_action :: "'x deps \<Rightarrow> plan_state \<Rightarrow> paddr option \<Rightarrow> 'x fsm \<Rightarrow>
    'x fsm \<times> message list \<times> err option" where
  "react_action d st plan s =
     (case build_prompt d st (map_option (live_plan s) plan) of
        Inl e \<Rightarrow> (s, [], Some e)
      | Inr prompt \<Rightarrow>
          (let sys = new_system_message (fd_mid d) (TextContent prompt);
               tools = tools_for_state st (fd_custom_tools d);
               (s1, ms, e) = run_react d sys tools s
           in case e of
                None \<Rightarrow> (s1, ms, None)
              | Some e' \<Rightarrow>
                  if err_is e' ErrContextLengthExceeded
                  then handle_context_exceeded (nat (cf_compress_max_attempts (fd_config d))) d sys tools s1
                  else (s1, ms, e)))"

definition should_review :: "'x deps \<Rightarrow> int \<Rightarrow> bool" where
  "should_review d fails =
     (case fd_reviewer d of
        None \<Rightarrow> False
      | Some _ \<Rightarrow>
          (cf_review_interval (fd_config d) > 0 \<and> fails mod cf_review_interval (fd_config d) = 0) \<or>
          (cf_max_failures_before_review (fd_config d) > 0 \<and> fails \<ge> cf_max_failures_before_review (fd_config d)))"

definition fmt_plan_summary :: "plan \<Rightarrow> string" where
  "fmt_plan_summary p = ''Plan '' @ go_quote (p_name p) @ '' (v'' @ int_dec (p_version p) @ '', status='' @
     plan_state_str (p_state p) @ ''), '' @ nat_dec (length (p_tasks p)) @ '' tasks''"

text \<open>The UTF-8 text of the message that announces a rollback.\<close>

definition drift_text :: "string \<Rightarrow> int \<Rightarrow> string" where
  "drift_text reason target =
     [CHR 0xE2, CHR 0x9A, CHR 0xA0, CHR 0xEF, CHR 0xB8, CHR 0x8F, CHR 0x20, CHR 0xE8, CHR 0x87, CHR
     0xAA, CHR 0xE5, CHR 0x8A, CHR 0xA8, CHR 0xE5, CHR 0xAE, CHR 0xA1, CHR 0xE6, CHR 0x9F, CHR 0xA5,
     CHR 0xE6, CHR 0xA3, CHR 0x80, CHR 0xE6, CHR 0xB5, CHR 0x8B, CHR 0xE5, CHR 0x88, CHR 0xB0, CHR
     0xE6, CHR 0x89, CHR 0xA7, CHR 0xE8, CHR 0xA1, CHR 0x8C, CHR 0xE5, CHR 0x8F, CHR 0xAF, CHR 0xE8,
     CHR 0x83, CHR 0xBD, CHR 0xE5, CHR 0x81, CHR 0x8F, CHR 0xE7, CHR 0xA6, CHR 0xBB, CHR 0xE7, CHR
     0x9B, CHR 0xAE, CHR 0xE6, CHR 0xA0, CHR 0x87, CHR 0xEF, CHR 0xBC, CHR 0x88]
     @ reason @
     [CHR 0xEF, CHR 0xBC, CHR 0x89, CHR 0xEF, CHR 0xBC, CHR 0x8C, CHR 0xE8, CHR 0xAE, CHR 0xA1, CHR
     0xE5, CHR 0x88, CHR 0x92, CHR 0xE5, CHR 0xB7, CHR 0xB2, CHR 0xE5, CHR 0x9B, CHR 0x9E, CHR 0xE6,
     CHR 0xBB, CHR 0x9A, CHR 0xE8, CHR 0x87, CHR 0xB3, CHR 0xE7, CHR 0x89, CHR 0x88, CHR 0xE6, CHR
     0x9C, CHR 0xAC, CHR 0x20]
     @ int_dec target @
     [CHR 0xE3, CHR 0x80, CHR 0x82, CHR 0xE8, CHR 0xAF, CHR 0xB7, CHR 0xE6, CHR 0xA0, CHR 0xB9, CHR
     0xE6, CHR 0x8D, CHR 0xAE, CHR 0xE5, CHR 0xBD, CHR 0x93, CHR 0xE5, CHR 0x89, CHR 0x8D, CHR 0xE4,
     CHR 0xBB, CHR 0xBB, CHR 0xE5, CHR 0x8A, CHR 0xA1, CHR 0xE8, CHR 0xBF, CHR 0x9B, CHR 0xE5, CHR
     0xBA, CHR 0xA6, CHR 0xE5, CHR 0x92, CHR 0x8C, CHR 0xE7, CHR 0x9B, CHR 0xAE, CHR 0xE6, CHR 0xA0,
     CHR 0x87, CHR 0xE5, CHR 0x81, CHR 0x8F, CHR 0xE5, CHR 0xB7, CHR 0xAE, CHR 0xEF, CHR 0xBC, CHR
     0x8C, CHR 0xE8, CHR 0xB0, CHR 0x83, CHR 0xE6, CHR 0x95, CHR 0xB4, CHR 0xE4, CHR 0xBB, CHR 0xBB,
     CHR 0xE5, CHR 0x8A, CHR 0xA1, CHR 0xE8, CHR 0xAE, CHR 0xA1, CHR 0xE5, CHR 0x88, CHR 0x92, CHR
     0xEF, CHR 0xBC, CHR 0x8C, CHR 0xE5, CHR 0xAE, CHR 0x8C, CHR 0xE6, CHR 0x88, CHR 0x90, CHR 0xE5,
     CHR 0x90, CHR 0x8E, CHR 0xE7, CHR 0xB3, CHR 0xBB, CHR 0xE7, CHR 0xBB, CHR 0x9F, CHR 0xE5, CHR
     0xB0, CHR 0x86, CHR 0xE8, CHR 0xBF, CHR 0x9B, CHR 0xE5, CHR 0x85, CHR 0xA5, CHR 0xE7, CHR 0xA1,
     CHR 0xAE, CHR 0xE8, CHR 0xAE, CHR 0xA4, CHR 0xE9, CHR 0x98, CHR 0xB6, CHR 0xE6, CHR 0xAE, CHR
     0xB5, CHR 0xE3, CHR 0x80, CHR 0x82]"

definition handle_drift :: "'x deps \<Rightarrow> string \<Rightarrow> 'x fsm \<Rightarrow> 'x fsm" where
  "handle_drift d reason s =
     (case fc_plan (ds_ext s) of
        None \<Rightarrow> s
      | Some a \<Rightarrow>
          if p_version (live_plan s a) \<le> 1 then s
          else
            (let target = p_version (live_plan s a) - 1 in
             case load_checkpoint_json (p_id (live_plan s a)) target (ds_wm s) of
               Inl _ \<Rightarrow> s
             | Inr cp \<Rightarrow>
                 (let s1 = dag_cancel s;
                      q = cp_plan cp;
                      s2 = map_wm (upd_plan a (\<lambda>p. p\<lparr>p_name := p_name q, p_tasks := p_tasks q,
                             p_active := p_active q, p_state := PSUpdating,
                             p_reason := ''drift: '' @ reason\<rparr>)) s1;
                      s3 = map_wm (\<lambda>w. fst (persist_plan a w)) s2;
                      s4 = append_system d (drift_text reason target) s3
                  in map_ctx (\<lambda>c. c\<lparr>fc_x := fire (hk_plan_rollback (fd_hooks d (fc_session c))) (fd_identity d)
                        (p_id (live_plan s4 a), target, p_name (live_plan s4 a)) (fc_x c)\<rparr>) s4)))"

text \<open>The callback of \<open>DAGAction.Execute\<close>.\<close>

definition on_task_failed :: "'x deps \<Rightarrow> string \<Rightarrow> string \<Rightarrow> string \<Rightarrow> 'x fsm \<Rightarrow> 'x fsm" where
  "on_task_failed d tid goal reason s =
     (let s1 = map_ctx (\<lambda>c. c\<lparr>fc_fails := fc_fails c + 1\<rparr>) s in
      if should_review d (fc_fails (ds_ext s1)) then
        (case get_plan (ds_wm s1) (fc_plan_id (ds_ext s1)) of
           None \<Rightarrow> s1
         | Some a \<Rightarrow>
             (case fd_reviewer d of
                None \<Rightarrow> s1
              | Some review \<Rightarrow>
                  (case review (ai_text (fc_input (ds_ext s1))) (fmt_plan_summary (live_plan s1 a)) reason (world_of s1) of
                     (w, r) \<Rightarrow>
                       (let s2 = put_world w s1 in if rv_drift r then handle_drift d reason s2 else s2))))
      else s1)"

definition fsm_dag_env :: "'x deps \<Rightarrow> 'x fctx dag_env" where
  "fsm_dag_env d =
     \<lparr>de_worker = (\<lambda>goal action s. case fd_worker d goal action (world_of s) of (w, out) \<Rightarrow> (put_world w s, out)),
      de_on_failed = Some (on_task_failed d),
      de_on_updated = map_option (\<lambda>f tid goal status out s. put_world (f tid goal status out (world_of s)) s)
        (fd_on_updated d)\<rparr>"

definition dag_action :: "'x deps \<Rightarrow> paddr \<Rightarrow> 'x fsm \<Rightarrow> ('x fsm \<times> batch_result) option" where
  "dag_action d a s = execute_batch (fd_fuel d) (fsm_dag_env d) a (fd_sched d (fc_step (ds_ext s))) s"

section \<open>The states (state.go)\<close>

type_synonym 'x outcome = "('x fsm \<times> plan_state \<times> err option) option"

definition intent_state :: "'x deps \<Rightarrow> 'x fsm \<Rightarrow> 'x outcome" where
  "intent_state d s =
     (case react_action d PSIntent None s of
        (s1, _, Some e) \<Rightarrow> Some (s1, PSIntent, Some e)
      | (s1, ms, None) \<Rightarrow>
          (let m = (case extract_tool_result as_string ms ''set_work_mode'' ''mode'' of None \<Rightarrow> [] | Some v \<Rightarrow> v);
               s2 = map_ctx (\<lambda>c. c\<lparr>fc_work_mode := m\<rparr>) s1
           in Some (s2, if m = ''plan'' then PSInit else PSDirect, None)))"

definition direct_state :: "'x deps \<Rightarrow> 'x fsm \<Rightarrow> 'x outcome" where
  "direct_state d s =
     (case react_action d PSDirect None s of
        (s1, _, Some e) \<Rightarrow> Some (s1, PSDirect, Some e)
      | (s1, ms, None) \<Rightarrow> Some (map_ctx (\<lambda>c. c\<lparr>fc_results := fc_results c @ ms\<rparr>) s1, PSDirect, None))"

definition init_state :: "'x deps \<Rightarrow> 'x fsm \<Rightarrow> 'x outcome" where
  "init_state d s =
     (case react_action d PSInit None s of
        (s1, _, Some e) \<Rightarrow> Some (s1, PSInit, Some e)
      | (s1, ms, None) \<Rightarrow>
          (let pid = (case extract_tool_result as_string ms ''plan_create'' ''id'' of None \<Rightarrow> [] | Some v \<Rightarrow> v);
               s2 = map_ctx (\<lambda>c. c\<lparr>fc_plan_id := pid\<rparr>) s1
           in case (if pid \<noteq> [] then get_plan (ds_wm s2) pid else None) of
                None \<Rightarrow> Some (s2, PSDirect, None)
              | Some a \<Rightarrow>
                  (case validate (fd_order d (live_plan s2 a)) (live_plan s2 a) of
                     Some e \<Rightarrow>
                       Some (append_system d (''[System] Plan validation failed: '' @ err_text e @
                               ''. Please fix and re-create with plan_create.'') s2, PSUpdating, None)
                   | None \<Rightarrow> Some (map_ctx (\<lambda>c. c\<lparr>fc_plan := Some a\<rparr>) s2, PSConfirmed, None))))"

definition confirmed_state :: "'x deps \<Rightarrow> 'x fsm \<Rightarrow> 'x outcome" where
  "confirmed_state d s =
     (case react_action d PSConfirmed (fc_plan (ds_ext s)) s of
        (s1, _, Some e) \<Rightarrow> Some (s1, PSConfirmed, Some e)
      | (s1, _, None) \<Rightarrow>
          (case (if fc_plan_id (ds_ext s1) \<noteq> [] then get_plan (ds_wm s1) (fc_plan_id (ds_ext s1)) else None) of
             Some a \<Rightarrow> Some (s1, p_state (live_plan s1 a), None)
           | None \<Rightarrow> Some (s1, PSConfirmed, None)))"

text \<open>\<open>Doing\<close> is entered with a plan; without one \<open>ExecuteBatch\<close> would dereference nil (\<open>None\<close>).\<close>

definition doing_state :: "'x deps \<Rightarrow> 'x fsm \<Rightarrow> 'x outcome" where
  "doing_state d s =
     (case fc_plan (ds_ext s) of
        None \<Rightarrow> None
      | Some a \<Rightarrow>
          (case dag_action d a s of
             None \<Rightarrow> None
           | Some (s1, r) \<Rightarrow> Some (s1, if br_has_failed r then PSUpdating else PSDone, None)))"

definition updating_state :: "'x deps \<Rightarrow> 'x fsm \<Rightarrow> 'x outcome" where
  "updating_state d s =
     (case react_action d PSUpdating (fc_plan (ds_ext s)) s of
        (s1, _, Some e) \<Rightarrow> Some (s1, PSUpdating, Some e)
      | (s1, _, None) \<Rightarrow>
          (case (if fc_plan_id (ds_ext s1) \<noteq> [] then get_plan (ds_wm s1) (fc_plan_id (ds_ext s1)) else None) of
             None \<Rightarrow> Some (s1, PSDirect, None)
           | Some a \<Rightarrow>
               (case validate (fd_order d (live_plan s1 a)) (live_plan s1 a) of
                  Some e \<Rightarrow> Some (append_system d (''[System] Plan still invalid after fix: '' @ err_text e @ ''.'') s1,
                                  PSDirect, None)
                | None \<Rightarrow> Some (map_ctx (\<lambda>c. c\<lparr>fc_plan := Some a\<rparr>) s1, PSConfirmed, None))))"

definition summary_state :: "plan_state \<Rightarrow> 'x deps \<Rightarrow> 'x fsm \<Rightarrow> 'x outcome" where
  "summary_state st d s =
     (case react_action d st (fc_plan (ds_ext s)) s of
        (s1, _, Some e) \<Rightarrow> Some (s1, st, Some e)
      | (s1, ms, None) \<Rightarrow> Some (map_ctx (\<lambda>c. c\<lparr>fc_results := fc_results c @ ms\<rparr>) s1, st, None))"

definition done_state :: "'x deps \<Rightarrow> 'x fsm \<Rightarrow> 'x outcome" where
  "done_state = summary_state PSDone"

definition failed_state :: "'x deps \<Rightarrow> 'x fsm \<Rightarrow> 'x outcome" where
  "failed_state = summary_state PSFailed"

definition rejected_state :: "'x deps \<Rightarrow> 'x fsm \<Rightarrow> 'x outcome" where
  "rejected_state d s = Some (s, PSRejected, None)"

text \<open>The table \<open>m.states\<close>; \<open>PSNone\<close> has no entry.\<close>

fun state_execute :: "plan_state \<Rightarrow> ('x deps \<Rightarrow> 'x fsm \<Rightarrow> 'x outcome) option" where
  "state_execute PSIntent = Some intent_state"
| "state_execute PSDirect = Some direct_state"
| "state_execute PSInit = Some init_state"
| "state_execute PSConfirmed = Some confirmed_state"
| "state_execute PSDoing = Some doing_state"
| "state_execute PSUpdating = Some updating_state"
| "state_execute PSDone = Some done_state"
| "state_execute PSFailed = Some failed_state"
| "state_execute PSRejected = Some rejected_state"
| "state_execute PSNone = None"

section \<open>The machine (machine.go)\<close>

definition is_terminal :: "plan_state \<Rightarrow> bool" where
  "is_terminal st = (st = PSDirect \<or> st = PSDone \<or> st = PSFailed \<or> st = PSRejected)"

definition initial_state :: "machine_config \<Rightarrow> plan_state" where
  "initial_state c = (if cf_force_mode c = ''plan'' then PSInit
     else if cf_force_mode c = ''simple'' then PSDirect else PSIntent)"

definition set_plan_state :: "paddr \<Rightarrow> plan_state \<Rightarrow> 'x fsm \<Rightarrow> 'x fsm" where
  "set_plan_state a st = map_wm (upd_plan a (\<lambda>p. p\<lparr>p_state := st\<rparr>))"

definition status_text :: "string \<Rightarrow> plan_state \<Rightarrow> plan_state \<Rightarrow> string" where
  "status_text name from to = ''[System] Plan '' @ go_quote name @ '' status: '' @ plan_state_str from @
     '' '' @ [CHR 0xE2, CHR 0x86, CHR 0x92] @ '' '' @ plan_state_str to @ ''.''"

definition transition :: "'x deps \<Rightarrow> plan_state \<Rightarrow> 'x fsm \<Rightarrow> 'x fsm \<times> err option" where
  "transition d nxt s =
     (let s1 = map_ctx (\<lambda>c. c\<lparr>fc_prev := fc_current c, fc_current := nxt\<rparr>) s in
      case fc_plan (ds_ext s1) of
        None \<Rightarrow> (s1, None)
      | Some a \<Rightarrow>
          (case put_plan_fsm a (set_plan_state a nxt s1) of
             (s2, Some e) \<Rightarrow> (s2, Some e)
           | (s2, None) \<Rightarrow>
               (append_system d (status_text (p_name (live_plan s2 a)) (fc_prev (ds_ext s2)) (fc_current (ds_ext s2))) s2,
                None)))"

text \<open>The loop of \<open>Run\<close>; its argument counts the cycles left.\<close>

fun machine_loop :: "nat \<Rightarrow> 'x deps \<Rightarrow> 'x fsm \<Rightarrow> ('x fsm \<times> err option) option" where
  "machine_loop 0 d s =
     (case fc_plan (ds_ext s) of
        None \<Rightarrow> Some (s, Some ErrMaxCyclesExceeded)
      | Some a \<Rightarrow>
          (case put_plan_fsm a s of
             (s1, Some e) \<Rightarrow> Some (s1, Some e)
           | (s1, None) \<Rightarrow> Some (s1, Some ErrMaxCyclesExceeded)))"
| "machine_loop (Suc n) d s =
     (let cur = fc_current (ds_ext s) in
      case state_execute cur of
        None \<Rightarrow> Some (s, Some (ErrOther (''unknown state: '' @ plan_state_str cur)))
      | Some exec \<Rightarrow>
          (case exec d s of
             None \<Rightarrow> None
           | Some (s1, _, Some e) \<Rightarrow>
               (case fc_plan (ds_ext s1) of
                  None \<Rightarrow> Some (s1, Some e)
                | Some a \<Rightarrow> Some (fst (put_plan_fsm a (set_plan_state a cur s1)), Some e))
           | Some (s1, nxt, None) \<Rightarrow>
               if is_terminal nxt \<and> nxt = cur then
                 (case fc_plan (ds_ext s1) of
                    None \<Rightarrow> Some (s1, None)
                  | Some a \<Rightarrow> Some (put_plan_fsm a (set_plan_state a nxt s1)))
               else
                 (case transition d nxt s1 of
                    (s2, Some e) \<Rightarrow> Some (s2, Some e)
                  | (s2, None) \<Rightarrow> machine_loop n d (map_ctx (\<lambda>c. c\<lparr>fc_step := fc_step c + 1\<rparr>) s2))))"

text \<open>\<open>Run\<close> starts from a fresh \<open>Context\<close>; session, working memory and the rest are as they were.\<close>

definition machine_run :: "'x deps \<Rightarrow> agent_input \<Rightarrow> 'x fsm \<Rightarrow> ('x fsm \<times> err option) option" where
  "machine_run d input s =
     machine_loop (nat (cf_max_cycles (fd_config d))) d
       (map_ctx (\<lambda>c. c\<lparr>fc_session := append_message (build_user_message (fd_mid d) input) (fc_session c),
                        fc_current := initial_state (fd_config d), fc_prev := PSNone, fc_input := input,
                        fc_results := [], fc_plan := None, fc_plan_id := [], fc_work_mode := [],
                        fc_step := 0, fc_fails := 0\<rparr>) s)"

section \<open>The control state\<close>

text \<open>Nothing that is injected changes the current state, the plan or its id.\<close>

definition ctl :: "'x fctx \<Rightarrow> plan_state \<times> paddr option \<times> string" where
  "ctl c = (fc_current c, fc_plan c, fc_plan_id c)"

abbreviation ctl_of :: "'x fsm \<Rightarrow> plan_state \<times> paddr option \<times> string" where
  "ctl_of s \<equiv> ctl (ds_ext s)"

lemma map_ctx_sel [simp]:
  "ds_ext (map_ctx f s) = f (ds_ext s)" "ds_wm (map_ctx f s) = ds_wm s"
  "ds_parent_done (map_ctx f s) = ds_parent_done s" "ds_child_done (map_ctx f s) = ds_child_done s"
  "ctx_done (map_ctx f s) = ctx_done s"
  by (simp_all add: map_ctx_def ctx_done_def)

lemma ctl_put_world [simp]: "ctl_of (put_world w s) = ctl_of s"
  by (simp add: ctl_def put_world_def)

lemma ctl_run_react: "run_react d sys tools s = (s', ms, e) \<Longrightarrow> ctl_of s' = ctl_of s"
  by (auto simp: run_react_def split: prod.splits)

lemma ctl_handle_context: "handle_context_exceeded n d sys tools s = (s', ms, e) \<Longrightarrow> ctl_of s' = ctl_of s"
proof (induction n arbitrary: s)
  case (Suc n)
  let ?s2 = "compress_session d (before_compress d s)"
  have c2: "ctl_of ?s2 = ctl_of s"
    by (simp add: ctl_def before_compress_def compress_session_def split: option.split prod.split)
  obtain s3 ms3 e3 where r: "run_react d sys tools ?s2 = (s3, ms3, e3)" by (rule prod_cases3)
  from ctl_run_react [OF r] c2 have c3: "ctl_of s3 = ctl_of s" by simp
  from Suc.prems r consider "s' = s3" | "handle_context_exceeded n d sys tools s3 = (s', ms, e)"
    by (auto simp: Let_def split: option.splits if_splits)
  then show ?case using c3 Suc.IH by cases auto
qed simp

lemma ctl_react_action:
  assumes "react_action d st plan s = (s', ms, e)" shows "ctl_of s' = ctl_of s"
proof (cases "build_prompt d st (map_option (live_plan s) plan)")
  case (Inr prompt)
  obtain s1 ms1 e1 where r: "run_react d (new_system_message (fd_mid d) (TextContent prompt))
      (tools_for_state st (fd_custom_tools d)) s = (s1, ms1, e1)" by (rule prod_cases3)
  from assms Inr r consider "s' = s1"
    | "handle_context_exceeded (nat (cf_compress_max_attempts (fd_config d))) d
        (new_system_message (fd_mid d) (TextContent prompt)) (tools_for_state st (fd_custom_tools d)) s1 = (s', ms, e)"
    by (auto simp: react_action_def Let_def split: option.splits if_splits)
  then show ?thesis
  proof cases
    case 1
    then show ?thesis using ctl_run_react [OF r] by simp
  next
    case 2
    from ctl_handle_context [OF 2] ctl_run_react [OF r] show ?thesis by simp
  qed
qed (use assms in \<open>simp add: react_action_def\<close>)

lemma ctl_append_system [simp]: "ctl_of (append_system d t s) = ctl_of s"
  by (simp add: append_system_def ctl_def)

lemma ctl_dag_cancel [simp]: "ctl_of (dag_cancel s) = ctl_of s"
  by (simp add: dag_cancel_def)

lemma ctl_map_wm [simp]: "ctl_of (map_wm f s) = ctl_of s"
  by simp

lemma ctl_fc_x [simp]: "ctl_of (map_ctx (\<lambda>c. c\<lparr>fc_x := f (fc_session c) (fc_x c)\<rparr>) s) = ctl_of s"
  by (simp add: ctl_def)

text \<open>The steps of a rollback that does happen, one after the other.\<close>

definition drift_restore :: "'x deps \<Rightarrow> string \<Rightarrow> paddr \<Rightarrow> int \<Rightarrow> plan \<Rightarrow> 'x fsm \<Rightarrow> 'x fsm" where
  "drift_restore d reason a target q s =
     append_system d (drift_text reason target)
       (map_wm (\<lambda>w. fst (persist_plan a w))
         (map_wm (upd_plan a (\<lambda>p. p\<lparr>p_name := p_name q, p_tasks := p_tasks q, p_active := p_active q,
             p_state := PSUpdating, p_reason := ''drift: '' @ reason\<rparr>))
           (dag_cancel s)))"

lemma handle_drift_cases:
  obtains "handle_drift d reason s = s"
  | a cp f where "fc_plan (ds_ext s) = Some a" "p_version (live_plan s a) > 1"
      "load_checkpoint_json (p_id (live_plan s a)) (p_version (live_plan s a) - 1) (ds_wm s) = Inr cp"
      "handle_drift d reason s = map_ctx (\<lambda>c. c\<lparr>fc_x := f (fc_session c) (fc_x c)\<rparr>)
        (drift_restore d reason a (p_version (live_plan s a) - 1) (cp_plan cp) s)"
proof (cases "fc_plan (ds_ext s)")
  case None
  then show ?thesis by (intro that(1)) (simp only: handle_drift_def option.case)
next
  case (Some a)
  show ?thesis
  proof (cases "p_version (live_plan s a) \<le> 1")
    case True
    then show ?thesis by (intro that(1)) (simp only: handle_drift_def Some option.case if_True)
  next
    case False
    show ?thesis
    proof (cases "load_checkpoint_json (p_id (live_plan s a)) (p_version (live_plan s a) - 1) (ds_wm s)")
      case (Inl e)
      then show ?thesis
        by (intro that(1)) (simp only: handle_drift_def Some False option.case if_False Let_def sum.case)
    next
      case (Inr cp)
      from False have "p_version (live_plan s a) > 1" by simp
      then show ?thesis
        using that(2) [OF Some _ Inr, of "\<lambda>ss. fire (hk_plan_rollback (fd_hooks d ss)) (fd_identity d) (_, _, _)"]
        by (simp only: handle_drift_def Some False Inr option.case if_False Let_def sum.case drift_restore_def)
    qed
  qed
qed

lemma handle_drift_Some:
  assumes "fc_plan (ds_ext s) = Some a" and "p_version (live_plan s a) > 1"
    and "load_checkpoint_json (p_id (live_plan s a)) (p_version (live_plan s a) - 1) (ds_wm s) = Inr cp"
  obtains f where "handle_drift d reason s = map_ctx (\<lambda>c. c\<lparr>fc_x := f (fc_session c) (fc_x c)\<rparr>)
    (drift_restore d reason a (p_version (live_plan s a) - 1) (cp_plan cp) s)"
proof -
  from assms(2) have v: "(p_version (live_plan s a) \<le> 1) = False" by simp
  show ?thesis
    by (rule that [of "\<lambda>ss. fire (hk_plan_rollback (fd_hooks d ss)) (fd_identity d) (_, _, _)"])
      (simp only: handle_drift_def assms(1,3) v option.case if_False Let_def sum.case drift_restore_def)
qed

text \<open>What a rollback does to working memory.  Only the plan file is written, not a checkpoint.\<close>

lemma persist_plan_sel [simp]:
  "wm_heap (fst (persist_plan a w)) = wm_heap w" "wm_cps (fst (persist_plan a w)) = wm_cps w"
  by (auto simp: persist_plan_def save_plan_json_def split: prod.splits option.splits dest!: next_io_eq)

lemma drift_restore_sel:
  "wm_heap (ds_wm (drift_restore d reason a v q s)) b =
     (if b = a then (wm_heap (ds_wm s) a)\<lparr>p_name := p_name q, p_tasks := p_tasks q, p_active := p_active q,
        p_state := PSUpdating, p_reason := ''drift: '' @ reason\<rparr> else wm_heap (ds_wm s) b)"
  "wm_cps (ds_wm (drift_restore d reason a v q s)) = wm_cps (ds_wm s)"
  "ds_cancel s \<Longrightarrow> ds_child_done (drift_restore d reason a v q s)"
  by (simp_all add: drift_restore_def append_system_def dag_cancel_def)

lemma ctl_handle_drift [simp]: "ctl_of (handle_drift d reason s) = ctl_of s"
  by (cases rule: handle_drift_cases [of d reason s])
    (simp_all only: ctl_fc_x drift_restore_def ctl_append_system ctl_map_wm ctl_dag_cancel)

lemma ctl_on_task_failed: "ctl_of (on_task_failed d tid goal reason s) = ctl_of s"
proof -
  have m: "ctl_of (map_ctx (\<lambda>c. c\<lparr>fc_fails := n\<rparr>) s) = ctl_of s" for n by (simp add: ctl_def)
  have m': "ctl_of (map_ctx (\<lambda>c. c\<lparr>fc_fails := fc_fails c + 1\<rparr>) s) = ctl_of s" by (simp add: ctl_def)
  show ?thesis
    unfolding on_task_failed_def Let_def
    using m' by (simp split: option.splits prod.splits)
qed

lemma dag_env_keeps_ctl: "keeps_ext ctl (fsm_dag_env d)"
  unfolding keeps_ext_def
  by (auto simp: fsm_dag_env_def ctl_on_task_failed split: prod.splits)

lemma ctl_dag_action: "dag_action d a s = Some (s', r) \<Longrightarrow> ctl_of s' = ctl_of s"
  unfolding dag_action_def by (rule execute_batch_keeps_ext [OF dag_env_keeps_ctl])

lemma put_plan_fsm_ext [simp]: "ds_ext (fst (put_plan_fsm a s)) = ds_ext s"
  by (simp add: put_plan_fsm_def split: prod.splits)

section \<open>The diagram\<close>

definition edges_from :: "plan_state \<Rightarrow> plan_state list" where
  "edges_from st =
     (case st of
        PSIntent \<Rightarrow> [PSInit, PSDirect]
      | PSInit \<Rightarrow> [PSConfirmed, PSUpdating, PSDirect]
      | PSConfirmed \<Rightarrow> [PSConfirmed]
      | PSDoing \<Rightarrow> [PSUpdating, PSDone]
      | PSUpdating \<Rightarrow> [PSConfirmed, PSDirect]
      | st \<Rightarrow> [st])"

lemma outcome_ctl:
  assumes "state_execute cur = Some exec" "exec d s = Some (s1, nxt, e)"
  shows "fc_current (ds_ext s1) = fc_current (ds_ext s)"
    and "fc_plan (ds_ext s) \<noteq> None \<Longrightarrow> fc_plan (ds_ext s1) \<noteq> None"
    and "e = None \<Longrightarrow> cur \<in> {PSInit, PSUpdating} \<Longrightarrow> nxt = PSConfirmed \<Longrightarrow> fc_plan (ds_ext s1) \<noteq> None"
proof -
  have "fc_current (ds_ext s1) = fc_current (ds_ext s) \<and>
      (fc_plan (ds_ext s) \<noteq> None \<longrightarrow> fc_plan (ds_ext s1) \<noteq> None) \<and>
      (e = None \<and> cur \<in> {PSInit, PSUpdating} \<and> nxt = PSConfirmed \<longrightarrow> fc_plan (ds_ext s1) \<noteq> None)"
    using assms
    by (cases cur)
      (auto simp: intent_state_def direct_state_def init_state_def confirmed_state_def doing_state_def
        updating_state_def done_state_def failed_state_def rejected_state_def summary_state_def Let_def
        append_system_def ctl_def
        split: prod.splits option.splits if_splits dest!: ctl_react_action ctl_dag_action)
  then show "fc_current (ds_ext s1) = fc_current (ds_ext s)"
    and "fc_plan (ds_ext s) \<noteq> None \<Longrightarrow> fc_plan (ds_ext s1) \<noteq> None"
    and "e = None \<Longrightarrow> cur \<in> {PSInit, PSUpdating} \<Longrightarrow> nxt = PSConfirmed \<Longrightarrow> fc_plan (ds_ext s1) \<noteq> None"
    by blast+
qed

lemma outcome_edges:
  assumes "state_execute cur = Some exec" "exec d s = Some (s1, nxt, None)"
  shows "nxt \<in> set (edges_from cur) \<or>
    cur = PSConfirmed \<and> (\<exists>a. get_plan (ds_wm s1) (fc_plan_id (ds_ext s1)) = Some a \<and>
      nxt = p_state (wm_heap (ds_wm s1) a))"
  using assms
  by (cases cur)
    (auto simp: intent_state_def direct_state_def init_state_def confirmed_state_def doing_state_def
      updating_state_def done_state_def failed_state_def rejected_state_def summary_state_def Let_def
      edges_from_def live_plan_def split: prod.splits option.splits if_splits)

section \<open>The cycles of a run\<close>

text \<open>One cycle that goes on: the state's action answers, the machine is not finished, the transition is saved.\<close>

inductive fsm_step :: "'x deps \<Rightarrow> 'x fsm \<Rightarrow> 'x fsm \<Rightarrow> bool" for d where
  cycle: "state_execute (fc_current (ds_ext s)) = Some exec \<Longrightarrow> exec d s = Some (s1, nxt, None) \<Longrightarrow>
     \<not> (is_terminal nxt \<and> nxt = fc_current (ds_ext s)) \<Longrightarrow> transition d nxt s1 = (s2, None) \<Longrightarrow>
     fsm_step d s (map_ctx (\<lambda>c. c\<lparr>fc_step := fc_step c + 1\<rparr>) s2)"

inductive_cases fsm_stepE: "fsm_step d s t"

definition run_start :: "'x deps \<Rightarrow> agent_input \<Rightarrow> 'x fsm \<Rightarrow> 'x fsm" where
  "run_start d input s =
     map_ctx (\<lambda>c. c\<lparr>fc_session := append_message (build_user_message (fd_mid d) input) (fc_session c),
                        fc_current := initial_state (fd_config d), fc_prev := PSNone, fc_input := input,
                        fc_results := [], fc_plan := None, fc_plan_id := [], fc_work_mode := [],
                        fc_step := 0, fc_fails := 0\<rparr>) s"

lemma machine_run_start: "machine_run d input s = machine_loop (nat (cf_max_cycles (fd_config d))) d (run_start d input s)"
  by (simp add: machine_run_def run_start_def)

text \<open>The states that only exist with a plan.\<close>

definition with_plan :: "plan_state set" where
  "with_plan = {PSConfirmed, PSDoing, PSDone, PSFailed, PSRejected}"

definition fsm_inv :: "'x fsm \<Rightarrow> bool" where
  "fsm_inv s \<longleftrightarrow> (fc_current (ds_ext s) \<in> with_plan \<longrightarrow> fc_plan (ds_ext s) \<noteq> None)"

lemma initial_without_plan: "initial_state c \<notin> with_plan"
  by (simp add: initial_state_def with_plan_def)

lemma set_plan_state_sel [simp]: "ds_ext (set_plan_state a st s) = ds_ext s"
  by (simp add: set_plan_state_def)

lemma put_plan_fsm_ext': "put_plan_fsm a s = (s', e) \<Longrightarrow> ds_ext s' = ds_ext s"
  using put_plan_fsm_ext [of a s] by simp

lemma ctl_transition:
  assumes "transition d nxt s = (s', e)"
  shows "fc_plan (ds_ext s') = fc_plan (ds_ext s)" "fc_current (ds_ext s') = nxt"
    "fc_prev (ds_ext s') = fc_current (ds_ext s)"
  using assms
  by (auto simp: transition_def Let_def append_system_def split: option.splits prod.splits dest!: put_plan_fsm_ext')

lemma edges_plan: "nxt \<in> set (edges_from cur) \<Longrightarrow> nxt \<in> with_plan \<Longrightarrow>
    cur \<in> with_plan \<or> cur \<in> {PSInit, PSUpdating} \<and> nxt = PSConfirmed"
  by (cases cur) (auto simp: edges_from_def with_plan_def)

lemma cycle_inv:
  assumes inv: "fsm_inv s" and x: "state_execute (fc_current (ds_ext s)) = Some exec" "exec d s = Some (s1, nxt, None)"
  shows "nxt \<in> with_plan \<Longrightarrow> fc_plan (ds_ext s1) \<noteq> None"
  using outcome_edges [OF x] outcome_ctl(2,3) [OF x] inv edges_plan [of nxt "fc_current (ds_ext s)"]
  by (auto simp: fsm_inv_def with_plan_def)

interpretation fsm_sys: transition_system "\<lambda>s. \<exists>input s0. s = run_start d input s0" "fsm_step d" fsm_inv for d
proof unfold_locales
  fix s :: "'a fsm"
  assume "\<exists>input s0. s = run_start d input s0"
  then show "fsm_inv s" by (auto simp: run_start_def fsm_inv_def initial_without_plan)
next
  fix s t :: "'a fsm"
  assume inv: "fsm_inv s" and "fsm_step d s t"
  from \<open>fsm_step d s t\<close> show "fsm_inv t"
  proof cases
    case (cycle exec s1 nxt s2)
    with cycle_inv [OF inv cycle(2,3)] ctl_transition [OF cycle(5)] show ?thesis by (simp add: fsm_inv_def)
  qed
qed

section \<open>What a run guarantees\<close>

lemma put_plan_fsm_saved:
  assumes "put_plan_fsm a (set_plan_state a st s) = (s', None)"
  shows "p_state (live_plan s' a) = st" "map_of (wm_files (ds_wm s')) (p_id (live_plan s' a)) = Some (live_plan s' a)"
    "get_plan (ds_wm s') (p_id (live_plan s' a)) = Some a"
proof -
  obtain w where w: "save_checkpoint (Some a) [] (ds_wm (set_plan_state a st s)) = (w, None)" "s' = (set_plan_state a st s)\<lparr>ds_wm := w\<rparr>"
    using assms by (auto simp: put_plan_fsm_def put_plan_def put_plan_with_reason_def split: prod.splits)
  note mem = save_checkpoint_memory [OF w(1)]
  have h: "live_plan s' a = (live_plan s a)\<lparr>p_state := st, p_version := p_version (live_plan s a) + 1\<rparr>"
    using mem(1) by (simp add: live_plan_def w(2) set_plan_state_def)
  show "p_state (live_plan s' a) = st" using h by simp
  show "map_of (wm_files (ds_wm s')) (p_id (live_plan s' a)) = Some (live_plan s' a)"
    using save_checkpoint_files(2) [OF w(1) refl] mem(1) by (simp add: live_plan_def w(2) set_plan_state_def)
  show "get_plan (ds_wm s') (p_id (live_plan s' a)) = Some a"
    using mem(2) by (simp only: h) (simp add: w(2) get_plan_def live_plan_def set_plan_state_def update_conv')
qed

lemma transition_saved:
  assumes "transition d nxt s = (s', None)" and "fc_plan (ds_ext s) = Some a"
  shows "p_state (live_plan s' a) = nxt" "map_of (wm_files (ds_wm s')) (p_id (live_plan s' a)) = Some (live_plan s' a)"
proof -
  obtain s2 where p: "put_plan_fsm a (set_plan_state a nxt (map_ctx (\<lambda>c. c\<lparr>fc_prev := fc_current c, fc_current := nxt\<rparr>) s)) = (s2, None)"
    and w: "ds_wm s' = ds_wm s2"
    using assms by (auto simp: transition_def Let_def append_system_def split: prod.splits option.splits)
  from put_plan_fsm_saved [OF p] show "p_state (live_plan s' a) = nxt"
      "map_of (wm_files (ds_wm s')) (p_id (live_plan s' a)) = Some (live_plan s' a)"
    by (simp_all add: live_plan_def w)
qed

text \<open>What is true of the state a run ends in without an error.\<close>

definition finished_ok :: "'x fsm \<Rightarrow> bool" where
  "finished_ok s \<longleftrightarrow> is_terminal (fc_current (ds_ext s)) \<and>
     (\<forall>a. fc_plan (ds_ext s) = Some a \<longrightarrow>
        p_state (live_plan s a) = fc_current (ds_ext s) \<and>
        load_plan_json (p_id (live_plan s a)) (ds_wm s) = Inr (live_plan s a))"

lemma machine_loop_finished: "machine_loop n d s = Some (s', None) \<Longrightarrow> finished_ok s'"
proof (induction n arbitrary: s)
  case (Suc n)
  let ?cur = "fc_current (ds_ext s)"
  from Suc.prems obtain exec s1 nxt where x: "state_execute ?cur = Some exec" "exec d s = Some (s1, nxt, None)"
    by (auto simp: Let_def split: option.splits)
  have cur: "fc_current (ds_ext s1) = ?cur" by (rule outcome_ctl(1) [OF x])
  show ?case
  proof (cases "is_terminal nxt \<and> nxt = ?cur")
    case True
    then have fin: "is_terminal ?cur" "nxt = ?cur" by auto
    show ?thesis
    proof (cases "fc_plan (ds_ext s1)")
      case None
      with Suc.prems x fin have "s' = s1" by (simp add: Let_def)
      with fin cur None show ?thesis by (simp add: finished_ok_def)
    next
      case (Some a)
      with Suc.prems x fin have "put_plan_fsm a (set_plan_state a nxt s1) = (s', None)" by (simp add: Let_def)
      with put_plan_fsm_saved [OF this] put_plan_fsm_ext' [OF this] fin cur Some show ?thesis
        by (simp add: finished_ok_def load_plan_json_def of_opt_def)
    qed
  next
    case False
    with Suc.prems x obtain s2 where "machine_loop n d (map_ctx (\<lambda>c. c\<lparr>fc_step := fc_step c + 1\<rparr>) s2) = Some (s', None)"
      by (auto simp: Let_def split: prod.splits option.splits)
    then show ?thesis by (rule Suc.IH)
  qed
qed (auto split: option.splits prod.splits)

lemma doing_only_blocks:
  assumes "fsm_inv s" and "state_execute (fc_current (ds_ext s)) = Some exec" and "exec d s = None"
  shows "\<exists>a. fc_plan (ds_ext s) = Some a \<and> fc_current (ds_ext s) = PSDoing \<and> dag_action d a s = None"
  using assms
  by (cases "fc_current (ds_ext s)")
    (auto simp: intent_state_def direct_state_def init_state_def confirmed_state_def doing_state_def
      updating_state_def done_state_def failed_state_def rejected_state_def summary_state_def Let_def
      fsm_inv_def with_plan_def split: prod.splits option.splits if_splits)

lemma machine_loop_returns:
  fixes s :: "'x fsm"
  shows "fsm_inv s \<Longrightarrow> (\<exists>a s'. (fsm_step d)\<^sup>*\<^sup>* s s' \<and> fc_plan (ds_ext s') = Some a \<and>
       fc_current (ds_ext s') = PSDoing \<and> dag_action d a s' = None) \<or>
     (\<exists>s' e. machine_loop n d s = Some (s', e))"
proof (induction n arbitrary: s)
  case 0
  then show ?case by (auto split: option.splits prod.splits)
next
  case (Suc n)
  show ?case
  proof (cases "state_execute (fc_current (ds_ext s)) :: ('x deps \<Rightarrow> 'x fsm \<Rightarrow> 'x outcome) option")
    case None
    then show ?thesis by (simp add: Let_def)
  next
    case (Some exec)
    show ?thesis
    proof (cases "exec d s")
      case None
      then show ?thesis using doing_only_blocks [OF Suc.prems Some] by blast
    next
      case out: (Some out)
      obtain s1 nxt e where o1: "out = (s1, nxt, e)" by (rule prod_cases3)
      obtain s2 e2 where t: "transition d nxt s1 = (s2, e2)" by (rule prod.exhaust)
      have "\<exists>s' e. machine_loop (Suc n) d s = Some (s', e)"
        if "e \<noteq> None \<or> is_terminal nxt \<and> nxt = fc_current (ds_ext s) \<or> e2 \<noteq> None"
        using that Some out o1 t by (auto simp: Let_def split: option.splits)
      moreover have ?thesis if "e = None" "\<not> (is_terminal nxt \<and> nxt = fc_current (ds_ext s))" "e2 = None"
      proof -
        let ?t = "map_ctx (\<lambda>c. c\<lparr>fc_step := fc_step c + 1\<rparr>) s2"
        have st: "fsm_step d s ?t" using fsm_step.cycle [OF Some] out o1 t that by simp
        have "machine_loop (Suc n) d s = machine_loop n d ?t"
          using Some out o1 t that(1,3) by (simp only: machine_loop.simps Let_def that(2) if_False option.case prod.case)
        with Suc.IH [OF fsm_sys.step_inv [OF Suc.prems st]] show ?thesis
          by (elim disjE exE conjE) (use converse_rtranclp_into_rtranclp [of "fsm_step d", OF st] in blast, auto)
      qed
      ultimately show ?thesis by blast
    qed
  qed
qed

lemma dag_action_returns:
  assumes "local_env False (fsm_dag_env d)" and "plan_found (ds_wm s) a" and "length (p_tasks (live_plan s a)) < fd_fuel d"
  shows "dag_action d a s \<noteq> None"
proof -
  have "pending (ds_wm s) a \<le> card {..<length (p_tasks (live_plan s a))}"
    unfolding pending_def live_plan_def by (rule card_mono) auto
  with assms batch_loop_returns [of "s\<lparr>ds_child_done := False, ds_cancel := True\<rparr>" a "fsm_dag_env d" "fd_fuel d" False]
  show ?thesis by (simp add: dag_action_def execute_batch_def)
qed

text \<open>The cycles of a machine are determined, so a finite run can be followed by evaluation.\<close>

definition next_cycle :: "'x deps \<Rightarrow> 'x fsm \<Rightarrow> 'x fsm option" where
  "next_cycle d s =
     (case state_execute (fc_current (ds_ext s)) of
        None \<Rightarrow> None
      | Some exec \<Rightarrow>
          (case exec d s of
             Some (s1, nxt, None) \<Rightarrow>
               if is_terminal nxt \<and> nxt = fc_current (ds_ext s) then None
               else (case transition d nxt s1 of
                       (s2, None) \<Rightarrow> Some (map_ctx (\<lambda>c. c\<lparr>fc_step := fc_step c + 1\<rparr>) s2)
                     | _ \<Rightarrow> None)
           | _ \<Rightarrow> None))"

lemma fsm_step_next: "fsm_step d s t \<Longrightarrow> next_cycle d s = Some t"
  by (elim fsm_stepE) (auto simp: next_cycle_def)

fun along :: "('x fsm \<Rightarrow> bool) \<Rightarrow> nat \<Rightarrow> 'x deps \<Rightarrow> 'x fsm \<Rightarrow> bool" where
  "along P 0 d s = False"
| "along P (Suc n) d s \<longleftrightarrow> P s \<and> (case next_cycle d s of None \<Rightarrow> True | Some t \<Rightarrow> along P n d t)"

lemma along_reachable:
  assumes "along P n d s" and "(fsm_step d)\<^sup>*\<^sup>* s t" shows "P t"
  using assms(2,1)
proof (induction arbitrary: n rule: converse_rtranclp_induct)
  case base
  then show ?case by (cases n) simp_all
next
  case (step s u)
  then show ?case using fsm_step_next [OF step(1)] by (cases n) auto
qed

definition registered :: "wm \<Rightarrow> paddr \<Rightarrow> bool" where
  "registered s a \<longleftrightarrow> get_plan s (p_id (wm_heap s a)) = Some a \<and>
     list_all (\<lambda>k. find_task s (t_id (p_tasks (wm_heap s a) ! k)) = Some (a, k)) [0..<length (p_tasks (wm_heap s a))]"

lemma registered_found: "registered s a = plan_found s a"
  by (auto simp: registered_def plan_found_def list_all_iff)

subsection \<open>A machine with scripted answers\<close>

text \<open>
  The external state is a script: each ReAct call takes its head, applies the effect on working memory
  that the tools it called had, and returns its messages.
\<close>

type_synonym script = "((wm \<Rightarrow> wm) \<times> message list) list"

definition scripted_react :: "message \<Rightarrow> message list \<Rightarrow> string list option \<Rightarrow> script world \<Rightarrow>
    script world \<times> message list \<times> err option" where
  "scripted_react sys hist tools w =
     (case w_x w of
        [] \<Rightarrow> (w, [], None)
      | (f, ms) # rest \<Rightarrow> (w\<lparr>w_wm := f (w_wm w), w_x := rest\<rparr>, ms, None))"

definition tool_answer :: "string \<Rightarrow> string \<Rightarrow> string \<Rightarrow> message" where
  "tool_answer tool k v = new_tool_message ''m'' [\<lparr>tcr_id = ''c'', tcr_name = tool, tcr_outputs = [(k, VStr v)]\<rparr>]"

definition created :: "(wm \<Rightarrow> wm) \<times> message list" where
  "created = (\<lambda>w. w, [tool_answer ''plan_create'' ''id'' ''p''])"

definition approved :: "(wm \<Rightarrow> wm) \<times> message list" where
  "approved = (upd_plan 0 (\<lambda>p. p\<lparr>p_state := PSDoing\<rparr>), [tool_answer ''confirm_plan'' ''decision'' ''approve''])"

definition silent :: "(wm \<Rightarrow> wm) \<times> message list" where
  "silent = (\<lambda>w. w, [])"

definition demo_deps :: "script deps" where
  "demo_deps =
     \<lparr>fd_react = scripted_react, fd_worker = (\<lambda>goal action w. (w, goal, None, if goal = ''bad'' then Some (ErrOther ''e'') else None)),
      fd_on_updated = None, fd_reviewer = None, fd_summarize = (\<lambda>_ _ x. (x, [], None, None)),
      fd_hooks = (\<lambda>_. no_hooks), fd_identity = AgentMain, fd_render_confirm = (\<lambda>_. Inr []), fd_render_status = (\<lambda>_. Inr []),
      fd_planner_prompt = (\<lambda>_. []), fd_agent_context = [], fd_custom_tools = [],
      fd_order = (\<lambda>p. map t_id (p_tasks p)), fd_sched = (\<lambda>_. []), fd_fuel = 5, fd_mid = ''m'',
      fd_config = \<lparr>cf_max_cycles = 20, cf_compress_max_attempts = 2, cf_keep_last_n = 6,
        cf_min_messages_to_compress = 10, cf_review_interval = 1, cf_max_failures_before_review = 0,
        cf_force_mode = ''plan''\<rparr>\<rparr>"

definition demo_fsm :: "task list \<Rightarrow> script \<Rightarrow> script fsm" where
  "demo_fsm ts sc =
     \<lparr>ds_wm = empty_wm\<lparr>wm_heap := (\<lambda>_. demo_plan ts), wm_next := 1, wm_store := [(''p'', 0)]\<rparr>,
      ds_parent_done = False, ds_child_done = False, ds_cancel = False, ds_hitl = [], ds_paused = 0,
      ds_ext = \<lparr>fc_session = new_session ''s'', fc_current = PSNone, fc_prev = PSNone,
        fc_input = \<lparr>ai_text = ''hi'', ai_media = []\<rparr>, fc_results = [], fc_plan = None, fc_plan_id = [],
        fc_work_mode = [], fc_step = 0, fc_fails = 0, fc_x = sc\<rparr>\<rparr>"

text \<open>A reviewer that always sees a drift, and the state in which the plan is being executed.\<close>

definition drift_deps :: "script deps" where
  "drift_deps = demo_deps\<lparr>fd_reviewer := Some (\<lambda>_ _ _ w.
     (w, \<lparr>rv_drift = True, rv_reason = [], rv_suggestion = [], rv_usage = None\<rparr>))\<rparr>"

definition demo_doing :: "task list \<Rightarrow> script fsm" where
  "demo_doing ts = map_ctx (\<lambda>c. c\<lparr>fc_plan := Some 0, fc_plan_id := ''p'', fc_current := PSDoing\<rparr>) (demo_fsm ts [])"

definition bad_task :: "string \<Rightarrow> task" where
  "bad_task i = (demo_task i [] TaskStatusPending)\<lparr>t_goal := ''bad''\<rparr>"

definition demo_input :: agent_input where
  "demo_input = \<lparr>ai_text = ''hi'', ai_media = []\<rparr>"

subsection \<open>The properties\<close>

text \<open>C20. A run that returns no error ended in a terminal state, and if it had a plan, that state is the
  plan's, in memory and in the plan file: a restart sees the outcome the caller saw.\<close>

theorem finished_run_is_saved:
  assumes "machine_run d input s = Some (s', None)"
  shows "is_terminal (fc_current (ds_ext s')) \<and>
     (case fc_plan (ds_ext s') of
        None \<Rightarrow> True
      | Some a \<Rightarrow> p_state (live_plan s' a) = fc_current (ds_ext s') \<and>
          load_plan_json (p_id (live_plan s' a)) (ds_wm s') = Inr (live_plan s' a))"
  using machine_loop_finished [OF assms [unfolded machine_run_start]]
  by (auto simp: finished_ok_def split: option.splits)

theorem finished_run_is_saved_witness:
  "\<exists>s'. machine_run demo_deps demo_input (demo_fsm [demo_task ''a'' [] TaskStatusPending] [created, approved, silent])
      = Some (s', None) \<and> is_terminal (fc_current (ds_ext s'))"
proof -
  let ?r = "machine_run demo_deps demo_input
    (demo_fsm [demo_task ''a'' [] TaskStatusPending] [created, approved, silent])"
  have "case ?r of Some (s', None) \<Rightarrow> True | _ \<Rightarrow> False" by code_simp
  then obtain s' where "?r = Some (s', None)" by (auto split: option.splits prod.splits)
  with finished_run_is_saved [OF this] show ?thesis by blast
qed

text \<open>C21. \<open>Run\<close> returns, within its bound on cycles, whatever the model, the user and the interleavings of
  the workers do, as long as the plans it executes are registered, workers leave working memory
  alone, and the bound on batches exceeds the number of tasks.\<close>

theorem machine_run_returns:
  assumes "local_env False (fsm_dag_env d)"
    and "\<forall>s' a. (fsm_step d)\<^sup>*\<^sup>* (run_start d input s) s' \<longrightarrow> fc_current (ds_ext s') = PSDoing \<longrightarrow>
      fc_plan (ds_ext s') = Some a \<longrightarrow> plan_found (ds_wm s') a \<and> length (p_tasks (live_plan s' a)) < fd_fuel d"
  shows "\<exists>s' e. machine_run d input s = Some (s', e)"
proof -
  have "dag_action d a s' \<noteq> None"
    if "(fsm_step d)\<^sup>*\<^sup>* (run_start d input s) s'" "fc_current (ds_ext s') = PSDoing" "fc_plan (ds_ext s') = Some a" for s' a
    using assms that dag_action_returns by blast
  moreover have "fsm_inv (run_start d input s)" by (rule fsm_sys.init_inv) blast
  ultimately show ?thesis using machine_loop_returns unfolding machine_run_start by blast
qed

theorem machine_run_returns_witness:
  "\<exists>s' e. machine_run demo_deps demo_input (demo_fsm [demo_task ''a'' [] TaskStatusPending] [created, approved, silent])
     = Some (s', e)"
proof (rule machine_run_returns)
  show "local_env False (fsm_dag_env demo_deps)"
    by (simp add: local_env_def fsm_dag_env_def demo_deps_def put_world_def world_of_def split: prod.splits)
  let ?s = "run_start demo_deps demo_input (demo_fsm [demo_task ''a'' [] TaskStatusPending] [created, approved, silent])"
  have "along (\<lambda>s'. fc_current (ds_ext s') = PSDoing \<longrightarrow> (case fc_plan (ds_ext s') of None \<Rightarrow> True | Some a \<Rightarrow>
      registered (ds_wm s') a \<and> length (p_tasks (live_plan s' a)) < fd_fuel demo_deps)) 5 demo_deps ?s"
    by code_simp
  from along_reachable [OF this]
  show "\<forall>s' a. (fsm_step demo_deps)\<^sup>*\<^sup>* ?s s' \<longrightarrow> fc_current (ds_ext s') = PSDoing \<longrightarrow>
      fc_plan (ds_ext s') = Some a \<longrightarrow> plan_found (ds_wm s') a \<and> length (p_tasks (live_plan s' a)) < fd_fuel demo_deps"
    by (fastforce simp: registered_found)
qed



text \<open>\<open>Doing\<close> looks only at \<open>HasFailed\<close>: when its task has failed and the plan is approved again
  without a repair, nothing is ready, no failure is reported, and the run ends without an error in \<open>Done\<close>,
  with the plan saved as done and its only task failed.\<close>

theorem failed_plan_ends_done:
  "(case machine_run demo_deps demo_input (demo_fsm [bad_task ''a''] [created, approved, silent, approved, silent]) of
      Some (s', e) \<Rightarrow> e = None \<and> fc_current (ds_ext s') = PSDone \<and>
        p_state (live_plan s' 0) = PSDone \<and> map t_status (p_tasks (live_plan s' 0)) = [TaskStatusFailed]
    | None \<Rightarrow> False)"
  by code_simp

text \<open>Drift rollback takes the plan back one version: name, tasks and active task are those of the
  checkpoint before the current one, the state is \<open>update\<close> with the reason recorded, the version counter and
  every other plan stay as they are, and the running batch is cancelled.\<close>

theorem drift_rollback_restores:
  assumes "fc_plan (ds_ext s) = Some a" and "p_version (live_plan s a) > 1"
    and "load_checkpoint_json (p_id (live_plan s a)) (p_version (live_plan s a) - 1) (ds_wm s) = Inr cp"
  shows "live_plan (handle_drift d reason s) a = (live_plan s a)\<lparr>p_name := p_name (cp_plan cp),
       p_tasks := p_tasks (cp_plan cp), p_active := p_active (cp_plan cp), p_state := PSUpdating,
       p_reason := ''drift: '' @ reason\<rparr> \<and>
     (\<forall>b. b \<noteq> a \<longrightarrow> live_plan (handle_drift d reason s) b = live_plan s b) \<and>
     (ds_cancel s \<longrightarrow> ctx_done (handle_drift d reason s)) \<and>
     load_checkpoint_json pid v (ds_wm (handle_drift d reason s)) = load_checkpoint_json pid v (ds_wm s)"
proof -
  obtain f where h: "handle_drift d reason s = map_ctx (\<lambda>c. c\<lparr>fc_x := f (fc_session c) (fc_x c)\<rparr>)
      (drift_restore d reason a (p_version (live_plan s a) - 1) (cp_plan cp) s)"
    by (rule handle_drift_Some [OF assms])
  show ?thesis unfolding h
    by (auto simp: drift_restore_sel live_plan_def load_checkpoint_get get_cp_def ctx_done_def)
qed

theorem drift_rollback_restores_witness:
  "\<exists>s cp. load_checkpoint_json ''p'' 1 (ds_wm s) = Inr cp \<and>
     p_tasks (live_plan (handle_drift drift_deps ''r'' s) 0) = p_tasks (cp_plan cp)"
proof -
  define s where "s = (let s0 = demo_doing [bad_task ''a'']; p = live_plan s0 0
    in map_wm (put_cp (''p'', 1) \<lparr>cp_version = 1, cp_reason = [], cp_plan = p\<rparr>)
         (map_wm (upd_plan 0 (\<lambda>p. p\<lparr>p_version := 2, p_tasks := []\<rparr>)) s0))"
  have f: "fc_plan (ds_ext s) = Some 0" "p_version (live_plan s 0) = 2" "p_id (live_plan s 0) = ''p''"
    unfolding s_def by code_simp+
  have "case load_checkpoint_json ''p'' 1 (ds_wm s) of Inl _ \<Rightarrow> False | Inr _ \<Rightarrow> True"
    unfolding s_def by code_simp
  then obtain cp where cp: "load_checkpoint_json ''p'' 1 (ds_wm s) = Inr cp" by (auto split: sum.splits)
  have "p_tasks (live_plan (handle_drift drift_deps ''r'' s) 0) = p_tasks (cp_plan cp)"
    using drift_rollback_restores [of s 0 cp drift_deps "''r''"] f cp by simp
  with cp show ?thesis by blast
qed

text \<open>The version before the current one can be a save of the running batch: here the tasks of a batch
  are rolled back to the checkpoint made when they were marked, so both are left \<open>doing\<close> although the batch is
  over; the next execution finds nothing ready and reports no failure.\<close>

theorem drift_rollback_leaves_doing:
  "(case dag_action drift_deps 0 (demo_doing [demo_task ''a'' [] TaskStatusPending, bad_task ''b'']) of
      None \<Rightarrow> False
    | Some (s', r) \<Rightarrow> br_has_failed r \<and> map t_status (p_tasks (live_plan s' 0)) = [TaskStatusDoing, TaskStatusDoing] \<and>
        (case dag_action drift_deps 0 s' of
           None \<Rightarrow> False
         | Some (s'', r') \<Rightarrow> \<not> br_has_failed r' \<and> \<not> br_all_done r' \<and>
             map t_status (p_tasks (live_plan s'' 0)) = [TaskStatusDoing, TaskStatusDoing]))"
  by code_simp

end
