(* ===== verification/Graph.thy ===== *)
theory Graph
  imports Json
begin

text \<open>
  The knowledge graph of long-term memory (memory/longterm/graph.go): entities, relationships with their
  two adjacency maps, upserts, the JSONL image, search, shortest paths and subgraphs.

  A \<open>*Relationship\<close> is its index in \<open>gr_rels\<close>, which only grows, so the slice and the adjacency maps
  share one relationship as the pointers do.  Go iterates over the map of entities in any order: the
  argument \<open>ids\<close> of an operation is the order it sees.  \<open>ef\<close> and \<open>lower\<close> are Go's \<open>strings.EqualFold\<close> and
  \<open>strings.ToLower\<close>, which depend on the Unicode tables; no theorem needs anything of them.  The
  random part of a new id is an argument.  Weights are rationals.
\<close>

section \<open>State\<close>

record entity =
  en_id :: string
  en_name :: string
  en_type :: string
  en_labels :: "string list"

record relationship =
  rl_id :: string
  rl_from :: string
  rl_to :: string
  rl_type :: string
  rl_weight :: rat

record entity_candidate =
  ec_name :: string
  ec_type :: string
  ec_labels :: "string list"

record rel_candidate =
  rc_from :: string
  rc_to :: string
  rc_type :: string
  rc_weight :: rat

record graph =
  gr_entities :: "(string \<times> entity) list"
  gr_rels :: "relationship list"
  gr_out :: "(string \<times> nat list) list"
  gr_in :: "(string \<times> nat list) list"

definition new_graph :: graph where
  "new_graph = \<lparr>gr_entities = [], gr_rels = [], gr_out = [], gr_in = []\<rparr>"

definition get_entity :: "graph \<Rightarrow> string \<Rightarrow> entity option" where
  "get_entity g i = map_of (gr_entities g) i"

definition put_entity :: "string \<Rightarrow> entity \<Rightarrow> graph \<Rightarrow> graph" where
  "put_entity i e g = g\<lparr>gr_entities := AList.update i e (gr_entities g)\<rparr>"

text \<open>Reading a key of an adjacency map, and appending to its slice.\<close>

definition adj :: "(string \<times> nat list) list \<Rightarrow> string \<Rightarrow> nat list" where
  "adj m i = (case map_of m i of None \<Rightarrow> [] | Some ks \<Rightarrow> ks)"

definition adj_append :: "string \<Rightarrow> nat \<Rightarrow> (string \<times> nat list) list \<Rightarrow> (string \<times> nat list) list" where
  "adj_append i k m = AList.update i (adj m i @ [k]) m"

definition insert_rel :: "relationship \<Rightarrow> graph \<Rightarrow> graph" where
  "insert_rel r g =
     (let k = length (gr_rels g) in
      g\<lparr>gr_rels := gr_rels g @ [r], gr_out := adj_append (rl_from r) k (gr_out g),
        gr_in := adj_append (rl_to r) k (gr_in g)\<rparr>)"

section \<open>Updates\<close>

text \<open>The merged labels are a set in Go, listed in any order; here in order of first occurrence.\<close>

definition find_entity :: "(entity \<Rightarrow> bool) \<Rightarrow> string list \<Rightarrow> graph \<Rightarrow> (string \<times> entity) option" where
  "find_entity P ids g =
     first_some (\<lambda>i. case get_entity g i of None \<Rightarrow> None | Some x \<Rightarrow> if P x then Some (i, x) else None) ids"

definition upsert_entity :: "(string \<Rightarrow> string \<Rightarrow> bool) \<Rightarrow> string list \<Rightarrow> string \<Rightarrow> entity_candidate \<Rightarrow> graph \<Rightarrow>
    graph \<times> entity" where
  "upsert_entity ef ids sid c g =
     (case find_entity (\<lambda>x. ef (en_name x) (ec_name c) \<and> ef (en_type x) (ec_type c)) ids g of
        Some (i, x) \<Rightarrow>
          (let x' = x\<lparr>en_labels := remdups (en_labels x @ ec_labels c)\<rparr> in (put_entity i x' g, x'))
      | None \<Rightarrow>
          (let x = \<lparr>en_id = ''ent:'' @ sid, en_name = ec_name c, en_type = ec_type c, en_labels = ec_labels c\<rparr>
           in (put_entity (en_id x) x g, x)))"

definition resolve_name :: "(string \<Rightarrow> string \<Rightarrow> bool) \<Rightarrow> string list \<Rightarrow> graph \<Rightarrow> string \<Rightarrow> string" where
  "resolve_name ef ids g name =
     (case find_entity (\<lambda>x. ef (en_name x) name) ids g of None \<Rightarrow> [] | Some (i, _) \<Rightarrow> i)"

text \<open>The two names are resolved by two iterations, each with an order of its own.\<close>

definition add_relationship :: "(string \<Rightarrow> string \<Rightarrow> bool) \<Rightarrow> string list \<Rightarrow> string list \<Rightarrow> string \<Rightarrow>
    rel_candidate \<Rightarrow> graph \<Rightarrow> graph" where
  "add_relationship ef ids ids' sid c g =
     (let from_id = resolve_name ef ids g (rc_from c); to_id = resolve_name ef ids' g (rc_to c) in
      if from_id = [] \<or> to_id = [] then g
      else (case find_idx (\<lambda>r. rl_from r = from_id \<and> rl_to r = to_id \<and> rl_type r = rc_type c) (gr_rels g) of
              Some k \<Rightarrow>
                if rc_weight c > rl_weight (gr_rels g ! k)
                then g\<lparr>gr_rels := (gr_rels g)[k := (gr_rels g ! k)\<lparr>rl_weight := rc_weight c\<rparr>]\<rparr> else g
            | None \<Rightarrow>
                insert_rel \<lparr>rl_id = ''rel:'' @ sid, rl_from = from_id, rl_to = to_id, rl_type = rc_type c,
                  rl_weight = rc_weight c\<rparr> g))"

section \<open>The JSONL image\<close>

definition entity_event :: "entity \<Rightarrow> json" where
  "entity_event e =
     JObj [(''type'', JStr ''entity''), (''id'', JStr (en_id e)), (''name'', JStr (en_name e)),
           (''type_'', JStr (en_type e)), (''labels'', JArr (map JStr (en_labels e)))]"

definition rel_event :: "relationship \<Rightarrow> json" where
  "rel_event r =
     JObj [(''type'', JStr ''relationship''), (''id'', JStr (rl_id r)), (''from'', JStr (rl_from r)),
           (''to'', JStr (rl_to r)), (''type_'', JStr (rl_type r)), (''weight'', JNum (rl_weight r))]"

text \<open>\<open>persist\<close>: the lines of the file, in order.\<close>

definition graph_lines :: "string list \<Rightarrow> graph \<Rightarrow> json list" where
  "graph_lines ids g =
     concat (map (\<lambda>i. case get_entity g i of None \<Rightarrow> [] | Some e \<Rightarrow> [entity_event e]) ids)
       @ map rel_event (gr_rels g)"

text \<open>The batch of one extraction; \<open>ord\<close> gives the order of each iteration, and the lines are what is written.\<close>

definition upsert_relationships :: "(string \<Rightarrow> string \<Rightarrow> bool) \<Rightarrow> (graph \<Rightarrow> string list) \<Rightarrow>
    (string \<times> entity_candidate) list \<Rightarrow> (string \<times> rel_candidate) list \<Rightarrow> graph \<Rightarrow> graph \<times> json list" where
  "upsert_relationships ef ord es rs g =
     (let g1 = fold (\<lambda>(sid, c) g. fst (upsert_entity ef (ord g) sid c g)) es g;
          g2 = fold (\<lambda>(sid, c) g. add_relationship ef (ord g) (ord g) sid c g) rs g1
      in (g2, graph_lines (ord g2) g2))"

fun dec_num :: "json option \<Rightarrow> err + rat" where
  "dec_num None = Inr 0"
| "dec_num (Some JNull) = Inr 0"
| "dec_num (Some (JNum r)) = Inr r"
| "dec_num (Some _) = Inl json_err"

record graph_evt =
  ge_type :: string
  ge_id :: string
  ge_name :: string
  ge_type2 :: string
  ge_labels :: "string list"
  ge_from :: string
  ge_to :: string
  ge_weight :: rat

definition dec_evt :: "json \<Rightarrow> err + graph_evt" where
  "dec_evt j =
     bindr (dec_obj j) (\<lambda>ob.
     bindr (dec_str (ob ''type'')) (\<lambda>t.
     bindr (dec_str (ob ''id'')) (\<lambda>i.
     bindr (dec_str (ob ''name'')) (\<lambda>n.
     bindr (dec_str (ob ''type_'')) (\<lambda>t2.
     bindr (dec_arr (ob ''labels'')) (\<lambda>js.
     bindr (traverse (\<lambda>j. dec_str (Some j)) js) (\<lambda>ls.
     bindr (dec_str (ob ''from'')) (\<lambda>f.
     bindr (dec_str (ob ''to'')) (\<lambda>t'.
     bindr (dec_num (ob ''weight'')) (\<lambda>w.
       Inr \<lparr>ge_type = t, ge_id = i, ge_name = n, ge_type2 = t2, ge_labels = ls, ge_from = f, ge_to = t',
            ge_weight = w\<rparr>))))))))))"

text \<open>One line of \<open>Load\<close>; \<open>None\<close> is a line that is not JSON.\<close>

definition load_line :: "json option \<Rightarrow> graph \<Rightarrow> graph" where
  "load_line l g =
     (case l of
        None \<Rightarrow> g
      | Some j \<Rightarrow>
          (case dec_evt j of
             Inl _ \<Rightarrow> g
           | Inr e \<Rightarrow>
               if ge_type e = ''entity'' then
                 put_entity (ge_id e) \<lparr>en_id = ge_id e, en_name = ge_name e, en_type = ge_type2 e,
                   en_labels = ge_labels e\<rparr> g
               else if ge_type e = ''relationship'' then
                 insert_rel \<lparr>rl_id = ge_id e, rl_from = ge_from e, rl_to = ge_to e, rl_type = ge_type2 e,
                   rl_weight = ge_weight e\<rparr> g
               else g))"

definition load_graph :: "json option list \<Rightarrow> graph \<Rightarrow> graph" where
  "load_graph ls g = fold load_line ls g"

section \<open>Queries\<close>

fun search_from :: "(string \<Rightarrow> string) \<Rightarrow> string \<Rightarrow> int \<Rightarrow> entity list \<Rightarrow> entity list \<Rightarrow> entity list" where
  "search_from lower q limit [] result = result"
| "search_from lower q limit (e # es) result =
     (let hit = go_contains (lower (en_name e)) q \<or> go_contains (lower (en_type e)) q \<or>
                list_ex (\<lambda>l. go_contains (lower l) q) (en_labels e);
          result' = (if hit then result @ [e] else result)
      in if int (length result') \<ge> limit then result' else search_from lower q limit es result')"

definition all_entities :: "string list \<Rightarrow> graph \<Rightarrow> entity list" where
  "all_entities ids g = concat (map (\<lambda>i. case get_entity g i of None \<Rightarrow> [] | Some e \<Rightarrow> [e]) ids)"

definition search_entities :: "(string \<Rightarrow> string) \<Rightarrow> string list \<Rightarrow> string \<Rightarrow> int \<Rightarrow> graph \<Rightarrow> entity list" where
  "search_entities lower ids query limit g = search_from lower (lower query) limit (all_entities ids g) []"

definition graph_stats :: "graph \<Rightarrow> nat \<times> nat" where
  "graph_stats g = (length (gr_entities g), length (gr_rels g))"

text \<open>
  \<open>Neighbors\<close>: the relationships out and in, and the entities at their other end, each once; \<open>seen\<close>
  holds their ids.
\<close>

fun collect :: "graph \<Rightarrow> string list \<Rightarrow> entity list \<Rightarrow> entity list" where
  "collect g [] es = es"
| "collect g (i # is) es =
     (case get_entity g i of
        None \<Rightarrow> collect g is es
      | Some e \<Rightarrow> if en_id e \<in> en_id ` set es then collect g is es else collect g is (es @ [e]))"

definition neighbors :: "graph \<Rightarrow> string \<Rightarrow> entity list \<times> relationship list" where
  "neighbors g i =
     (let outs = map (\<lambda>k. gr_rels g ! k) (adj (gr_out g) i); ins = map (\<lambda>k. gr_rels g ! k) (adj (gr_in g) i)
      in (collect g (map rl_to outs @ map rl_from ins) [], outs @ ins))"

text \<open>The edges a search follows from an entity, in its order: outgoing, then incoming with the reverse mark.\<close>

definition steps :: "graph \<Rightarrow> string \<Rightarrow> (string \<times> string) list" where
  "steps g i =
     map (\<lambda>k. (rl_type (gr_rels g ! k), rl_to (gr_rels g ! k))) (adj (gr_out g) i) @
     map (\<lambda>k. (''<'' @ rl_type (gr_rels g ! k), rl_from (gr_rels g ! k))) (adj (gr_in g) i)"

text \<open>The two loops over the edges of \<open>current\<close>: the answer, or the sets of visited and of queued nodes.\<close>

fun scan :: "string \<Rightarrow> string list \<Rightarrow> (string \<times> string) list \<Rightarrow> string set \<Rightarrow> (string \<times> string list) list \<Rightarrow>
    string list option \<times> string set \<times> (string \<times> string list) list" where
  "scan target path [] vis q = (None, vis, q)"
| "scan target path ((l, w) # es) vis q =
     (if w \<in> vis then scan target path es vis q
      else if w = target then (Some (path @ [l, w]), vis, q)
      else scan target path es (insert w vis) (q @ [(w, path @ [l, w])]))"

text \<open>Every step leads to one of finitely many nodes, so the search ends.\<close>

definition nodes :: "graph \<Rightarrow> string set" where
  "nodes g = (\<lambda>k. rl_to (gr_rels g ! k)) ` (\<Union>(_, ks) \<in> set (gr_out g). set ks) \<union>
             (\<lambda>k. rl_from (gr_rels g ! k)) ` (\<Union>(_, ks) \<in> set (gr_in g). set ks)"

lemma finite_nodes [simp]: "finite (nodes g)"
  by (auto simp: nodes_def)

lemma adj_in: "k \<in> set (adj m i) \<Longrightarrow> \<exists>ks. (i, ks) \<in> set m \<and> k \<in> set ks"
  by (cases "map_of m i") (auto simp: adj_def dest: map_of_SomeD)

lemma steps_nodes: "snd ` set (steps g i) \<subseteq> nodes g"
  by (auto simp: steps_def nodes_def dest!: adj_in)

lemma card_visit: "finite N \<Longrightarrow> w \<in> N \<Longrightarrow> w \<notin> vis \<Longrightarrow> Suc (card (N - insert w vis)) = card (N - vis)"
  by (metis DiffI Diff_insert card_Suc_Diff1 finite_Diff)

lemma scan_measure:
  assumes "finite N"
  shows "scan target path es vis q = (r, vis', q') \<Longrightarrow> snd ` set es \<subseteq> N \<Longrightarrow>
    card (N - vis') + length q' \<le> card (N - vis) + length q"
proof (induction es arbitrary: vis q)
  case (Cons e es)
  obtain l w where e: "e = (l, w)" by (cases e)
  show ?case
  proof (cases "w \<in> vis \<or> w = target")
    case False
    with Cons.prems e have "scan target path es (insert w vis) (q @ [(w, path @ [l, w])]) = (r, vis', q')" by simp
    from Cons.IH [OF this] Cons.prems(2) card_visit [OF assms, of w vis] False e show ?thesis by simp
  qed (use Cons e in \<open>auto split: if_splits\<close>)
qed simp

function bfs :: "graph \<Rightarrow> string \<Rightarrow> (string \<times> string list) list \<Rightarrow> string set \<Rightarrow> string list option" where
  "bfs g target [] vis = None"
| "bfs g target ((i, path) # q) vis =
     (case scan target path (steps g i) vis q of
        (Some p, _, _) \<Rightarrow> Some p
      | (None, vis', q') \<Rightarrow> bfs g target q' vis')"
  by pat_completeness auto
termination
proof (relation "measure (\<lambda>(g, target, q, vis). card (nodes g - vis) + length q)", goal_cases)
  case (2 g target i path q vis x y vis' q')
  then have "scan target path (steps g i) vis q = (None, vis', q')" by simp
  from scan_measure [OF finite_nodes this steps_nodes] show ?case by simp
qed simp

definition shortest_path :: "graph \<Rightarrow> string \<Rightarrow> string \<Rightarrow> string list" where
  "shortest_path g from_id to_id =
     (if from_id = to_id then [from_id]
      else (case bfs g to_id [(from_id, [from_id])] {from_id} of None \<Rightarrow> [] | Some p \<Rightarrow> p))"

text \<open>\<open>Subgraph\<close>: \<open>visited\<close> with its depths, the queue, and what has been collected.\<close>

record subgraph_state =
  sb_vis :: "(string \<times> nat) list"
  sb_queue :: "string list"
  sb_ents :: "entity list"
  sb_rels :: "relationship list"

definition incident :: "graph \<Rightarrow> string \<Rightarrow> (relationship \<times> string) list" where
  "incident g i =
     map (\<lambda>k. (gr_rels g ! k, rl_to (gr_rels g ! k))) (adj (gr_out g) i) @
     map (\<lambda>k. (gr_rels g ! k, rl_from (gr_rels g ! k))) (adj (gr_in g) i)"

definition add_rel :: "relationship \<Rightarrow> subgraph_state \<Rightarrow> subgraph_state" where
  "add_rel r st = (if rl_id r \<in> rl_id ` set (sb_rels st) then st else st\<lparr>sb_rels := sb_rels st @ [r]\<rparr>)"

definition sub_edge :: "graph \<Rightarrow> nat \<Rightarrow> relationship \<times> string \<Rightarrow> subgraph_state \<Rightarrow> subgraph_state" where
  "sub_edge g dep rw st =
     (let st1 = add_rel (fst rw) st; w = snd rw in
      if map_of (sb_vis st1) w \<noteq> None then st1
      else st1\<lparr>sb_vis := sb_vis st1 @ [(w, dep + 1)], sb_queue := sb_queue st1 @ [w],
               sb_ents := (case get_entity g w of None \<Rightarrow> sb_ents st1 | Some e \<Rightarrow> sb_ents st1 @ [e])\<rparr>)"

definition sub_node :: "graph \<Rightarrow> int \<Rightarrow> string \<Rightarrow> subgraph_state \<Rightarrow> subgraph_state" where
  "sub_node g hops current st =
     (let dep = (case map_of (sb_vis st) current of None \<Rightarrow> 0 | Some d \<Rightarrow> d) in
      if int dep \<ge> hops then st else fold (sub_edge g dep) (incident g current) st)"

lemma incident_nodes: "snd ` set (incident g i) \<subseteq> nodes g"
  by (auto simp: incident_def nodes_def dest!: adj_in)

lemma add_rel_sel [simp]:
  "sb_vis (add_rel r st) = sb_vis st" "sb_queue (add_rel r st) = sb_queue st" "sb_ents (add_rel r st) = sb_ents st"
  by (simp_all add: add_rel_def)

definition sub_measure :: "graph \<Rightarrow> subgraph_state \<Rightarrow> nat" where
  "sub_measure g st = card (nodes g - fst ` set (sb_vis st)) + length (sb_queue st)"

lemma sub_edge_measure:
  assumes "snd rw \<in> nodes g" shows "sub_measure g (sub_edge g dep rw st) \<le> sub_measure g st"
proof (cases "map_of (sb_vis st) (snd rw)")
  case None
  then have "snd rw \<notin> fst ` set (sb_vis st)" by (simp add: map_of_eq_None_iff)
  from card_visit [OF finite_nodes assms this] None show ?thesis
    by (simp add: sub_measure_def sub_edge_def Let_def insert_def [symmetric] Un_commute)
qed (simp add: sub_measure_def sub_edge_def Let_def)

lemma sub_node_measure: "sub_measure g (sub_node g hops i st) \<le> sub_measure g st"
proof -
  have "sub_measure g (fold (sub_edge g dep) es st) \<le> sub_measure g st" if "snd ` set es \<subseteq> nodes g" for es dep st
    using that
  proof (induction es arbitrary: st)
    case (Cons rw es)
    from Cons.IH [of "sub_edge g dep rw st"] Cons.prems sub_edge_measure [of rw g dep st] show ?case by simp
  qed simp
  then show ?thesis using incident_nodes by (simp add: sub_node_def Let_def)
qed

function sub_loop :: "graph \<Rightarrow> int \<Rightarrow> subgraph_state \<Rightarrow> subgraph_state" where
  "sub_loop g hops st =
     (case sb_queue st of
        [] \<Rightarrow> st
      | current # rest \<Rightarrow> sub_loop g hops (sub_node g hops current (st\<lparr>sb_queue := rest\<rparr>)))"
  by pat_completeness auto
termination
proof (relation "measure (\<lambda>(g, hops, st). sub_measure g st)", goal_cases)
  case (2 g hops st current rest)
  have "sub_measure g (sub_node g hops current (st\<lparr>sb_queue := rest\<rparr>)) \<le> sub_measure g (st\<lparr>sb_queue := rest\<rparr>)"
    by (rule sub_node_measure)
  also have "\<dots> < sub_measure g st" using 2 by (simp add: sub_measure_def)
  finally show ?case by simp
qed simp

declare sub_loop.simps [simp del]

definition subgraph :: "graph \<Rightarrow> string \<Rightarrow> int \<Rightarrow> entity list \<times> relationship list" where
  "subgraph g i hops =
     (let st = sub_loop g hops \<lparr>sb_vis = [(i, 0)], sb_queue = [i],
                 sb_ents = (case get_entity g i of None \<Rightarrow> [] | Some e \<Rightarrow> [e]), sb_rels = []\<rparr>
      in (sb_ents st, sb_rels st))"

section \<open>Consistency of the graph\<close>

definition adj_ok :: "graph \<Rightarrow> bool" where
  "adj_ok g \<longleftrightarrow>
     (\<forall>i. adj (gr_out g) i = filter (\<lambda>k. rl_from (gr_rels g ! k) = i) [0..<length (gr_rels g)]) \<and>
     (\<forall>i. adj (gr_in g) i = filter (\<lambda>k. rl_to (gr_rels g ! k) = i) [0..<length (gr_rels g)])"

definition same_entity :: "(string \<Rightarrow> string \<Rightarrow> bool) \<Rightarrow> entity \<Rightarrow> entity \<Rightarrow> bool" where
  "same_entity ef x y \<longleftrightarrow> ef (en_name x) (en_name y) \<and> ef (en_type x) (en_type y)"

definition graph_ok :: "(string \<Rightarrow> string \<Rightarrow> bool) \<Rightarrow> graph \<Rightarrow> bool" where
  "graph_ok ef g \<longleftrightarrow> adj_ok g \<and>
     (\<forall>i e. get_entity g i = Some e \<longrightarrow> en_id e = i) \<and>
     distinct (map (\<lambda>r. (rl_from r, rl_to r, rl_type r)) (gr_rels g)) \<and>
     (\<forall>r \<in> set (gr_rels g). get_entity g (rl_from r) \<noteq> None \<and> get_entity g (rl_to r) \<noteq> None) \<and>
     (equivp ef \<longrightarrow> (\<forall>i j x y. get_entity g i = Some x \<longrightarrow> get_entity g j = Some y \<longrightarrow> same_entity ef x y \<longrightarrow> i = j))"

abbreviation keys :: "graph \<Rightarrow> string set" where
  "keys g \<equiv> fst ` set (gr_entities g)"

text \<open>Everything the program does to a graph; \<open>restart\<close> writes the file and reads it into an empty graph.\<close>

inductive graph_step :: "(string \<Rightarrow> string \<Rightarrow> bool) \<Rightarrow> graph \<Rightarrow> graph \<Rightarrow> bool" for ef where
  upsert: "set ids = keys g \<Longrightarrow> get_entity g (''ent:'' @ sid) = None \<Longrightarrow> graph_step ef g (fst (upsert_entity ef ids sid c g))"
| relate: "set ids = keys g \<Longrightarrow> set ids' = keys g \<Longrightarrow> graph_step ef g (add_relationship ef ids ids' sid c g)"
| restart: "set ids = keys g \<Longrightarrow> graph_step ef g (load_graph (map Some (graph_lines ids g)) new_graph)"

lemma get_put_entity: "get_entity (put_entity i e g) j = (if j = i then Some e else get_entity g j)"
  by (simp add: get_entity_def put_entity_def update_conv')

interpretation entities: keyed_store get_entity put_entity
  by unfold_locales (rule get_put_entity)

lemma put_entity_sel [simp]:
  "gr_rels (put_entity i e g) = gr_rels g" "gr_out (put_entity i e g) = gr_out g" "gr_in (put_entity i e g) = gr_in g"
  by (simp_all add: put_entity_def)

lemma get_entity_keys: "get_entity g i \<noteq> None \<longleftrightarrow> i \<in> keys g"
  by (auto simp: get_entity_def map_of_eq_None_iff)

lemma adj_ok_put [simp]: "adj_ok (put_entity i e g) = adj_ok g"
  by (simp add: adj_ok_def)

lemma find_entity_Some:
  "find_entity P ids g = Some (i, x) \<Longrightarrow> i \<in> set ids \<and> get_entity g i = Some x \<and> P x"
  by (auto simp: find_entity_def dest!: first_some_SomeD split: option.splits if_splits)

lemma find_entity_None:
  "find_entity P ids g = None \<Longrightarrow> i \<in> set ids \<Longrightarrow> get_entity g i = Some x \<Longrightarrow> \<not> P x"
  by (auto simp: find_entity_def split: if_splits)

lemma adj_append: "adj (adj_append j k m) i = (if i = j then adj m i @ [k] else adj m i)"
  by (simp add: adj_append_def adj_def update_conv')

lemma insert_rel_sel [simp]:
  "gr_rels (insert_rel r g) = gr_rels g @ [r]" "gr_entities (insert_rel r g) = gr_entities g"
  "get_entity (insert_rel r g) i = get_entity g i"
  by (simp_all add: insert_rel_def Let_def get_entity_def)

lemma adj_ok_insert:
  assumes "adj_ok g" shows "adj_ok (insert_rel r g)"
proof -
  have f: "filter (\<lambda>k. P ((gr_rels g @ [r]) ! k)) [0..<length (gr_rels g)] = filter (\<lambda>k. P (gr_rels g ! k)) [0..<length (gr_rels g)]" for P
    by (rule filter_cong) (auto simp: nth_append)
  show ?thesis
    using assms f [of "\<lambda>r. rl_from r = _"] f [of "\<lambda>r. rl_to r = _"]
    by (auto simp: adj_ok_def insert_rel_def Let_def adj_append)
qed

lemma graph_ok_insert:
  assumes "graph_ok ef g" and "get_entity g (rl_from r) \<noteq> None" and "get_entity g (rl_to r) \<noteq> None"
    and "\<forall>r' \<in> set (gr_rels g). (rl_from r', rl_to r', rl_type r') \<noteq> (rl_from r, rl_to r, rl_type r)"
  shows "graph_ok ef (insert_rel r g)"
  using assms adj_ok_insert by (auto simp: graph_ok_def)

lemma graph_ok_weight:
  assumes "graph_ok ef g" and "k < length (gr_rels g)"
  shows "graph_ok ef (g\<lparr>gr_rels := (gr_rels g)[k := (gr_rels g ! k)\<lparr>rl_weight := w\<rparr>]\<rparr>)"
proof -
  let ?r = "(gr_rels g ! k)\<lparr>rl_weight := w\<rparr>" and ?rs = "(gr_rels g)[k := (gr_rels g ! k)\<lparr>rl_weight := w\<rparr>]"
  have eq: "f (?rs ! j) = f (gr_rels g ! j)" if "f ?r = f (gr_rels g ! k)" for f :: "relationship \<Rightarrow> 'b" and j
    using that assms(2) by (cases "j = k") simp_all
  have m: "map (\<lambda>r. (rl_from r, rl_to r, rl_type r)) ?rs = map (\<lambda>r. (rl_from r, rl_to r, rl_type r)) (gr_rels g)"
    by (rule nth_equalityI) (auto simp: eq)
  have "\<exists>r' \<in> set (gr_rels g). rl_from r' = rl_from r \<and> rl_to r' = rl_to r" if "r \<in> set ?rs" for r
    using that set_update_subset_insert [of "gr_rels g" k ?r] assms(2) nth_mem by fastforce
  then have "\<forall>r \<in> set ?rs. get_entity g (rl_from r) \<noteq> None \<and> get_entity g (rl_to r) \<noteq> None"
    using assms(1) by (fastforce simp: graph_ok_def)
  moreover have "adj_ok (g\<lparr>gr_rels := ?rs\<rparr>)"
    using assms(1) by (simp add: graph_ok_def adj_ok_def eq)
  ultimately show ?thesis using assms(1) m by (simp add: graph_ok_def get_entity_def)
qed

section \<open>The file gives the graph back\<close>

definition same_graph :: "graph \<Rightarrow> graph \<Rightarrow> bool" where
  "same_graph g h \<longleftrightarrow> get_entity h = get_entity g \<and> gr_rels h = gr_rels g \<and>
     adj (gr_out h) = adj (gr_out g) \<and> adj (gr_in h) = adj (gr_in g)"

lemma same_graph_ok: "same_graph g h \<Longrightarrow> graph_ok ef g \<Longrightarrow> graph_ok ef h"
  by (simp add: same_graph_def graph_ok_def adj_ok_def)

lemma dec_strs [simp]: "traverse (\<lambda>j. dec_str (Some j)) (map JStr ls) = Inr ls"
  using traverse_map_Inr [of ls "\<lambda>j. dec_str (Some j)" JStr id] by simp

lemma load_entity: "load_line (Some (entity_event e)) g = put_entity (en_id e) e g"
  by (cases e) (simp add: load_line_def dec_evt_def entity_event_def)

lemma load_rel: "load_line (Some (rel_event r)) g = insert_rel r g"
  by (cases r) (simp add: load_line_def dec_evt_def rel_event_def)

lemma load_rels:
  "fold load_line (map Some (map rel_event rs)) g = fold insert_rel rs g"
  by (induction rs arbitrary: g) (simp_all add: load_rel)

lemma insert_rels:
  "gr_rels (fold insert_rel rs g) = gr_rels g @ rs" "get_entity (fold insert_rel rs g) = get_entity g"
  "adj_ok g \<Longrightarrow> adj_ok (fold insert_rel rs g)"
  by (induction rs arbitrary: g) (simp_all add: adj_ok_insert fun_eq_iff)

lemma load_entities:
  fixes g g0 :: graph
  assumes "\<And>i e. get_entity g i = Some e \<Longrightarrow> en_id e = i"
  defines "ls \<equiv> \<lambda>ids. map Some (concat (map (\<lambda>i. case get_entity g i of None \<Rightarrow> [] | Some e \<Rightarrow> [entity_event e]) ids))"
  shows "get_entity (fold load_line (ls ids) g0) j =
      (if j \<in> set ids \<and> get_entity g j \<noteq> None then get_entity g j else get_entity g0 j) \<and>
    gr_rels (fold load_line (ls ids) g0) = gr_rels g0 \<and> gr_out (fold load_line (ls ids) g0) = gr_out g0 \<and>
    gr_in (fold load_line (ls ids) g0) = gr_in g0"
proof (induction ids arbitrary: g0)
  case (Cons i ids)
  show ?case
  proof (cases "get_entity g i")
    case (Some e)
    then have "ls (i # ids) = Some (entity_event e) # ls ids" by (simp add: ls_def)
    with Cons.IH [of "put_entity i e g0"] assms(1) [OF Some] Some show ?thesis
      by (auto simp: load_entity get_put_entity)
  next
    case None
    then have "ls (i # ids) = ls ids" by (simp add: ls_def)
    with Cons.IH [of g0] None show ?thesis by auto
  qed
qed (simp add: ls_def)

lemma adj_new_graph [simp]: "adj_ok new_graph" "gr_rels new_graph = []" "get_entity new_graph i = None"
  by (simp_all add: adj_ok_def new_graph_def adj_def get_entity_def)

lemma restart_same:
  assumes ok: "graph_ok ef g" and ids: "set ids = keys g"
  shows "same_graph g (load_graph (map Some (graph_lines ids g)) new_graph)"
proof -
  have key: "\<And>i e. get_entity g i = Some e \<Longrightarrow> en_id e = i" using ok by (simp add: graph_ok_def)
  define h where "h = fold load_line
    (map Some (concat (map (\<lambda>i. case get_entity g i of None \<Rightarrow> [] | Some e \<Rightarrow> [entity_event e]) ids))) new_graph"
  note ent = load_entities [OF key, of g ids new_graph, folded h_def]
  have l: "load_graph (map Some (graph_lines ids g)) new_graph = fold insert_rel (gr_rels g) h"
    unfolding load_graph_def graph_lines_def map_append fold_append o_apply load_rels h_def ..
  have "get_entity h = get_entity g"
  proof
    fix j
    show "get_entity h j = get_entity g j" using ent [of j] ids get_entity_keys [of g j] by auto
  qed
  moreover have h: "gr_rels h = []" "adj_ok h"
    using ent adj_new_graph(1,2) by (simp_all add: adj_ok_def)
  moreover have "adj_ok (fold insert_rel (gr_rels g) h)" by (rule insert_rels(3) [OF h(2)])
  moreover have "adj_ok g" using ok by (simp add: graph_ok_def)
  ultimately show ?thesis unfolding l same_graph_def
    by (auto simp: insert_rels adj_ok_def fun_eq_iff)
qed

section \<open>Every step keeps it\<close>

lemma find_idx_None_all: "find_idx P xs = None \<Longrightarrow> x \<in> set xs \<Longrightarrow> \<not> P x"
  by (induction xs) (auto split: if_splits)

lemma find_idx_bound: "find_idx P xs = Some k \<Longrightarrow> k < length xs"
  by (induction xs arbitrary: k) (auto split: if_splits)

lemma same_entity_sym: "equivp ef \<Longrightarrow> same_entity ef x y \<Longrightarrow> same_entity ef y x"
  unfolding same_entity_def by (blast dest: equivp_symp)

lemma graph_ok_upsert:
  assumes ok: "graph_ok ef g" and ids: "set ids = keys g" and new: "get_entity g (''ent:'' @ sid) = None"
  shows "graph_ok ef (fst (upsert_entity ef ids sid c g))"
proof (cases "find_entity (\<lambda>x. ef (en_name x) (ec_name c) \<and> ef (en_type x) (ec_type c)) ids g")
  case (Some ix)
  obtain i x where ix: "ix = (i, x)" by (cases ix)
  let ?x = "x\<lparr>en_labels := remdups (en_labels x @ ec_labels c)\<rparr>"
  from find_entity_Some [OF Some [unfolded ix]] have x: "get_entity g i = Some x" by simp
  have same: "same_entity ef ?x = same_entity ef x" "\<And>y. same_entity ef y ?x = same_entity ef y x"
    by (auto simp: same_entity_def fun_eq_iff)
  have "graph_ok ef (put_entity i ?x g)"
    using ok x by (auto simp: graph_ok_def get_put_entity same split: if_splits)
  then show ?thesis by (simp add: upsert_entity_def Some ix Let_def)
next
  case None
  let ?x = "\<lparr>en_id = ''ent:'' @ sid, en_name = ec_name c, en_type = ec_type c, en_labels = ec_labels c\<rparr>"
  have away: "\<not> same_entity ef y ?x" if "get_entity g j = Some y" for j y
    using find_entity_None [OF None _ that] get_entity_keys [of g j] that ids by (auto simp: same_entity_def)
  then have away': "\<not> same_entity ef ?x y" if "get_entity g j = Some y" "equivp ef" for j y
    using that same_entity_sym by blast
  let ?g = "put_entity (''ent:'' @ sid) ?x g"
  have uniq: "i = j" if "equivp ef" "get_entity ?g i = Some y" "get_entity ?g j = Some z" "same_entity ef y z" for i j y z
  proof (cases "i = ''ent:'' @ sid \<or> j = ''ent:'' @ sid")
    case True
    then show ?thesis using that away [of i y] away' [of j z]
      by (cases "i = ''ent:'' @ sid"; cases "j = ''ent:'' @ sid") (simp_all add: get_put_entity)
  next
    case False
    then show ?thesis using that ok by (simp add: graph_ok_def get_put_entity)
  qed
  have "get_entity ?g (rl_from r) \<noteq> None \<and> get_entity ?g (rl_to r) \<noteq> None" if "r \<in> set (gr_rels g)" for r
    using ok that by (simp add: graph_ok_def get_put_entity)
  moreover have "en_id e = i" if "get_entity ?g i = Some e" for i e
    using ok that by (auto simp: graph_ok_def get_put_entity split: if_splits)
  ultimately have "graph_ok ef ?g"
    using ok uniq unfolding graph_ok_def by (simp only: adj_ok_put put_entity_sel) blast
  then show ?thesis by (simp add: upsert_entity_def None Let_def)
qed

lemma resolve_name_known: "resolve_name ef ids g n \<noteq> [] \<Longrightarrow> get_entity g (resolve_name ef ids g n) \<noteq> None"
  by (auto simp: resolve_name_def dest!: find_entity_Some split: option.splits)

lemma graph_ok_relate:
  assumes ok: "graph_ok ef g"
  shows "graph_ok ef (add_relationship ef ids ids' sid c g)"
proof -
  let ?a = "resolve_name ef ids g (rc_from c)" and ?b = "resolve_name ef ids' g (rc_to c)"
  show ?thesis
  proof (cases "?a = [] \<or> ?b = []")
    case True
    then show ?thesis using ok by (auto simp: add_relationship_def Let_def)
  next
    case False
    then have known: "get_entity g ?a \<noteq> None" "get_entity g ?b \<noteq> None" using resolve_name_known by blast+
    show ?thesis
    proof (cases "find_idx (\<lambda>r. rl_from r = ?a \<and> rl_to r = ?b \<and> rl_type r = rc_type c) (gr_rels g)")
      case None
      have "graph_ok ef (insert_rel \<lparr>rl_id = ''rel:'' @ sid, rl_from = ?a, rl_to = ?b, rl_type = rc_type c,
          rl_weight = rc_weight c\<rparr> g)"
        by (rule graph_ok_insert [OF ok]) (use known find_idx_None_all [OF None] in auto)
      with False None show ?thesis by (simp add: add_relationship_def Let_def)
    next
      case (Some k)
      with False ok graph_ok_weight [OF ok find_idx_bound [OF Some]] show ?thesis
        by (simp add: add_relationship_def Let_def)
    qed
  qed
qed

interpretation graph_sys: transition_system "\<lambda>g. g = new_graph" "graph_step ef" "graph_ok ef" for ef
proof unfold_locales
  fix g :: graph
  assume "g = new_graph"
  then show "graph_ok ef g" by (simp add: graph_ok_def)
next
  fix g h :: graph
  assume "graph_ok ef g" and "graph_step ef g h"
  then show "graph_ok ef h"
    by (cases rule: graph_step.cases [consumes 1, OF \<open>graph_step ef g h\<close>])
      (auto intro: graph_ok_upsert graph_ok_relate same_graph_ok restart_same)
qed

section \<open>Breadth-first search\<close>

text \<open>The relation the search walks along, and the paths it writes down.\<close>

definition hop :: "graph \<Rightarrow> (string \<times> string) set" where
  "hop g = {(x, y). \<exists>l. (l, y) \<in> set (steps g x)}"

fun path_ok :: "graph \<Rightarrow> string list \<Rightarrow> bool" where
  "path_ok g [x] = True"
| "path_ok g (x # l # y # p) = ((l, y) \<in> set (steps g x) \<and> path_ok g (y # p))"
| "path_ok g _ = False"

definition depth :: "string list \<Rightarrow> nat" where
  "depth p = length p div 2"

text \<open>An entry of the queue: a path from \<open>a\<close> to the node, as short as any walk.\<close>

definition entry_ok :: "graph \<Rightarrow> string \<Rightarrow> string \<times> string list \<Rightarrow> bool" where
  "entry_ok g a e \<longleftrightarrow> (case e of (i, p) \<Rightarrow>
     path_ok g p \<and> hd p = a \<and> last p = i \<and> (a, i) \<in> hop g ^^ depth p \<and>
     (\<forall>n. (a, i) \<in> hop g ^^ n \<longrightarrow> depth p \<le> n))"

definition bfs_inv :: "graph \<Rightarrow> string \<Rightarrow> string set \<Rightarrow> (string \<times> string list) list \<Rightarrow> bool" where
  "bfs_inv g a vis q \<longleftrightarrow> a \<in> vis \<and> (\<forall>e \<in> set q. entry_ok g a e) \<and>
     sorted_wrt (\<lambda>e f. depth (snd e) \<le> depth (snd f)) q \<and>
     (\<forall>e \<in> set q. depth (snd e) \<le> depth (snd (hd q)) + 1) \<and>
     (\<forall>x \<in> vis. x \<notin> fst ` set q \<longrightarrow> hop g `` {x} \<subseteq> vis)"

lemma path_ok_length: "path_ok g p \<Longrightarrow> length p = 2 * depth p + 1 \<and> p \<noteq> []"
  by (induction g p rule: path_ok.induct) (auto simp: depth_def)

lemma path_ok_snoc: "path_ok g p \<Longrightarrow> (l, y) \<in> set (steps g (last p)) \<Longrightarrow> path_ok g (p @ [l, y])"
  by (induction g p rule: path_ok.induct) auto

lemma depth_snoc [simp]: "depth (p @ [l, y]) = depth p + 1"
  by (simp add: depth_def)

text \<open>A walk that leaves the visited nodes does so by a step from a visited to a new node.\<close>

lemma walk_leaves:
  "(a, w) \<in> R ^^ n \<Longrightarrow> a \<in> vis \<Longrightarrow> w \<notin> vis \<Longrightarrow>
   \<exists>k x y. k < n \<and> (a, x) \<in> R ^^ k \<and> x \<in> vis \<and> (x, y) \<in> R \<and> y \<notin> vis"
proof (induction n arbitrary: w)
  case (Suc n)
  then obtain z where z: "(a, z) \<in> R ^^ n" "(z, w) \<in> R" by auto
  show ?case
  proof (cases "z \<in> vis")
    case True
    with z Suc.prems show ?thesis by (metis lessI)
  next
    case False
    from Suc.IH [OF z(1) Suc.prems(2) False] show ?thesis using less_Suc_eq by blast
  qed
qed simp

lemma unvisited_far:
  assumes "bfs_inv g a vis q" and "w \<notin> vis" and "(a, w) \<in> hop g ^^ n"
  shows "q \<noteq> [] \<and> depth (snd (hd q)) < n"
proof -
  from walk_leaves [OF assms(3) _ assms(2)] assms(1) obtain k x y
    where k: "k < n" "(a, x) \<in> hop g ^^ k" "x \<in> vis" "(x, y) \<in> hop g" "y \<notin> vis"
    by (auto simp: bfs_inv_def)
  then have "x \<in> fst ` set q" using assms(1) unfolding bfs_inv_def by blast
  then obtain p where p: "(x, p) \<in> set q" by auto
  with assms(1) k(2) have "depth p \<le> k" by (fastforce simp: bfs_inv_def entry_ok_def)
  moreover have "depth (snd (hd q)) \<le> depth p"
    using assms(1) p unfolding bfs_inv_def by (cases q) auto
  ultimately show ?thesis using k(1) p by (cases q) auto
qed

lemma step_entry:
  assumes inv: "bfs_inv g a vis ((i, p) # q)" and lw: "(l, w) \<in> set (steps g i)" and "w \<notin> vis"
  shows "entry_ok g a (w, p @ [l, w])"
proof -
  have e: "entry_ok g a (i, p)" using inv by (simp add: bfs_inv_def)
  have "(i, w) \<in> hop g" using lw by (auto simp: hop_def)
  moreover have "depth p + 1 \<le> n" if "(a, w) \<in> hop g ^^ n" for n
    using unvisited_far [OF inv assms(3) that] by simp
  ultimately show ?thesis
    using e lw path_ok_length [of g p] by (auto simp: entry_ok_def path_ok_snoc)
qed

lemma push_inv:
  assumes inv: "bfs_inv g a vis ((i, p) # q)" and lw: "(l, w) \<in> set (steps g i)" and new: "w \<notin> vis"
  shows "bfs_inv g a (insert w vis) ((i, p) # q @ [(w, p @ [l, w])])"
proof -
  have "\<forall>e \<in> set q. depth (snd e) \<le> depth p + 1" using inv by (simp add: bfs_inv_def)
  then have "sorted_wrt (\<lambda>e f. depth (snd e) \<le> depth (snd f)) ((i, p) # q @ [(w, p @ [l, w])])"
    using inv by (auto simp: bfs_inv_def sorted_wrt_append)
  then show ?thesis using inv step_entry [OF inv lw new] unfolding bfs_inv_def by auto
qed

lemma pop_inv:
  assumes inv: "bfs_inv g a vis ((i, p) # q)" and "snd ` set (steps g i) \<subseteq> vis"
  shows "bfs_inv g a vis q"
proof -
  have "hop g `` {i} \<subseteq> vis" using assms(2) by (auto simp: hop_def)
  moreover have "depth (snd e) \<le> depth (snd (hd q)) + 1" if "e \<in> set q" for e
  proof -
    have "depth p \<le> depth (snd (hd q))" using inv that by (cases q) (auto simp: bfs_inv_def)
    with inv that show ?thesis by (fastforce simp: bfs_inv_def)
  qed
  ultimately show ?thesis using inv unfolding bfs_inv_def by auto
qed

lemma scan_inv:
  assumes "bfs_inv g a vis ((i, p) # q)" and "set es \<subseteq> set (steps g i)" and "t \<notin> vis"
    and "\<forall>e \<in> set (steps g i) - set es. snd e \<in> vis" and "scan t p es vis q = (r, vis', q')"
  shows "(case r of Some res \<Rightarrow> entry_ok g a (t, res) | None \<Rightarrow> bfs_inv g a vis' q' \<and> t \<notin> vis')"
  using assms
proof (induction es arbitrary: vis q)
  case Nil
  then show ?case using pop_inv [OF Nil.prems(1)] by auto
next
  case (Cons e es)
  obtain l w where e: "e = (l, w)" by (cases e)
  show ?case
  proof (cases "w \<in> vis")
    case True
    with Cons.prems e show ?thesis by (intro Cons.IH [OF Cons.prems(1)]) auto
  next
    case new: False
    show ?thesis
    proof (cases "w = t")
      case True
      then show ?thesis using Cons.prems e new step_entry [OF Cons.prems(1), of l w] by auto
    next
      case False
      have lw: "(l, w) \<in> set (steps g i)" using Cons.prems e by simp
      show ?thesis using Cons.prems e new False
        by (intro Cons.IH [OF push_inv [OF Cons.prems(1) lw new]]) auto
    qed
  qed
qed

lemma bfs_correct:
  "bfs_inv g a vis q \<Longrightarrow> t \<notin> vis \<Longrightarrow>
   (case bfs g t q vis of Some res \<Rightarrow> entry_ok g a (t, res) | None \<Rightarrow> (a, t) \<notin> (hop g)\<^sup>*)"
proof (induction g t q vis rule: bfs.induct)
  case (1 g t vis)
  show ?case using unvisited_far [OF 1(1,2)] by (auto simp: rtrancl_power)
next
  case (2 g t i p q vis)
  obtain r vis' q' where sc: "scan t p (steps g i) vis q = (r, vis', q')" by (rule prod_cases3)
  note s = scan_inv [OF 2(2) subset_refl 2(3) _ sc]
  show ?case
  proof (cases r)
    case None
    with s have "bfs_inv g a vis' q'" "t \<notin> vis'" by simp_all
    with 2(1) [OF sc [symmetric] None refl] sc None show ?thesis by simp
  next
    case (Some res)
    with s sc show ?thesis by simp
  qed
qed

section \<open>Subgraphs\<close>

lemma incident_hop: "hop g `` {i} = snd ` set (incident g i)"
proof -
  have "snd ` set (incident g i) = snd ` set (steps g i)"
    by (simp add: incident_def steps_def image_Un image_image)
  then show ?thesis by (force simp: hop_def)
qed

abbreviation dist_of :: "subgraph_state \<Rightarrow> string \<Rightarrow> nat option" where
  "dist_of st \<equiv> map_of (sb_vis st)"

text \<open>The invariant: \<open>q\<close> is the queue, with the node being processed still at its head.\<close>

definition sub_inv :: "graph \<Rightarrow> string \<Rightarrow> int \<Rightarrow> string list \<Rightarrow> subgraph_state \<Rightarrow> bool" where
  "sub_inv g a h q st \<longleftrightarrow> dist_of st a = Some 0 \<and>
     (\<forall>x d. dist_of st x = Some d \<longrightarrow> (a, x) \<in> hop g ^^ d \<and> (\<forall>n. (a, x) \<in> hop g ^^ n \<longrightarrow> d \<le> n) \<and> (d = 0 \<or> int d \<le> h)) \<and>
     (\<forall>x \<in> set q. dist_of st x \<noteq> None) \<and>
     sorted_wrt (\<lambda>x y. the (dist_of st x) \<le> the (dist_of st y)) q \<and>
     (\<forall>x \<in> set q. the (dist_of st x) \<le> the (dist_of st (hd q)) + 1) \<and>
     (\<forall>x d. dist_of st x = Some d \<longrightarrow> x \<notin> set q \<longrightarrow> int d < h \<longrightarrow> (\<forall>y \<in> hop g `` {x}. dist_of st y \<noteq> None)) \<and>
     set (sb_ents st) = {e. \<exists>x. dist_of st x \<noteq> None \<and> get_entity g x = Some e}"

lemma sub_far:
  assumes inv: "sub_inv g a h q st" and w: "dist_of st w = None" and n: "(a, w) \<in> hop g ^^ n"
  shows "(q \<noteq> [] \<and> the (dist_of st (hd q)) < n) \<or> h < int n"
proof -
  have "a \<in> dom (dist_of st)" "w \<notin> dom (dist_of st)" using inv w by (auto simp: sub_inv_def)
  from walk_leaves [OF n this] obtain k x y where kx: "k < n" "(a, x) \<in> hop g ^^ k" "x \<in> dom (dist_of st)"
      "(x, y) \<in> hop g" "y \<notin> dom (dist_of st)" by blast
  then obtain d where k: "k < n" "(a, x) \<in> hop g ^^ k" "dist_of st x = Some d" "(x, y) \<in> hop g" "dist_of st y = None"
    by (auto simp del: not_None_eq simp: domIff)
  from inv k(2,3) have d: "d \<le> k" by (simp add: sub_inv_def)
  show ?thesis
  proof (cases "x \<in> set q")
    case True
    then have "the (dist_of st (hd q)) \<le> the (dist_of st x)" using inv by (cases q) (auto simp: sub_inv_def)
    with True d k(1,3) show ?thesis by (cases q) auto
  next
    case False
    then have "\<not> int d < h" using inv k(3-5) unfolding sub_inv_def by blast
    with d k(1) show ?thesis by simp
  qed
qed

lemma sub_edge_inv:
  assumes inv: "sub_inv g a h (i # sb_queue st) st" and d: "dist_of st i = Some dep" "int dep < h"
    and w: "w \<in> hop g `` {i}"
  shows "sub_inv g a h (i # sb_queue (sub_edge g dep (r, w) st)) (sub_edge g dep (r, w) st) \<and>
    (\<forall>x d. dist_of st x = Some d \<longrightarrow> dist_of (sub_edge g dep (r, w) st) x = Some d) \<and>
    dist_of (sub_edge g dep (r, w) st) w \<noteq> None"
proof (cases "dist_of st w")
  case (Some k)
  then have "sub_edge g dep (r, w) st = add_rel r st" by (simp add: sub_edge_def Let_def)
  with inv Some show ?thesis by (simp add: sub_inv_def)
next
  case None
  let ?st = "sub_edge g dep (r, w) st"
  have st: "sb_vis ?st = sb_vis st @ [(w, dep + 1)]" "sb_queue ?st = sb_queue st @ [w]"
    "set (sb_ents ?st) = set (sb_ents st) \<union> {e. get_entity g w = Some e}"
    using None by (auto simp: sub_edge_def Let_def split: option.splits)
  have D: "dist_of ?st x = (if x = w then Some (dep + 1) else dist_of st x)" for x
    using None by (simp add: st map_add_def split: option.splits)
  have "(a, i) \<in> hop g ^^ dep" using inv d(1) by (simp add: sub_inv_def)
  then have reach: "(a, w) \<in> hop g ^^ (dep + 1)" using w by auto
  have far: "dep + 1 \<le> n" if "(a, w) \<in> hop g ^^ n" for n
    using sub_far [OF inv None that] d by auto
  have wq: "w \<notin> set (i # sb_queue st)" using inv None by (auto simp: sub_inv_def)
  have near: "the (dist_of st x) \<le> dep + 1" if "x \<in> set (i # sb_queue st)" for x
    using inv that d by (auto simp: sub_inv_def)
  have sorted: "sorted_wrt (\<lambda>x y. the (dist_of ?st x) \<le> the (dist_of ?st y)) (i # sb_queue st @ [w])"
  proof -
    have "sorted_wrt (\<lambda>x y. the (dist_of ?st x) \<le> the (dist_of ?st y)) (i # sb_queue st)"
      by (rule sorted_wrt_mono_rel [of _ "\<lambda>x y. the (dist_of st x) \<le> the (dist_of st y)"])
        (use inv wq in \<open>auto simp: sub_inv_def D\<close>)
    with near wq show ?thesis by (auto simp: sorted_wrt_append D)
  qed
  have "sub_inv g a h (i # sb_queue st @ [w]) ?st"
    unfolding sub_inv_def
  proof (intro conjI allI impI ballI)
    show "dist_of ?st a = Some 0" using inv None by (auto simp: sub_inv_def D)
    show "sorted_wrt (\<lambda>x y. the (dist_of ?st x) \<le> the (dist_of ?st y)) (i # sb_queue st @ [w])" by (rule sorted)
    show "set (sb_ents ?st) = {e. \<exists>x. dist_of ?st x \<noteq> None \<and> get_entity g x = Some e}"
      using inv by (auto simp: st(3) D sub_inv_def split: if_splits)
  next
    fix x k assume "dist_of ?st x = Some k"
    then show "(a, x) \<in> hop g ^^ k" "k = 0 \<or> int k \<le> h"
      using inv reach d(2) by (auto simp: D sub_inv_def split: if_splits)
  next
    fix x k n assume "dist_of ?st x = Some k" "(a, x) \<in> hop g ^^ n"
    then show "k \<le> n" using inv far by (auto simp: D sub_inv_def split: if_splits)
  next
    fix x assume "x \<in> set (i # sb_queue st @ [w])"
    then show "dist_of ?st x \<noteq> None" using inv by (auto simp: D sub_inv_def)
  next
    fix x assume "x \<in> set (i # sb_queue st @ [w])"
    then show "the (dist_of ?st x) \<le> the (dist_of ?st (hd (i # sb_queue st @ [w]))) + 1"
      using near wq d by (auto simp: D)
  next
    fix x k y assume "dist_of ?st x = Some k" "x \<notin> set (i # sb_queue st @ [w])" "int k < h" "y \<in> hop g `` {x}"
    then have "dist_of st y \<noteq> None" using inv unfolding sub_inv_def by (auto simp: D)
    then show "dist_of ?st y \<noteq> None" by (simp add: D)
  qed
  then show ?thesis using None by (auto simp: D st(2))
qed

lemma sub_edges_inv:
  assumes "sub_inv g a h (i # sb_queue st) st" and "dist_of st i = Some dep" "int dep < h"
    and "snd ` set es \<subseteq> hop g `` {i}"
  defines "st' \<equiv> fold (sub_edge g dep) es st"
  shows "sub_inv g a h (i # sb_queue st') st' \<and> (\<forall>x d. dist_of st x = Some d \<longrightarrow> dist_of st' x = Some d) \<and>
    (\<forall>w \<in> snd ` set es. dist_of st' w \<noteq> None)"
  using assms(1-4) unfolding st'_def
proof (induction es arbitrary: st)
  case (Cons rw es)
  obtain r w where rw: "rw = (r, w)" by (cases rw)
  with Cons.prems have w: "w \<in> hop g `` {i}" by auto
  note e = sub_edge_inv [OF Cons.prems(1-3) w, of r]
  have "dist_of (sub_edge g dep (r, w) st) i = Some dep" using e Cons.prems(2) by blast
  with Cons.IH [of "sub_edge g dep (r, w) st"] e Cons.prems(3,4)
  have ih: "sub_inv g a h (i # sb_queue (fold (sub_edge g dep) es (sub_edge g dep (r, w) st))) (fold (sub_edge g dep) es (sub_edge g dep (r, w) st))"
    "\<forall>x d. dist_of (sub_edge g dep (r, w) st) x = Some d \<longrightarrow> dist_of (fold (sub_edge g dep) es (sub_edge g dep (r, w) st)) x = Some d"
    "\<forall>w' \<in> snd ` set es. dist_of (fold (sub_edge g dep) es (sub_edge g dep (r, w) st)) w' \<noteq> None" by simp_all
  from e obtain k where "dist_of (sub_edge g dep (r, w) st) w = Some k" by auto
  with ih e show ?case by (auto simp: rw)
qed simp

lemma sub_pop:
  assumes inv: "sub_inv g a h (i # q) st" and "dist_of st i = Some d"
    and "int d < h \<Longrightarrow> \<forall>y \<in> hop g `` {i}. dist_of st y \<noteq> None"
  shows "sub_inv g a h q st"
proof -
  have near: "the (dist_of st x) \<le> the (dist_of st (hd q)) + 1" if "x \<in> set q" for x
  proof -
    have "the (dist_of st i) \<le> the (dist_of st (hd q))" using inv that by (cases q) (auto simp: sub_inv_def)
    with inv that show ?thesis by (fastforce simp: sub_inv_def)
  qed
  have closed: "\<forall>y \<in> hop g `` {x}. dist_of st y \<noteq> None"
    if "dist_of st x = Some k" "x \<notin> set q" "int k < h" for x k
  proof (cases "x = i")
    case True
    with that assms(2,3) show ?thesis by simp
  next
    case False
    with that have "x \<notin> set (i # q)" by simp
    with that inv show ?thesis unfolding sub_inv_def by blast
  qed
  note parts = inv [unfolded sub_inv_def]
  have "\<forall>x \<in> set q. dist_of st x \<noteq> None" using parts by simp
  moreover have "sorted_wrt (\<lambda>x y. the (dist_of st x) \<le> the (dist_of st y)) q" using parts by simp
  ultimately show ?thesis unfolding sub_inv_def
    by (intro conjI) (use parts near closed in blast)+
qed

lemma sub_loop_inv:
  "sub_inv g a h (sb_queue st) st \<Longrightarrow> sub_inv g a h [] (sub_loop g h st)"
proof (induction g h st rule: sub_loop.induct)
  case (1 g h st)
  show ?case
  proof (cases "sb_queue st")
    case Nil
    with 1 show ?thesis by (simp add: sub_loop.simps)
  next
    case (Cons i q)
    let ?st = "st\<lparr>sb_queue := q\<rparr>"
    have inv: "sub_inv g a h (i # sb_queue ?st) ?st" using 1(2) Cons by (simp add: sub_inv_def)
    then obtain d where d: "dist_of ?st i = Some d" by (auto simp: sub_inv_def)
    have "sub_inv g a h (sb_queue (sub_node g h i ?st)) (sub_node g h i ?st)"
    proof (cases "int d \<ge> h")
      case True
      then have "sub_node g h i ?st = ?st" using d by (simp add: sub_node_def)
      then show ?thesis using sub_pop [OF inv d] True by simp
    next
      case False
      then have dh: "int d < h" by simp
      have st: "sub_node g h i ?st = fold (sub_edge g d) (incident g i) ?st" using d False by (simp add: sub_node_def)
      have "snd ` set (incident g i) \<subseteq> hop g `` {i}" by (simp add: incident_hop)
      note e = sub_edges_inv [OF inv d dh this]
      show ?thesis unfolding st
        by (rule sub_pop [of _ _ _ i _ _ d]) (use e d in \<open>auto simp: incident_hop\<close>)
    qed
    with 1(1) [OF Cons] Cons show ?thesis by (simp add: sub_loop.simps [of g h st])
  qed
qed

lemma subgraph_entities:
  "set (fst (subgraph g a h)) = {e. \<exists>x n. get_entity g x = Some e \<and> (a, x) \<in> hop g ^^ n \<and> (n = 0 \<or> int n \<le> h)}"
proof -
  let ?st = "\<lparr>sb_vis = [(a, 0)], sb_queue = [a], sb_ents = (case get_entity g a of None \<Rightarrow> [] | Some e \<Rightarrow> [e]), sb_rels = []\<rparr>"
  have "sub_inv g a h (sb_queue ?st) ?st" by (auto simp: sub_inv_def split: option.splits if_splits)
  from sub_loop_inv [OF this] have inv: "sub_inv g a h [] (sub_loop g h ?st)" .
  have "dist_of (sub_loop g h ?st) x \<noteq> None \<longleftrightarrow> (\<exists>n. (a, x) \<in> hop g ^^ n \<and> (n = 0 \<or> int n \<le> h))" for x
  proof
    assume "dist_of (sub_loop g h ?st) x \<noteq> None"
    then show "\<exists>n. (a, x) \<in> hop g ^^ n \<and> (n = 0 \<or> int n \<le> h)" using inv by (auto simp: sub_inv_def)
  next
    assume "\<exists>n. (a, x) \<in> hop g ^^ n \<and> (n = 0 \<or> int n \<le> h)"
    then obtain n where n: "(a, x) \<in> hop g ^^ n" "n = 0 \<or> int n \<le> h" by blast
    show "dist_of (sub_loop g h ?st) x \<noteq> None"
    proof
      assume none: "dist_of (sub_loop g h ?st) x = None"
      have start: "dist_of (sub_loop g h ?st) a = Some 0" using inv unfolding sub_inv_def by blast
      have "n \<noteq> 0"
      proof
        assume "n = 0"
        with n(1) have "x = a" by simp
        with start none show False by simp
      qed
      with sub_far [OF inv none n(1)] n(2) show False by simp
    qed
  qed
  with inv show ?thesis by (auto simp: subgraph_def Let_def sub_inv_def)
qed

section \<open>What the graph guarantees\<close>

text \<open>Two entities are linked by a relationship in either direction.\<close>

definition linked :: "graph \<Rightarrow> (string \<times> string) set" where
  "linked g = {(x, y). \<exists>r \<in> set (gr_rels g). rl_from r = x \<and> rl_to r = y \<or> rl_from r = y \<and> rl_to r = x}"

text \<open>The alternation of entities and relationship types, read off the relationships themselves.\<close>

fun path_in :: "graph \<Rightarrow> string list \<Rightarrow> bool" where
  "path_in g [x] = True"
| "path_in g (x # l # y # p) =
     ((\<exists>r \<in> set (gr_rels g). rl_from r = x \<and> rl_to r = y \<and> l = rl_type r \<or>
         rl_from r = y \<and> rl_to r = x \<and> l = ''<'' @ rl_type r) \<and> path_in g (y # p))"
| "path_in g _ = False"

lemma steps_iff:
  assumes "adj_ok g"
  shows "(l, y) \<in> set (steps g x) \<longleftrightarrow> (\<exists>r \<in> set (gr_rels g). rl_from r = x \<and> rl_to r = y \<and> l = rl_type r \<or>
         rl_from r = y \<and> rl_to r = x \<and> l = ''<'' @ rl_type r)"
proof -
  have ex: "(\<exists>r \<in> set (gr_rels g). P r) \<longleftrightarrow> (\<exists>k < length (gr_rels g). P (gr_rels g ! k))" for P
    by (metis in_set_conv_nth)
  have "set (adj (gr_out g) x) = {k. k < length (gr_rels g) \<and> rl_from (gr_rels g ! k) = x}"
    "set (adj (gr_in g) x) = {k. k < length (gr_rels g) \<and> rl_to (gr_rels g ! k) = x}"
    using assms by (auto simp: adj_ok_def)
  then show ?thesis unfolding ex by (auto simp: steps_def image_iff)
qed

lemma hop_linked: "adj_ok g \<Longrightarrow> hop g = linked g"
  by (auto simp: hop_def linked_def steps_iff)

lemma path_ok_in: "adj_ok g \<Longrightarrow> path_ok g p = path_in g p"
  by (induction g p rule: path_ok.induct) (simp_all add: steps_iff)

lemma reachable_graph: "(graph_step ef)\<^sup>*\<^sup>* new_graph g \<Longrightarrow> graph_ok ef g"
  by (rule graph_sys.reachable_inv [OF refl])

text \<open>C25. The graph stays consistent through every sequence of upserts, new relationships and restarts: both
  adjacency maps list exactly the relationships that leave and enter an entity, endpoints exist, no
  relationship is stored twice and no two entities have the same name and type (up to case).\<close>

theorem graph_stays_consistent:
  assumes "(graph_step ef)\<^sup>*\<^sup>* new_graph g"
  shows "(\<forall>i. map (\<lambda>k. gr_rels g ! k) (adj (gr_out g) i) = filter (\<lambda>r. rl_from r = i) (gr_rels g)) \<and>
    (\<forall>i. map (\<lambda>k. gr_rels g ! k) (adj (gr_in g) i) = filter (\<lambda>r. rl_to r = i) (gr_rels g)) \<and>
    (\<forall>r \<in> set (gr_rels g). get_entity g (rl_from r) \<noteq> None \<and> get_entity g (rl_to r) \<noteq> None) \<and>
    distinct (map (\<lambda>r. (rl_from r, rl_to r, rl_type r)) (gr_rels g)) \<and>
    (equivp ef \<longrightarrow> (\<forall>i j x y. get_entity g i = Some x \<longrightarrow> get_entity g j = Some y \<longrightarrow>
       ef (en_name x) (en_name y) \<longrightarrow> ef (en_type x) (en_type y) \<longrightarrow> i = j))"
proof -
  have nth: "map (\<lambda>k. xs ! k) (filter (\<lambda>k. P (xs ! k)) [0..<length xs]) = filter P xs" for P and xs :: "relationship list"
    using filter_map [of P "\<lambda>k. xs ! k" "[0..<length xs]"] by (simp add: map_nth o_def)
  note out = nth [where P = "\<lambda>r. rl_from r = i" for i] and into = nth [where P = "\<lambda>r. rl_to r = i" for i]
  show ?thesis
    using reachable_graph [OF assms] by (simp add: graph_ok_def adj_ok_def out into same_entity_def)
qed

text \<open>The JSONL file gives the graph back: after a restart every entity, the relationships in order and
  both adjacency maps are what they were, whatever order the entities were written in.\<close>

theorem graph_survives_restart:
  assumes "(graph_step ef)\<^sup>*\<^sup>* new_graph g" and "set ids = fst ` set (gr_entities g)"
  shows "case load_graph (map Some (graph_lines ids g)) new_graph of h \<Rightarrow>
    (\<forall>i. get_entity h i = get_entity g i) \<and> gr_rels h = gr_rels g \<and>
    (\<forall>i. adj (gr_out h) i = adj (gr_out g) i \<and> adj (gr_in h) i = adj (gr_in g) i)"
  using restart_same [OF reachable_graph [OF assms(1)] assms(2)] by (simp add: same_graph_def)

text \<open>C27. \<open>ShortestPath\<close> is right: it answers nil exactly when the relationships, taken in either direction,
  do not connect the two entities; otherwise it returns an alternation of entities and relationship
  types that exists in the graph, joins the two, and has as few hops as any connection.\<close>

theorem shortest_path_correct:
  assumes "(graph_step ef)\<^sup>*\<^sup>* new_graph g"
  shows "if (a, b) \<in> (linked g)\<^sup>*
    then path_in g (shortest_path g a b) \<and> hd (shortest_path g a b) = a \<and> last (shortest_path g a b) = b \<and>
      length (shortest_path g a b) = 2 * (LEAST n. (a, b) \<in> linked g ^^ n) + 1
    else shortest_path g a b = []"
proof -
  have adj: "adj_ok g" using reachable_graph [OF assms] by (simp add: graph_ok_def)
  show ?thesis
  proof (cases "a = b")
    case True
    have "(LEAST n. (b, b) \<in> linked g ^^ n) = 0" by (rule Least_equality) auto
    with True show ?thesis by (simp add: shortest_path_def)
  next
    case False
    have "bfs_inv g a {a} [(a, [a])]" by (simp add: bfs_inv_def entry_ok_def depth_def)
    from bfs_correct [OF this, of b] False
    have r: "case bfs g b [(a, [a])] {a} of Some res \<Rightarrow> entry_ok g a (b, res) | None \<Rightarrow> (a, b) \<notin> (hop g)\<^sup>*" by simp
    show ?thesis
    proof (cases "bfs g b [(a, [a])] {a}")
      case None
      with r False hop_linked [OF adj] show ?thesis by (simp add: shortest_path_def)
    next
      case (Some p)
      with r have e: "entry_ok g a (b, p)" by simp
      then have "(LEAST n. (a, b) \<in> linked g ^^ n) = depth p"
        by (intro Least_equality) (auto simp: entry_ok_def hop_linked [OF adj])
      moreover have "(a, b) \<in> (linked g)\<^sup>*"
        using e by (auto simp: entry_ok_def hop_linked [OF adj] intro: relpow_imp_rtrancl)
      ultimately show ?thesis
        using e False Some path_ok_length [of g p] path_ok_in [OF adj, of p]
        by (simp add: shortest_path_def entry_ok_def)
    qed
  qed
qed

text \<open>\<open>Subgraph\<close> collects exactly the entities that relationships, in either direction, connect to the
  start in at most \<open>hops\<close> steps (the start itself in any case).\<close>

theorem subgraph_within_hops:
  assumes "(graph_step ef)\<^sup>*\<^sup>* new_graph g"
  shows "set (fst (subgraph g a hops)) =
    {e. \<exists>i n. get_entity g i = Some e \<and> (a, i) \<in> linked g ^^ n \<and> (n = 0 \<or> int n \<le> hops)}"
  using reachable_graph [OF assms] subgraph_entities [of g a hops] by (simp add: graph_ok_def hop_linked)

section \<open>A concrete graph\<close>

definition demo_ent :: "string \<Rightarrow> entity_candidate" where
  "demo_ent n = \<lparr>ec_name = n, ec_type = ''file'', ec_labels = []\<rparr>"

definition demo_rel :: "string \<Rightarrow> string \<Rightarrow> rel_candidate" where
  "demo_rel a b = \<lparr>rc_from = a, rc_to = b, rc_type = ''uses'', rc_weight = 1\<rparr>"

text \<open>Two entities \<open>1\<close> and \<open>2\<close>, and a relationship from the second to the first.\<close>

definition demo_graph :: graph where
  "demo_graph =
     (let g1 = fst (upsert_entity (=) [] ''1'' (demo_ent ''a'') new_graph);
          g2 = fst (upsert_entity (=) [''ent:1''] ''2'' (demo_ent ''b'') g1)
      in add_relationship (=) [''ent:1'', ''ent:2''] [''ent:2'', ''ent:1''] ''3'' (demo_rel ''b'' ''a'') g2)"

lemma demo_reachable: "(graph_step (=))\<^sup>*\<^sup>* new_graph demo_graph"
proof -
  let ?g1 = "fst (upsert_entity (=) [] ''1'' (demo_ent ''a'') new_graph)"
  let ?g2 = "fst (upsert_entity (=) [''ent:1''] ''2'' (demo_ent ''b'') ?g1)"
  have k: "map fst (gr_entities ?g1) = [''ent:1'']" "map fst (gr_entities ?g2) = [''ent:1'', ''ent:2'']"
    "get_entity ?g1 ''ent:2'' = None"
    by code_simp+
  have s1: "graph_step (=) new_graph ?g1" by (rule graph_step.upsert) (simp_all add: new_graph_def get_entity_def)
  have s2: "graph_step (=) ?g1 ?g2"
    by (rule graph_step.upsert) (use k(3) arg_cong [OF k(1), of set] in simp_all)
  have s3: "graph_step (=) ?g2 demo_graph"
    unfolding demo_graph_def Let_def
    by (rule graph_step.relate) (use arg_cong [OF k(2), of set] in auto)
  from s1 s2 s3 show ?thesis by (blast intro: rtranclp.intros)
qed

theorem graph_stays_consistent_witness:
  "distinct (map (\<lambda>r. (rl_from r, rl_to r, rl_type r)) (gr_rels demo_graph)) \<and> length (gr_rels demo_graph) = 1"
proof -
  have "length (gr_rels demo_graph) = 1" by code_simp
  with graph_stays_consistent [OF demo_reachable] show ?thesis by blast
qed

theorem graph_survives_restart_witness:
  "gr_rels (load_graph (map Some (graph_lines [''ent:2'', ''ent:1''] demo_graph)) new_graph) = gr_rels demo_graph"
proof -
  have "map fst (gr_entities demo_graph) = [''ent:1'', ''ent:2'']" by code_simp
  from arg_cong [OF this, of set] have "set [''ent:2'', ''ent:1''] = fst ` set (gr_entities demo_graph)" by auto
  from graph_survives_restart [OF demo_reachable this] show ?thesis by simp
qed

theorem shortest_path_correct_witness:
  "(''ent:1'', ''ent:2'') \<in> (linked demo_graph)\<^sup>* \<and> path_in demo_graph [''ent:1'', ''<uses'', ''ent:2'']"
proof -
  have "shortest_path demo_graph ''ent:1'' ''ent:2'' = [''ent:1'', ''<uses'', ''ent:2'']" by code_simp
  with shortest_path_correct [OF demo_reachable, of "''ent:1''" "''ent:2''"] show ?thesis by (simp split: if_splits)
qed

theorem subgraph_within_hops_witness:
  "length (fst (subgraph demo_graph ''ent:1'' 1)) = 2 \<and>
   set (fst (subgraph demo_graph ''ent:1'' 1)) =
     {e. \<exists>i n. get_entity demo_graph i = Some e \<and> (''ent:1'', i) \<in> linked demo_graph ^^ n \<and> (n = 0 \<or> int n \<le> 1)}"
proof -
  have "length (fst (subgraph demo_graph ''ent:1'' 1)) = 2" by code_simp
  with subgraph_within_hops [OF demo_reachable, of "''ent:1''" 1] show ?thesis by (intro conjI)
qed

end
