(* ===== verification/React.thy ===== *)
theory React
  imports Registry Hooks LlmCaller
begin

text \<open>
  The ReAct loop (runtime/engine/infra/react.go) and the worker's result (runtime/engine/infra/worker.go).

  The program state \<open>'s\<close> is threaded through everything the loop calls: the provider, the tools, the
  hooks and the gate.  The agent's environment \<open>react_env\<close> holds what the source reaches through
  interfaces: \<open>rx_poll\<close> is the \<open>select\<close> over the abort signal and the context (Go chooses when both
  are ready), \<open>rx_new_id\<close> the id generator.  The loop's fuel counts iterations; with a positive
  \<open>max_steps\<close> that many and one more are enough (\<open>react_loop_bounded\<close>).  Step tracing is not
  modelled.
\<close>

section \<open>The agent\<close>

record 's human_loop =
  hl_tools :: "(string \<times> 's registry_entry) list"   \<comment> \<open>\<open>localTools\<close> and \<open>localDefs\<close>\<close>

record 's agent =
  ag_registry :: "'s registry"
  ag_identity :: agent_identity
  ag_hooks :: "'s hooks"
  ag_tool_names :: "string list option"
  ag_cache :: "tool_definition list option"
  ag_step :: nat
  ag_max_steps :: nat
  ag_human :: "'s human_loop option"
  ag_human_factory :: "(tool_definition \<times> 's tool_fn) option"

datatype poll = PollAbort | PollDone err | PollNone

record 's react_env =
  rx_generate :: "'s provider"
  rx_poll :: "'s \<Rightarrow> 's \<times> poll"
  rx_on_result :: "(tool_call_result list \<Rightarrow> nat \<Rightarrow> 's \<Rightarrow> 's \<times> bool) option"
  rx_gate :: "('s \<Rightarrow> 's) option"
  rx_new_id :: "'s \<Rightarrow> 's \<times> string"
  rx_session :: string

definition with_tools :: "string list \<Rightarrow> 's agent \<Rightarrow> 's agent" where
  "with_tools names a =
     a\<lparr>ag_cache := None, ag_tool_names := (if names = [] then None else Some names)\<rparr>"

definition register_local_ask_human :: "'s agent \<Rightarrow> 's agent" where
  "register_local_ask_human a =
     (case ag_human_factory a of
        None \<Rightarrow> a
      | Some (d, f) \<Rightarrow>
          a\<lparr>ag_human := map_option (\<lambda>h. h\<lparr>hl_tools := AList.update (td_name d) \<lparr>re_fn = f, re_def = d\<rparr> (hl_tools h)\<rparr>)
                                   (ag_human a)\<rparr>)"

definition enable_human_in_the_loop :: "'s agent \<Rightarrow> 's agent" where
  "enable_human_in_the_loop a =
     (if ag_human a \<noteq> None then a
      else register_local_ask_human (a\<lparr>ag_cache := None, ag_human := Some \<lparr>hl_tools = []\<rparr>\<rparr>))"

section \<open>Visible tools\<close>

definition local_defs :: "'s agent \<Rightarrow> tool_definition list" where
  "local_defs a = (case ag_human a of None \<Rightarrow> [] | Some h \<Rightarrow> map (re_def \<circ> snd) (hl_tools h))"

definition all_tools :: "'s agent \<Rightarrow> tool_definition list" where
  "all_tools a = list_definitions (ag_registry a) @ local_defs a"

definition visible_tools :: "'s agent \<Rightarrow> 's agent \<times> tool_definition list" where
  "visible_tools a =
     (case ag_tool_names a of
        None \<Rightarrow> (a, all_tools a)
      | Some names \<Rightarrow>
          (case ag_cache a of
             Some c \<Rightarrow> (a, c)
           | None \<Rightarrow>
               (let filtered = filter (\<lambda>d. td_name d \<in> set names) (all_tools a)
                in (a\<lparr>ag_cache := Some filtered\<rparr>, filtered))))"

section \<open>Tool calls\<close>

text \<open>\<open>extractToolCalls\<close> is \<open>toolCalls\<close> of llm/caller.go with the nil case written out.\<close>

fun extract_tool_calls :: "content \<Rightarrow> tool_call_detail list" where
  "extract_tool_calls NilContent = []"
| "extract_tool_calls (ToolCallContent ds) = ds"
| "extract_tool_calls (CompositeContent ps) = concat (map part_calls ps)"
| "extract_tool_calls _ = []"

definition call_tool :: "'s react_env \<Rightarrow> 's agent \<Rightarrow> tool_call_detail \<Rightarrow> 's \<Rightarrow> 's \<times> tool_call_result" where
  "call_tool env a d s =
     (let s1 = (case rx_gate env of None \<Rightarrow> s | Some wait \<Rightarrow> wait s) in
      case (case ag_human a of None \<Rightarrow> None | Some h \<Rightarrow> map_of (hl_tools h) (tcd_name d)) of
        Some e \<Rightarrow> re_fn e (rx_session env) d s1
      | None \<Rightarrow> reg_call (ag_registry a) (rx_session env) d s1)"

fun execute_tools :: "'s react_env \<Rightarrow> 's agent \<Rightarrow> tool_call_detail list \<Rightarrow> 's \<Rightarrow>
    's \<times> tool_call_result list" where
  "execute_tools env a [] s = (s, [])"
| "execute_tools env a (d # ds) s =
     (let (s1, r) = call_tool env a d s;
          (s2, r') = fire_result (hk_tool_call_end (ag_hooks a)) (ag_identity a) r s1;
          (s3, rs) = execute_tools env a ds s2
      in (s3, r' # rs))"

definition need_early_terminating :: "'s registry \<Rightarrow> tool_call_result list \<Rightarrow> bool" where
  "need_early_terminating tr rs =
     list_ex (\<lambda>r. is_terminating tr (tcr_name r) \<and> map_of (tcr_outputs r) ''error'' = None) rs"

definition strip_dangling_tool_calls :: "message list \<Rightarrow> message list" where
  "strip_dangling_tool_calls ms =
     (if ms = [] then ms
      else (let l = last ms in
            if m_role l \<noteq> RoleAssistant then ms
            else if extract_tool_calls (m_content l) \<noteq> [] then butlast ms else ms))"

section \<open>The loop\<close>

text \<open>
  One iteration from the select on: it returns, or goes on with the messages it has added.  \<open>inp\<close> are the
  input messages of the next request, \<open>out\<close> the messages collected for the caller.
\<close>

datatype 's step_result =
    Return 's "message list" "err option"
  | Continue 's "message list" "message list"

definition notify_usage :: "'s agent \<Rightarrow> message \<Rightarrow> 's \<Rightarrow> 's" where
  "notify_usage a m s =
     (case m_usage m of
        None \<Rightarrow> s
      | Some u \<Rightarrow> as_model_event_handler (ag_hooks a) (ag_identity a) (OnUsageUpdated u) s)"

definition react_step :: "'s react_env \<Rightarrow> 's agent \<Rightarrow> nat \<Rightarrow> message list \<Rightarrow> message list \<Rightarrow> 's \<Rightarrow>
    's step_result" where
  "react_step env a step inp out s =
     (case rx_poll env s of
        (s1, PollAbort) \<Rightarrow> Return s1 (strip_dangling_tool_calls out) None
      | (s1, PollDone e) \<Rightarrow> Return s1 (strip_dangling_tool_calls out) (Some e)
      | (s1, PollNone) \<Rightarrow>
          (case rx_generate env inp (snd (visible_tools a)) s1 of
             (s2, GenErr e _) \<Rightarrow> Return s2 out (Some e)
           | (s2, GenOk m) \<Rightarrow>
               (let s3 = notify_usage a m s2;
                    details = extract_tool_calls (m_content m)
                in if details = [] then Return s3 (out @ [m]) None
                   else
                     (let (s4, rs) = execute_tools env a details s3;
                          (s5, mid) = rx_new_id env s4;
                          tool_msg = new_tool_message mid rs;
                          out' = out @ [m, tool_msg];
                          (s6, go_on) = (case rx_on_result env of None \<Rightarrow> (s5, True) | Some f \<Rightarrow> f rs step s5)
                      in if \<not> go_on then Return s6 out' None
                         else if need_early_terminating (ag_registry a) rs then Return s6 out' None
                         else Continue s6 (inp @ [m, tool_msg]) out'))))"

fun react_loop :: "nat \<Rightarrow> 's react_env \<Rightarrow> 's agent \<Rightarrow> nat \<Rightarrow> message list \<Rightarrow> message list \<Rightarrow> 's \<Rightarrow>
    ('s \<times> message list \<times> err option) option" where
  "react_loop 0 env a step inp out s = None"
| "react_loop (Suc n) env a step inp out s =
     (let step' = step + 1 in
      if ag_max_steps a > 0 \<and> step' > ag_max_steps a
      then Some (s, strip_dangling_tool_calls out, Some ErrMaxStepsExceeded)
      else (case react_step env a step' inp out s of
              Return s' ms e \<Rightarrow> Some (s', ms, e)
            | Continue s' inp' out' \<Rightarrow> react_loop n env a step' inp' out' s'))"

text \<open>The whitelist of one call overrides the agent's for its duration; \<open>defer\<close> restores names and cache.\<close>

definition override_tools :: "string list option \<Rightarrow> 's agent \<Rightarrow> 's agent" where
  "override_tools tools a =
     (case tools of None \<Rightarrow> a | Some names \<Rightarrow> a\<lparr>ag_tool_names := Some names, ag_cache := None\<rparr>)"

definition execute_with_tools :: "nat \<Rightarrow> 's react_env \<Rightarrow> 's agent \<Rightarrow> message \<Rightarrow> message list \<Rightarrow>
    string list option \<Rightarrow> 's \<Rightarrow> ('s \<times> message list \<times> err option) option" where
  "execute_with_tools fuel env a sys_msg user_msgs tools s =
     react_loop fuel env (override_tools tools a) 0 (sys_msg # user_msgs) [] s"

section \<open>The worker's result (worker.go)\<close>

record worker_result =
  wr_output :: string
  wr_usage :: usage
  wr_err :: "err option"

definition wr_write :: "string \<Rightarrow> worker_result \<Rightarrow> worker_result" where
  "wr_write chunk r = r\<lparr>wr_output := wr_output r @ chunk\<rparr>"

definition wr_add_usage :: "usage \<Rightarrow> worker_result \<Rightarrow> worker_result" where
  "wr_add_usage u r =
     r\<lparr>wr_usage := \<lparr>u_total = u_total (wr_usage r) + u_total u, u_input = u_input (wr_usage r) + u_input u,
        u_cached = u_cached (wr_usage r) + u_cached u, u_reasoning = u_reasoning (wr_usage r) + u_reasoning u,
        u_output = u_output (wr_usage r) + u_output u\<rparr>\<rparr>"

definition wr_set_err :: "err \<Rightarrow> worker_result \<Rightarrow> worker_result" where
  "wr_set_err e r = (if wr_err r = None then r\<lparr>wr_err := Some e\<rparr> else r)"

fun extract_reply_text :: "content \<Rightarrow> string" where
  "extract_reply_text (TextContent t) = t"
| "extract_reply_text (CompositeContent ps) = concat (map part_text ps)"
| "extract_reply_text _ = []"

text \<open>The part of \<open>ExecuteTask\<close> after \<open>agent.Execute\<close> has returned.\<close>

definition finish_task :: "message list \<Rightarrow> err option \<Rightarrow> worker_result \<Rightarrow> string \<times> usage option \<times> err option" where
  "finish_task ms e r =
     (let r1 = (case e of None \<Rightarrow> r | Some e \<Rightarrow> wr_set_err e r);
          r2 = fold (\<lambda>m r. let t = extract_reply_text (m_content m) in if t \<noteq> [] then wr_write t r else r) ms r1
      in (wr_output r2, Some (wr_usage r2), wr_err r2))"

section \<open>Transcripts\<close>

text \<open>
  What a caller may append to a conversation: each assistant message with tool calls is followed by a
  tool message with as many results, and only the last message may be one without calls.
\<close>

fun paired :: "message list \<Rightarrow> bool" where
  "paired [] = True"
| "paired [m] = (extract_tool_calls (m_content m) = [])"
| "paired (m # t # ms) =
     (extract_tool_calls (m_content m) \<noteq> [] \<and> m_role t = RoleTool \<and>
      length (tool_results t) = length (extract_tool_calls (m_content m)) \<and> paired ms)"

fun rounds :: "message list \<Rightarrow> bool" where
  "rounds [] = True"
| "rounds [m] = False"
| "rounds (m # t # ms) =
     (extract_tool_calls (m_content m) \<noteq> [] \<and> m_role t = RoleTool \<and>
      length (tool_results t) = length (extract_tool_calls (m_content m)) \<and> rounds ms)"

lemma rounds_paired: "rounds ms \<Longrightarrow> paired ms"
  by (induction ms rule: rounds.induct) auto

lemma rounds_snoc:
  "rounds ms \<Longrightarrow> extract_tool_calls (m_content m) = [] \<Longrightarrow> paired (ms @ [m])"
  by (induction ms rule: rounds.induct) auto

lemma rounds_round:
  "rounds ms \<Longrightarrow> extract_tool_calls (m_content m) \<noteq> [] \<Longrightarrow> m_role t = RoleTool \<Longrightarrow>
   length (tool_results t) = length (extract_tool_calls (m_content m)) \<Longrightarrow> rounds (ms @ [m, t])"
  by (induction ms rule: rounds.induct) auto

lemma rounds_last: "rounds ms \<Longrightarrow> ms \<noteq> [] \<Longrightarrow> m_role (last ms) = RoleTool"
  by (induction ms rule: rounds.induct) auto

text \<open>So \<open>stripDanglingToolCalls\<close> never has anything to strip in the loop.\<close>

lemma strip_rounds: "rounds ms \<Longrightarrow> strip_dangling_tool_calls ms = ms"
  using rounds_last [of ms] by (auto simp: strip_dangling_tool_calls_def Let_def)

lemma execute_tools_length: "length (snd (execute_tools env a ds s)) = length ds"
  by (induction ds arbitrary: s) (auto simp: Let_def split: prod.splits, metis snd_conv)

lemma react_step_rounds:
  assumes "rounds out"
  shows "(\<forall>s' ms e. react_step env a n inp out s = Return s' ms e \<longrightarrow> paired ms \<and> length ms \<le> length out + 2) \<and>
    (\<forall>s' inp' out'. react_step env a n inp out s = Continue s' inp' out' \<longrightarrow>
       rounds out' \<and> length out' = length out + 2)"
proof -
  have round: "rounds (out @ [m, new_tool_message mid rs])"
    if "extract_tool_calls (m_content m) \<noteq> []" "execute_tools env a (extract_tool_calls (m_content m)) t = (s4, rs)"
    for m mid rs t s4
    by (rule rounds_round [OF assms that(1)])
      (use execute_tools_length [of env a "extract_tool_calls (m_content m)" t] that(2) in
        \<open>simp_all add: new_tool_message_def new_message_def tool_results_def\<close>)
  show ?thesis
    using rounds_paired [OF assms] strip_rounds [OF assms] rounds_snoc [OF assms] round rounds_paired [OF round]
    by (auto simp: react_step_def Let_def split: prod.splits poll.splits gen_result.splits if_splits)
qed

lemma react_loop_paired:
  "react_loop n env a k inp out s = Some (s', ms, e) \<Longrightarrow> rounds out \<Longrightarrow> paired ms"
proof (induction n arbitrary: k inp out s)
  case (Suc n)
  note st = react_step_rounds [OF Suc.prems(2), of env a "k + 1" inp s]
  show ?case
  proof (cases "ag_max_steps a > 0 \<and> k + 1 > ag_max_steps a")
    case True
    with Suc.prems show ?thesis by (auto simp: Let_def strip_rounds rounds_paired)
  next
    case False
    show ?thesis
    proof (cases "react_step env a (k + 1) inp out s")
      case (Return s1 ms1 e1)
      with False Suc.prems(1) st show ?thesis by (auto simp: Let_def)
    next
      case (Continue s1 inp1 out1)
      with False Suc.prems(1) have "react_loop n env a (k + 1) inp1 out1 s1 = Some (s', ms, e)"
        by (auto simp: Let_def split: if_splits)
      from Suc.IH [OF this] st Continue show ?thesis by blast
    qed
  qed
qed simp

lemma react_loop_bounded:
  assumes "ag_max_steps a > 0" "k + n = ag_max_steps a + 1" "k \<le> ag_max_steps a" "rounds out" "length out = 2 * k"
  shows "\<exists>s' ms e. react_loop n env a k inp out s = Some (s', ms, e) \<and> length ms \<le> 2 * ag_max_steps a"
  using assms(2-)
proof (induction n arbitrary: k inp out s)
  case (Suc n)
  note st = react_step_rounds [OF Suc.prems(3), of env a "k + 1" inp s]
  show ?case
  proof (cases "k + 1 > ag_max_steps a")
    case True
    with assms(1) Suc.prems show ?thesis by (simp add: Let_def strip_rounds)
  next
    case False
    show ?thesis
    proof (cases "react_step env a (k + 1) inp out s")
      case (Return s1 ms1 e1)
      with st have "length ms1 \<le> 2 * k + 2" using Suc.prems(4) by auto
      with Return False show ?thesis by (simp add: Let_def)
    next
      case (Continue s1 inp1 out1)
      with st have r: "rounds out1" "length out1 = 2 * (k + 1)" using Suc.prems(4) by auto
      have "\<exists>s' ms e. react_loop n env a (k + 1) inp1 out1 s1 = Some (s', ms, e) \<and> length ms \<le> 2 * ag_max_steps a"
        by (rule Suc.IH) (use r Suc.prems False in auto)
      with Continue False show ?thesis by (simp add: Let_def)
    qed
  qed
qed simp

section \<open>What the loop guarantees\<close>

text \<open>C13. With a positive step limit \<open>m\<close> the ReAct loop returns, whatever the model, the tools and the hooks
  do: \<open>m + 1\<close> iterations are enough, and at most \<open>m\<close> rounds of messages come back.\<close>

theorem react_terminates:
  assumes "ag_max_steps a > 0"
  shows "\<exists>s' ms e. execute_with_tools (ag_max_steps a + 1) env a sys_msg user_msgs tools s = Some (s', ms, e) \<and>
    length ms \<le> 2 * ag_max_steps a"
proof -
  have m: "ag_max_steps (override_tools tools a) = ag_max_steps a"
    by (simp add: override_tools_def split: option.splits)
  show ?thesis
    unfolding execute_with_tools_def
    using react_loop_bounded [of "override_tools tools a" 0 "ag_max_steps a + 1" "[]" env "sys_msg # user_msgs" s]
      assms by (simp add: m)
qed


text \<open>An agent with one tool \<open>bomb\<close> that flips the state, and a model that calls it forever.\<close>

definition bomb_def :: tool_definition where
  "bomb_def = \<lparr>td_name = ''bomb'', td_description = [], td_schema = [], td_output_schema = [],
     td_terminating = False\<rparr>"

definition bomb :: "bool tool_fn" where
  "bomb sid d s = (True, \<lparr>tcr_id = tcd_id d, tcr_name = ''bomb'', tcr_outputs = []\<rparr>)"

definition demo_agent :: "nat \<Rightarrow> bool agent" where
  "demo_agent m = \<lparr>ag_registry = register bomb_def bomb empty_registry, ag_identity = AgentWorker,
     ag_hooks = no_hooks, ag_tool_names = None, ag_cache = None, ag_step = 0, ag_max_steps = m,
     ag_human = None, ag_human_factory = None\<rparr>"

definition demo_env :: "bool react_env" where
  "demo_env = \<lparr>rx_generate = (\<lambda>_ _ s. (s, GenOk (new_assistant_message ''m'' (ToolCallContent
       [\<lparr>tcd_id = ''c'', tcd_name = ''bomb'', tcd_args = []\<rparr>])))),
     rx_poll = (\<lambda>s. (s, PollNone)), rx_on_result = None, rx_gate = None, rx_new_id = (\<lambda>s. (s, ''i'')),
     rx_session = ''s''\<rparr>"

theorem react_terminates_witness:
  "\<exists>s' ms e. execute_with_tools 3 demo_env (demo_agent 2) (new_system_message ''0'' (TextContent []))
     [new_user_message ''1'' (TextContent ''go'')] None False = Some (s', ms, e) \<and> length ms \<le> 4"
proof -
  have m: "ag_max_steps (demo_agent 2) = 2" by (simp add: demo_agent_def)
  show ?thesis
    using react_terminates [of "demo_agent 2" demo_env "new_system_message ''0'' (TextContent [])"
        "[new_user_message ''1'' (TextContent ''go'')]" None False]
    unfolding m by simp
qed


text \<open>The tool whitelist only hides tools from the model, it does not stop their execution: a call is
  resolved in the whole registry.  Here a call allows no tool at all, and the model's call of a
  registered tool is executed.\<close>

theorem whitelist_not_enforced:
  "call_tool env (a\<lparr>ag_tool_names := names, ag_cache := c\<rparr>) d s = call_tool env a d s \<and>
   snd (visible_tools (override_tools (Some []) (demo_agent 1))) = [] \<and>
   (case execute_with_tools 2 demo_env (demo_agent 1) (new_system_message ''0'' (TextContent [])) []
        (Some []) False of
      Some (s', ms, e) \<Rightarrow> s'
    | None \<Rightarrow> False)"
proof (intro conjI)
  have "ag_registry (a\<lparr>ag_tool_names := names, ag_cache := c\<rparr>) = ag_registry a"
    "ag_human (a\<lparr>ag_tool_names := names, ag_cache := c\<rparr>) = ag_human a" by simp_all
  then show "call_tool env (a\<lparr>ag_tool_names := names, ag_cache := c\<rparr>) d s = call_tool env a d s"
    unfolding call_tool_def by (simp only:)
  show "snd (visible_tools (override_tools (Some []) (demo_agent 1))) = []"
    by (simp add: visible_tools_def override_tools_def demo_agent_def Let_def)
  show "case execute_with_tools 2 demo_env (demo_agent 1) (new_system_message ''0'' (TextContent [])) []
        (Some []) False of Some (s', ms, e) \<Rightarrow> s' | None \<Rightarrow> False"
    by (simp add: execute_with_tools_def override_tools_def demo_env_def demo_agent_def react_step_def
        numeral_2_eq_2 Let_def notify_usage_def new_assistant_message_def new_message_def call_tool_def
        reg_call_def register_def reg_lookup_def reg_put_def bomb_def_def bomb_def no_hooks_def
        empty_registry_def need_early_terminating_def is_terminating_def)
qed

text \<open>An interrupted worker counts as successful: when the loop sees the abort signal (which the worker
  raises itself when its context is cancelled) it returns the rounds so far without an error, and
  the task result carries none.\<close>

theorem interrupted_worker_reports_success:
  assumes "rx_poll env s = (s1, PollAbort)" and "rounds out"
    and "ag_max_steps a = 0 \<or> k + 1 \<le> ag_max_steps a"
  shows "react_loop (Suc n) env a k inp out s = Some (s1, out, None) \<and>
    snd (snd (finish_task out None \<lparr>wr_output = [], wr_usage = usage_zero, wr_err = None\<rparr>)) = None"
proof
  show "react_loop (Suc n) env a k inp out s = Some (s1, out, None)"
    using assms by (auto simp: Let_def react_step_def strip_rounds)
  have "wr_err (fold (\<lambda>m r. let t = extract_reply_text (m_content m) in if t \<noteq> [] then wr_write t r else r) ms r)
      = wr_err r" for ms :: "message list" and r :: worker_result
    by (induction ms arbitrary: r) (simp_all add: Let_def wr_write_def)
  then show "snd (snd (finish_task out None \<lparr>wr_output = [], wr_usage = usage_zero, wr_err = None\<rparr>)) = None"
    by (simp add: finish_task_def Let_def)
qed

theorem interrupted_worker_reports_success_witness:
  "react_loop 1 (demo_env\<lparr>rx_poll := (\<lambda>s. (s, PollAbort))\<rparr>) (demo_agent 2) 0 [] [] False = Some (False, [], None)"
  using interrupted_worker_reports_success [of "demo_env\<lparr>rx_poll := (\<lambda>s. (s, PollAbort))\<rparr>" False False "[]"
      "demo_agent 2" 0 0 "[]"]
  by (simp add: demo_agent_def)

section \<open>The tool list cache\<close>

definition cache_ok :: "'s agent \<Rightarrow> bool" where
  "cache_ok a \<longleftrightarrow> (\<forall>c. ag_cache a = Some c \<longrightarrow>
     (\<exists>names. ag_tool_names a = Some names \<and> c = filter (\<lambda>d. td_name d \<in> set names) (all_tools a)))"

text \<open>What is done to an agent between and during runs; \<open>override_tools\<close> and the restoring \<open>defer\<close> bracket a run.\<close>

inductive agent_step :: "'s agent \<Rightarrow> 's agent \<Rightarrow> bool" where
  "agent_step a (with_tools names a)"
| "agent_step a (enable_human_in_the_loop a)"
| "agent_step a (fst (visible_tools a))"
| "agent_step a (override_tools tools a)"

lemma all_tools_update [simp]:
  "all_tools (a\<lparr>ag_cache := c\<rparr>) = all_tools a" "all_tools (a\<lparr>ag_tool_names := t\<rparr>) = all_tools a"
  by (simp_all add: all_tools_def local_defs_def)

interpretation agent_sys: transition_system "\<lambda>a. ag_cache a = None" agent_step cache_ok
proof
  show "cache_ok a" if "ag_cache a = None" for a :: "'a agent" using that by (simp add: cache_ok_def)
  show "cache_ok b" if "cache_ok a" "agent_step a b" for a b :: "'a agent"
    using that(2,1)
  proof cases
    case (1 names)
    then show ?thesis by (simp add: cache_ok_def with_tools_def)
  next
    case 2
    with that(1) show ?thesis
      by (auto simp: cache_ok_def enable_human_in_the_loop_def register_local_ask_human_def
          split: option.splits if_splits prod.splits)
  next
    case 3
    with that(1) show ?thesis
      by (auto simp: cache_ok_def visible_tools_def Let_def split: option.splits)
  next
    case (4 tools)
    with that(1) show ?thesis by (auto simp: cache_ok_def override_tools_def split: option.splits)
  qed
qed

text \<open>The cached tool list is never stale: after any sequence of tool selections, overrides, reads and
  enabling of the human in the loop, the tools shown to the model are exactly the registered and
  local tools that the current whitelist names (all of them without a whitelist).\<close>

theorem visible_tools_current:
  assumes "ag_cache a0 = None" and "agent_step\<^sup>*\<^sup>* a0 a"
  shows "snd (visible_tools a) =
    (case ag_tool_names a of
       None \<Rightarrow> list_definitions (ag_registry a) @ local_defs a
     | Some names \<Rightarrow> filter (\<lambda>d. td_name d \<in> set names) (list_definitions (ag_registry a) @ local_defs a))"
proof -
  have "cache_ok a" by (rule agent_sys.reachable_inv [OF assms])
  then show ?thesis
    by (auto simp: cache_ok_def visible_tools_def all_tools_def Let_def split: option.splits)
qed

theorem visible_tools_current_witness:
  "map td_name (snd (visible_tools (with_tools [''bomb''] (fst (visible_tools (with_tools [''x''] (demo_agent 1))))))) = [''bomb'']"
proof -
  let ?a0 = "demo_agent 1"
  let ?a = "with_tools [''bomb''] (fst (visible_tools (with_tools [''x''] ?a0)))"
  have "agent_step\<^sup>*\<^sup>* ?a0 ?a"
    by (meson agent_step.intros rtranclp.rtrancl_into_rtrancl rtranclp.rtrancl_refl)
  from visible_tools_current [OF _ this] show ?thesis
    by (simp add: demo_agent_def with_tools_def visible_tools_def Let_def list_definitions_def register_def
        reg_put_def empty_registry_def bomb_def_def local_defs_def)
qed

text \<open>A worker's usage is the sum of all usages reported to it, in 64-bit arithmetic, its output the
  concatenation of what was written, and its error the first one raised.\<close>

theorem worker_result_accumulates:
  "wr_usage (fold wr_add_usage us r) =
     \<lparr>u_total = u_total (wr_usage r) + (\<Sum>u\<leftarrow>us. u_total u), u_input = u_input (wr_usage r) + (\<Sum>u\<leftarrow>us. u_input u),
      u_cached = u_cached (wr_usage r) + (\<Sum>u\<leftarrow>us. u_cached u),
      u_reasoning = u_reasoning (wr_usage r) + (\<Sum>u\<leftarrow>us. u_reasoning u),
      u_output = u_output (wr_usage r) + (\<Sum>u\<leftarrow>us. u_output u)\<rparr> \<and>
   wr_output (fold wr_write cs r) = wr_output r @ concat cs \<and>
   wr_err (fold wr_set_err es r) =
     (case wr_err r of Some e \<Rightarrow> Some e | None \<Rightarrow> (case es of [] \<Rightarrow> None | e # _ \<Rightarrow> Some e))"
proof (intro conjI)
  show "wr_usage (fold wr_add_usage us r) =
     \<lparr>u_total = u_total (wr_usage r) + (\<Sum>u\<leftarrow>us. u_total u), u_input = u_input (wr_usage r) + (\<Sum>u\<leftarrow>us. u_input u),
      u_cached = u_cached (wr_usage r) + (\<Sum>u\<leftarrow>us. u_cached u),
      u_reasoning = u_reasoning (wr_usage r) + (\<Sum>u\<leftarrow>us. u_reasoning u),
      u_output = u_output (wr_usage r) + (\<Sum>u\<leftarrow>us. u_output u)\<rparr>"
    by (induction us arbitrary: r) (simp_all add: wr_add_usage_def)
  show "wr_output (fold wr_write cs r) = wr_output r @ concat cs"
    by (induction cs arbitrary: r) (simp_all add: wr_write_def)
  have keep: "wr_err (fold wr_set_err es r) = Some e" if "wr_err r = Some e" for es r e
    using that by (induction es) (simp_all add: wr_set_err_def)
  show "wr_err (fold wr_set_err es r) =
     (case wr_err r of Some e \<Rightarrow> Some e | None \<Rightarrow> (case es of [] \<Rightarrow> None | e # _ \<Rightarrow> Some e))"
    by (cases es) (auto simp: keep wr_set_err_def split: option.splits)
qed

end
