(* ===== verification/PauseGate.thy ===== *)
theory PauseGate
  imports Prelude
begin

text \<open>
  The reference-counted pause gate (runtime/engine/infra/pause\_gate.go) with the threads that wait in
  it.  A thread in \<open>WaitIfPaused\<close> is asleep in \<open>cond.Wait\<close>, or has been woken by a broadcast and must
  take the lock and look at the counter again, or has passed.
\<close>

record gate =
  g_paused :: nat
  g_asleep :: "nat list"
  g_woken :: "nat list"
  g_passed :: "nat list"

definition new_pause_gate :: gate where
  "new_pause_gate = \<lparr>g_paused = 0, g_asleep = [], g_woken = [], g_passed = []\<rparr>"

definition gate_pause :: "gate \<Rightarrow> gate" where
  "gate_pause g = g\<lparr>g_paused := g_paused g + 1\<rparr>"

definition gate_resume :: "gate \<Rightarrow> gate" where
  "gate_resume g =
     (let g1 = (if g_paused g > 0 then g\<lparr>g_paused := g_paused g - 1\<rparr> else g)
      in g1\<lparr>g_woken := g_woken g1 @ g_asleep g1, g_asleep := []\<rparr>)"

text \<open>The test of the loop \<open>for g.paused > 0 { g.cond.Wait() }\<close>, made by a thread that holds the lock.\<close>

definition gate_check :: "nat \<Rightarrow> gate \<Rightarrow> gate" where
  "gate_check t g =
     (if g_paused g > 0 then g\<lparr>g_asleep := g_asleep g @ [t]\<rparr> else g\<lparr>g_passed := g_passed g @ [t]\<rparr>)"

text \<open>Entering \<open>WaitIfPaused\<close>, and going round its loop after a broadcast.\<close>

inductive gate_step :: "gate \<Rightarrow> gate \<Rightarrow> bool" where
  "gate_step g (gate_pause g)"
| "gate_step g (gate_resume g)"
| "gate_step g (gate_check t g)"
| "t \<in> set (g_woken g) \<Longrightarrow> gate_step g (gate_check t (g\<lparr>g_woken := remove1 t (g_woken g)\<rparr>))"

inductive_cases gate_stepE: "gate_step g h"

text \<open>No lost wakeup: a thread sleeps only while the gate is paused.\<close>

definition gate_inv :: "gate \<Rightarrow> bool" where
  "gate_inv g \<longleftrightarrow> (g_asleep g \<noteq> [] \<longrightarrow> g_paused g > 0)"

interpretation gate_sys: transition_system "\<lambda>g. g = new_pause_gate" gate_step gate_inv
proof
  show "gate_inv g" if "g = new_pause_gate" for g
    using that by (simp add: gate_inv_def new_pause_gate_def)
  show "gate_inv h" if "gate_inv g" "gate_step g h" for g h
    using that(2,1)
    by cases (auto simp: gate_inv_def gate_pause_def gate_resume_def gate_check_def Let_def)
qed

lemma pauses_add: "g_paused ((gate_pause ^^ n) g) = g_paused g + n"
  by (induction n) (simp_all add: gate_pause_def)

lemma resumes_sub: "g_paused ((gate_resume ^^ n) g) = g_paused g - n"
  by (induction n) (auto simp: gate_resume_def Let_def)

text \<open>No thread is left asleep at an open gate: in every reachable state with a zero counter nobody
  sleeps, and after \<open>n\<close> pauses of an open gate it takes exactly \<open>n\<close> resumes to open it again, extra
  resumes being harmless.\<close>

theorem pause_gate_counts:
  "(\<forall>g. gate_step\<^sup>*\<^sup>* new_pause_gate g \<and> g_paused g = 0 \<longrightarrow> g_asleep g = []) \<and>
   (\<forall>g n m. g_paused g = 0 \<longrightarrow>
      (g_paused ((gate_resume ^^ m) ((gate_pause ^^ n) g)) = 0 \<longleftrightarrow> n \<le> m))"
proof (intro conjI allI impI)
  fix g assume g: "gate_step\<^sup>*\<^sup>* new_pause_gate g \<and> g_paused g = 0"
  then have "gate_inv g" using gate_sys.reachable_inv [OF refl] by blast
  with g show "g_asleep g = []" by (auto simp: gate_inv_def)
next
  fix g :: gate and n m :: nat assume "g_paused g = 0"
  then show "g_paused ((gate_resume ^^ m) ((gate_pause ^^ n) g)) = 0 \<longleftrightarrow> n \<le> m"
    by (simp add: pauses_add resumes_sub)
qed

theorem pause_gate_counts_witness:
  "g_paused ((gate_resume ^^ 2) ((gate_pause ^^ 2) new_pause_gate)) = 0 \<and>
   g_paused ((gate_resume ^^ 1) ((gate_pause ^^ 2) new_pause_gate)) \<noteq> 0"
proof -
  have z: "g_paused new_pause_gate = 0" by (simp add: new_pause_gate_def)
  have "g_paused ((gate_resume ^^ m) ((gate_pause ^^ n) new_pause_gate)) = 0 \<longleftrightarrow> n \<le> m" for n m
    using pause_gate_counts z by blast
  then show ?thesis by (metis le_refl numeral_le_one_iff semiring_norm(69))
qed

end
