(* ===== verification/Converter.thy ===== *)
theory Converter
  imports Json Hooks
begin

text \<open>
  The Chat Completions wire format (provider/chat\_completions): messages and tools as request
  parameters, answers and stream chunks as messages, and the aggregation of a stream.  The types of
  the OpenAI SDK that the code builds or reads are datatypes with the fields it uses.  The text form
  of JSON maps is the argument \<open>json_codec\<close> (\<open>json.Marshal\<close> and \<open>json.Unmarshal\<close> on \<open>map[string]any\<close>); raw
  responses, which are read for \<open>reasoning_content\<close> only, are JSON trees.  A nil map and an empty one are
  both the empty list.  The event handler's calls are the list of its events, in order.
\<close>

section \<open>JSON text (utils/utils.go)\<close>

record json_codec =
  jc_marshal :: "(string \<times> val) list \<Rightarrow> string option"
  jc_unmarshal :: "string \<Rightarrow> (string \<times> val) list option"

definition convert_map_to_json_string :: "json_codec \<Rightarrow> (string \<times> val) list \<Rightarrow> string" where
  "convert_map_to_json_string jc m = (case jc_marshal jc m of None \<Rightarrow> ''{}'' | Some t \<Rightarrow> t)"

definition convert_json_string_to_map :: "json_codec \<Rightarrow> string \<Rightarrow> (string \<times> val) list" where
  "convert_json_string_to_map jc t = (case jc_unmarshal jc t of None \<Rightarrow> [] | Some m \<Rightarrow> m)"

section \<open>Request parameters\<close>

datatype api_part =
    TextPart string
  | ImagePart string string
  | AudioPart string string

record api_call =
  ac_id :: string
  ac_name :: string
  ac_args :: string

text \<open>An assistant message has optional text, tool calls and the extra field \<open>reasoning_content\<close> (empty: not set).\<close>

datatype api_message =
    SystemParam string
  | UserText string
  | UserParts "api_part list"
  | AssistantParam "string option" "api_call list" string
  | ToolParam string string

text \<open>\<open>%T\<close>\<close>

fun go_type_name :: "content \<Rightarrow> string" where
  "go_type_name (TextContent _) = ''types.TextContent''"
| "go_type_name (ReasoningContent _) = ''types.ReasoningContent''"
| "go_type_name (ToolCallContent _) = ''types.ToolCallContent''"
| "go_type_name (ToolResultContent _) = ''types.ToolResultContent''"
| "go_type_name (MultiModalContent _) = ''types.MultiModalContent''"
| "go_type_name (CompositeContent _) = ''types.CompositeContent''"
| "go_type_name NilContent = ''<nil>''"

section \<open>Messages (core to API)\<close>

fun plain_text :: "content \<Rightarrow> err + string" where
  "plain_text NilContent = Inl (ErrOther ''content is nil'')"
| "plain_text (TextContent t) = Inr t"
| "plain_text c = Inl (ErrOther (''expected TextContent, got '' @ go_type_name c))"

definition audio_format :: "string \<Rightarrow> string" where
  "audio_format mime = (case strip_prefix ''audio/'' mime of Some after \<Rightarrow> after | None \<Rightarrow> ''wav'')"

definition media_content_part :: "multimodal \<Rightarrow> err + api_part" where
  "media_content_part d =
     (let url = ''data:'' @ mm_mime d @ '';base64,'' @ mm_base64 d in
      if mm_type d = MultiModalTypeImage then Inr (ImagePart url ''auto'')
      else if mm_type d = MultiModalTypeAudio then Inr (AudioPart (mm_base64 d) (audio_format (mm_mime d)))
      else if mm_type d = MultiModalTypeVideo then Inr (ImagePart url ''low'')
      else Inl (ErrOther (''unsupported media type: '' @ mm_type d)))"

fun user_content_part :: "content \<Rightarrow> err + api_part" where
  "user_content_part (TextContent t) = Inr (TextPart t)"
| "user_content_part (MultiModalContent d) = media_content_part d"
| "user_content_part p = Inl (ErrOther (''unsupported content part type: '' @ go_type_name p))"

definition convert_user_content_parts :: "content list \<Rightarrow> err + api_part list" where
  "convert_user_content_parts parts = traverse user_content_part parts"

fun convert_user_message :: "content \<Rightarrow> err + api_message" where
  "convert_user_message (TextContent t) = Inr (UserText t)"
| "convert_user_message (MultiModalContent d) =
     (case media_content_part d of Inl e \<Rightarrow> Inl e | Inr p \<Rightarrow> Inr (UserParts [p]))"
| "convert_user_message (CompositeContent ps) =
     (case convert_user_content_parts ps of Inl e \<Rightarrow> Inl e | Inr parts \<Rightarrow> Inr (UserParts parts))"
| "convert_user_message c = Inl (ErrOther (''unsupported user content type: '' @ go_type_name c))"

definition call_param :: "json_codec \<Rightarrow> tool_call_detail \<Rightarrow> api_call" where
  "call_param jc d =
     \<lparr>ac_id = tcd_id d, ac_name = tcd_name d, ac_args = convert_map_to_json_string jc (tcd_args d)\<rparr>"

definition build_tool_call_param :: "json_codec \<Rightarrow> tool_call_detail list \<Rightarrow> string \<Rightarrow> api_message" where
  "build_tool_call_param jc ds reasoning = AssistantParam None (map (call_param jc) ds) reasoning"

text \<open>The loop over the parts: the last text and the last reasoning win, tool calls add up.\<close>

fun composite_part :: "json_codec \<Rightarrow> string \<times> string \<times> api_call list \<Rightarrow> content \<Rightarrow>
    string \<times> string \<times> api_call list" where
  "composite_part jc (t, r, cs) (TextContent t') = (t', r, cs)"
| "composite_part jc (t, r, cs) (ReasoningContent r') = (t, r', cs)"
| "composite_part jc (t, r, cs) (ToolCallContent ds) = (t, r, cs @ map (call_param jc) ds)"
| "composite_part jc acc _ = acc"

definition convert_composite_assistant :: "json_codec \<Rightarrow> content list \<Rightarrow> api_message" where
  "convert_composite_assistant jc parts =
     (let (t, r, cs) = foldl (composite_part jc) ([], [], []) parts in
      if cs \<noteq> [] then AssistantParam (if t \<noteq> [] then Some t else None) cs r
      else AssistantParam (Some t) [] [])"

fun convert_assistant_message :: "json_codec \<Rightarrow> content \<Rightarrow> err + api_message" where
  "convert_assistant_message jc NilContent = Inr (AssistantParam (Some []) [] [])"
| "convert_assistant_message jc (TextContent t) = Inr (AssistantParam (Some t) [] [])"
| "convert_assistant_message jc (ReasoningContent r) = Inr (AssistantParam (Some r) [] [])"
| "convert_assistant_message jc (ToolCallContent ds) = Inr (build_tool_call_param jc ds [])"
| "convert_assistant_message jc (CompositeContent ps) = Inr (convert_composite_assistant jc ps)"
| "convert_assistant_message jc c = Inl (ErrOther (''unsupported assistant content: '' @ go_type_name c))"

fun convert_tool_results :: "json_codec \<Rightarrow> content \<Rightarrow> err + api_message list" where
  "convert_tool_results jc (ToolResultContent rs) =
     Inr (map (\<lambda>r. ToolParam (convert_map_to_json_string jc (tcr_outputs r)) (tcr_id r)) rs)"
| "convert_tool_results jc c = Inl (ErrOther (''expected ToolResultContent, got '' @ go_type_name c))"

definition convert_message :: "json_codec \<Rightarrow> message \<Rightarrow> err + api_message" where
  "convert_message jc m =
     (if m_role m = RoleSystem then
        (case plain_text (m_content m) of
           Inl e \<Rightarrow> Inl (ErrWrap ''system message'' e)
         | Inr t \<Rightarrow> Inr (SystemParam t))
      else if m_role m = RoleUser then convert_user_message (m_content m)
      else if m_role m = RoleAssistant then convert_assistant_message jc (m_content m)
      else Inl (ErrOther (''unknown role: '' @ m_role m)))"

definition expand_message :: "json_codec \<Rightarrow> message \<Rightarrow> err + api_message list" where
  "expand_message jc m =
     (if m_role m = RoleTool then convert_tool_results jc (m_content m)
      else (case convert_message jc m of Inl e \<Rightarrow> Inl e | Inr p \<Rightarrow> Inr [p]))"

definition convert_messages :: "json_codec \<Rightarrow> message list \<Rightarrow> err + api_message list" where
  "convert_messages jc ms = (case traverse (expand_message jc) ms of Inl e \<Rightarrow> Inl e | Inr pss \<Rightarrow> Inr (concat pss))"

section \<open>Tools (core to API)\<close>

text \<open>
  A schema is a JSON value here, so its lists are \<open>[]any\<close>; a map is met in the order of its list.
\<close>

record api_tool =
  at_name :: string
  at_strict :: "bool option"
  at_description :: string
  at_parameters :: "(string \<times> val) list"

definition str_at :: "(string \<times> val) list \<Rightarrow> string \<Rightarrow> string" where
  "str_at m k = (case map_of m k of Some (VStr s) \<Rightarrow> s | _ \<Rightarrow> [])"

definition map_at :: "(string \<times> val) list \<Rightarrow> string \<Rightarrow> (string \<times> val) list option" where
  "map_at m k = (case map_of m k of Some (VMap p) \<Rightarrow> Some p | _ \<Rightarrow> None)"

definition is_strict_compliant :: "(string \<times> val) list \<Rightarrow> bool" where
  "is_strict_compliant schema =
     (if str_at schema ''type'' \<noteq> ''object'' then False
      else if map_of schema ''additionalProperties'' \<noteq> Some (VBool False) then False
      else
        (let props = (case map_at schema ''properties'' of None \<Rightarrow> [] | Some p \<Rightarrow> p);
             required = (case map_of schema ''required'' of
                           Some (VList vs) \<Rightarrow> List.map_filter as_string vs | _ \<Rightarrow> [])
         in list_all (\<lambda>(name, _). name \<in> set required) props))"

definition output_field :: "string \<times> val \<Rightarrow> string option" where
  "output_field nv =
     (case snd nv of
        VMap prop \<Rightarrow>
          (let f = fst nv @ '': '' @ str_at prop ''type'' in
           Some (if str_at prop ''description'' \<noteq> [] then f @ '' ('' @ str_at prop ''description'' @ '')'' else f))
      | _ \<Rightarrow> None)"

definition format_output_schema :: "(string \<times> val) list \<Rightarrow> string" where
  "format_output_schema schema =
     (case map_at schema ''properties'' of
        None \<Rightarrow> ''object''
      | Some props \<Rightarrow>
          ''{'' @ str_join '', '' (List.map_filter output_field props) @ ''}'' @ '' | on error: {error: string}'')"

definition convert_tool :: "tool_definition \<Rightarrow> api_tool" where
  "convert_tool t =
     \<lparr>at_name = td_name t,
      at_strict = (if is_strict_compliant (td_schema t) then Some True else None),
      at_description = (if td_output_schema t \<noteq> []
        then td_description t @ CHR 0x0A # ''Returns: '' @ format_output_schema (td_output_schema t) else td_description t),
      at_parameters = td_schema t\<rparr>"

definition convert_tools :: "tool_definition list \<Rightarrow> api_tool list" where
  "convert_tools tools = map convert_tool tools"

section \<open>Responses (API to core)\<close>

text \<open>\<open>RawJSON\<close> is the tree of the response, \<open>None\<close> when it is empty or not JSON.\<close>

record raw_message =
  rw_content :: string
  rw_calls :: "api_call list"
  rw_audio_id :: string
  rw_audio_data :: string
  rw_json :: "json option"

fun reasoning_field :: "json \<Rightarrow> err + string" where
  "reasoning_field JNull = Inr []"
| "reasoning_field (JObj ob) = dec_str (map_of ob ''reasoning_content'')"
| "reasoning_field _ = Inl json_err"

definition parse_reasoning_from_raw :: "json option \<Rightarrow> string" where
  "parse_reasoning_from_raw raw =
     (case raw of None \<Rightarrow> []
      | Some j \<Rightarrow> (case reasoning_field j of Inl _ \<Rightarrow> [] | Inr r \<Rightarrow> r))"

definition call_detail :: "json_codec \<Rightarrow> api_call \<Rightarrow> tool_call_detail" where
  "call_detail jc c =
     \<lparr>tcd_id = ac_id c, tcd_name = ac_name c, tcd_args = convert_json_string_to_map jc (ac_args c)\<rparr>"

definition raw_content :: "json_codec \<Rightarrow> raw_message \<Rightarrow> content option" where
  "raw_content jc raw =
     (let reasoning = parse_reasoning_from_raw (rw_json raw) in
      if rw_calls raw \<noteq> [] then
        (let parts = (if reasoning \<noteq> [] then [ReasoningContent reasoning] else [])
               @ (if rw_content raw \<noteq> [] then [TextContent (rw_content raw)] else [])
               @ [ToolCallContent (map (call_detail jc) (rw_calls raw))]
         in if length parts > 1 then Some (CompositeContent parts) else Some (hd parts))
      else if rw_content raw \<noteq> [] \<and> reasoning \<noteq> [] then
        Some (CompositeContent [ReasoningContent reasoning, TextContent (rw_content raw)])
      else if rw_content raw \<noteq> [] then Some (TextContent (rw_content raw))
      else if rw_audio_id raw \<noteq> [] then
        Some (MultiModalContent \<lparr>mm_id = rw_audio_id raw, mm_type = MultiModalTypeAudio, mm_path = [],
          mm_base64 = rw_audio_data raw, mm_mime = [], mm_meta = []\<rparr>)
      else if reasoning \<noteq> [] then Some (ReasoningContent reasoning)
      else None)"

definition parse_response :: "json_codec \<Rightarrow> string \<Rightarrow> raw_message \<Rightarrow> err + message" where
  "parse_response jc mid raw =
     (case raw_content jc raw of
        None \<Rightarrow> Inl (ErrOther ''empty completion message'')
      | Some c \<Rightarrow> Inr (new_assistant_message mid c))"

record completion_usage =
  cu_total :: i64
  cu_prompt :: i64
  cu_completion :: i64
  cu_cached :: i64
  cu_reasoning :: i64

definition usage_from_raw :: "completion_usage \<Rightarrow> usage option" where
  "usage_from_raw u =
     (if sint (cu_total u) \<le> 0 then None
      else Some \<lparr>u_total = cu_total u, u_input = cu_prompt u, u_cached = cu_cached u,
                 u_reasoning = cu_reasoning u, u_output = cu_completion u\<rparr>)"

section \<open>Stream chunks\<close>

record tool_delta =
  dl_index :: int
  dl_id :: string
  dl_name :: string
  dl_args :: string

record chunk_choice =
  cc_content :: string
  cc_calls :: "tool_delta list"
  cc_finish :: string

record chunk =
  ck_choices :: "chunk_choice list"
  ck_usage :: completion_usage
  ck_json :: "json option"

fun delta_field :: "json \<Rightarrow> err + string" where
  "delta_field JNull = Inr []"
| "delta_field (JObj ob) =
     (case map_of ob ''delta'' of None \<Rightarrow> Inr [] | Some d \<Rightarrow> reasoning_field d)"
| "delta_field _ = Inl json_err"

fun choices_field :: "json \<Rightarrow> err + string list" where
  "choices_field JNull = Inr []"
| "choices_field (JObj ob) =
     (case map_of ob ''choices'' of
        None \<Rightarrow> Inr []
      | Some JNull \<Rightarrow> Inr []
      | Some (JArr cs) \<Rightarrow> traverse delta_field cs
      | Some _ \<Rightarrow> Inl json_err)"
| "choices_field _ = Inl json_err"

definition parse_reasoning_from_chunk_raw :: "json option \<Rightarrow> string" where
  "parse_reasoning_from_chunk_raw raw =
     (case raw of None \<Rightarrow> []
      | Some j \<Rightarrow> (case choices_field j of Inr (r # _) \<Rightarrow> r | _ \<Rightarrow> []))"

definition delta_detail :: "json_codec \<Rightarrow> tool_delta \<Rightarrow> tool_call_detail" where
  "delta_detail jc d =
     \<lparr>tcd_id = dl_id d, tcd_name = dl_name d, tcd_args = convert_json_string_to_map jc (dl_args d)\<rparr>"

text \<open>\<open>ParseStreamChunk\<close>; its error is always nil, and \<open>None\<close> is the nil message.\<close>

definition parse_stream_chunk :: "json_codec \<Rightarrow> string \<Rightarrow> chunk \<Rightarrow> message option" where
  "parse_stream_chunk jc mid c =
     (let base = (new_assistant_message mid NilContent)\<lparr>m_usage := usage_from_raw (ck_usage c)\<rparr> in
      case ck_choices c of
        [] \<Rightarrow> if m_usage base \<noteq> None then Some base else None
      | ch # _ \<Rightarrow>
          (let reasoning = parse_reasoning_from_chunk_raw (ck_json c);
               msg = base\<lparr>m_finish := cc_finish ch\<rparr>
           in if reasoning \<noteq> [] \<and> cc_content ch \<noteq> [] then
                Some (msg\<lparr>m_content := CompositeContent [ReasoningContent reasoning, TextContent (cc_content ch)]\<rparr>)
              else if reasoning \<noteq> [] then Some (msg\<lparr>m_content := ReasoningContent reasoning\<rparr>)
              else if cc_content ch \<noteq> [] then Some (msg\<lparr>m_content := TextContent (cc_content ch)\<rparr>)
              else if cc_calls ch \<noteq> [] then
                Some (msg\<lparr>m_content := ToolCallContent (map (delta_detail jc) (cc_calls ch))\<rparr>)
              else if m_usage msg \<noteq> None \<or> m_finish msg \<noteq> [] then Some msg else None))"

section \<open>Aggregating a stream (format.go)\<close>

record tool_call_entry =
  te_id :: string
  te_name :: string
  te_raw :: string

text \<open>The local variables of \<open>Stream\<close>; \<open>sa_events\<close> are the handler's calls so far.\<close>

record stream_acc =
  sa_text :: string
  sa_reasoning :: string
  sa_calls :: "(string \<times> tool_call_entry) list"
  sa_index :: "(int \<times> string) list"
  sa_finish :: string
  sa_usage :: "usage option"
  sa_events :: "model_event list"

definition stream_start :: stream_acc where
  "stream_start = \<lparr>sa_text = [], sa_reasoning = [], sa_calls = [], sa_index = [], sa_finish = [],
     sa_usage = None, sa_events = []\<rparr>"

definition delta_call_id :: "tool_delta \<Rightarrow> stream_acc \<Rightarrow> string option" where
  "delta_call_id d a = (if dl_id d = [] then map_of (sa_index a) (dl_index d) else Some (dl_id d))"

definition absorb_delta :: "tool_delta \<Rightarrow> stream_acc \<Rightarrow> stream_acc" where
  "absorb_delta d a =
     (case delta_call_id d a of
        None \<Rightarrow> a
      | Some i \<Rightarrow>
          (let a1 = (if dl_id d = [] then a else a\<lparr>sa_index := AList.update (dl_index d) i (sa_index a)\<rparr>);
               e = (case map_of (sa_calls a1) i of None \<Rightarrow> \<lparr>te_id = [], te_name = [], te_raw = []\<rparr> | Some e \<Rightarrow> e);
               named = dl_name d \<noteq> [] \<and> te_name e = [];
               e1 = (if named then e\<lparr>te_name := dl_name d, te_id := i\<rparr> else e);
               evs = (if named then [OnFunctionCall \<lparr>tcd_id = i, tcd_name = dl_name d, tcd_args = []\<rparr>] else [])
           in a1\<lparr>sa_calls := AList.update i (e1\<lparr>te_raw := te_raw e1 @ dl_args d\<rparr>) (sa_calls a1),
                 sa_events := sa_events a1 @ evs\<rparr>))"

definition chunk_deltas :: "chunk \<Rightarrow> tool_delta list" where
  "chunk_deltas c = concat (map cc_calls (ck_choices c))"

text \<open>What the loop does with the parsed chunk.\<close>

definition absorb_message :: "message \<Rightarrow> stream_acc \<Rightarrow> stream_acc" where
  "absorb_message m a =
     (let a1 = (case m_content m of
                  TextContent t \<Rightarrow> a\<lparr>sa_text := sa_text a @ t, sa_events := sa_events a @ [OnReplyChunk t]\<rparr>
                | ReasoningContent r \<Rightarrow>
                    a\<lparr>sa_reasoning := sa_reasoning a @ r, sa_events := sa_events a @ [OnThinkingChunk r]\<rparr>
                | _ \<Rightarrow> a);
          a2 = (if m_finish m \<noteq> []
                then a1\<lparr>sa_finish := m_finish m, sa_events := sa_events a1 @ [OnFinished (m_finish m)]\<rparr> else a1)
      in (case m_usage m of None \<Rightarrow> a2 | Some u \<Rightarrow> a2\<lparr>sa_usage := Some u\<rparr>))"

definition absorb_chunk :: "json_codec \<Rightarrow> string \<Rightarrow> chunk \<Rightarrow> stream_acc \<Rightarrow> stream_acc" where
  "absorb_chunk jc mid c a =
     (let a1 = fold absorb_delta (chunk_deltas c) a in
      case parse_stream_chunk jc mid c of None \<Rightarrow> a1 | Some m \<Rightarrow> absorb_message m a1)"

definition convert_args_json :: "json_codec \<Rightarrow> string \<Rightarrow> (string \<times> val) list" where
  "convert_args_json jc raw =
     (if raw = [] then [] else case jc_unmarshal jc raw of None \<Rightarrow> [] | Some m \<Rightarrow> m)"

text \<open>\<open>ids\<close> is the order in which the loop over the map of calls meets its keys.\<close>

definition stream_details :: "json_codec \<Rightarrow> string list \<Rightarrow> (string \<times> tool_call_entry) list \<Rightarrow> tool_call_detail list" where
  "stream_details jc ids calls =
     List.map_filter (\<lambda>i. case map_of calls i of
         None \<Rightarrow> None
       | Some e \<Rightarrow> if te_name e = [] then None
           else Some \<lparr>tcd_id = te_id e, tcd_name = te_name e, tcd_args = convert_args_json jc (te_raw e)\<rparr>) ids"

definition build_stream_content :: "string \<Rightarrow> string \<Rightarrow> tool_call_detail list \<Rightarrow> content" where
  "build_stream_content txt reasoning ds =
     (if ds \<noteq> [] \<and> reasoning \<noteq> [] then CompositeContent [ReasoningContent reasoning, ToolCallContent ds]
      else if ds \<noteq> [] then ToolCallContent ds
      else if reasoning \<noteq> [] \<and> txt \<noteq> [] then CompositeContent [ReasoningContent reasoning, TextContent txt]
      else if reasoning \<noteq> [] then ReasoningContent reasoning
      else TextContent txt)"

section \<open>Requests\<close>

definition wrap_context_error :: "err \<Rightarrow> err" where
  "wrap_context_error e =
     (if go_contains (err_text e) ''context_length_exceeded'' \<or>
         go_contains (err_text e) ''maximum context length'' \<or>
         go_contains (err_text e) ''reduce the length of the messages''
      then ErrBoth ErrContextLengthExceeded e else e)"

record generate_params =
  gp_messages :: "message list"
  gp_tools :: "tool_definition list"
  gp_stream :: bool
  gp_thinking :: "bool option"
  gp_effort :: string

record api_request =
  rq_messages :: "api_message list"
  rq_model :: string
  rq_include_usage :: "bool option"
  rq_tools :: "api_tool list"
  rq_effort :: string
  rq_extra :: "(string \<times> val) list"

record completion_choice =
  ch_message :: raw_message
  ch_finish :: string

record completion =
  cp_choices :: "completion_choice list"
  cp_usage :: completion_usage

text \<open>The client of the SDK: the answer of one call, or the chunks of a stream and the error that ends it.\<close>

record api_client =
  cl_new :: "api_request \<Rightarrow> err + completion option"
  cl_streaming :: "api_request \<Rightarrow> chunk list \<times> err option"

record format =
  ft_client :: api_client
  ft_model :: string
  ft_codec :: json_codec

definition build_request :: "format \<Rightarrow> generate_params \<Rightarrow> err + api_request" where
  "build_request f ps =
     (case convert_messages (ft_codec f) (gp_messages ps) of
        Inl e \<Rightarrow> Inl (ErrWrap ''converting messages'' e)
      | Inr ms \<Rightarrow>
          Inr \<lparr>rq_messages = ms, rq_model = ft_model f, rq_include_usage = (if gp_stream ps then Some True else None),
               rq_tools = convert_tools (gp_tools ps), rq_effort = gp_effort ps, rq_extra = []\<rparr>)"

text \<open>
  The result of a call: the handler's events and the answer.  \<open>None\<close> is the panic of indexing the last
  message of an empty list.
\<close>

type_synonym outcome = "(model_event list \<times> (err + message)) option"

definition detail_events :: "content \<Rightarrow> model_event list" where
  "detail_events c = (case c of ToolCallContent ds \<Rightarrow> map OnFunctionCall ds | _ \<Rightarrow> [])"

definition call_events :: "content \<Rightarrow> model_event list" where
  "call_events c =
     detail_events c @ (case c of CompositeContent ps \<Rightarrow> concat (map detail_events ps) | _ \<Rightarrow> [])"

definition format_block :: "format \<Rightarrow> string \<Rightarrow> api_request \<Rightarrow> generate_params \<Rightarrow> outcome" where
  "format_block f mid req ps =
     (case cl_new (ft_client f) req of
        Inl e \<Rightarrow> Some ([OnError e], Inl (ErrWrap ''chat completions'' (wrap_context_error e)))
      | Inr r \<Rightarrow>
          (case (case r of None \<Rightarrow> [] | Some c \<Rightarrow> cp_choices c) of
             [] \<Rightarrow> (let e = ErrOther ''no completion choices returned'' in Some ([OnError e], Inl e))
           | ch # _ \<Rightarrow>
               if gp_messages ps = [] then None
               else
                 (case parse_response (ft_codec f) mid (ch_message ch) of
                    Inl e \<Rightarrow> Some ([OnError e], Inl e)
                  | Inr m \<Rightarrow>
                      (let m1 = (if ch_finish ch \<noteq> [] then m\<lparr>m_finish := ch_finish ch\<rparr> else m);
                           m2 = (case r of None \<Rightarrow> m1 | Some c \<Rightarrow>
                                  (case usage_from_raw (cp_usage c) of
                                     None \<Rightarrow> m1 | Some u \<Rightarrow> m1\<lparr>m_usage := Some u\<rparr>))
                       in Some (call_events (m_content m2) @ (if m_finish m2 \<noteq> [] then [OnFinished (m_finish m2)] else []),
                                Inr m2)))))"

definition format_stream :: "format \<Rightarrow> string \<Rightarrow> string list \<Rightarrow> api_request \<Rightarrow> generate_params \<Rightarrow> outcome" where
  "format_stream f mid ids req ps =
     (if gp_messages ps = [] then None
      else
        (let (chunks, failure) = cl_streaming (ft_client f) req;
             a = fold (absorb_chunk (ft_codec f) mid) chunks stream_start
         in case failure of
              Some e \<Rightarrow> Some (sa_events a @ [OnError e], Inl (ErrWrap ''stream'' (wrap_context_error e)))
            | None \<Rightarrow>
                Some (sa_events a,
                  Inr ((new_assistant_message mid
                         (build_stream_content (sa_text a) (sa_reasoning a) (stream_details (ft_codec f) ids (sa_calls a))))
                       \<lparr>m_finish := sa_finish a, m_usage := sa_usage a\<rparr>))))"

definition format_generate :: "format \<Rightarrow> string \<Rightarrow> string list \<Rightarrow> generate_params \<Rightarrow> outcome" where
  "format_generate f mid ids ps =
     (if ft_model f = [] then Some ([], Inl (ErrOther ''model not specified''))
      else
        (case build_request f ps of
           Inl e \<Rightarrow> Some ([], Inl e)
         | Inr req \<Rightarrow> if gp_stream ps then format_stream f mid ids req ps else format_block f mid req ps))"

text \<open>provider/deepseek.go\<close>

definition deepseek_generate :: "format \<Rightarrow> string \<Rightarrow> string list \<Rightarrow> generate_params \<Rightarrow> outcome" where
  "deepseek_generate f mid ids ps =
     (case build_request f ps of
        Inl e \<Rightarrow> Some ([], Inl e)
      | Inr req \<Rightarrow>
          (let req1 = (case gp_thinking ps of
                         None \<Rightarrow> req
                       | Some b \<Rightarrow> req\<lparr>rq_extra := [(''thinking'', VMap [(''type'', VStr (if b then ''enabled'' else ''disabled''))])]\<rparr>);
               req2 = (if gp_effort ps \<noteq> [] then req1\<lparr>rq_effort := gp_effort ps\<rparr> else req1)
           in if gp_stream ps then format_stream f mid ids req2 ps else format_block f mid req2 ps))"

section \<open>Streaming against the single answer\<close>

text \<open>
  How a server cuts the calls \<open>cs\<close> into deltas: the first delta of a call carries its index, id and name,
  the later ones its index and possibly id and name again.  \<open>seen\<close> are the indexes met so far.
\<close>

fun fragments :: "api_call list \<Rightarrow> int list \<Rightarrow> tool_delta list \<Rightarrow> bool" where
  "fragments cs seen [] = True"
| "fragments cs seen (d # ds) =
     (0 \<le> dl_index d \<and> nat (dl_index d) < length cs \<and>
      (dl_id d = ac_id (cs ! nat (dl_index d)) \<and> dl_name d = ac_name (cs ! nat (dl_index d)) \<or>
       dl_index d \<in> set seen \<and> dl_id d = [] \<and>
         (dl_name d = [] \<or> dl_name d = ac_name (cs ! nat (dl_index d)))) \<and>
      fragments cs (dl_index d # seen) ds)"

definition args_of :: "int \<Rightarrow> tool_delta list \<Rightarrow> string" where
  "args_of k ds = concat (map dl_args (filter (\<lambda>d. dl_index d = k) ds))"

definition chunk_text :: "chunk \<Rightarrow> string" where
  "chunk_text c = (case ck_choices c of [] \<Rightarrow> [] | ch # _ \<Rightarrow> cc_content ch)"

definition chunk_reasoning :: "chunk \<Rightarrow> string" where
  "chunk_reasoning c = (case ck_choices c of [] \<Rightarrow> [] | _ # _ \<Rightarrow> parse_reasoning_from_chunk_raw (ck_json c))"

text \<open>The chunks together carry the answer \<open>raw\<close>, and no chunk has both text and reasoning.\<close>

definition carries :: "raw_message \<Rightarrow> chunk list \<Rightarrow> bool" where
  "carries raw cks \<longleftrightarrow>
     list_all (\<lambda>c. chunk_text c = [] \<or> chunk_reasoning c = []) cks \<and>
     concat (map chunk_text cks) = rw_content raw \<and>
     concat (map chunk_reasoning cks) = parse_reasoning_from_raw (rw_json raw) \<and>
     fragments (rw_calls raw) [] (concat (map chunk_deltas cks)) \<and>
     list_all (\<lambda>k. int k \<in> dl_index ` set (concat (map chunk_deltas cks)) \<and>
                   args_of (int k) (concat (map chunk_deltas cks)) = ac_args (rw_calls raw ! k))
       [0..<length (rw_calls raw)]"

text \<open>Distinct non-empty ids and non-empty names, as the API hands them out.\<close>

definition proper_calls :: "api_call list \<Rightarrow> bool" where
  "proper_calls cs \<longleftrightarrow> distinct (map ac_id cs) \<and> list_all (\<lambda>c. ac_id c \<noteq> [] \<and> ac_name c \<noteq> []) cs"

lemma fragments_append:
  "fragments cs seen (ds @ es) \<longleftrightarrow> fragments cs seen ds \<and> fragments cs (rev (map dl_index ds) @ seen) es"
  by (induction ds arbitrary: seen) auto

lemma args_of_simps [simp]:
  "args_of k [] = []" "args_of k (d # ds) = (if dl_index d = k then dl_args d @ args_of k ds else args_of k ds)"
  "args_of k (ds @ es) = args_of k ds @ args_of k es"
  by (simp_all add: args_of_def)

text \<open>What the two maps hold when the indexes \<open>seen\<close> have been met with the argument texts \<open>g\<close>.\<close>

definition tracks :: "api_call list \<Rightarrow> int list \<Rightarrow> (int \<Rightarrow> string) \<Rightarrow> stream_acc \<Rightarrow> bool" where
  "tracks cs seen g a \<longleftrightarrow>
     (\<forall>k \<in> set seen. 0 \<le> k \<and> nat k < length cs) \<and> (\<forall>k. k \<notin> set seen \<longrightarrow> g k = []) \<and>
     (\<forall>k. map_of (sa_index a) k = (if k \<in> set seen then Some (ac_id (cs ! nat k)) else None)) \<and>
     (\<forall>k < length cs. map_of (sa_calls a) (ac_id (cs ! k)) =
        (if int k \<in> set seen then Some \<lparr>te_id = ac_id (cs ! k), te_name = ac_name (cs ! k), te_raw = g (int k)\<rparr>
         else None))"

lemma tracks_delta:
  assumes t: "tracks cs seen g a" and f: "fragments cs seen [d]" and p: "proper_calls cs"
  shows "tracks cs (dl_index d # seen) (g(dl_index d := g (dl_index d) @ dl_args d)) (absorb_delta d a)"
proof -
  let ?k = "nat (dl_index d)" and ?g = "g(dl_index d := g (dl_index d) @ dl_args d)"
  let ?e = "\<lparr>te_id = ac_id (cs ! ?k), te_name = ac_name (cs ! ?k), te_raw = ?g (dl_index d)\<rparr>"
  have k: "0 \<le> dl_index d" "?k < length cs" using f by auto
  have ne: "ac_id (cs ! ?k) \<noteq> []" "ac_name (cs ! ?k) \<noteq> []"
    using p k(2) by (auto simp: proper_calls_def list_all_length)
  have cid: "delta_call_id d a = Some (ac_id (cs ! ?k))"
    using t f ne by (auto simp: delta_call_id_def tracks_def)
  have inj: "ac_id (cs ! j) = ac_id (cs ! ?k) \<longleftrightarrow> j = ?k" if "j < length cs" for j
    using p that k(2) by (auto simp: proper_calls_def distinct_conv_nth)
  have idx: "map_of (sa_index (absorb_delta d a)) = (map_of (sa_index a))(dl_index d \<mapsto> ac_id (cs ! ?k))"
    using t f ne cid by (auto simp: absorb_delta_def Let_def tracks_def delta_call_id_def fun_eq_iff)
  have calls: "map_of (sa_calls (absorb_delta d a)) = (map_of (sa_calls a))(ac_id (cs ! ?k) \<mapsto> ?e)"
  proof (cases "dl_index d \<in> set seen")
    case True
    then have "map_of (sa_calls a) (ac_id (cs ! ?k)) =
        Some \<lparr>te_id = ac_id (cs ! ?k), te_name = ac_name (cs ! ?k), te_raw = g (dl_index d)\<rparr>"
      using t k by (simp add: tracks_def)
    with ne show ?thesis by (simp add: absorb_delta_def cid Let_def)
  next
    case False
    then have "map_of (sa_calls a) (ac_id (cs ! ?k)) = None" "g (dl_index d) = []" "dl_name d = ac_name (cs ! ?k)"
      using t f k by (auto simp: tracks_def)
    with ne show ?thesis by (simp add: absorb_delta_def cid Let_def)
  qed
  show ?thesis
    unfolding tracks_def idx calls using t k inj by (auto simp: tracks_def)
qed

lemma tracks_deltas:
  "tracks cs seen g a \<Longrightarrow> fragments cs seen ds \<Longrightarrow> proper_calls cs \<Longrightarrow>
   tracks cs (rev (map dl_index ds) @ seen) (\<lambda>k. g k @ args_of k ds) (fold absorb_delta ds a)"
proof (induction ds arbitrary: seen g a)
  case (Cons d ds)
  have "tracks cs (dl_index d # seen) (g(dl_index d := g (dl_index d) @ dl_args d)) (absorb_delta d a)"
    by (rule tracks_delta [OF Cons.prems(1) _ Cons.prems(3)]) (use Cons.prems(2) in simp)
  moreover have "(\<lambda>k. (g(dl_index d := g (dl_index d) @ dl_args d)) k @ args_of k ds) = (\<lambda>k. g k @ args_of k (d # ds))"
    by auto
  ultimately show ?case using Cons.IH [OF _ _ Cons.prems(3), of "dl_index d # seen"] Cons.prems(2) by force
qed simp

lemma tracks_message: "tracks cs seen g (absorb_message m a) = tracks cs seen g a"
  by (simp add: tracks_def absorb_message_def Let_def split: content.splits option.splits)

lemma tracks_chunks:
  "tracks cs seen g a \<Longrightarrow> fragments cs seen (concat (map chunk_deltas cks)) \<Longrightarrow> proper_calls cs \<Longrightarrow>
   tracks cs (rev (map dl_index (concat (map chunk_deltas cks))) @ seen)
     (\<lambda>k. g k @ args_of k (concat (map chunk_deltas cks))) (fold (absorb_chunk jc mid) cks a)"
proof (induction cks arbitrary: seen g a)
  case (Cons c cks)
  have "tracks cs (rev (map dl_index (chunk_deltas c)) @ seen) (\<lambda>k. g k @ args_of k (chunk_deltas c)) (absorb_chunk jc mid c a)"
    using tracks_deltas [OF Cons.prems(1) _ Cons.prems(3), of "chunk_deltas c"] Cons.prems(2)
    by (simp add: absorb_chunk_def Let_def fragments_append tracks_message split: option.splits)
  from Cons.IH [OF this _ Cons.prems(3)] Cons.prems(2) show ?case by (simp add: fragments_append)
qed simp

lemma absorb_delta_text [simp]:
  "sa_text (absorb_delta d a) = sa_text a" "sa_reasoning (absorb_delta d a) = sa_reasoning a"
  by (simp_all add: absorb_delta_def Let_def split: option.splits)

lemma absorb_deltas_text [simp]:
  "sa_text (fold absorb_delta ds a) = sa_text a" "sa_reasoning (fold absorb_delta ds a) = sa_reasoning a"
  by (induction ds arbitrary: a) simp_all

lemma absorb_chunk_text:
  assumes "chunk_text c = [] \<or> chunk_reasoning c = []"
  shows "sa_text (absorb_chunk jc mid c a) = sa_text a @ chunk_text c"
    "sa_reasoning (absorb_chunk jc mid c a) = sa_reasoning a @ chunk_reasoning c"
  using assms
  by (auto simp: absorb_chunk_def absorb_message_def parse_stream_chunk_def chunk_text_def chunk_reasoning_def
      new_assistant_message_def new_message_def Let_def split: list.splits option.splits)

lemma absorb_chunks_text:
  "list_all (\<lambda>c. chunk_text c = [] \<or> chunk_reasoning c = []) cks \<Longrightarrow>
   sa_text (fold (absorb_chunk jc mid) cks a) = sa_text a @ concat (map chunk_text cks) \<and>
   sa_reasoning (fold (absorb_chunk jc mid) cks a) = sa_reasoning a @ concat (map chunk_reasoning cks)"
  by (induction cks arbitrary: a) (simp_all add: absorb_chunk_text)

lemma stream_details_tracked:
  assumes "tracks cs seen g a" and "jc_unmarshal jc [] = None"
    and "\<And>k. k < length cs \<Longrightarrow> int k \<in> set seen \<and> g (int k) = ac_args (cs ! k)"
    and "proper_calls cs" and "set cs' \<subseteq> set cs"
  shows "stream_details jc (map ac_id cs') (sa_calls a) = map (call_detail jc) cs'"
proof -
  have "convert_args_json jc t = convert_json_string_to_map jc t" for t
    using assms(2) by (simp add: convert_args_json_def convert_json_string_to_map_def)
  moreover have "map_of (sa_calls a) (ac_id c) = Some \<lparr>te_id = ac_id c, te_name = ac_name c, te_raw = ac_args c\<rparr>"
    and "ac_name c \<noteq> []" if "c \<in> set cs" for c
    using that assms(1,3,4) by (auto simp: tracks_def in_set_conv_nth proper_calls_def list_all_length)
  ultimately show ?thesis
    using assms(5) by (induction cs') (auto simp: stream_details_def map_filter_simps call_detail_def)
qed

lemma stream_content:
  fixes mid
  assumes "carries raw cks" and "proper_calls (rw_calls raw)" and "jc_unmarshal jc [] = None"
    and "set cs' \<subseteq> set (rw_calls raw)"
  defines "a \<equiv> fold (absorb_chunk jc mid) cks stream_start"
  shows "sa_text a = rw_content raw" "sa_reasoning a = parse_reasoning_from_raw (rw_json raw)"
    "stream_details jc (map ac_id cs') (sa_calls a) = map (call_detail jc) cs'"
proof -
  let ?ds = "concat (map chunk_deltas cks)"
  show "sa_text a = rw_content raw" "sa_reasoning a = parse_reasoning_from_raw (rw_json raw)"
    using assms(1) absorb_chunks_text [of cks jc mid stream_start]
    by (simp_all add: a_def carries_def stream_start_def)
  have "tracks (rw_calls raw) [] (\<lambda>_. []) stream_start" by (simp add: tracks_def stream_start_def)
  moreover have "fragments (rw_calls raw) [] ?ds" using assms(1) by (simp add: carries_def)
  ultimately have "tracks (rw_calls raw) (rev (map dl_index ?ds)) (\<lambda>k. args_of k ?ds) a"
    using tracks_chunks [of "rw_calls raw" "[]" "\<lambda>_. []" stream_start cks jc mid] assms(2) by (simp add: a_def)
  then show "stream_details jc (map ac_id cs') (sa_calls a) = map (call_detail jc) cs'"
    by (rule stream_details_tracked [OF _ assms(3) _ assms(2,4)])
      (use assms(1) in \<open>simp add: carries_def list_all_iff\<close>)
qed


section \<open>Round trip of an assistant turn\<close>

lemma call_param_detail:
  assumes "jc_unmarshal jc (ac_args c) = Some a" and "jc_marshal jc a = Some (ac_args c)"
  shows "call_param jc (call_detail jc c) = (c :: api_call)"
  using assms
  by (simp add: call_param_def call_detail_def convert_json_string_to_map_def convert_map_to_json_string_def)

text \<open>The next request repeats the model's turn: a parsed answer with tool calls is sent back with the same
  text, the same calls and the same reasoning; without tool calls only the text is sent back, an answer
  that was only reasoning comes back as text, and an audio answer makes the next request fail.\<close>

theorem assistant_turn_echoed:
  assumes "parse_response jc mid raw = Inr m"
    and "\<forall>c \<in> set (rw_calls raw). \<exists>a. jc_unmarshal jc (ac_args c) = Some a \<and> jc_marshal jc a = Some (ac_args c)"
  shows "convert_message jc m =
    (if rw_calls raw \<noteq> [] then
       Inr (AssistantParam (if rw_content raw = [] then None else Some (rw_content raw)) (rw_calls raw)
              (parse_reasoning_from_raw (rw_json raw)))
     else if rw_content raw \<noteq> [] then Inr (AssistantParam (Some (rw_content raw)) [] [])
     else if rw_audio_id raw \<noteq> [] then
       Inl (ErrOther ''unsupported assistant content: types.MultiModalContent'')
     else Inr (AssistantParam (Some (parse_reasoning_from_raw (rw_json raw))) [] []))"
proof -
  have "map (\<lambda>c. call_param jc (call_detail jc c)) (rw_calls raw) = rw_calls raw"
    using assms(2) by (intro map_idI) (auto intro: call_param_detail)
  then show ?thesis
    using assms(1)
    by (auto simp: parse_response_def raw_content_def convert_message_def new_assistant_message_def new_message_def
        convert_composite_assistant_def build_tool_call_param_def o_def Let_def split: if_splits option.splits)
qed

section \<open>Errors of the service\<close>

definition context_marker :: "err \<Rightarrow> bool" where
  "context_marker e \<longleftrightarrow> list_ex (go_contains (err_text e))
     [''context_length_exceeded'', ''maximum context length'', ''reduce the length of the messages'']"

lemma wrap_context_error_is:
  "err_is (wrap_context_error e) ErrContextLengthExceeded \<longleftrightarrow> context_marker e \<or> err_is e ErrContextLengthExceeded"
  by (auto simp: wrap_context_error_def context_marker_def)

text \<open>C19. A failure of the service reaches the handler once, as it is, and the caller as an error that
  \<open>errors.Is\<close> recognises as a context overflow exactly when the service said so, in both modes: this is
  what starts compression and retry.\<close>

theorem context_overflow_recognised:
  assumes "ft_model f \<noteq> []" and "gp_messages ps \<noteq> []" and "build_request f ps = Inr req"
    and "if gp_stream ps then cl_streaming (ft_client f) req = (cks, Some e0) else cl_new (ft_client f) req = Inl e0"
  shows "\<exists>evs e. format_generate f mid ids ps = Some (evs @ [OnError e0], Inl e) \<and>
    (err_is e ErrContextLengthExceeded \<longleftrightarrow> context_marker e0 \<or> err_is e0 ErrContextLengthExceeded)"
  using assms
  by (auto simp: format_generate_def format_stream_def format_block_def wrap_context_error_is Let_def split: if_splits)

text \<open>\<open>Block\<close> calls the handler once per tool call and once for the finish reason; the complete text and
  reasoning are never delivered (\<open>OnBlockReply\<close>, \<open>OnBlockThinking\<close>), although the interface promises it.\<close>

theorem block_never_delivers_text:
  assumes "format_block f mid req ps = Some (evs, r)"
  shows "OnBlockReply t \<notin> set evs" "OnBlockThinking t \<notin> set evs"
  using assms
  by (auto simp: format_block_def call_events_def detail_events_def Let_def
      split: option.splits sum.splits list.splits if_splits content.splits)

section \<open>A concrete service\<close>

definition demo_codec :: json_codec where
  "demo_codec = \<lparr>jc_marshal = (\<lambda>m. if m = [] then Some ''{}'' else None),
     jc_unmarshal = (\<lambda>t. if t = ''{}'' then Some [] else None)\<rparr>"

definition demo_raw :: raw_message where
  "demo_raw = \<lparr>rw_content = [], rw_calls = [\<lparr>ac_id = ''c1'', ac_name = ''f'', ac_args = ''{}''\<rparr>,
     \<lparr>ac_id = ''c2'', ac_name = ''g'', ac_args = ''{}''\<rparr>], rw_audio_id = [], rw_audio_data = [],
     rw_json = Some (JObj [(''reasoning_content'', JStr ''hm'')])\<rparr>"

definition demo_usage :: completion_usage where
  "demo_usage = \<lparr>cu_total = 0, cu_prompt = 0, cu_completion = 0, cu_cached = 0, cu_reasoning = 0\<rparr>"

definition demo_chunk :: "tool_delta list \<Rightarrow> string \<Rightarrow> chunk" where
  "demo_chunk ds r = \<lparr>ck_choices = [\<lparr>cc_content = [], cc_calls = ds, cc_finish = []\<rparr>], ck_usage = demo_usage,
     ck_json = Some (JObj [(''choices'', JArr [JObj [(''delta'', JObj [(''reasoning_content'', JStr r)])]])])\<rparr>"

definition demo_chunks :: "chunk list" where
  "demo_chunks =
     [demo_chunk [\<lparr>dl_index = 0, dl_id = ''c1'', dl_name = ''f'', dl_args = ''{''\<rparr>] ''h'',
      demo_chunk [\<lparr>dl_index = 1, dl_id = ''c2'', dl_name = ''g'', dl_args = ''{}''\<rparr>] ''m'',
      demo_chunk [\<lparr>dl_index = 0, dl_id = [], dl_name = [], dl_args = ''}''\<rparr>] []]"

definition demo_format :: "err option \<Rightarrow> format" where
  "demo_format failure = \<lparr>ft_client = \<lparr>
     cl_new = (\<lambda>_. Inr (Some \<lparr>cp_choices = [\<lparr>ch_message = demo_raw, ch_finish = ''stop''\<rparr>], cp_usage = demo_usage\<rparr>)),
     cl_streaming = (\<lambda>_. (demo_chunks, failure))\<rparr>, ft_model = ''m'', ft_codec = demo_codec\<rparr>"

definition demo_params :: generate_params where
  "demo_params = \<lparr>gp_messages = [new_user_message ''u'' (TextContent ''hi'')], gp_tools = [], gp_stream = True,
     gp_thinking = None, gp_effort = []\<rparr>"

definition demo_request :: api_request where
  "demo_request = \<lparr>rq_messages = [UserText ''hi''], rq_model = ''m'', rq_include_usage = Some True, rq_tools = [],
     rq_effort = [], rq_extra = []\<rparr>"


theorem assistant_turn_echoed_witness:
  "\<exists>m. parse_response demo_codec ''a'' demo_raw = Inr m \<and>
    convert_message demo_codec m = Inr (AssistantParam None (rw_calls demo_raw) ''hm'')"
proof -
  have "case parse_response demo_codec ''a'' demo_raw of Inr _ \<Rightarrow> True | _ \<Rightarrow> False" by code_simp
  then obtain m where m: "parse_response demo_codec ''a'' demo_raw = Inr m" by (auto split: sum.splits)
  from assistant_turn_echoed [OF this] m show ?thesis
    by (simp add: demo_raw_def demo_codec_def parse_reasoning_from_raw_def)
qed

theorem context_overflow_recognised_witness:
  "\<exists>evs e. format_generate (demo_format (Some (ErrOther ''400: context_length_exceeded''))) ''a'' [] demo_params
      = Some (evs @ [OnError (ErrOther ''400: context_length_exceeded'')], Inl e) \<and>
    err_is e ErrContextLengthExceeded"
proof -
  let ?f = "demo_format (Some (ErrOther ''400: context_length_exceeded''))"
  have "build_request ?f demo_params = Inr demo_request" by code_simp
  moreover have "context_marker (ErrOther ''400: context_length_exceeded'')" by code_simp
  ultimately show ?thesis
    using context_overflow_recognised [of ?f demo_params demo_request demo_chunks
        "ErrOther ''400: context_length_exceeded''" "''a''" "[]"]
    by (auto simp: demo_format_def demo_params_def)
qed

end
