(* ===== verification/Conversation.thy ===== *)
theory Conversation
  imports React Converter
begin

text \<open>
  The conversation that the ReAct loop builds, seen from the service: the Chat Completions API accepts a
  list of messages only if every assistant message with tool calls is directly followed by one tool
  message per call, with the ids of the calls in order.
\<close>

section \<open>Answered conversations\<close>

definition answers :: "message \<Rightarrow> message \<Rightarrow> bool" where
  "answers m t \<longleftrightarrow> m_role m = RoleAssistant \<and> m_role t = RoleTool \<and>
     (\<exists>rs. m_content t = ToolResultContent rs \<and> map tcr_id rs = map tcd_id (extract_tool_calls (m_content m)))"

fun answered :: "message list \<Rightarrow> bool" where
  "answered [] = True"
| "answered [m] \<longleftrightarrow> extract_tool_calls (m_content m) = [] \<and> m_role m \<noteq> RoleTool"
| "answered (m # t # ms) \<longleftrightarrow>
     (if extract_tool_calls (m_content m) = [] then m_role m \<noteq> RoleTool \<and> answered (t # ms)
      else answers m t \<and> answered ms)"

lemma answered_append: "answered xs \<Longrightarrow> answered ys \<Longrightarrow> answered (xs @ ys)"
proof (induction xs rule: answered.induct)
  case (2 m)
  then show ?case by (cases ys) auto
qed (auto split: if_splits)

lemma answered_last:
  "answered ms \<Longrightarrow> ms \<noteq> [] \<Longrightarrow> m_role (last ms) = RoleAssistant \<Longrightarrow> extract_tool_calls (m_content (last ms)) = []"
  by (induction ms rule: answered.induct) (auto simp: answers_def split: if_splits)

lemma strip_answered: "answered ms \<Longrightarrow> strip_dangling_tool_calls ms = ms"
  using answered_last [of ms] by (auto simp: strip_dangling_tool_calls_def Let_def)

section \<open>What the service accepts\<close>

text \<open>\<open>pend\<close> are the calls that still have to be answered.\<close>

fun api_valid :: "string list \<Rightarrow> api_message list \<Rightarrow> bool" where
  "api_valid pend [] = (pend = [])"
| "api_valid pend (ToolParam c i # ps) = (case pend of [] \<Rightarrow> False | j # js \<Rightarrow> i = j \<and> api_valid js ps)"
| "api_valid pend (AssistantParam t cs r # ps) = (pend = [] \<and> api_valid (map ac_id cs) ps)"
| "api_valid pend (p # ps) = (pend = [] \<and> api_valid [] ps)"

lemma api_valid_results:
  "api_valid (map tcr_id rs) (map (\<lambda>r. ToolParam (f r) (tcr_id r)) rs @ ps) = api_valid [] ps"
  by (induction rs) auto

lemma composite_calls:
  "snd (snd (foldl (composite_part jc) (t, r, cs) parts)) = cs @ map (call_param jc) (concat (map part_calls parts))"
proof (induction parts arbitrary: t r cs)
  case (Cons p parts)
  then show ?case by (cases p) simp_all
qed simp

lemma ac_id_params [simp]: "map ac_id (map (call_param jc) ds) = map tcd_id ds"
  by (simp add: call_param_def)

lemma assistant_calls:
  assumes "convert_assistant_message jc c = Inr p"
  shows "\<exists>t cs r. p = AssistantParam t cs r \<and> map ac_id cs = map tcd_id (extract_tool_calls c)"
proof (cases c)
  case (CompositeContent parts)
  obtain t r cs where f: "foldl (composite_part jc) ([], [], []) parts = (t, r, cs)" by (rule prod_cases3)
  with composite_calls [of jc "[]" "[]" "[]" parts]
  have "map ac_id cs = map tcd_id (extract_tool_calls c)" by (simp add: CompositeContent del: map_map)
  then show ?thesis using assms f by (auto simp: CompositeContent convert_composite_assistant_def split: if_splits)
qed (use assms in \<open>auto simp: build_tool_call_param_def call_param_def\<close>)

lemma convert_messages_Cons:
  "convert_messages jc (m # ms) = Inr ps \<longleftrightarrow>
     (\<exists>qs ps'. expand_message jc m = Inr qs \<and> convert_messages jc ms = Inr ps' \<and> ps = qs @ ps')"
  by (auto simp: convert_messages_def split: sum.splits)

lemma plain_head:
  assumes "expand_message jc m = Inr qs" and "m_role m \<noteq> RoleTool" and "extract_tool_calls (m_content m) = []"
  shows "api_valid [] (qs @ ps) = api_valid [] ps"
proof (cases "m_role m = RoleAssistant")
  case True
  with assms show ?thesis using assistant_calls [of jc "m_content m"]
    by (fastforce simp: expand_message_def convert_message_def split: sum.splits)
next
  case False
  have "convert_user_message c = Inr p \<Longrightarrow> api_valid [] (p # ps) = api_valid [] ps" for c p
    by (cases c) (auto split: sum.splits)
  with False assms show ?thesis
    by (auto simp: expand_message_def convert_message_def split: sum.splits if_splits)
qed

lemma answered_valid: "answered ms \<Longrightarrow> convert_messages jc ms = Inr ps \<Longrightarrow> api_valid [] ps"
proof (induction ms arbitrary: ps rule: answered.induct)
  case 1
  then show ?case by (simp add: convert_messages_def)
next
  case (2 m)
  then obtain qs ps' where "expand_message jc m = Inr qs" "convert_messages jc [] = Inr ps'" "ps = qs @ ps'"
    unfolding convert_messages_Cons by blast
  with 2 plain_head [of jc m qs ps'] show ?case by (simp add: convert_messages_def)
next
  case (3 m t ms)
  from 3(4) obtain qs ps' where q: "expand_message jc m = Inr qs" "convert_messages jc (t # ms) = Inr ps'" "ps = qs @ ps'"
    unfolding convert_messages_Cons [of jc m] by blast
  show ?case
  proof (cases "extract_tool_calls (m_content m) = []")
    case True
    with 3 q plain_head [OF q(1), of ps'] show ?thesis by simp
  next
    case False
    with 3(3) have an: "answers m t" "answered ms" by simp_all
    from q(2) obtain ts ps'' where t: "expand_message jc t = Inr ts" "convert_messages jc ms = Inr ps''" "ps' = ts @ ps''"
      unfolding convert_messages_Cons by blast
    from an(1) obtain rs where rs: "m_role m = RoleAssistant" "m_role t = RoleTool" "m_content t = ToolResultContent rs"
      "map tcr_id rs = map tcd_id (extract_tool_calls (m_content m))" unfolding answers_def by blast
    obtain p where p: "convert_assistant_message jc (m_content m) = Inr p" "qs = [p]"
      using q(1) rs(1) by (auto simp: expand_message_def convert_message_def split: sum.splits)
    from assistant_calls [OF p(1)] obtain tx cs r where pc: "p = AssistantParam tx cs r" "map ac_id cs = map tcr_id rs"
      using rs(4) by auto
    have "api_valid [] ps''" using 3(2) [OF False an(2) t(2)] .
    then show ?thesis
      using q(3) t(1,3) p(2) pc rs(2,3) by (auto simp: expand_message_def api_valid_results)
  qed
qed

section \<open>The loop keeps the conversation acceptable\<close>

text \<open>What the loop relies on: the provider answers as the assistant, and a tool answers under the id of its call.\<close>

definition faithful :: "'s react_env \<Rightarrow> 's agent \<Rightarrow> bool" where
  "faithful env a \<longleftrightarrow>
     (\<forall>inp ts s s' m. rx_generate env inp ts s = (s', GenOk m) \<longrightarrow> m_role m = RoleAssistant) \<and>
     (\<forall>d s. tcr_id (snd (call_tool env a d s)) = tcd_id d)"

lemma execute_tools_ids:
  "faithful env a \<Longrightarrow> map tcr_id (snd (execute_tools env a ds s)) = map tcd_id ds"
proof (induction ds arbitrary: s)
  case (Cons d ds)
  obtain s1 r where c: "call_tool env a d s = (s1, r)" by fastforce
  obtain s2 r' where h: "fire_result (hk_tool_call_end (ag_hooks a)) (ag_identity a) r s1 = (s2, r')" by fastforce
  obtain s3 rs where e: "execute_tools env a ds s2 = (s3, rs)" by fastforce
  have "tcr_id r = tcd_id d" using Cons.prems c unfolding faithful_def by (metis snd_conv)
  moreover have "tcr_id r' = tcr_id r" by (metis fire_result_keeps(1) h snd_conv)
  ultimately show ?case using Cons.IH [OF Cons.prems, of s2]
    by (simp add: c e h Let_def)
qed simp

lemma react_step_answered:
  assumes "faithful env a" and "answered out"
  shows "react_step env a n inp out s = Return s' ms e \<Longrightarrow> answered ms"
    and "react_step env a n inp out s = Continue s' inp' ms \<Longrightarrow> answered ms"
proof -
  have asst: "m_role m = RoleAssistant" if "rx_generate env inp ts t = (t', GenOk m)" for ts t t' m
    using assms(1) that by (simp add: faithful_def)
  have round: "answered (out @ [m, new_tool_message mid rs])"
    if "m_role m = RoleAssistant" "extract_tool_calls (m_content m) \<noteq> []"
      "execute_tools env a (extract_tool_calls (m_content m)) t = (t', rs)" for m mid rs t t'
    by (rule answered_append [OF assms(2)])
      (use that execute_tools_ids [OF assms(1), of "extract_tool_calls (m_content m)" t] in
        \<open>simp add: answers_def new_tool_message_def new_message_def\<close>)
  have one: "answered (out @ [m])" if "m_role m = RoleAssistant" "extract_tool_calls (m_content m) = []" for m
    by (rule answered_append [OF assms(2)]) (use that in simp)
  show "react_step env a n inp out s = Return s' ms e \<Longrightarrow> answered ms"
    using assms(2) strip_answered [OF assms(2)] asst round one
    by (auto simp: react_step_def Let_def split: prod.splits poll.splits gen_result.splits if_splits)
  show "react_step env a n inp out s = Continue s' inp' ms \<Longrightarrow> answered ms"
    using asst round
    by (auto simp: react_step_def Let_def split: prod.splits poll.splits gen_result.splits if_splits)
qed

lemma react_loop_answered:
  "react_loop n env a k inp out s = Some (s', ms, e) \<Longrightarrow> faithful env a \<Longrightarrow> answered out \<Longrightarrow> answered ms"
proof (induction n arbitrary: k inp out s)
  case (Suc n)
  show ?case
  proof (cases "ag_max_steps a > 0 \<and> k + 1 > ag_max_steps a")
    case True
    with Suc.prems strip_answered [of out] show ?thesis by simp
  next
    case False
    show ?thesis
    proof (cases "react_step env a (k + 1) inp out s")
      case (Return t ms' e')
      with Suc.prems(1) False react_step_answered(1) [OF Suc.prems(2,3) Return] show ?thesis
        by (auto simp: Let_def)
    next
      case (Continue t inp' out')
      show ?thesis
        by (rule Suc.IH [OF _ Suc.prems(2) react_step_answered(2) [OF Suc.prems(2,3) Continue]])
          (use Suc.prems(1) False Continue in \<open>auto simp: Let_def\<close>)
    qed
  qed
qed simp

lemma faithful_override [simp]: "faithful env (override_tools tools a) = faithful env a"
  by (simp add: faithful_def call_tool_def override_tools_def split: option.splits)

text \<open>C17. The transcript of a ReAct run, put behind the messages it was started with, is a conversation the
  service accepts, however the run ended: every tool call is answered by a tool message with its id.\<close>

theorem react_conversation_accepted:
  assumes "execute_with_tools fuel env a sys_msg user_msgs tools s = Some (s', ms, e)"
    and "faithful env a" and "answered (sys_msg # user_msgs)"
    and "convert_messages jc ((sys_msg # user_msgs) @ ms) = Inr ps"
  shows "api_valid [] ps"
proof -
  have "answered ms"
    using react_loop_answered [OF assms(1) [unfolded execute_with_tools_def]] assms(2) by simp
  with assms(3) have "answered ((sys_msg # user_msgs) @ ms)" by (rule answered_append)
  from answered_valid [OF this assms(4)] show ?thesis .
qed

theorem react_conversation_accepted_witness:
  "\<exists>ms ps. execute_with_tools 3 demo_env (demo_agent 2) (new_system_message ''0'' (TextContent [])) [] None False
      = Some (True, ms, Some ErrMaxStepsExceeded) \<and>
    convert_messages demo_codec (new_system_message ''0'' (TextContent []) # ms) = Inr ps \<and>
    length ps = 5 \<and> api_valid [] ps"
proof -
  let ?sys = "new_system_message ''0'' (TextContent [])"
  let ?m = "new_assistant_message ''m'' (ToolCallContent [\<lparr>tcd_id = ''c'', tcd_name = ''bomb'', tcd_args = []\<rparr>])"
  let ?t = "new_tool_message ''i'' [\<lparr>tcr_id = ''c'', tcr_name = ''bomb'', tcr_outputs = []\<rparr>]"
  have run: "execute_with_tools 3 demo_env (demo_agent 2) ?sys [] None False
      = Some (True, [?m, ?t, ?m, ?t], Some ErrMaxStepsExceeded)"
    by (simp add: execute_with_tools_def override_tools_def demo_env_def demo_agent_def react_step_def
        numeral_3_eq_3 Let_def notify_usage_def new_assistant_message_def new_message_def call_tool_def
        reg_call_def register_def reg_lookup_def reg_put_def bomb_def_def bomb_def no_hooks_def
        empty_registry_def need_early_terminating_def is_terminating_def strip_dangling_tool_calls_def
        new_tool_message_def)
  have "case convert_messages demo_codec (?sys # [?m, ?t, ?m, ?t]) of Inr ps \<Rightarrow> length ps = 5 | _ \<Rightarrow> False"
    by code_simp
  then obtain ps where conv: "convert_messages demo_codec (?sys # [?m, ?t, ?m, ?t]) = Inr ps" "length ps = 5"
    by (auto split: sum.splits)
  have "faithful demo_env (demo_agent 2)"
    by (auto simp: faithful_def demo_env_def demo_agent_def call_tool_def reg_call_def bomb_def
        register_def reg_lookup_def reg_put_def empty_registry_def new_assistant_message_def new_message_def
        split: option.splits if_splits)
  moreover have "answered [?sys]" by (simp add: new_system_message_def new_message_def)
  moreover have "convert_messages demo_codec ([?sys] @ [?m, ?t, ?m, ?t]) = Inr ps" using conv(1) by simp
  ultimately have "api_valid [] ps" by (rule react_conversation_accepted [OF run])
  with conv run show ?thesis by blast
qed

end
