(* ===== verification/Facts.thy ===== *)
theory Facts
  imports Graph
begin

text \<open>
  Long-term memory (memory/longterm): the table of facts with its index (fact.go), conflict resolution
  (conflict.go), deduplication (dedup.go) and the write pipeline (write/pipeline.go).  Confidences are
  rationals (rounding of \<open>float64\<close> is ignored), times are nanoseconds.  The clock, \<open>strings.ToLower\<close>,
  \<open>math.Pow(0.95, days)\<close>, the semantic judge and the outcome of a write are fields of the environment; one
  operation reads the clock once.  The file is the list of entries last handed to \<open>WriteAll\<close>.
\<close>

section \<open>State (fact.go)\<close>

record memory_item =
  mi_section :: string
  mi_key :: string
  mi_value :: string
  mi_source :: string
  mi_version :: int
  mi_confidence :: rat
  mi_updated :: int

record ltm =
  lt_items :: "memory_item list"
  lt_index :: "(string \<times> nat) list"
  lt_file :: "memory_item list option"

record ltm_env =
  le_now :: int
  le_lower :: "string \<Rightarrow> string"
  le_pow :: "rat \<Rightarrow> rat"
  le_judge :: "(string \<Rightarrow> string \<Rightarrow> bool) option"
  le_write :: "memory_item list \<Rightarrow> err option"

definition normalize :: "ltm_env \<Rightarrow> string \<Rightarrow> string" where
  "normalize env s = le_lower env (go_trim_space s)"

definition index_key :: "ltm_env \<Rightarrow> string \<Rightarrow> string \<Rightarrow> string" where
  "index_key env section key = normalize env section @ CHR 0x00 # key"

definition item_key :: "ltm_env \<Rightarrow> memory_item \<Rightarrow> string" where
  "item_key env f = index_key env (mi_section f) (mi_key f)"

definition rebuild_index :: "ltm_env \<Rightarrow> memory_item list \<Rightarrow> (string \<times> nat) list" where
  "rebuild_index env items =
     fold (\<lambda>i idx. AList.update (item_key env (items ! i)) i idx) [0..<length items] []"

text \<open>\<open>load\<close> on what \<open>ReadAll\<close> answers.\<close>

datatype read_result = ReadMissing | ReadFailed err | ReadEntries "memory_item list"

definition new_ltm :: ltm where
  "new_ltm = \<lparr>lt_items = [], lt_index = [], lt_file = None\<rparr>"

definition load_ltm :: "ltm_env \<Rightarrow> read_result \<Rightarrow> err + ltm" where
  "load_ltm env r =
     (case r of
        ReadMissing \<Rightarrow> Inr new_ltm
      | ReadFailed e \<Rightarrow> Inl e
      | ReadEntries es \<Rightarrow> Inr \<lparr>lt_items = es, lt_index = rebuild_index env es, lt_file = Some es\<rparr>)"

definition write_ltm :: "ltm_env \<Rightarrow> ltm \<Rightarrow> ltm \<times> err option" where
  "write_ltm env s =
     (case le_write env (lt_items s) of
        None \<Rightarrow> (s\<lparr>lt_file := Some (lt_items s)\<rparr>, None)
      | Some e \<Rightarrow> (s, Some e))"

section \<open>Confidence and comparison\<close>

definition decay_confidence :: "ltm_env \<Rightarrow> memory_item \<Rightarrow> memory_item" where
  "decay_confidence env f =
     (if mi_confidence f \<le> 0 then f
      else
        (let days = of_int (le_now env - mi_updated f) / (24 * 3600 * 10 ^ 9) in
         if days \<le> 0 then f else f\<lparr>mi_confidence := max (1 / 10) (mi_confidence f * le_pow env days)\<rparr>))"

definition is_semantic_match :: "ltm_env \<Rightarrow> string \<Rightarrow> string \<Rightarrow> bool" where
  "is_semantic_match env a b =
     (if a = b then True
      else
        (let la = le_lower env (go_trim_space a); lb = le_lower env (go_trim_space b) in
         if la = lb then True
         else if go_contains la lb \<or> go_contains lb la then True
         else (case le_judge env of None \<Rightarrow> False | Some judge \<Rightarrow> judge la lb)))"

section \<open>Operations\<close>

definition put_fact :: "ltm_env \<Rightarrow> memory_item \<Rightarrow> ltm \<Rightarrow> ltm" where
  "put_fact env f s =
     (case map_of (lt_index s) (item_key env f) of
        None \<Rightarrow> s\<lparr>lt_index := AList.update (item_key env f) (length (lt_items s)) (lt_index s),
                  lt_items := lt_items s @ [f]\<rparr>
      | Some i \<Rightarrow> s\<lparr>lt_items := (lt_items s)[i := f]\<rparr>)"

definition store_fact :: "ltm_env \<Rightarrow> string \<Rightarrow> string \<Rightarrow> string \<Rightarrow> ltm \<Rightarrow>
    ltm \<times> memory_item \<times> memory_item option" where
  "store_fact env section key value s =
     (let sec = normalize env section;
          fresh = \<lparr>mi_section = sec, mi_key = key, mi_value = value, mi_source = [], mi_version = 1,
                   mi_confidence = 1, mi_updated = le_now env\<rparr>
      in case map_of (lt_index s) (index_key env sec key) of
           None \<Rightarrow> (fst (write_ltm env (put_fact env fresh s)), fresh, None)
         | Some i \<Rightarrow>
             (let existing = lt_items s ! i;
                  decayed = decay_confidence env existing
              in if mi_value existing = value \<or> is_semantic_match env (mi_value existing) value then
                   (let e = existing\<lparr>mi_value := value,
                          mi_confidence := min 1 (max (mi_confidence decayed) (mi_confidence fresh) + 1 / 10),
                          mi_updated := le_now env, mi_version := mi_version existing + 1\<rparr>
                    in (fst (write_ltm env (s\<lparr>lt_items := (lt_items s)[i := e]\<rparr>)), e, None))
                 else if mi_confidence fresh > mi_confidence decayed then
                   (let e = fresh\<lparr>mi_version := mi_version existing + 1\<rparr>
                    in (fst (write_ltm env (s\<lparr>lt_items := (lt_items s)[i := e]\<rparr>)), e, Some existing))
                 else
                   (s, existing, Some (fresh\<lparr>mi_version := mi_version existing + 1, mi_updated := 0\<rparr>))))"

definition bulk_one :: "ltm_env \<Rightarrow> memory_item \<Rightarrow> ltm \<Rightarrow> ltm" where
  "bulk_one env f s =
     (let f1 = f\<lparr>mi_updated := le_now env, mi_section := normalize env (mi_section f)\<rparr>
      in case map_of (lt_index s) (item_key env f1) of
           None \<Rightarrow> put_fact env f1 s
         | Some i \<Rightarrow> put_fact env (f1\<lparr>mi_version := mi_version (lt_items s ! i) + 1\<rparr>) s)"

definition bulk_store :: "ltm_env \<Rightarrow> memory_item list \<Rightarrow> ltm \<Rightarrow> ltm \<times> err option" where
  "bulk_store env fs s = write_ltm env (fold (bulk_one env) fs s)"

definition get_fact :: "ltm_env \<Rightarrow> string \<Rightarrow> string \<Rightarrow> ltm \<Rightarrow> memory_item option" where
  "get_fact env section key s =
     map_option (\<lambda>i. decay_confidence env (lt_items s ! i)) (map_of (lt_index s) (index_key env section key))"

definition remove_fact :: "ltm_env \<Rightarrow> string \<Rightarrow> string \<Rightarrow> ltm \<Rightarrow> ltm \<times> err option" where
  "remove_fact env section key s =
     (let k = index_key env section key in
      case map_of (lt_index s) k of
        None \<Rightarrow> (s, None)
      | Some i \<Rightarrow>
          (let lst = length (lt_items s) - 1;
               s1 = (if i \<noteq> lst
                     then s\<lparr>lt_items := (lt_items s)[i := lt_items s ! lst],
                            lt_index := AList.update (item_key env (lt_items s ! lst)) i (lt_index s)\<rparr>
                     else s)
           in write_ltm env (s1\<lparr>lt_items := take lst (lt_items s1), lt_index := AList.delete k (lt_index s1)\<rparr>)))"

definition get_section :: "ltm_env \<Rightarrow> string \<Rightarrow> ltm \<Rightarrow> memory_item list" where
  "get_section env section s =
     map (decay_confidence env) (filter (\<lambda>f. normalize env (mi_section f) = normalize env section) (lt_items s))"

definition list_sections :: "ltm \<Rightarrow> (string \<times> nat) list" where
  "list_sections s =
     fold (\<lambda>f m. AList.update (mi_section f) ((case map_of m (mi_section f) of None \<Rightarrow> 0 | Some n \<Rightarrow> n) + 1) m)
       (lt_items s) []"

definition ltm_stats :: "ltm_env \<Rightarrow> ltm \<Rightarrow> nat \<times> nat \<times> rat" where
  "ltm_stats env s =
     (let total = length (lt_items s);
          sum = sum_list (map (mi_confidence \<circ> decay_confidence env) (lt_items s))
      in (total, card (set (map mi_section (lt_items s))), if total > 0 then sum / of_nat total else 0))"

definition search_ltm :: "ltm_env \<Rightarrow> string \<Rightarrow> ltm \<Rightarrow> memory_item list" where
  "search_ltm env query s =
     (let q = le_lower env query in
      map (decay_confidence env)
        (filter (\<lambda>f. go_contains (le_lower env (mi_section f)) q \<or> go_contains (le_lower env (mi_key f)) q \<or>
                     go_contains (le_lower env (mi_value f)) q) (lt_items s)))"

section \<open>Conflict resolution (conflict.go)\<close>

record item_candidate =
  cd_section :: string
  cd_key :: string
  cd_value :: string
  cd_evidence :: string
  cd_confidence :: rat

datatype conflict_decision = ConflictAcceptNew | ConflictKeepExisting

definition clamp_confidence :: "rat \<Rightarrow> rat" where
  "clamp_confidence c = (if c \<le> 0 then 1 / 2 else if c > 1 then 1 else c)"

definition confidence_gap :: "rat \<Rightarrow> rat" where
  "confidence_gap g = (if g \<le> 0 then 15 / 100 else g)"

definition resolve_one :: "ltm_env \<Rightarrow> rat \<Rightarrow> ltm \<Rightarrow> item_candidate \<Rightarrow> conflict_decision \<times> memory_item" where
  "resolve_one env gap s c =
     (let new_conf = clamp_confidence (cd_confidence c);
          winner = (\<lambda>v. \<lparr>mi_section = cd_section c, mi_key = cd_key c, mi_value = cd_value c,
                     mi_source = cd_evidence c, mi_version = v, mi_confidence = new_conf, mi_updated = le_now env\<rparr>)
      in case get_fact env (cd_section c) (cd_key c) s of
           None \<Rightarrow> (ConflictAcceptNew, winner 1)
         | Some e \<Rightarrow>
             if is_semantic_match env (mi_value e) (cd_value c) then
               (ConflictAcceptNew, e\<lparr>mi_confidence := min 1 (mi_confidence e + 1 / 10), mi_value := cd_value c,
                  mi_source := (if cd_evidence c \<noteq> [] then cd_evidence c else mi_source e),
                  mi_version := mi_version e + 1, mi_updated := le_now env\<rparr>)
             else if \<bar>new_conf - mi_confidence e\<bar> \<ge> confidence_gap gap \<and> new_conf > mi_confidence e then
               (ConflictAcceptNew, winner (mi_version e + 1))
             else (ConflictKeepExisting, e))"

definition resolve :: "ltm_env \<Rightarrow> rat \<Rightarrow> ltm \<Rightarrow> item_candidate list \<Rightarrow> memory_item list" where
  "resolve env gap s cs = map (\<lambda>c. snd (resolve_one env gap s c)) cs"

section \<open>Deduplication (dedup.go)\<close>

definition is_existing_duplicate :: "ltm_env \<Rightarrow> ltm \<Rightarrow> memory_item \<Rightarrow> bool" where
  "is_existing_duplicate env s f =
     (case get_fact env (mi_section f) (mi_key f) s of
        None \<Rightarrow> False
      | Some e \<Rightarrow> mi_value e = mi_value f \<or> is_semantic_match env (mi_value e) (mi_value f))"

definition is_batch_duplicate :: "ltm_env \<Rightarrow> memory_item \<Rightarrow> memory_item list \<Rightarrow> bool" where
  "is_batch_duplicate env f accepted =
     list_ex (\<lambda>a. mi_section a = mi_section f \<and>
       (mi_key a = mi_key f \<or> is_semantic_match env (mi_value a) (mi_value f))) accepted"

fun dedup_loop :: "ltm_env \<Rightarrow> ltm \<Rightarrow> memory_item list \<Rightarrow> nat \<Rightarrow> memory_item list \<Rightarrow> memory_item list \<times> nat" where
  "dedup_loop env s accepted rejected [] = (accepted, rejected)"
| "dedup_loop env s accepted rejected (f # fs) =
     (if is_existing_duplicate env s f then dedup_loop env s accepted (rejected + 1) fs
      else if is_batch_duplicate env f accepted then dedup_loop env s accepted (rejected + 1) fs
      else dedup_loop env s (accepted @ [f]) rejected fs)"

definition dedup_items :: "ltm_env \<Rightarrow> ltm \<Rightarrow> memory_item list \<Rightarrow> memory_item list \<times> nat" where
  "dedup_items env s fs = dedup_loop env s [] 0 fs"

section \<open>The write pipeline (write/pipeline.go, pipeline/pipeline.go)\<close>

record pipeline_result =
  pr_extracted :: nat
  pr_stored :: nat
  pr_rejected :: nat
  pr_usage :: "usage option"

text \<open>What the two extraction calls of the model answer; the second is made when the first fails.\<close>

record extraction =
  ex_full :: "err + (item_candidate list \<times> entity_candidate list \<times> rel_candidate list) \<times> usage option"
  ex_legacy :: "err + item_candidate list \<times> usage option"

record memory_state =
  me_ltm :: ltm
  me_graph :: "graph option"

fun run_steps :: "('s \<Rightarrow> 's \<times> err option) list \<Rightarrow> 's \<Rightarrow> 's \<times> err option" where
  "run_steps [] s = (s, None)"
| "run_steps (f # fs) s = (case f s of (s1, Some e) \<Rightarrow> (s1, Some e) | (s1, None) \<Rightarrow> run_steps fs s1)"

text \<open>The variables of \<open>Run\<close>; the last step, the asynchronous rebuild of the vector index, is left out.\<close>

record pipe_state =
  ps_ltm :: ltm
  ps_graph :: "graph option"
  ps_result :: pipeline_result
  ps_items :: "item_candidate list"
  ps_entities :: "entity_candidate list"
  ps_rels :: "rel_candidate list"
  ps_resolved :: "memory_item list"
  ps_accepted :: "memory_item list"

record pipe_env =
  pe_ltm :: ltm_env
  pe_gap :: rat
  pe_extract :: extraction
  pe_fold :: "string \<Rightarrow> string \<Rightarrow> bool"
  pe_order :: "graph \<Rightarrow> string list"
  pe_sid :: "nat \<Rightarrow> string"

definition extract_step :: "pipe_env \<Rightarrow> pipe_state \<Rightarrow> pipe_state \<times> err option" where
  "extract_step pe p =
     (let ok = (\<lambda>items es rs u. (p\<lparr>ps_items := items, ps_entities := es, ps_rels := rs,
                  ps_result := (ps_result p)\<lparr>pr_usage := u, pr_extracted := length items\<rparr>\<rparr>, None))
      in case ex_full (pe_extract pe) of
           Inr ((items, es, rs), u) \<Rightarrow> ok items es rs u
         | Inl _ \<Rightarrow>
             (case ex_legacy (pe_extract pe) of
                Inl e \<Rightarrow> (p, Some e)
              | Inr (items, u) \<Rightarrow> ok items [] [] u))"

definition resolve_step :: "pipe_env \<Rightarrow> pipe_state \<Rightarrow> pipe_state \<times> err option" where
  "resolve_step pe p =
     (p\<lparr>ps_resolved := resolve (pe_ltm pe) (pe_gap pe) (ps_ltm p) (ps_items p)\<rparr>, None)"

definition dedup_step :: "pipe_env \<Rightarrow> pipe_state \<Rightarrow> pipe_state \<times> err option" where
  "dedup_step pe p =
     (let (acc, rej) = dedup_items (pe_ltm pe) (ps_ltm p) (ps_resolved p)
      in (p\<lparr>ps_accepted := acc, ps_result := (ps_result p)\<lparr>pr_rejected := rej\<rparr>\<rparr>, None))"

definition store_step :: "pipe_env \<Rightarrow> pipe_state \<Rightarrow> pipe_state \<times> err option" where
  "store_step pe p =
     (if ps_accepted p = [] then (p, None)
      else
        (case bulk_store (pe_ltm pe) (ps_accepted p) (ps_ltm p) of
           (l, Some e) \<Rightarrow> (p\<lparr>ps_ltm := l\<rparr>, Some e)
         | (l, None) \<Rightarrow>
             (p\<lparr>ps_ltm := l, ps_result := (ps_result p)\<lparr>pr_stored := length (ps_accepted p)\<rparr>\<rparr>, None)))"

definition graph_update :: "pipe_env \<Rightarrow> pipe_state \<Rightarrow> pipe_state \<times> err option" where
  "graph_update pe p =
     (case ps_graph p of
        None \<Rightarrow> (p, None)
      | Some g \<Rightarrow>
          if ps_entities p = [] \<and> ps_rels p = [] then (p, None)
          else
            (let n = length (ps_entities p);
                 es = map (\<lambda>i. (pe_sid pe i, ps_entities p ! i)) [0..<n];
                 rs = map (\<lambda>i. (pe_sid pe (n + i), ps_rels p ! i)) [0..<length (ps_rels p)]
             in (p\<lparr>ps_graph := Some (fst (upsert_relationships (pe_fold pe) (pe_order pe) es rs g))\<rparr>, None)))"

definition write_run :: "pipe_env \<Rightarrow> ltm \<Rightarrow> graph option \<Rightarrow> pipe_state \<times> err option" where
  "write_run pe l g =
     run_steps [extract_step pe, resolve_step pe, dedup_step pe, store_step pe, graph_update pe]
       \<lparr>ps_ltm = l, ps_graph = g,
        ps_result = \<lparr>pr_extracted = 0, pr_stored = 0, pr_rejected = 0, pr_usage = None\<rparr>,
        ps_items = [], ps_entities = [], ps_rels = [], ps_resolved = [], ps_accepted = []\<rparr>"

section \<open>Queries through the vector index (index.go)\<close>

text \<open>\<open>answer\<close> is what the vector store finds (the section and key of each hit), \<open>None\<close> when there is no store.\<close>

definition index_search :: "ltm_env \<Rightarrow> (err + (string \<times> string) list) option \<Rightarrow> string \<Rightarrow> ltm \<Rightarrow> memory_item list" where
  "index_search env answer query s =
     (let items = (case answer of
          Some (Inr hits) \<Rightarrow>
            List.map_filter (\<lambda>(sec, key). if sec = [] \<or> key = [] then None else get_fact env sec key s) hits
        | _ \<Rightarrow> [])
      in if items \<noteq> [] then items else search_ltm env query s)"

section \<open>The index is exact\<close>

definition ltm_ok :: "ltm_env \<Rightarrow> ltm \<Rightarrow> bool" where
  "ltm_ok env s \<longleftrightarrow>
     (\<forall>k i. map_of (lt_index s) k = Some i \<longleftrightarrow> i < length (lt_items s) \<and> item_key env (lt_items s ! i) = k)"

text \<open>The table behind the index: the item of a key.\<close>

definition fact_at :: "ltm \<Rightarrow> string \<Rightarrow> memory_item option" where
  "fact_at s k = map_option (\<lambda>i. lt_items s ! i) (map_of (lt_index s) k)"

text \<open>
  A keyed table whose laws hold under an invariant, for values that fit their key.
\<close>

locale guarded_store =
  fixes get :: "'s \<Rightarrow> 'k \<Rightarrow> 'v option" and put :: "'v \<Rightarrow> 's \<Rightarrow> 's" and key :: "'v \<Rightarrow> 'k" and ok :: "'s \<Rightarrow> bool"
  assumes put_ok: "ok s \<Longrightarrow> ok (put v s)"
    and get_put: "ok s \<Longrightarrow> get (put v s) k = (if k = key v then Some v else get s k)"
    and get_key: "ok s \<Longrightarrow> get s k = Some v \<Longrightarrow> key v = k"
begin

text \<open>Updating with values computed from the table: each step puts some value of the step's key.\<close>

lemma fold_ok: "ok s \<Longrightarrow> ok (fold (\<lambda>x s. put (f x s) s) xs s)"
  by (induction xs arbitrary: s) (auto intro: put_ok)

lemma fold_get:
  assumes "ok s" and "\<And>x s. x \<in> set xs \<Longrightarrow> key (f x s) = kf x"
  shows "get (fold (\<lambda>x s. put (f x s) s) xs s) k = get s k \<or>
    (\<exists>x \<in> set xs. kf x = k \<and> (\<exists>t. get (fold (\<lambda>x s. put (f x s) s) xs s) k = Some (f x t)))"
  using assms
proof (induction xs arbitrary: s)
  case (Cons x xs)
  have "get (put (f x s) s) k = (if kf x = k then Some (f x s) else get s k)"
    using Cons.prems by (simp add: get_put)
  with Cons.IH [OF put_ok [OF Cons.prems(1)], of "f x s"] Cons.prems(2) show ?case by (auto split: if_splits)
qed simp

lemma fold_kept: "ok s \<Longrightarrow> get s k \<noteq> None \<Longrightarrow> get (fold (\<lambda>x s. put (f x s) s) xs s) k \<noteq> None"
  by (induction xs arbitrary: s) (auto simp: put_ok get_put)

end

lemma ltm_okD: "ltm_ok env s \<Longrightarrow> map_of (lt_index s) k = Some i \<Longrightarrow> i < length (lt_items s) \<and> item_key env (lt_items s ! i) = k"
  by (simp add: ltm_ok_def)

lemma ltm_ok_nth: "ltm_ok env s \<Longrightarrow> i < length (lt_items s) \<Longrightarrow> map_of (lt_index s) (item_key env (lt_items s ! i)) = Some i"
  by (simp add: ltm_ok_def)

lemma put_fact_ok:
  assumes "ltm_ok env s" shows "ltm_ok env (put_fact env f s)"
proof (cases "map_of (lt_index s) (item_key env f)")
  case None
  then have "item_key env (lt_items s ! i) \<noteq> item_key env f" if "i < length (lt_items s)" for i
    using ltm_ok_nth [OF assms that] by auto
  with None assms show ?thesis by (auto simp: ltm_ok_def put_fact_def nth_append less_Suc_eq)
next
  case (Some i)
  then have p: "put_fact env f s = s\<lparr>lt_items := (lt_items s)[i := f]\<rparr>" by (simp add: put_fact_def)
  have "item_key env ((lt_items s)[i := f] ! j) = item_key env (lt_items s ! j)" if "j < length (lt_items s)" for j
    using ltm_okD [OF assms Some] that by (cases "i = j") auto
  then show ?thesis using assms unfolding ltm_ok_def p by auto
qed

lemma put_fact_at:
  assumes "ltm_ok env s"
  shows "fact_at (put_fact env f s) k = (if k = item_key env f then Some f else fact_at s k)"
proof (cases "map_of (lt_index s) (item_key env f)")
  case None
  with ltm_okD [OF assms] show ?thesis
    by (cases "map_of (lt_index s) k") (auto simp: fact_at_def put_fact_def nth_append)
next
  case (Some i)
  with ltm_okD [OF assms Some] ltm_okD [OF assms, of k] show ?thesis
    by (cases "map_of (lt_index s) k") (auto simp: fact_at_def put_fact_def nth_list_update)
qed

interpretation facts: guarded_store fact_at "put_fact env" "item_key env" "ltm_ok env" for env
proof (unfold_locales)
  fix s f k v
  assume ok: "ltm_ok env s"
  show "ltm_ok env (put_fact env f s)" using ok by (rule put_fact_ok)
  show "fact_at (put_fact env f s) k = (if k = item_key env f then Some f else fact_at s k)"
    using ok by (rule put_fact_at)
  show "fact_at s k = Some v \<Longrightarrow> item_key env v = k" using ltm_okD [OF ok] by (auto simp: fact_at_def)
qed

section \<open>Every operation keeps the index\<close>

lemma write_ltm_same [simp]:
  "lt_items (fst (write_ltm env s)) = lt_items s" "lt_index (fst (write_ltm env s)) = lt_index s"
  by (simp_all add: write_ltm_def split: option.splits)

lemma ltm_ok_write [simp]: "ltm_ok env (fst (write_ltm env s)) = ltm_ok env s"
  by (simp add: ltm_ok_def)

lemma fact_at_write [simp]: "fact_at (fst (write_ltm env s)) k = fact_at s k"
  by (simp add: fact_at_def)

text \<open>Overwriting the item at its index is a \<open>put_fact\<close>.\<close>

lemma overwrite_put:
  assumes "map_of (lt_index s) (item_key env f) = Some i"
  shows "s\<lparr>lt_items := (lt_items s)[i := f]\<rparr> = put_fact env f s"
  using assms by (simp add: put_fact_def)

text \<open>So \<open>Store\<close> either leaves the table alone or puts its winner.\<close>

definition stable :: "ltm_env \<Rightarrow> string \<Rightarrow> bool" where
  "stable env sec \<longleftrightarrow> normalize env (normalize env sec) = normalize env sec"

lemma index_key_stable [simp]: "stable env sec \<Longrightarrow> index_key env (normalize env sec) key = index_key env sec key"
  by (simp add: index_key_def stable_def)

lemma store_fact_put:
  assumes "ltm_ok env s" and "stable env section"
    and "store_fact env section key value s = (s', w, c)"
  shows "item_key env w = index_key env section key \<and>
    (s' = fst (write_ltm env (put_fact env w s)) \<or> s' = s \<and> fact_at s (index_key env section key) = Some w)"
proof (cases "map_of (lt_index s) (index_key env section key)")
  case None
  with assms show ?thesis by (auto simp: store_fact_def Let_def item_key_def)
next
  case (Some i)
  note k = ltm_okD [OF assms(1) Some]
  from Some k have same: "s\<lparr>lt_items := (lt_items s)[i := f]\<rparr> = put_fact env f s"
    if "item_key env f = index_key env section key" for f
    using overwrite_put that by metis
  from Some k assms show ?thesis
    by (auto simp: store_fact_def Let_def fact_at_def item_key_def same split: if_splits)
qed

lemma store_fact_ok:
  "ltm_ok env s \<Longrightarrow> stable env section \<Longrightarrow> ltm_ok env (fst (store_fact env section key value s))"
  by (rule prod_cases3 [of "store_fact env section key value s"])
    (use store_fact_put [of env s] put_fact_ok [of env s] in fastforce)

definition bulk_item :: "ltm_env \<Rightarrow> memory_item \<Rightarrow> ltm \<Rightarrow> memory_item" where
  "bulk_item env f s =
     (let f1 = f\<lparr>mi_updated := le_now env, mi_section := normalize env (mi_section f)\<rparr>
      in case fact_at s (item_key env f1) of
           None \<Rightarrow> f1 | Some e \<Rightarrow> f1\<lparr>mi_version := mi_version e + 1\<rparr>)"

lemma bulk_one_put: "bulk_one env f = (\<lambda>s. put_fact env (bulk_item env f s) s)"
  by (auto simp: bulk_one_def bulk_item_def fact_at_def Let_def fun_eq_iff split: option.splits)

lemma bulk_item_key: "stable env (mi_section f) \<Longrightarrow> item_key env (bulk_item env f s) = item_key env f"
  by (auto simp: bulk_item_def item_key_def Let_def split: option.splits)

lemma bulk_store_ok: "ltm_ok env s \<Longrightarrow> ltm_ok env (fst (bulk_store env fs s))"
  unfolding bulk_store_def bulk_one_put using facts.fold_ok [of env s "bulk_item env" fs] by simp

text \<open>Removal moves the last item into the gap.\<close>

lemma remove_fact_exact:
  assumes ok: "ltm_ok env s" and i: "map_of (lt_index s) (index_key env section key) = Some i"
  shows "ltm_ok env (fst (remove_fact env section key s)) \<and>
    (\<forall>x. fact_at (fst (remove_fact env section key s)) x = (if x = index_key env section key then None else fact_at s x))"
proof -
  let ?n = "length (lt_items s) - 1" and ?k = "index_key env section key" and ?t = "fst (remove_fact env section key s)"
  let ?l = "item_key env (lt_items s ! ?n)"
  have i': "i < length (lt_items s)" "item_key env (lt_items s ! i) = ?k" using ltm_okD [OF ok i] by auto
  then have n: "?n < length (lt_items s)" by simp
  have inj: "item_key env (lt_items s ! j) = item_key env (lt_items s ! j') \<longleftrightarrow> j = j'"
    if "j < length (lt_items s)" "j' < length (lt_items s)" for j j'
    using ltm_ok_nth [OF ok that(1)] ltm_ok_nth [OF ok that(2)] by (metis option.inject)
  have idx: "map_of (lt_index s) x = Some j \<longleftrightarrow> j < length (lt_items s) \<and> item_key env (lt_items s ! j) = x" for x j
    using ok by (simp add: ltm_ok_def)
  have len: "length (lt_items ?t) = ?n" using i i' by (auto simp: remove_fact_def Let_def)
  show ?thesis
  proof (cases "i = ?n")
    case True
    have nth: "lt_items ?t ! j = lt_items s ! j" if "j < ?n" for j
      using i that True by (simp add: remove_fact_def)
    have m: "map_of (lt_index ?t) x = (if x = ?k then None else map_of (lt_index s) x)" for x
      using i True by (simp add: remove_fact_def)
    have "map_of (lt_index ?t) x = Some j \<longleftrightarrow> j < ?n \<and> item_key env (lt_items ?t ! j) = x" for x j
      using inj [of j i] i' True nth [of j] n by (cases "j < ?n") (auto simp: m idx)
    moreover have "fact_at ?t x = (if x = ?k then None else fact_at s x)" for x
    proof (cases "map_of (lt_index s) x")
      case (Some j)
      with idx [of x j] inj [of j i] i' True have "x \<noteq> ?k \<Longrightarrow> j < ?n" by (cases "j = ?n") auto
      with Some nth show ?thesis by (auto simp: fact_at_def m)
    qed (simp add: fact_at_def m)
    ultimately show ?thesis by (simp add: ltm_ok_def len)
  next
    case False
    with i' have lt: "i < ?n" by simp
    have nth: "lt_items ?t ! j = (if j = i then lt_items s ! ?n else lt_items s ! j)" if "j < ?n" for j
      using i that False by (simp add: remove_fact_def Let_def)
    have m: "map_of (lt_index ?t) x = (if x = ?k then None else if x = ?l then Some i else map_of (lt_index s) x)" for x
      using i False by (simp add: remove_fact_def Let_def)
    have lk: "?l \<noteq> ?k" using inj [OF n i'(1)] i'(2) False by auto
    have "map_of (lt_index ?t) x = Some j \<longleftrightarrow> j < ?n \<and> item_key env (lt_items ?t ! j) = x" for x j
    proof (cases "j < ?n")
      case True
      with n have j: "j < length (lt_items s)" by simp
      show ?thesis using nth [OF True] lk inj [OF j i'(1)] inj [OF j n] i'(2) lt True by (auto simp: m idx)
    next
      case no: False
      then show ?thesis using lt n by (cases "j = ?n") (auto simp: m idx)
    qed
    moreover have "fact_at ?t x = (if x = ?k then None else fact_at s x)" for x
    proof (cases "x = ?l")
      case True
      with lt lk nth [OF lt] idx [of ?l ?n] n show ?thesis by (auto simp: fact_at_def m)
    next
      case other: False
      show ?thesis
      proof (cases "map_of (lt_index s) x")
        case (Some j)
        with idx [of x j] other i'(2) have "x \<noteq> ?k \<Longrightarrow> j < ?n \<and> j \<noteq> i" by (cases "j = ?n") auto
        with Some nth other show ?thesis by (auto simp: fact_at_def m)
      qed (use other in \<open>simp add: fact_at_def m\<close>)
    qed
    ultimately show ?thesis by (simp add: ltm_ok_def len)
  qed
qed

section \<open>Reachable memories\<close>

text \<open>
  A memory is loaded from a file whose keys differ and then changed by \<open>Store\<close>, \<open>BulkStore\<close> and \<open>Remove\<close>; each
  operation has its own clock, judge and outcome of the write.
\<close>

inductive ltm_step :: "(string \<Rightarrow> string) \<Rightarrow> ltm \<Rightarrow> ltm \<Rightarrow> bool" for lower where
  store: "le_lower env = lower \<Longrightarrow> stable env sec \<Longrightarrow> ltm_step lower s (fst (store_fact env sec key v s))"
| bulk: "le_lower env = lower \<Longrightarrow> ltm_step lower s (fst (bulk_store env fs s))"
| remove: "le_lower env = lower \<Longrightarrow> ltm_step lower s (fst (remove_fact env sec key s))"

definition ltm_start :: "(string \<Rightarrow> string) \<Rightarrow> ltm \<Rightarrow> bool" where
  "ltm_start lower s \<longleftrightarrow>
     (\<exists>env r. le_lower env = lower \<and> load_ltm env r = Inr s \<and> distinct (map (item_key env) (lt_items s)))"

definition ltm_reachable :: "(string \<Rightarrow> string) \<Rightarrow> ltm \<Rightarrow> bool" where
  "ltm_reachable lower s \<longleftrightarrow> (\<exists>s0. ltm_start lower s0 \<and> (ltm_step lower)\<^sup>*\<^sup>* s0 s)"

lemma item_key_lower: "le_lower env = le_lower env' \<Longrightarrow> item_key env = item_key env'"
  by (simp add: item_key_def index_key_def normalize_def fun_eq_iff)

lemma ltm_ok_lower: "le_lower env = le_lower env' \<Longrightarrow> ltm_ok env s = ltm_ok env' s"
  using item_key_lower [of env env'] by (simp add: ltm_ok_def)

lemma rebuild_index_at:
  assumes "distinct (map (item_key env) items)"
  shows "n \<le> length items \<Longrightarrow>
    map_of (fold (\<lambda>i idx. AList.update (item_key env (items ! i)) i idx) [0..<n] []) k = Some i \<longleftrightarrow>
      i < n \<and> item_key env (items ! i) = k"
proof (induction n arbitrary: i)
  case (Suc n)
  have uniq: "item_key env (items ! i) = item_key env (items ! n) \<longleftrightarrow> i = n" if "i < length items"
    using nth_eq_iff_index_eq [OF assms, of i n] Suc.prems that by simp
  have IH: "map_of (fold (\<lambda>i idx. AList.update (item_key env (items ! i)) i idx) [0..<n] []) k = Some i \<longleftrightarrow>
      i < n \<and> item_key env (items ! i) = k" by (rule Suc.IH) (use Suc.prems in simp)
  show ?case
  proof (cases "k = item_key env (items ! n)")
    case True
    with uniq Suc.prems show ?thesis by (cases "i < length items") auto
  next
    case False
    with IH show ?thesis by (auto simp: less_Suc_eq)
  qed
qed simp

lemma ltm_start_ok: "ltm_start lower s \<Longrightarrow> le_lower env = lower \<Longrightarrow> ltm_ok env s"
proof -
  assume "ltm_start lower s" and l: "le_lower env = lower"
  then obtain env' r where e: "le_lower env' = lower" "load_ltm env' r = Inr s" "distinct (map (item_key env') (lt_items s))"
    by (auto simp: ltm_start_def)
  then have "ltm_ok env' s"
    using rebuild_index_at [OF e(3) order_refl]
    by (auto simp: load_ltm_def ltm_ok_def rebuild_index_def new_ltm_def split: read_result.splits)
  with ltm_ok_lower [of env env'] e(1) l show "ltm_ok env s" by simp
qed

interpretation ltm_sys: transition_system "ltm_start lower" "ltm_step lower"
  "\<lambda>s. \<forall>env. le_lower env = lower \<longrightarrow> ltm_ok env s" for lower
proof (unfold_locales)
  fix s t
  show "ltm_start lower s \<Longrightarrow> \<forall>env. le_lower env = lower \<longrightarrow> ltm_ok env s" using ltm_start_ok by blast
  assume ok: "\<forall>env. le_lower env = lower \<longrightarrow> ltm_ok env s" and "ltm_step lower s t"
  from this(2) have "\<exists>env. le_lower env = lower \<and> ltm_ok env t"
  proof cases
    case (remove env sec key)
    with ok have "ltm_ok env s" by blast
    then show ?thesis
      using remove remove_fact_exact [of env s sec key]
      by (cases "map_of (lt_index s) (index_key env sec key)") (auto simp: remove_fact_def)
  qed (use ok store_fact_ok bulk_store_ok in \<open>fastforce+\<close>)
  then show "\<forall>env. le_lower env = lower \<longrightarrow> ltm_ok env t" using ltm_ok_lower by blast
qed

lemma reachable_ltm_ok: "ltm_reachable (le_lower env) s \<Longrightarrow> ltm_ok env s"
  unfolding ltm_reachable_def using ltm_sys.reachable_inv [of "le_lower env"] by blast

lemma fact_at_iff: "ltm_ok env s \<Longrightarrow> fact_at s k = Some f \<longleftrightarrow> f \<in> set (lt_items s) \<and> item_key env f = k"
  by (auto simp: fact_at_def ltm_ok_def in_set_conv_nth)

section \<open>Properties\<close>

text \<open>The index of the long-term memory is exact in every reachable state: no two facts share section
  and key, every fact is found under its own key, \<open>Get\<close> answers what a search through the list would, and
  \<open>Remove\<close> takes out exactly the fact of its key.\<close>

theorem fact_index_exact:
  assumes "ltm_reachable (le_lower env) s"
  shows "distinct (map (item_key env) (lt_items s)) \<and>
    (\<forall>sec key. get_fact env sec key s =
       map_option (decay_confidence env) (List.find (\<lambda>f. item_key env f = index_key env sec key) (lt_items s))) \<and>
    (\<forall>sec key x. fact_at (fst (remove_fact env sec key s)) x =
       (if x = index_key env sec key then None else fact_at s x))"
proof (intro conjI allI)
  have ok: "ltm_ok env s" by (rule reachable_ltm_ok [OF assms])
  show "distinct (map (item_key env) (lt_items s))"
    using ltm_ok_nth [OF ok] by (auto simp: distinct_conv_nth) (metis option.inject)
  fix sec key x
  show "fact_at (fst (remove_fact env sec key s)) x = (if x = index_key env sec key then None else fact_at s x)"
    using remove_fact_exact [OF ok, of sec key]
    by (cases "map_of (lt_index s) (index_key env sec key)") (auto simp: remove_fact_def fact_at_def)
  show "get_fact env sec key s =
      map_option (decay_confidence env) (List.find (\<lambda>f. item_key env f = index_key env sec key) (lt_items s))"
  proof (cases "List.find (\<lambda>f. item_key env f = index_key env sec key) (lt_items s)")
    case None
    with fact_at_iff [OF ok, of "index_key env sec key"] show ?thesis
      by (cases "map_of (lt_index s) (index_key env sec key)") (auto simp: get_fact_def fact_at_def find_None_iff)
  next
    case (Some f)
    then have "fact_at s (index_key env sec key) = Some f" using fact_at_iff [OF ok] by (auto simp: find_Some_iff)
    with Some show ?thesis by (auto simp: get_fact_def fact_at_def)
  qed
qed

text \<open>C28. \<open>Store\<close> resolves conflicts as documented: afterwards the key holds the winner it returns and no other
  key has changed; a new key is accepted, an equivalent value confirms the fact at full confidence, another
  value replaces it once its confidence has decayed below one, and otherwise the old fact stays.\<close>

theorem store_resolves_conflicts:
  assumes "ltm_reachable (le_lower env) s" and "stable env section"
    and "store_fact env section key v s = (s', w, c)"
  shows "fact_at s' (index_key env section key) = Some w \<and>
    (\<forall>k. k \<noteq> index_key env section key \<longrightarrow> fact_at s' k = fact_at s k) \<and>
    (case fact_at s (index_key env section key) of
       None \<Rightarrow> mi_value w = v \<and> mi_version w = 1 \<and> mi_confidence w = 1 \<and> c = None
     | Some e \<Rightarrow>
         if is_semantic_match env (mi_value e) v then
           mi_value w = v \<and> mi_version w = mi_version e + 1 \<and> mi_confidence w = 1 \<and> c = None
         else if mi_confidence (decay_confidence env e) < 1 then
           mi_value w = v \<and> mi_version w = mi_version e + 1 \<and> mi_confidence w = 1 \<and> c = Some e
         else w = e \<and> (\<exists>c'. c = Some c' \<and> mi_value c' = v))"
proof -
  have ok: "ltm_ok env s" by (rule reachable_ltm_ok [OF assms(1)])
  have same: "is_semantic_match env x x" for x by (simp add: is_semantic_match_def)
  note p = store_fact_put [OF ok assms(2,3)]
  have "fact_at s' (index_key env section key) = Some w \<and>
      (\<forall>k. k \<noteq> index_key env section key \<longrightarrow> fact_at s' k = fact_at s k)"
    using p put_fact_at [OF ok, of w] by auto
  moreover have "case fact_at s (index_key env section key) of
       None \<Rightarrow> mi_value w = v \<and> mi_version w = 1 \<and> mi_confidence w = 1 \<and> c = None
     | Some e \<Rightarrow>
         if is_semantic_match env (mi_value e) v then
           mi_value w = v \<and> mi_version w = mi_version e + 1 \<and> mi_confidence w = 1 \<and> c = None
         else if mi_confidence (decay_confidence env e) < 1 then
           mi_value w = v \<and> mi_version w = mi_version e + 1 \<and> mi_confidence w = 1 \<and> c = Some e
         else w = e \<and> (\<exists>c'. c = Some c' \<and> mi_value c' = v)"
    using assms(2,3) same by (auto simp: store_fact_def fact_at_def Let_def split: option.splits if_splits)
  ultimately show ?thesis by blast
qed

lemma dedup_loop_accepted:
  "dedup_loop env s acc rej fs = (acc', rej') \<Longrightarrow>
   (\<forall>f \<in> set acc'. f \<in> set acc \<or> f \<in> set fs \<and> \<not> is_existing_duplicate env s f) \<and>
   length acc' + rej' = length acc + rej + length fs"
proof (induction fs arbitrary: acc rej)
  case (Cons f fs)
  have cons: "\<And>a r. dedup_loop env s a r fs = (acc', rej') \<Longrightarrow>
      (\<forall>f \<in> set acc'. f \<in> set a \<or> f \<in> set fs \<and> \<not> is_existing_duplicate env s f) \<and>
      length acc' + rej' = length a + r + length fs" by (rule Cons.IH)
  from Cons.prems show ?case
    using cons [of acc "rej + 1"] cons [of "acc @ [f]" rej] by (auto split: if_splits)
qed simp

lemma decay_same [simp]:
  "mi_value (decay_confidence env f) = mi_value f" "item_key env (decay_confidence env f) = item_key env f"
  "mi_section (decay_confidence env f) = mi_section f" "mi_key (decay_confidence env f) = mi_key f"
  by (simp_all add: decay_confidence_def item_key_def Let_def)

lemma get_fact_at: "get_fact env sec key s = map_option (decay_confidence env) (fact_at s (index_key env sec key))"
  by (simp add: get_fact_def fact_at_def option.map_comp o_def)

text \<open>
  An item that survives deduplication and has the key of an existing fact comes from a candidate that says
  something else with a clearly higher confidence.
\<close>

lemma accepted_overrides:
  assumes ok: "ltm_ok env s" and f: "f = snd (resolve_one env gap s c)" and k: "item_key env f = k"
    and x: "fact_at s k = Some x" and dup: "\<not> is_existing_duplicate env s f"
  shows "index_key env (cd_section c) (cd_key c) = k \<and> mi_value f = cd_value c \<and>
    \<not> is_semantic_match env (mi_value x) (cd_value c) \<and>
    mi_confidence (decay_confidence env x) + confidence_gap gap \<le> clamp_confidence (cd_confidence c)"
proof -
  have same: "is_semantic_match env y y" for y by (simp add: is_semantic_match_def)
  have gf: "get_fact env (mi_section f) (mi_key f) s = Some (decay_confidence env x)"
    using k x by (simp add: get_fact_at item_key_def)
  with dup have ne: "\<not> is_semantic_match env (mi_value x) (mi_value f)"
    by (simp add: is_existing_duplicate_def)
  show ?thesis
  proof (cases "get_fact env (cd_section c) (cd_key c) s")
    case None
    then have "item_key env f = index_key env (cd_section c) (cd_key c)"
      by (simp add: f resolve_one_def item_key_def Let_def)
    with None x k show ?thesis by (simp add: get_fact_at)
  next
    case (Some e)
    then obtain y where y: "fact_at s (index_key env (cd_section c) (cd_key c)) = Some y" "e = decay_confidence env y"
      by (auto simp: get_fact_at)
    have "item_key env y = index_key env (cd_section c) (cd_key c)" using fact_at_iff [OF ok] y(1) by blast
    then have kc: "index_key env (cd_section c) (cd_key c) = k"
      using Some y k by (auto simp: f resolve_one_def item_key_def Let_def split: if_splits)
    with y x have "e = decay_confidence env x" by simp
    with Some ne same kc show ?thesis by (auto simp: f resolve_one_def Let_def split: if_splits)
  qed
qed

lemma bulk_item_value [simp]: "mi_value (bulk_item env f t) = mi_value f"
  by (simp add: bulk_item_def Let_def split: option.splits)

text \<open>What a run of the pipeline has done to the table of facts.\<close>

definition overrides :: "ltm_env \<Rightarrow> rat \<Rightarrow> memory_item \<Rightarrow> item_candidate \<Rightarrow> bool" where
  "overrides env gap x c \<longleftrightarrow> \<not> is_semantic_match env (mi_value x) (cd_value c) \<and>
     mi_confidence (decay_confidence env x) + confidence_gap gap \<le> clamp_confidence (cd_confidence c)"

lemma bulk_store_override:
  assumes ok: "ltm_ok env s" and x: "fact_at s k = Some x"
    and acc: "\<And>f. f \<in> set fs \<Longrightarrow> stable env (mi_section f) \<and> \<not> is_existing_duplicate env s f \<and>
      (\<exists>c \<in> set cs. f = snd (resolve_one env gap s c))"
  shows "\<exists>x'. fact_at (fst (bulk_store env fs s)) k = Some x' \<and>
    (x' = x \<or> (\<exists>c \<in> set cs. index_key env (cd_section c) (cd_key c) = k \<and> overrides env gap x c \<and> mi_value x' = cd_value c))"
proof -
  have kf: "\<And>f s. f \<in> set fs \<Longrightarrow> item_key env (bulk_item env f s) = item_key env f"
    using acc bulk_item_key by blast
  from facts.fold_get [where s = s and xs = fs and f = "bulk_item env" and kf = "item_key env" and k = k, OF ok kf]
  consider "fact_at (fst (bulk_store env fs s)) k = Some x"
    | f t where "f \<in> set fs" "item_key env f = k" "fact_at (fst (bulk_store env fs s)) k = Some (bulk_item env f t)"
    unfolding bulk_store_def bulk_one_put using x by auto
  then show ?thesis
  proof cases
    case 2
    from acc [OF 2(1)] obtain c where c: "c \<in> set cs" "f = snd (resolve_one env gap s c)" "\<not> is_existing_duplicate env s f"
      by blast
    from accepted_overrides [OF ok c(2) 2(2) x c(3)] 2(3) c(1) show ?thesis by (auto simp: overrides_def)
  qed auto
qed

text \<open>The write pipeline never removes a fact, and changes one only for a candidate that says something else
  with a confidence higher by at least the configured gap; in particular a candidate that confirms a fact leaves
  it as it was.  When it succeeds, every extracted item is counted as stored or as rejected.\<close>

theorem pipeline_overrides_carefully:
  assumes "ltm_reachable (le_lower (pe_ltm pe)) l" and "write_run pe l g = (p, e)"
    and "\<forall>f \<in> set (lt_items l). stable (pe_ltm pe) (mi_section f)"
    and "\<forall>c \<in> set (ps_items p). stable (pe_ltm pe) (cd_section c)"
    and "fact_at l k = Some x"
  shows "(\<exists>x'. fact_at (ps_ltm p) k = Some x' \<and>
      (x' = x \<or> (\<exists>c \<in> set (ps_items p). index_key (pe_ltm pe) (cd_section c) (cd_key c) = k \<and>
         overrides (pe_ltm pe) (pe_gap pe) x c \<and> mi_value x' = cd_value c))) \<and>
    (e = None \<longrightarrow> pr_stored (ps_result p) + pr_rejected (ps_result p) = pr_extracted (ps_result p))"
proof -
  let ?env = "pe_ltm pe"
  have ok: "ltm_ok ?env l" by (rule reachable_ltm_ok [OF assms(1)])
  obtain p1 e1 where ex: "extract_step pe \<lparr>ps_ltm = l, ps_graph = g,
        ps_result = \<lparr>pr_extracted = 0, pr_stored = 0, pr_rejected = 0, pr_usage = None\<rparr>,
        ps_items = [], ps_entities = [], ps_rels = [], ps_resolved = [], ps_accepted = []\<rparr> = (p1, e1)"
    by (rule prod.exhaust)
  then have p1: "ps_ltm p1 = l" "e1 = None \<longrightarrow> pr_extracted (ps_result p1) = length (ps_items p1)" "pr_stored (ps_result p1) = 0"
    by (auto simp: extract_step_def Let_def split: sum.splits prod.splits)
  show ?thesis
  proof (cases e1)
    case (Some e')
    with ex assms(2) have "p = p1" "e \<noteq> None" by (auto simp: write_run_def)
    with p1 assms(5) show ?thesis by auto
  next
    case None
    let ?fs = "resolve ?env (pe_gap pe) l (ps_items p1)"
    obtain acc rej where d: "dedup_loop ?env l [] 0 ?fs = (acc, rej)" by (rule prod.exhaust)
    note dl = dedup_loop_accepted [OF d]
    let ?p3 = "p1\<lparr>ps_resolved := ?fs, ps_accepted := acc, ps_result := (ps_result p1)\<lparr>pr_rejected := rej\<rparr>\<rparr>"
    obtain p4 e4 where st: "store_step pe ?p3 = (p4, e4)" by (rule prod.exhaust)
    have run: "write_run pe l g = (case e4 of None \<Rightarrow> graph_update pe p4 | Some _ \<Rightarrow> (p4, e4))"
      using ex None d st p1(1)
      by (auto simp: write_run_def resolve_step_def dedup_step_def dedup_items_def split: option.splits prod.splits)
    have gu: "ps_ltm (fst (graph_update pe q)) = ps_ltm q \<and> ps_items (fst (graph_update pe q)) = ps_items q \<and>
        ps_result (fst (graph_update pe q)) = ps_result q \<and> snd (graph_update pe q) = None" for q
      by (auto simp: graph_update_def Let_def split: option.splits)
    have p4: "ps_items p4 = ps_items p1" "ps_ltm p4 = (if acc = [] then l else fst (bulk_store ?env acc l))"
      "e4 = None \<Longrightarrow> pr_stored (ps_result p4) = length acc \<and> pr_rejected (ps_result p4) = rej \<and>
         pr_extracted (ps_result p4) = pr_extracted (ps_result p1)"
      using st p1 by (auto simp: store_step_def split: if_splits prod.splits option.splits)
    have "p = (case e4 of None \<Rightarrow> fst (graph_update pe p4) | Some _ \<Rightarrow> p4)" "e = e4"
      using run assms(2) gu [of p4] by (cases e4; cases "graph_update pe p4"; simp)+
    then have pp: "ps_ltm p = ps_ltm p4" "ps_items p = ps_items p1" "e = None \<Longrightarrow> e4 = None" "ps_result p = ps_result p4"
      using gu [of p4] p4(1) by (cases e4; simp)+
    have acc: "stable ?env (mi_section f) \<and> \<not> is_existing_duplicate ?env l f \<and>
        (\<exists>c \<in> set (ps_items p1). f = snd (resolve_one ?env (pe_gap pe) l c))" if "f \<in> set acc" for f
    proof -
      from that dl obtain c where c: "c \<in> set (ps_items p1)" "f = snd (resolve_one ?env (pe_gap pe) l c)"
        "\<not> is_existing_duplicate ?env l f" by (auto simp: resolve_def)
      have "stable ?env (mi_section f)"
        using c(1,2) assms(3,4) pp(2) fact_at_iff [OF ok]
        by (auto simp: resolve_one_def Let_def get_fact_at split: option.splits if_splits)
      with c show ?thesis by blast
    qed
    have "\<exists>x'. fact_at (ps_ltm p) k = Some x' \<and>
      (x' = x \<or> (\<exists>c \<in> set (ps_items p). index_key ?env (cd_section c) (cd_key c) = k \<and>
         overrides ?env (pe_gap pe) x c \<and> mi_value x' = cd_value c))"
      using bulk_store_override [OF ok assms(5) acc] assms(5) by (auto simp: pp p4)
    moreover have "e = None \<Longrightarrow> pr_stored (ps_result p) + pr_rejected (ps_result p) = pr_extracted (ps_result p)"
      using pp p4(3) dl p1(2) None by (auto simp: resolve_def)
    ultimately show ?thesis by blast
  qed
qed

section \<open>A concrete memory\<close>

text \<open>Two facts, the first written a day before the clock and so at half its confidence.\<close>

definition demo_lenv :: ltm_env where
  "demo_lenv = \<lparr>le_now = 24 * 3600 * 10 ^ 9, le_lower = (\<lambda>s. s), le_pow = (\<lambda>_. 1 / 2), le_judge = None,
     le_write = (\<lambda>_. None)\<rparr>"

definition demo_item :: "string \<Rightarrow> string \<Rightarrow> memory_item" where
  "demo_item k v = \<lparr>mi_section = ''s'', mi_key = k, mi_value = v, mi_source = [], mi_version = 1,
     mi_confidence = 1, mi_updated = 0\<rparr>"

definition demo_ltm :: ltm where
  "demo_ltm = \<lparr>lt_items = [demo_item ''a'' ''tabs'', demo_item ''b'' ''vim''],
     lt_index = rebuild_index demo_lenv [demo_item ''a'' ''tabs'', demo_item ''b'' ''vim''],
     lt_file = Some [demo_item ''a'' ''tabs'', demo_item ''b'' ''vim'']\<rparr>"

lemma demo_reachable_ltm: "ltm_reachable (le_lower demo_lenv) demo_ltm"
proof -
  have "load_ltm demo_lenv (ReadEntries [demo_item ''a'' ''tabs'', demo_item ''b'' ''vim'']) = Inr demo_ltm"
    by (simp add: load_ltm_def demo_ltm_def)
  moreover have "distinct (map (item_key demo_lenv) (lt_items demo_ltm))" by code_simp
  ultimately show ?thesis unfolding ltm_reachable_def ltm_start_def by blast
qed

theorem fact_index_exact_witness:
  "fact_at (fst (remove_fact demo_lenv ''s'' ''a'' demo_ltm)) (index_key demo_lenv ''s'' ''b'') = Some (demo_item ''b'' ''vim'') \<and>
   fact_at (fst (remove_fact demo_lenv ''s'' ''a'' demo_ltm)) (index_key demo_lenv ''s'' ''a'') = None"
proof -
  have f: "fact_at demo_ltm (index_key demo_lenv ''s'' ''b'') = Some (demo_item ''b'' ''vim'')"
    "index_key demo_lenv ''s'' ''b'' \<noteq> index_key demo_lenv ''s'' ''a''" by code_simp+
  from fact_index_exact [OF demo_reachable_ltm]
  have "fact_at (fst (remove_fact demo_lenv sec key demo_ltm)) x =
      (if x = index_key demo_lenv sec key then None else fact_at demo_ltm x)" for sec key x by blast
  with f show ?thesis by simp
qed

theorem store_resolves_conflicts_witness:
  "\<exists>s' w. store_fact demo_lenv ''s'' ''a'' ''spaces'' demo_ltm = (s', w, Some (demo_item ''a'' ''tabs'')) \<and>
    fact_at s' (index_key demo_lenv ''s'' ''a'') = Some w \<and> mi_value w = ''spaces''"
proof -
  obtain s' w c where r: "store_fact demo_lenv ''s'' ''a'' ''spaces'' demo_ltm = (s', w, c)" by (rule prod_cases3)
  have "stable demo_lenv ''s''" by code_simp
  note st = store_resolves_conflicts [OF demo_reachable_ltm this r]
  have "fact_at demo_ltm (index_key demo_lenv ''s'' ''a'') = Some (demo_item ''a'' ''tabs'')"
    "\<not> is_semantic_match demo_lenv (mi_value (demo_item ''a'' ''tabs'')) ''spaces''"
    "mi_confidence (decay_confidence demo_lenv (demo_item ''a'' ''tabs'')) < 1" by code_simp+
  with st r show ?thesis by simp
qed

definition demo_pipe :: pipe_env where
  "demo_pipe = \<lparr>pe_ltm = demo_lenv, pe_gap = 0,
     pe_extract = \<lparr>ex_full = Inl (ErrOther ''no object''), ex_legacy = Inr ([\<lparr>cd_section = ''s'', cd_key = ''a'',
       cd_value = ''spaces'', cd_evidence = [], cd_confidence = 9 / 10\<rparr>], None)\<rparr>,
     pe_fold = (=), pe_order = (\<lambda>_. []), pe_sid = (\<lambda>_. [])\<rparr>"

theorem pipeline_overrides_carefully_witness:
  "\<exists>p x'. write_run demo_pipe demo_ltm None = (p, None) \<and>
    fact_at (ps_ltm p) (index_key demo_lenv ''s'' ''a'') = Some x' \<and>
    pr_stored (ps_result p) + pr_rejected (ps_result p) = pr_extracted (ps_result p)"
proof -
  have "snd (write_run demo_pipe demo_ltm None) = None \<and>
      ps_items (fst (write_run demo_pipe demo_ltm None)) = fst (projr (ex_legacy (pe_extract demo_pipe)))"
    by code_simp
  then obtain p where p: "write_run demo_pipe demo_ltm None = (p, None)"
    "ps_items p = fst (projr (ex_legacy (pe_extract demo_pipe)))" by (cases "write_run demo_pipe demo_ltm None") simp
  have s: "stable demo_lenv ''s''" by code_simp
  have f: "fact_at demo_ltm (index_key demo_lenv ''s'' ''a'') = Some (demo_item ''a'' ''tabs'')" by code_simp
  have "ltm_reachable (le_lower (pe_ltm demo_pipe)) demo_ltm"
    using demo_reachable_ltm by (simp add: demo_pipe_def)
  moreover have "\<forall>f \<in> set (lt_items demo_ltm). stable (pe_ltm demo_pipe) (mi_section f)"
    using s by (simp add: demo_ltm_def demo_item_def demo_pipe_def)
  moreover have "\<forall>c \<in> set (ps_items p). stable (pe_ltm demo_pipe) (cd_section c)"
    using s by (simp add: p(2) demo_pipe_def)
  ultimately show ?thesis
    using pipeline_overrides_carefully [OF _ p(1) _ _ f] p(1) by blast
qed

end
