(* ===== verification/Dream.thy ===== *)
theory Dream
  imports Facts
begin

text \<open>
  Background consolidation (memory/longterm/dream): the hybrid score (scoring.go), one dream cycle and the
  scheduler (dream.go).  What the model answers in deep sleep and in REM are arguments; prompts, the report's
  rendering and the logger are left out.
\<close>

section \<open>Scoring (scoring.go)\<close>

definition clamp01 :: "rat \<Rightarrow> rat" where
  "clamp01 x = (if x < 0 then 0 else if x > 1 then 1 else x)"

definition promote_threshold :: rat where "promote_threshold = 55 / 100"

definition deprecate_threshold :: rat where "deprecate_threshold = 30 / 100"

definition score_candidate :: "rat \<Rightarrow> int \<Rightarrow> int \<Rightarrow> int \<Rightarrow> rat" where
  "score_candidate confidence version degree llm_score =
     50 / 100 * clamp01 (of_int llm_score / 10) + 20 / 100 * clamp01 (of_int degree / 10) +
     15 / 100 * clamp01 (of_int version / 5) + 15 / 100 * clamp01 confidence"

section \<open>One cycle (dream.go)\<close>

record dream_candidate =
  dc_item :: memory_item
  dc_degree :: nat

record item_score =
  sc_section :: string
  sc_key :: string
  sc_score :: int

record insight =
  in_section :: string
  in_key :: string
  in_value :: string

record dream_env =
  de_ltm :: ltm_env
  de_order :: "graph \<Rightarrow> string list"
  de_rem :: "dream_candidate list \<Rightarrow> err + insight list \<times> string"
  de_scores :: "dream_candidate list \<Rightarrow> err + item_score list"

record dream_report =
  dr_candidates :: nat
  dr_high :: nat
  dr_low :: nat
  dr_promoted :: nat
  dr_insights :: "insight list"
  dr_summary :: string
  dr_calls :: nat

definition light_sleep :: "dream_env \<Rightarrow> graph option \<Rightarrow> ltm \<Rightarrow> dream_candidate list" where
  "light_sleep de g l =
     map (\<lambda>f. \<lparr>dc_item = f, dc_degree = (case g of None \<Rightarrow> 0 | Some g \<Rightarrow>
         sum_list (map (\<lambda>e. length (snd (neighbors g (en_id e))))
           (search_entities (le_lower (de_ltm de)) (de_order de g) (mi_key f) 3 g)))\<rparr>) (lt_items l)"

definition candidate_score :: "dream_candidate \<Rightarrow> item_score \<Rightarrow> rat" where
  "candidate_score c s =
     score_candidate (mi_confidence (dc_item c)) (mi_version (dc_item c)) (int (dc_degree c)) (sc_score s)"

text \<open>One rating of the model: the first candidate with its section and key; \<open>finals\<close> are the scores so far.\<close>

definition deep_one :: "ltm_env \<Rightarrow> dream_candidate list \<Rightarrow> item_score \<Rightarrow> ltm \<times> rat list \<Rightarrow> ltm \<times> rat list" where
  "deep_one env cs s st =
     (case st of (l, finals) \<Rightarrow>
        (case List.find (\<lambda>c. mi_section (dc_item c) = sc_section s \<and> mi_key (dc_item c) = sc_key s) cs of
           None \<Rightarrow> (l, finals)
         | Some c \<Rightarrow>
             (let final = candidate_score c s;
                  l1 = (if final \<ge> promote_threshold then
                          (let v = (case get_fact env (sc_section s) (sc_key s) l of None \<Rightarrow> [] | Some e \<Rightarrow> mi_value e)
                           in fst (store_fact env (sc_section s) (sc_key s) v l))
                        else if final \<le> deprecate_threshold then fst (remove_fact env (sc_section s) (sc_key s) l)
                        else l)
              in (l1, finals @ [final]))))"

definition promote_one :: "ltm_env \<Rightarrow> insight \<Rightarrow> ltm \<times> nat \<Rightarrow> ltm \<times> nat" where
  "promote_one env i st =
     (if in_section i = [] \<or> in_key i = [] then st
      else (fst (store_fact env (in_section i) (in_key i) (in_value i) (fst st)), snd st + 1))"

definition deep_sleep :: "dream_env \<Rightarrow> dream_candidate list \<Rightarrow> insight list \<Rightarrow> ltm \<Rightarrow>
    ltm \<times> (err + rat list \<times> nat)" where
  "deep_sleep de cs insights l =
     (case de_scores de cs of
        Inl e \<Rightarrow> (l, Inl (ErrWrap ''deep sleep'' e))
      | Inr scores \<Rightarrow>
          (let (l1, finals) = fold (deep_one (de_ltm de) cs) scores (l, []);
               (l2, promoted) = fold (promote_one (de_ltm de)) insights (l1, 0)
           in (l2, Inr (finals, promoted))))"

definition dream_run :: "dream_env \<Rightarrow> graph option \<Rightarrow> ltm \<Rightarrow> ltm \<times> dream_report \<times> err option" where
  "dream_run de g l =
     (let cs = light_sleep de g l;
          r0 = \<lparr>dr_candidates = length cs, dr_high = 0, dr_low = 0, dr_promoted = 0, dr_insights = [],
                dr_summary = [], dr_calls = 0\<rparr>
      in if cs = [] then (l, r0, None)
         else
           (let (insights, r1) = (case de_rem de cs of
                    Inl _ \<Rightarrow> ([], r0\<lparr>dr_calls := 1\<rparr>)
                  | Inr (ins, sm) \<Rightarrow> (ins, r0\<lparr>dr_calls := 1, dr_insights := ins, dr_summary := sm\<rparr>));
                r2 = r1\<lparr>dr_calls := 2\<rparr>
            in (case deep_sleep de cs insights l of
                  (l1, Inl e) \<Rightarrow> (l1, r2, Some e)
                | (l1, Inr (finals, promoted)) \<Rightarrow>
                    (l1, r2\<lparr>dr_promoted := promoted,
                       dr_high := length (filter (\<lambda>x. x \<ge> promote_threshold) finals),
                       dr_low := length (filter (\<lambda>x. x \<le> deprecate_threshold) finals)\<rparr>, None))))"

section \<open>The scheduler\<close>

record scheduler =
  sd_cooldown :: int
  sd_idle :: int
  sd_dreamed :: int
  sd_activity :: int

definition notify_activity :: "int \<Rightarrow> scheduler \<Rightarrow> scheduler" where
  "notify_activity now s = s\<lparr>sd_activity := now\<rparr>"

text \<open>The check of \<open>maybeDream\<close> at \<open>now\<close>; the clock is read again, at \<open>later\<close>, when a dream starts.\<close>

definition maybe_dream :: "int \<Rightarrow> int \<Rightarrow> scheduler \<Rightarrow> scheduler \<times> bool" where
  "maybe_dream now later s =
     (if now - sd_activity s < sd_idle s \<or> now - sd_dreamed s < sd_cooldown s then (s, False)
      else (s\<lparr>sd_dreamed := later\<rparr>, True))"

datatype sched_event = Activity int | Tick int int

fun event_time :: "sched_event \<Rightarrow> int" where
  "event_time (Activity t) = t"
| "event_time (Tick t _) = t"

text \<open>The times at which the dreams of a run start.\<close>

fun dreams :: "scheduler \<Rightarrow> sched_event list \<Rightarrow> int list" where
  "dreams s [] = []"
| "dreams s (Activity t # es) = dreams (notify_activity t s) es"
| "dreams s (Tick t t' # es) =
     (case maybe_dream t t' s of (s', b) \<Rightarrow> (if b then t' # dreams s' es else dreams s' es))"

section \<open>Properties\<close>

lemma clamp01_bounds [simp]: "0 \<le> clamp01 x" "clamp01 x \<le> 1"
  by (simp_all add: clamp01_def)

text \<open>The hybrid score is between 0 and 1, and for a fresh fact (full confidence, first version, no
  relationships) the model's rating decides alone, as the calibration says: 8 and more promotes, 2 and less
  deprecates.\<close>

theorem score_calibrated:
  "0 \<le> score_candidate c v d s \<and> score_candidate c v d s \<le> 1 \<and>
   (score_candidate 1 1 0 s \<ge> promote_threshold \<longleftrightarrow> s \<ge> 8) \<and>
   (score_candidate 1 1 0 s \<le> deprecate_threshold \<longleftrightarrow> s \<le> 2)"
proof (intro conjI)
  show "0 \<le> score_candidate c v d s" by (simp add: score_candidate_def)
  show "score_candidate c v d s \<le> 1"
    using clamp01_bounds(2) [of "of_int s / 10"] clamp01_bounds(2) [of "of_int d / 10"]
      clamp01_bounds(2) [of "of_int v / 5"] clamp01_bounds(2) [of c]
    unfolding score_candidate_def by linarith
  have fresh: "score_candidate 1 1 0 s = 1 / 2 * clamp01 (of_int s / 10) + 18 / 100"
    by (simp add: score_candidate_def clamp01_def)
  have q: "q < 1 \<Longrightarrow> clamp01 (of_int s / 10) \<ge> q \<longleftrightarrow> of_int s \<ge> 10 * q" if "0 < q" for q
    using that by (auto simp: clamp01_def)
  have "score_candidate 1 1 0 s \<ge> promote_threshold \<longleftrightarrow> clamp01 (of_int s / 10) \<ge> 74 / 100"
    unfolding fresh promote_threshold_def by (simp add: field_simps)
  also have "\<dots> \<longleftrightarrow> of_int s \<ge> (74 / 10 :: rat)" using q [of "74 / 100"] by simp
  also have "\<dots> \<longleftrightarrow> s \<ge> 8" by linarith
  finally show "score_candidate 1 1 0 s \<ge> promote_threshold \<longleftrightarrow> s \<ge> 8" .
  have "score_candidate 1 1 0 s \<le> deprecate_threshold \<longleftrightarrow> clamp01 (of_int s / 10) \<le> 24 / 100"
    unfolding fresh deprecate_threshold_def by (simp add: field_simps)
  also have "\<dots> \<longleftrightarrow> of_int s \<le> (24 / 10 :: rat)" by (auto simp: clamp01_def)
  also have "\<dots> \<longleftrightarrow> s \<le> 2" by linarith
  finally show "score_candidate 1 1 0 s \<le> deprecate_threshold \<longleftrightarrow> s \<le> 2" .
qed

subsection \<open>What a dream changes\<close>

text \<open>\<open>s\<close> is a rating of the candidate \<open>c\<close> under the key \<open>k\<close>.\<close>

definition rates :: "ltm_env \<Rightarrow> dream_candidate list \<Rightarrow> item_score \<Rightarrow> dream_candidate \<Rightarrow> string \<Rightarrow> bool" where
  "rates env cs s c k \<longleftrightarrow> c \<in> set cs \<and> mi_section (dc_item c) = sc_section s \<and> mi_key (dc_item c) = sc_key s \<and>
     index_key env (sc_section s) (sc_key s) = k"

definition judged :: "ltm_env \<Rightarrow> dream_candidate list \<Rightarrow> string \<Rightarrow> item_score \<Rightarrow> bool" where
  "judged env cs k s \<longleftrightarrow> (\<exists>c. rates env cs s c k \<and>
     (candidate_score c s \<ge> promote_threshold \<or> candidate_score c s \<le> deprecate_threshold))"

definition deprecated :: "ltm_env \<Rightarrow> dream_candidate list \<Rightarrow> string \<Rightarrow> item_score \<Rightarrow> bool" where
  "deprecated env cs k s \<longleftrightarrow> (\<exists>c. rates env cs s c k \<and> candidate_score c s \<le> deprecate_threshold)"

lemma find_SomeD: "List.find P xs = Some x \<Longrightarrow> x \<in> set xs \<and> P x"
  by (auto simp: find_Some_iff)

lemma store_fact_frame:
  assumes "ltm_ok env l" and "stable env section"
  shows "ltm_ok env (fst (store_fact env section key v l))"
    and "fact_at (fst (store_fact env section key v l)) (index_key env section key) \<noteq> None"
    and "k \<noteq> index_key env section key \<Longrightarrow> fact_at (fst (store_fact env section key v l)) k = fact_at l k"
proof -
  obtain l' w c where st: "store_fact env section key v l = (l', w, c)" by (rule prod_cases3)
  note p = store_fact_put [OF assms st] put_fact_at [OF assms(1), of w] put_fact_ok [OF assms(1), of w]
  from p assms(1) show "ltm_ok env (fst (store_fact env section key v l))" by (auto simp: st)
  from p show "fact_at (fst (store_fact env section key v l)) (index_key env section key) \<noteq> None" by (auto simp: st)
  assume "k \<noteq> index_key env section key"
  with p show "fact_at (fst (store_fact env section key v l)) k = fact_at l k" by (auto simp: st)
qed

lemma remove_fact_frame:
  assumes "ltm_ok env l"
  shows "ltm_ok env (fst (remove_fact env section key l)) \<and>
    (\<forall>k. k \<noteq> index_key env section key \<longrightarrow> fact_at (fst (remove_fact env section key l)) k = fact_at l k)"
  using remove_fact_exact [OF assms] assms
  by (cases "map_of (lt_index l) (index_key env section key)") (auto simp: remove_fact_def)

lemma deep_one_frame:
  assumes "ltm_ok env l" and "stable env (sc_section s)"
  shows "ltm_ok env (fst (deep_one env cs s (l, fs))) \<and>
    (fact_at (fst (deep_one env cs s (l, fs))) k \<noteq> fact_at l k \<longrightarrow> judged env cs k s) \<and>
    (fact_at l k \<noteq> None \<and> fact_at (fst (deep_one env cs s (l, fs))) k = None \<longrightarrow> deprecated env cs k s)"
proof (cases "List.find (\<lambda>c. mi_section (dc_item c) = sc_section s \<and> mi_key (dc_item c) = sc_key s) cs")
  case None
  with assms show ?thesis by (auto simp: deep_one_def)
next
  case (Some c)
  from find_SomeD [OF Some] have r: "rates env cs s c (index_key env (sc_section s) (sc_key s))" by (simp add: rates_def)
  note st = store_fact_frame(1,2) [OF assms, where key = "sc_key s"]
    store_fact_frame(3) [OF assms, where key = "sc_key s" and k = k]
  note rm = remove_fact_frame [OF assms(1), of "sc_section s" "sc_key s"]
  show ?thesis
  proof (cases "k = index_key env (sc_section s) (sc_key s)")
    case True
    with r Some assms(1) st(1,2) rm show ?thesis
      by (auto simp: deep_one_def judged_def deprecated_def Let_def simp del: not_None_eq)
  next
    case False
    with Some assms(1) st rm show ?thesis by (auto simp: deep_one_def Let_def)
  qed
qed

lemma deep_fold_frame:
  assumes "ltm_ok env l" and "\<forall>s \<in> set ss. stable env (sc_section s)"
  shows "ltm_ok env (fst (fold (deep_one env cs) ss (l, fs))) \<and>
    (fact_at (fst (fold (deep_one env cs) ss (l, fs))) k \<noteq> fact_at l k \<longrightarrow> (\<exists>s \<in> set ss. judged env cs k s)) \<and>
    (fact_at l k \<noteq> None \<and> fact_at (fst (fold (deep_one env cs) ss (l, fs))) k = None \<longrightarrow>
       (\<exists>s \<in> set ss. deprecated env cs k s))"
  using assms
proof (induction ss arbitrary: l fs)
  case (Cons s ss)
  obtain l1 fs1 where d: "deep_one env cs s (l, fs) = (l1, fs1)" by (rule prod.exhaust)
  have "stable env (sc_section s)" using Cons.prems(2) by simp
  note one = deep_one_frame [OF Cons.prems(1) this, of cs fs k, unfolded d fst_conv]
  have "\<forall>s \<in> set ss. stable env (sc_section s)" using Cons.prems(2) by simp
  note IH = Cons.IH [OF conjunct1 [OF one] this, of fs1]
  from one IH show ?case unfolding fold_simps d list.set by (metis insert_iff)
qed auto

lemma promote_fold_frame:
  assumes "ltm_ok env l" and "\<forall>i \<in> set is. stable env (in_section i)"
  shows "(fact_at (fst (fold (promote_one env) is (l, n))) k \<noteq> fact_at l k \<longrightarrow>
       (\<exists>i \<in> set is. index_key env (in_section i) (in_key i) = k \<and> in_section i \<noteq> [] \<and> in_key i \<noteq> [])) \<and>
    (fact_at l k \<noteq> None \<longrightarrow> fact_at (fst (fold (promote_one env) is (l, n))) k \<noteq> None)"
  using assms
proof (induction "is" arbitrary: l n)
  case (Cons i "is")
  show ?case
  proof (cases "in_section i = [] \<or> in_key i = []")
    case True
    with Cons.IH [OF Cons.prems(1), of n] Cons.prems(2) show ?thesis by (auto simp: promote_one_def)
  next
    case False
    have "stable env (in_section i)" using Cons.prems(2) by simp
    note st = store_fact_frame(1,2) [OF Cons.prems(1) this, where key = "in_key i" and v = "in_value i"]
      store_fact_frame(3) [OF Cons.prems(1) this, where key = "in_key i" and v = "in_value i" and k = k]
    let ?l = "fst (store_fact env (in_section i) (in_key i) (in_value i) l)"
    have "fold (promote_one env) (i # is) (l, n) = fold (promote_one env) is (?l, n + 1)"
      using False by (simp add: promote_one_def)
    moreover have "\<forall>i \<in> set is. stable env (in_section i)" using Cons.prems(2) by simp
    note IH = Cons.IH [OF st(1) this, of "n + 1"]
    ultimately show ?thesis using False st(2,3) IH by (cases "k = index_key env (in_section i) (in_key i)") auto
  qed
qed simp

text \<open>C33. A dream changes only what was judged: a fact differs afterwards only if an insight was stored under
  its key, or the model rated it and its hybrid score reached the promotion or the deprecation threshold; and
  a fact disappears only if it was rated with a score at or below the deprecation threshold.\<close>

theorem dream_changes_only_judged:
  assumes "ltm_reachable (le_lower (de_ltm de)) l" and "deep_sleep de cs insights l = (l', r)"
    and "de_scores de cs = Inr scores" and "\<forall>s \<in> set scores. stable (de_ltm de) (sc_section s)"
    and "\<forall>i \<in> set insights. stable (de_ltm de) (in_section i)"
  shows "(fact_at l' k \<noteq> fact_at l k \<longrightarrow>
      (\<exists>i \<in> set insights. index_key (de_ltm de) (in_section i) (in_key i) = k \<and> in_section i \<noteq> [] \<and> in_key i \<noteq> []) \<or>
      (\<exists>s \<in> set scores. judged (de_ltm de) cs k s)) \<and>
    (fact_at l k \<noteq> None \<and> fact_at l' k = None \<longrightarrow> (\<exists>s \<in> set scores. deprecated (de_ltm de) cs k s))"
proof -
  let ?env = "de_ltm de"
  obtain l1 fs where d: "fold (deep_one ?env cs) scores (l, []) = (l1, fs)" by (rule prod.exhaust)
  obtain l2 n where p: "fold (promote_one ?env) insights (l1, 0) = (l2, n)" by (rule prod.exhaust)
  have l': "l' = l2" using assms(2,3) d p by (simp add: deep_sleep_def)
  note one = deep_fold_frame [OF reachable_ltm_ok [OF assms(1)] assms(4), of cs "[]" k, unfolded d fst_conv]
  note two = promote_fold_frame [OF conjunct1 [OF one] assms(5), of 0 k, unfolded p fst_conv]
  from one two show ?thesis unfolding l' by metis
qed

text \<open>Dreams keep their distance: in a run whose clock does not go back, every dream but the first starts at
  least the cooldown after the dream before it started.\<close>

theorem dreams_keep_cooldown:
  assumes "dreams s es = ds" and "\<forall>e \<in> set es. case e of Tick t t' \<Rightarrow> t \<le> t' | Activity _ \<Rightarrow> True"
    and "Suc i < length ds"
  shows "ds ! Suc i - ds ! i \<ge> sd_cooldown s"
proof -
  have "(ds \<noteq> [] \<longrightarrow> hd ds - sd_dreamed s \<ge> sd_cooldown s) \<and>
      (\<forall>i. Suc i < length ds \<longrightarrow> ds ! Suc i - ds ! i \<ge> sd_cooldown s)"
    using assms(1,2)
  proof (induction s es arbitrary: ds rule: dreams.induct)
    case (3 s t t' es)
    obtain s' b where m: "maybe_dream t t' s = (s', b)" by (rule prod.exhaust)
    have s': "sd_cooldown s' = sd_cooldown s" "b \<Longrightarrow> sd_dreamed s' = t' \<and> t - sd_dreamed s \<ge> sd_cooldown s"
      "\<not> b \<Longrightarrow> s' = s" using m by (auto simp: maybe_dream_def split: if_splits)
    have IH: "(dreams s' es \<noteq> [] \<longrightarrow> hd (dreams s' es) - sd_dreamed s' \<ge> sd_cooldown s') \<and>
        (\<forall>i. Suc i < length (dreams s' es) \<longrightarrow> dreams s' es ! Suc i - dreams s' es ! i \<ge> sd_cooldown s')"
      using 3 m by (cases b) auto
    have ds: "ds = (if b then t' # dreams s' es else dreams s' es)" and t: "t \<le> t'"
      using 3 m by auto
    show ?case
    proof (cases b)
      case True
      have "(t' # dreams s' es) ! Suc i - (t' # dreams s' es) ! i \<ge> sd_cooldown s"
        if "Suc i < length (t' # dreams s' es)" for i
        using IH s' True that by (cases i) (auto simp: hd_conv_nth)
      with True ds s' t show ?thesis by auto
    next
      case False
      with ds s' IH show ?thesis by auto
    qed
  qed (auto simp: notify_activity_def)
  with assms(3) show ?thesis by blast
qed

section \<open>A concrete dream\<close>

text \<open>The model rates the first fact 1 and the second 9; the deprecated fact goes, the other stays.\<close>

definition demo_cands :: "dream_candidate list" where
  "demo_cands = map (\<lambda>f. \<lparr>dc_item = f, dc_degree = 0\<rparr>) (lt_items demo_ltm)"

definition demo_dream :: dream_env where
  "demo_dream = \<lparr>de_ltm = demo_lenv, de_order = (\<lambda>_. []), de_rem = (\<lambda>_. Inr ([], [])),
     de_scores = (\<lambda>_. Inr [\<lparr>sc_section = ''s'', sc_key = ''a'', sc_score = 1\<rparr>, \<lparr>sc_section = ''s'', sc_key = ''b'', sc_score = 9\<rparr>])\<rparr>"

theorem dream_changes_only_judged_witness:
  "\<exists>l' r. deep_sleep demo_dream demo_cands [] demo_ltm = (l', r) \<and>
    fact_at l' (index_key demo_lenv ''s'' ''a'') = None \<and>
    deprecated demo_lenv demo_cands (index_key demo_lenv ''s'' ''a'') \<lparr>sc_section = ''s'', sc_key = ''a'', sc_score = 1\<rparr>"
proof -
  let ?a = "\<lparr>sc_section = ''s'', sc_key = ''a'', sc_score = 1\<rparr>" and ?b = "\<lparr>sc_section = ''s'', sc_key = ''b'', sc_score = 9\<rparr>"
  let ?k = "index_key demo_lenv ''s'' ''a''"
  obtain l' r where d: "deep_sleep demo_dream demo_cands [] demo_ltm = (l', r)" by (rule prod.exhaust)
  have gone: "fact_at (fst (deep_sleep demo_dream demo_cands [] demo_ltm)) ?k = None"
    and was: "fact_at demo_ltm ?k = Some (demo_item ''a'' ''tabs'')" and st: "stable demo_lenv ''s''"
    and other: "index_key demo_lenv ''s'' ''b'' \<noteq> ?k" by code_simp+
  have "(\<exists>s \<in> set [?a, ?b]. deprecated (de_ltm demo_dream) demo_cands ?k s)"
    using dream_changes_only_judged [of demo_dream demo_ltm demo_cands "[]" l' r "[?a, ?b]" ?k]
      demo_reachable_ltm d gone was st by (simp add: demo_dream_def)
  then have "deprecated demo_lenv demo_cands ?k ?a"
    using other by (auto simp: deprecated_def rates_def demo_dream_def)
  with d gone show ?thesis by auto
qed

definition demo_sched :: scheduler where
  "demo_sched = \<lparr>sd_cooldown = 6, sd_idle = 1, sd_dreamed = 0, sd_activity = 0\<rparr>"

theorem dreams_keep_cooldown_witness:
  "dreams demo_sched [Tick 10 10, Tick 12 12, Activity 17, Tick 17 17, Tick 20 20] = [10, 20] \<and>
   [10, 20] ! Suc 0 - [10, 20] ! 0 \<ge> sd_cooldown demo_sched"
proof -
  have d: "dreams demo_sched [Tick 10 10, Tick 12 12, Activity 17, Tick 17 17, Tick 20 20] = [10, 20]" by code_simp
  from dreams_keep_cooldown [OF d, of 0] d show ?thesis by simp
qed

text \<open>
  If the model rates a fact twice, first low and then high, the second rating stores the fact that the
  first one removed again, with an empty value.
\<close>

lemma duplicate_ratings_blank_a_fact:
  "(case fold (deep_one demo_lenv demo_cands)
       [\<lparr>sc_section = ''s'', sc_key = ''a'', sc_score = 1\<rparr>, \<lparr>sc_section = ''s'', sc_key = ''a'', sc_score = 9\<rparr>] (demo_ltm, []) of
     (l, _) \<Rightarrow> map_option mi_value (fact_at l (index_key demo_lenv ''s'' ''a''))) = Some []"
  by code_simp

text \<open>Consolidation stores the value again, and \<open>Store\<close> sets the confidence of a confirmed fact to one.\<close>

lemma consolidation_restores_confidence:
  assumes "stable env section" and "fact_at l (index_key env section key) = Some e"
    and "store_fact env section key (mi_value e) l = (l', w, c)"
  shows "mi_confidence w = 1 \<and> mi_version w = mi_version e + 1"
  using assms by (auto simp: store_fact_def fact_at_def Let_def)

end
