(* ===== verification/Worker.thy ===== *)
theory Worker
  imports React
begin

text \<open>
  One task of a plan (runtime/engine/infra/worker.go, runtime/engine/worker/worker.go): the worker's agent,
  its callbacks and \<open>ExecuteTask\<close>, with the tool that asks a human (tools/internals/ask\_human.go).

  \<open>ExecuteTask\<close> keeps its result in a variable that the callbacks close over, so the agent runs on the
  pair of the program state \<open>'s\<close> and that result; tools, hooks and the provider of the rest of the
  program act on the first component.  The provider yields the events of one call with its answer, and they
  are delivered to the handler in that order.  The goroutine that interrupts the agent when the context ends
  is the \<open>PollAbort\<close> of \<open>we_poll\<close>.  Step tracing is not modelled.
\<close>

section \<open>Asking a human\<close>

text \<open>The interface \<open>HumanGate\<close>: reason and prompt in, the answer or an error out.\<close>

type_synonym 's human_gate = "string \<Rightarrow> string \<Rightarrow> 's \<Rightarrow> 's \<times> (err + string)"

definition ask_human_definition :: tool_definition where
  "ask_human_definition =
     \<lparr>td_name = ''ask_human'',
      td_description = ''Ask the human user a question and wait for their response. '' @
        ''Use this when you need clarification, need approval before proceeding, '' @
        ''or require additional information only the user can provide. '' @
        ''The agent will pause until the human responds.'',
      td_schema =
        [(''type'', VStr ''object''),
         (''properties'', VMap
            [(''question'', VMap [(''type'', VStr ''string''),
                (''description'', VStr ''The question to ask the human user.'')]),
             (''reason'', VMap [(''type'', VStr ''string''),
                (''description'', VStr (''Brief reason why you need to ask '' @ [CHR 0xE2, CHR 0x80, CHR 0x94] @
                   '' helps the human understand context.''))])]),
         (''required'', VList [VStr ''question''])],
      td_output_schema =
        [(''type'', VStr ''object''),
         (''properties'', VMap [(''response'', VMap [(''type'', VStr ''string''),
            (''description'', VStr (''The human'' @ [CHR 0x27] @ ''s response.''))])])],
      td_terminating = False\<rparr>"

definition ask_human :: "'s human_gate \<Rightarrow> 's tool_fn" where
  "ask_human gate sid d s =
     (case arg d ''question'' of
        Inl e \<Rightarrow> (s, error_result (tcd_id d) ''ask_human'' e)
      | Inr question \<Rightarrow>
          (case optional_string_err d ''reason'' of
             Inl e \<Rightarrow> (s, error_result (tcd_id d) ''ask_human'' e)
           | Inr reason \<Rightarrow>
               (case gate reason question s of
                  (s', Inl e) \<Rightarrow> (s', error_result (tcd_id d) ''ask_human'' e)
                | (s', Inr response) \<Rightarrow>
                    (s', success_result (tcd_id d) ''ask_human'' [(''response'', VStr response)]))))"

definition new_ask_human_tool :: "'s human_gate \<Rightarrow> tool_definition \<times> 's tool_fn" where
  "new_ask_human_tool gate = (ask_human_definition, ask_human gate)"

section \<open>The worker\<close>

definition worker_tools :: "string list" where
  "worker_tools =
     [''shell_exec'', ''web_fetch'', ''web_search'', ''file_read'', ''file_write'', ''file_copy'',
      ''file_delete'', ''dir_create'', ''dir_copy'', ''skill_use'', ''task_status_update'', ''ask_human'']"

record 's worker_agent =
  wa_max_steps :: nat
  wa_hooks :: "'s hooks"
  wa_pause_gate :: "('s \<Rightarrow> 's) option"
  wa_on_hitl :: "(string \<times> string \<Rightarrow> 's \<Rightarrow> 's) option"
  wa_human_factory :: "('s human_gate \<Rightarrow> tool_definition \<times> 's tool_fn) option"

definition new_worker_agent :: "'s worker_agent" where
  "new_worker_agent =
     \<lparr>wa_max_steps = 10, wa_hooks = no_hooks, wa_pause_gate = None, wa_on_hitl = None,
      wa_human_factory = None\<rparr>"

text \<open>A provider with its events, and what else \<open>ExecuteTask\<close> reaches.  \<open>we_wait\<close> is what \<open>WaitForHuman\<close>
  does after its callback; \<open>we_show\<close> is the verb \<open>%v\<close> on values that are not strings.\<close>

type_synonym 's chat_model =
  "message list \<Rightarrow> tool_definition list \<Rightarrow> 's \<Rightarrow> 's \<times> model_event list \<times> gen_result"

record 's worker_env =
  we_registry :: "'s registry"
  we_model :: "'s chat_model"
  we_poll :: "'s \<Rightarrow> 's \<times> poll"
  we_wait :: "'s \<Rightarrow> 's \<times> (err + string)"
  we_new_id :: "'s \<Rightarrow> 's \<times> string"
  we_session :: string
  we_render :: "string \<Rightarrow> string \<Rightarrow> err + string"
  we_show :: "val \<Rightarrow> string"

section \<open>The rest of the program beside the result\<close>

type_synonym 's wstate = "'s \<times> worker_result"

definition beside :: "('s \<Rightarrow> 's \<times> 'b) \<Rightarrow> 's wstate \<Rightarrow> 's wstate \<times> 'b" where
  "beside f p = (case f (fst p) of (s', x) \<Rightarrow> ((s', snd p), x))"

lemma beside_simps [simp]:
  "snd (fst (beside f p)) = snd p" "fst (fst (beside f p)) = fst (f (fst p))" "snd (beside f p) = snd (f (fst p))"
  by (simp_all add: beside_def split: prod.splits)

lemma beside_snd: "beside f p = (q, x) \<Longrightarrow> snd q = snd p"
  by (auto simp: beside_def split: prod.splits)

definition lift_field :: "(agent_identity \<Rightarrow> 'a \<Rightarrow> 's \<Rightarrow> 's) option \<Rightarrow>
    (agent_identity \<Rightarrow> 'a \<Rightarrow> 's wstate \<Rightarrow> 's wstate) option" where
  "lift_field h = map_option (\<lambda>f i x p. (f i x (fst p), snd p)) h"

definition lift_result :: "(agent_identity \<Rightarrow> tool_call_result \<Rightarrow> 's \<Rightarrow> 's \<times> (string \<times> val) list) option \<Rightarrow>
    (agent_identity \<Rightarrow> tool_call_result \<Rightarrow> 's wstate \<Rightarrow> 's wstate \<times> (string \<times> val) list) option" where
  "lift_result h = map_option (\<lambda>f i t. beside (f i t)) h"

definition lift_hooks :: "'s hooks \<Rightarrow> 's wstate hooks" where
  "lift_hooks h =
     \<lparr>hk_thinking_chunk = lift_field (hk_thinking_chunk h), hk_reply_chunk = lift_field (hk_reply_chunk h),
      hk_block_thinking = lift_field (hk_block_thinking h), hk_block_reply = lift_field (hk_block_reply h),
      hk_function_call = lift_field (hk_function_call h), hk_model_finished = lift_field (hk_model_finished h),
      hk_error = lift_field (hk_error h), hk_usage_updated = lift_field (hk_usage_updated h),
      hk_tool_call_end = lift_result (hk_tool_call_end h), hk_wait_for_human = lift_field (hk_wait_for_human h),
      hk_plan_rollback = lift_field (hk_plan_rollback h), hk_task_updated = lift_field (hk_task_updated h),
      hk_before_compress = lift_field (hk_before_compress h)\<rparr>"

definition lift_entry :: "'s registry_entry \<Rightarrow> 's wstate registry_entry" where
  "lift_entry e = \<lparr>re_fn = (\<lambda>sid d. beside (re_fn e sid d)), re_def = re_def e\<rparr>"

definition lift_registry :: "'s registry \<Rightarrow> 's wstate registry" where
  "lift_registry tr =
     \<lparr>rg_tools = map (\<lambda>(n, e). (n, lift_entry e)) (rg_tools tr), rg_internal = rg_internal tr\<rparr>"

section \<open>ExecuteTask\<close>

definition show_any :: "(val \<Rightarrow> string) \<Rightarrow> val \<Rightarrow> string" where
  "show_any show v = (case v of VStr t \<Rightarrow> t | _ \<Rightarrow> show v)"

definition tool_error_note :: "(val \<Rightarrow> string) \<Rightarrow> tool_call_result \<Rightarrow> string" where
  "tool_error_note show t =
     (case map_of (tcr_outputs t) ''error'' of
        None \<Rightarrow> []
      | Some v \<Rightarrow> ''[tool error: '' @ tcr_name t @ [CHR '' '', CHR 0xE2, CHR 0x86, CHR 0x92, CHR '' ''] @
          show_any show v @ '']'')"

text \<open>The callbacks that \<open>ExecuteTask\<close> chains to the worker's hooks.\<close>

definition worker_sys_hooks :: "(val \<Rightarrow> string) \<Rightarrow> 's worker_agent \<Rightarrow> 's wstate hooks" where
  "worker_sys_hooks show w = no_hooks
     \<lparr>hk_usage_updated := Some (\<lambda>i u p. (fst p, wr_add_usage u (snd p))),
      hk_error := Some (\<lambda>i e p. (fst p, wr_set_err e (snd p))),
      hk_tool_call_end := Some (\<lambda>i t p.
        ((fst p, if map_of (tcr_outputs t) ''error'' = None then snd p
                 else wr_write (tool_error_note show t) (snd p)), tcr_outputs t)),
      hk_wait_for_human := Some (\<lambda>i rp p.
        (case wa_on_hitl w of None \<Rightarrow> p | Some f \<Rightarrow> (f rp (fst p), snd p)))\<rparr>"

definition worker_hooks :: "(val \<Rightarrow> string) \<Rightarrow> 's worker_agent \<Rightarrow> 's wstate hooks" where
  "worker_hooks show w = chain (lift_hooks (wa_hooks w)) (worker_sys_hooks show w)"

text \<open>The gate of the worker's agent: \<open>WaitForHuman\<close> fires the chained callback, then waits.\<close>

definition worker_gate :: "'s worker_env \<Rightarrow> 's worker_agent \<Rightarrow> 's human_gate" where
  "worker_gate env w reason prompt s =
     we_wait env (fire (hk_wait_for_human (wa_hooks w)) AgentWorker (reason, prompt)
       (case wa_on_hitl w of None \<Rightarrow> s | Some f \<Rightarrow> f (reason, prompt) s))"

definition worker_react :: "'s worker_env \<Rightarrow> 's worker_agent \<Rightarrow> 's wstate agent" where
  "worker_react env w =
     enable_human_in_the_loop
       (with_tools (worker_tools @ custom_tool_names (we_registry env))
         \<lparr>ag_registry = lift_registry (we_registry env), ag_identity = AgentWorker,
          ag_hooks = worker_hooks (we_show env) w, ag_tool_names = None, ag_cache = None, ag_step = 0,
          ag_max_steps = wa_max_steps w, ag_human = None,
          ag_human_factory = map_option (\<lambda>mk. case mk (worker_gate env w) of
              (d, f) \<Rightarrow> (d, \<lambda>sid dt. beside (f sid dt))) (wa_human_factory w)\<rparr>)"

definition deliver_all :: "'s hooks \<Rightarrow> agent_identity \<Rightarrow> model_event list \<Rightarrow> 's \<Rightarrow> 's" where
  "deliver_all h i evs s = fold (as_model_event_handler h i) evs s"

definition worker_react_env :: "'s worker_env \<Rightarrow> 's worker_agent \<Rightarrow> 's wstate react_env" where
  "worker_react_env env w =
     \<lparr>rx_generate = (\<lambda>inp ts p. case we_model env inp ts (fst p) of
          (s', evs, g) \<Rightarrow> (deliver_all (worker_hooks (we_show env) w) AgentWorker evs (s', snd p), g)),
      rx_poll = beside (we_poll env), rx_on_result = None,
      rx_gate = map_option (\<lambda>wait p. (wait (fst p), snd p)) (wa_pause_gate w),
      rx_new_id = beside (we_new_id env), rx_session = we_session env\<rparr>"

definition empty_worker_result :: worker_result where
  "empty_worker_result = \<lparr>wr_output = [], wr_usage = usage_zero, wr_err = None\<rparr>"

definition execute_task :: "nat \<Rightarrow> 's worker_env \<Rightarrow> 's worker_agent \<Rightarrow> string \<Rightarrow> string \<Rightarrow> 's \<Rightarrow>
    ('s \<times> string \<times> usage option \<times> err option) option" where
  "execute_task fuel env w goal action s =
     (case we_render env goal action of
        Inl e \<Rightarrow> Some (s, [], None, Some (ErrWrap ''render worker prompt'' e))
      | Inr sys_prompt \<Rightarrow>
          (let (s1, sys_id) = we_new_id env s;
               (s2, user_id) = we_new_id env s1
           in case execute_with_tools fuel (worker_react_env env w) (worker_react env w)
                     (new_system_message sys_id (TextContent sys_prompt))
                     [new_user_message user_id (TextContent (''Execute the task: '' @ goal))] None
                     (s2, empty_worker_result) of
                None \<Rightarrow> None
              | Some ((s3, r), ms, e) \<Rightarrow> Some (s3, finish_task ms e r)))"

section \<open>What the callbacks book\<close>

fun wr_event :: "model_event \<Rightarrow> worker_result \<Rightarrow> worker_result" where
  "wr_event (OnUsageUpdated u) r = wr_add_usage u r"
| "wr_event (OnError e) r = wr_set_err e r"
| "wr_event _ r = r"

lemma lift_field_snd [simp]: "snd (fire (lift_field h) i x p) = snd p"
  by (simp add: lift_field_def fire_def split: option.splits)

lemma lift_field_fst [simp]: "fst (fire (lift_field h) i x p) = fire h i x (fst p)"
  by (simp add: lift_field_def fire_def split: option.splits)

lemma worker_event_snd [simp]:
  "snd (as_model_event_handler (worker_hooks show w) i ev p) = wr_event ev (snd p)"
  by (cases ev) (simp_all add: worker_hooks_def chain_def lift_hooks_def worker_sys_hooks_def no_hooks_def)

lemma deliver_all_snd: "snd (deliver_all (worker_hooks show w) i evs p) = fold wr_event evs (snd p)"
  by (induction evs arbitrary: p) (simp_all add: deliver_all_def)

lemma wr_write_Nil [simp]: "wr_write [] r = r"
  by (simp add: wr_write_def)

lemma wr_write_sel [simp]:
  "wr_output (wr_write t r) = wr_output r @ t" "wr_usage (wr_write t r) = wr_usage r" "wr_err (wr_write t r) = wr_err r"
  by (simp_all add: wr_write_def)

lemma wr_set_err_sel [simp]:
  "wr_output (wr_set_err e r) = wr_output r" "wr_usage (wr_set_err e r) = wr_usage r"
  "wr_err (wr_set_err e r) = (if wr_err r = None then Some e else wr_err r)"
  by (simp_all add: wr_set_err_def)

lemma tool_error_note_none: "map_of (tcr_outputs t) ''error'' = None \<Longrightarrow> tool_error_note show t = []"
  by (simp add: tool_error_note_def)

lemma fire_lift_result:
  "fire_result (lift_result h) i t p = (case fire_result h i t (fst p) of (s', t') \<Rightarrow> ((s', snd p), t'))"
  by (cases p) (simp add: fire_result_def lift_result_def beside_def split: option.splits prod.splits)

lemma worker_tool_end:
  "fire_result (hk_tool_call_end (worker_hooks show w)) i t p =
     (case fire_result (hk_tool_call_end (wa_hooks w)) i t (fst p) of
        (s', t') \<Rightarrow> ((s', wr_write (tool_error_note show t) (snd p)), t'))"
proof -
  have "fire_result (hk_tool_call_end (worker_sys_hooks show w)) i t p
      = ((fst p, wr_write (tool_error_note show t) (snd p)), t)"
    by (cases p) (simp add: worker_sys_hooks_def no_hooks_def fire_result_def tool_error_note_none)
  then show ?thesis
    by (simp add: worker_hooks_def chain_def lift_hooks_def fire_lift_result)
qed

text \<open>The gate the factory gets is the agent's own: it fires the chained callback of the agent.\<close>

lemma worker_gate_fires:
  "worker_gate env w reason prompt s
     = we_wait env (fst (fire (hk_wait_for_human (worker_hooks show w)) AgentWorker (reason, prompt) (s, r)))"
  by (cases "wa_on_hitl w")
    (simp_all add: worker_gate_def worker_hooks_def chain_def lift_hooks_def worker_sys_hooks_def no_hooks_def)

lemma lift_lookup: "reg_lookup (lift_registry tr) n = map_option lift_entry (reg_lookup tr n)"
  by (simp add: reg_lookup_def lift_registry_def map_of_map)

lemma worker_call_tool_snd: "snd (fst (call_tool (worker_react_env env w) (worker_react env w) d p)) = snd p"
proof -
  have "snd (fst (reg_call (lift_registry tr) sid d q)) = snd q" for tr sid and q :: "'a wstate"
    by (simp add: reg_call_def lift_lookup lift_entry_def split: option.splits)
  then show ?thesis
    by (auto simp: call_tool_def worker_react_env_def worker_react_def enable_human_in_the_loop_def
        register_local_ask_human_def with_tools_def Let_def split: option.splits prod.splits)
qed

section \<open>The report agrees with the transcript\<close>

definition usage_sum :: "usage list \<Rightarrow> usage" where
  "usage_sum us =
     \<lparr>u_total = (\<Sum>u\<leftarrow>us. u_total u), u_input = (\<Sum>u\<leftarrow>us. u_input u), u_cached = (\<Sum>u\<leftarrow>us. u_cached u),
      u_reasoning = (\<Sum>u\<leftarrow>us. u_reasoning u), u_output = (\<Sum>u\<leftarrow>us. u_output u)\<rparr>"

definition error_notes :: "(val \<Rightarrow> string) \<Rightarrow> message list \<Rightarrow> string" where
  "error_notes show ms =
     concat (map (tool_error_note show) (concat (map tool_results (filter (\<lambda>m. m_role m = RoleTool) ms))))"

definition reply_texts :: "message list \<Rightarrow> string" where
  "reply_texts ms = concat (map (extract_reply_text \<circ> m_content) ms)"

definition booked :: "(val \<Rightarrow> string) \<Rightarrow> message list \<Rightarrow> 's wstate \<Rightarrow> bool" where
  "booked show ms p \<longleftrightarrow>
     wr_output (snd p) = error_notes show ms \<and> wr_usage (snd p) = usage_sum (List.map_filter m_usage ms)"

text \<open>The model answers as the assistant and leaves the report of its usage to the agent; the worker's own
  hooks may rewrite outputs, but not errors.\<close>

definition quiet_model :: "'s worker_env \<Rightarrow> bool" where
  "quiet_model env \<longleftrightarrow> (\<forall>inp ts t t' evs g. we_model env inp ts t = (t', evs, g) \<longrightarrow>
     (\<forall>u. OnUsageUpdated u \<notin> set evs) \<and> (\<forall>m. g = GenOk m \<longrightarrow> m_role m = RoleAssistant))"

definition errors_kept :: "'s worker_agent \<Rightarrow> bool" where
  "errors_kept w \<longleftrightarrow> (\<forall>i t x. map_of (tcr_outputs (snd (fire_result (hk_tool_call_end (wa_hooks w)) i t x))) ''error''
     = map_of (tcr_outputs t) ''error'')"

lemma usage_sum_snoc [simp]: "usage_sum (us @ [u]) = wr_usage (wr_add_usage u \<lparr>wr_output = t, wr_usage = usage_sum us, wr_err = e\<rparr>)"
  by (simp add: usage_sum_def wr_add_usage_def)

lemma wr_add_usage_sel [simp]:
  "wr_output (wr_add_usage u r) = wr_output r" "wr_err (wr_add_usage u r) = wr_err r"
  by (simp_all add: wr_add_usage_def)

lemma quiet_events:
  "\<forall>u. OnUsageUpdated u \<notin> set evs \<Longrightarrow>
   wr_output (fold wr_event evs r) = wr_output r \<and> wr_usage (fold wr_event evs r) = wr_usage r"
proof (induction evs arbitrary: r)
  case (Cons ev evs)
  then show ?case by (cases ev) auto
qed simp

lemma worker_react_sel [simp]:
  "ag_hooks (worker_react env w) = worker_hooks (we_show env) w" "ag_identity (worker_react env w) = AgentWorker"
  "ag_max_steps (worker_react env w) = wa_max_steps w"
  by (simp_all add: worker_react_def enable_human_in_the_loop_def register_local_ask_human_def with_tools_def
      split: option.splits prod.splits)

lemma worker_tools_booked:
  assumes "errors_kept w" and "execute_tools (worker_react_env env w) (worker_react env w) ds p = (p', rs)"
  shows "wr_output (snd p') = wr_output (snd p) @ concat (map (tool_error_note (we_show env)) rs) \<and>
    wr_usage (snd p') = wr_usage (snd p)"
  using assms(2)
proof (induction ds arbitrary: p p' rs)
  case (Cons d ds)
  obtain p1 t where c: "call_tool (worker_react_env env w) (worker_react env w) d p = (p1, t)" by fastforce
  obtain s2 t' where f: "fire_result (hk_tool_call_end (wa_hooks w)) AgentWorker t (fst p1) = (s2, t')" by fastforce
  have sp: "snd p1 = snd p" using worker_call_tool_snd [of env w d p] c by simp
  let ?p2 = "(s2, wr_write (tool_error_note (we_show env) t) (snd p))"
  obtain p3 rs' where e: "execute_tools (worker_react_env env w) (worker_react env w) ds ?p2 = (p3, rs')" by fastforce
  have t': "tool_error_note (we_show env) t' = tool_error_note (we_show env) t"
    using assms(1) f fire_result_keeps(2) [of "hk_tool_call_end (wa_hooks w)" AgentWorker t "fst p1"]
    unfolding errors_kept_def tool_error_note_def by (metis snd_conv)
  have "p' = p3" "rs = t' # rs'"
    using Cons.prems by (simp_all add: c f e sp worker_tool_end)
  with Cons.IH [OF e] show ?case by (simp add: t')
qed simp

lemma worker_react_env_sel [simp]: "rx_on_result (worker_react_env env w) = None"
  by (simp add: worker_react_env_def)

lemma booked_no_calls:
  "booked show ms p \<Longrightarrow> m_role m = RoleAssistant \<Longrightarrow> m_usage m = None \<Longrightarrow> booked show (ms @ [m]) p"
  by (simp add: booked_def error_notes_def List.map_filter_def)

lemma booked_usage:
  "booked show ms p \<Longrightarrow> m_role m = RoleAssistant \<Longrightarrow> m_usage m = Some u \<Longrightarrow>
   wr_output (snd q) = wr_output (snd p) \<Longrightarrow> wr_usage (snd q) = wr_usage (wr_add_usage u (snd p)) \<Longrightarrow>
   booked show (ms @ [m]) q"
  by (simp add: booked_def error_notes_def List.map_filter_def wr_add_usage_def usage_sum_def)

lemma booked_tools:
  "booked show ms p \<Longrightarrow> wr_output (snd q) = wr_output (snd p) @ concat (map (tool_error_note show) rs) \<Longrightarrow>
   wr_usage (snd q) = wr_usage (snd p) \<Longrightarrow> booked show (ms @ [new_tool_message i rs]) q"
  by (simp add: booked_def error_notes_def List.map_filter_def new_tool_message_def new_message_def tool_results_def)

lemma booked_cong:
  "booked show ms p \<Longrightarrow> wr_output (snd q) = wr_output (snd p) \<Longrightarrow> wr_usage (snd q) = wr_usage (snd p) \<Longrightarrow>
   booked show ms q"
  by (simp add: booked_def)

lemma worker_notify_booked:
  assumes "booked (we_show env) ms p" "m_role m = RoleAssistant"
  shows "booked (we_show env) (ms @ [m]) (notify_usage (worker_react env w) m p)"
proof (cases "m_usage m")
  case None
  with assms show ?thesis by (simp add: notify_usage_def booked_no_calls)
next
  case (Some u)
  with assms show ?thesis by (simp add: notify_usage_def booked_usage del: as_model_event_handler.simps)
qed

lemma worker_step_booked:
  assumes keep: "errors_kept w" and quiet: "quiet_model env"
    and inv: "booked (we_show env) out p" "rounds out"
  shows "react_step (worker_react_env env w) (worker_react env w) n inp out p = Return p' ms e \<Longrightarrow>
      booked (we_show env) ms p'"
    and "react_step (worker_react_env env w) (worker_react env w) n inp out p = Continue p' inp' ms \<Longrightarrow>
      booked (we_show env) ms p'"
proof -
  let ?env = "worker_react_env env w" and ?a = "worker_react env w"
  have poll: "booked (we_show env) out q" if "rx_poll ?env p = (q, x)" for q x
    using that inv(1) by (auto simp: worker_react_env_def booked_def dest: beside_snd)
  have gen: "booked (we_show env) out q' \<and> (\<forall>m. g = GenOk m \<longrightarrow> m_role m = RoleAssistant)"
    if "booked (we_show env) out q" "rx_generate ?env inp ts q = (q', g)" for ts q q' g
  proof -
    obtain s' evs g' where m: "we_model env inp ts (fst q) = (s', evs, g')" by (rule prod_cases3)
    with quiet have ev: "\<forall>u. OnUsageUpdated u \<notin> set evs" "\<forall>m. g' = GenOk m \<longrightarrow> m_role m = RoleAssistant"
      unfolding quiet_model_def by blast+
    have q': "q' = deliver_all (worker_hooks (we_show env) w) AgentWorker evs (s', snd q)" "g' = g"
      using that(2) m by (simp_all add: worker_react_env_def)
    have "wr_output (snd q') = wr_output (snd q)" "wr_usage (snd q') = wr_usage (snd q)"
      using quiet_events [OF ev(1), of "snd q"] by (simp_all add: q' deliver_all_snd)
    with that(1) ev(2) q' show ?thesis by (auto intro: booked_cong)
  qed
  have round: "booked (we_show env) (out @ [m, new_tool_message i rs]) q2"
    if "booked (we_show env) out q" "m_role m = RoleAssistant"
      "execute_tools ?env ?a ds (notify_usage ?a m q) = (q1, rs)" "rx_new_id ?env q1 = (q2, i)" for m i rs ds q q1 q2
  proof -
    have "snd q2 = snd q1" using that(4) by (auto simp: worker_react_env_def dest: beside_snd)
    with booked_tools [OF worker_notify_booked [OF that(1,2), of w], of q2 rs i] worker_tools_booked [OF keep that(3)]
    show ?thesis by simp
  qed
  have failed: "booked (we_show env) out q'"
    if "rx_poll ?env p = (q, x)" "rx_generate ?env inp ts q = (q', g)" for ts q q' x g
    using gen [OF poll [OF that(1)] that(2)] by blast
  have fin: "booked (we_show env) (out @ [m]) (notify_usage ?a m q')"
    if "rx_poll ?env p = (q, x)" "rx_generate ?env inp ts q = (q', GenOk m)" for ts q q' x m
    using gen [OF poll [OF that(1)] that(2)] by (blast intro: worker_notify_booked)
  have rnd: "booked (we_show env) (out @ [m, new_tool_message i rs]) q2"
    if "rx_poll ?env p = (q, x)" "rx_generate ?env inp ts q = (q', GenOk m)"
      "execute_tools ?env ?a ds (notify_usage ?a m q') = (q1, rs)" "rx_new_id ?env q1 = (q2, i)"
    for ts q q' x m ds q1 rs q2 i
    using gen [OF poll [OF that(1)] that(2)] round [OF _ _ that(3,4)] by blast
  show "react_step ?env ?a n inp out p = Return p' ms e \<Longrightarrow> booked (we_show env) ms p'"
    using strip_rounds [OF inv(2)] poll failed
    by (auto simp: react_step_def Let_def intro: fin rnd
        split: prod.splits poll.splits gen_result.splits if_splits)
  show "react_step ?env ?a n inp out p = Continue p' inp' ms \<Longrightarrow> booked (we_show env) ms p'"
    by (auto simp: react_step_def Let_def intro: rnd
        split: prod.splits poll.splits gen_result.splits if_splits)
qed

lemma worker_loop_booked:
  assumes keep: "errors_kept w" and quiet: "quiet_model env"
  shows "react_loop n (worker_react_env env w) (worker_react env w) k inp out p = Some (p', ms, e) \<Longrightarrow>
    booked (we_show env) out p \<Longrightarrow> rounds out \<Longrightarrow> booked (we_show env) ms p'"
proof (induction n arbitrary: k inp out p)
  case (Suc n)
  note step = worker_step_booked [OF keep quiet Suc.prems(2,3), of "k + 1" inp]
  note rds = react_step_rounds [OF Suc.prems(3), of "worker_react_env env w" "worker_react env w" "k + 1" inp p]
  show ?case
  proof (cases "wa_max_steps w > 0 \<and> k + 1 > wa_max_steps w")
    case True
    with Suc.prems strip_rounds [OF Suc.prems(3)] show ?thesis by simp
  next
    case False
    show ?thesis
    proof (cases "react_step (worker_react_env env w) (worker_react env w) (k + 1) inp out p")
      case (Return t ms' e')
      with Suc.prems(1) False step(1) [OF Return] show ?thesis by (auto simp: Let_def)
    next
      case (Continue t inp' out')
      show ?thesis
        by (rule Suc.IH [OF _ step(2) [OF Continue]]) (use Suc.prems(1) False Continue rds in \<open>auto simp: Let_def\<close>)
    qed
  qed
qed simp

section \<open>What ExecuteTask guarantees\<close>

lemma finish_task_eq:
  "finish_task ms e r =
     (wr_output r @ reply_texts ms, Some (wr_usage r),
      case wr_err r of Some e' \<Rightarrow> Some e' | None \<Rightarrow> e)"
proof -
  let ?f = "\<lambda>m r. let t = extract_reply_text (m_content m) in if t \<noteq> [] then wr_write t r else r"
  have "wr_output (fold ?f ms q) = wr_output q @ reply_texts ms \<and> wr_usage (fold ?f ms q) = wr_usage q \<and>
      wr_err (fold ?f ms q) = wr_err q" for q
    by (induction ms arbitrary: q) (auto simp: reply_texts_def Let_def)
  then show ?thesis by (simp add: finish_task_def Let_def split: option.splits)
qed

lemma booked_empty: "booked show [] (s, empty_worker_result)"
  by (simp add: booked_def empty_worker_result_def error_notes_def usage_sum_def usage_zero_def List.map_filter_def)


text \<open>A model that first calls a tool nobody registered, then answers.\<close>

definition worker_demo_usage :: usage where
  "worker_demo_usage = \<lparr>u_total = 3, u_input = 2, u_cached = 0, u_reasoning = 0, u_output = 1\<rparr>"

definition worker_demo :: "nat worker_env" where
  "worker_demo =
     \<lparr>we_registry = empty_registry,
      we_model = (\<lambda>_ _ n. (n + 1, [OnReplyChunk ''x''],
        if n = 0 then GenOk ((new_assistant_message ''m'' (ToolCallContent
            [\<lparr>tcd_id = ''c'', tcd_name = ''fly'', tcd_args = []\<rparr>]))\<lparr>m_usage := Some worker_demo_usage\<rparr>)
        else GenOk ((new_assistant_message ''m'' (TextContent ''done''))\<lparr>m_usage := Some worker_demo_usage\<rparr>))),
      we_poll = (\<lambda>n. (n, PollNone)), we_wait = (\<lambda>n. (n, Inr ''yes'')), we_new_id = (\<lambda>n. (n, ''i'')),
      we_session = ''s'', we_render = (\<lambda>g a. Inr g), we_show = (\<lambda>_. [])\<rparr>"


text \<open>A task whose context is cancelled before its first model call is reported as a success: the worker
  interrupts its own agent, the loop sees the abort signal and returns nothing and no error, and
  \<open>ExecuteTask\<close> reports an empty output without an error.\<close>

theorem interrupted_task_succeeds:
  assumes "we_render env goal action = Inr p"
    and "we_new_id env s = (s1, i1)" and "we_new_id env s1 = (s2, i2)" and "we_poll env s2 = (s3, PollAbort)"
  shows "execute_task (Suc n) env w goal action s = Some (s3, [], Some usage_zero, None)"
proof -
  have "rx_poll (worker_react_env env w) (s2, empty_worker_result) = ((s3, empty_worker_result), PollAbort)"
    by (simp add: worker_react_env_def beside_def assms(4))
  moreover have "wa_max_steps w = 0 \<or> Suc 0 \<le> wa_max_steps w" by linarith
  ultimately show ?thesis
    using interrupted_worker_reports_success [of "worker_react_env env w" "(s2, empty_worker_result)"
        "(s3, empty_worker_result)" "[]" "worker_react env w" 0 n]
    by (simp add: execute_task_def assms(1-3) execute_with_tools_def override_tools_def finish_task_eq
        empty_worker_result_def reply_texts_def Let_def del: react_loop.simps)
qed

theorem interrupted_task_succeeds_witness:
  "execute_task 11 (worker_demo\<lparr>we_poll := (\<lambda>n. (n, PollAbort))\<rparr>) new_worker_agent ''g'' ''a'' 0
     = Some (0, [], Some usage_zero, None)"
  using interrupted_task_succeeds [of "worker_demo\<lparr>we_poll := (\<lambda>n. (n, PollAbort))\<rparr>" "''g''" "''a''" "''g''"
      0 0 "''i''" 0 "''i''" 0 10 new_worker_agent]
  by (simp add: worker_demo_def)

text \<open>A failed request is reported to \<open>OnError\<close> before the provider wraps the error, and the first error
  wins: what \<open>ExecuteTask\<close> returns is the unwrapped one, in which \<open>errors.Is\<close> finds no sentinel.\<close>

lemma worker_returns_raw_error:
  assumes "we_render env goal action = Inr p"
    and "we_new_id env s = (s1, i1)" and "we_new_id env s1 = (s2, i2)" and "we_poll env s2 = (s3, PollNone)"
    and "\<And>inp ts. we_model env inp ts s3 = (s4, [OnError raw], GenErr wrapped None)"
    and "wa_hooks w = no_hooks"
  shows "execute_task (Suc n) env w goal action s = Some (s4, [], Some usage_zero, Some raw)"
proof -
  have ev: "deliver_all (worker_hooks (we_show env) w) AgentWorker [OnError raw] (s4, empty_worker_result)
      = (s4, wr_set_err raw empty_worker_result)"
    by (simp add: deliver_all_def worker_hooks_def assms(6) chain_def lift_hooks_def worker_sys_hooks_def no_hooks_def
        lift_field_def)
  have "react_step (worker_react_env env w) (worker_react env w) k inp [] (s2, empty_worker_result)
      = Return (s4, wr_set_err raw empty_worker_result) [] (Some wrapped)" for k inp
    by (simp add: react_step_def worker_react_env_def beside_def assms(4,5) ev)
  then show ?thesis
    by (auto simp: execute_task_def assms(1-3) execute_with_tools_def override_tools_def finish_task_eq
        reply_texts_def Let_def empty_worker_result_def wr_set_err_def strip_dangling_tool_calls_def)
qed

end
