(* ===== verification/Hitl.thy ===== *)
theory Hitl
  imports PauseGate "HOL-Library.Multiset"
begin

text \<open>
  Waiting for a human (runtime/engine/infra/react.go: \<open>WaitForHuman\<close>, \<open>ResumeWithHumanResponse\<close>,
  \<open>HumanLoopWaiting\<close>) and how the workers of one batch share it (runtime/engine/dag/dag.go,
  runtime/engine/infra/worker.go).

  The agent's goroutine asks one question at a time; its stretches between two accesses to shared
  state are the actions \<open>Ask\<close> (the callback), \<open>Block\<close> (the flag is set), \<open>Receive\<close> or \<open>Abort\<close> (the select)
  and \<open>Leave\<close> (the deferred reset of the flag).  A caller of \<open>ResumeWithHumanResponse\<close> first reads the flag
  (\<open>Resume\<close>) and then sends (\<open>Send\<close>, blocked while the buffer of one is full) or gives up (\<open>Drop\<close>).  Each
  answer carries the number of the question that was open when it was accepted, a tag the program does not have;
  \<open>hm_given\<close> and \<open>hm_log\<close> record what was accepted and what was returned.
\<close>

section \<open>One agent\<close>

datatype wait_phase = Idle | Asked | Blocked | Returning

record human =
  hm_phase :: wait_phase
  hm_waiting :: bool                       \<comment> \<open>\<open>isWaiting\<close>\<close>
  hm_ch :: "(nat \<times> string) option"         \<comment> \<open>\<open>responseCh\<close>\<close>
  hm_senders :: "(nat \<times> string) list"      \<comment> \<open>callers past the check of the flag\<close>
  hm_question :: nat                       \<comment> \<open>questions asked so far\<close>
  hm_given :: "(nat \<times> string) list"
  hm_log :: "(nat \<times> nat \<times> string) list"   \<comment> \<open>question, tag and text of each returned answer\<close>

definition new_human :: human where
  "new_human = \<lparr>hm_phase = Idle, hm_waiting = False, hm_ch = None, hm_senders = [], hm_question = 0,
     hm_given = [], hm_log = []\<rparr>"

datatype human_act = Ask | Block | Receive | Abort | Leave | Resume string | Send nat | Drop nat

text \<open>\<open>WaitForHuman\<close>, in its four stretches.\<close>

definition wait_ask :: "human \<Rightarrow> human option" where
  "wait_ask h =
     (if hm_phase h = Idle then Some (h\<lparr>hm_phase := Asked, hm_question := hm_question h + 1\<rparr>) else None)"

definition wait_block :: "human \<Rightarrow> human option" where
  "wait_block h = (if hm_phase h = Asked then Some (h\<lparr>hm_phase := Blocked, hm_waiting := True\<rparr>) else None)"

definition wait_receive :: "human \<Rightarrow> human option" where
  "wait_receive h =
     (case (hm_phase h, hm_ch h) of
        (Blocked, Some (t, a)) \<Rightarrow>
          Some (h\<lparr>hm_phase := Returning, hm_ch := None, hm_log := hm_log h @ [(hm_question h, t, a)]\<rparr>)
      | _ \<Rightarrow> None)"

definition wait_abort :: "human \<Rightarrow> human option" where
  "wait_abort h = (if hm_phase h = Blocked then Some (h\<lparr>hm_phase := Returning\<rparr>) else None)"

definition wait_leave :: "human \<Rightarrow> human option" where
  "wait_leave h = (if hm_phase h = Returning then Some (h\<lparr>hm_phase := Idle, hm_waiting := False\<rparr>) else None)"

text \<open>\<open>ResumeWithHumanResponse\<close>: the check of the flag, then the send.  A refused call changes nothing.\<close>

definition human_loop_waiting :: "human \<Rightarrow> bool" where
  "human_loop_waiting h = hm_waiting h"

definition resume_check :: "string \<Rightarrow> human \<Rightarrow> human" where
  "resume_check a h =
     (if human_loop_waiting h
      then h\<lparr>hm_senders := hm_senders h @ [(hm_question h, a)], hm_given := hm_given h @ [(hm_question h, a)]\<rparr>
      else h)"

definition resume_send :: "nat \<Rightarrow> human \<Rightarrow> human option" where
  "resume_send i h =
     (if i < length (hm_senders h) \<and> hm_ch h = None
      then Some (h\<lparr>hm_ch := Some (hm_senders h ! i), hm_senders := delete_nth i (hm_senders h)\<rparr>) else None)"

definition resume_drop :: "nat \<Rightarrow> human \<Rightarrow> human option" where
  "resume_drop i h =
     (if i < length (hm_senders h) then Some (h\<lparr>hm_senders := delete_nth i (hm_senders h)\<rparr>) else None)"

fun human_do :: "human_act \<Rightarrow> human \<Rightarrow> human option" where
  "human_do Ask h = wait_ask h"
| "human_do Block h = wait_block h"
| "human_do Receive h = wait_receive h"
| "human_do Abort h = wait_abort h"
| "human_do Leave h = wait_leave h"
| "human_do (Resume a) h = Some (resume_check a h)"
| "human_do (Send i) h = resume_send i h"
| "human_do (Drop i) h = resume_drop i h"

fun human_run :: "human_act list \<Rightarrow> human \<Rightarrow> human option" where
  "human_run [] h = Some h"
| "human_run (x # xs) h = (case human_do x h of None \<Rightarrow> None | Some h' \<Rightarrow> human_run xs h')"

lemmas human_defs = wait_ask_def wait_block_def wait_receive_def wait_abort_def wait_leave_def
  human_loop_waiting_def resume_check_def resume_send_def resume_drop_def

lemma human_run_inv:
  assumes "\<And>x h h'. x \<in> set xs \<Longrightarrow> P h \<Longrightarrow> human_do x h = Some h' \<Longrightarrow> P h'"
  shows "human_run xs h = Some h' \<Longrightarrow> P h \<Longrightarrow> P h'"
  using assms
proof (induction xs arbitrary: h)
  case (Cons x xs)
  then obtain h1 where "human_do x h = Some h1" "human_run xs h1 = Some h'" by (auto split: option.splits)
  with Cons show ?case by (metis list.set_intros)
qed simp

section \<open>Answers are given once\<close>

text \<open>Every accepted answer is with a caller, in the buffer, or has been returned.\<close>

definition pending :: "human \<Rightarrow> (nat \<times> string) list" where
  "pending h = (case hm_ch h of None \<Rightarrow> [] | Some x \<Rightarrow> [x]) @ hm_senders h"

definition answers_inv :: "human \<Rightarrow> bool" where
  "answers_inv h \<longleftrightarrow>
     mset (pending h) + mset (map snd (hm_log h)) \<subseteq># mset (hm_given h) \<and>
     distinct (map fst (hm_log h)) \<and>
     (\<forall>(q, t, a) \<in> set (hm_log h). t \<le> q \<and> (q < hm_question h \<or> q = hm_question h \<and> hm_phase h \<in> {Returning, Idle})) \<and>
     (\<forall>(t, a) \<in> set (hm_given h). t \<le> hm_question h) \<and>
     (hm_waiting h \<longleftrightarrow> hm_phase h \<in> {Blocked, Returning})"

lemma mset_delete_nth:
  "i < length xs \<Longrightarrow> add_mset (xs ! i) (mset (delete_nth i xs)) = mset xs"
  by (metis delete_nth_def id_take_nth_drop mset.simps(2) mset_append union_mset_add_mset_right)

lemma pending_given: "answers_inv h \<Longrightarrow> x \<in> set (pending h) \<Longrightarrow> x \<in> set (hm_given h)"
  unfolding answers_inv_def by (metis mset_subset_eqD set_mset_mset union_iff)

lemma pending_send: "resume_send i h = Some h' \<Longrightarrow> mset (pending h') = mset (pending h)"
  by (auto simp: resume_send_def pending_def mset_delete_nth split: if_splits)

lemma pending_drop: "resume_drop i h = Some h' \<Longrightarrow> mset (pending h') \<subseteq># mset (pending h)"
proof -
  assume d: "resume_drop i h = Some h'"
  then have i: "i < length (hm_senders h)" by (auto simp: resume_drop_def split: if_splits)
  have "mset (delete_nth i (hm_senders h)) \<subseteq># mset (hm_senders h)"
    using mset_delete_nth [OF i] by (metis mset_subset_eq_add_mset_cancel mset_subset_eq_insertD subset_mset.eq_iff subset_mset.less_imp_le)
  with d show ?thesis by (auto simp: resume_drop_def pending_def split: if_splits)
qed

lemma answers_inv_step: "answers_inv h \<Longrightarrow> human_do x h = Some h' \<Longrightarrow> answers_inv h'"
proof (cases x)
  case Receive
  assume inv: "answers_inv h" and "human_do x h = Some h'"
  with Receive obtain t a where c: "hm_phase h = Blocked" "hm_ch h = Some (t, a)"
    "h' = h\<lparr>hm_phase := Returning, hm_ch := None, hm_log := hm_log h @ [(hm_question h, t, a)]\<rparr>"
    by (auto simp: wait_receive_def split: wait_phase.splits option.splits)
  have "(t, a) \<in> set (hm_given h)" using pending_given [OF inv] by (simp add: pending_def c)
  with inv have "t \<le> hm_question h" by (auto simp: answers_inv_def)
  with inv c show ?thesis by (auto simp: answers_inv_def pending_def)
next
  case (Send i)
  assume inv: "answers_inv h" and "human_do x h = Some h'"
  with Send have "mset (pending h') = mset (pending h)" "hm_log h' = hm_log h" "hm_given h' = hm_given h"
    "hm_question h' = hm_question h" "hm_phase h' = hm_phase h" "hm_waiting h' = hm_waiting h"
    by (auto simp: pending_send) (auto simp: resume_send_def split: if_splits)
  with inv show ?thesis by (simp add: answers_inv_def)
next
  case (Drop i)
  assume inv: "answers_inv h" and "human_do x h = Some h'"
  with Drop have "mset (pending h') \<subseteq># mset (pending h)" "hm_log h' = hm_log h" "hm_given h' = hm_given h"
    "hm_question h' = hm_question h" "hm_phase h' = hm_phase h" "hm_waiting h' = hm_waiting h"
    by (auto simp: pending_drop) (auto simp: resume_drop_def split: if_splits)
  with inv show ?thesis by (auto simp: answers_inv_def intro: subset_mset.order_trans [OF subset_mset.add_right_mono])
next
  case (Resume a)
  assume "answers_inv h" and "human_do x h = Some h'"
  with Resume show ?thesis
    by (auto simp: answers_inv_def resume_check_def pending_def human_loop_waiting_def add.assoc)
next
  case Ask
  assume inv: "answers_inv h" and "human_do x h = Some h'"
  with Ask have "h' = h\<lparr>hm_phase := Asked, hm_question := Suc (hm_question h)\<rparr>" "hm_phase h = Idle"
    by (auto simp: wait_ask_def split: if_splits)
  with inv show ?thesis by (force simp: answers_inv_def pending_def)
qed (auto simp: human_defs answers_inv_def pending_def split: if_splits)

text \<open>C16. Every answer that \<open>WaitForHuman\<close> returns was accepted by \<open>ResumeWithHumanResponse\<close>, no accepted
  answer is returned twice, no question gets two answers, and an answer is never given to a question
  asked before it was accepted; calls are accepted only while a question is open.\<close>

theorem answers_given_once:
  assumes "human_run acts new_human = Some h"
  shows "mset (map snd (hm_log h)) \<subseteq># mset (hm_given h) \<and> distinct (map fst (hm_log h)) \<and>
    (\<forall>(q, t, a) \<in> set (hm_log h). t \<le> q \<and> q \<le> hm_question h)"
proof -
  have "answers_inv new_human" by (simp add: answers_inv_def new_human_def pending_def)
  then have inv: "answers_inv h"
    by (rule human_run_inv [of acts answers_inv, OF answers_inv_step assms, rotated -1])
  then have "mset (pending h) + mset (map snd (hm_log h)) \<subseteq># mset (hm_given h)"
    unfolding answers_inv_def by blast
  then have "mset (map snd (hm_log h)) \<subseteq># mset (hm_given h)"
    by (rule subset_mset.order_trans [OF mset_subset_eq_add_right])
  moreover have "distinct (map fst (hm_log h))" "\<forall>(q, t, a) \<in> set (hm_log h). t \<le> q \<and> q \<le> hm_question h"
    using inv unfolding answers_inv_def by fastforce+
  ultimately show ?thesis by blast
qed

section \<open>Whose answer it is\<close>

definition own_inv :: "human \<Rightarrow> bool" where
  "own_inv h \<longleftrightarrow>
     (\<forall>(q, t, a) \<in> set (hm_log h). t = q) \<and>
     (\<forall>(t, a) \<in> set (hm_given h). t \<le> hm_question h) \<and>
     (hm_waiting h \<longleftrightarrow> hm_phase h \<in> {Blocked, Returning}) \<and>
     (hm_phase h = Asked \<longrightarrow> hm_question h \<notin> set (map fst (hm_given h))) \<and>
     (hm_phase h = Returning \<longrightarrow> hm_question h \<in> set (map fst (hm_given h))) \<and>
     (pending h = [] \<or>
      hm_phase h = Blocked \<and> (\<exists>a. pending h = [(hm_question h, a)]) \<and> hm_question h \<in> set (map fst (hm_given h)))"

lemma own_inv_resume:
  assumes inv: "own_inv h" and w: "hm_waiting h" and new: "hm_question h \<notin> set (map fst (hm_given h))"
  shows "own_inv (resume_check a h)"
proof -
  have ph: "hm_phase h = Blocked" and pend: "pending h = []" using inv w new by (auto simp: own_inv_def)
  have "hm_senders h = []" "hm_ch h = None" using pend by (auto simp: pending_def split: option.splits)
  then show ?thesis
    using inv w ph by (simp add: own_inv_def resume_check_def human_loop_waiting_def pending_def)
qed

lemma own_inv_send: "own_inv h \<Longrightarrow> resume_send i h = Some h' \<Longrightarrow> own_inv h'"
proof -
  assume inv: "own_inv h" and s: "resume_send i h = Some h'"
  then have i: "i < length (hm_senders h)" "hm_ch h = None"
    and h': "h' = h\<lparr>hm_ch := Some (hm_senders h ! i), hm_senders := delete_nth i (hm_senders h)\<rparr>"
    by (auto simp: resume_send_def split: if_splits)
  then have "pending h \<noteq> []" by (auto simp: pending_def)
  with inv obtain a where p: "hm_phase h = Blocked" "pending h = [(hm_question h, a)]"
    "hm_question h \<in> set (map fst (hm_given h))" unfolding own_inv_def by blast
  with i have "hm_senders h = [(hm_question h, a)]" "i = 0" by (auto simp: pending_def)
  then have "pending h' = pending h" using i p by (simp add: pending_def h' delete_nth_def)
  with inv show ?thesis by (simp add: own_inv_def h')
qed

lemma own_inv_drop: "own_inv h \<Longrightarrow> resume_drop i h = Some h' \<Longrightarrow> own_inv h'"
proof -
  assume inv: "own_inv h" and d: "resume_drop i h = Some h'"
  then have i: "i < length (hm_senders h)" and h': "h' = h\<lparr>hm_senders := delete_nth i (hm_senders h)\<rparr>"
    by (auto simp: resume_drop_def split: if_splits)
  then have "pending h \<noteq> []" by (auto simp: pending_def)
  with inv obtain a where p: "pending h = [(hm_question h, a)]" unfolding own_inv_def by blast
  with i have "hm_senders h = [(hm_question h, a)]" "i = 0" "hm_ch h = None"
    by (auto simp: pending_def split: option.splits)
  then have "pending h' = []" by (simp add: pending_def h' delete_nth_def)
  with inv show ?thesis by (simp add: own_inv_def h')
qed

lemma own_inv_receive: "own_inv h \<Longrightarrow> wait_receive h = Some h' \<Longrightarrow> own_inv h'"
proof -
  assume inv: "own_inv h" and r: "wait_receive h = Some h'"
  then obtain t a where c: "hm_phase h = Blocked" "hm_ch h = Some (t, a)"
    and h': "h' = h\<lparr>hm_phase := Returning, hm_ch := None, hm_log := hm_log h @ [(hm_question h, t, a)]\<rparr>"
    by (auto simp: wait_receive_def split: wait_phase.splits option.splits)
  then have "pending h \<noteq> []" by (auto simp: pending_def)
  with inv obtain b where p: "pending h = [(hm_question h, b)]" "hm_question h \<in> set (map fst (hm_given h))"
    unfolding own_inv_def by blast
  with c have "t = hm_question h" "hm_senders h = []" by (auto simp: pending_def)
  with inv p c show ?thesis by (auto simp: own_inv_def h' pending_def)
qed

lemma own_inv_ask: "own_inv h \<Longrightarrow> wait_ask h = Some h' \<Longrightarrow> own_inv h'"
proof -
  assume inv: "own_inv h" and r: "wait_ask h = Some h'"
  then have h': "h' = h\<lparr>hm_phase := Asked, hm_question := Suc (hm_question h)\<rparr>" and i: "hm_phase h = Idle"
    by (auto simp: wait_ask_def split: if_splits)
  from inv i have "pending h = []" "\<forall>(t, a) \<in> set (hm_given h). t \<le> hm_question h" by (auto simp: own_inv_def)
  with inv i show ?thesis by (force simp: own_inv_def h' pending_def)
qed

lemma own_inv_step:
  assumes inv: "distinct (map fst (hm_given h)) \<longrightarrow> own_inv h" and x: "x \<noteq> Abort" and st: "human_do x h = Some h'"
  shows "distinct (map fst (hm_given h')) \<longrightarrow> own_inv h'"
proof (cases x)
  case (Resume a)
  then have h': "h' = resume_check a h" using st by simp
  show ?thesis
  proof (cases "hm_waiting h")
    case True
    with h' have "hm_given h' = hm_given h @ [(hm_question h, a)]"
      by (simp add: resume_check_def human_loop_waiting_def)
    with inv own_inv_resume [OF _ True] h' show ?thesis by auto
  next
    case False
    with h' inv show ?thesis by (simp add: resume_check_def human_loop_waiting_def)
  qed
next
  case (Send i)
  then have s: "resume_send i h = Some h'" using st by simp
  then have "hm_given h' = hm_given h" by (auto simp: resume_send_def split: if_splits)
  with inv own_inv_send [OF _ s] show ?thesis by simp
next
  case (Drop i)
  then have d: "resume_drop i h = Some h'" using st by simp
  then have "hm_given h' = hm_given h" by (auto simp: resume_drop_def split: if_splits)
  with inv own_inv_drop [OF _ d] show ?thesis by simp
next
  case Receive
  then have r: "wait_receive h = Some h'" using st by simp
  then have "hm_given h' = hm_given h"
    by (auto simp: wait_receive_def split: wait_phase.splits option.splits)
  with inv own_inv_receive [OF _ r] show ?thesis by simp
next
  case Ask
  then have r: "wait_ask h = Some h'" using st by simp
  then have "hm_given h' = hm_given h" by (auto simp: wait_ask_def split: if_splits)
  with inv own_inv_ask [OF _ r] show ?thesis by simp
next
  case Block
  with st inv show ?thesis by (auto simp: wait_block_def own_inv_def pending_def split: if_splits)
next
  case Leave
  with st inv show ?thesis by (auto simp: wait_leave_def own_inv_def pending_def split: if_splits)
qed (use x in simp)

definition two_answers :: "human_act list" where
  "two_answers =
     [Ask, Block, Resume ''a'', Resume ''b'', Send 0, Receive, Leave, Send 0, Ask, Block, Receive]"

text \<open>If no question gets a second answer and none is cancelled, every answer goes to the question it was
  given for.  Nothing in the program prevents a second answer, and then it is returned to the next
  question at once: the run \<open>two_answers\<close> answers the second question with what was said to the first.\<close>

theorem answers_to_own_question:
  "(human_run acts new_human = Some h \<and> Abort \<notin> set acts \<and> distinct (map fst (hm_given h)) \<longrightarrow>
      (\<forall>(q, t, a) \<in> set (hm_log h). t = q)) \<and>
   map_option hm_log (human_run two_answers new_human) = Some [(1, 1, ''a''), (2, 1, ''b'')]"
proof (intro conjI impI)
  assume h: "human_run acts new_human = Some h \<and> Abort \<notin> set acts \<and> distinct (map fst (hm_given h))"
  let ?P = "\<lambda>h. distinct (map fst (hm_given h)) \<longrightarrow> own_inv h"
  have "?P h"
  proof (rule human_run_inv [of acts ?P])
    show "?P h'" if "x \<in> set acts" "?P g" "human_do x g = Some h'" for x g h'
      using own_inv_step [OF that(2) _ that(3)] that(1) h by blast
    show "human_run acts new_human = Some h" using h by blast
    show "?P new_human" by (simp add: own_inv_def new_human_def pending_def)
  qed
  with h show "\<forall>(q, t, a) \<in> set (hm_log h). t = q" by (simp add: own_inv_def)
next
  show "map_option hm_log (human_run two_answers new_human) = Some [(1, 1, ''a''), (2, 1, ''b'')]"
    by code_simp
qed

theorem answers_given_once_witness:
  "\<exists>h. human_run two_answers new_human = Some h \<and> distinct (map fst (hm_log h)) \<and> length (hm_log h) = 2"
proof -
  have "map_option hm_log (human_run two_answers new_human) = Some [(1, 1, ''a''), (2, 1, ''b'')]"
    by code_simp
  then obtain h where h: "human_run two_answers new_human = Some h" "hm_log h = [(1, 1, ''a''), (2, 1, ''b'')]"
    by auto
  with answers_given_once [OF h(1)] show ?thesis by auto
qed

theorem answers_to_own_question_witness:
  "\<exists>h. human_run [Ask, Block, Resume ''a'', Send 0, Receive] new_human = Some h \<and> hm_log h = [(1, 1, ''a'')]"
proof -
  let ?acts = "[Ask, Block, Resume ''a'', Send 0, Receive]"
  have "map_option (\<lambda>h. (map snd (hm_log h), map fst (hm_log h), hm_given h)) (human_run ?acts new_human)
      = Some ([(1, ''a'')], [1], [(1, ''a'')])"
    by code_simp
  then obtain h where h: "human_run ?acts new_human = Some h" "map snd (hm_log h) = [(1, ''a'')]"
    "map fst (hm_log h) = [1]" "hm_given h = [(1, ''a'')]"
    by auto
  with answers_to_own_question [of ?acts h] show ?thesis by (auto simp: map_eq_Cons_conv)
qed

text \<open>An answer that comes before the flag is set, for example out of the callback itself, is refused.\<close>

lemma answer_in_callback_refused: "hm_phase h = Asked \<Longrightarrow> \<not> hm_waiting h \<Longrightarrow> resume_check a h = h"
  by (simp add: resume_check_def human_loop_waiting_def)

section \<open>The workers of a batch\<close>

text \<open>
  The workers \<open>0, \<dots>, n - 1\<close> of a batch share the pause gate and the table of waiting agents.  A worker passes
  the gate before each tool call; when its tool asks a human, the callback enters it in the table and pauses the
  gate (\<open>SetOnHITL\<close> in dag.go).  \<open>ResumeAnyWorkerWithHumanResponse\<close> takes a waiting agent out of the table
  (\<open>team_take\<close>), delivers the answer (\<open>team_check\<close>, \<open>team_send\<close>) and then resumes the gate.  A select may
  prefer the cancelled context, and a worker whose context is cancelled ends.
\<close>

record team =
  tm_gate :: gate
  tm_agent :: "nat \<Rightarrow> human"
  tm_reg :: "nat list"                     \<comment> \<open>\<open>hitlAgents\<close>, by the worker of the task\<close>
  tm_checks :: "(nat \<times> string) list"       \<comment> \<open>resume calls that have chosen their agent\<close>
  tm_ended :: "nat list"
  tm_done :: bool

definition new_team :: team where
  "new_team = \<lparr>tm_gate = new_pause_gate, tm_agent = (\<lambda>_. new_human), tm_reg = [], tm_checks = [], tm_ended = [],
     tm_done = False\<rparr>"

definition free_worker :: "team \<Rightarrow> nat \<Rightarrow> bool" where
  "free_worker st t \<longleftrightarrow> t \<notin> set (tm_ended st) \<and> t \<notin> set (g_asleep (tm_gate st)) \<and>
     t \<notin> set (g_woken (tm_gate st)) \<and> hm_phase (tm_agent st t) = Idle"

definition team_ask :: "nat \<Rightarrow> human \<Rightarrow> team \<Rightarrow> team" where
  "team_ask t h st = st\<lparr>tm_agent := (tm_agent st)(t := h), tm_reg := List.insert t (tm_reg st),
     tm_gate := gate_pause (tm_gate st)\<rparr>"

definition team_take :: "nat \<Rightarrow> string \<Rightarrow> team \<Rightarrow> team" where
  "team_take t a st = st\<lparr>tm_reg := removeAll t (tm_reg st), tm_checks := (t, a) # tm_checks st\<rparr>"

text \<open>The agent's own check of its flag: a refused answer ends the call, which resumes the gate.\<close>

definition team_check :: "nat \<Rightarrow> string \<Rightarrow> team \<Rightarrow> team" where
  "team_check t a st =
     (let st1 = st\<lparr>tm_checks := remove1 (t, a) (tm_checks st),
                   tm_agent := (tm_agent st)(t := resume_check a (tm_agent st t))\<rparr>
      in if human_loop_waiting (tm_agent st t) then st1 else st1\<lparr>tm_gate := gate_resume (tm_gate st)\<rparr>)"

definition team_send :: "nat \<Rightarrow> human \<Rightarrow> team \<Rightarrow> team" where
  "team_send t h st = st\<lparr>tm_agent := (tm_agent st)(t := h), tm_gate := gate_resume (tm_gate st)\<rparr>"

inductive team_step :: "nat \<Rightarrow> team \<Rightarrow> team \<Rightarrow> bool" for n where
  enter: "t < n \<Longrightarrow> free_worker st t \<Longrightarrow> team_step n st (st\<lparr>tm_gate := gate_check t (tm_gate st)\<rparr>)"
| recheck: "t \<in> set (g_woken (tm_gate st)) \<Longrightarrow> team_step n st
     (st\<lparr>tm_gate := gate_check t ((tm_gate st)\<lparr>g_woken := remove1 t (g_woken (tm_gate st))\<rparr>)\<rparr>)"
| ask: "t < n \<Longrightarrow> free_worker st t \<Longrightarrow> wait_ask (tm_agent st t) = Some h \<Longrightarrow> team_step n st (team_ask t h st)"
| agent: "t < n \<Longrightarrow> x \<in> {Block, Receive, Leave} \<Longrightarrow> human_do x (tm_agent st t) = Some h \<Longrightarrow>
     team_step n st (st\<lparr>tm_agent := (tm_agent st)(t := h)\<rparr>)"
| abort: "t < n \<Longrightarrow> tm_done st \<Longrightarrow> wait_abort (tm_agent st t) = Some h \<Longrightarrow>
     team_step n st (st\<lparr>tm_agent := (tm_agent st)(t := h)\<rparr>)"
| take: "t \<in> set (tm_reg st) \<Longrightarrow> human_loop_waiting (tm_agent st t) \<Longrightarrow> team_step n st (team_take t a st)"
| check: "(t, a) \<in> set (tm_checks st) \<Longrightarrow> team_step n st (team_check t a st)"
| send: "resume_send i (tm_agent st t) = Some h \<Longrightarrow> team_step n st (team_send t h st)"
| cancel: "team_step n st (st\<lparr>tm_done := True\<rparr>)"
| finish: "t < n \<Longrightarrow> free_worker st t \<Longrightarrow> team_step n st (st\<lparr>tm_ended := t # tm_ended st\<rparr>)"

text \<open>Nothing is open any more, the gate is paused, and every worker has ended or sleeps at the gate.\<close>

definition stuck :: "nat \<Rightarrow> team \<Rightarrow> bool" where
  "stuck n st \<longleftrightarrow> g_paused (tm_gate st) > 0 \<and> g_woken (tm_gate st) = [] \<and> tm_checks st = [] \<and>
     (\<forall>t. hm_phase (tm_agent st t) = Idle \<and> \<not> hm_waiting (tm_agent st t) \<and> hm_senders (tm_agent st t) = []) \<and>
     (\<forall>t < n. t \<in> set (tm_ended st) \<or> t \<in> set (g_asleep (tm_gate st)))"

lemma stuck_step: "team_step n st st' \<Longrightarrow> stuck n st \<Longrightarrow> stuck n st' \<and> tm_gate st' = tm_gate st"
proof (induction rule: team_step.induct)
  case (agent t x st h)
  then have "hm_phase (tm_agent st t) = Idle" by (simp add: stuck_def)
  with agent show ?case
    by (auto simp: wait_block_def wait_receive_def wait_leave_def split: wait_phase.splits)
next
  case (abort t st h)
  then have "hm_phase (tm_agent st t) = Idle" by (simp add: stuck_def)
  with abort show ?case by (simp add: wait_abort_def)
qed (auto simp: stuck_def free_worker_def human_loop_waiting_def resume_send_def split: if_splits)

section \<open>Pauses and open questions\<close>

text \<open>What is under way for the question of a worker, and whether it still lacks an answer.\<close>

definition under_way :: "nat \<Rightarrow> team \<Rightarrow> nat" where
  "under_way t st = (if t \<in> set (tm_reg st) then 1 else 0) + length (filter (\<lambda>c. fst c = t) (tm_checks st)) +
     length (hm_senders (tm_agent st t))"

definition unanswered :: "nat \<Rightarrow> team \<Rightarrow> bool" where
  "unanswered t st \<longleftrightarrow> hm_phase (tm_agent st t) \<in> {Asked, Blocked} \<and> hm_ch (tm_agent st t) = None"

definition agent_inv :: "nat \<Rightarrow> nat \<Rightarrow> team \<Rightarrow> bool" where
  "agent_inv n t st \<longleftrightarrow>
     under_way t st = (if unanswered t st then 1 else 0) \<and>
     (hm_ch (tm_agent st t) \<noteq> None \<longrightarrow> hm_phase (tm_agent st t) = Blocked) \<and>
     (t \<in> fst ` set (tm_checks st) \<or> hm_senders (tm_agent st t) \<noteq> [] \<longrightarrow> hm_phase (tm_agent st t) = Blocked) \<and>
     (hm_waiting (tm_agent st t) \<longleftrightarrow> hm_phase (tm_agent st t) \<in> {Blocked, Returning}) \<and>
     (n \<le> t \<longrightarrow> hm_phase (tm_agent st t) = Idle)"

definition team_inv :: "nat \<Rightarrow> team \<Rightarrow> bool" where
  "team_inv n st \<longleftrightarrow> gate_inv (tm_gate st) \<and> (tm_done st \<or>
     (\<forall>t. agent_inv n t st) \<and> g_paused (tm_gate st) = (\<Sum>t<n. under_way t st))"

lemma sum_one:
  fixes f g :: "nat \<Rightarrow> nat"
  assumes "k < n" "\<And>t. t \<noteq> k \<Longrightarrow> g t = f t"
  shows "(\<Sum>t<n. g t) + f k = (\<Sum>t<n. f t) + g k"
proof -
  have "(\<Sum>t\<in>{..<n} - {k}. g t) = (\<Sum>t\<in>{..<n} - {k}. f t)" using assms(2) by (intro sum.cong) auto
  with assms(1) show ?thesis by (simp add: sum.remove [of "{..<n}" k])
qed

lemma one_of_three: "(if P then 1 else 0) + a + b = (1::nat) \<Longrightarrow> 0 < b \<Longrightarrow> a = 0 \<and> \<not> P \<and> b = 1"
  by (cases P) auto

text \<open>A step of worker \<open>k\<close> alone that keeps the books.\<close>

lemma team_inv_one:
  assumes inv: "\<forall>t. agent_inv n t st" "g_paused (tm_gate st) = (\<Sum>t<n. under_way t st)" and k: "k < n"
    and same: "\<And>t. t \<noteq> k \<Longrightarrow> tm_agent st' t = tm_agent st t \<and>
        (t \<in> set (tm_reg st') \<longleftrightarrow> t \<in> set (tm_reg st)) \<and>
        filter (\<lambda>c. fst c = t) (tm_checks st') = filter (\<lambda>c. fst c = t) (tm_checks st)"
    and own: "agent_inv n k st'"
    and pause: "g_paused (tm_gate st') + under_way k st = g_paused (tm_gate st) + under_way k st'"
  shows "(\<forall>t. agent_inv n t st') \<and> g_paused (tm_gate st') = (\<Sum>t<n. under_way t st')"
proof
  have chk: "t \<in> fst ` set (tm_checks s) \<longleftrightarrow> filter (\<lambda>c. fst c = t) (tm_checks s) \<noteq> []" for t s
    by (force simp: filter_empty_conv)
  have u: "under_way t st' = under_way t st" if "t \<noteq> k" for t
    using same [OF that] by (simp add: under_way_def)
  have "agent_inv n t st'" if "t \<noteq> k" for t
    using inv(1) same [OF that] u [OF that] by (simp add: agent_inv_def unanswered_def chk)
  with own show "\<forall>t. agent_inv n t st'" by metis
  show "g_paused (tm_gate st') = (\<Sum>t<n. under_way t st')"
    using sum_one [OF k u] inv(2) pause by fastforce
qed

lemma paused_simps [simp]:
  "g_paused (gate_pause g) = g_paused g + 1" "g_paused (gate_check t g) = g_paused g"
  "g_paused (gate_resume g) = g_paused g - 1"
  by (auto simp: gate_pause_def gate_check_def gate_resume_def Let_def)

lemma gate_step_inv: "team_step n st st' \<Longrightarrow> gate_inv (tm_gate st) \<Longrightarrow> gate_inv (tm_gate st')"
proof (induction rule: team_step.induct)
  case (recheck t st)
  then show ?case using gate_sys.step_inv [OF _ gate_step.intros(4)] by simp
qed (auto simp: team_ask_def team_take_def team_check_def team_send_def Let_def
  intro: gate_sys.step_inv [OF _ gate_step.intros(1)] gate_sys.step_inv [OF _ gate_step.intros(2)]
    gate_sys.step_inv [OF _ gate_step.intros(3)])

lemma team_inv_step:
  assumes step: "team_step n st st'" and inv: "team_inv n st"
  shows "team_inv n st'"
proof -
  have books: "tm_done st' \<or> (\<forall>t. agent_inv n t st') \<and> g_paused (tm_gate st') = (\<Sum>t<n. under_way t st')"
  proof (cases "tm_done st")
    case True
    with step have "tm_done st'"
      by induction (simp_all add: team_ask_def team_take_def team_check_def team_send_def Let_def)
    then show ?thesis ..
  next
    case False
    with inv have all: "\<forall>t. agent_inv n t st" and sum: "g_paused (tm_gate st) = (\<Sum>t<n. under_way t st)"
      by (auto simp: team_inv_def)
    note one = team_inv_one [OF all sum]
    have frame: "(\<forall>t. agent_inv n t s) \<and> g_paused (tm_gate s) = (\<Sum>t<n. under_way t s)"
      if "tm_agent s = tm_agent st" "tm_reg s = tm_reg st" "tm_checks s = tm_checks st"
        "g_paused (tm_gate s) = g_paused (tm_gate st)" for s
      using all sum that by (simp add: agent_inv_def under_way_def unanswered_def)
    from step show ?thesis
    proof cases
      case (ask t h)
      have t: "agent_inv n t st" using all by blast
      have h: "hm_phase (tm_agent st t) = Idle" "h = (tm_agent st t)\<lparr>hm_phase := Asked, hm_question := hm_question (tm_agent st t) + 1\<rparr>"
        using ask by (auto simp: wait_ask_def split: if_splits)
      with t have z: "t \<notin> set (tm_reg st)" "filter (\<lambda>c. fst c = t) (tm_checks st) = []" "hm_senders (tm_agent st t) = []"
        "hm_ch (tm_agent st t) = None" "\<not> hm_waiting (tm_agent st t)"
        by (auto simp: agent_inv_def under_way_def unanswered_def split: if_splits)
      show ?thesis
      proof (rule disjI2, rule one [of t])
        show "agent_inv n t st'" using t h z ask(1,2)
          by (auto simp: team_ask_def agent_inv_def under_way_def unanswered_def filter_empty_conv)
        show "g_paused (tm_gate st') + under_way t st = g_paused (tm_gate st) + under_way t st'"
          using h z ask(1) by (simp add: team_ask_def under_way_def)
      qed (use ask in \<open>simp_all add: team_ask_def\<close>)
    next
      case (agent t x h)
      have t: "agent_inv n t st" using all by blast
      have frame_t: "under_way t st' = length (hm_senders h) + (under_way t st - length (hm_senders (tm_agent st t)))"
        using agent(1) by (simp add: under_way_def)
      from agent(3,4) consider
          "hm_phase (tm_agent st t) = Asked" "h = (tm_agent st t)\<lparr>hm_phase := Blocked, hm_waiting := True\<rparr>"
        | q c where "hm_phase (tm_agent st t) = Blocked" "hm_ch (tm_agent st t) = Some (q, c)"
            "h = (tm_agent st t)\<lparr>hm_phase := Returning, hm_ch := None,
               hm_log := hm_log (tm_agent st t) @ [(hm_question (tm_agent st t), q, c)]\<rparr>"
        | "hm_phase (tm_agent st t) = Returning" "h = (tm_agent st t)\<lparr>hm_phase := Idle, hm_waiting := False\<rparr>"
        by (auto simp: wait_block_def wait_receive_def wait_leave_def split: if_splits wait_phase.splits option.splits)
      then have "agent_inv n t st'"
        by cases (use t agent(1,2) in \<open>auto simp: agent_inv_def under_way_def unanswered_def filter_empty_conv\<close>)
      moreover have "hm_senders h = hm_senders (tm_agent st t)"
        using agent(3,4) by (auto simp: wait_block_def wait_receive_def wait_leave_def
            split: if_splits wait_phase.splits option.splits)
      ultimately show ?thesis
        using agent(1,2) by (intro disjI2 one [of t]) (simp_all add: under_way_def)
    next
      case (take t a)
      have t: "agent_inv n t st" using all by blast
      with take have ph: "hm_phase (tm_agent st t) = Blocked" "hm_ch (tm_agent st t) = None" "t < n"
        by (auto simp: agent_inv_def under_way_def unanswered_def human_loop_waiting_def not_le [symmetric] split: if_splits)
      show ?thesis
      proof (rule disjI2, rule one [of t])
        show "agent_inv n t st'" using t ph take
          by (auto simp: team_take_def agent_inv_def under_way_def unanswered_def)
        show "g_paused (tm_gate st') + under_way t st = g_paused (tm_gate st) + under_way t st'"
          using take by (simp add: team_take_def under_way_def)
      qed (use ph take in \<open>simp_all add: team_take_def\<close>)
    next
      case (check t a)
      have t: "agent_inv n t st" using all by blast
      have mem: "(t, a) \<in> set (filter (\<lambda>c. fst c = t) (tm_checks st))" using check(2) by simp
      then have "t \<in> fst ` set (tm_checks st)" by force
      with t have ph: "hm_phase (tm_agent st t) = Blocked" "hm_waiting (tm_agent st t)" "t < n"
        by (auto simp: agent_inv_def not_le [symmetric])
      have pos: "length (filter (\<lambda>c. fst c = t) (tm_checks st)) > 0" using mem by (cases "filter (\<lambda>c. fst c = t) (tm_checks st)") auto
      have uw: "under_way t st' = under_way t st" using pos check ph
        by (simp add: team_check_def Let_def under_way_def resume_check_def human_loop_waiting_def filter_remove1 length_remove1)
      show ?thesis
      proof (rule disjI2, rule one [of t])
        show "agent_inv n t st'" using t ph check(1) uw
          by (simp add: agent_inv_def unanswered_def team_check_def Let_def resume_check_def human_loop_waiting_def)
        show "g_paused (tm_gate st') + under_way t st = g_paused (tm_gate st) + under_way t st'"
          using uw check(1) ph by (simp add: team_check_def Let_def human_loop_waiting_def)
      qed (use ph check in \<open>auto simp: team_check_def Let_def human_loop_waiting_def filter_remove1 remove1_idem\<close>)
    next
      case (send i t h)
      have t: "agent_inv n t st" using all by blast
      have h: "i < length (hm_senders (tm_agent st t))" "hm_ch (tm_agent st t) = None"
        "h = (tm_agent st t)\<lparr>hm_ch := Some (hm_senders (tm_agent st t) ! i), hm_senders := delete_nth i (hm_senders (tm_agent st t))\<rparr>"
        using send(2) by (auto simp: resume_send_def split: if_splits)
      then have "hm_senders (tm_agent st t) \<noteq> []" by auto
      with t have ph: "hm_phase (tm_agent st t) = Blocked" "t < n" by (auto simp: agent_inv_def not_le [symmetric])
      with t h have "under_way t st = 1" by (simp add: agent_inv_def unanswered_def)
      moreover have "length (hm_senders (tm_agent st t)) > 0" using h(1) by linarith
      ultimately have "length (filter (\<lambda>c. fst c = t) (tm_checks st)) = 0 \<and> t \<notin> set (tm_reg st) \<and>
          length (hm_senders (tm_agent st t)) = 1"
        unfolding under_way_def by (rule one_of_three)
      then have z: "t \<notin> set (tm_reg st)" "filter (\<lambda>c. fst c = t) (tm_checks st) = []"
        "length (hm_senders (tm_agent st t)) = 1" by simp_all
      then have uw: "under_way t st' = 0" "under_way t st = 1" using send(1) h
        by (auto simp: team_send_def under_way_def)
      have "under_way t st \<le> (\<Sum>u<n. under_way u st)" using ph(2) by (intro member_le_sum) auto
      with uw sum have p: "g_paused (tm_gate st) > 0" by simp
      show ?thesis
      proof (rule disjI2, rule one [of t])
        show "agent_inv n t st'" using t h ph z uw send(1)
          by (auto simp: agent_inv_def unanswered_def team_send_def)
        show "g_paused (tm_gate st') + under_way t st = g_paused (tm_gate st) + under_way t st'"
          using uw p send(1) by (simp add: team_send_def)
      qed (use ph send in \<open>simp_all add: team_send_def\<close>)
    qed (use frame in simp_all)
  qed
  with gate_step_inv [OF step] inv show ?thesis by (simp add: team_inv_def)
qed

interpretation team_sys: transition_system "\<lambda>st. st = new_team" "team_step n" "team_inv n" for n
proof
  show "team_inv n st" if "st = new_team" for st
    using that by (simp add: team_inv_def agent_inv_def under_way_def unanswered_def new_team_def new_human_def
        new_pause_gate_def gate_inv_def)
  show "team_inv n st'" if "team_inv n st" "team_step n st st'" for st st'
    using team_inv_step [OF that(2,1)] .
qed

text \<open>As long as nothing is cancelled, the gate of a batch is paused exactly once for every question of a worker
  that nobody has answered; so when all questions are answered the gate is open and no worker sleeps at it.\<close>

theorem pauses_match_questions:
  assumes "(team_step n)\<^sup>*\<^sup>* new_team st" and "\<not> tm_done st"
  shows "g_paused (tm_gate st) = card {t. t < n \<and> unanswered t st} \<and>
    ((\<forall>t < n. \<not> unanswered t st) \<longrightarrow> g_paused (tm_gate st) = 0 \<and> g_asleep (tm_gate st) = [])"
proof -
  have inv: "team_inv n st" by (rule team_sys.reachable_inv [OF refl assms(1)])
  with assms(2) have "g_paused (tm_gate st) = (\<Sum>t<n. under_way t st)" "\<forall>t. agent_inv n t st"
    by (auto simp: team_inv_def)
  then have "g_paused (tm_gate st) = (\<Sum>t<n. if unanswered t st then 1 else 0)"
    by (simp add: agent_inv_def)
  also have "\<dots> = card {t. t < n \<and> unanswered t st}"
    by (simp add: sum.If_cases Int_def lessThan_def conj_commute)
  finally have p: "g_paused (tm_gate st) = card {t. t < n \<and> unanswered t st}" .
  have "g_paused (tm_gate st) = 0 \<and> g_asleep (tm_gate st) = []" if "\<forall>t < n. \<not> unanswered t st"
  proof -
    have "{t. t < n \<and> unanswered t st} = {}" using that by blast
    then have "g_paused (tm_gate st) = 0" using p by simp
    with inv show ?thesis by (auto simp: team_inv_def gate_inv_def)
  qed
  with p show ?thesis by blast
qed

text \<open>Worker 0 asks while worker 1 comes to the gate; then the run is cancelled.\<close>

definition asked_team :: team where
  "asked_team = team_ask 0 (new_human\<lparr>hm_phase := Asked, hm_question := 1\<rparr>) new_team"

definition blocked_team :: team where
  "blocked_team = asked_team\<lparr>tm_agent := (tm_agent asked_team)(0 :=
     new_human\<lparr>hm_phase := Blocked, hm_waiting := True, hm_question := 1\<rparr>)\<rparr>"

definition sleeping_team :: team where
  "sleeping_team = blocked_team\<lparr>tm_gate := gate_check 1 (tm_gate blocked_team)\<rparr>"

definition cancelled_team :: team where
  "cancelled_team = sleeping_team\<lparr>tm_done := True, tm_ended := [0],
     tm_agent := (tm_agent sleeping_team)(0 := new_human\<lparr>hm_question := 1\<rparr>)\<rparr>"

lemmas demo_team_defs = asked_team_def blocked_team_def sleeping_team_def cancelled_team_def team_ask_def
  new_team_def new_human_def new_pause_gate_def gate_pause_def gate_check_def free_worker_def human_defs

lemma asked_reachable: "(team_step 2)\<^sup>*\<^sup>* new_team asked_team"
  by (rule r_into_rtranclp, unfold asked_team_def, rule team_step.ask) (simp_all add: demo_team_defs)

lemma blocked_reachable: "(team_step 2)\<^sup>*\<^sup>* new_team blocked_team"
  by (rule rtranclp.rtrancl_into_rtrancl [OF asked_reachable], unfold blocked_team_def,
      rule team_step.agent [where x = Block]) (simp_all add: demo_team_defs)

lemma sleeping_reachable: "(team_step 2)\<^sup>*\<^sup>* new_team sleeping_team"
  by (rule rtranclp.rtrancl_into_rtrancl [OF blocked_reachable], unfold sleeping_team_def, rule team_step.enter)
    (simp_all add: demo_team_defs)

lemma cancelled_reachable: "(team_step 2)\<^sup>*\<^sup>* new_team cancelled_team"
proof -
  let ?s1 = "sleeping_team\<lparr>tm_done := True\<rparr>"
  let ?h2 = "new_human\<lparr>hm_phase := Returning, hm_waiting := True, hm_question := 1\<rparr>"
  let ?s2 = "?s1\<lparr>tm_agent := (tm_agent ?s1)(0 := ?h2)\<rparr>"
  let ?s3 = "?s2\<lparr>tm_agent := (tm_agent ?s2)(0 := new_human\<lparr>hm_question := 1\<rparr>)\<rparr>"
  have "team_step 2 sleeping_team ?s1" by (rule team_step.cancel)
  moreover have "team_step 2 ?s1 ?s2" by (rule team_step.abort) (simp_all add: demo_team_defs)
  moreover have "team_step 2 ?s2 ?s3"
    by (rule team_step.agent [where x = Leave]) (simp_all add: demo_team_defs)
  moreover have "team_step 2 ?s3 (?s3\<lparr>tm_ended := 0 # tm_ended ?s3\<rparr>)"
    by (rule team_step.finish) (simp_all add: demo_team_defs)
  moreover have "?s3\<lparr>tm_ended := 0 # tm_ended ?s3\<rparr> = cancelled_team"
    by (simp add: demo_team_defs fun_eq_iff)
  ultimately show ?thesis using sleeping_reachable by (metis (no_types, lifting) rtranclp.rtrancl_into_rtrancl)
qed

text \<open>If a run is cancelled while a worker waits for a human, the pause of its question is never taken back:
  there is a run of two workers that ends with one worker finished and the other asleep at the gate, and from
  such a state no step of the system ever moves the gate again, so \<open>ExecuteBatch\<close> waits for ever.\<close>

theorem cancelled_question_blocks_batch:
  "(team_step 2)\<^sup>*\<^sup>* new_team cancelled_team \<and> stuck 2 cancelled_team \<and> g_asleep (tm_gate cancelled_team) = [1] \<and>
   (stuck n st \<and> (team_step n)\<^sup>*\<^sup>* st st' \<longrightarrow> tm_gate st' = tm_gate st)"
proof (intro conjI impI)
  show "(team_step 2)\<^sup>*\<^sup>* new_team cancelled_team" by (rule cancelled_reachable)
  show "stuck 2 cancelled_team" by (auto simp: stuck_def demo_team_defs)
  show "g_asleep (tm_gate cancelled_team) = [1]" by (simp add: demo_team_defs)
next
  assume "stuck n st \<and> (team_step n)\<^sup>*\<^sup>* st st'"
  then have st: "stuck n st" and run: "(team_step n)\<^sup>*\<^sup>* st st'" by blast+
  from run have "stuck n st' \<and> tm_gate st' = tm_gate st"
    by (induction rule: rtranclp_induct) (use st stuck_step in \<open>fastforce+\<close>)
  then show "tm_gate st' = tm_gate st" ..
qed

theorem pauses_match_questions_witness:
  "g_paused (tm_gate blocked_team) = card {t. t < 2 \<and> unanswered t blocked_team} \<and> g_paused (tm_gate blocked_team) = 1"
  using pauses_match_questions [OF blocked_reachable] by (simp add: demo_team_defs)

theorem cancelled_question_blocks_batch_witness:
  "tm_gate (cancelled_team\<lparr>tm_done := True\<rparr>) = tm_gate cancelled_team \<and> g_asleep (tm_gate cancelled_team) = [1]"
proof -
  have "(team_step 2)\<^sup>*\<^sup>* cancelled_team (cancelled_team\<lparr>tm_done := True\<rparr>)" by (rule r_into_rtranclp, rule team_step.cancel)
  with cancelled_question_blocks_batch [of 2 cancelled_team "cancelled_team\<lparr>tm_done := True\<rparr>"] show ?thesis by blast
qed

end
