(* ===== verification/FactsSpec.thy ===== *)
theory FactsSpec
  imports Facts
begin

text \<open>
  What long-term memory promises, and that fact.go keeps it: seen through its index (\<open>fact_at\<close>) the table of items
  is a map from section and key to facts, and every operation answers and changes it as the operation on maps
  below does.  The contract is the locale \<open>refinement\<close>, for any component whose operations answer.
\<close>

section \<open>Refinement of operations with answers\<close>

fun run_ops :: "('o \<Rightarrow> 's \<Rightarrow> 's \<times> 'a) \<Rightarrow> 'o list \<Rightarrow> 's \<Rightarrow> 's \<times> 'a list" where
  "run_ops f [] s = (s, [])"
| "run_ops f (x # xs) s = (let (s1, a) = f x s; (s2, as) = run_ops f xs s1 in (s2, a # as))"

locale refinement =
  fixes conc :: "'o \<Rightarrow> 'c \<Rightarrow> 'c \<times> 'a" and spec :: "'o \<Rightarrow> 'm \<Rightarrow> 'm \<times> 'a"
    and abs_of :: "'c \<Rightarrow> 'm" and inv_of :: "'c \<Rightarrow> bool" and allowed :: "'o \<Rightarrow> bool"
  assumes keeps: "inv_of s \<Longrightarrow> allowed x \<Longrightarrow> inv_of (fst (conc x s))"
    and state_ok: "inv_of s \<Longrightarrow> allowed x \<Longrightarrow> abs_of (fst (conc x s)) = fst (spec x (abs_of s))"
    and answer_ok: "inv_of s \<Longrightarrow> allowed x \<Longrightarrow> snd (conc x s) = snd (spec x (abs_of s))"
begin

lemma run_refines:
  "inv_of s \<Longrightarrow> list_all allowed xs \<Longrightarrow>
   inv_of (fst (run_ops conc xs s)) \<and>
   run_ops spec xs (abs_of s) = (abs_of (fst (run_ops conc xs s)), snd (run_ops conc xs s))"
proof (induction xs arbitrary: s)
  case (Cons x xs)
  then have "inv_of s" "allowed x" "list_all allowed xs" by simp_all
  note k = keeps [OF this(1,2)] and st = state_ok [OF this(1,2)] and an = answer_ok [OF this(1,2)]
  from Cons.IH [OF k \<open>list_all allowed xs\<close>] show ?case
    by (simp add: split_beta Let_def st an)
qed simp

end

section \<open>The specification\<close>

type_synonym facts = "string \<Rightarrow> memory_item option"

definition spec_store :: "ltm_env \<Rightarrow> string \<Rightarrow> string \<Rightarrow> string \<Rightarrow> facts \<Rightarrow> facts \<times> memory_item \<times> memory_item option" where
  "spec_store env section key value m =
     (let k = index_key env section key;
          fresh = \<lparr>mi_section = normalize env section, mi_key = key, mi_value = value, mi_source = [],
                   mi_version = 1, mi_confidence = 1, mi_updated = le_now env\<rparr>
      in case m k of
           None \<Rightarrow> (m(k \<mapsto> fresh), fresh, None)
         | Some old \<Rightarrow>
             (let conf = mi_confidence (decay_confidence env old) in
              if is_semantic_match env (mi_value old) value then
                (let new = old\<lparr>mi_value := value, mi_confidence := min 1 (max conf 1 + 1 / 10),
                               mi_updated := le_now env, mi_version := mi_version old + 1\<rparr>
                 in (m(k \<mapsto> new), new, None))
              else if 1 > conf then
                (let new = fresh\<lparr>mi_version := mi_version old + 1\<rparr> in (m(k \<mapsto> new), new, Some old))
              else (m, old, Some (fresh\<lparr>mi_version := mi_version old + 1, mi_updated := 0\<rparr>))))"

definition spec_bulk :: "ltm_env \<Rightarrow> memory_item list \<Rightarrow> facts \<Rightarrow> facts" where
  "spec_bulk env fs m =
     fold (\<lambda>f m. let f1 = f\<lparr>mi_updated := le_now env, mi_section := normalize env (mi_section f)\<rparr>; k = item_key env f1
                 in m(k \<mapsto> (case m k of None \<Rightarrow> f1 | Some old \<Rightarrow> f1\<lparr>mi_version := mi_version old + 1\<rparr>))) fs m"

definition spec_select :: "ltm_env \<Rightarrow> (memory_item \<Rightarrow> bool) \<Rightarrow> facts \<Rightarrow> memory_item set" where
  "spec_select env P m = decay_confidence env ` {f \<in> ran m. P f}"

text \<open>The operations, each with the clock and the comparison functions it runs with.  The report of a failed
  write is not part of the answers: the table in memory does not depend on it.\<close>

datatype ltm_op =
    OpStore ltm_env string string string
  | OpBulk ltm_env "memory_item list"
  | OpRemove ltm_env string string
  | OpGet ltm_env string string
  | OpSection ltm_env string
  | OpSearch ltm_env string
  | OpCount ltm_env

datatype ltm_answer =
    Stored memory_item "memory_item option" | Done | Fact "memory_item option" | Facts "memory_item set" | Count nat

definition matches :: "ltm_env \<Rightarrow> string \<Rightarrow> memory_item \<Rightarrow> bool" where
  "matches env q f \<longleftrightarrow> go_contains (le_lower env (mi_section f)) (le_lower env q) \<or>
     go_contains (le_lower env (mi_key f)) (le_lower env q) \<or> go_contains (le_lower env (mi_value f)) (le_lower env q)"

fun ltm_do :: "ltm_op \<Rightarrow> ltm \<Rightarrow> ltm \<times> ltm_answer" where
  "ltm_do (OpStore env sec key v) s = (case store_fact env sec key v s of (s', w, c) \<Rightarrow> (s', Stored w c))"
| "ltm_do (OpBulk env fs) s = (fst (bulk_store env fs s), Done)"
| "ltm_do (OpRemove env sec key) s = (fst (remove_fact env sec key s), Done)"
| "ltm_do (OpGet env sec key) s = (s, Fact (get_fact env sec key s))"
| "ltm_do (OpSection env sec) s = (s, Facts (set (get_section env sec s)))"
| "ltm_do (OpSearch env q) s = (s, Facts (set (search_ltm env q s)))"
| "ltm_do (OpCount env) s = (s, Count (fst (ltm_stats env s)))"

fun spec_do :: "ltm_op \<Rightarrow> facts \<Rightarrow> facts \<times> ltm_answer" where
  "spec_do (OpStore env sec key v) m = (case spec_store env sec key v m of (m', w, c) \<Rightarrow> (m', Stored w c))"
| "spec_do (OpBulk env fs) m = (spec_bulk env fs m, Done)"
| "spec_do (OpRemove env sec key) m = (m(index_key env sec key := None), Done)"
| "spec_do (OpGet env sec key) m = (m, Fact (map_option (decay_confidence env) (m (index_key env sec key))))"
| "spec_do (OpSection env sec) m = (m, Facts (spec_select env (\<lambda>f. normalize env (mi_section f) = normalize env sec) m))"
| "spec_do (OpSearch env q) m = (m, Facts (spec_select env (matches env q) m))"
| "spec_do (OpCount env) m = (m, Count (card (dom m)))"

fun op_env :: "ltm_op \<Rightarrow> ltm_env" where
  "op_env (OpStore env _ _ _) = env" | "op_env (OpBulk env _) = env" | "op_env (OpRemove env _ _) = env"
| "op_env (OpGet env _ _) = env" | "op_env (OpSection env _) = env" | "op_env (OpSearch env _) = env"
| "op_env (OpCount env) = env"

text \<open>All operations compare names with the same function; normalising a section twice changes nothing.\<close>

definition op_allowed :: "(string \<Rightarrow> string) \<Rightarrow> ltm_op \<Rightarrow> bool" where
  "op_allowed lower x \<longleftrightarrow> le_lower (op_env x) = lower \<and> (\<forall>sec. stable (op_env x) sec)"

section \<open>The refinement\<close>

lemma fact_at_ran: "ltm_ok env s \<Longrightarrow> ran (fact_at s) = set (lt_items s)"
  by (auto simp: ran_def fact_at_iff)

lemma fact_at_dom: "ltm_ok env s \<Longrightarrow> card (dom (fact_at s)) = length (lt_items s)"
proof -
  assume ok: "ltm_ok env s"
  then have "dom (fact_at s) = item_key env ` set (lt_items s)" by (auto simp: dom_def fact_at_iff)
  moreover have "distinct (map (item_key env) (lt_items s))"
    using ltm_ok_nth [OF ok] by (auto simp: distinct_conv_nth) (metis option.inject)
  ultimately show ?thesis using distinct_card [of "map (item_key env) (lt_items s)"] by simp
qed

lemma store_refines:
  assumes ok: "ltm_ok env s" and st: "stable env sec"
  shows "(case store_fact env sec key v s of (s', w, c) \<Rightarrow> (fact_at s', w, c)) = spec_store env sec key v (fact_at s)"
proof (cases "map_of (lt_index s) (index_key env sec key)")
  case None
  with put_fact_at [OF ok] st show ?thesis
    by (auto simp: store_fact_def spec_store_def fact_at_def Let_def item_key_def fun_eq_iff)
next
  case (Some i)
  note k = ltm_okD [OF ok Some]
  have upd: "fact_at (s\<lparr>lt_items := (lt_items s)[i := f]\<rparr>) = (fact_at s)(index_key env sec key \<mapsto> f)"
    if "item_key env f = index_key env sec key" for f
    using overwrite_put [of s env f i] Some that put_fact_at [OF ok, of f] by (auto simp: fun_eq_iff)
  have w: "fact_at (fst (write_ltm env t)) = fact_at t" for t by (simp add: fun_eq_iff)
  have old: "fact_at s (index_key env sec key) = Some (lt_items s ! i)" using Some by (simp add: fact_at_def)
  have sm: "is_semantic_match env x x" for x by (simp add: is_semantic_match_def)
  have key1: "item_key env ((lt_items s ! i)\<lparr>mi_value := x1, mi_confidence := x2, mi_updated := x3, mi_version := x4\<rparr>)
      = index_key env sec key" for x1 x2 x3 x4 using k by (simp add: item_key_def)
  have key2: "item_key env \<lparr>mi_section = normalize env sec, mi_key = key, mi_value = x1, mi_source = x2,
      mi_version = x3, mi_confidence = x4, mi_updated = x5\<rparr> = index_key env sec key" for x1 x2 x3 x4 x5
    using st by (simp add: item_key_def)
  from Some st k show ?thesis
    by (auto simp: store_fact_def spec_store_def old Let_def w upd key1 key2 sm split: if_splits)
qed

lemma bulk_refines:
  assumes "ltm_ok env s" shows "fact_at (fst (bulk_store env fs s)) = spec_bulk env fs (fact_at s)"
proof -
  have "fact_at (fold (bulk_one env) fs s) = spec_bulk env fs (fact_at s)" using assms
  proof (induction fs arbitrary: s)
    case (Cons f fs)
    have ok: "ltm_ok env (bulk_one env f s)" by (simp add: bulk_one_put put_fact_ok Cons.prems)
    have "fact_at (bulk_one env f s) = spec_bulk env [f] (fact_at s)"
      using put_fact_at [OF Cons.prems]
      by (auto simp: bulk_one_put bulk_item_def spec_bulk_def Let_def item_key_def fun_eq_iff split: option.splits)
    with Cons.IH [OF ok] show ?case by (simp add: spec_bulk_def)
  qed (simp add: spec_bulk_def)
  then show ?thesis by (simp add: bulk_store_def fun_eq_iff)
qed

lemma remove_refines:
  assumes "ltm_ok env s"
  shows "ltm_ok env (fst (remove_fact env sec key s)) \<and>
    fact_at (fst (remove_fact env sec key s)) = (fact_at s)(index_key env sec key := None)"
proof (cases "map_of (lt_index s) (index_key env sec key)")
  case None
  with assms show ?thesis by (auto simp: remove_fact_def fact_at_def fun_eq_iff)
next
  case (Some i)
  with remove_fact_exact [OF assms Some] show ?thesis by (auto simp: fun_eq_iff)
qed

lemma select_refines:
  "ltm_ok env s \<Longrightarrow> set (get_section env sec s) = spec_select env (\<lambda>f. normalize env (mi_section f) = normalize env sec) (fact_at s)"
  "ltm_ok env s \<Longrightarrow> set (search_ltm env q s) = spec_select env (matches env q) (fact_at s)"
  by (auto simp: get_section_def search_ltm_def spec_select_def fact_at_ran matches_def Let_def)

lemma get_refines: "get_fact env sec key s = map_option (decay_confidence env) (fact_at s (index_key env sec key))"
  by (simp add: get_fact_def fact_at_def option.map_comp comp_def)

interpretation ltm_ref: refinement ltm_do spec_do fact_at "\<lambda>s. \<forall>env. le_lower env = lower \<longrightarrow> ltm_ok env s" "op_allowed lower"
  for lower
proof unfold_locales
  fix s x
  assume inv: "\<forall>env. le_lower env = lower \<longrightarrow> ltm_ok env s" and x: "op_allowed lower x"
  then have ok: "ltm_ok (op_env x) s" and st: "\<And>sec. stable (op_env x) sec" by (auto simp: op_allowed_def)
  have "ltm_ok (op_env x) (fst (ltm_do x s))"
    using ok store_fact_ok [OF ok st] bulk_store_ok [OF ok] remove_refines [OF ok]
    by (cases x) (auto split: prod.splits, metis fst_conv)
  then show "\<forall>env. le_lower env = lower \<longrightarrow> ltm_ok env (fst (ltm_do x s))"
    using ltm_ok_lower x unfolding op_allowed_def by metis
  show "fact_at (fst (ltm_do x s)) = fst (spec_do x (fact_at s))"
  proof (cases x)
    case (OpStore env sec key v)
    with store_refines [of env s sec key v] ok st show ?thesis by (auto split: prod.splits)
  qed (use ok bulk_refines remove_refines in auto)
  show "snd (ltm_do x s) = snd (spec_do x (fact_at s))"
  proof (cases x)
    case (OpStore env sec key v)
    with store_refines [of env s sec key v] ok st show ?thesis by (auto split: prod.splits)
  next
    case (OpCount env)
    with ok show ?thesis by (simp add: ltm_stats_def Let_def fact_at_dom)
  qed (use ok select_refines get_refines in auto)
qed

section \<open>Properties\<close>


text \<open>The operations one after the other on the concrete memory: the second store finds the first.\<close>

definition demo_ops :: "ltm_op list" where
  "demo_ops = [OpStore demo_lenv ''s'' ''c'' ''nano'', OpRemove demo_lenv ''s'' ''a'', OpGet demo_lenv ''s'' ''a'',
     OpStore demo_lenv ''s'' ''c'' ''nano'', OpCount demo_lenv]"

lemma stable_demo: "stable demo_lenv sec"
  by (simp add: stable_def normalize_def demo_lenv_def)


end
