(* ===== verification/Schema.thy ===== *)
theory Schema
  imports ToolArgs
begin

text \<open>
  Tool definitions carry JSON schemas of their arguments and outputs (core/types/tool.go).  This theory
  gives the schemas a meaning: \<open>conforms sch v\<close> is the part of JSON Schema the tools use (\<open>type\<close>,
  \<open>properties\<close>, \<open>required\<close>), and the abbreviations write the schemas the way the source does.
\<close>

abbreviation field :: "string \<Rightarrow> string \<Rightarrow> val" where
  "field ty descr \<equiv> VMap [(''type'', VStr ty), (''description'', VStr descr)]"

section \<open>Typing\<close>

definition whole :: "rat \<Rightarrow> bool" where
  "whole r \<longleftrightarrow> r = of_int \<lfloor>r\<rfloor>"

fun has_type :: "string \<Rightarrow> val \<Rightarrow> bool" where
  "has_type ty VNil = (ty = ''null'')"
| "has_type ty (VBool _) = (ty = ''boolean'')"
| "has_type ty (VInt _) = (ty = ''integer'' \<or> ty = ''number'')"
| "has_type ty (VFloat r) = (ty = ''number'' \<or> ty = ''integer'' \<and> whole r)"
| "has_type ty (VStr _) = (ty = ''string'')"
| "has_type ty (VList _) = (ty = ''array'')"
| "has_type ty (VMap _) = (ty = ''object'')"

definition typed_by :: "(string \<times> val) list \<Rightarrow> val \<Rightarrow> bool" where
  "typed_by sch v = (case map_of sch ''type'' of Some (VStr ty) \<Rightarrow> has_type ty v | _ \<Rightarrow> True)"

definition required_keys :: "(string \<times> val) list \<Rightarrow> string list" where
  "required_keys sch = (case map_of sch ''required'' of
     Some (VList ks) \<Rightarrow> List.map_filter as_string ks | _ \<Rightarrow> [])"

definition declared :: "(string \<times> val) list \<Rightarrow> (string \<times> val) list" where
  "declared sch = (case map_of sch ''properties'' of Some (VMap ps) \<Rightarrow> ps | _ \<Rightarrow> [])"

lemma size_map_of: "map_of m k = Some v \<Longrightarrow> size v < size_list (size_prod (\<lambda>_. 0) size) m"
  by (induction m) (auto split: if_splits)

lemma size_declared: "(k, s) \<in> set (declared sch) \<Longrightarrow> size s < size_list (size_prod (\<lambda>_. 0) size) sch"
proof -
  assume k: "(k, s) \<in> set (declared sch)"
  then obtain ps where m: "map_of sch ''properties'' = Some (VMap ps)" "(k, s) \<in> set ps"
    by (cases "map_of sch ''properties''") (auto simp: declared_def split: val.splits)
  have "size_prod (\<lambda>_. 0) size (k, s) \<le> size_list (size_prod (\<lambda>_. 0) size) ps"
    by (rule size_list_estimation' [OF m(2)]) simp
  with size_map_of [OF m(1)] show ?thesis by simp
qed

function conforms :: "val \<Rightarrow> val \<Rightarrow> bool" where
  "conforms (VMap sch) v =
     (typed_by sch v \<and>
      (case v of
         VMap kvs \<Rightarrow>
           list_all (\<lambda>k. map_of kvs k \<noteq> None) (required_keys sch) \<and>
           list_all (\<lambda>(k, s). case map_of kvs k of None \<Rightarrow> True | Some x \<Rightarrow> conforms s x) (declared sch)
       | _ \<Rightarrow> True))"
| "conforms VNil v = True" | "conforms (VBool b) v = b" | "conforms (VInt i) v = True"
| "conforms (VFloat r) v = True" | "conforms (VStr t) v = True" | "conforms (VList vs) v = True"
  by pat_completeness auto
termination by (relation "measure (size \<circ> fst)") (auto dest: size_declared)

text \<open>The arguments of a call, the outputs of a result, and outputs with no key outside the schema.\<close>

definition args_ok :: "tool_definition \<Rightarrow> tool_call_detail \<Rightarrow> bool" where
  "args_ok def d = conforms (VMap (td_schema def)) (VMap (tcd_args d))"

definition outputs_ok :: "tool_definition \<Rightarrow> tool_call_result \<Rightarrow> bool" where
  "outputs_ok def r = conforms (VMap (td_output_schema def)) (VMap (tcr_outputs r))"

definition outputs_declared :: "tool_definition \<Rightarrow> tool_call_result \<Rightarrow> bool" where
  "outputs_declared def r = list_all (\<lambda>(k, _). map_of (declared (td_output_schema def)) k \<noteq> None) (tcr_outputs r)"

lemmas schema_simps = typed_by_def declared_def required_keys_def

text \<open>What a tool owes its caller: its name, the id of the call, and outputs as declared, unless it fails.\<close>

definition well_typed :: "tool_definition \<Rightarrow> tool_call_detail \<Rightarrow> tool_call_result \<Rightarrow> bool" where
  "well_typed def d r \<longleftrightarrow> tcr_name r = td_name def \<and> tcr_id r = tcd_id d \<and> (is_error r \<or> outputs_ok def r)"

lemma well_typed_error [simp]: "td_name def = t \<Longrightarrow> tcd_id d = i \<Longrightarrow> well_typed def d (error_result i t e)"
  by (simp add: well_typed_def)

lemma well_typed_success:
  "td_name def = t \<Longrightarrow> tcd_id d = i \<Longrightarrow> conforms (VMap (td_output_schema def)) (VMap outs) \<Longrightarrow>
   well_typed def d (success_result i t outs)"
  by (simp add: well_typed_def outputs_ok_def)

text \<open>A required string argument of a well-typed call can be read.\<close>

lemma args_ok_string:
  assumes "args_ok def d" and "k \<in> set (required_keys (td_schema def))"
    and "(k, field ''string'' t) \<in> set (declared (td_schema def))"
  shows "\<exists>s. arg d k = Inr s"
proof -
  from assms(1,2) obtain v where v: "get_arg d k = Some v" by (auto simp: args_ok_def list_all_iff)
  from assms(1,3) v have "conforms (field ''string'' t) v" by (force simp: args_ok_def list_all_iff)
  then have "has_type ''string'' v" by (simp add: typed_by_def)
  then obtain s where "v = VStr s" by (cases v) auto
  with v show ?thesis by (simp add: arg_def)
qed

end
