(* ===== verification/MemoryTools.thy ===== *)
theory MemoryTools
  imports FactsSpec Registry Schema
begin

text \<open>
  The tools through which the model reaches long-term memory (tools/internals/memory\_tools.go), on the
  facts of fact.go and the knowledge graph, and the vector index behind the search (memory/longterm/index.go).
  A tool acts on the \<open>memory_state\<close>; \<open>memory_env\<close> holds the clock and the comparison functions of the facts,
  what the vector store answers, and the iteration order of the entities.  A nil slice of Go is the empty list.
\<close>

section \<open>The vector index (index.go)\<close>

record vector_entry =
  ve_doc_id :: string
  ve_document :: string
  ve_meta :: "(string \<times> val) list"

text \<open>The vector store as a table by document id; \<open>fmt_day\<close> is \<open>time.Format("2006-01-02")\<close>.\<close>

type_synonym vector_store = "(string \<times> vector_entry) list"

definition item_to_vector_entry :: "(int \<Rightarrow> string) \<Rightarrow> memory_item \<Rightarrow> vector_entry" where
  "item_to_vector_entry fmt_day f =
     \<lparr>ve_doc_id = ''mem:'' @ mi_section f @ '':'' @ mi_key f,
      ve_document = ''['' @ mi_section f @ ''] '' @ mi_key f @ '': '' @ mi_value f,
      ve_meta = [(''section'', VStr (mi_section f)), (''key'', VStr (mi_key f)), (''value'', VStr (mi_value f)),
                 (''version'', VInt (mi_version f)), (''confidence'', VFloat (mi_confidence f)),
                 (''updated_at'', VStr (fmt_day (mi_updated f)))]\<rparr>"

definition upsert_many :: "vector_entry list \<Rightarrow> vector_store \<Rightarrow> vector_store" where
  "upsert_many es vs = fold (\<lambda>e. AList.update (ve_doc_id e) e) es vs"

text \<open>\<open>Rebuild\<close>; \<open>None\<close> is an index that is not available.\<close>

definition index_rebuild :: "(int \<Rightarrow> string) \<Rightarrow> ltm \<Rightarrow> vector_store option \<Rightarrow> vector_store option" where
  "index_rebuild fmt_day s vs =
     (case vs of
        None \<Rightarrow> None
      | Some st \<Rightarrow>
          (let entries = map (item_to_vector_entry fmt_day) (lt_items s)
           in if entries = [] then Some st else Some (upsert_many entries st)))"

definition rebuild_if_stale :: "(int \<Rightarrow> string) \<Rightarrow> ltm \<Rightarrow> vector_store option \<Rightarrow> vector_store option" where
  "rebuild_if_stale fmt_day s vs = (case vs of None \<Rightarrow> None | Some st \<Rightarrow> index_rebuild fmt_day s vs)"

section \<open>The definitions\<close>

definition memory_store_definition :: tool_definition where
  "memory_store_definition =
     \<lparr>td_name = ''memory_store'',
      td_description = ''Store a fact in long-term memory (MEMORY.md).'',
      td_schema =
      [(''type'', VStr ''object''),
       (''properties'', VMap [
          (''section'', field ''string''
            (''Memory section. One of: user_preferences (user info/prefs), project_facts '' @
            ''(project-specific knowledge), episodic (session summaries), lessons (learned patterns), ''
            @ ''patterns (recurring observations).'')),
          (''key'', field ''string'' ''Unique key within the section for this fact.''),
          (''value'', field ''string'' ''The fact value to store.'')]),
       (''required'', VList [VStr ''section'', VStr ''key'', VStr ''value''])],
      td_output_schema =
      [(''type'', VStr ''object''),
       (''properties'', VMap [
          (''accepted'', field ''boolean''
            ''true if stored without conflict, false if conflict detected.''),
          (''section'', field ''string'' ''Section where the fact was stored.''),
          (''key'', field ''string'' ''Key of the stored or winning fact.''),
          (''value'', field ''string'' ''Value of the stored or winning fact.''),
          (''confidence'', field ''number'' ''Confidence score (0.0-1.0) of the stored fact.''),
          (''version'', field ''integer'' ''Version number of the fact.''),
          (''conflict'', field ''object''
            ''Conflict details if accepted=false: {old_value, rejected_value}.'')])],
      td_terminating = False\<rparr>"

definition memory_search_definition :: tool_definition where
  "memory_search_definition =
     \<lparr>td_name = ''memory_search'',
      td_description =
      (''Search long-term memory. Uses ChromaDB for semantic search; falls back to keyword search '' @
      ''on MEMORY.md.''),
      td_schema =
      [(''type'', VStr ''object''),
       (''properties'', VMap [
          (''query'', field ''string'' ''Search term or phrase. Supports natural language queries.''),
          (''mode'', field ''string'' (''Search mode: '' @ sq @ ''semantic'' @ sq @
            '' (vector similarity), '' @ sq @ ''bm25'' @ sq @ '' (keyword relevance), or '' @ sq @
            ''hybrid'' @ sq @ '' (both). Default: bm25.'')),
          (''section'', field ''string'' ''Optional: restrict search to a single memory section.'')])],
      td_output_schema =
      [(''type'', VStr ''object''),
       (''properties'', VMap [
          (''results'', field ''array''
            ''List of matching items: {section, key, value, confidence, version}.''),
          (''count'', field ''integer'' ''Number of results returned.'')])],
      td_terminating = False\<rparr>"

definition memory_get_section_definition :: tool_definition where
  "memory_get_section_definition =
     \<lparr>td_name = ''memory_get_section'',
      td_description = ''Get all items in a memory section.'',
      td_schema =
      [(''type'', VStr ''object''),
       (''properties'', VMap [
          (''section'', field ''string''
            ''Section name: user_preferences, project_facts, episodic, lessons, or patterns.'')]),
       (''required'', VList [VStr ''section''])],
      td_output_schema =
      [(''type'', VStr ''object''),
       (''properties'', VMap [
          (''entries'', field ''object''
            ''Map of key to {value, confidence, version} for all facts in the section.'')])],
      td_terminating = False\<rparr>"

definition memory_remove_definition :: tool_definition where
  "memory_remove_definition =
     \<lparr>td_name = ''memory_remove'',
      td_description = ''Permanently delete a fact from long-term memory.'',
      td_schema =
      [(''type'', VStr ''object''),
       (''properties'', VMap [
          (''section'', field ''string'' ''Section containing the fact to delete.''),
          (''key'', field ''string'' ''Key of the fact to delete.'')]),
       (''required'', VList [VStr ''section'', VStr ''key''])],
      td_output_schema =
      [(''type'', VStr ''object''),
       (''properties'', VMap [
          (''removed'', field ''boolean'' ''true if the fact was successfully deleted.'')])],
      td_terminating = False\<rparr>"

definition memory_list_sections_definition :: tool_definition where
  "memory_list_sections_definition =
     \<lparr>td_name = ''memory_list_sections'',
      td_description = ''List all memory sections with fact counts.'',
      td_schema =
      [(''type'', VStr ''object''),
       (''properties'', VMap [])],
      td_output_schema =
      [(''type'', VStr ''object''),
       (''properties'', VMap [
          (''sections'', field ''object''
            ''Map of section name to number of facts in that section.'')])],
      td_terminating = False\<rparr>"

definition memory_stats_definition :: tool_definition where
  "memory_stats_definition =
     \<lparr>td_name = ''memory_stats'',
      td_description = ''Get aggregate statistics about long-term memory.'',
      td_schema =
      [(''type'', VStr ''object''),
       (''properties'', VMap [])],
      td_output_schema =
      [(''type'', VStr ''object''),
       (''properties'', VMap [
          (''total_facts'', field ''integer'' ''Total number of facts across all sections.''),
          (''sections'', field ''integer'' ''Number of memory sections.''),
          (''avg_confidence'', field ''number'' ''Average confidence across all facts (0.0-1.0).''),
          (''indexed'', field ''boolean'' ''Whether ChromaDB vector index is available.'')])],
      td_terminating = False\<rparr>"

definition memory_extract_definition :: tool_definition where
  "memory_extract_definition =
     \<lparr>td_name = ''memory_extract'',
      td_description =
      (''Extract and store long-term memories from the current session. All memories are stored in '' @
      ''MEMORY.md; ChromaDB index is rebuilt automatically.''),
      td_schema =
      [(''type'', VStr ''object''),
       (''properties'', VMap [
          (''focus'', field ''string'' ''Optional extraction focus hint.'')])],
      td_output_schema =
      [(''type'', VStr ''object''),
       (''properties'', VMap [
          (''facts_extracted'', field ''integer'' ''Number of facts extracted from the session.''),
          (''facts_stored'', field ''integer''
            ''Number of facts successfully stored (including merged).''),
          (''facts_conflicts'', field ''integer''
            ''Number of facts with conflicting existing values.''),
          (''needs_human'', field ''integer'' ''Number of conflicts requiring human resolution.'')])],
      td_terminating = False\<rparr>"

section \<open>The tools\<close>

datatype search_mode = SearchHybrid | SearchBM25 | SearchSemantic

record memory_env =
  mv_ltm :: ltm_env
  mv_index :: "(string \<Rightarrow> search_mode \<Rightarrow> int \<Rightarrow> err + (string \<times> string) list) option"
  mv_order :: "graph \<Rightarrow> string list"

type_synonym memory_tool = "tool_call_detail \<Rightarrow> memory_state \<Rightarrow> memory_state \<times> tool_call_result"

definition item_map :: "memory_item \<Rightarrow> (string \<times> val) list" where
  "item_map f = [(''section'', VStr (mi_section f)), (''key'', VStr (mi_key f)), (''value'', VStr (mi_value f)),
     (''confidence'', VFloat (mi_confidence f)), (''version'', VInt (mi_version f))]"

definition memory_store_exec :: "memory_env \<Rightarrow> memory_tool" where
  "memory_store_exec env d s =
     (case required_string d ''section'' of
        Inl e \<Rightarrow> (s, error_result (tcd_id d) ''memory_store'' e)
      | Inr section \<Rightarrow>
     (case required_string d ''key'' of
        Inl e \<Rightarrow> (s, error_result (tcd_id d) ''memory_store'' e)
      | Inr key \<Rightarrow>
     (case required_string d ''value'' of
        Inl e \<Rightarrow> (s, error_result (tcd_id d) ''memory_store'' e)
      | Inr value \<Rightarrow>
          (let (l, winner, conflict) = store_fact (mv_ltm env) section key value (me_ltm s);
               result = [(''accepted'', VBool (conflict = None)), (''section'', VStr (mi_section winner)),
                 (''key'', VStr (mi_key winner)), (''value'', VStr (mi_value winner)),
                 (''confidence'', VFloat (mi_confidence winner)), (''version'', VInt (mi_version winner))];
               more = (case conflict of None \<Rightarrow> []
                 | Some c \<Rightarrow> [(''conflict'', VMap [(''old_value'', VStr (mi_value c)), (''accepted'', VBool False),
                     (''rejected_value'', VStr value)])])
           in (s\<lparr>me_ltm := l\<rparr>, success_result (tcd_id d) ''memory_store'' (result @ more))))))"

definition search_mode_of :: "string \<Rightarrow> search_mode" where
  "search_mode_of m = (if m = ''semantic'' then SearchSemantic else if m = ''hybrid'' then SearchHybrid else SearchBM25)"

text \<open>The relationships of the entities found, each once, in the order in which the loop meets them.\<close>

definition graph_rels :: "graph \<Rightarrow> entity list \<Rightarrow> relationship list" where
  "graph_rels g es =
     fold (\<lambda>r acc. if rl_id r \<notin> rl_id ` set acc \<and> (rl_from r \<in> en_id ` set es \<or> rl_to r \<in> en_id ` set es)
                   then acc @ [r] else acc)
       (concat (map (\<lambda>e. snd (neighbors g (en_id e))) es)) []"

definition entity_map :: "entity \<Rightarrow> val" where
  "entity_map e = VMap [(''id'', VStr (en_id e)), (''name'', VStr (en_name e)), (''type'', VStr (en_type e)),
     (''labels'', VList (map VStr (en_labels e)))]"

definition rel_map :: "relationship \<Rightarrow> val" where
  "rel_map r = VMap [(''id'', VStr (rl_id r)), (''from'', VStr (rl_from r)), (''to'', VStr (rl_to r)),
     (''type'', VStr (rl_type r)), (''weight'', VFloat (rl_weight r))]"

definition graph_output :: "memory_env \<Rightarrow> string \<Rightarrow> tool_call_detail \<Rightarrow> memory_state \<Rightarrow> (string \<times> val) list" where
  "graph_output env query d s =
     (case (get_arg d ''needGraph'', me_graph s) of
        (Some (VBool True), Some g) \<Rightarrow>
          (let es = search_entities (le_lower (mv_ltm env)) (mv_order env g) query 10 g
           in [(''graph'', VMap [(''entities'', VList (map entity_map es)),
                                 (''relationships'', VList (map rel_map (graph_rels g es)))])])
      | _ \<Rightarrow> [])"

definition memory_search_exec :: "memory_env \<Rightarrow> memory_tool" where
  "memory_search_exec env d s =
     (let query = optional_string d ''query''; m = optional_string d ''mode'' in
      case (if m \<noteq> [] then one_of m [''semantic'', ''bm25'', ''hybrid''] else None) of
        Some e \<Rightarrow> (s, error_result (tcd_id d) ''memory_search'' e)
      | None \<Rightarrow>
          (let items = index_search (mv_ltm env)
                 (map_option (\<lambda>search. search query (search_mode_of m) 10) (mv_index env)) query (me_ltm s)
           in (s, success_result (tcd_id d) ''memory_search''
                ([(''results'', VList (map (VMap \<circ> item_map) items)), (''count'', VInt (int (length items)))]
                 @ graph_output env query d s))))"

definition memory_get_section_exec :: "memory_env \<Rightarrow> memory_tool" where
  "memory_get_section_exec env d s =
     (case required_string d ''section'' of
        Inl e \<Rightarrow> (s, error_result (tcd_id d) ''memory_get_section'' e)
      | Inr section \<Rightarrow>
          (s, success_result (tcd_id d) ''memory_get_section''
            [(''entries'', VMap (fold (\<lambda>f. AList.update (mi_key f)
                (VMap [(''value'', VStr (mi_value f)), (''confidence'', VFloat (mi_confidence f)),
                       (''version'', VInt (mi_version f))]))
              (get_section (mv_ltm env) section (me_ltm s)) []))]))"

definition memory_remove_exec :: "memory_env \<Rightarrow> memory_tool" where
  "memory_remove_exec env d s =
     (case required_string d ''section'' of
        Inl e \<Rightarrow> (s, error_result (tcd_id d) ''memory_remove'' e)
      | Inr section \<Rightarrow>
     (case required_string d ''key'' of
        Inl e \<Rightarrow> (s, error_result (tcd_id d) ''memory_remove'' e)
      | Inr key \<Rightarrow>
          (case remove_fact (mv_ltm env) section key (me_ltm s) of
             (l, Some e) \<Rightarrow> (s\<lparr>me_ltm := l\<rparr>, error_result (tcd_id d) ''memory_remove'' e)
           | (l, None) \<Rightarrow> (s\<lparr>me_ltm := l\<rparr>,
               success_result (tcd_id d) ''memory_remove'' [(''removed'', VBool True)]))))"

definition memory_list_sections_exec :: "memory_env \<Rightarrow> memory_tool" where
  "memory_list_sections_exec env d s =
     (s, success_result (tcd_id d) ''memory_list_sections''
       [(''sections'', VMap (map (\<lambda>(k, n). (k, VInt (int n))) (list_sections (me_ltm s))))])"

definition memory_stats_exec :: "memory_env \<Rightarrow> memory_tool" where
  "memory_stats_exec env d s =
     (case ltm_stats (mv_ltm env) (me_ltm s) of
        (items, sections, avg) \<Rightarrow>
          (s, success_result (tcd_id d) ''memory_stats''
            [(''total_facts'', VInt (int items)), (''sections'', VInt (int sections)),
             (''avg_confidence'', VFloat avg), (''indexed'', VBool (mv_index env \<noteq> None))]))"

text \<open>\<open>pe\<close> is the pipeline with what the model answers for the bound conversation, \<open>None\<close> before
  \<open>BindMemoryExtractInput\<close>.  No code sets the two counts of conflicts.\<close>

definition memory_extract_exec :: "pipe_env option \<Rightarrow> memory_tool" where
  "memory_extract_exec pe d s =
     (case pe of
        None \<Rightarrow> (s, error_result (tcd_id d) ''memory_extract'' (ErrOther ''extraction context not configured''))
      | Some pe \<Rightarrow>
          (case write_run pe (me_ltm s) (me_graph s) of
             (p, Some e) \<Rightarrow> (\<lparr>me_ltm = ps_ltm p, me_graph = ps_graph p\<rparr>, error_result (tcd_id d) ''memory_extract'' e)
           | (p, None) \<Rightarrow>
               (\<lparr>me_ltm = ps_ltm p, me_graph = ps_graph p\<rparr>,
                success_result (tcd_id d) ''memory_extract''
                  [(''facts_extracted'', VInt (int (pr_extracted (ps_result p)))),
                   (''facts_stored'', VInt (int (pr_stored (ps_result p)))),
                   (''facts_conflicts'', VInt 0), (''needs_human'', VInt 0)])))"

definition memory_tools :: "memory_env \<Rightarrow> pipe_env option \<Rightarrow> (tool_definition \<times> memory_state tool_fn) list" where
  "memory_tools env pe =
     [(memory_store_definition, \<lambda>_. memory_store_exec env), (memory_search_definition, \<lambda>_. memory_search_exec env),
      (memory_get_section_definition, \<lambda>_. memory_get_section_exec env),
      (memory_remove_definition, \<lambda>_. memory_remove_exec env),
      (memory_list_sections_definition, \<lambda>_. memory_list_sections_exec env),
      (memory_stats_definition, \<lambda>_. memory_stats_exec env), (memory_extract_definition, \<lambda>_. memory_extract_exec pe)]"

definition register_memory_tools :: "memory_env \<Rightarrow> pipe_env option \<Rightarrow> memory_state registry \<Rightarrow> memory_state registry" where
  "register_memory_tools env pe tr =
     (let ts = memory_tools env pe in mark_as_internal (map (td_name \<circ> fst) ts) (register_all ts tr))"

section \<open>Typing\<close>

lemmas memory_definitions = memory_store_definition_def memory_search_definition_def
  memory_get_section_definition_def memory_remove_definition_def memory_list_sections_definition_def
  memory_stats_definition_def memory_extract_definition_def

lemmas memory_execs = memory_store_exec_def memory_search_exec_def memory_get_section_exec_def
  memory_remove_exec_def memory_list_sections_exec_def memory_stats_exec_def memory_extract_exec_def

lemma store_typed: "well_typed memory_store_definition d (snd (memory_store_exec env d s))"
  by (auto simp: memory_store_exec_def memory_store_definition_def schema_simps Let_def
      intro!: well_typed_success split: sum.splits prod.splits option.splits)

lemma search_typed: "well_typed memory_search_definition d (snd (memory_search_exec env d s))"
  by (auto simp: memory_search_exec_def memory_search_definition_def schema_simps Let_def
      intro!: well_typed_success split: option.splits)

lemma get_section_typed: "well_typed memory_get_section_definition d (snd (memory_get_section_exec env d s))"
  by (auto simp: memory_get_section_exec_def memory_get_section_definition_def schema_simps
      intro!: well_typed_success split: sum.splits)

lemma remove_typed: "well_typed memory_remove_definition d (snd (memory_remove_exec env d s))"
  by (auto simp: memory_remove_exec_def memory_remove_definition_def schema_simps
      intro!: well_typed_success split: sum.splits prod.splits option.splits)

lemma list_sections_typed: "well_typed memory_list_sections_definition d (snd (memory_list_sections_exec env d s))"
  by (auto simp: memory_list_sections_exec_def memory_list_sections_definition_def schema_simps
      intro!: well_typed_success)

lemma stats_typed: "well_typed memory_stats_definition d (snd (memory_stats_exec env d s))"
  by (auto simp: memory_stats_exec_def memory_stats_definition_def schema_simps
      intro!: well_typed_success split: prod.splits)

lemma extract_typed: "well_typed memory_extract_definition d (snd (memory_extract_exec pe d s))"
  by (auto simp: memory_extract_exec_def memory_extract_definition_def schema_simps
      intro!: well_typed_success split: option.splits prod.splits)

lemma memory_tools_typed: "(def, f) \<in> set (memory_tools env pe) \<Longrightarrow> well_typed def d (snd (f sid d s))"
  by (auto simp: memory_tools_def store_typed search_typed get_section_typed remove_typed list_sections_typed
      stats_typed extract_typed)

text \<open>The outputs are the declared ones, but for the graph that \<open>memory_search\<close> adds on an argument its schema
  does not mention.\<close>

definition only_declared :: "tool_definition \<Rightarrow> tool_call_result \<Rightarrow> bool" where
  "only_declared def r \<longleftrightarrow> is_error r \<or> outputs_declared def r"

lemma only_declared_simps [simp]:
  "only_declared def (error_result i t e)"
  "only_declared def (success_result i t outs) \<longleftrightarrow>
     map_of outs ''error'' \<noteq> None \<or> list_all (\<lambda>(k, _). map_of (declared (td_output_schema def)) k \<noteq> None) outs"
  by (simp_all add: only_declared_def outputs_declared_def)

lemma search_declared:
  assumes "get_arg d ''needGraph'' \<noteq> Some (VBool True)"
  shows "only_declared memory_search_definition (snd (memory_search_exec env d s))"
proof -
  have "graph_output env q d s = []" for q
    using assms by (auto simp: graph_output_def split: option.splits val.splits bool.splits)
  then show ?thesis
    by (simp add: memory_search_exec_def memory_search_definition_def declared_def Let_def split: option.splits)
qed

lemma other_declared:
  "only_declared memory_store_definition (snd (memory_store_exec env d s))"
  "only_declared memory_get_section_definition (snd (memory_get_section_exec env d s))"
  "only_declared memory_remove_definition (snd (memory_remove_exec env d s))"
  "only_declared memory_list_sections_definition (snd (memory_list_sections_exec env d s))"
  "only_declared memory_stats_definition (snd (memory_stats_exec env d s))"
  "only_declared memory_extract_definition (snd (memory_extract_exec pe d s))"
  by (simp_all add: memory_execs memory_definitions declared_def Let_def
      split: sum.splits prod.splits option.splits)

lemma memory_tools_declared:
  "(def, f) \<in> set (memory_tools env pe) \<Longrightarrow> get_arg d ''needGraph'' \<noteq> Some (VBool True) \<Longrightarrow>
   only_declared def (snd (f sid d s))"
  by (auto simp: memory_tools_def search_declared other_declared)

section \<open>The memory stays reachable\<close>

lemma write_run_ltm: "ps_ltm (fst (write_run pe l g)) = l \<or> (\<exists>fs. ps_ltm (fst (write_run pe l g)) = fst (bulk_store (pe_ltm pe) fs l))"
proof -
  have ex: "extract_step pe p = (p1, e1) \<Longrightarrow> ps_ltm p1 = ps_ltm p" for p p1 e1
    by (auto simp: extract_step_def Let_def split: sum.splits prod.splits)
  have st: "store_step pe p = (p1, e1) \<Longrightarrow> ps_ltm p1 = ps_ltm p \<or> (\<exists>fs. ps_ltm p1 = fst (bulk_store (pe_ltm pe) fs (ps_ltm p)))" for p p1 e1
    by (auto simp: store_step_def split: if_splits prod.splits option.splits) (metis fst_conv)+
  have gr: "graph_update pe p = (p1, e1) \<Longrightarrow> ps_ltm p1 = ps_ltm p" for p p1 e1
    by (auto simp: graph_update_def Let_def split: option.splits if_splits)
  show ?thesis
    by (auto simp: write_run_def resolve_step_def dedup_step_def dest!: ex st gr split: prod.splits option.splits)
qed

text \<open>The batch of an extraction changes the graph by its steps, when its ids are new.\<close>

definition new_ids :: "pipe_env \<Rightarrow> graph \<Rightarrow> bool" where
  "new_ids pe g \<longleftrightarrow> inj (pe_sid pe) \<and> (\<forall>i. get_entity g (''ent:'' @ pe_sid pe i) = None) \<and> (\<forall>g. set (pe_order pe g) = keys g)"

lemma keys_put [simp]: "keys (put_entity i e g) = insert i (keys g)"
  by (simp add: put_entity_def dom_update)

lemma get_entity_None: "get_entity g i = None \<longleftrightarrow> i \<notin> keys g"
  using get_entity_keys [of g i] by blast

lemma upsert_keys: "keys (fst (upsert_entity ef ids sid c g)) \<subseteq> insert (''ent:'' @ sid) (keys g)"
proof (cases "find_entity (\<lambda>x. ef (en_name x) (ec_name c) \<and> ef (en_type x) (ec_type c)) ids g")
  case None
  then show ?thesis by (simp add: upsert_entity_def Let_def)
next
  case (Some p)
  obtain i x where p: "p = (i, x)" by fastforce
  from Some have "get_entity g i \<noteq> None" using find_entity_Some [of _ ids g i x] by (simp add: p)
  then have "i \<in> keys g" by (simp only: get_entity_keys)
  then have "keys (fst (upsert_entity ef ids sid c g)) = keys g"
    using Some by (simp add: p upsert_entity_def Let_def insert_absorb)
  then show ?thesis by blast
qed

lemma entities_steps:
  assumes "\<And>g. set (ord g) = keys g"
  shows "distinct (map fst es) \<Longrightarrow> \<forall>sid \<in> fst ` set es. ''ent:'' @ sid \<notin> keys g \<Longrightarrow>
    (graph_step ef)\<^sup>*\<^sup>* g (fold (\<lambda>(sid, c) g. fst (upsert_entity ef (ord g) sid c g)) es g)"
proof (induction es arbitrary: g)
  case (Cons p es)
  obtain sid c where p: "p = (sid, c)" by fastforce
  let ?g = "fst (upsert_entity ef (ord g) sid c g)"
  have "get_entity g (''ent:'' @ sid) = None" unfolding get_entity_None by (rule bspec [OF Cons.prems(2)]) (simp add: p)
  then have step: "graph_step ef g ?g" by (rule graph_step.upsert [OF assms])
  have "\<forall>sid' \<in> fst ` set es. ''ent:'' @ sid' \<notin> keys ?g"
  proof
    fix sid' assume s: "sid' \<in> fst ` set es"
    then have "sid' \<noteq> sid" using Cons.prems(1) by (auto simp: p)
    moreover have "''ent:'' @ sid' \<notin> keys g" by (rule bspec [OF Cons.prems(2)]) (use s in simp)
    ultimately show "''ent:'' @ sid' \<notin> keys ?g" using upsert_keys [of ef "ord g" sid c g] by blast
  qed
  moreover have "distinct (map fst es)" using Cons.prems(1) by simp
  ultimately have "(graph_step ef)\<^sup>*\<^sup>* ?g (fold (\<lambda>(sid, c) g. fst (upsert_entity ef (ord g) sid c g)) es ?g)"
    by (intro Cons.IH)
  with step show ?case by (simp add: p converse_rtranclp_into_rtranclp)
qed simp

lemma relations_steps:
  assumes "\<And>g. set (ord g) = keys g"
  shows "(graph_step ef)\<^sup>*\<^sup>* g (fold (\<lambda>(sid, c) g. add_relationship ef (ord g) (ord g) sid c g) rs g)"
proof (induction rs arbitrary: g)
  case (Cons p rs)
  have "graph_step ef g (add_relationship ef (ord g) (ord g) (fst p) (snd p) g)"
    by (rule graph_step.relate [OF assms assms])
  with Cons [of "add_relationship ef (ord g) (ord g) (fst p) (snd p) g"] show ?case
    by (auto simp: split_beta intro: converse_rtranclp_into_rtranclp)
qed simp

lemma write_run_graph:
  assumes "\<And>g0. g = Some g0 \<Longrightarrow> new_ids pe g0"
  shows "ps_graph (fst (write_run pe l g)) = g \<or>
    (\<exists>g0 g1. g = Some g0 \<and> ps_graph (fst (write_run pe l g)) = Some g1 \<and> (graph_step (pe_fold pe))\<^sup>*\<^sup>* g0 g1)"
proof -
  have ex: "extract_step pe p = (p1, e1) \<Longrightarrow> ps_graph p1 = ps_graph p" for p p1 e1
    by (auto simp: extract_step_def Let_def split: sum.splits prod.splits)
  have st: "store_step pe p = (p1, e1) \<Longrightarrow> ps_graph p1 = ps_graph p" for p p1 e1
    by (auto simp: store_step_def split: if_splits prod.splits option.splits)
  have gr: "ps_graph p1 = g \<or> (\<exists>g0 g1. g = Some g0 \<and> ps_graph p1 = Some g1 \<and> (graph_step (pe_fold pe))\<^sup>*\<^sup>* g0 g1)"
    if u: "graph_update pe p = (p1, e1)" and p: "ps_graph p = g" for p p1 e1
  proof (cases "g = None \<or> ps_entities p = [] \<and> ps_rels p = []")
    case True
    with u p show ?thesis by (auto simp: graph_update_def split: option.splits)
  next
    case False
    then obtain g0 where g: "g = Some g0" by (cases g) auto
    let ?n = "length (ps_entities p)"
    let ?es = "map (\<lambda>i. (pe_sid pe i, ps_entities p ! i)) [0..<?n]"
    let ?rs = "map (\<lambda>i. (pe_sid pe (?n + i), ps_rels p ! i)) [0..<length (ps_rels p)]"
    note n = assms [OF g, unfolded new_ids_def]
    from n have ord: "\<And>g. set (pe_order pe g) = keys g" by blast
    from n have "inj_on (pe_sid pe) {0..<?n}" by (blast intro: inj_on_subset)
    then have "distinct (map fst ?es)" by (simp add: distinct_map o_def)
    moreover have "\<forall>sid \<in> fst ` set ?es. ''ent:'' @ sid \<notin> keys g0"
    proof
      fix sid assume "sid \<in> fst ` set ?es"
      then obtain i where "sid = pe_sid pe i" by auto
      moreover from n have "\<forall>i. ''ent:'' @ pe_sid pe i \<notin> keys g0" unfolding get_entity_None by blast
      ultimately show "''ent:'' @ sid \<notin> keys g0" by blast
    qed
    ultimately have 1: "(graph_step (pe_fold pe))\<^sup>*\<^sup>* g0
        (fold (\<lambda>(sid, c) g. fst (upsert_entity (pe_fold pe) (pe_order pe g) sid c g)) ?es g0)"
      by (rule entities_steps [OF ord])
    note 2 = relations_steps [OF ord, of "pe_fold pe" "fold (\<lambda>(sid, c) g. fst (upsert_entity (pe_fold pe) (pe_order pe g) sid c g)) ?es g0" ?rs]
    from False u p g have "ps_graph p1 = Some (fst (upsert_relationships (pe_fold pe) (pe_order pe) ?es ?rs g0))"
      by (auto simp: graph_update_def Let_def)
    with rtranclp_trans [OF 1 2] g show ?thesis by (simp add: upsert_relationships_def Let_def)
  qed
  show ?thesis
    by (auto simp: write_run_def resolve_step_def dedup_step_def dest!: ex st dest: gr split: prod.splits option.splits)
qed

lemma memory_tools_ltm:
  assumes "(def, f) \<in> set (memory_tools env pe)" and "le_lower (mv_ltm env) = lower"
    and "\<And>sec. stable (mv_ltm env) sec" and "\<And>p. pe = Some p \<Longrightarrow> le_lower (pe_ltm p) = lower"
  shows "(ltm_step lower)\<^sup>*\<^sup>* (me_ltm s) (me_ltm (fst (f sid d s)))"
proof -
  have store: "(ltm_step lower)\<^sup>*\<^sup>* (me_ltm s) (me_ltm (fst (memory_store_exec env d s)))"
    using ltm_step.store [OF assms(2,3), of "me_ltm s"]
    by (auto simp: memory_store_exec_def Let_def split: sum.splits prod.splits) (metis fst_conv r_into_rtranclp)
  have remove: "(ltm_step lower)\<^sup>*\<^sup>* (me_ltm s) (me_ltm (fst (memory_remove_exec env d s)))"
    using ltm_step.remove [OF assms(2), of "me_ltm s"]
    by (auto simp: memory_remove_exec_def split: sum.splits prod.splits option.splits) (metis fst_conv r_into_rtranclp)+
  have extr: "(ltm_step lower)\<^sup>*\<^sup>* (me_ltm s) (me_ltm (fst (memory_extract_exec pe d s)))"
  proof (cases pe)
    case (Some p)
    have "(ltm_step lower)\<^sup>*\<^sup>* l (ps_ltm (fst (write_run p l g)))" for l g
      using write_run_ltm [of p l g] ltm_step.bulk [OF assms(4) [OF Some], of l] by (auto intro: r_into_rtranclp)
    from this [of "me_ltm s" "me_graph s"] show ?thesis
      by (cases "write_run p (me_ltm s) (me_graph s)") (simp add: memory_extract_exec_def Some split: option.splits)
  qed (simp add: memory_extract_exec_def)
  have same: "fst (memory_search_exec env d s) = s" "fst (memory_get_section_exec env d s) = s"
    "fst (memory_list_sections_exec env d s) = s" "fst (memory_stats_exec env d s) = s"
    by (simp_all add: memory_execs Let_def split: option.splits sum.splits prod.splits)
  from assms(1) store remove extr same show ?thesis by (auto simp: memory_tools_def)
qed

lemma memory_tools_graph:
  assumes "(def, f) \<in> set (memory_tools env pe)"
    and "\<And>p g0. pe = Some p \<Longrightarrow> me_graph s = Some g0 \<Longrightarrow> new_ids p g0 \<and> pe_fold p = ef"
  shows "me_graph (fst (f sid d s)) = me_graph s \<or>
    (\<exists>g0 g1. me_graph s = Some g0 \<and> me_graph (fst (f sid d s)) = Some g1 \<and> (graph_step ef)\<^sup>*\<^sup>* g0 g1)"
proof -
  have extr: "me_graph (fst (memory_extract_exec pe d s)) = me_graph s \<or>
    (\<exists>g0 g1. me_graph s = Some g0 \<and> me_graph (fst (memory_extract_exec pe d s)) = Some g1 \<and> (graph_step ef)\<^sup>*\<^sup>* g0 g1)"
  proof (cases pe)
    case (Some p)
    with assms(2) write_run_graph [of "me_graph s" p "me_ltm s"] show ?thesis
      by (cases "write_run p (me_ltm s) (me_graph s)")
        (fastforce simp: memory_extract_exec_def split: option.splits)
  qed (simp add: memory_extract_exec_def)
  have same: "me_graph (fst (memory_store_exec env d s)) = me_graph s" "me_graph (fst (memory_remove_exec env d s)) = me_graph s"
    "fst (memory_search_exec env d s) = s" "fst (memory_get_section_exec env d s) = s"
    "fst (memory_list_sections_exec env d s) = s" "fst (memory_stats_exec env d s) = s"
    by (simp_all add: memory_execs Let_def split: option.splits sum.splits prod.splits)
  from assms(1) extr same show ?thesis by (auto simp: memory_tools_def)
qed

section \<open>What the tools show of the memory\<close>

lemma fold_update_find:
  "map_of (fold (\<lambda>f. AList.update (k f) (v f)) fs m) x =
     (case List.find (\<lambda>f. k f = x) (rev fs) of None \<Rightarrow> map_of m x | Some f \<Rightarrow> Some (v f))"
proof (induction fs rule: rev_induct)
  case (snoc f fs)
  then show ?case by (auto simp: update_conv')
qed simp

text \<open>The entries of a section, by key, are the facts that the index has under this section.\<close>

definition entry_value :: "memory_item \<Rightarrow> val" where
  "entry_value f = VMap [(''value'', VStr (mi_value f)), (''confidence'', VFloat (mi_confidence f)),
     (''version'', VInt (mi_version f))]"

definition section_entries :: "ltm_env \<Rightarrow> string \<Rightarrow> ltm \<Rightarrow> (string \<times> val) list" where
  "section_entries env section s =
     fold (\<lambda>f. AList.update (mi_key f) (entry_value f)) (get_section env section s) []"

lemma get_section_exec_entries:
  "required_string d ''section'' = Inr section \<Longrightarrow> memory_get_section_exec env d s =
     (s, success_result (tcd_id d) ''memory_get_section''
       [(''entries'', VMap (section_entries (mv_ltm env) section (me_ltm s)))])"
  by (simp add: memory_get_section_exec_def section_entries_def entry_value_def)

lemma decay_keeps [simp]:
  "mi_key (decay_confidence env f) = mi_key f" "mi_value (decay_confidence env f) = mi_value f"
  "mi_version (decay_confidence env f) = mi_version f" "mi_section (decay_confidence env f) = mi_section f"
  by (simp_all add: decay_confidence_def Let_def)

lemma index_key_inj:
  assumes "CHR 0x00 \<notin> set (normalize env a)" "CHR 0x00 \<notin> set (normalize env b)"
  shows "index_key env a k = index_key env b l \<longleftrightarrow> normalize env a = normalize env b \<and> k = l"
proof -
  have "xs @ c # k = ys @ c # l \<longleftrightarrow> xs = ys \<and> k = l" if "c \<notin> set xs" "c \<notin> set ys" for xs ys and c :: char
    using that by (induction xs arbitrary: ys) (case_tac ys; auto)+
  with assms show ?thesis by (simp add: index_key_def)
qed

lemma section_entries_fact:
  assumes ok: "ltm_ok env s" and nul: "\<And>f. f \<in> set (lt_items s) \<Longrightarrow> CHR 0x00 \<notin> set (normalize env (mi_section f))"
    "CHR 0x00 \<notin> set (normalize env sec)"
  shows "map_of (section_entries env sec s) key =
    map_option (entry_value \<circ> decay_confidence env) (fact_at s (index_key env sec key))"
proof -
  let ?P = "\<lambda>f. mi_key f = key"
  have iff: "normalize env (mi_section f) = normalize env sec \<and> mi_key f = key \<longleftrightarrow> item_key env f = index_key env sec key"
    if "f \<in> set (lt_items s)" for f
    using index_key_inj [OF nul(1) [OF that] nul(2)] by (simp add: item_key_def)
  show ?thesis
  proof (cases "List.find ?P (rev (get_section env sec s))")
    case None
    have "fact_at s (index_key env sec key) = None"
    proof (rule ccontr)
      assume "fact_at s (index_key env sec key) \<noteq> None"
      then obtain f where f: "f \<in> set (lt_items s)" "item_key env f = index_key env sec key"
        using fact_at_iff [OF ok] by auto
      with iff [OF f(1)] have "decay_confidence env f \<in> set (get_section env sec s)" by (auto simp: get_section_def)
      with None have "mi_key (decay_confidence env f) \<noteq> key" unfolding find_None_iff by auto
      with f iff [OF f(1)] show False by simp
    qed
    with None show ?thesis by (simp add: section_entries_def fold_update_find)
  next
    case (Some g)
    then have "g \<in> set (rev (get_section env sec s))" "mi_key g = key"
      unfolding find_Some_iff by (metis nth_mem, blast)
    then obtain f where f: "f \<in> set (lt_items s)" "normalize env (mi_section f) = normalize env sec" "g = decay_confidence env f"
      by (auto simp: get_section_def)
    with \<open>mi_key g = key\<close> iff [OF f(1)] have "fact_at s (index_key env sec key) = Some f"
      by (simp add: fact_at_iff [OF ok])
    with Some f show ?thesis by (simp add: section_entries_def fold_update_find)
  qed
qed

definition nul_free :: "ltm_env \<Rightarrow> ltm \<Rightarrow> bool" where
  "nul_free env s \<longleftrightarrow> (\<forall>f \<in> set (lt_items s). CHR 0x00 \<notin> set (normalize env (mi_section f)))"

lemma nul_free_at: "ltm_ok env s \<Longrightarrow> nul_free env s \<longleftrightarrow>
    (\<forall>k f. fact_at s k = Some f \<longrightarrow> CHR 0x00 \<notin> set (normalize env (mi_section f)))"
  by (auto simp: nul_free_def fact_at_iff)

lemma store_fact_nul_free:
  assumes "ltm_ok env s" "stable env sec" "nul_free env s" "CHR 0x00 \<notin> set (normalize env sec)"
    and st: "store_fact env sec key value s = (l, w, c)"
  shows "nul_free env l"
proof -
  have w: "CHR 0x00 \<notin> set (normalize env (mi_section w))"
  proof (cases "map_of (lt_index s) (index_key env sec key)")
    case None
    with st assms(2,4) show ?thesis by (auto simp: store_fact_def Let_def stable_def)
  next
    case (Some i)
    with ltm_okD [OF assms(1) Some] assms(3) have "CHR 0x00 \<notin> set (normalize env (mi_section (lt_items s ! i)))"
      by (auto simp: nul_free_def)
    with Some st assms(2,4) show ?thesis
      by (auto simp: store_fact_def Let_def stable_def split: if_splits)
  qed
  from store_fact_put [OF assms(1,2) st]
  have "l = fst (write_ltm env (put_fact env w s)) \<or> l = s" by blast
  moreover have "nul_free env (put_fact env w s)"
    using w assms(1,3) by (auto simp: nul_free_at put_fact_ok put_fact_at)
  ultimately show ?thesis using assms(3) by (auto simp: nul_free_def)
qed

lemma remove_fact_nul_free:
  "ltm_ok env s \<Longrightarrow> nul_free env s \<Longrightarrow> nul_free env (fst (remove_fact env sec key s)) \<and>
   ltm_ok env (fst (remove_fact env sec key s)) \<and>
   fact_at (fst (remove_fact env sec key s)) x = (if x = index_key env sec key then None else fact_at s x)"
proof (cases "map_of (lt_index s) (index_key env sec key)")
  case None
  moreover assume "ltm_ok env s" "nul_free env s"
  ultimately show ?thesis by (simp add: remove_fact_def fact_at_def)
next
  case (Some i)
  assume ok: "ltm_ok env s" "nul_free env s"
  note rm = remove_fact_exact [OF ok(1) Some]
  with ok have "nul_free env (fst (remove_fact env sec key s))" by (simp add: nul_free_at)
  with rm show ?thesis by blast
qed

section \<open>Properties\<close>

text \<open>A concrete memory without a vector store, and a call that stores a fact.\<close>

definition demo_menv :: memory_env where
  "demo_menv = \<lparr>mv_ltm = demo_lenv, mv_index = None, mv_order = (\<lambda>g. map fst (gr_entities g))\<rparr>"

definition demo_memory :: memory_state where
  "demo_memory = \<lparr>me_ltm = demo_ltm, me_graph = None\<rparr>"

definition demo_call :: tool_call_detail where
  "demo_call = \<lparr>tcd_id = ''1'', tcd_name = ''memory_store'',
     tcd_args = [(''section'', VStr ''s''), (''key'', VStr ''c''), (''value'', VStr ''nano'')]\<rparr>"

lemma demo_menv_ltm [simp]: "mv_ltm demo_menv = demo_lenv" "me_ltm demo_memory = demo_ltm" "me_graph demo_memory = None"
  by (simp_all add: demo_menv_def demo_memory_def)

lemma demo_tool: "(memory_store_definition, \<lambda>_. memory_store_exec demo_menv) \<in> set (memory_tools demo_menv None)"
  by (simp add: memory_tools_def)

text \<open>Whatever the model passes to a memory tool, the memory stays one that \<open>Store\<close>, \<open>BulkStore\<close> and \<open>Remove\<close> can
  reach from a loaded file, and the knowledge graph one that its own operations can reach; so the index stays
  exact and every edge joins known entities.\<close>

theorem memory_tools_keep_memory:
  assumes "(def, f) \<in> set (memory_tools env pe)"
    and "ltm_reachable (le_lower (mv_ltm env)) (me_ltm s)" and "\<forall>sec. stable (mv_ltm env) sec"
    and "\<forall>p. pe = Some p \<longrightarrow> le_lower (pe_ltm p) = le_lower (mv_ltm env) \<and> pe_fold p = ef"
    and "\<forall>g. me_graph s = Some g \<longrightarrow> (graph_step ef)\<^sup>*\<^sup>* new_graph g \<and> (\<forall>p. pe = Some p \<longrightarrow> new_ids p g)"
  shows "ltm_reachable (le_lower (mv_ltm env)) (me_ltm (fst (f sid d s))) \<and>
    (\<forall>g. me_graph (fst (f sid d s)) = Some g \<longrightarrow> (graph_step ef)\<^sup>*\<^sup>* new_graph g)"
proof -
  have "(ltm_step (le_lower (mv_ltm env)))\<^sup>*\<^sup>* (me_ltm s) (me_ltm (fst (f sid d s)))"
    by (rule memory_tools_ltm [OF assms(1) refl]) (use assms(3,4) in auto)
  with assms(2) have ltm: "ltm_reachable (le_lower (mv_ltm env)) (me_ltm (fst (f sid d s)))"
    unfolding ltm_reachable_def by (meson rtranclp_trans)
  have "me_graph (fst (f sid d s)) = me_graph s \<or>
    (\<exists>g0 g1. me_graph s = Some g0 \<and> me_graph (fst (f sid d s)) = Some g1 \<and> (graph_step ef)\<^sup>*\<^sup>* g0 g1)"
    by (rule memory_tools_graph [OF assms(1)]) (use assms(4,5) in auto)
  then have "(graph_step ef)\<^sup>*\<^sup>* new_graph g" if "me_graph (fst (f sid d s)) = Some g" for g
    using that assms(5) by (auto intro: rtranclp_trans)
  with ltm show ?thesis by blast
qed

text \<open>What the model stores it can read back: after a call of \<open>memory_store\<close> that succeeds, the section lists under
  the key the value and version that the call has reported, and every other key of the section as before;
  after \<open>memory_remove\<close> the key is gone and nothing else has changed.\<close>

theorem memory_store_read_back:
  assumes "ltm_reachable (le_lower (mv_ltm env)) (me_ltm s)" and "stable (mv_ltm env) sec"
    and "required_string d ''section'' = Inr sec" and "required_string d ''key'' = Inr key"
    and "required_string d ''value'' = Inr value"
    and "nul_free (mv_ltm env) (me_ltm s)" and "CHR 0x00 \<notin> set (normalize (mv_ltm env) sec)"
  shows "let entries = (\<lambda>t. map_of (section_entries (mv_ltm env) sec (me_ltm t)));
      (s1, r) = memory_store_exec env d s; s2 = fst (memory_remove_exec env d s1) in
    (\<exists>f. entries s1 key = Some (entry_value f) \<and>
       map_of (tcr_outputs r) ''value'' = Some (VStr (mi_value f)) \<and>
       map_of (tcr_outputs r) ''version'' = Some (VInt (mi_version f))) \<and>
    entries s2 key = None \<and>
    (\<forall>k. k \<noteq> key \<longrightarrow> entries s1 k = entries s k \<and> entries s2 k = entries s k)"
proof -
  let ?env = "mv_ltm env" and ?l = "me_ltm s"
  have ok: "ltm_ok ?env ?l" by (rule reachable_ltm_ok [OF assms(1)])
  obtain l w c where st: "store_fact ?env sec key value ?l = (l, w, c)" by (rule prod_cases3)
  note put = store_fact_put [OF ok assms(2) st]
  have ok1: "ltm_ok ?env l" using store_fact_ok [OF ok assms(2), of key "value"] st by simp
  have free: "nul_free ?env l" by (rule store_fact_nul_free [OF ok assms(2,6,7) st])
  have w: "item_key ?env w = index_key ?env sec key" using put by simp
  have at1: "fact_at l k = (if k = index_key ?env sec key then Some w else fact_at ?l k)" for k
    using put put_fact_at [OF ok, of w k] by auto
  let ?s1 = "s\<lparr>me_ltm := l\<rparr>"
  obtain r where ex: "memory_store_exec env d s = (?s1, r)" "map_of (tcr_outputs r) ''value'' = Some (VStr (mi_value w))"
    "map_of (tcr_outputs r) ''version'' = Some (VInt (mi_version w))"
    by (cases "memory_store_exec env d s") (auto simp: memory_store_exec_def assms st Let_def)
  have rm: "me_ltm (fst (memory_remove_exec env d ?s1)) = fst (remove_fact ?env sec key l)"
    by (auto simp: memory_remove_exec_def assms split: prod.splits option.splits)
  note gone = remove_fact_nul_free [OF ok1 free, of sec key]
  from gone have ok2: "ltm_ok ?env (fst (remove_fact ?env sec key l))" "nul_free ?env (fst (remove_fact ?env sec key l))"
    by blast+
  have entries: "map_of (section_entries ?env sec t) k = map_option (entry_value \<circ> decay_confidence ?env) (fact_at t (index_key ?env sec k))"
    if "ltm_ok ?env t" "nul_free ?env t" for t k
    by (rule section_entries_fact [OF that(1) _ assms(7)]) (use that(2) in \<open>auto simp: nul_free_def\<close>)
  have other: "index_key ?env sec k \<noteq> index_key ?env sec key" if "k \<noteq> key" for k
    using that by (simp add: index_key_def)
  show ?thesis
    using entries [OF ok assms(6)] entries [OF ok1 free] entries [OF ok2] gone other
    by (auto simp: ex rm at1 intro!: exI [of _ "decay_confidence ?env w"])
qed

text \<open>Whatever the vector store answers, stale or wrong entries included, \<open>memory_search\<close> only returns facts that the
  memory holds now, with their current values; without a store it returns exactly the facts the query occurs in.\<close>

theorem memory_search_current:
  assumes "memory_search_exec env d s = (s', r)" and "map_of (tcr_outputs r) ''results'' = Some (VList vs)"
    and "ltm_reachable (le_lower (mv_ltm env)) (me_ltm s)"
  shows "s' = s \<and> set vs \<subseteq> {VMap (item_map (decay_confidence (mv_ltm env) f)) | f. f \<in> set (lt_items (me_ltm s))} \<and>
    (mv_index env = None \<longrightarrow> vs = map (VMap \<circ> item_map) (search_ltm (mv_ltm env) (optional_string d ''query'') (me_ltm s)))"
proof -
  let ?env = "mv_ltm env" and ?q = "optional_string d ''query''"
  have ok: "ltm_ok ?env (me_ltm s)" by (rule reachable_ltm_ok [OF assms(3)])
  define answer where "answer = map_option (\<lambda>search. search ?q (search_mode_of (optional_string d ''mode'')) 10) (mv_index env)"
  have s: "s' = s" and vs: "vs = map (VMap \<circ> item_map) (index_search ?env answer ?q (me_ltm s))"
    using assms(1,2) by (auto simp: memory_search_exec_def Let_def answer_def error_result_def split: option.splits if_splits)
  have get: "get_fact ?env sec key (me_ltm s) = Some g \<Longrightarrow> \<exists>f \<in> set (lt_items (me_ltm s)). g = decay_confidence ?env f" for sec key g
    using ltm_okD [OF ok] by (auto simp: get_fact_def)
  have "\<exists>f \<in> set (lt_items (me_ltm s)). g = decay_confidence ?env f" if "g \<in> set (index_search ?env answer ?q (me_ltm s))" for g
  proof (cases "g \<in> set (search_ltm ?env ?q (me_ltm s))")
    case True
    then show ?thesis by (auto simp: search_ltm_def Let_def)
  next
    case False
    with that obtain hits where "g \<in> set (List.map_filter (\<lambda>(sec, key). if sec = [] \<or> key = [] then None else get_fact ?env sec key (me_ltm s)) hits)"
      by (auto simp: index_search_def Let_def split: option.splits sum.splits if_splits)
    with get show ?thesis by (auto simp: List.map_filter_def split: if_splits)
  qed
  with s vs show ?thesis by (auto simp: index_search_def answer_def)
qed

text \<open>C30. The results of the memory tools have the types their schemas declare, whatever the arguments: the name of the
  tool, the id of the call, and either an error or outputs that conform to the output schema.  No output is
  undeclared, except the graph that \<open>memory_search\<close> adds on an argument its schema does not mention.\<close>

theorem memory_tools_well_typed:
  assumes "(def, f) \<in> set (memory_tools env pe)"
  shows "well_typed def d (snd (f sid d s)) \<and>
    (get_arg d ''needGraph'' = Some (VBool True) \<or> only_declared def (snd (f sid d s)))"
  using memory_tools_typed [OF assms] memory_tools_declared [OF assms] by blast

theorem memory_tools_keep_memory_witness:
  "ltm_reachable (le_lower demo_lenv) (me_ltm (fst (memory_store_exec demo_menv demo_call demo_memory))) \<and>
   length (lt_items (me_ltm (fst (memory_store_exec demo_menv demo_call demo_memory)))) = 3"
proof -
  have "length (lt_items (me_ltm (fst (memory_store_exec demo_menv demo_call demo_memory)))) = 3" by code_simp
  with memory_tools_keep_memory [where s = demo_memory and d = demo_call, OF demo_tool] show ?thesis
    using demo_reachable_ltm stable_demo by simp
qed

theorem memory_store_read_back_witness:
  "\<exists>f. map_of (section_entries demo_lenv ''s'' (me_ltm (fst (memory_store_exec demo_menv demo_call demo_memory)))) ''c''
     = Some (entry_value f) \<and> mi_value f = ''nano''"
proof -
  have args: "required_string demo_call ''section'' = Inr ''s''" "required_string demo_call ''key'' = Inr ''c''"
    "required_string demo_call ''value'' = Inr ''nano''" by code_simp+
  have nul: "nul_free demo_lenv demo_ltm" "CHR 0x00 \<notin> set (normalize demo_lenv ''s'')" by code_simp+
  have out: "map_of (tcr_outputs (snd (memory_store_exec demo_menv demo_call demo_memory))) ''value'' = Some (VStr ''nano'')"
    by code_simp
  from memory_store_read_back [of demo_menv demo_memory "''s''" demo_call "''c''" "''nano''"] args nul
    demo_reachable_ltm stable_demo out
  show ?thesis by (cases "memory_store_exec demo_menv demo_call demo_memory") (auto simp: Let_def)
qed

theorem memory_search_current_witness:
  "\<exists>r vs. memory_search_exec demo_menv \<lparr>tcd_id = ''1'', tcd_name = ''memory_search'', tcd_args = [(''query'', VStr ''vi'')]\<rparr>
      demo_memory = (demo_memory, r) \<and> map_of (tcr_outputs r) ''results'' = Some (VList vs) \<and> length vs = 1"
proof -
  let ?d = "\<lparr>tcd_id = ''1'', tcd_name = ''memory_search'', tcd_args = [(''query'', VStr ''vi'')]\<rparr>"
  obtain s r where x: "memory_search_exec demo_menv ?d demo_memory = (s, r)" by fastforce
  have "(case map_of (tcr_outputs (snd (memory_search_exec demo_menv ?d demo_memory))) ''results'' of
      Some (VList vs) \<Rightarrow> length vs = 1 | _ \<Rightarrow> False)" by code_simp
  then obtain vs where vs: "map_of (tcr_outputs r) ''results'' = Some (VList vs)" "length vs = 1"
    by (auto simp: x split: option.splits val.splits)
  from memory_search_current [OF x vs(1)] demo_reachable_ltm have "s = demo_memory" by simp
  with x vs show ?thesis by blast
qed

theorem memory_tools_well_typed_witness:
  "outputs_ok memory_store_definition (snd (memory_store_exec demo_menv demo_call demo_memory))"
proof -
  have "\<not> is_error (snd (memory_store_exec demo_menv demo_call demo_memory))" by code_simp
  with memory_tools_well_typed [where s = demo_memory and d = demo_call, OF demo_tool] show ?thesis
    by (simp add: well_typed_def)
qed

end
