(* ===== verification/PlanSchemas.thy ===== *)
theory PlanSchemas
  imports PlanTools Schema
begin

text \<open>
  The definitions that the plan and task tools give the model (tools/internals/plan.go), and that the
  \<open>Execute\<close> methods of PlanTools keep to the types these declare.
\<close>

section \<open>The definitions\<close>

definition plan_create_definition :: tool_definition where
  "plan_create_definition =
     \<lparr>td_name = ''plan_create'',
      td_description = ''Create a new empty plan. Use task_insert afterwards to add subtasks.'',
      td_schema =
      [(''type'', VStr ''object''),
       (''properties'', VMap [
          (''name'', field ''string'' (''Short, descriptive name for the plan (e.g. '' @ sq @
            ''Deploy Iris SVM model'' @ sq @ '').''))]),
       (''required'', VList [VStr ''name''])],
      td_output_schema =
      [(''type'', VStr ''object''),
       (''properties'', VMap [
          (''id'', field ''string'' (''Unique plan ID (e.g. '' @ sq @ ''plan-a1b2c3d4'' @ sq @
            '').'')),
          (''name'', field ''string'' ''Plan name as provided.''),
          (''status'', field ''string'' (''Initial status: '' @ sq @ ''init'' @ sq @ ''.'')),
          (''subtasks'', field ''array'' (''Empty array '' @ em_dash @
            '' add tasks via task_insert.''))])],
      td_terminating = False\<rparr>"

definition plan_query_definition :: tool_definition where
  "plan_query_definition =
     \<lparr>td_name = ''plan_query'',
      td_description =
      ''Query a plan by ID to get all subtasks with status, or omit plan_id to list all plans.'',
      td_schema =
      [(''type'', VStr ''object''),
       (''properties'', VMap [
          (''plan_id'', field ''string''
            ''Plan ID to fetch. Omit to list all plans with their IDs and statuses.'')])],
      td_output_schema =
      [(''type'', VStr ''object''),
       (''properties'', VMap [
          (''plans'', field ''array'' ''List of plan objects (when no plan_id given).''),
          (''count'', field ''integer'' ''Number of plans returned.'')])],
      td_terminating = False\<rparr>"

definition confirm_plan_definition :: tool_definition where
  "confirm_plan_definition =
     \<lparr>td_name = ''confirm_plan'',
      td_description =
      (''Confirm the plan after user review. Call after ask_human to finalize. Set status to '' @ sq @
      ''doing'' @ sq @ '' (approved), '' @ sq @ ''rejected'' @ sq @ '', or '' @ sq @ ''update'' @ sq @
      '' (needs changes).''),
      td_schema =
      [(''type'', VStr ''object''),
       (''properties'', VMap [
          (''plan_id'', field ''string'' ''The plan ID to confirm.''),
          (''status'', field ''string'' (''Target status after user review:'' @ nl @ ''- '' @ sq @
            ''doing'' @ sq @ '':    user approved '' @ em_dash @ '' start executing tasks'' @ nl @ ''- ''
            @ sq @ ''rejected'' @ sq @ '': user rejected the plan entirely'' @ nl @ ''- '' @ sq @
            ''update'' @ sq @ '':   user requested changes '' @ em_dash @ '' return to planning'')),
          (''reason'', field ''string'' ''Optional reason or user feedback for the status change.'')]),
       (''required'', VList [VStr ''plan_id'', VStr ''status''])],
      td_output_schema =
      [(''type'', VStr ''object''),
       (''properties'', VMap [
          (''id'', field ''string'' ''Plan ID that was confirmed.''),
          (''status'', field ''string'' ''New plan status after confirmation.'')])],
      td_terminating = False\<rparr>"

definition task_insert_definition :: tool_definition where
  "task_insert_definition =
     \<lparr>td_name = ''task_insert'',
      td_description =
      (''Insert a new subtask into a plan. Use parent_task_id to define execution order '' @ em_dash @
      '' independent tasks run concurrently.''),
      td_schema =
      [(''type'', VStr ''object''),
       (''properties'', VMap [
          (''plan_id'', field ''string'' ''The plan ID to add this task to.''),
          (''goal'', field ''string'' (''What this task should accomplish '' @ em_dash @
            '' clear, actionable description.'')),
          (''action'', field ''string'' (''Specific command or operation for the worker. Examples: '' @
            sq @ ''Run: pip install -r requirements.txt'' @ sq @ '', '' @ sq @
            ''Read config.yaml and extract database credentials'' @ sq @ ''.'')),
          (''parent_task_id'', field ''string''
            (''Comma-separated task IDs that must complete before this task starts. Omit if no '' @
            ''dependencies.''))]),
       (''required'', VList [VStr ''plan_id'', VStr ''goal''])],
      td_output_schema =
      [(''type'', VStr ''object''),
       (''properties'', VMap [
          (''task_id'', field ''string'' ''Generated unique task ID.''),
          (''goal'', field ''string'' ''Task goal as provided.'')])],
      td_terminating = False\<rparr>"

definition task_delete_definition :: tool_definition where
  "task_delete_definition =
     \<lparr>td_name = ''task_delete'',
      td_description =
      ''Delete a task from its plan. Use to remove failed or unnecessary tasks during replanning.'',
      td_schema =
      [(''type'', VStr ''object''),
       (''properties'', VMap [
          (''task_id'', field ''string'' ''The task ID to delete.'')]),
       (''required'', VList [VStr ''task_id''])],
      td_output_schema =
      [(''type'', VStr ''object''),
       (''properties'', VMap [
          (''deleted'', field ''boolean'' ''true if the task was successfully deleted.'')])],
      td_terminating = False\<rparr>"

definition task_query_definition :: tool_definition where
  "task_query_definition =
     \<lparr>td_name = ''task_query'',
      td_description =
      (''Query a task by ID to get full details, or list all tasks in a plan by plan_id. Provide '' @
      ''exactly one of task_id or plan_id.''),
      td_schema =
      [(''type'', VStr ''object''),
       (''properties'', VMap [
          (''task_id'', field ''string'' ''Task ID to fetch. Mutually exclusive with plan_id.''),
          (''plan_id'', field ''string''
            ''Plan ID to list all tasks for. Mutually exclusive with task_id.'')])],
      td_output_schema =
      [(''type'', VStr ''object''),
       (''properties'', VMap [
          (''id'', field ''string'' ''Task ID.''),
          (''goal'', field ''string'' ''Task goal.''),
          (''action'', field ''string'' ''Action to execute.''),
          (''status'', field ''string'' ''Status: pending, doing, done, or failed.''),
          (''finished_reason'', field ''string'' ''Output or error message after completion.''),
          (''parent_task_id'', field ''string'' ''Dependency task IDs (comma-separated).''),
          (''tasks'', field ''array'' ''List of task objects (when plan_id given).''),
          (''count'', field ''integer'' ''Number of tasks returned.'')])],
      td_terminating = False\<rparr>"

definition task_status_update_definition :: tool_definition where
  "task_status_update_definition =
     \<lparr>td_name = ''task_status_update'',
      td_description = (''Update a task'' @ sq @
      ''s status manually. Use during execution to mark tasks as done or failed after reviewing '' @
      ''their output.''),
      td_schema =
      [(''type'', VStr ''object''),
       (''properties'', VMap [
          (''task_id'', field ''string'' ''The task ID to update.''),
          (''status'', field ''string'' (''New status:'' @ nl @ ''- '' @ sq @ ''pending'' @ sq @
            '': reset to waiting state'' @ nl @ ''- '' @ sq @ ''doing'' @ sq @
            '':   mark as in-progress'' @ nl @ ''- '' @ sq @ ''done'' @ sq @
            '':    mark as completed successfully'' @ nl @ ''- '' @ sq @ ''failed'' @ sq @
            '':  mark as failed (provide reason)'')),
          (''reason'', field ''string'' (''Optional reason '' @ em_dash @ '' required for '' @ sq @
            ''failed'' @ sq @ '', useful for '' @ sq @ ''done'' @ sq @ ''.''))]),
       (''required'', VList [VStr ''task_id'', VStr ''status''])],
      td_output_schema =
      [(''type'', VStr ''object''),
       (''properties'', VMap [
          (''id'', field ''string'' ''Task ID that was updated.''),
          (''status'', field ''string'' ''New task status after update.'')])],
      td_terminating = False\<rparr>"

definition plan_rollback_definition :: tool_definition where
  "plan_rollback_definition =
     \<lparr>td_name = ''plan_rollback'',
      td_description =
      (''Rollback a plan to a previous checkpoint. Use when execution has drifted or produced '' @
      ''incorrect results. A new checkpoint is created on rollback.''),
      td_schema =
      [(''type'', VStr ''object''),
       (''properties'', VMap [
          (''plan_id'', field ''string'' ''Plan ID to rollback.''),
          (''version'', field ''integer''
            (''Target checkpoint version to restore. Defaults to current-1 if omitted. Must be between 1 ''
            @ ''and current-1.''))]),
       (''required'', VList [VStr ''plan_id'', VStr ''version''])],
      td_output_schema =
      [(''type'', VStr ''object''),
       (''properties'', VMap [
          (''plan_id'', field ''string'' ''Plan ID that was rolled back.''),
          (''from_version'', field ''integer'' ''Version before rollback.''),
          (''to_version'', field ''integer'' ''Version after rollback.'')])],
      td_terminating = False\<rparr>"

text \<open>The tools of plan.go with their definitions; the two creating tools get the id that is generated for them.\<close>

definition plan_tools :: "string \<Rightarrow> (tool_definition \<times> wm tool_fn) list" where
  "plan_tools new_id =
     [(plan_create_definition, plan_create new_id), (plan_query_definition, plan_query),
      (confirm_plan_definition, confirm_plan), (task_insert_definition, task_insert new_id),
      (task_delete_definition, task_delete), (task_query_definition, task_query),
      (task_status_update_definition, task_status_update), (plan_rollback_definition, plan_rollback)]"

section \<open>Typing\<close>

lemma typed_try: "td_name def = t \<Longrightarrow> (\<And>v. r = Inr v \<Longrightarrow> well_typed def d (snd (k v))) \<Longrightarrow>
    well_typed def d (snd (try_arg d t s r k))"
  by (cases r) simp_all

lemma typed_check: "td_name def = t \<Longrightarrow> well_typed def d (snd k) \<Longrightarrow> well_typed def d (snd (check_arg d t s e k))"
  by (cases e) simp_all

lemma typed_put:
  "td_name def = t \<Longrightarrow> (\<And>s'. conforms (VMap (td_output_schema def)) (VMap (out s'))) \<Longrightarrow>
   well_typed def d (snd (put_and_report d t a out s))"
  by (auto simp: put_and_report_def intro!: well_typed_success split: prod.splits option.splits)

lemma typed_pair: "(\<And>a b. well_typed def d (snd (k a b))) \<Longrightarrow> well_typed def d (snd (case p of (a, b) \<Rightarrow> k a b))"
  by (cases p) simp

lemma typed_success:
  "td_name def = t \<Longrightarrow> conforms (VMap (td_output_schema def)) (VMap outs) \<Longrightarrow>
   well_typed def d (snd (s, success_result (tcd_id d) t outs))"
  by (simp add: well_typed_success)

lemmas typed_intros = typed_try typed_check typed_put typed_pair typed_success

lemma plan_create_typed: "well_typed plan_create_definition d (snd (plan_create i sid d s))"
  unfolding plan_create_def Let_def
  by (intro typed_intros) (simp_all add: plan_create_definition_def plan_to_map_def schema_simps)

lemma plan_query_typed: "well_typed plan_query_definition d (snd (plan_query sid d s))"
proof (cases "optional_string d ''plan_id'' = []")
  case True
  then have "snd (plan_query sid d s) = success_result (tcd_id d) ''plan_query''
      [(''plans'', norm_val (plans_to_maps s (list_plans s))), (''count'', VInt (int (length (list_plans s))))]"
    by (simp add: plan_query_def)
  then show ?thesis
    by (simp add: well_typed_def outputs_ok_def plan_query_definition_def plans_to_maps_def schema_simps)
next
  case False
  have "well_typed plan_query_definition d (snd (try_arg d ''plan_query'' s (lookup_plan s pid) (\<lambda>a.
          (s, success_result (tcd_id d) ''plan_query'' (plan_to_map (wm_heap s a))))))" for pid
    by (intro typed_intros) (simp_all add: plan_query_definition_def plan_to_map_def schema_simps)
  with False show ?thesis by (simp add: plan_query_def)
qed

lemma confirm_plan_typed: "well_typed confirm_plan_definition d (snd (confirm_plan sid d s))"
  unfolding confirm_plan_def Let_def
  by (intro typed_intros) (simp_all add: confirm_plan_definition_def schema_simps)

lemma task_insert_typed: "well_typed task_insert_definition d (snd (task_insert i sid d s))"
  unfolding task_insert_def Let_def
  by (intro typed_intros) (simp_all add: task_insert_definition_def schema_simps)

lemma task_delete_typed: "well_typed task_delete_definition d (snd (task_delete sid d s))"
  unfolding task_delete_def
  by (intro typed_intros) (simp_all add: task_delete_definition_def schema_simps)

lemma task_query_typed: "well_typed task_query_definition d (snd (task_query sid d s))"
proof -
  let ?one = "\<lambda>tid. try_arg d ''task_query'' s (lookup_task s tid) (\<lambda>q.
          (s, success_result (tcd_id d) ''task_query'' (task_to_map (get_task q s))))"
  let ?all = "\<lambda>pid. try_arg d ''task_query'' s (lookup_plan s pid) (\<lambda>a.
          (s, success_result (tcd_id d) ''task_query''
            [(''tasks'', VList (map (\<lambda>t. VMap (task_to_map t)) (p_tasks (wm_heap s a)))),
             (''count'', VInt (int (length (p_tasks (wm_heap s a)))))]))"
  have t: "conforms (VMap (td_output_schema task_query_definition)) (VMap (task_to_map t))" for t
    by (cases "t_usage t") (simp_all add: task_query_definition_def task_to_map_def schema_simps)
  have "well_typed task_query_definition d (snd (?one tid))" for tid
    by (intro typed_intros t) (simp_all add: task_query_definition_def)
  moreover have "well_typed task_query_definition d (snd (?all pid))" for pid
    by (intro typed_intros) (simp_all add: task_query_definition_def schema_simps)
  moreover have "well_typed task_query_definition d (snd (s, error_result (tcd_id d) ''task_query'' e))" for e
    by (simp add: task_query_definition_def)
  ultimately show ?thesis by (simp add: task_query_def Let_def)
qed

lemma task_status_update_typed: "well_typed task_status_update_definition d (snd (task_status_update sid d s))"
  unfolding task_status_update_def Let_def
  by (intro typed_intros) (simp_all add: task_status_update_definition_def schema_simps)

lemma plan_rollback_typed: "well_typed plan_rollback_definition d (snd (plan_rollback sid d s))"
proof -
  have "well_typed plan_rollback_definition d (snd (try_arg d ''plan_rollback'' s (load_checkpoint_json pid target s) (\<lambda>cp.
            let q = cp_plan cp in
            put_and_report d ''plan_rollback'' a
              (\<lambda>s'. [(''plan_id'', VStr pid), (''from_version'', VInt from),
                     (''to_version'', VInt (p_version (wm_heap s' a)))])
              (upd_plan a (\<lambda>p. p\<lparr>p_name := p_name q, p_tasks := p_tasks q, p_active := p_active q,
                                  p_state := p_state q, p_reason := p_reason q\<rparr>) s))))" for pid target a "from"
    unfolding Let_def by (intro typed_intros) (simp_all add: plan_rollback_definition_def schema_simps)
  then show ?thesis
    unfolding plan_rollback_def
    by (auto intro!: typed_try simp: plan_rollback_definition_def Let_def)
qed

text \<open>The results of the plan and task tools have the types their schemas declare, whatever the arguments, the state
  of working memory and the outcome of the writes: the name of the tool, the id of the call, and either an error or
  outputs that conform to the output schema.\<close>

theorem plan_tools_well_typed:
  assumes "(def, f) \<in> set (plan_tools new_id)"
  shows "well_typed def d (snd (f sid d s))"
  using assms by (auto simp: plan_tools_def plan_create_typed plan_query_typed confirm_plan_typed task_insert_typed
      task_delete_typed task_query_typed task_status_update_typed plan_rollback_typed)

theorem plan_tools_well_typed_witness:
  "outputs_ok plan_create_definition (snd (plan_create ''p1'' ''s1''
     \<lparr>tcd_id = ''c1'', tcd_name = ''plan_create'', tcd_args = [(''name'', VStr ''demo'')]\<rparr> empty_wm))"
proof -
  let ?d = "\<lparr>tcd_id = ''c1'', tcd_name = ''plan_create'', tcd_args = [(''name'', VStr ''demo'')]\<rparr>"
  have "(plan_create_definition, plan_create ''p1'') \<in> set (plan_tools ''p1'')" by (simp add: plan_tools_def)
  from plan_tools_well_typed [OF this, of ?d "''s1''" empty_wm]
  have "well_typed plan_create_definition ?d (snd (plan_create ''p1'' ''s1'' ?d empty_wm))" .
  moreover have "\<not> is_error (snd (plan_create ''p1'' ''s1'' ?d empty_wm))" by code_simp
  ultimately show ?thesis by (simp add: well_typed_def)
qed

end
