(* ===== verification/Prompts.thy ===== *)
theory Prompts
  imports Schema
begin

text \<open>
  The prompts (prompts/templates.go, prompts/prompts.go, prompts/params.go, prompts/llm\_prompts.go): the templates as the
  nodes that \<open>text/template\<close> parses them into, their execution on a parameter struct, the factory, the
  planner's static prompts and the rendering of a message history.  A parameter struct is the list of its fields;
  the typing below shows that no template of the factory fails on its own parameters.
\<close>

section \<open>Templates\<close>

text \<open>The nodes the templates use: text, \<open>{{.F}}\<close>, \<open>{{len .F}}\<close>, \<open>{{if .F}}..{{else}}..{{end}}\<close> and
  \<open>{{range .F}}..{{end}}\<close>, whose body sees the fields of the element.  Fields are strings, integers and slices
  of structs; \<open>show_pval\<close> is how \<open>fmt\<close> prints them.\<close>

datatype pval = PStr string | PInt int | PList "(string \<times> pval) list list"

datatype node =
    TxtN string | FldN string | LenN string | IfN string "node list" "node list" | RangeN string "node list"

fun show_pval :: "pval \<Rightarrow> string" where
  "show_pval (PStr s) = s"
| "show_pval (PInt i) = int_dec i"
| "show_pval (PList rs) = ''['' @ str_join '' '' (map (\<lambda>r. ''{'' @ str_join '' '' (map (\<lambda>p. show_pval (snd p)) r) @ ''}'') rs) @ '']''"

fun truth :: "pval \<Rightarrow> bool" where
  "truth (PStr s) = (s \<noteq> [])"
| "truth (PInt i) = (i \<noteq> 0)"
| "truth (PList rs) = (rs \<noteq> [])"

definition lookup_field :: "(string \<times> pval) list \<Rightarrow> string \<Rightarrow> err + pval" where
  "lookup_field d f =
     (case map_of d f of None \<Rightarrow> Inl (ErrOther (''template: can'' @ sq @ ''t evaluate field '' @ f)) | Some v \<Rightarrow> Inr v)"

fun len_of :: "pval \<Rightarrow> err + int" where
  "len_of (PStr s) = Inr (int (length s))"
| "len_of (PList rs) = Inr (int (length rs))"
| "len_of (PInt i) = Inl (ErrOther ''template: error calling len'')"

fun elements :: "pval \<Rightarrow> err + (string \<times> pval) list list" where
  "elements (PList rs) = Inr rs"
| "elements v = Inl (ErrOther (''template: range can'' @ sq @ ''t iterate over '' @ show_pval v))"

fun concat_results :: "(err + string) list \<Rightarrow> err + string" where
  "concat_results [] = Inr []"
| "concat_results (r # rs) = bindr r (\<lambda>s. map_sum id (append s) (concat_results rs))"

fun exec_node :: "node \<Rightarrow> (string \<times> pval) list \<Rightarrow> err + string" where
  "exec_node (TxtN t) d = Inr t"
| "exec_node (FldN f) d = map_sum id show_pval (lookup_field d f)"
| "exec_node (LenN f) d = map_sum id int_dec (bindr (lookup_field d f) len_of)"
| "exec_node (IfN f a b) d =
     bindr (lookup_field d f) (\<lambda>v. if truth v then concat_results (map (\<lambda>n. exec_node n d) a)
                                   else concat_results (map (\<lambda>n. exec_node n d) b))"
| "exec_node (RangeN f body) d =
     bindr (bindr (lookup_field d f) elements) (\<lambda>rs.
       concat_results (map (\<lambda>r. concat_results (map (\<lambda>n. exec_node n r) body)) rs))"

definition exec_template :: "node list \<Rightarrow> (string \<times> pval) list \<Rightarrow> err + string" where
  "exec_template ns d = concat_results (map (\<lambda>n. exec_node n d) ns)"

section \<open>The templates of templates.go\<close>

definition planner_intent_tmpl :: string where
  "planner_intent_tmpl =
     ''You are an intent recognition agent. Your ONLY job is to classify the user'' @ sq @ ''s request.'' @
     nl @ nl @
     ''Call set_work_mode with:'' @ nl @
     ''- '' @ dq @ ''plan'' @ dq @ ''   '' @ em_dash @
     '' complex multi-step tasks requiring planning and task decomposition'' @ nl @
     ''- '' @ dq @ ''simple'' @ dq @ '' '' @ em_dash @
     '' straightforward single-step tasks that can be done directly'' @ nl @ nl @
     ''RULES:'' @ nl @ ''- Do NOT output ANY text, explanation, greeting, or acknowledgment.'' @ nl @
     ''- Do NOT answer the user'' @ sq @ ''s request '' @ em_dash @ '' only classify it.'' @ nl @
     ''- Call set_work_mode immediately and nothing else.''"

definition planner_direct_tmpl :: string where
  "planner_direct_tmpl =
     ''You are a helpful AI assistant. Complete the user'' @ sq @ ''s request using the available tools.'' @
     nl @ nl @
     ''Work efficiently '' @ em_dash @
     '' this is a simple task. Use memory tools to persist important information for future '' @
     ''sessions.'' @ nl @
     ''When you'' @ sq @ ''re done, provide a clear summary of what you accomplished.''"

definition planner_init_tmpl :: string where
  "planner_init_tmpl =
     ''You are a Planner agent in the PLAN phase.'' @ nl @ nl @
     ''Analyze the user'' @ sq @ ''s request and create an execution plan:'' @ nl @
     ''1. Use plan_create to create a plan.'' @ nl @
     ''2. Use task_insert to add subtasks. Each task MUST have:'' @ nl @
     ''   - goal: what to accomplish'' @ nl @
     ''   - action: exact command or operation (e.g. '' @ dq @ ''pip install requests'' @ dq @ '', '' @ dq @
     ''read config.yaml'' @ dq @ '')'' @ nl @
     ''   - parent_task_id (optional): comma-separated IDs of tasks that must complete first'' @ nl @
     ''3. After all tasks are defined, stop. The system will move to the confirmation phase '' @
     ''automatically.'' @ nl @ nl @
     ''Set parent_task_id to define dependencies. Independent tasks will execute concurrently.'' @ nl @
     ''You do NOT have execution tools '' @ em_dash @ '' tasks are executed automatically after approval.'' @
     nl @
     ''Do NOT call ask_human in this phase '' @ em_dash @
     '' approval happens after plan creation is complete.''"

definition planner_confirmed_tmpl :: string where
  "planner_confirmed_tmpl =
     ''You are a Planner agent in the CONFIRM phase.'' @ nl @ nl @
     ''A plan has been created but not yet approved. Your job:'' @ nl @
     ''1. Review the plan and its tasks carefully '' @ em_dash @ '' you have the full plan details above.'' @
     nl @
     ''2. Call ask_human to present the plan to the user for approval. In your question:'' @ nl @
     ''   - List each task with its goal, action, and dependencies clearly'' @ nl @
     ''   - Ask the user to approve, reject, or request changes'' @ nl @
     ''3. After the user responds, call confirm_plan based on their decision:'' @ nl @
     ''   - status '' @ dq @ ''doing'' @ dq @ '' if the user approved'' @ nl @
     ''   - status '' @ dq @ ''rejected'' @ dq @ '' if the user rejected'' @ nl @
     ''   - status '' @ dq @ ''update'' @ dq @ '' if the user requested changes'' @ nl @ nl @
     ''Important: call ask_human FIRST to get the user'' @ sq @ ''s decision, THEN call confirm_plan.'' @ nl @
     ''Do not output text between these tool calls '' @ em_dash @ '' just present, wait, and process.''"

definition planner_execute_tmpl :: string where
  "planner_execute_tmpl =
     ''You are a Planner agent in the EXECUTE phase.'' @ nl @ nl @
     ''Tasks are being executed automatically. You can:'' @ nl @
     ''- Use task_query to check task status and results.'' @ nl @
     ''- Use task_status_update to mark a task as done/failed/pending if needed.'' @ nl @
     ''- Use ask_human if you need guidance.'' @ nl @ nl @
     ''When all tasks complete, the system will automatically finish.'' @ nl @
     ''If any task fails, the system will switch to ADAPT mode.'' @ nl @
     ''You do NOT have execution tools '' @ em_dash @ '' execution is handled by the system.''"

definition planner_finish_tmpl :: string where
  "planner_finish_tmpl =
     ''You are a Planner agent. All tasks have completed.'' @ nl @ nl @
     ''Summarize the execution results for the user. Use task_query to check individual task '' @
     ''outputs if needed, then provide a clear summary of what was accomplished and any notable '' @
     ''results.''"

definition planner_adapt_tmpl :: string where
  "planner_adapt_tmpl =
     ''You are a Planner agent in the ADAPT phase.'' @ nl @ nl @
     ''Some tasks have failed (see status above). You can:'' @ nl @
     ''- Use task_query to inspect failed tasks and their error messages.'' @ nl @
     ''- Use task_insert to add replacement tasks.'' @ nl @
     ''- Use task_delete to remove failed tasks.'' @ nl @ nl @
     ''When you are done with all adjustments, stop calling tools.'' @ nl @
     ''The system will return you to CONFIRM phase for re-approval.'' @ nl @
     ''You do NOT have execution tools '' @ em_dash @ '' execution is handled by the system.''"

definition review_tmpl :: "node list" where
  "review_tmpl =
     [TxtN (''You are a goal-alignment reviewer.'' @ nl @ nl @ ''ORIGINAL GOAL: ''),
      FldN ''OriginalGoal'',
      TxtN (nl @ nl @ ''CURRENT PLAN STATE: ''),
      FldN ''PlanSummary'',
      TxtN (nl @ nl @ ''RECENT ACTIVITY: ''),
      FldN ''RecentActivity'',
      TxtN (nl @ nl @ ''Analyze whether the current plan execution has drifted from the original goal.'' @ nl @
        ''Check for: irrelevant tasks, scope creep, repetitive failures, context shift.'' @ nl @
        ''You MUST call reviewer_report with your assessment.'')]"

definition worker_tmpl :: "node list" where
  "worker_tmpl =
     [TxtN (''You are a task executor. Complete the following task.'' @ nl @ nl @ ''Goal: ''),
      FldN ''Goal'',
      TxtN (nl @ ''Action: ''),
      FldN ''Action'',
      TxtN (nl @ nl @ ''Use available tools as needed. When done, report the result clearly.'')]"

definition compress_tool_tmpl :: "node list" where
  "compress_tool_tmpl =
     [TxtN (''Summarize this tool result field. Keep key items, IDs, file paths, error messages, and '' @
        ''numbers.'' @ nl @
        ''Be concise but don'' @ sq @ ''t drop critical data. Output ONLY the summary, no preamble.'' @ nl @
        nl @
        ''Tool: ''),
      FldN ''ToolName'',
      TxtN (nl @ ''Field: ''),
      FldN ''FieldKey'',
      TxtN (nl @ ''Original length: ''),
      FldN ''OrigLen'',
      TxtN ('' chars'' @ nl @ nl @ ''Content:'' @ nl),
      FldN ''Raw'']"

definition semantic_judge_tmpl :: "node list" where
  "semantic_judge_tmpl =
     [TxtN (''Are these two statements semantically equivalent (same fact, different wording)?'' @ nl @ ''A: ''),
      FldN ''OldVal'',
      TxtN (nl @ ''B: ''),
      FldN ''NewVal'',
      TxtN (nl @ ''Answer ONLY '' @ dq @ ''YES'' @ dq @ '' or '' @ dq @ ''NO'' @ dq @ ''.'')]"

definition plan_confirm_tmpl :: "node list" where
  "plan_confirm_tmpl =
     [TxtN (''## Plan to Confirm'' @ nl @ ''- Name: '' @ dq),
      FldN ''Name'',
      TxtN (dq @ nl @ ''- ID: ''),
      FldN ''ID'',
      TxtN (nl @ ''- Tasks: ''),
      LenN ''Tasks'',
      TxtN (nl @ nl),
      RangeN ''Tasks''
        [TxtN ''### Task '',
         FldN ''Index'',
         TxtN '': '',
         FldN ''ID'',
         TxtN (nl @ ''- Goal: ''),
         FldN ''Goal'',
         IfN ''Action''
           [TxtN (nl @ ''- Action: ''),
            FldN ''Action'']
           [],
         TxtN (nl @ ''- Depends on: ''),
         FldN ''Deps'',
         TxtN (nl @ nl)],
      TxtN (''Present this plan to the user via ask_human. Wait for their response before calling '' @
        ''confirm_plan.'')]"

definition plan_status_tmpl :: "node list" where
  "plan_status_tmpl =
     [TxtN (''## Current Plan'' @ nl @ ''- '' @ dq),
      FldN ''Name'',
      TxtN (dq @ '' (status: ''),
      FldN ''Status'',
      TxtN '', '',
      FldN ''Done'',
      TxtN ''/'',
      FldN ''Total'',
      TxtN '' done, '',
      FldN ''Failed'',
      TxtN ('' failed)'' @ nl),
      IfN ''FailedTasks''
        [TxtN (nl @ ''### Failed Tasks'' @ nl),
         RangeN ''FailedTasks''
           [TxtN ''- '',
            FldN ''ID'',
            TxtN '' (goal: '',
            FldN ''Goal'',
            TxtN ''): '',
            FldN ''Reason'',
            TxtN nl]]
        [],
      TxtN (nl @ ''Continue from the current state above.'')]"

definition summarize_tmpl :: "node list" where
  "summarize_tmpl =
     [IfN ''ExistingSummary''
        [TxtN (''You are maintaining a running summary of an ongoing conversation.'' @ nl @ nl @
           ''EXISTING SUMMARY:'' @ nl),
         FldN ''ExistingSummary'',
         TxtN (nl @ nl @
           ''Below are NEW messages that continue the conversation. Produce a single CONSOLIDATED '' @
           ''summary that:'' @ nl @
           ''- Incorporates key facts from both the existing summary and the new messages'' @ nl @
           ''- If new information contradicts the existing summary, PREFER the new information'' @ nl @
           ''- Removes outdated or superseded facts'' @ nl @ ''- Is concise (under 500 words)'' @ nl @ nl)]
        [TxtN (''Summarize the following conversation segment. Extract key facts, decisions, tool call '' @
           ''results, and important context. Be concise but complete (under 500 words).'' @ nl @ nl)],
      TxtN (''--- Messages ---'' @ nl @ nl),
      FldN ''Messages'',
      TxtN (nl @ ''--- End of messages ---'' @ nl @ ''Provide the consolidated summary (under 500 words):'')]"

definition memory_score_tmpl :: "node list" where
  "memory_score_tmpl =
     [TxtN (''You are a memory scoring system. Rate each memory item from 1-10 by its INTRINSIC value '' @
        ''only:'' @ nl @
        ''- 1-3: low value (one-time event, outdated, already well-known)'' @ nl @
        ''- 4-6: moderate (useful but not critical)'' @ nl @
        ''- 7-10: high value (recurring theme, important preference, actionable insight)'' @ nl @ nl @
        ''Rate only the intrinsic/qualitative value. Do NOT consider recency, update frequency, or '' @
        ''graph connectivity '' @ em_dash @ '' those are computed separately by the system.'' @ nl @ nl @
        ''Output ONLY valid JSON:'' @ nl @
        ''{'' @ dq @ ''scores'' @ dq @ '': [{'' @ dq @ ''section'' @ dq @ '':'' @ dq @ ''...'' @ dq @ '','' @
        dq @ ''key'' @ dq @ '':'' @ dq @ ''...'' @ dq @ '','' @ dq @ ''score'' @ dq @ '':N,'' @ dq @
        ''reason'' @ dq @ '':'' @ dq @ ''brief justification'' @ dq @ ''}]}'' @ nl @ nl @
        ''Items:'' @ nl),
      FldN ''Items'']"

definition memory_reflect_tmpl :: "node list" where
  "memory_reflect_tmpl =
     [TxtN (''You are a memory reflection system. Analyze these high-value memories and extract '' @
        ''cross-cutting insights.'' @ nl @ nl @
        ''Output ONLY valid JSON:'' @ nl @
        ''{'' @ dq @ ''insights'' @ dq @ '': [{'' @ dq @ ''section'' @ dq @ '':'' @ dq @ ''insights'' @ dq @
        '','' @ dq @ ''key'' @ dq @ '':'' @ dq @ ''short_label'' @ dq @ '','' @ dq @ ''value'' @ dq @ '':'' @
        dq @ ''detailed insight'' @ dq @ ''}], '' @ dq @ ''summary'' @ dq @ '':'' @ dq @
        ''one-sentence summary of what the user is focused on'' @ dq @ ''}'' @ nl @ nl @
        ''High-value memories:'' @ nl),
      FldN ''Items'']"

text \<open>The format that the extraction prompt asks for.\<close>

definition extract_format :: string where
  "extract_format =
     ''{'' @ nl @ ''  '' @ dq @ ''items'' @ dq @ '': ['' @ nl @
     ''    {'' @ dq @ ''section'' @ dq @ '':'' @ dq @ ''...'' @ dq @ '','' @ dq @ ''key'' @ dq @ '':'' @ dq @
     ''...'' @ dq @ '','' @ dq @ ''value'' @ dq @ '':'' @ dq @ ''...'' @ dq @ '','' @ dq @
     ''source_evidence'' @ dq @ '':'' @ dq @ ''...'' @ dq @ '','' @ dq @ ''suggested_confidence'' @ dq @
     '':0.9}'' @ nl @
     ''  ],'' @ nl @ ''  '' @ dq @ ''entities'' @ dq @ '': ['' @ nl @
     ''    {'' @ dq @ ''name'' @ dq @ '':'' @ dq @ ''EntityName'' @ dq @ '','' @ dq @ ''type'' @ dq @ '':'' @
     dq @ ''language|file|concept|person|project|bug|tool'' @ dq @ '','' @ dq @ ''labels'' @ dq @ '':['' @
     dq @ ''tag1'' @ dq @ '','' @ dq @ ''tag2'' @ dq @ '']}'' @ nl @
     ''  ],'' @ nl @ ''  '' @ dq @ ''relationships'' @ dq @ '': ['' @ nl @
     ''    {'' @ dq @ ''from'' @ dq @ '':'' @ dq @ ''EntityName'' @ dq @ '','' @ dq @ ''to'' @ dq @ '':'' @
     dq @ ''OtherEntity'' @ dq @ '','' @ dq @ ''type'' @ dq @ '':'' @ dq @
     ''uses|depends_on|mentions|causes|contains|implements'' @ dq @ '','' @ dq @ ''weight'' @ dq @ '':1.0}'' @
     nl @
     ''  ]'' @ nl @ ''}''"

definition extract_tmpl :: "node list" where
  "extract_tmpl =
     [TxtN (''You are a memory extraction system. From the conversation, extract long-term memories AND '' @
        ''entity relationships.'' @ nl @ nl @
        ''Output ONLY valid JSON:'' @ nl @ extract_format @
        nl @ nl @ ''Sections for items: user_preferences, project_facts, episodic, lessons, patterns'' @ nl @
        ''Entity types: language, file, concept, person, project, bug, tool'' @ nl @
        ''Relationship weight: 1.0 = explicitly stated; < 1.0 = inferred'' @ nl @ nl @ ''Rules:'' @ nl @
        ''- Be concise. Only include things clearly stated. Do not fabricate.'' @ nl @
        ''- key = short label; value = detailed content'' @ nl),
      IfN ''SessionSummary''
        [TxtN (nl @ ''## Session Context (summary)'' @ nl),
         FldN ''SessionSummary'',
         TxtN nl]
        [],
      IfN ''ExistingItems''
        [TxtN (nl @ ''## Existing Memories (avoid duplicates)'' @ nl),
         FldN ''ExistingItems'']
        [],
      IfN ''CheckpointGoals''
        [TxtN (nl @ ''## Active Plan Goals'' @ nl),
         FldN ''CheckpointGoals'']
        [],
      IfN ''UserMessage''
        [TxtN (nl @ ''## User Request'' @ nl),
         FldN ''UserMessage'',
         TxtN nl]
        [],
      TxtN (nl @ ''## Conversation'' @ nl),
      FldN ''Conversation'']"

section \<open>Parameters and factory\<close>

datatype prompt_type =
    TypeReview | TypeWorker | TypeCompressTool | TypeSemanticJudge | TypePlanConfirm | TypePlanStatus
  | TypeSummarize | TypeMemoryScore | TypeMemoryReflect | TypeExtract | TypeUnknown int

text \<open>The structs of params.go, with their fields in the order of their declaration.\<close>

datatype prompt_params =
    ReviewParams string string string
  | WorkerParams string string
  | CompressToolParams string string int string
  | SemanticJudgeParams string string
  | SummarizeParams string string
  | MemoryScoreParams string
  | MemoryReflectParams string
  | ExtractParams string string string string string
  | PlanConfirmParams string string "(int \<times> string \<times> string \<times> string \<times> string) list"
  | PlanStatusParams string string int int int "(string \<times> string \<times> string) list"

fun param_fields :: "prompt_params \<Rightarrow> (string \<times> pval) list" where
  "param_fields (ReviewParams goal summary activity) =
     [(''OriginalGoal'', PStr goal), (''PlanSummary'', PStr summary), (''RecentActivity'', PStr activity)]"
| "param_fields (WorkerParams goal action) = [(''Goal'', PStr goal), (''Action'', PStr action)]"
| "param_fields (CompressToolParams tool key orig_len raw) =
     [(''ToolName'', PStr tool), (''FieldKey'', PStr key), (''OrigLen'', PInt orig_len), (''Raw'', PStr raw)]"
| "param_fields (SemanticJudgeParams old new) = [(''OldVal'', PStr old), (''NewVal'', PStr new)]"
| "param_fields (SummarizeParams existing messages) = [(''ExistingSummary'', PStr existing), (''Messages'', PStr messages)]"
| "param_fields (MemoryScoreParams items) = [(''Items'', PStr items)]"
| "param_fields (MemoryReflectParams items) = [(''Items'', PStr items)]"
| "param_fields (ExtractParams summary existing goals user conversation) =
     [(''SessionSummary'', PStr summary), (''ExistingItems'', PStr existing), (''CheckpointGoals'', PStr goals),
      (''UserMessage'', PStr user), (''Conversation'', PStr conversation)]"
| "param_fields (PlanConfirmParams name plan_id tasks) =
     [(''Name'', PStr name), (''ID'', PStr plan_id),
      (''Tasks'', PList (map (\<lambda>(index, tid, goal, action, deps).
         [(''Index'', PInt index), (''ID'', PStr tid), (''Goal'', PStr goal), (''Action'', PStr action),
          (''Deps'', PStr deps)]) tasks))]"
| "param_fields (PlanStatusParams name status n_done n_total n_failed failed_tasks) =
     [(''Name'', PStr name), (''Status'', PStr status), (''Done'', PInt n_done), (''Total'', PInt n_total),
      (''Failed'', PInt n_failed),
      (''FailedTasks'', PList (map (\<lambda>(tid, goal, reason).
         [(''ID'', PStr tid), (''Goal'', PStr goal), (''Reason'', PStr reason)]) failed_tasks))]"

fun type_of_params :: "prompt_params \<Rightarrow> prompt_type" where
  "type_of_params (ReviewParams _ _ _) = TypeReview"
| "type_of_params (WorkerParams _ _) = TypeWorker"
| "type_of_params (CompressToolParams _ _ _ _) = TypeCompressTool"
| "type_of_params (SemanticJudgeParams _ _) = TypeSemanticJudge"
| "type_of_params (SummarizeParams _ _) = TypeSummarize"
| "type_of_params (MemoryScoreParams _) = TypeMemoryScore"
| "type_of_params (MemoryReflectParams _) = TypeMemoryReflect"
| "type_of_params (ExtractParams _ _ _ _ _) = TypeExtract"
| "type_of_params (PlanConfirmParams _ _ _) = TypePlanConfirm"
| "type_of_params (PlanStatusParams _ _ _ _ _ _) = TypePlanStatus"

fun type_string :: "prompt_type \<Rightarrow> string" where
  "type_string TypeReview = ''Review''"
| "type_string TypeWorker = ''Worker''"
| "type_string TypeCompressTool = ''CompressTool''"
| "type_string TypeSemanticJudge = ''SemanticJudge''"
| "type_string TypeSummarize = ''Summarize''"
| "type_string TypeMemoryScore = ''MemoryScore''"
| "type_string TypeMemoryReflect = ''MemoryReflect''"
| "type_string TypeExtract = ''Extract''"
| "type_string _ = ''Unknown''"

definition new_factory :: "(prompt_type \<times> node list) list" where
  "new_factory =
     [(TypeReview, review_tmpl), (TypeWorker, worker_tmpl), (TypeCompressTool, compress_tool_tmpl),
      (TypeSemanticJudge, semantic_judge_tmpl), (TypePlanConfirm, plan_confirm_tmpl), (TypePlanStatus, plan_status_tmpl),
      (TypeSummarize, summarize_tmpl), (TypeMemoryScore, memory_score_tmpl), (TypeMemoryReflect, memory_reflect_tmpl),
      (TypeExtract, extract_tmpl)]"

definition render :: "(prompt_type \<times> node list) list \<Rightarrow> prompt_type \<Rightarrow> prompt_params \<Rightarrow> err + string" where
  "render factory pt params =
     (case map_of factory pt of
        None \<Rightarrow> Inl (ErrOther (''unknown prompt type: '' @ type_string pt))
      | Some tmpl \<Rightarrow> exec_template tmpl (param_fields params))"

text \<open>\<open>None\<close> is the panic.\<close>

definition must_render :: "(prompt_type \<times> node list) list \<Rightarrow> prompt_type \<Rightarrow> prompt_params \<Rightarrow> string option" where
  "must_render factory pt params = (case render factory pt params of Inl _ \<Rightarrow> None | Inr s \<Rightarrow> Some s)"

definition planner_templates :: "(plan_state \<times> string) list" where
  "planner_templates =
     [(PSIntent, planner_intent_tmpl), (PSInit, planner_init_tmpl), (PSDirect, planner_direct_tmpl),
      (PSConfirmed, planner_confirmed_tmpl), (PSDoing, planner_execute_tmpl), (PSUpdating, planner_adapt_tmpl),
      (PSDone, planner_finish_tmpl), (PSFailed, planner_finish_tmpl)]"

definition planner_prompt :: "plan_state \<Rightarrow> string" where
  "planner_prompt status =
     (case map_of planner_templates status of Some tmpl \<Rightarrow> tmpl | None \<Rightarrow> planner_init_tmpl)"

section \<open>The message history as text (llm\_prompts.go)\<close>

definition truncate_str :: "string \<Rightarrow> nat \<Rightarrow> string" where
  "truncate_str s max_len = (if length s \<le> max_len then s else take max_len s @ ''...'')"

fun format_content :: "content \<Rightarrow> string" where
  "format_content (TextContent t) = truncate_str t 500"
| "format_content (ToolCallContent ds) = ''[tool calls: '' @ str_join '', '' (map tcd_name ds) @ '']''"
| "format_content (ToolResultContent rs) = ''[tool results: '' @ int_dec (int (length rs)) @ '']''"
| "format_content (CompositeContent _) = ''[composite]''"
| "format_content _ = ''[content]''"

definition format_message :: "nat \<Rightarrow> message \<Rightarrow> string" where
  "format_message i m =
     ''['' @ int_dec (int i) @ ''] '' @ m_role m @ '': '' @ format_content (m_content m) @ nl"

definition format_messages :: "message list \<Rightarrow> string" where
  "format_messages ms = concat (map (\<lambda>(i, m). format_message i m) (zip [0..<length ms] ms))"

section \<open>Typing of templates\<close>

datatype ty = TStr | TInt | TList "(string \<times> ty) list"

fun has_ty :: "pval \<Rightarrow> ty \<Rightarrow> bool" where
  "has_ty (PStr _) t = (t = TStr)"
| "has_ty (PInt _) t = (t = TInt)"
| "has_ty (PList rs) t =
     (case t of TList fs \<Rightarrow> list_all (\<lambda>r. list_all2 (\<lambda>p q. fst p = fst q \<and> has_ty (snd p) (snd q)) r fs) rs | _ \<Rightarrow> False)"

fun ok_node :: "(string \<times> ty) list \<Rightarrow> node \<Rightarrow> bool" where
  "ok_node T (TxtN _) = True"
| "ok_node T (FldN f) = (map_of T f \<noteq> None)"
| "ok_node T (LenN f) = (case map_of T f of None \<Rightarrow> False | Some t \<Rightarrow> t \<noteq> TInt)"
| "ok_node T (IfN f a b) = (map_of T f \<noteq> None \<and> list_all (ok_node T) a \<and> list_all (ok_node T) b)"
| "ok_node T (RangeN f body) = (case map_of T f of Some (TList U) \<Rightarrow> list_all (ok_node U) body | _ \<Rightarrow> False)"

abbreviation typed_fields :: "(string \<times> pval) list \<Rightarrow> (string \<times> ty) list \<Rightarrow> bool" where
  "typed_fields \<equiv> list_all2 (\<lambda>p q. fst p = fst q \<and> has_ty (snd p) (snd q))"

lemma typed_keys: "typed_fields d T \<Longrightarrow> map fst d = map fst T"
  by (induction rule: list_all2_induct) auto

lemma lookup_typed:
  assumes "typed_fields d T" and "map_of T f = Some t"
  shows "\<exists>v. lookup_field d f = Inr v \<and> has_ty v t"
proof -
  from assms have "\<exists>v. map_of d f = Some v \<and> has_ty v t"
    by (induction rule: list_all2_induct) (auto split: if_splits)
  then show ?thesis by (auto simp: lookup_field_def)
qed

lemma typed_member:
  assumes "typed_fields d T" and "q \<in> set d"
  obtains u where "(fst q, u) \<in> set T" "has_ty (snd q) u"
proof -
  from assms obtain i where i: "i < length T" "fst q = fst (T ! i)" "has_ty (snd q) (snd (T ! i))"
    by (auto simp: list_all2_conv_all_nth in_set_conv_nth)
  show ?thesis by (rule that [of "snd (T ! i)"]) (use i in simp_all)
qed

lemma typed_lookup:
  assumes "typed_fields d T" and "distinct (map fst T)" and "q \<in> set d"
  shows "lookup_field d (fst q) = Inr (snd q)"
proof -
  from typed_keys [OF assms(1)] assms(2) have "distinct (map fst d)" by simp
  from map_of_is_SomeI [OF this, of "fst q" "snd q"] assms(3) have "map_of d (fst q) = Some (snd q)" by simp
  then show ?thesis by (simp add: lookup_field_def)
qed

lemma concat_results_ok:
  "(\<And>x. x \<in> set xs \<Longrightarrow> \<exists>s. f x = Inr s) \<Longrightarrow> \<exists>s. concat_results (map f xs) = Inr s"
proof (induction xs)
  case (Cons x xs)
  then obtain s t where "f x = Inr s" "concat_results (map f xs) = Inr t" by fastforce
  then show ?case by simp
qed simp

lemma has_ty_cases:
  "has_ty v TStr \<longleftrightarrow> (\<exists>s. v = PStr s)" "has_ty v TInt \<longleftrightarrow> (\<exists>i. v = PInt i)"
  "has_ty v (TList U) \<longleftrightarrow> (\<exists>rs. v = PList rs \<and> list_all (\<lambda>r. typed_fields r U) rs)"
  by (cases v; simp)+

text \<open>A well-typed template does not fail.\<close>

lemma typed_template_runs: "ok_node T n \<Longrightarrow> typed_fields d T \<Longrightarrow> \<exists>s. exec_node n d = Inr s"
proof (induction n arbitrary: T d)
  case (FldN f)
  then obtain t where "map_of T f = Some t" by auto
  from lookup_typed [OF FldN(2) this] show ?case by auto
next
  case (LenN f)
  then obtain t where t: "map_of T f = Some t" "t \<noteq> TInt" by (auto split: option.splits)
  from lookup_typed [OF LenN(2) t(1)] obtain v where "lookup_field d f = Inr v" "has_ty v t" by blast
  with t(2) show ?case by (cases v) auto
next
  case (IfN f a b)
  then obtain t where "map_of T f = Some t" by auto
  from lookup_typed [OF IfN.prems(2) this] obtain v where v: "lookup_field d f = Inr v" by blast
  have "\<exists>s. concat_results (map (\<lambda>n. exec_node n d) (if truth v then a else b)) = Inr s"
  proof (rule concat_results_ok)
    fix n assume "n \<in> set (if truth v then a else b)"
    then consider "n \<in> set a" | "n \<in> set b" by (cases "truth v") auto
    then show "\<exists>s. exec_node n d = Inr s"
      by cases (use IfN.IH IfN.prems in \<open>auto simp: list_all_iff\<close>)
  qed
  with v show ?case by (auto split: if_splits)
next
  case (RangeN f body)
  then obtain U where U: "map_of T f = Some (TList U)" "list_all (ok_node U) body"
    by (auto split: option.splits ty.splits)
  from lookup_typed [OF RangeN(3) U(1)] obtain rs where rs: "lookup_field d f = Inr (PList rs)"
    "list_all (\<lambda>r. typed_fields r U) rs" by (auto simp: has_ty_cases)
  have "\<exists>s. concat_results (map (\<lambda>n. exec_node n r) body) = Inr s" if "r \<in> set rs" for r
  proof (rule concat_results_ok)
    fix n assume "n \<in> set body"
    with U(2) rs(2) that show "\<exists>s. exec_node n r = Inr s"
      by (intro RangeN.IH) (auto simp: list_all_iff)
  qed
  with rs(1) show ?case using concat_results_ok [of rs "\<lambda>r. concat_results (map (\<lambda>n. exec_node n r) body)"] by simp
qed simp

text \<open>A template shows a field when its text is part of every output: where the field is tested first, its text is
  empty in the other branch; a slice is shown by a loop that shows the fields of the element.\<close>

fun strings_of :: "pval \<Rightarrow> string list" where
  "strings_of (PStr s) = [s]"
| "strings_of (PInt i) = []"
| "strings_of (PList rs) = concat (map (\<lambda>r. concat (map (\<lambda>p. strings_of (snd p)) r)) rs)"

fun displays :: "ty \<Rightarrow> string \<Rightarrow> node \<Rightarrow> bool" where
  "displays t f (TxtN _) = False"
| "displays t f (FldN g) = (g = f \<and> t = TStr)"
| "displays t f (LenN _) = False"
| "displays t f (IfN g a b) = (list_ex (displays t f) a \<and> (g = f \<or> list_ex (displays t f) b))"
| "displays t f (RangeN g body) = (g = f \<and>
     (case t of TList U \<Rightarrow> distinct (map fst U) \<and> list_all (\<lambda>(k, u). u = TInt \<or> list_ex (displays u k) body) U | _ \<Rightarrow> False))"

lemma concat_results_sublist:
  "concat_results (map f xs) = Inr out \<Longrightarrow> x \<in> set xs \<Longrightarrow> \<exists>s. f x = Inr s \<and> sublist s out"
proof (induction xs arbitrary: out)
  case (Cons y ys)
  then obtain s t where st: "f y = Inr s" "concat_results (map f ys) = Inr t" "out = s @ t"
    by (cases "f y"; cases "concat_results (map f ys)") auto
  show ?case
  proof (cases "x = y")
    case False
    with Cons st obtain u where "f x = Inr u" "sublist u t" by auto
    with st(3) show ?thesis by (meson sublist_append_leftI sublist_order.order_trans)
  qed (use st in auto)
qed simp

lemma sublist_concat_results:
  "concat_results (map f xs) = Inr out \<Longrightarrow> x \<in> set xs \<Longrightarrow> (\<And>s. f x = Inr s \<Longrightarrow> sublist t s) \<Longrightarrow> sublist t out"
  using concat_results_sublist sublist_order.order_trans by metis

lemma shown_field:
  "displays t f n \<Longrightarrow> lookup_field d f = Inr v \<Longrightarrow> has_ty v t \<Longrightarrow> exec_node n d = Inr out \<Longrightarrow>
   s \<in> set (strings_of v) \<Longrightarrow> sublist s out"
proof (induction n arbitrary: t f d v out s)
  case (IfN g a b)
  from IfN.prems(4) obtain w where w: "lookup_field d g = Inr w"
    "concat_results (map (\<lambda>n. exec_node n d) (if truth w then a else b)) = Inr out"
    by (auto simp: bindr_Inr split: if_splits)
  show ?case
  proof (cases "truth w \<or> g \<noteq> f")
    case True
    with IfN.prems(1) obtain n where n: "n \<in> set (if truth w then a else b)" "displays t f n"
      by (cases "truth w") (auto simp: list_ex_iff)
    show ?thesis
    proof (rule sublist_concat_results [OF w(2) n(1)])
      fix x assume "exec_node n d = Inr x"
      with IfN.IH n IfN.prems(2,3,5) show "sublist s x" by (auto split: if_splits)
    qed
  next
    case False
    with w(1) IfN.prems(2,5) show ?thesis by (cases v) auto
  qed
next
  case (RangeN g body)
  from RangeN.prems(1,3) obtain U rs where U: "g = f" "t = TList U" "v = PList rs" "list_all (\<lambda>r. typed_fields r U) rs"
    "distinct (map fst U)" "list_all (\<lambda>(k, u). u = TInt \<or> list_ex (displays u k) body) U" by (auto simp: has_ty_cases split: ty.splits)
  with RangeN.prems(5) obtain r where r: "r \<in> set rs" "s \<in> set (concat (map (\<lambda>p. strings_of (snd p)) r))" by auto
  from U(4) r(1) have rU: "typed_fields r U" by (simp add: list_all_iff)
  from r(2) obtain p where p: "p \<in> set r" "s \<in> set (strings_of (snd p))" by auto
  from rU p(1) obtain u where u: "(fst p, u) \<in> set U" "has_ty (snd p) u" by (rule typed_member)
  note look = typed_lookup [OF rU U(5) p(1)]
  from RangeN.prems(2,4) U have out: "concat_results (map (\<lambda>r. concat_results (map (\<lambda>n. exec_node n r) body)) rs) = Inr out"
    by simp
  show ?case
  proof (rule sublist_concat_results [OF out r(1)])
    fix x assume x: "concat_results (map (\<lambda>n. exec_node n r) body) = Inr x"
    from u p(2) have "u \<noteq> TInt" by (cases "snd p") auto
    with u(1) U(6) obtain n where n: "n \<in> set body" "displays u (fst p) n" by (auto simp: list_all_iff list_ex_iff)
    show "sublist s x"
      by (rule sublist_concat_results [OF x n(1)]) (use RangeN.IH [OF n(1,2) look u(2) _ p(2)] in blast)
  qed
next
  case (FldN g)
  then show ?case by (auto simp: has_ty_cases)
qed simp_all

section \<open>Every prompt renders\<close>

fun fields_ty :: "prompt_type \<Rightarrow> (string \<times> ty) list" where
  "fields_ty TypeReview = [(''OriginalGoal'', TStr), (''PlanSummary'', TStr), (''RecentActivity'', TStr)]"
| "fields_ty TypeWorker = [(''Goal'', TStr), (''Action'', TStr)]"
| "fields_ty TypeCompressTool = [(''ToolName'', TStr), (''FieldKey'', TStr), (''OrigLen'', TInt), (''Raw'', TStr)]"
| "fields_ty TypeSemanticJudge = [(''OldVal'', TStr), (''NewVal'', TStr)]"
| "fields_ty TypeSummarize = [(''ExistingSummary'', TStr), (''Messages'', TStr)]"
| "fields_ty TypeMemoryScore = [(''Items'', TStr)]"
| "fields_ty TypeMemoryReflect = [(''Items'', TStr)]"
| "fields_ty TypeExtract = [(''SessionSummary'', TStr), (''ExistingItems'', TStr), (''CheckpointGoals'', TStr),
     (''UserMessage'', TStr), (''Conversation'', TStr)]"
| "fields_ty TypePlanConfirm = [(''Name'', TStr), (''ID'', TStr),
     (''Tasks'', TList [(''Index'', TInt), (''ID'', TStr), (''Goal'', TStr), (''Action'', TStr), (''Deps'', TStr)])]"
| "fields_ty TypePlanStatus = [(''Name'', TStr), (''Status'', TStr), (''Done'', TInt), (''Total'', TInt), (''Failed'', TInt),
     (''FailedTasks'', TList [(''ID'', TStr), (''Goal'', TStr), (''Reason'', TStr)])]"
| "fields_ty (TypeUnknown _) = []"

lemma fields_typed: "typed_fields (param_fields p) (fields_ty (type_of_params p))"
  by (cases p) (auto simp: list_all_iff)

lemma factory_typed:
  "list_all (\<lambda>(pt, ns). list_all (ok_node (fields_ty pt)) ns) new_factory"
  by code_simp

lemma factory_displays:
  "list_all (\<lambda>(pt, ns). distinct (map fst (fields_ty pt)) \<and>
     list_all (\<lambda>(f, t). t = TInt \<or> list_ex (displays t f) ns) (fields_ty pt)) new_factory"
  by code_simp

lemma factory_complete: "\<exists>ns. map_of new_factory (type_of_params p) = Some ns"
  by (cases p) (simp_all add: new_factory_def)

lemma params_render:
  "\<exists>out. render new_factory (type_of_params p) p = Inr out \<and>
     must_render new_factory (type_of_params p) p = Some out \<and>
     list_all (\<lambda>s. sublist s out) (concat (map (\<lambda>q. strings_of (snd q)) (param_fields p)))"
proof -
  let ?pt = "type_of_params p" and ?T = "fields_ty (type_of_params p)"
  obtain ns where ns: "map_of new_factory ?pt = Some ns" using factory_complete by blast
  then have mem: "(?pt, ns) \<in> set new_factory" by (rule map_of_SomeD)
  with factory_typed have ok: "list_all (ok_node ?T) ns" by (auto simp: list_all_iff)
  have "\<exists>out. exec_template ns (param_fields p) = Inr out" unfolding exec_template_def
    by (rule concat_results_ok) (use ok typed_template_runs [OF _ fields_typed] in \<open>auto simp: list_all_iff\<close>)
  then obtain out where out: "exec_template ns (param_fields p) = Inr out" by blast
  have "sublist s out" if q: "q \<in> set (param_fields p)" "s \<in> set (strings_of (snd q))" for q s
  proof -
    from fields_typed q(1) obtain u where u: "(fst q, u) \<in> set ?T" "has_ty (snd q) u" by (rule typed_member)
    from factory_displays mem have d: "distinct (map fst ?T)"
      "list_all (\<lambda>(f, t). t = TInt \<or> list_ex (displays t f) ns) ?T" by (auto simp: list_all_iff)
    from typed_lookup [OF fields_typed d(1) q(1)] have look: "lookup_field (param_fields p) (fst q) = Inr (snd q)" .
    from u(2) q(2) have "u \<noteq> TInt" by (cases "snd q") auto
    with u(1) d(2) obtain n where n: "n \<in> set ns" "displays u (fst q) n" by (auto simp: list_all_iff list_ex_iff)
    show ?thesis
      by (rule sublist_concat_results [OF out [unfolded exec_template_def] n(1)])
        (rule shown_field [OF n(2) look u(2) _ q(2)])
  qed
  with out ns show ?thesis by (auto simp: render_def must_render_def list_all_iff)
qed

text \<open>C31. Every kind of prompt renders with its own parameters, whatever they contain, so \<open>MustRender\<close> does not panic on them;
  and every text among the parameters is in the prompt verbatim, never read as a part of the template.\<close>

theorem every_prompt_renders:
  "\<exists>out. render new_factory (type_of_params p) p = Inr out \<and>
     must_render new_factory (type_of_params p) p = Some out \<and>
     list_all (\<lambda>s. sublist s out) (concat (map (\<lambda>q. strings_of (snd q)) (param_fields p)))"
  by (rule params_render)

text \<open>The two prompts of a plan are missing in the names of the types; an unknown type is an error.\<close>

lemma plan_prompts_unnamed: "type_string TypePlanConfirm = ''Unknown''" "type_string TypePlanStatus = ''Unknown''"
  by simp_all

lemma unknown_prompt: "render new_factory (TypeUnknown n) p = Inl (ErrOther ''unknown prompt type: Unknown'')"
  by (simp add: render_def new_factory_def)

text \<open>The states without a prompt of their own get the one of the plan phase.\<close>

lemma planner_prompt_default:
  "planner_prompt PSNone = planner_init_tmpl" "planner_prompt PSRejected = planner_init_tmpl"
  by (simp_all add: planner_prompt_def planner_templates_def)

end
