(* ===== verification/ModelCalls.thy ===== *)
theory ModelCalls
  imports Prompts Worker Fsm
begin

text \<open>
  The single calls of a model around the loop: the drift reviewer (runtime/engine/infra/reviewer.go), the compressor of
  session memory (memory/compressor.go), the semantic judge (runtime/agent\_loop.go), the rendering of plan and worker
  prompts, and the tools \<open>context_compress\<close> and \<open>set_work_mode\<close> (tools/internals).  A model yields its
  events with its answer; where the source passes no event handler they go nowhere.
\<close>

section \<open>Providers\<close>

definition with_events :: "'s hooks \<Rightarrow> agent_identity \<Rightarrow> 's chat_model \<Rightarrow> 's provider" where
  "with_events h i model ms ts s = (case model ms ts s of (s', evs, g) \<Rightarrow> (deliver_all h i evs s', g))"

definition silent :: "'s chat_model \<Rightarrow> 's provider" where
  "silent model ms ts s = (case model ms ts s of (s', evs, g) \<Rightarrow> (s', g))"

definition prompt_request :: "string \<Rightarrow> mode \<Rightarrow> unit request" where
  "prompt_request prompt md =
     \<lparr>rq_prompt = prompt, rq_messages = None, rq_mode = md, rq_target = None, rq_tool = None\<rparr>"

section \<open>Reviewer (reviewer.go)\<close>

definition reviewer_report_definition :: tool_definition where
  "reviewer_report_definition =
     \<lparr>td_name = ''reviewer_report'', td_description = ''Report your goal-alignment assessment.'',
      td_schema =
      [(''type'', VStr ''object''),
       (''properties'', VMap [
          (''drift'', field ''boolean'' ''true if execution has drifted from the original goal''),
          (''reason'', field ''string'' ''Brief explanation''),
          (''suggestion'', field ''string'' ''Suggested action if drift detected'')]),
       (''required'', VList [VStr ''drift'', VStr ''reason''])],
      td_output_schema = [], td_terminating = False\<rparr>"

definition no_drift :: "string \<Rightarrow> usage option \<Rightarrow> review_result" where
  "no_drift reason u = \<lparr>rv_drift = False, rv_reason = reason, rv_suggestion = [], rv_usage = u\<rparr>"

definition review_request :: "string \<Rightarrow> string \<Rightarrow> unit request" where
  "review_request mid prompt =
     \<lparr>rq_prompt = [], rq_messages = Some [new_user_message mid (TextContent prompt)], rq_mode = ModeToolCall,
      rq_target = None, rq_tool = Some reviewer_report_definition\<rparr>"

definition string_arg :: "(string \<times> val) list \<Rightarrow> string \<Rightarrow> string" where
  "string_arg args k = (case map_of args k of Some (VStr t) \<Rightarrow> t | _ \<Rightarrow> [])"

definition review :: "string \<Rightarrow> 's hooks \<Rightarrow> 's chat_model \<Rightarrow> string \<Rightarrow> string \<Rightarrow> string \<Rightarrow> 's \<Rightarrow> 's \<times> review_result" where
  "review mid h model goal summary activity s =
     (case render new_factory TypeReview (ReviewParams goal summary activity) of
        Inl e \<Rightarrow> (s, no_drift (''prompt render: '' @ err_text e) None)
      | Inr prompt \<Rightarrow>
          (case call (with_events h AgentReviewer model) mid (review_request mid prompt) s of
             (s', res, Some e) \<Rightarrow>
               (s', if err_is e ErrNoToolCall then no_drift ''no reviewer_report call received'' (lr_usage res)
                    else no_drift (''reviewer error: '' @ err_text e) (lr_usage res))
           | (s', res, None) \<Rightarrow>
               (s', case map_of (lr_args res) ''drift'' of
                      Some (VBool drift) \<Rightarrow>
                        \<lparr>rv_drift = drift, rv_reason = string_arg (lr_args res) ''reason'',
                         rv_suggestion = string_arg (lr_args res) ''suggestion'', rv_usage = lr_usage res\<rparr>
                    | _ \<Rightarrow> no_drift ''reviewer_report: drift field missing or non-bool'' (lr_usage res))))"

section \<open>Compressor (compressor.go)\<close>

definition summarize :: "string \<Rightarrow> 's chat_model \<Rightarrow> message list \<Rightarrow> string \<Rightarrow> 's \<Rightarrow>
    's \<times> string \<times> usage option \<times> err option" where
  "summarize mid model ms existing s =
     (case render new_factory TypeSummarize (SummarizeParams existing (format_messages ms)) of
        Inl e \<Rightarrow> (s, [], None, Some (ErrWrap ''compressor: render'' e))
      | Inr prompt \<Rightarrow>
          (case call (silent model) mid (prompt_request prompt ModeText) s of
             (s', res, Some e) \<Rightarrow> (s', [], lr_usage res, Some (ErrWrap ''compressor: generate'' e))
           | (s', res, None) \<Rightarrow> (s', lr_text res, lr_usage res, None)))"

definition summarize_tool_result_field :: "string \<Rightarrow> 's chat_model \<Rightarrow> string \<Rightarrow> string \<Rightarrow> string \<Rightarrow> 's \<Rightarrow>
    's \<times> (err + string)" where
  "summarize_tool_result_field mid model tool key raw s =
     (case render new_factory TypeCompressTool (CompressToolParams tool key (int (length raw)) raw) of
        Inl e \<Rightarrow> (s, Inl (ErrWrap ''compressor: render'' e))
      | Inr prompt \<Rightarrow>
          (case call (silent model) mid (prompt_request prompt ModeText) s of
             (s', res, Some e) \<Rightarrow> (s', Inl e)
           | (s', res, None) \<Rightarrow> (s', Inr (go_trim_space (lr_text res)))))"

text \<open>\<open>Compress\<close> with the model as summariser, without anything between its steps.\<close>

definition compress_with_model :: "string \<Rightarrow> 's chat_model \<Rightarrow> nat \<Rightarrow> nat \<Rightarrow> session \<Rightarrow> 's \<Rightarrow>
    's \<times> session \<times> usage option \<times> err option" where
  "compress_with_model mid model keep_last_n min_messages ss s =
     (case compress_snapshot keep_last_n min_messages ss of
        None \<Rightarrow> (s, ss, None, None)
      | Some sn \<Rightarrow>
          (case summarize mid model (sn_old sn) (sn_summary sn) s of
             (s', answer) \<Rightarrow> (s', compress_finish (\<lambda>_ _. answer) sn ss)))"

section \<open>Semantic judge (agent\_loop.go)\<close>

definition semantic_judge :: "string \<Rightarrow> 's chat_model \<Rightarrow> string \<Rightarrow> string \<Rightarrow> 's \<Rightarrow> 's \<times> bool" where
  "semantic_judge mid model old_val new_val s =
     (case render new_factory TypeSemanticJudge (SemanticJudgeParams old_val new_val) of
        Inl _ \<Rightarrow> (s, False)
      | Inr prompt \<Rightarrow>
          (case call (silent model) mid (prompt_request prompt ModeBool) s of
             (s', res, Some _) \<Rightarrow> (s', False)
           | (s', res, None) \<Rightarrow> (s', lr_bool res)))"

section \<open>Prompts of plans and workers\<close>

definition render_confirm :: "plan_confirm_params \<Rightarrow> err + string" where
  "render_confirm p =
     render new_factory TypePlanConfirm
       (PlanConfirmParams (pc_name p) (pc_id p)
         (map (\<lambda>t. (int (pt_index t), pt_id t, pt_goal t, pt_action t, pt_deps t)) (pc_tasks p)))"

definition render_status :: "plan_status_params \<Rightarrow> err + string" where
  "render_status p =
     render new_factory TypePlanStatus
       (PlanStatusParams (ps_name p) (ps_status p) (int (ps_done p)) (int (ps_total p)) (int (ps_failed p)) (ps_failed_tasks p))"

definition render_worker :: "string \<Rightarrow> string \<Rightarrow> err + string" where
  "render_worker goal action = render new_factory TypeWorker (WorkerParams goal action)"

section \<open>Tools\<close>

definition context_compress_definition :: tool_definition where
  "context_compress_definition =
     \<lparr>td_name = ''context_compress'',
      td_description =
      (''Compress the current conversation history into a compact summary to free context-window '' @
      ''space. Recent messages are preserved. Call this when the conversation is running long.''),
      td_schema =
      [(''type'', VStr ''object''),
       (''properties'', VMap [])],
      td_output_schema =
      [(''type'', VStr ''object''),
       (''properties'', VMap [
          (''compressed'', field ''boolean'' ''true if the history was compressed.''),
          (''total_tokens'', field ''integer''
            ''Total tokens used by the summarization call (if any).''),
          (''input_tokens'', field ''integer''
            ''Input tokens used by the summarization call (if any).''),
          (''output_tokens'', field ''integer''
            ''Output tokens used by the summarization call (if any).'')])],
      td_terminating = False\<rparr>"

definition set_work_mode_definition :: tool_definition where
  "set_work_mode_definition =
     \<lparr>td_name = ''set_work_mode'',
      td_description = (''Set the execution mode. Use '' @ sq @ ''plan'' @ sq @
      '' for complex multi-step tasks that require planning and task decomposition. Use '' @ sq @
      ''simple'' @ sq @ '' for straightforward single-step tasks that can be done directly.''),
      td_schema =
      [(''type'', VStr ''object''),
       (''properties'', VMap [
          (''mode'', field ''string'' (''Execution mode: '' @ sq @ ''plan'' @ sq @ '' or '' @ sq @
            ''simple'' @ sq))]),
       (''required'', VList [VStr ''mode''])],
      td_output_schema =
      [(''type'', VStr ''object''),
       (''properties'', VMap [
          (''mode'', VMap [(''type'', VStr ''string'')])])],
      td_terminating = True\<rparr>"

text \<open>\<open>compress_fn\<close> is what \<open>BindContextCompress\<close> has bound.\<close>

definition context_compress_exec :: "('s \<Rightarrow> 's \<times> usage option \<times> err option) option \<Rightarrow> 's tool_fn" where
  "context_compress_exec compress_fn sid d s =
     (case compress_fn of
        None \<Rightarrow> (s, error_result (tcd_id d) ''context_compress'' (ErrOther ''context compression not configured''))
      | Some compress \<Rightarrow>
          (case compress s of
             (s', _, Some e) \<Rightarrow> (s', error_result (tcd_id d) ''context_compress'' e)
           | (s', u, None) \<Rightarrow>
               (s', success_result (tcd_id d) ''context_compress''
                  ((''compressed'', VBool True) #
                   (case u of None \<Rightarrow> []
                    | Some u \<Rightarrow> [(''total_tokens'', VInt (sint (u_total u))), (''input_tokens'', VInt (sint (u_input u))),
                                 (''output_tokens'', VInt (sint (u_output u)))])))))"

definition set_work_mode_exec :: "'s tool_fn" where
  "set_work_mode_exec sid d s =
     (case arg d ''mode'' of
        Inl e \<Rightarrow> (s, error_result (tcd_id d) ''set_work_mode'' e)
      | Inr md \<Rightarrow>
          (case one_of md [''plan'', ''simple''] of
             Some e \<Rightarrow> (s, error_result (tcd_id d) ''set_work_mode'' e)
           | None \<Rightarrow> (s, success_result (tcd_id d) ''set_work_mode'' [(''mode'', VStr md)])))"

definition register_context_compress_tool :: "('s \<Rightarrow> 's \<times> usage option \<times> err option) option \<Rightarrow> 's registry \<Rightarrow> 's registry" where
  "register_context_compress_tool compress_fn tr =
     mark_as_internal [td_name context_compress_definition]
       (register context_compress_definition (context_compress_exec compress_fn) tr)"

section \<open>Lemmas\<close>

lemma renders: "\<exists>out. render new_factory (type_of_params p) p = Inr out \<and>
    list_all (\<lambda>t. sublist t out) (concat (map (\<lambda>q. strings_of (snd q)) (param_fields p)))"
  using params_render by blast

lemma plan_prompt_renders: "\<exists>out. render_confirm p = Inr out" "\<exists>out. render_status q = Inr out"
  using params_render [of "PlanConfirmParams (pc_name p) (pc_id p)
      (map (\<lambda>t. (int (pt_index t), pt_id t, pt_goal t, pt_action t, pt_deps t)) (pc_tasks p))"]
    params_render [of "PlanStatusParams (ps_name q) (ps_status q) (int (ps_done q)) (int (ps_total q)) (int (ps_failed q))
      (ps_failed_tasks q)"]
  unfolding render_confirm_def render_status_def type_of_params.simps by blast+

lemma worker_prompt_renders: "\<exists>out. render_worker goal action = Inr out \<and> sublist goal out \<and> sublist action out"
  using renders [of "WorkerParams goal action"] by (auto simp: render_worker_def)

text \<open>With these renderers the machine always has a prompt.\<close>

definition with_prompts :: "'x deps \<Rightarrow> 'x deps" where
  "with_prompts d = d\<lparr>fd_render_confirm := render_confirm, fd_render_status := render_status,
     fd_planner_prompt := planner_prompt\<rparr>"

lemma build_prompt_total: "\<exists>p. build_prompt (with_prompts d) st plan = Inr p"
proof -
  obtain c r where "\<And>p. render_confirm p = Inr (c p)" "\<And>p. render_status p = Inr (r p)"
    using plan_prompt_renders by metis
  then show ?thesis by (auto simp: build_prompt_def with_prompts_def Let_def split: option.split)
qed

lemma silent_call:
  "model (request_messages mid req) (request_tools req) s = (s', evs, g) \<Longrightarrow>
   call (silent model) mid req s = call (\<lambda>_ _ _. (s', g)) mid req s"
  by (simp add: call_def silent_def)

lemma call_text:
  "call generate mid (prompt_request p ModeText) s =
     (case generate [new_user_message mid (TextContent p)] [] s of
        (s', GenErr e partial) \<Rightarrow>
          (s', empty_result (case partial of None \<Rightarrow> None | Some m \<Rightarrow> m_usage m), Some e)
      | (s', GenOk m) \<Rightarrow> (s', (empty_result (m_usage m))\<lparr>lr_text := extract_text (m_content m)\<rparr>, None))"
  by (simp add: call_def prompt_request_def request_messages_def request_tools_def decode_response_def
      split: prod.splits gen_result.splits)

text \<open>A summariser that fails leaves the session alone; one that answers without any text (a tool call, say) erases both the
  messages it was given and the summary of the earlier ones.\<close>

lemma failed_summary_keeps_session:
  assumes "\<And>ms ts. \<exists>s' evs e p. model ms ts s = (s', evs, GenErr e p)"
  shows "fst (snd (compress_with_model mid model keep min_messages ss s)) = ss"
proof (cases "compress_snapshot keep min_messages ss")
  case (Some sn)
  obtain out where out: "render new_factory TypeSummarize (SummarizeParams (sn_summary sn) (format_messages (sn_old sn))) = Inr out"
    using renders [of "SummarizeParams (sn_summary sn) (format_messages (sn_old sn))"] by auto
  obtain s' evs e p where "model [new_user_message mid (TextContent out)] [] s = (s', evs, GenErr e p)"
    using assms by blast
  with Some out show ?thesis
    by (simp add: compress_with_model_def summarize_def call_text silent_def compress_finish_def)
qed (simp add: compress_with_model_def)

lemma wordless_summary_erases:
  assumes "\<And>ms ts. model ms ts s = (s', evs, GenOk m)" and "extract_text (m_content m) = []"
    and "compress_snapshot keep min_messages ss = Some sn"
  shows "compress_with_model mid model keep min_messages ss s = (s', compress_update sn [] ss, m_usage m, None)"
proof -
  obtain out where "render new_factory TypeSummarize (SummarizeParams (sn_summary sn) (format_messages (sn_old sn))) = Inr out"
    using renders [of "SummarizeParams (sn_summary sn) (format_messages (sn_old sn))"] by auto
  with assms show ?thesis
    by (simp add: compress_with_model_def summarize_def call_text silent_def compress_finish_def empty_result_def)
qed

text \<open>The results of the two tools have the types of their schemas; an accepted mode is one of the two.\<close>

lemma mode_and_compress_typed:
  "well_typed set_work_mode_definition d (snd (set_work_mode_exec sid d s))"
  "well_typed context_compress_definition d (snd (context_compress_exec f sid d s))"
  by (auto simp: set_work_mode_exec_def context_compress_exec_def set_work_mode_definition_def
      context_compress_definition_def schema_simps
      intro!: well_typed_success split: sum.splits option.splits prod.splits)

lemma work_mode_is_plan_or_simple:
  "map_of (tcr_outputs (snd (set_work_mode_exec sid d s))) ''mode'' = Some v \<Longrightarrow> v \<in> {VStr ''plan'', VStr ''simple''}"
  by (auto simp: set_work_mode_exec_def error_result_def success_result_def one_of_def make_error_tool_outputs_def
      split: sum.splits option.splits if_splits)

section \<open>Properties\<close>

text \<open>The reviewer reports drift only when the model has called \<open>reviewer_report\<close> with \<open>drift\<close> true, in answer to a prompt that
  holds the original goal, the plan and the recent activity verbatim: a failed call, an answer in prose, a missing or
  ill-typed flag never cause a rollback.\<close>

theorem drift_only_on_report:
  assumes "review mid h model goal summary activity s = (s', r)" and "rv_drift r"
  shows "\<exists>prompt s1 evs resp d.
    model [new_user_message mid (TextContent prompt)] [reviewer_report_definition] s = (s1, evs, GenOk resp) \<and>
    sublist goal prompt \<and> sublist summary prompt \<and> sublist activity prompt \<and>
    List.find (\<lambda>d. tcd_name d = ''reviewer_report'') (tool_calls (m_content resp)) = Some d \<and>
    map_of (tcd_args d) ''drift'' = Some (VBool True) \<and> rv_reason r = string_arg (tcd_args d) ''reason''"
proof -
  obtain out where out: "render new_factory TypeReview (ReviewParams goal summary activity) = Inr out"
    "sublist goal out" "sublist summary out" "sublist activity out"
    using renders [of "ReviewParams goal summary activity"] by auto
  obtain s1 evs g where m: "model [new_user_message mid (TextContent out)] [reviewer_report_definition] s = (s1, evs, g)"
    by (rule prod_cases3)
  have name: "td_name reviewer_report_definition = ''reviewer_report''" by (simp add: reviewer_report_definition_def)
  note run = review_def call_def review_request_def request_messages_def request_tools_def with_events_def
  show ?thesis
  proof (cases g)
    case (GenOk resp)
    with assms out(1) m obtain d where "List.find (\<lambda>d. tcd_name d = ''reviewer_report'') (tool_calls (m_content resp)) = Some d"
      "map_of (tcd_args d) ''drift'' = Some (VBool True)" "rv_reason r = string_arg (tcd_args d) ''reason''"
      by (auto simp: run decode_response_def tool_args_def no_drift_def empty_result_def Let_def name
          split: option.splits val.splits if_splits)
    with m GenOk out(2-4) show ?thesis by blast
  next
    case (GenErr e p)
    with assms out m show ?thesis by (auto simp: run no_drift_def split: if_splits)
  qed
qed

definition demo_report :: "unit chat_model" where
  "demo_report ms ts s = (s, [], GenOk (new_message RoleAssistant [] (ToolCallContent
     [\<lparr>tcd_id = ''1'', tcd_name = ''reviewer_report'', tcd_args = [(''drift'', VBool True), (''reason'', VStr ''stuck'')]\<rparr>])))"

theorem drift_only_on_report_witness:
  "rv_drift (snd (review [] no_hooks demo_report ''goal'' ''plan'' ''failed'' ())) \<and>
   (\<exists>d :: tool_call_detail. map_of (tcd_args d) ''drift'' = Some (VBool True) \<and> string_arg (tcd_args d) ''reason'' = ''stuck'')"
proof -
  let ?r = "review [] no_hooks demo_report ''goal'' ''plan'' ''failed'' ()"
  obtain out where out: "render new_factory TypeReview (ReviewParams ''goal'' ''plan'' ''failed'') = Inr out"
    using renders [of "ReviewParams ''goal'' ''plan'' ''failed''"] by auto
  have r: "?r = ((), \<lparr>rv_drift = True, rv_reason = ''stuck'', rv_suggestion = [], rv_usage = None\<rparr>)"
    by (simp add: review_def out call_def review_request_def request_messages_def request_tools_def with_events_def
        demo_report_def deliver_all_def decode_response_def tool_args_def empty_result_def reviewer_report_definition_def
        new_message_def string_arg_def)
  let ?x = "\<lparr>rv_drift = True, rv_reason = ''stuck'', rv_suggestion = [], rv_usage = None\<rparr>"
  have "rv_drift ?x" by simp
  from drift_only_on_report [OF r this] obtain d :: tool_call_detail where d: "map_of (tcd_args d) ''drift'' = Some (VBool True)"
    "rv_reason ?x = string_arg (tcd_args d) ''reason''" by blast
  show ?thesis
  proof (intro conjI exI)
    show "rv_drift (snd ?r)" by (simp add: r)
    show "map_of (tcd_args d) ''drift'' = Some (VBool True)" by (rule d(1))
    show "string_arg (tcd_args d) ''reason'' = ''stuck''" using d(2) by simp
  qed
qed

end
