(* ===== verification/Extractor.thy ===== *)
theory Extractor
  imports Prompts Dream LlmCaller
begin

text \<open>
  The model calls of long-term memory: extraction of memories from a conversation
  (memory/longterm/write/extractor.go) with the run of the write pipeline on it, and the two questions of a dream
  (memory/longterm/dream/dream.go).  \<open>json.Unmarshal\<close> is split into the parsing of the text, an argument, and the
  decoding of the tree by the fields of the struct.  \<open>None\<close> is the panic of \<open>MustRender\<close>.
\<close>

section \<open>Rendering\<close>

definition truncate_text :: "string \<Rightarrow> nat \<Rightarrow> string" where
  "truncate_text s max_len = (if length s \<le> max_len then s else take (max_len - 3) s @ ''...'')"

text \<open>The verb \<open>%.2f\<close>: rounded to two places, ties to even.\<close>

definition round_even :: "rat \<Rightarrow> int" where
  "round_even r =
     (let f = \<lfloor>r\<rfloor>; d = r - of_int f
      in if d < 1 / 2 \<or> d = 1 / 2 \<and> even f then f else f + 1)"

definition fixed2 :: "rat \<Rightarrow> string" where
  "fixed2 r =
     (let n = nat (round_even (100 * \<bar>r\<bar>))
      in (if r < 0 then ''-'' else []) @ nat_dec (n div 100) @ ''.'' @ [digit_char (n mod 100 div 10), digit_char (n mod 10)])"

record extraction_context =
  xc_session_id :: string
  xc_user_message :: string
  xc_conversation :: "message list"
  xc_session_summary :: string
  xc_existing_items :: "memory_item list"
  xc_checkpoint_goals :: "string list"

text \<open>\<open>xe_show\<close> is the verb \<open>%v\<close>; a Go map is listed in the order of its association list.\<close>

record extract_env =
  xe_show :: "val \<Rightarrow> string"
  xe_parse :: "string \<Rightarrow> err + json"
  xe_mid :: string

definition format_existing_items :: "memory_item list \<Rightarrow> string" where
  "format_existing_items items =
     concat (map (\<lambda>f. ''- ['' @ mi_section f @ ''] '' @ mi_key f @ '': '' @ mi_value f @ '' (c'' @
       fixed2 (mi_confidence f) @ '')'' @ nl) items)"

definition format_checkpoint_goals :: "string list \<Rightarrow> string" where
  "format_checkpoint_goals goals = concat (map (\<lambda>g. ''- '' @ g @ nl) goals)"

definition compact_args :: "(val \<Rightarrow> string) \<Rightarrow> (string \<times> val) list \<Rightarrow> string" where
  "compact_args show args =
     str_join '', '' (map (\<lambda>(k, v).
       let s = show v; s' = (if length s > 80 then take 77 s @ ''...'' else s) in k @ ''='' @ go_quote s') args)"

definition summarize_tool_calls :: "(val \<Rightarrow> string) \<Rightarrow> tool_call_detail list \<Rightarrow> string" where
  "summarize_tool_calls show details =
     (if details = [] then []
      else ''[Tool calls: '' @
        str_join '', '' (map (\<lambda>d. tcd_name d @ ''('' @ compact_args show (tcd_args d) @ '')'') details) @ '']'' @ nl)"

definition summarize_tool_results :: "(val \<Rightarrow> string) \<Rightarrow> tool_call_result list \<Rightarrow> string" where
  "summarize_tool_results show results =
     (if results = [] then []
      else ''[Tool results: '' @
        str_join '', '' (map (\<lambda>r. tcr_name r @ '' '' @ arrow @
          (case map_of (tcr_outputs r) ''error'' of
             Some e \<Rightarrow> '' ERROR: '' @ show e
           | None \<Rightarrow> '' '' @ int_dec (int (length (tcr_outputs r))) @ '' output fields'')) results) @ '']'' @ nl)"

fun summarize_content :: "(val \<Rightarrow> string) \<Rightarrow> content \<Rightarrow> string" where
  "summarize_content show (TextContent t) = (if length t > 20 then truncate_text t 500 @ nl else [])"
| "summarize_content show (ToolCallContent ds) = summarize_tool_calls show ds"
| "summarize_content show (ToolResultContent rs) = summarize_tool_results show rs"
| "summarize_content show _ = []"

definition summarize_conversation :: "(val \<Rightarrow> string) \<Rightarrow> message list \<Rightarrow> string" where
  "summarize_conversation show ms = concat (map (\<lambda>m. summarize_content show (m_content m)) ms)"

definition extract_prompt :: "extract_env \<Rightarrow> extraction_context \<Rightarrow> string option" where
  "extract_prompt env ec =
     must_render new_factory TypeExtract
       (ExtractParams (xc_session_summary ec) (format_existing_items (xc_existing_items ec))
          (format_checkpoint_goals (xc_checkpoint_goals ec)) (xc_user_message ec)
          (summarize_conversation (xe_show env) (xc_conversation ec)))"

section \<open>Decoding\<close>

definition dec_candidate :: "json \<Rightarrow> err + item_candidate" where
  "dec_candidate j =
     bindr (dec_obj j) (\<lambda>ob. bindr (dec_str (ob ''section'')) (\<lambda>s. bindr (dec_str (ob ''key'')) (\<lambda>k.
     bindr (dec_str (ob ''value'')) (\<lambda>v. bindr (dec_str (ob ''source_evidence'')) (\<lambda>e.
     bindr (dec_num (ob ''suggested_confidence'')) (\<lambda>c.
       Inr \<lparr>cd_section = s, cd_key = k, cd_value = v, cd_evidence = e, cd_confidence = c\<rparr>))))))"

definition dec_entity :: "json \<Rightarrow> err + entity_candidate" where
  "dec_entity j =
     bindr (dec_obj j) (\<lambda>ob. bindr (dec_str (ob ''name'')) (\<lambda>n. bindr (dec_str (ob ''type'')) (\<lambda>t.
     bindr (dec_arr (ob ''labels'')) (\<lambda>js. bindr (traverse (\<lambda>j. dec_str (Some j)) js) (\<lambda>ls.
       Inr \<lparr>ec_name = n, ec_type = t, ec_labels = ls\<rparr>)))))"

definition dec_relationship :: "json \<Rightarrow> err + rel_candidate" where
  "dec_relationship j =
     bindr (dec_obj j) (\<lambda>ob. bindr (dec_str (ob ''from'')) (\<lambda>f. bindr (dec_str (ob ''to'')) (\<lambda>t.
     bindr (dec_str (ob ''type'')) (\<lambda>ty. bindr (dec_num (ob ''weight'')) (\<lambda>w.
       Inr \<lparr>rc_from = f, rc_to = t, rc_type = ty, rc_weight = w\<rparr>)))))"

definition dec_list :: "(json \<Rightarrow> err + 'a) \<Rightarrow> json option \<Rightarrow> err + 'a list" where
  "dec_list dec j = bindr (dec_arr j) (traverse dec)"

type_synonym full_result = "item_candidate list \<times> entity_candidate list \<times> rel_candidate list"

definition dec_full_result :: "json \<Rightarrow> err + full_result" where
  "dec_full_result j =
     bindr (dec_obj j) (\<lambda>ob. bindr (dec_list dec_candidate (ob ''items'')) (\<lambda>is.
     bindr (dec_list dec_entity (ob ''entities'')) (\<lambda>es.
     bindr (dec_list dec_relationship (ob ''relationships'')) (\<lambda>rs. Inr (is, es, rs)))))"

text \<open>The text from the first \<open>start\<close> to the last \<open>stop\<close>, if the latter comes later.\<close>

definition text_between :: "string \<Rightarrow> string \<Rightarrow> char \<Rightarrow> string option" where
  "text_between t start stop =
     (case (go_index t start, go_last_index t [stop]) of
        (Some i, Some e) \<Rightarrow> if e \<le> i then None else Some (drop i (take (e + 1) t))
      | _ \<Rightarrow> None)"

definition parse_response_items :: "extract_env \<Rightarrow> string \<Rightarrow> err + item_candidate list" where
  "parse_response_items env t =
     (case text_between t ''['' (CHR '']'') of
        None \<Rightarrow> Inl (ErrOther ''no JSON array found in response'')
      | Some s \<Rightarrow>
          (case bindr (xe_parse env s) (\<lambda>j. dec_list dec_candidate (Some j)) of
             Inl e \<Rightarrow> Inl (ErrWrap ''json decode'' e)
           | Inr cs \<Rightarrow> Inr cs))"

definition items_start :: string where
  "items_start = ''{'' @ dq @ ''items'' @ dq"

definition parse_full_response :: "extract_env \<Rightarrow> string \<Rightarrow> err + full_result" where
  "parse_full_response env t =
     (case text_between t items_start (CHR ''}'') of
        None \<Rightarrow> Inl (ErrOther ''no JSON object found'')
      | Some s \<Rightarrow>
          (case bindr (xe_parse env s) dec_full_result of
             Inl e \<Rightarrow> Inl (ErrWrap ''json decode'' e)
           | Inr r \<Rightarrow> Inr r))"

section \<open>The calls\<close>

definition text_request :: "string \<Rightarrow> unit request" where
  "text_request prompt =
     \<lparr>rq_prompt = prompt, rq_messages = None, rq_mode = ModeText, rq_target = None, rq_tool = None\<rparr>"

definition extract_items :: "extract_env \<Rightarrow> 's provider \<Rightarrow> extraction_context \<Rightarrow> 's \<Rightarrow>
    ('s \<times> (err + item_candidate list) \<times> usage option) option" where
  "extract_items env generate ec s =
     (case extract_prompt env ec of
        None \<Rightarrow> None
      | Some prompt \<Rightarrow>
          (case call generate (xe_mid env) (text_request prompt) s of
             (s', res, Some e) \<Rightarrow> Some (s', Inl (ErrWrap ''extract'' e), lr_usage res)
           | (s', res, None) \<Rightarrow>
               (case parse_response_items env (lr_text res) of
                  Inl e \<Rightarrow> Some (s', Inl (ErrWrap ''extract parse'' e), lr_usage res)
                | Inr cs \<Rightarrow> Some (s', Inr cs, lr_usage res))))"

definition extract_full :: "extract_env \<Rightarrow> 's provider \<Rightarrow> extraction_context \<Rightarrow> 's \<Rightarrow>
    ('s \<times> (err + full_result) \<times> usage option) option" where
  "extract_full env generate ec s =
     (case extract_prompt env ec of
        None \<Rightarrow> None
      | Some prompt \<Rightarrow>
          (case call generate (xe_mid env) (text_request prompt) s of
             (s', res, Some e) \<Rightarrow> Some (s', Inl (ErrWrap ''extract'' e), lr_usage res)
           | (s', res, None) \<Rightarrow>
               (case parse_full_response env (lr_text res) of
                  Inr r \<Rightarrow> Some (s', Inr r, lr_usage res)
                | Inl e \<Rightarrow>
                    (case parse_response_items env (lr_text res) of
                       Inl _ \<Rightarrow> Some (s', Inl (ErrWrap ''extract parse'' e), lr_usage res)
                     | Inr cs \<Rightarrow> Some (s', Inr (cs, [], []), lr_usage res)))))"

text \<open>The extraction step of the pipeline: the second call is made only when the first one fails.  The result is
  what \<open>write_run\<close> takes, with the state after the calls.\<close>

definition run_extraction :: "extract_env \<Rightarrow> 's provider \<Rightarrow> extraction_context \<Rightarrow> 's \<Rightarrow> ('s \<times> extraction) option" where
  "run_extraction env generate ec s =
     (case extract_full env generate ec s of
        None \<Rightarrow> None
      | Some (s1, Inr r, u) \<Rightarrow> Some (s1, \<lparr>ex_full = Inr (r, u), ex_legacy = Inr ([], None)\<rparr>)
      | Some (s1, Inl e, u) \<Rightarrow>
          (case extract_items env generate ec s1 of
             None \<Rightarrow> None
           | Some (s2, Inl e2, _) \<Rightarrow> Some (s2, \<lparr>ex_full = Inl e, ex_legacy = Inl e2\<rparr>)
           | Some (s2, Inr cs, u2) \<Rightarrow> Some (s2, \<lparr>ex_full = Inl e, ex_legacy = Inr (cs, u2)\<rparr>)))"

definition extract_from_session :: "extract_env \<Rightarrow> pipe_env \<Rightarrow> 's provider \<Rightarrow> message list \<Rightarrow> string \<Rightarrow> string \<Rightarrow>
    ltm \<Rightarrow> graph option \<Rightarrow> 's \<Rightarrow> ('s \<times> pipe_state \<times> err option) option" where
  "extract_from_session env pe generate conversation summary goal l g s =
     (let ec = \<lparr>xc_session_id = [], xc_user_message = goal, xc_conversation = conversation,
                xc_session_summary = summary, xc_existing_items = lt_items l, xc_checkpoint_goals = []\<rparr>
      in case run_extraction env generate ec s of
           None \<Rightarrow> None
         | Some (s', ex) \<Rightarrow> (case write_run (pe\<lparr>pe_extract := ex\<rparr>) l g of (p, e) \<Rightarrow> Some (s', p, e)))"

section \<open>The questions of a dream\<close>

definition score_line :: "nat \<Rightarrow> dream_candidate \<Rightarrow> string" where
  "score_line i c =
     int_dec (int i + 1) @ ''. ['' @ mi_section (dc_item c) @ ''] '' @ mi_key (dc_item c) @ '': '' @
     truncate_text (mi_value (dc_item c)) 100 @ '' (c'' @ fixed2 (mi_confidence (dc_item c)) @ '', v'' @
     int_dec (mi_version (dc_item c)) @ '', graph_degree='' @ int_dec (int (dc_degree c)) @ '')'' @ nl"

definition reflect_line :: "nat \<Rightarrow> memory_item \<Rightarrow> string" where
  "reflect_line i f =
     int_dec (int i + 1) @ ''. ['' @ mi_section f @ ''] '' @ mi_key f @ '': '' @ truncate_text (mi_value f) 200 @
     '' (c'' @ fixed2 (mi_confidence f) @ '')'' @ nl"

definition dec_int :: "json option \<Rightarrow> err + int" where
  "dec_int j = bindr (dec_int64 j) (\<lambda>w. Inr (sint w))"

definition dec_score :: "json \<Rightarrow> err + item_score" where
  "dec_score j =
     bindr (dec_obj j) (\<lambda>ob. bindr (dec_str (ob ''section'')) (\<lambda>s. bindr (dec_str (ob ''key'')) (\<lambda>k.
     bindr (dec_int (ob ''score'')) (\<lambda>n. bindr (dec_str (ob ''reason'')) (\<lambda>_.
       Inr \<lparr>sc_section = s, sc_key = k, sc_score = n\<rparr>)))))"

definition dec_scores :: "json \<Rightarrow> err + item_score list" where
  "dec_scores j = bindr (dec_obj j) (\<lambda>ob. dec_list dec_score (ob ''scores''))"

definition dec_insight :: "json \<Rightarrow> err + insight" where
  "dec_insight j =
     bindr (dec_obj j) (\<lambda>ob. bindr (dec_str (ob ''section'')) (\<lambda>s. bindr (dec_str (ob ''key'')) (\<lambda>k.
     bindr (dec_str (ob ''value'')) (\<lambda>v. Inr \<lparr>in_section = s, in_key = k, in_value = v\<rparr>))))"

definition dec_insights :: "json \<Rightarrow> err + insight list \<times> string" where
  "dec_insights j =
     bindr (dec_obj j) (\<lambda>ob. bindr (dec_list dec_insight (ob ''insights'')) (\<lambda>is.
     bindr (dec_str (ob ''summary'')) (\<lambda>t. Inr (is, t))))"

text \<open>\<open>deep_sleep\<close> adds its own prefix to the errors of its call.\<close>

definition ask_json :: "extract_env \<Rightarrow> 's provider \<Rightarrow> (json \<Rightarrow> err + 'a) \<Rightarrow> prompt_params \<Rightarrow> 'a \<Rightarrow> 's \<Rightarrow>
    's \<times> (err + 'a)" where
  "ask_json env generate dec params zero s =
     (case render new_factory (type_of_params params) params of
        Inl e \<Rightarrow> (s, Inl (ErrWrap ''render'' e))
      | Inr prompt \<Rightarrow>
          (case call generate (xe_mid env)
              \<lparr>rq_prompt = prompt, rq_messages = None, rq_mode = ModeJSON,
               rq_target = Some (\<lambda>t. bindr (xe_parse env t) dec), rq_tool = None\<rparr> s of
             (s', _, Some e) \<Rightarrow> (s', Inl e)
           | (s', res, None) \<Rightarrow> (s', Inr (case lr_target res of None \<Rightarrow> zero | Some x \<Rightarrow> x))))"

definition ask_scores :: "extract_env \<Rightarrow> 's provider \<Rightarrow> dream_candidate list \<Rightarrow> 's \<Rightarrow> 's \<times> (err + item_score list)" where
  "ask_scores env generate cs =
     ask_json env generate dec_scores
       (MemoryScoreParams (concat (map (\<lambda>(i, c). score_line i c) (zip [0..<length cs] cs)))) []"

definition ask_insights :: "extract_env \<Rightarrow> 's provider \<Rightarrow> memory_item list \<Rightarrow> 's \<Rightarrow>
    's \<times> (err + insight list \<times> string)" where
  "ask_insights env generate items s =
     (case ask_json env generate dec_insights
         (MemoryReflectParams (concat (map (\<lambda>(i, f). reflect_line i f) (zip [0..<length items] items)))) ([], []) s of
        (s', Inl e) \<Rightarrow> (s', Inl (ErrWrap ''rem'' e))
      | (s', Inr r) \<Rightarrow> (s', Inr r))"

text \<open>A dream with its two calls; without candidates it makes none.\<close>

definition dream_with_model :: "extract_env \<Rightarrow> 's provider \<Rightarrow> dream_env \<Rightarrow> graph option \<Rightarrow> ltm \<Rightarrow> 's \<Rightarrow>
    's \<times> ltm \<times> dream_report \<times> err option" where
  "dream_with_model env generate de g l s =
     (let cs = light_sleep de g l in
      if cs = [] then (s, dream_run de g l)
      else
        (let (s1, ins) = ask_insights env generate (map dc_item cs) s;
             (s2, scores) = ask_scores env generate cs s1
         in (s2, dream_run (de\<lparr>de_rem := \<lambda>_. ins, de_scores := \<lambda>_. scores\<rparr>) g l)))"

text \<open>The diary entry; the time stamp and the duration come formatted.\<close>

definition to_markdown :: "string \<Rightarrow> string \<Rightarrow> dream_report \<Rightarrow> string" where
  "to_markdown stamp duration r =
     ''# Dream Report '' @ em_dash @ '' '' @ stamp @ nl @ nl @
     ''> Candidates: '' @ int_dec (int (dr_candidates r)) @ '' | Consolidated: '' @ int_dec (int (dr_high r)) @
     '' | High-score: '' @ int_dec (int (dr_high r)) @ '' | Low-score: '' @ int_dec (int (dr_low r)) @
     '' | Deprecated: '' @ int_dec (int (dr_low r)) @ '' | Promoted: '' @ int_dec (int (dr_promoted r)) @ nl @
     ''> LLM calls: '' @ int_dec (int (dr_calls r)) @ '' | Duration: '' @ duration @ nl @ nl @
     (if dr_summary r = [] then [] else ''## Summary'' @ nl @ nl @ dr_summary r @ nl @ nl) @
     (if dr_insights r = [] then []
      else ''## Insights'' @ nl @ nl @
        concat (map (\<lambda>i. ''- **'' @ in_key i @ ''**: '' @ in_value i @ nl) (dr_insights r)) @ nl)"

section \<open>The prompt\<close>

lemma extract_prompt_renders: "\<exists>p. extract_prompt env ec = Some p"
  using params_render [of "ExtractParams (xc_session_summary ec) (format_existing_items (xc_existing_items ec))
      (format_checkpoint_goals (xc_checkpoint_goals ec)) (xc_user_message ec)
      (summarize_conversation (xe_show env) (xc_conversation ec))"]
  by (auto simp: extract_prompt_def)

text \<open>A run of the extraction makes at least one call and does not panic.\<close>

lemma run_extraction_total: "\<exists>r. run_extraction env generate ec s = Some r"
proof -
  obtain p where p: "extract_prompt env ec = Some p" using extract_prompt_renders by blast
  show ?thesis
    by (auto simp: run_extraction_def extract_full_def extract_items_def p split: prod.splits option.splits sum.splits)
qed

text \<open>Messages that combine text with reasoning or tool calls, and media, are not in the prompt.\<close>

fun extractable :: "content \<Rightarrow> bool" where
  "extractable (TextContent _) = True" | "extractable (ToolCallContent _) = True"
| "extractable (ToolResultContent _) = True" | "extractable _ = False"

lemma composites_not_extracted:
  "summarize_conversation show ms = summarize_conversation show (filter (\<lambda>m. extractable (m_content m)) ms)"
proof (induction ms)
  case (Cons m ms)
  then show ?case by (cases "m_content m") (simp_all add: summarize_conversation_def)
qed (simp add: summarize_conversation_def)

section \<open>What is read of an answer\<close>

lemma go_index_first:
  assumes "prefix sub t" and "\<And>a b. pre @ t = a @ sub @ b \<Longrightarrow> length pre \<le> length a"
  shows "go_index (pre @ t) sub = Some (length pre)"
  using assms
proof (induction pre)
  case Nil
  then show ?case by (cases t) auto
next
  case (Cons c pre)
  have "\<not> prefix sub (c # pre @ t)"
  proof
    assume "prefix sub (c # pre @ t)"
    then obtain b where "(c # pre) @ t = [] @ sub @ b" by (auto simp: prefix_def)
    from Cons.prems(2) [OF this] show False by simp
  qed
  moreover have "go_index (pre @ t) sub = Some (length pre)"
    by (rule Cons.IH [OF Cons.prems(1)]) (use Cons.prems(2) in \<open>metis (no_types, lifting) append_Cons length_Cons Suc_le_mono\<close>)
  ultimately show ?case by simp
qed

text \<open>An answer that holds the object in one piece, with anything around it that does not look like its start or
  hold a closing brace, is read as the object.\<close>

lemma text_between_found:
  assumes "prefix start body" and "body = b @ [stop]" and "stop \<notin> set post" and "start \<noteq> []" and "b \<noteq> []"
    and "\<And>x y. pre @ body @ post = x @ start @ y \<Longrightarrow> length pre \<le> length x"
  shows "text_between (pre @ body @ post) start stop = Some body"
proof -
  from assms(1) have "prefix start (body @ post)" by simp
  from go_index_first [OF this assms(6)] have i: "go_index (pre @ body @ post) start = Some (length pre)" .
  have e: "go_last_index ((pre @ b) @ stop # post) [stop] = Some (length (pre @ b))"
    by (rule go_last_index_char [OF assms(3)])
  with i assms(2,5) show ?thesis by (simp add: text_between_def)
qed

section \<open>Properties\<close>

lemma extract_full_answer:
  assumes "extract_prompt env ec = Some prompt" and "\<forall>ms. generate ms [] s = (s', GenOk m)"
  shows "extract_full env generate ec s =
    Some (s', (case parse_full_response env (extract_text (m_content m)) of
       Inr r \<Rightarrow> Inr r
     | Inl e \<Rightarrow> (case parse_response_items env (extract_text (m_content m)) of
         Inl _ \<Rightarrow> Inl (ErrWrap ''extract parse'' e) | Inr cs \<Rightarrow> Inr (cs, [], []))), m_usage m)"
  using assms by (auto simp: extract_full_def call_def text_request_def request_tools_def decode_response_def Let_def
    empty_result_def split: sum.splits)

lemma extract_items_answer:
  assumes "extract_prompt env ec = Some prompt" and "\<forall>ms. generate ms [] s = (s', GenOk m)"
  shows "extract_items env generate ec s =
    Some (s', (case parse_response_items env (extract_text (m_content m)) of
         Inl e \<Rightarrow> Inl (ErrWrap ''extract parse'' e) | Inr cs \<Rightarrow> Inr cs), m_usage m)"
  using assms by (auto simp: extract_items_def call_def text_request_def request_tools_def decode_response_def Let_def
    empty_result_def split: sum.splits)

text \<open>When the model answers with a JSON object that starts with its items, the extraction is what that object
  decodes to, whatever prose surrounds it.\<close>

theorem extraction_reads_answer:
  assumes "\<forall>ms. generate ms [] s = (s', GenOk m)" and "extract_text (m_content m) = pre @ body @ post"
    and "prefix items_start body" and "last body = CHR ''}''" and "CHR ''}'' \<notin> set post"
    and "\<And>x y. pre @ body @ post = x @ items_start @ y \<Longrightarrow> length pre \<le> length x"
    and "xe_parse env body = Inr j" and "dec_full_result j = Inr r"
  shows "extract_full env generate ec s = Some (s', Inr r, m_usage m)"
proof -
  obtain prompt where p: "extract_prompt env ec = Some prompt" using extract_prompt_renders by blast
  from assms(3) have "length items_start \<le> length body" by (rule prefix_length_le)
  then have "8 \<le> length body" by (simp add: items_start_def)
  moreover from this assms(4) have "body = butlast body @ [CHR ''}'']" by (metis append_butlast_last_id list.size(3) not_numeral_le_zero)
  ultimately obtain b where b: "body = b @ [CHR ''}'']" "b \<noteq> []" by (metis length_append_singleton list.size(3) One_nat_def not_less_eq_eq numeral_le_one_iff semiring_norm(69))
  have "text_between (pre @ body @ post) items_start (CHR ''}'') = Some body"
    by (rule text_between_found [OF assms(3) b(1) assms(5) _ b(2) assms(6)]) (simp_all add: items_start_def)
  with assms(7,8) have "parse_full_response env (extract_text (m_content m)) = Inr r"
    by (simp add: parse_full_response_def assms(2))
  with extract_full_answer [where generate = generate, OF p assms(1)] show ?thesis by simp
qed

text \<open>The prompt's own format has a line break after the brace, so it is not found as an object; the text from its
  first to its last square bracket is an array and something after it.\<close>

lemma format_not_found:
  "text_between extract_format items_start (CHR ''}'') = None"
  "\<exists>t e. text_between extract_format ''['' (CHR '']'') = Some t \<and> match_delim t (CHR ''['') (CHR '']'') = Some e \<and>
     e + 1 < length t \<and> t ! (e + 1) = CHR '',''"
proof -
  show "text_between extract_format items_start (CHR ''}'') = None" by code_simp
  have "(case text_between extract_format ''['' (CHR '']'') of None \<Rightarrow> False
    | Some t \<Rightarrow> (case match_delim t (CHR ''['') (CHR '']'') of None \<Rightarrow> False
      | Some e \<Rightarrow> e + 1 < length t \<and> t ! (e + 1) = CHR '',''))" by code_simp
  then show "\<exists>t e. text_between extract_format ''['' (CHR '']'') = Some t \<and> match_delim t (CHR ''['') (CHR '']'') = Some e \<and>
     e + 1 < length t \<and> t ! (e + 1) = CHR '',''" by (auto split: option.splits)
qed

text \<open>A model that answers in exactly the format of the prompt is not understood: with a JSON parser that rejects
  text after the closed array, both calls fail, the run of the pipeline ends with an error, and memory and graph are
  left as they were.\<close>

theorem prompt_format_not_understood:
  assumes "\<forall>t e. match_delim t (CHR ''['') (CHR '']'') = Some e \<and> e + 1 < length t \<and> t ! (e + 1) = CHR '','' \<longrightarrow>
      (\<exists>x. xe_parse env t = Inl x)"
    and "\<forall>ms s. generate ms [] s = (f s, GenOk m)" and "extract_text (m_content m) = extract_format"
  shows "\<exists>p e. extract_from_session env pe generate conversation summary goal l g s = Some (f (f s), p, Some e) \<and>
    ps_ltm p = l \<and> ps_graph p = g"
proof -
  define ec where "ec = \<lparr>xc_session_id = [], xc_user_message = goal, xc_conversation = conversation,
    xc_session_summary = summary, xc_existing_items = lt_items l, xc_checkpoint_goals = []\<rparr>"
  obtain prompt where p: "extract_prompt env ec = Some prompt" using extract_prompt_renders by blast
  obtain t e where t: "text_between extract_format ''['' (CHR '']'') = Some t" "match_delim t (CHR ''['') (CHR '']'') = Some e"
    "e + 1 < length t" "t ! (e + 1) = CHR '',''" using format_not_found(2) by blast
  with assms(1) obtain x where "xe_parse env t = Inl x" by blast
  with t(1) have items: "parse_response_items env extract_format = Inl (ErrWrap ''json decode'' x)"
    by (simp add: parse_response_items_def)
  have full: "parse_full_response env extract_format = Inl (ErrOther ''no JSON object found'')"
    by (simp add: parse_full_response_def format_not_found(1))
  have gen: "\<forall>ms. generate ms [] x = (f x, GenOk m)" for x using assms(2) by blast
  note calls = extract_full_answer [where generate = generate, OF p gen [of s]]
    extract_items_answer [where generate = generate, OF p gen [of "f s"]]
  obtain e1 e2 where "run_extraction env generate ec s = Some (f (f s), \<lparr>ex_full = Inl e1, ex_legacy = Inl e2\<rparr>)"
    by (simp add: run_extraction_def calls assms(3) items full)
  then show ?thesis
    by (auto simp: extract_from_session_def Let_def ec_def write_run_def extract_step_def)
qed

text \<open>A server that answers as the prompt asks; its parser knows the rule about text after an array.\<close>

definition demo_xenv :: extract_env where
  "demo_xenv = \<lparr>xe_show = (\<lambda>_. []),
     xe_parse = (\<lambda>t. case match_delim t (CHR ''['') (CHR '']'') of
        Some e \<Rightarrow> if e + 1 < length t \<and> t ! (e + 1) = CHR '','' then Inl json_err else Inr JNull
      | None \<Rightarrow> Inr JNull), xe_mid = []\<rparr>"

definition demo_server :: "string \<Rightarrow> nat provider" where
  "demo_server t ms ts n = (n + 1, GenOk (new_message RoleAssistant [] (TextContent t)))"

theorem prompt_format_not_understood_witness:
  "\<exists>p e. extract_from_session demo_xenv demo_pipe (demo_server extract_format) [] [] ''goal'' demo_ltm None 0 = Some (2, p, Some e) \<and>
     ps_ltm p = demo_ltm"
proof -
  let ?m = "new_message RoleAssistant [] (TextContent extract_format)"
  have parse: "\<forall>t e. match_delim t (CHR ''['') (CHR '']'') = Some e \<and> e + 1 < length t \<and> t ! (e + 1) = CHR '','' \<longrightarrow>
      (\<exists>x. xe_parse demo_xenv t = Inl x)" by (auto simp: demo_xenv_def)
  have gen: "\<forall>ms s. demo_server extract_format ms [] s = (Suc s, GenOk ?m)" by (simp add: demo_server_def)
  have "extract_text (m_content ?m) = extract_format" by (simp add: new_message_def)
  from prompt_format_not_understood [where f = Suc and generate = "demo_server extract_format", OF parse gen this, of demo_pipe "[]" "[]" "''goal''" demo_ltm None 0]
  show ?thesis by (auto simp: numeral_2_eq_2)
qed

definition demo_object :: json where
  "demo_object = JObj [(''items'', JArr [JObj [(''section'', JStr ''user''), (''key'', JStr ''editor''), (''value'', JStr ''vi'')]])]"

definition demo_text :: string where
  "demo_text = ''Here it is: '' @ (items_start @ '': []}'') @ '' Done.''"

definition demo_context :: extraction_context where
  "demo_context = \<lparr>xc_session_id = [], xc_user_message = ''Set up the editor'', xc_conversation = [], xc_session_summary = [],
     xc_existing_items = [], xc_checkpoint_goals = []\<rparr>"

theorem extraction_reads_answer_witness:
  "extract_full (demo_xenv\<lparr>xe_parse := \<lambda>_. Inr demo_object\<rparr>) (demo_server demo_text) demo_context 0 =
     Some (1, Inr ([\<lparr>cd_section = ''user'', cd_key = ''editor'', cd_value = ''vi'', cd_evidence = [], cd_confidence = 0\<rparr>], [], []), None)"
proof -
  let ?m = "new_message RoleAssistant [] (TextContent demo_text)" and ?body = "items_start @ '': []}''"
  let ?env = "demo_xenv\<lparr>xe_parse := \<lambda>_. Inr demo_object\<rparr>"
  let ?r = "([\<lparr>cd_section = ''user'', cd_key = ''editor'', cd_value = ''vi'', cd_evidence = [], cd_confidence = 0\<rparr>], [], [])"
  have gen: "\<forall>ms. demo_server demo_text ms [] 0 = (1, GenOk ?m)" by (simp add: demo_server_def)
  have text_is: "extract_text (m_content ?m) = ''Here it is: '' @ ?body @ '' Done.''"
    by (simp add: new_message_def demo_text_def)
  have first: "length ''Here it is: '' \<le> length x" if "''Here it is: '' @ ?body @ '' Done.'' = x @ items_start @ y" for x y
  proof (rule ccontr)
    assume "\<not> length ''Here it is: '' \<le> length x"
    then have "length x < 12" by simp
    moreover have "list_all (\<lambda>n. \<not> prefix items_start (drop n (''Here it is: '' @ ?body @ '' Done.''))) [0..<12]" by code_simp
    ultimately have "\<not> prefix items_start (drop (length x) (''Here it is: '' @ ?body @ '' Done.''))"
      unfolding list_all_iff by simp
    with that show False by (metis append_eq_conv_conj prefixI)
  qed
  have "xe_parse ?env ?body = Inr demo_object" "dec_full_result demo_object = Inr ?r" by simp code_simp
  from extraction_reads_answer [where generate = "demo_server demo_text" and ec = demo_context, OF gen text_is _ _ _ first this] show ?thesis by (simp add: new_message_def)
qed

end
