(* ===== verification/FsmSession.thy ===== *)
theory FsmSession
  imports Fsm Conversation Worker
begin

text \<open>
  What a ReAct run, a worker's task and a run of the plan state machine do to the state outside.  An invariant that the model,
  the tools and the callbacks maintain holds after a ReAct run and after a task.  A property of sessions that the ReAct executor, the workers, the
  reviewer, the callbacks and the machine's own notes maintain, and a property of transcripts that is closed under
  concatenation and holds of every ReAct run, hold of the session and of the collected results after the run.
\<close>

section \<open>ReAct runs and workers\<close>

definition maintains_agent :: "('s \<Rightarrow> bool) \<Rightarrow> 's react_env \<Rightarrow> 's agent \<Rightarrow> bool" where
  "maintains_agent I env a \<longleftrightarrow>
     (\<forall>inp ts s. I s \<longrightarrow> I (fst (rx_generate env inp ts s))) \<and>
     (\<forall>s. I s \<longrightarrow> I (fst (rx_poll env s))) \<and>
     (\<forall>s. I s \<longrightarrow> I (fst (rx_new_id env s))) \<and>
     (\<forall>d s. I s \<longrightarrow> I (fst (call_tool env a d s))) \<and>
     (\<forall>r s. I s \<longrightarrow> I (fst (fire_result (hk_tool_call_end (ag_hooks a)) (ag_identity a) r s))) \<and>
     (\<forall>ev s. I s \<longrightarrow> I (as_model_event_handler (ag_hooks a) (ag_identity a) ev s)) \<and>
     (\<forall>f rs n s. rx_on_result env = Some f \<longrightarrow> I s \<longrightarrow> I (fst (f rs n s)))"

lemma execute_tools_maintains:
  "maintains_agent I env a \<Longrightarrow> I s \<Longrightarrow> I (fst (execute_tools env a ds s))"
proof (induction ds arbitrary: s)
  case (Cons d ds)
  obtain s1 r where c: "call_tool env a d s = (s1, r)" by fastforce
  obtain s2 r' where h: "fire_result (hk_tool_call_end (ag_hooks a)) (ag_identity a) r s1 = (s2, r')" by fastforce
  obtain s3 rs where e: "execute_tools env a ds s2 = (s3, rs)" by fastforce
  have "I s1" using Cons.prems c unfolding maintains_agent_def by (metis fst_conv)
  then have "I s2" using Cons.prems(1) h unfolding maintains_agent_def by (metis fst_conv)
  then show ?case using Cons.IH [OF Cons.prems(1), of s2] by (simp add: c h e Let_def)
qed simp

definition step_state :: "'s step_result \<Rightarrow> 's" where
  "step_state r = (case r of Return s _ _ \<Rightarrow> s | Continue s _ _ \<Rightarrow> s)"

lemma react_step_maintains:
  assumes m: "maintains_agent I env a" and "I s"
  shows "I (step_state (react_step env a n inp out s))"
proof -
  obtain s1 pl where p: "rx_poll env s = (s1, pl)" by fastforce
  have s1: "I s1" using m assms(2) p unfolding maintains_agent_def by (metis fst_conv)
  obtain s2 g where g: "rx_generate env inp (snd (visible_tools a)) s1 = (s2, g)" by fastforce
  have s2: "I s2" using m s1 g unfolding maintains_agent_def by (metis fst_conv)
  have s3: "I (notify_usage a v s2)" for v
    using m s2 unfolding maintains_agent_def notify_usage_def
    by (simp del: as_model_event_handler.simps split: option.split)
  have s4: "I (fst (execute_tools env a ds (notify_usage a v s2)))" for v ds
    by (rule execute_tools_maintains [OF m s3])
  have s5: "I (fst (rx_new_id env t))" if "I t" for t using m that unfolding maintains_agent_def by blast
  have s6: "I (fst (case rx_on_result env of None \<Rightarrow> (t, True) | Some f \<Rightarrow> f rs n t))" if "I t" for t rs
    using m that unfolding maintains_agent_def by (auto split: option.split)
  show ?thesis
    using s1 s2 s3 s4 s5 s6
    by (simp add: react_step_def p g step_state_def Let_def case_prod_beta split: poll.split gen_result.split)
qed

lemma react_loop_maintains:
  "react_loop n env a k inp out s = Some (s', ms, e) \<Longrightarrow> maintains_agent I env a \<Longrightarrow> I s \<Longrightarrow> I s'"
proof (induction n arbitrary: k inp out s)
  case (Suc n)
  note st = react_step_maintains [OF Suc.prems(2,3), of "k + 1" inp out]
  show ?case
  proof (cases "ag_max_steps a > 0 \<and> k + 1 > ag_max_steps a")
    case True
    with Suc.prems show ?thesis by simp
  next
    case False
    show ?thesis
    proof (cases "react_step env a (k + 1) inp out s")
      case (Return t ms' e')
      with Suc.prems(1) False st show ?thesis by (auto simp: Let_def step_state_def)
    next
      case (Continue t inp' out')
      show ?thesis
        by (rule Suc.IH [OF _ Suc.prems(2)]) (use Suc.prems(1) False Continue st in \<open>auto simp: Let_def step_state_def\<close>)
    qed
  qed
qed simp

text \<open>An error of a ReAct run is the context's, the model's or the step limit.\<close>

lemma react_loop_error:
  "react_loop n env a k inp out s = Some (s', ms, Some e) \<Longrightarrow>
   (\<forall>t. snd (rx_poll env t) = PollDone e \<longrightarrow> E e) \<Longrightarrow>
   (\<forall>i ts t q. snd (rx_generate env i ts t) = GenErr e q \<longrightarrow> E e) \<Longrightarrow> E ErrMaxStepsExceeded \<Longrightarrow> E e"
proof (induction n arbitrary: k inp out s)
  case (Suc n)
  show ?case
  proof (cases "ag_max_steps a > 0 \<and> k + 1 > ag_max_steps a")
    case True
    with Suc.prems show ?thesis by simp
  next
    case False
    show ?thesis
    proof (cases "react_step env a (k + 1) inp out s")
      case (Return t ms' e')
      with Suc.prems(1) False have "react_step env a (k + 1) inp out s = Return s' ms (Some e)" by (auto simp: Let_def)
      then have "(\<exists>t. snd (rx_poll env t) = PollDone e) \<or> (\<exists>i ts t q. snd (rx_generate env i ts t) = GenErr e q)"
        by (auto simp: react_step_def Let_def split: prod.splits poll.splits gen_result.splits if_splits) (metis snd_conv)+
      with Suc.prems(2,3) show ?thesis by blast
    next
      case (Continue t inp' out')
      show ?thesis
        by (rule Suc.IH [OF _ Suc.prems(2-4)]) (use Suc.prems(1) False Continue in \<open>auto simp: Let_def\<close>)
    qed
  qed
qed simp

text \<open>What a worker's task maintains, the worker's result beside it.\<close>

definition hooks_maintain :: "('s \<Rightarrow> bool) \<Rightarrow> 's hooks \<Rightarrow> bool" where
  "hooks_maintain I h \<longleftrightarrow>
     (\<forall>i ev s. I s \<longrightarrow> I (as_model_event_handler h i ev s)) \<and>
     (\<forall>i r s. I s \<longrightarrow> I (fst (fire_result (hk_tool_call_end h) i r s))) \<and>
     (\<forall>i x s. I s \<longrightarrow> I (fire (hk_wait_for_human h) i x s)) \<and>
     (\<forall>i x s. I s \<longrightarrow> I (fire (hk_task_updated h) i x s))"

definition tools_maintain :: "('s \<Rightarrow> bool) \<Rightarrow> 's registry \<Rightarrow> bool" where
  "tools_maintain I tr \<longleftrightarrow> (\<forall>n e sid d s. reg_lookup tr n = Some e \<longrightarrow> I s \<longrightarrow> I (fst (re_fn e sid d s)))"

definition maintains_worker :: "('s \<Rightarrow> bool) \<Rightarrow> 's worker_env \<Rightarrow> 's worker_agent \<Rightarrow> bool" where
  "maintains_worker I env w \<longleftrightarrow>
     tools_maintain I (we_registry env) \<and> hooks_maintain I (wa_hooks w) \<and>
     (\<forall>inp ts s. I s \<longrightarrow> I (fst (we_model env inp ts s))) \<and>
     (\<forall>s. I s \<longrightarrow> I (fst (we_poll env s))) \<and>
     (\<forall>s. I s \<longrightarrow> I (fst (we_wait env s))) \<and>
     (\<forall>s. I s \<longrightarrow> I (fst (we_new_id env s))) \<and>
     (\<forall>f s. wa_pause_gate w = Some f \<longrightarrow> I s \<longrightarrow> I (f s)) \<and>
     (\<forall>f rp s. wa_on_hitl w = Some f \<longrightarrow> I s \<longrightarrow> I (f rp s)) \<and>
     wa_human_factory w = Some new_ask_human_tool"

lemma ask_human_maintains: "(\<And>r q s. I s \<Longrightarrow> I (fst (gate r q s))) \<Longrightarrow> I s \<Longrightarrow> I (fst (ask_human gate sid d s))"
  by (simp add: ask_human_def split: sum.split prod.split) (metis fst_conv)

lemma reg_call_maintains: "tools_maintain I tr \<Longrightarrow> I s \<Longrightarrow> I (fst (reg_call tr sid d s))"
  by (simp add: reg_call_def tools_maintain_def split: option.split)

lemma worker_event_fst [simp]:
  "fst (as_model_event_handler (worker_hooks show w) i ev p) = as_model_event_handler (wa_hooks w) i ev (fst p)"
  by (cases ev) (simp_all add: worker_hooks_def chain_def lift_hooks_def worker_sys_hooks_def no_hooks_def)

lemma deliver_all_fst:
  "fst (deliver_all (worker_hooks show w) i evs p) = deliver_all (wa_hooks w) i evs (fst p)"
  by (induction evs arbitrary: p) (simp_all add: deliver_all_def del: as_model_event_handler.simps)

lemma deliver_all_maintains: "hooks_maintain I h \<Longrightarrow> I s \<Longrightarrow> I (deliver_all h i evs s)"
  by (induction evs arbitrary: s) (simp_all add: deliver_all_def hooks_maintain_def del: as_model_event_handler.simps)

lemma worker_agent_maintains:
  assumes m: "maintains_worker I env w"
  shows "maintains_agent (\<lambda>p. I (fst p)) (worker_react_env env w) (worker_react env w)"
proof -
  have gate: "I (fst (worker_gate env w r q s))" if "I s" for r q s
    using m that unfolding maintains_worker_def hooks_maintain_def worker_gate_def by (auto split: option.split)
  have reg: "I (fst (fst (reg_call (lift_registry (we_registry env)) sid d p)))" if "I (fst p)" for sid d p
    using m that unfolding maintains_worker_def tools_maintain_def
    by (auto simp: reg_call_def lift_lookup lift_entry_def split: option.split)
  have ask: "I (fst (ask_human (worker_gate env w) sid d s))" if "I s" for sid d s
    by (rule ask_human_maintains [OF gate that])
  have fac: "wa_human_factory w = Some new_ask_human_tool" using m by (simp add: maintains_worker_def)
  have call: "I (fst (fst (call_tool (worker_react_env env w) (worker_react env w) d p)))" if "I (fst p)" for d p
  proof -
    have "I (fst (case wa_pause_gate w of None \<Rightarrow> p | Some f \<Rightarrow> (f (fst p), snd p)))"
      using m that by (simp add: maintains_worker_def split: option.split)
    then show ?thesis
      using reg [where p = p, OF that] reg ask
      by (auto simp: call_tool_def worker_react_env_def worker_react_def enable_human_in_the_loop_def fac
          register_local_ask_human_def with_tools_def new_ask_human_tool_def Let_def split: option.split if_split_asm)
  qed
  have "I (fst (deliver_all (worker_hooks (we_show env) w) AgentWorker evs (s', t)))"
    if "we_model env inp ts s = (s', evs, g)" "I s" for inp ts s s' evs g t
  proof -
    have "I s'" using m that unfolding maintains_worker_def by (metis fst_conv)
    then show ?thesis using m by (simp add: deliver_all_fst deliver_all_maintains maintains_worker_def)
  qed
  moreover have "I (fst (fst (fire_result (hk_tool_call_end (worker_hooks (we_show env) w)) i r p)))" if "I (fst p)" for i r p
    using m that by (simp add: worker_tool_end maintains_worker_def hooks_maintain_def case_prod_beta)
  ultimately show ?thesis
    using m call
    by (auto simp: maintains_agent_def worker_react_env_def maintains_worker_def hooks_maintain_def
        simp del: as_model_event_handler.simps split: prod.split)
qed

lemma execute_task_maintains:
  assumes m: "maintains_worker I env w" and "execute_task fuel env w goal action s = Some (s', out)" and "I s"
  shows "I s'"
proof (cases "we_render env goal action")
  case (Inr sys_prompt)
  obtain s1 sys_id where s1: "we_new_id env s = (s1, sys_id)" by fastforce
  obtain s2 user_id where s2: "we_new_id env s1 = (s2, user_id)" by fastforce
  have "I s1" using m assms(3) s1 unfolding maintains_worker_def by (metis fst_conv)
  then have i2: "I s2" using m s2 unfolding maintains_worker_def by (metis fst_conv)
  from assms(2) Inr s1 s2 obtain r ms e where
    "execute_with_tools fuel (worker_react_env env w) (worker_react env w)
       (new_system_message sys_id (TextContent sys_prompt))
       [new_user_message user_id (TextContent (''Execute the task: '' @ goal))] None (s2, empty_worker_result)
     = Some ((s', r), ms, e)"
    by (auto simp: execute_task_def Let_def split: option.splits prod.splits)
  from react_loop_maintains [OF this [unfolded execute_with_tools_def override_tools_def option.case] worker_agent_maintains [OF m]]
  show ?thesis using i2 by simp
qed (use assms in \<open>simp add: execute_task_def\<close>)

section \<open>The machine\<close>

definition maintains_session :: "(session \<Rightarrow> bool) \<Rightarrow> 'x deps \<Rightarrow> bool" where
  "maintains_session P d \<longleftrightarrow>
     (\<forall>sys h tools w. P (w_session w) \<longrightarrow> P (w_session (fst (fd_react d sys h tools w)))) \<and>
     (\<forall>goal action w. P (w_session w) \<longrightarrow> P (w_session (fst (fd_worker d goal action w)))) \<and>
     (\<forall>f tid goal status out w. fd_on_updated d = Some f \<longrightarrow> P (w_session w) \<longrightarrow> P (w_session (f tid goal status out w))) \<and>
     (\<forall>f goal summary reason w. fd_reviewer d = Some f \<longrightarrow> P (w_session w) \<longrightarrow> P (w_session (fst (f goal summary reason w)))) \<and>
     (\<forall>t ss. P ss \<longrightarrow> P (append_message (new_system_message (fd_mid d) (TextContent t)) ss))"

definition gives_transcripts :: "(message list \<Rightarrow> bool) \<Rightarrow> 'x deps \<Rightarrow> bool" where
  "gives_transcripts Q d \<longleftrightarrow>
     Q [] \<and> (\<forall>xs ys. Q xs \<longrightarrow> Q ys \<longrightarrow> Q (xs @ ys)) \<and>
     (\<forall>sys h tools w. Q (fst (snd (fd_react d sys h tools w))))"

text \<open>No request is too long for the model, so the machine never compresses the session by itself.\<close>

definition never_overflows :: "'x deps \<Rightarrow> bool" where
  "never_overflows d \<longleftrightarrow>
     (\<forall>sys h tools w e. snd (snd (fd_react d sys h tools w)) = Some e \<longrightarrow> \<not> err_is e ErrContextLengthExceeded)"

definition well_behaved :: "(session \<Rightarrow> bool) \<Rightarrow> (message list \<Rightarrow> bool) \<Rightarrow> 'x deps \<Rightarrow> bool" where
  "well_behaved P Q d \<longleftrightarrow> maintains_session P d \<and> gives_transcripts Q d \<and> never_overflows d"

definition talk_inv :: "(session \<Rightarrow> bool) \<Rightarrow> (message list \<Rightarrow> bool) \<Rightarrow> 'x fctx \<Rightarrow> bool" where
  "talk_inv P Q c \<longleftrightarrow> P (fc_session c) \<and> Q (fc_results c)"

lemma talk_inv_put_world [simp]:
  "talk_inv P Q (ds_ext (put_world w s)) \<longleftrightarrow> P (w_session w) \<and> Q (fc_results (ds_ext s))"
  by (simp add: talk_inv_def put_world_def)

lemma talk_invD: "talk_inv P Q (ds_ext s) \<Longrightarrow> P (w_session (world_of s)) \<and> Q (fc_results (ds_ext s))"
  by (simp add: talk_inv_def world_of_def)

lemma maintained:
  assumes "well_behaved P Q d" and "P (w_session w)"
  shows "P (w_session (fst (fd_react d sys h tools w)))"
    and "P (w_session (fst (fd_worker d goal action w)))"
    and "fd_on_updated d = Some f \<Longrightarrow> P (w_session (f tid goal status out w))"
    and "fd_reviewer d = Some g \<Longrightarrow> P (w_session (fst (g goal summary reason w)))"
  using assms unfolding well_behaved_def maintains_session_def by blast+

lemma append_system_talk:
  "well_behaved P Q d \<Longrightarrow> talk_inv P Q (ds_ext s) \<Longrightarrow> talk_inv P Q (ds_ext (append_system d t s))"
  by (simp add: well_behaved_def maintains_session_def talk_inv_def append_system_def)

lemma run_react_talk:
  assumes "well_behaved P Q d" and "talk_inv P Q (ds_ext s)" and "run_react d sys tools s = (s', ms, e)"
  shows "talk_inv P Q (ds_ext s') \<and> Q ms \<and> (\<forall>e'. e = Some e' \<longrightarrow> \<not> err_is e' ErrContextLengthExceeded)"
proof -
  let ?h = "get_history_messages (fd_mid d) (fc_session (ds_ext s))"
  obtain w ms' e' where r: "fd_react d sys ?h tools (world_of s) = (w, ms', e')" by (rule prod_cases3)
  with assms(3) have eq: "s' = put_world w s" "ms' = ms" "e' = e" by (auto simp: run_react_def)
  have "P (w_session w)" using maintained(1) [OF assms(1) conjunct1 [OF talk_invD [OF assms(2)]], of sys ?h tools] r by simp
  moreover have "Q (fst (snd (fd_react d sys ?h tools (world_of s))))"
    and "snd (snd (fd_react d sys ?h tools (world_of s))) = Some e' \<Longrightarrow> \<not> err_is e' ErrContextLengthExceeded" for e'
    using assms(1) unfolding well_behaved_def gives_transcripts_def never_overflows_def by blast+
  note this [unfolded r fst_conv snd_conv eq]
  ultimately show ?thesis using talk_invD [OF assms(2)] eq by simp
qed

lemma react_action_talk:
  assumes "well_behaved P Q d" and "talk_inv P Q (ds_ext s)" and "react_action d st plan s = (s', ms, e)"
  shows "talk_inv P Q (ds_ext s') \<and> Q ms"
proof (cases "build_prompt d st (map_option (live_plan s) plan)")
  case (Inl e)
  with assms show ?thesis by (auto simp: react_action_def well_behaved_def gives_transcripts_def)
next
  case (Inr prompt)
  obtain s1 ms1 e1 where r: "run_react d (new_system_message (fd_mid d) (TextContent prompt))
      (tools_for_state st (fd_custom_tools d)) s = (s1, ms1, e1)" by (rule prod_cases3)
  from run_react_talk [OF assms(1,2) r] assms(3) Inr r show ?thesis
    by (auto simp: react_action_def Let_def split: option.splits)
qed

lemma handle_drift_talk:
  assumes "well_behaved P Q d" and "talk_inv P Q (ds_ext s)"
  shows "talk_inv P Q (ds_ext (handle_drift d reason s))"
proof (cases rule: handle_drift_cases [of d reason s])
  case (2 a cp f)
  have x: "talk_inv P Q (ds_ext (map_ctx (\<lambda>c. c\<lparr>fc_x := g (fc_session c) (fc_x c)\<rparr>) t)) = talk_inv P Q (ds_ext t)"
    for g and t :: "'a fsm" by (simp add: talk_inv_def)
  show ?thesis unfolding 2(4) x drift_restore_def
    by (rule append_system_talk [OF assms(1)]) (use assms(2) in \<open>simp add: dag_cancel_def\<close>)
qed (use assms in simp)

lemma on_task_failed_talk:
  assumes "well_behaved P Q d" and "talk_inv P Q (ds_ext s)"
  shows "talk_inv P Q (ds_ext (on_task_failed d tid goal reason s))"
proof -
  let ?s1 = "map_ctx (\<lambda>c. c\<lparr>fc_fails := fc_fails c + 1\<rparr>) s"
  have s1: "talk_inv P Q (ds_ext ?s1)" using assms(2) by (simp add: talk_inv_def)
  have rv: "talk_inv P Q (ds_ext (put_world w ?s1))"
    if "fd_reviewer d = Some f" "f g p r (world_of ?s1) = (w, v)" for f g p r w v
    using maintained(4) [OF assms(1) conjunct1 [OF talk_invD [OF s1]] that(1), of g p r] talk_invD [OF s1] that(2) by simp
  show ?thesis
  proof (cases "fd_reviewer d")
    case None
    with s1 show ?thesis by (simp add: on_task_failed_def Let_def should_review_def)
  next
    case (Some f)
    show ?thesis
    proof (cases "should_review d (fc_fails (ds_ext ?s1)) \<and> get_plan (ds_wm ?s1) (fc_plan_id (ds_ext ?s1)) \<noteq> None")
      case True
      then obtain a where a: "get_plan (ds_wm ?s1) (fc_plan_id (ds_ext ?s1)) = Some a" by blast
      let ?goal = "ai_text (fc_input (ds_ext ?s1))" and ?plan = "fmt_plan_summary (live_plan ?s1 a)"
      obtain w v where f: "f ?goal ?plan reason (world_of ?s1) = (w, v)" by fastforce
      have "on_task_failed d tid goal reason s =
          (if rv_drift v then handle_drift d reason (put_world w ?s1) else put_world w ?s1)"
        unfolding on_task_failed_def Let_def by (simp only: True a Some f option.case prod.case if_True)
      then show ?thesis using rv [OF Some f] handle_drift_talk [OF assms(1)] by simp
    next
      case False
      then have "on_task_failed d tid goal reason s = ?s1"
        unfolding on_task_failed_def Let_def by (auto simp only: option.case split: if_split option.split)
      with s1 show ?thesis by simp
    qed
  qed
qed

lemma dag_action_talk:
  assumes "well_behaved P Q d" and "dag_action d a s = Some (s', r)" and "talk_inv P Q (ds_ext s)"
  shows "talk_inv P Q (ds_ext s')"
proof -
  have wk: "talk_inv P Q (ds_ext (put_world w t))"
    if "fd_worker d goal action (world_of t) = (w, out)" "talk_inv P Q (ds_ext t)" for goal action w out and t :: "'a fsm"
    using maintained(2) [OF assms(1) conjunct1 [OF talk_invD [OF that(2)]], of goal action] talk_invD [OF that(2)] that(1)
    by simp
  have up: "talk_inv P Q (ds_ext (put_world (f tid goal status out (world_of t)) t))"
    if "fd_on_updated d = Some f" "talk_inv P Q (ds_ext t)" for f tid goal status out and t :: "'a fsm"
    using maintained(3) [OF assms(1) conjunct1 [OF talk_invD [OF that(2)]] that(1)] talk_invD [OF that(2)] by simp
  have "maintains_ext (talk_inv P Q) (fsm_dag_env d)"
    unfolding maintains_ext_def fsm_dag_env_def
    using wk up on_task_failed_talk [OF assms(1)] by (auto split: prod.split)
  from execute_batch_maintains [OF this assms(2) [unfolded dag_action_def] assms(3)] show ?thesis .
qed

lemma state_talk:
  assumes w: "well_behaved P Q d" and i: "talk_inv P Q (ds_ext s)"
    and x: "state_execute cur = Some exec" "exec d s = Some (s1, nxt, e)"
  shows "talk_inv P Q (ds_ext s1)"
proof -
  have r: "talk_inv P Q (ds_ext s') \<and> Q ms" if "react_action d st plan s = (s', ms, e)" for st plan s' ms e
    using react_action_talk [OF w i that] .
  have add: "talk_inv P Q (c\<lparr>fc_results := fc_results c @ ms\<rparr>)" if "talk_inv P Q c" "Q ms" for c :: "'a fctx" and ms
    using w that by (simp add: talk_inv_def well_behaved_def gives_transcripts_def)
  have same [simp]: "talk_inv P Q (c\<lparr>fc_work_mode := m\<rparr>) = talk_inv P Q c" "talk_inv P Q (c\<lparr>fc_plan_id := m\<rparr>) = talk_inv P Q c"
    "talk_inv P Q (c\<lparr>fc_plan := p\<rparr>) = talk_inv P Q c" for c :: "'a fctx" and m p
    by (simp_all add: talk_inv_def)
  note ap = append_system_talk [OF w]
  show ?thesis
    using x i
    by (cases cur)
      (auto simp: intent_state_def direct_state_def init_state_def confirmed_state_def doing_state_def updating_state_def
        done_state_def failed_state_def rejected_state_def summary_state_def Let_def add
        split: prod.splits option.splits if_splits dest!: r dag_action_talk [OF w] intro!: ap)
qed

lemma transition_talk:
  assumes "well_behaved P Q d" and "talk_inv P Q (ds_ext s)" and "transition d nxt s = (s', e)"
  shows "talk_inv P Q (ds_ext s')"
proof -
  have "talk_inv P Q (ds_ext (map_ctx (\<lambda>c. c\<lparr>fc_prev := fc_current c, fc_current := nxt\<rparr>) s))"
    using assms(2) by (simp add: talk_inv_def)
  then show ?thesis
    using assms(3)
    by (auto simp: transition_def Let_def split: option.splits prod.splits dest!: put_plan_fsm_ext'
        intro!: append_system_talk [OF assms(1)])
qed

lemma machine_loop_talk:
  fixes d :: "'x deps"
  shows "well_behaved P Q d \<Longrightarrow> machine_loop n d s = Some (s', e) \<Longrightarrow> talk_inv P Q (ds_ext s) \<Longrightarrow> talk_inv P Q (ds_ext s')"
proof (induction n arbitrary: s)
  case 0
  then show ?case by (auto split: option.splits prod.splits dest!: put_plan_fsm_ext')
next
  case (Suc n)
  let ?cur = "fc_current (ds_ext s)"
  have saved: "ds_ext (fst (put_plan_fsm a (set_plan_state a st t))) = ds_ext t" for a st and t :: "'x fsm" by simp
  show ?case
  proof (cases "state_execute ?cur :: ('x deps \<Rightarrow> 'x fsm \<Rightarrow> 'x Fsm.outcome) option")
    case None
    with Suc.prems show ?thesis by (auto simp: Let_def)
  next
    case Some': (Some exec)
    with Suc.prems(2) obtain s1 nxt e1 where x: "exec d s = Some (s1, nxt, e1)"
      by (auto simp: Let_def split: option.splits)
    note t1 = state_talk [OF Suc.prems(1,3) Some' x]
    show ?thesis
    proof (cases e1)
      case (Some err)
      with Some' x Suc.prems(2) t1 show ?thesis
        by (auto simp: Let_def saved split: option.splits)
    next
      case None
      note eq = Suc.prems(2) [unfolded machine_loop.simps Let_def Some' x None option.case prod.case]
      obtain s2 e2 where tr: "transition d nxt s1 = (s2, e2)" by fastforce
      note t2 = transition_talk [OF Suc.prems(1) t1 tr]
      then have t3: "talk_inv P Q (ds_ext (map_ctx (\<lambda>c. c\<lparr>fc_step := fc_step c + 1\<rparr>) s2))" by (simp add: talk_inv_def)
      show ?thesis
      proof (cases "is_terminal nxt \<and> nxt = ?cur")
        case True
        with eq t1 show ?thesis by (auto split: option.splits dest!: put_plan_fsm_ext')
      next
        case False
        with eq tr t2 t3 Suc.IH [OF Suc.prems(1) _ t3] show ?thesis by (auto split: option.splits)
      qed
    qed
  qed
qed

lemma machine_run_talk:
  assumes "well_behaved P Q d" and "machine_run d input s = Some (s', e)"
    and "P (append_message (build_user_message (fd_mid d) input) (fc_session (ds_ext s)))"
  shows "talk_inv P Q (ds_ext s')"
proof (rule machine_loop_talk [OF assms(1) assms(2) [unfolded machine_run_start]])
  have "Q []" using assms(1) by (simp add: well_behaved_def gives_transcripts_def)
  with assms(3) show "talk_inv P Q (ds_ext (run_start d input s))" by (simp add: talk_inv_def run_start_def)
qed

end
