(* ===== verification/AgentLoop.thy ===== *)
theory AgentLoop
  imports ModelCalls Extractor Hitl FsmSession
begin

text \<open>
  The composition of the runtime: the kernel (runtime/engine/kernel.go) wires the main agent, the workers, the reviewer and
  the compressor into the plan state machine, and the agent loop (runtime/agent\_loop.go) runs one request after the other
  on it, with the session file, the extraction of memories and the dream scheduler.

  The state outside the machine is \<open>kext\<close>: the buffer of the main agent's abort signal, long-term memory and the
  rest.  Models and callbacks act on it, tools on the whole \<open>world\<close>.  The main agent has no step limit, so its loop
  takes fuel; a loop that does not end within it sets \<open>kx_stuck\<close>, and a request that sets it has no result
  (\<open>Hanging\<close>).  Skills, MCP, step tracing and logging are not modelled.
\<close>

section \<open>State\<close>

record 'x kext =
  kx_abort :: bool
  kx_stuck :: bool
  kx_memory :: memory_state
  kx_rest :: 'x

type_synonym 'x kworld = "'x kext world"

text \<open>\<open>lp_wait\<close> and \<open>lp_worker_wait\<close> are what \<open>WaitForHuman\<close> does after its callback, \<open>lp_on_hitl\<close> the callback that the DAG
  executor gives its workers, \<open>lp_choose\<close> Go's choice between two ready cases of a select, \<open>lp_gate\<close> the shared pause gate,
  \<open>lp_persists\<close> whether the session file can be written.\<close>

record 'x loop_env =
  lp_text :: "'x kext chat_model"
  lp_image :: "'x kext chat_model option"
  lp_audio :: "'x kext chat_model option"
  lp_registry :: "'x kworld registry"
  lp_wait :: "'x kworld \<Rightarrow> 'x kworld \<times> (err + string)"
  lp_worker_wait :: "'x kworld \<Rightarrow> 'x kworld \<times> (err + string)"
  lp_on_hitl :: "string \<times> string \<Rightarrow> 'x kworld \<Rightarrow> 'x kworld"
  lp_gate :: "'x kworld \<Rightarrow> 'x kworld"
  lp_choose :: "'x kworld \<Rightarrow> bool"
  lp_worker_poll :: "'x kworld \<Rightarrow> poll"
  lp_new_id :: "'x kext \<Rightarrow> 'x kext \<times> string"
  lp_mid :: string
  lp_show :: "val \<Rightarrow> string"
  lp_user_hooks :: "'x kext hooks"
  lp_extract :: extract_env
  lp_pipe :: pipe_env
  lp_max_tool_result_chars :: int
  lp_machine :: machine_config
  lp_agent_context :: string
  lp_order :: "plan \<Rightarrow> string list"
  lp_sched :: "int \<Rightarrow> choice list"
  lp_dag_fuel :: nat
  lp_fuel :: nat
  lp_now :: int
  lp_persists :: bool

section \<open>What acts on the rest of the state\<close>

definition on_x :: "('x \<Rightarrow> 'x \<times> 'b) \<Rightarrow> 'x world \<Rightarrow> 'x world \<times> 'b" where
  "on_x f w = (case f (w_x w) of (x, r) \<Rightarrow> (w\<lparr>w_x := x\<rparr>, r))"

definition world_model :: "'x chat_model \<Rightarrow> 'x world chat_model" where
  "world_model model ms ts w = on_x (model ms ts) w"

definition world_field :: "(session \<Rightarrow> (agent_identity \<Rightarrow> 'a \<Rightarrow> 'x \<Rightarrow> 'x) option) \<Rightarrow>
    (agent_identity \<Rightarrow> 'a \<Rightarrow> 'x world \<Rightarrow> 'x world) option" where
  "world_field h = Some (\<lambda>i a w. w\<lparr>w_x := fire (h (w_session w)) i a (w_x w)\<rparr>)"

text \<open>Callbacks that may read the session, as callbacks on the world.\<close>

definition world_hooks :: "(session \<Rightarrow> 'x hooks) \<Rightarrow> 'x world hooks" where
  "world_hooks h =
     \<lparr>hk_thinking_chunk = world_field (hk_thinking_chunk \<circ> h), hk_reply_chunk = world_field (hk_reply_chunk \<circ> h),
      hk_block_thinking = world_field (hk_block_thinking \<circ> h), hk_block_reply = world_field (hk_block_reply \<circ> h),
      hk_function_call = world_field (hk_function_call \<circ> h), hk_model_finished = world_field (hk_model_finished \<circ> h),
      hk_error = world_field (hk_error \<circ> h), hk_usage_updated = world_field (hk_usage_updated \<circ> h),
      hk_tool_call_end = Some (\<lambda>i r w. on_x (\<lambda>x. case fire_result (hk_tool_call_end (h (w_session w))) i r x of
          (x', r') \<Rightarrow> (x', tcr_outputs r')) w),
      hk_wait_for_human = world_field (hk_wait_for_human \<circ> h), hk_plan_rollback = world_field (hk_plan_rollback \<circ> h),
      hk_task_updated = world_field (hk_task_updated \<circ> h), hk_before_compress = world_field (hk_before_compress \<circ> h)\<rparr>"

section \<open>Callbacks of the loop (rewriteEventHooks)\<close>

text \<open>\<open>CompressToolResult\<close> with the compressor's calls: field after field, errors keep the field.\<close>

fun compress_fields :: "string \<Rightarrow> 's chat_model \<Rightarrow> int \<Rightarrow> string \<Rightarrow> (string \<times> val) list \<Rightarrow> 's \<Rightarrow> 's \<times> (string \<times> val) list" where
  "compress_fields mid model max_chars tool [] s = (s, [])"
| "compress_fields mid model max_chars tool ((k, v) # outs) s =
     (let (s1, v1) = (case v of
            VStr raw \<Rightarrow>
              (if int (rune_count raw) \<le> max_chars then (s, v)
               else (case summarize_tool_result_field mid model tool k raw s of
                       (s', Inl _) \<Rightarrow> (s', v) | (s', Inr t) \<Rightarrow> (s', VStr t)))
          | _ \<Rightarrow> (s, v));
          (s2, outs') = compress_fields mid model max_chars tool outs s1
      in (s2, (k, v1) # outs'))"

definition compress_result :: "string \<Rightarrow> 's chat_model \<Rightarrow> int \<Rightarrow> tool_call_result \<Rightarrow> 's \<Rightarrow> 's \<times> (string \<times> val) list" where
  "compress_result mid model max_chars r s =
     (if max_chars \<le> 0 \<or> map_of (tcr_outputs r) ''error'' \<noteq> None then (s, tcr_outputs r)
      else compress_fields mid model max_chars (tcr_name r) (tcr_outputs r) s)"

definition extract_memories :: "'x loop_env \<Rightarrow> agent_input \<Rightarrow> session \<Rightarrow> 'x kext \<Rightarrow> 'x kext" where
  "extract_memories env input ss x =
     (case extract_from_session (lp_extract env) (lp_pipe env) (silent (lp_text env))
             (get_history_messages (lp_mid env) ss) (ss_summary ss) (ai_text input)
             (me_ltm (kx_memory x)) (me_graph (kx_memory x)) x of
        None \<Rightarrow> x
      | Some (x', p, _) \<Rightarrow> x'\<lparr>kx_memory := \<lparr>me_ltm = ps_ltm p, me_graph = ps_graph p\<rparr>\<rparr>)"

definition loop_sys_hooks :: "'x loop_env \<Rightarrow> agent_input \<Rightarrow> session \<Rightarrow> 'x kext hooks" where
  "loop_sys_hooks env input ss = no_hooks
     \<lparr>hk_tool_call_end := Some (\<lambda>i r. compress_result (lp_mid env) (lp_text env) (lp_max_tool_result_chars env) r),
      hk_before_compress := Some (\<lambda>i _. extract_memories env input ss)\<rparr>"

definition rewrite_event_hooks :: "'x loop_env \<Rightarrow> agent_input \<Rightarrow> session \<Rightarrow> 'x kext hooks" where
  "rewrite_event_hooks env input ss = chain (lp_user_hooks env) (loop_sys_hooks env input ss)"

section \<open>The main agent\<close>

definition resolve_provider :: "'x loop_env \<Rightarrow> agent_input \<Rightarrow> 'x kext chat_model" where
  "resolve_provider env input =
     (case ai_media input of
        [] \<Rightarrow> lp_text env
      | m # _ \<Rightarrow>
          if mm_type m = MultiModalTypeImage then (case lp_image env of Some p \<Rightarrow> p | None \<Rightarrow> lp_text env)
          else if mm_type m = MultiModalTypeAudio then (case lp_audio env of Some p \<Rightarrow> p | None \<Rightarrow> lp_text env)
          else lp_text env)"

text \<open>The hooks that \<open>RegisterEventHooks\<close> hands to the main agent, the workers and the reviewer.\<close>

definition run_hooks :: "'x loop_env \<Rightarrow> agent_input \<Rightarrow> 'x kworld hooks" where
  "run_hooks env input = world_hooks (rewrite_event_hooks env input)"

definition main_gate :: "'x loop_env \<Rightarrow> agent_input \<Rightarrow> 'x kworld human_gate" where
  "main_gate env input reason prompt w =
     lp_wait env (fire (hk_wait_for_human (run_hooks env input)) AgentMain (reason, prompt) w)"

definition main_agent :: "'x loop_env \<Rightarrow> agent_input \<Rightarrow> 'x kworld agent" where
  "main_agent env input =
     enable_human_in_the_loop
       \<lparr>ag_registry = lp_registry env, ag_identity = AgentMain, ag_hooks = run_hooks env input, ag_tool_names = None,
        ag_cache = None, ag_step = 0, ag_max_steps = 0, ag_human = None,
        ag_human_factory = Some (new_ask_human_tool (main_gate env input))\<rparr>"

definition main_poll :: "'x loop_env \<Rightarrow> 'x kworld \<Rightarrow> 'x kworld \<times> poll" where
  "main_poll env w =
     (if kx_abort (w_x w) \<and> (\<not> w_done w \<or> lp_choose env w)
      then (w\<lparr>w_x := (w_x w)\<lparr>kx_abort := False\<rparr>\<rparr>, PollAbort)
      else if w_done w then (w, PollDone ErrCanceled)
      else (w, PollNone))"

definition interrupt :: "'x kext \<Rightarrow> 'x kext" where
  "interrupt x = x\<lparr>kx_abort := True\<rparr>"

definition main_env :: "'x loop_env \<Rightarrow> agent_input \<Rightarrow> string \<Rightarrow> 'x kworld react_env" where
  "main_env env input sid =
     \<lparr>rx_generate = with_events (run_hooks env input) AgentMain (world_model (resolve_provider env input)),
      rx_poll = main_poll env, rx_on_result = None, rx_gate = None, rx_new_id = on_x (lp_new_id env), rx_session = sid\<rparr>"

definition main_react :: "'x loop_env \<Rightarrow> agent_input \<Rightarrow> message \<Rightarrow> message list \<Rightarrow> string list option \<Rightarrow> 'x kworld \<Rightarrow>
    'x kworld \<times> message list \<times> err option" where
  "main_react env input sys ms tools w =
     (case execute_with_tools (lp_fuel env) (main_env env input (ss_id (w_session w))) (main_agent env input) sys ms tools w of
        Some r \<Rightarrow> r
      | None \<Rightarrow> (w\<lparr>w_x := (w_x w)\<lparr>kx_stuck := True\<rparr>\<rparr>, [], None))"

section \<open>The workers (kernel.go, dag.go)\<close>

definition loop_worker :: "'x loop_env \<Rightarrow> agent_input \<Rightarrow> 'x kworld worker_agent" where
  "loop_worker env input =
     new_worker_agent\<lparr>wa_hooks := run_hooks env input, wa_pause_gate := Some (lp_gate env),
       wa_on_hitl := Some (lp_on_hitl env), wa_human_factory := Some new_ask_human_tool\<rparr>"

definition loop_worker_env :: "'x loop_env \<Rightarrow> agent_input \<Rightarrow> string \<Rightarrow> 'x kworld worker_env" where
  "loop_worker_env env input sid =
     \<lparr>we_registry = lp_registry env, we_model = world_model (resolve_provider env input),
      we_poll = (\<lambda>w. (w, lp_worker_poll env w)), we_wait = lp_worker_wait env, we_new_id = on_x (lp_new_id env),
      we_session = sid, we_render = render_worker, we_show = lp_show env\<rparr>"

text \<open>A worker has a step limit of ten, so eleven rounds of fuel are enough.\<close>

definition run_worker :: "'x loop_env \<Rightarrow> agent_input \<Rightarrow> string \<Rightarrow> string \<Rightarrow> 'x kworld \<Rightarrow> 'x kworld \<times> worker_out" where
  "run_worker env input goal action w =
     (case execute_task 11 (loop_worker_env env input (ss_id (w_session w))) (loop_worker env input) goal action w of
        Some r \<Rightarrow> r
      | None \<Rightarrow> (w\<lparr>w_x := (w_x w)\<lparr>kx_stuck := True\<rparr>\<rparr>, [], None, None))"

section \<open>The kernel (kernel.go)\<close>

definition kernel_deps :: "'x loop_env \<Rightarrow> agent_input \<Rightarrow> 'x kext deps" where
  "kernel_deps env input =
     \<lparr>fd_react = main_react env input, fd_worker = run_worker env input,
      fd_on_updated = Some (\<lambda>tid goal status out w.
        fire (hk_task_updated (run_hooks env input)) AgentWorker (tid, goal, status, out) w),
      fd_reviewer = Some (review (lp_mid env) (run_hooks env input) (world_model (resolve_provider env input))),
      fd_summarize = summarize (lp_mid env) (lp_text env),
      fd_hooks = rewrite_event_hooks env input, fd_identity = AgentMain,
      fd_render_confirm = render_confirm, fd_render_status = render_status, fd_planner_prompt = planner_prompt,
      fd_agent_context = lp_agent_context env, fd_custom_tools = custom_tool_names (lp_registry env),
      fd_order = lp_order env, fd_sched = lp_sched env, fd_fuel = lp_dag_fuel env, fd_mid = lp_mid env,
      fd_config = lp_machine env\<rparr>"

text \<open>\<open>CompressContext\<close>: the callback first, then the compression with the compressor's model.\<close>

definition compress_context :: "'x loop_env \<Rightarrow> agent_input \<Rightarrow> 'x kworld \<Rightarrow> 'x kworld \<times> usage option \<times> err option" where
  "compress_context env input w =
     (let w1 = fire (hk_before_compress (run_hooks env input)) AgentMain () w in
      case compress_with_model (lp_mid env) (lp_text env) (cf_keep_last_n (lp_machine env))
             (cf_min_messages_to_compress (lp_machine env)) (w_session w1) (w_x w1) of
        (x, ss, u, e) \<Rightarrow> (w1\<lparr>w_x := x, w_session := ss\<rparr>, u, e))"

definition kernel_cancel :: "'x kext fsm \<Rightarrow> 'x kext fsm" where
  "kernel_cancel s = dag_cancel (map_ctx (\<lambda>c. c\<lparr>fc_x := interrupt (fc_x c)\<rparr>) s)"

text \<open>Where an answer of the human goes: the main agent first, then the first waiting worker in the order of the table.\<close>

definition team_waiting :: "team \<Rightarrow> bool" where
  "team_waiting tm = list_ex (\<lambda>t. human_loop_waiting (tm_agent tm t)) (tm_reg tm)"

definition kernel_waiting :: "human \<Rightarrow> team \<Rightarrow> bool" where
  "kernel_waiting main tm \<longleftrightarrow> human_loop_waiting main \<or> team_waiting tm"

definition kernel_resume :: "string \<Rightarrow> human \<Rightarrow> team \<Rightarrow> err + human \<times> team" where
  "kernel_resume answer main tm =
     (if human_loop_waiting main then Inr (resume_check answer main, tm)
      else (case List.find (\<lambda>t. human_loop_waiting (tm_agent tm t)) (tm_reg tm) of
              Some t \<Rightarrow> Inr (main, team_take t answer tm)
            | None \<Rightarrow> Inl (ErrOther ''no worker waiting for human input'')))"

section \<open>The agent loop (agent\_loop.go)\<close>

text \<open>\<open>lo_dreams\<close> is the dream scheduler with whether its stop channel is closed, if dreaming is enabled.\<close>

record 'x loop =
  lo_state :: "'x kext fsm"
  lo_file :: "jsonl_event list option"
  lo_dreams :: "(scheduler \<times> bool) option"
  lo_input :: agent_input

datatype 'x loop_end = Crashed | Hanging | Finished "'x loop" "err option"

definition dream_interval :: "int \<Rightarrow> int \<Rightarrow> int" where
  "dream_interval sec dflt = (if sec \<le> 0 then dflt else sec * 1000000000)"

definition loop_session :: "'x loop \<Rightarrow> session" where
  "loop_session lo = fc_session (ds_ext (lo_state lo))"

definition put_session :: "session \<Rightarrow> 'x loop \<Rightarrow> 'x loop" where
  "put_session ss lo = lo\<lparr>lo_state := map_ctx (\<lambda>c. c\<lparr>fc_session := ss\<rparr>) (lo_state lo)\<rparr>"

definition persist_loop :: "'x loop_env \<Rightarrow> 'x loop \<Rightarrow> 'x loop" where
  "persist_loop env lo =
     (if lp_persists env
      then (let ss = loop_session lo in lo\<lparr>lo_file := Some (session_events (ss_id ss) (ss_summary ss) (ss_history ss))\<rparr>)
      else lo)"

definition execute :: "'x loop_env \<Rightarrow> agent_input \<Rightarrow> 'x loop \<Rightarrow> 'x loop_end" where
  "execute env input lo =
     (case agent_input_validate input of
        Some e \<Rightarrow> Finished lo (Some e)
      | None \<Rightarrow>
          (let lo1 = lo\<lparr>lo_input := input,
                        lo_dreams := map_option (\<lambda>(sd, stopped). (notify_activity (lp_now env) sd, stopped)) (lo_dreams lo)\<rparr>
           in case machine_run (kernel_deps env input) input (lo_state lo1) of
                None \<Rightarrow> Hanging
              | Some (s, e) \<Rightarrow>
                  if kx_stuck (fc_x (ds_ext s)) then Hanging
                  else (let lo2 = lo1\<lparr>lo_state := s\<rparr>;
                            lo3 = put_session (append_messages (fc_results (ds_ext s)) (loop_session lo2)) lo2
                        in Finished (persist_loop env lo3) e)))"

definition loop_cancel :: "'x loop \<Rightarrow> 'x loop" where
  "loop_cancel lo = lo\<lparr>lo_state := kernel_cancel ((lo_state lo)\<lparr>ds_parent_done := True\<rparr>)\<rparr>"

text \<open>The goroutine of \<open>Run\<close>, \<open>cancelled\<close> whether the caller's context is.  The deferred calls run in reverse: \<open>Stop\<close>, which closes
  a channel and panics when it is closed already, then \<open>Cancel\<close>.\<close>

definition loop_run :: "'x loop_env \<Rightarrow> bool \<Rightarrow> agent_input \<Rightarrow> 'x loop \<Rightarrow> 'x loop_end" where
  "loop_run env cancelled input lo =
     (case execute env input (lo\<lparr>lo_state := (lo_state lo)\<lparr>ds_parent_done := cancelled\<rparr>\<rparr>) of
        Crashed \<Rightarrow> Crashed
      | Hanging \<Rightarrow> Hanging
      | Finished lo1 e \<Rightarrow>
          (let lo2 = (case e of
                 None \<Rightarrow> lo1
               | Some err \<Rightarrow> lo1\<lparr>lo_state := map_ctx (\<lambda>c. c\<lparr>fc_x := fire (hk_error (lp_user_hooks env)) AgentMain err (fc_x c)\<rparr>)
                                   (lo_state lo1)\<rparr>)
           in case lo_dreams lo2 of
                Some (sd, True) \<Rightarrow> Crashed
              | Some (sd, False) \<Rightarrow> Finished (loop_cancel (lo2\<lparr>lo_dreams := Some (sd, True)\<rparr>)) e
              | None \<Rightarrow> Finished (loop_cancel lo2) e))"

fun loop_runs :: "'x loop_env \<Rightarrow> agent_input list \<Rightarrow> 'x loop \<Rightarrow> 'x loop_end" where
  "loop_runs env [] lo = Finished lo None"
| "loop_runs env (i # is) lo =
     (case loop_run env False i lo of Finished lo1 _ \<Rightarrow> loop_runs env is lo1 | r \<Rightarrow> r)"

section \<open>What a request does to the session\<close>

text \<open>Models and callbacks act beside the session.  What a sane environment is: models answer as the assistant and do not report an
  overflow, tools answer under the id of their call, and what tools, waiting and gates do to the session maintains \<open>P\<close>.\<close>

definition sane_model :: "'s chat_model \<Rightarrow> bool" where
  "sane_model model \<longleftrightarrow> (\<forall>ms ts s. case snd (snd (model ms ts s)) of
     GenOk m \<Rightarrow> m_role m = RoleAssistant | GenErr e _ \<Rightarrow> \<not> err_is e ErrContextLengthExceeded)"

definition sane_env :: "(session \<Rightarrow> bool) \<Rightarrow> 'x loop_env \<Rightarrow> bool" where
  "sane_env P env \<longleftrightarrow>
     sane_model (lp_text env) \<and> (\<forall>m. lp_image env = Some m \<longrightarrow> sane_model m) \<and> (\<forall>m. lp_audio env = Some m \<longrightarrow> sane_model m) \<and>
     (\<forall>n e sid d w. reg_lookup (lp_registry env) n = Some e \<longrightarrow> tcr_id (snd (re_fn e sid d w)) = tcd_id d) \<and>
     tools_maintain (\<lambda>w. P (w_session w)) (lp_registry env) \<and>
     (\<forall>w. P (w_session w) \<longrightarrow> P (w_session (fst (lp_wait env w)))) \<and>
     (\<forall>w. P (w_session w) \<longrightarrow> P (w_session (fst (lp_worker_wait env w)))) \<and>
     (\<forall>rp w. P (w_session w) \<longrightarrow> P (w_session (lp_on_hitl env rp w))) \<and>
     (\<forall>w. P (w_session w) \<longrightarrow> P (w_session (lp_gate env w)))"

lemma on_x_session [simp]: "w_session (fst (on_x f w)) = w_session w"
  by (simp add: on_x_def split: prod.split)

lemma on_x_snd [simp]: "snd (on_x f w) = snd (f (w_x w))"
  by (simp add: on_x_def split: prod.split)

lemma world_fire [simp]: "w_session (fire (world_field h) i a w) = w_session w"
  by (simp add: world_field_def)

lemma world_event [simp]: "w_session (as_model_event_handler (world_hooks h) i ev w) = w_session w"
  by (cases ev) (simp_all add: world_hooks_def)

lemma world_tool_end [simp]: "w_session (fst (fire_result (hk_tool_call_end (world_hooks h)) i r w)) = w_session w"
proof -
  have "fst (fire_result (Some f) i r w) = fst (f i r w)" for f by (simp add: fire_result_def split: prod.split)
  then show ?thesis by (simp add: world_hooks_def)
qed

lemma world_hooks_sel [simp]:
  "w_session (fire (hk_wait_for_human (world_hooks h)) i a w) = w_session w"
  "w_session (fire (hk_task_updated (world_hooks h)) i t w) = w_session w"
  "w_session (fire (hk_before_compress (world_hooks h)) i u w) = w_session w"
  by (simp_all add: world_hooks_def)

lemma world_hooks_maintain: "hooks_maintain (\<lambda>w. P (w_session w)) (world_hooks h)"
  by (simp add: hooks_maintain_def del: as_model_event_handler.simps)

lemma deliver_all_session [simp]: "w_session (deliver_all (world_hooks h) i evs w) = w_session w"
  by (rule deliver_all_maintains [OF world_hooks_maintain [where P = "\<lambda>s. s = w_session w"]]) simp

lemma with_events_session [simp]: "w_session (fst (with_events (world_hooks h) i (world_model m) ms ts w)) = w_session w"
proof -
  have "w_session (fst (world_model m ms ts w)) = w_session w" by (simp add: world_model_def)
  then show ?thesis by (simp add: with_events_def case_prod_beta)
qed

lemma with_events_answer: "snd (with_events h i (world_model m) ms ts w) = snd (snd (m ms ts (w_x w)))"
proof -
  have "snd (world_model m ms ts w) = snd (m ms ts (w_x w))" by (simp add: world_model_def)
  then show ?thesis by (simp add: with_events_def case_prod_beta)
qed

lemma call_fst: "fst (call gen mid req s) = fst (gen (request_messages mid req) (request_tools req) s)"
  by (simp add: call_def split: prod.split gen_result.split)

lemma review_session [simp]: "w_session (fst (review mid (world_hooks h) (world_model m) goal summary activity w)) = w_session w"
proof -
  have "w_session (fst (call (with_events (world_hooks h) AgentReviewer (world_model m)) mid req w)) = w_session w" for req :: "unit request"
    by (simp add: call_fst)
  then show ?thesis by (simp add: review_def case_prod_beta split: sum.split option.split)
qed

lemma resolved_sane: "sane_env P env \<Longrightarrow> sane_model (resolve_provider env input)"
  by (auto simp: resolve_provider_def sane_env_def split: list.split option.split)

lemma main_env_sel [simp]:
  "rx_poll (main_env env input sid) = main_poll env" "rx_on_result (main_env env input sid) = None"
  "rx_new_id (main_env env input sid) = on_x (lp_new_id env)"
  by (simp_all add: main_env_def)

lemma main_agent_sel [simp]:
  "ag_registry (main_agent env input) = lp_registry env" "ag_identity (main_agent env input) = AgentMain"
  "ag_hooks (main_agent env input) = run_hooks env input" "ag_max_steps (main_agent env input) = 0"
  by (simp_all add: main_agent_def enable_human_in_the_loop_def register_local_ask_human_def new_ask_human_tool_def)

lemma main_agent_human:
  "ag_human (main_agent env input) = Some \<lparr>hl_tools = [(td_name ask_human_definition,
     \<lparr>re_fn = ask_human (main_gate env input), re_def = ask_human_definition\<rparr>)]\<rparr>"
  by (simp add: main_agent_def enable_human_in_the_loop_def register_local_ask_human_def new_ask_human_tool_def)

lemma main_call_tool:
  "call_tool (main_env env input sid) (main_agent env input) d w =
     (if tcd_name d = td_name ask_human_definition then ask_human (main_gate env input) sid d w
      else reg_call (lp_registry env) sid d w)"
  by (simp add: call_tool_def main_env_def main_agent_human)

lemma ask_human_id: "tcr_id (snd (ask_human gate sid d w)) = tcd_id d"
  by (simp add: ask_human_def error_result_def success_result_def split: sum.split prod.split)

lemma main_faithful:
  assumes "sane_env P env"
  shows "faithful (main_env env input sid) (main_agent env input)"
proof -
  have "sane_model (resolve_provider env input)" by (rule resolved_sane [OF assms])
  then have "m_role m = RoleAssistant" if "rx_generate (main_env env input sid) inp ts w = (w', GenOk m)" for inp ts w w' m
    using with_events_answer [of "run_hooks env input" AgentMain "resolve_provider env input" inp ts w] that
    unfolding main_env_def sane_model_def by (auto split: gen_result.splits)
  moreover have "tcr_id (snd (reg_call (lp_registry env) sid d w)) = tcd_id d" for d w
    using assms by (simp add: reg_call_def sane_env_def split: option.split)
  ultimately show ?thesis by (auto simp: faithful_def main_call_tool ask_human_id)
qed

lemma main_maintains:
  assumes "sane_env P env"
  shows "maintains_agent (\<lambda>w. P (w_session w)) (main_env env input sid) (main_agent env input)"
proof -
  have gate: "P (w_session (fst (main_gate env input r q w)))" if "P (w_session w)" for r q w
    using assms that by (simp add: main_gate_def sane_env_def run_hooks_def)
  have tools: "tools_maintain (\<lambda>w. P (w_session w)) (lp_registry env)" using assms by (simp add: sane_env_def)
  have "P (w_session (fst (call_tool (main_env env input sid) (main_agent env input) d w)))" if "P (w_session w)" for d w
    using ask_human_maintains [of "\<lambda>w. P (w_session w)", OF gate that] reg_call_maintains [OF tools that]
    by (simp add: main_call_tool)
  moreover have "w_session (fst (main_poll env w)) = w_session w" for w by (simp add: main_poll_def)
  ultimately show ?thesis
    by (simp add: maintains_agent_def main_env_def run_hooks_def del: as_model_event_handler.simps)
qed

lemma main_react_returns:
  assumes "execute_with_tools (lp_fuel env) (main_env env input (ss_id (w_session w))) (main_agent env input) sys ms tools w
    = Some (w', out, e)"
  shows "main_react env input sys ms tools w = (w', out, e)"
  by (simp add: main_react_def assms)

lemma main_react_cases:
  obtains "main_react env input sys ms tools w = (w\<lparr>w_x := (w_x w)\<lparr>kx_stuck := True\<rparr>\<rparr>, [], None)"
  | w' out e where "main_react env input sys ms tools w = (w', out, e)"
      "react_loop (lp_fuel env) (main_env env input (ss_id (w_session w))) (override_tools tools (main_agent env input)) 0
        (sys # ms) [] w = Some (w', out, e)"
proof (cases "execute_with_tools (lp_fuel env) (main_env env input (ss_id (w_session w))) (main_agent env input) sys ms tools w")
  case None
  then show ?thesis by (intro that(1)) (simp add: main_react_def)
next
  case (Some r)
  then show ?thesis by (cases r) (intro that(2), auto simp: main_react_def execute_with_tools_def)
qed

lemma override_sel [simp]:
  "call_tool env (override_tools tools a) = call_tool env a" "ag_registry (override_tools tools a) = ag_registry a"
  "ag_hooks (override_tools tools a) = ag_hooks a" "ag_identity (override_tools tools a) = ag_identity a"
  "ag_max_steps (override_tools tools a) = ag_max_steps a"
  by (auto simp: fun_eq_iff call_tool_def override_tools_def split: option.split)

lemma execute_tools_override [simp]: "execute_tools env (override_tools tools a) ds s = execute_tools env a ds s"
  by (induction ds arbitrary: s) (simp_all add: Let_def split: prod.split)

lemma maintains_override [simp]: "maintains_agent I env (override_tools tools a) = maintains_agent I env a"
  by (simp add: maintains_agent_def del: as_model_event_handler.simps)

lemma main_react_sane:
  assumes s: "sane_env P env"
  shows "(P (w_session w) \<longrightarrow> P (w_session (fst (main_react env input sys ms tools w)))) \<and>
    answered (fst (snd (main_react env input sys ms tools w))) \<and>
    (\<forall>e. snd (snd (main_react env input sys ms tools w)) = Some e \<longrightarrow> \<not> err_is e ErrContextLengthExceeded)"
proof (cases rule: main_react_cases [of env input sys ms tools w])
  case (2 w' out err)
  have "P (w_session w) \<Longrightarrow> P (w_session w')"
    using react_loop_maintains [OF 2(2), of "\<lambda>w. P (w_session w)"] main_maintains [OF s] by simp
  moreover have "answered out" using react_loop_answered [OF 2(2)] main_faithful [OF s] by simp
  moreover have "\<not> err_is e ErrContextLengthExceeded" if "err = Some e" for e
  proof (rule react_loop_error [where E = "\<lambda>e. \<not> err_is e ErrContextLengthExceeded"])
    show "react_loop (lp_fuel env) (main_env env input (ss_id (w_session w))) (override_tools tools (main_agent env input)) 0
        (sys # ms) [] w = Some (w', out, Some e)" using 2 that by simp
    have "sane_model (resolve_provider env input)" by (rule resolved_sane [OF s])
    then show "\<forall>i ts t q. snd (rx_generate (main_env env input (ss_id (w_session w))) i ts t) = GenErr e q \<longrightarrow>
        \<not> err_is e ErrContextLengthExceeded"
      by (auto simp: main_env_def with_events_answer sane_model_def) (metis gen_result.simps(6))
  qed (auto simp: main_env_def main_poll_def split: if_splits)
  ultimately show ?thesis using 2(1) by simp
qed simp

lemma run_worker_sane:
  assumes s: "sane_env P env" and "P (w_session w)"
  shows "P (w_session (fst (run_worker env input goal action w)))"
proof -
  have "maintains_worker (\<lambda>w. P (w_session w)) (loop_worker_env env input sid) (loop_worker env input)" for sid
  proof -
    have "w_session (fst (world_model m ms ts v)) = w_session v" for m ms ts and v :: "'a kworld" by (simp add: world_model_def)
    then show ?thesis using s
      by (simp add: maintains_worker_def loop_worker_env_def loop_worker_def new_worker_agent_def run_hooks_def
          world_hooks_maintain sane_env_def)
  qed
  note m = this [of "ss_id (w_session w)"]
  show ?thesis
  proof (cases "execute_task 11 (loop_worker_env env input (ss_id (w_session w))) (loop_worker env input) goal action w")
    case None
    then show ?thesis using assms(2) by (simp add: run_worker_def)
  next
    case (Some r)
    obtain w' out where r: "r = (w', out)" by (rule prod.exhaust)
    from execute_task_maintains [OF m Some [unfolded r] assms(2)] show ?thesis by (simp add: run_worker_def Some r)
  qed
qed

lemma kernel_well_behaved:
  assumes s: "sane_env P env"
    and "\<And>t ss. P ss \<Longrightarrow> P (append_message (new_system_message (lp_mid env) (TextContent t)) ss)"
  shows "well_behaved P answered (kernel_deps env input)"
  using main_react_sane [OF s] run_worker_sane [OF s] assms(2)
  by (auto simp: well_behaved_def maintains_session_def gives_transcripts_def never_overflows_def kernel_deps_def
      answered_append run_hooks_def)

section \<open>The conversation of a session\<close>

abbreviation talk_ok :: "session \<Rightarrow> bool" where
  "talk_ok ss \<equiv> answered (ss_history ss)"

lemma norm_calls: "extract_tool_calls (json_norm c) = map norm_detail (extract_tool_calls c)"
proof -
  have "part_calls (json_norm c) = map norm_detail (part_calls c)" for c by (cases c) simp_all
  then show ?thesis by (cases c) (simp_all add: map_concat comp_def)
qed

lemma norm_message_sel [simp]:
  "m_role (norm_message m) = m_role m" "m_content (norm_message m) = json_norm (m_content m)"
  by (simp_all add: norm_message_def)

lemma answered_norm: "answered ms \<Longrightarrow> answered (map norm_message ms)"
proof (induction ms rule: answered.induct)
  case (3 m t ms)
  have "map tcr_id (map norm_result rs) = map tcr_id rs" "map tcd_id (map norm_detail ds) = map tcd_id ds" for rs ds
    by (simp_all add: norm_result_def norm_detail_def)
  with 3 show ?case
    by (auto simp: norm_calls answers_def simp del: map_map split: if_splits)
qed (simp_all add: norm_calls)

lemma user_message_answered: "answered [build_user_message mid input]"
  by (simp add: build_user_message_def new_user_message_def new_message_def)

definition loop_ok :: "'x loop \<Rightarrow> bool" where
  "loop_ok lo \<longleftrightarrow> talk_ok (loop_session lo) \<and>
     (\<forall>evs. lo_file lo = Some evs \<longrightarrow> load_events evs ([], []) =
        Inr (ss_summary (loop_session lo), map norm_message (ss_history (loop_session lo))))"

lemma loop_ok_same: "loop_session lo' = loop_session lo \<Longrightarrow> lo_file lo' = lo_file lo \<Longrightarrow> loop_ok lo' = loop_ok lo"
  by (simp add: loop_ok_def)

lemma persisted_ok: "lp_persists env \<Longrightarrow> talk_ok (loop_session lo) \<Longrightarrow> loop_ok (persist_loop env lo)"
  by (auto simp: persist_loop_def loop_ok_def loop_session_def Let_def load_session_events)

lemma execute_ok:
  assumes s: "sane_env talk_ok env" "lp_persists env" and "loop_ok lo" and "execute env input lo = Finished lo' e"
  shows "loop_ok lo'"
proof (cases "agent_input_validate input")
  case (Some err)
  with assms show ?thesis by (simp add: execute_def)
next
  case None
  let ?d = "kernel_deps env input"
  obtain st where run: "machine_run ?d input (lo_state lo) = Some (st, e)"
    and lo': "lo' = persist_loop env (put_session (append_messages (fc_results (ds_ext st)) (fc_session (ds_ext st)))
      (lo\<lparr>lo_input := input, lo_dreams := map_option (\<lambda>(sd, stopped). (notify_activity (lp_now env) sd, stopped)) (lo_dreams lo),
          lo_state := st\<rparr>))"
    using assms(4) None by (auto simp: execute_def Let_def loop_session_def split: option.splits if_splits)
  have "well_behaved talk_ok answered ?d"
    by (rule kernel_well_behaved [OF s(1)])
      (simp add: append_message_def new_system_message_def new_message_def answered_append)
  moreover have "talk_ok (append_message (build_user_message (fd_mid ?d) input) (fc_session (ds_ext (lo_state lo))))"
    using assms(3) answered_append [OF _ user_message_answered]
    by (simp add: loop_ok_def loop_session_def append_message_def del: answered.simps)
  ultimately have "talk_inv talk_ok answered (ds_ext st)" by (rule machine_run_talk [OF _ run])
  then have "talk_ok (append_messages (fc_results (ds_ext st)) (fc_session (ds_ext st)))"
    by (simp add: talk_inv_def append_messages_def answered_append)
  then show ?thesis unfolding lo' by (intro persisted_ok [OF s(2)]) (simp add: put_session_def loop_session_def)
qed

lemma loop_cancel_sel [simp]:
  "loop_session (loop_cancel lo) = loop_session lo" "lo_file (loop_cancel lo) = lo_file lo"
  "kx_abort (fc_x (ds_ext (lo_state (loop_cancel lo))))" "lo_dreams (loop_cancel lo) = lo_dreams lo"
  by (simp_all add: loop_session_def loop_cancel_def kernel_cancel_def dag_cancel_def interrupt_def)

lemma loop_run_cases:
  assumes "loop_run env c input lo = Finished lo' e"
  obtains lo1 lo2 where "execute env input (lo\<lparr>lo_state := (lo_state lo)\<lparr>ds_parent_done := c\<rparr>\<rparr>) = Finished lo1 e"
    "loop_session lo2 = loop_session lo1" "lo_file lo2 = lo_file lo1" "lo' = loop_cancel lo2"
    "lo_dreams lo1 = None \<longleftrightarrow> lo_dreams lo2 = None" "\<And>sd b. lo_dreams lo2 = Some (sd, b) \<Longrightarrow> b"
proof -
  obtain lo1 e1 where x: "execute env input (lo\<lparr>lo_state := (lo_state lo)\<lparr>ds_parent_done := c\<rparr>\<rparr>) = Finished lo1 e1"
    using assms by (auto simp: loop_run_def split: loop_end.splits)
  define lo2 where "lo2 = (case e1 of None \<Rightarrow> lo1
    | Some err \<Rightarrow> lo1\<lparr>lo_state := map_ctx (\<lambda>c. c\<lparr>fc_x := fire (hk_error (lp_user_hooks env)) AgentMain err (fc_x c)\<rparr>)
        (lo_state lo1)\<rparr>)"
  have sel: "loop_session lo2 = loop_session lo1" "lo_file lo2 = lo_file lo1" "lo_dreams lo2 = lo_dreams lo1"
    by (auto simp: lo2_def loop_session_def split: option.split)
  have eq: "Finished lo' e = (case lo_dreams lo2 of
      Some (sd, True) \<Rightarrow> Crashed
    | Some (sd, False) \<Rightarrow> Finished (loop_cancel (lo2\<lparr>lo_dreams := Some (sd, True)\<rparr>)) e1
    | None \<Rightarrow> Finished (loop_cancel lo2) e1)"
    using assms unfolding loop_run_def x loop_end.case Let_def lo2_def [symmetric] by simp
  show ?thesis
  proof (cases "lo_dreams lo2")
    case None
    with eq that [of lo1 lo2] x sel show ?thesis by simp
  next
    case (Some sdb)
    then obtain sd b where sdb: "lo_dreams lo2 = Some (sd, b)" by fastforce
    with eq have "lo' = loop_cancel (lo2\<lparr>lo_dreams := Some (sd, True)\<rparr>)" "e1 = e"
      by (auto split: bool.splits)
    moreover have "lo_dreams lo1 \<noteq> None" by (simp only: sel(3) [symmetric] sdb) simp
    ultimately show ?thesis
      by (intro that [of lo1 "lo2\<lparr>lo_dreams := Some (sd, True)\<rparr>"])
        (use x sel(1,2) in \<open>simp_all add: loop_session_def\<close>)
  qed
qed

lemma loop_run_ok:
  assumes "sane_env talk_ok env" "lp_persists env" and "loop_ok lo" and "loop_run env c input lo = Finished lo' e"
  shows "loop_ok lo'"
proof (cases rule: loop_run_cases [OF assms(4)])
  case (1 lo1 lo2)
  have "loop_ok (lo\<lparr>lo_state := (lo_state lo)\<lparr>ds_parent_done := c\<rparr>\<rparr>)"
    using assms(3) by (simp add: loop_ok_def loop_session_def)
  from execute_ok [OF assms(1,2) this 1(1)] show ?thesis
    using 1(2-4) loop_ok_same [of lo2 lo1] loop_ok_same [of lo' lo2] by simp
qed

lemma loop_runs_ok:
  assumes "sane_env talk_ok env" "lp_persists env"
  shows "loop_ok lo \<Longrightarrow> loop_runs env inputs lo = Finished lo' e \<Longrightarrow> loop_ok lo'"
proof (induction inputs arbitrary: lo)
  case (Cons i inputs)
  from Cons.prems(2) obtain lo1 e1 where r: "loop_run env False i lo = Finished lo1 e1"
    "loop_runs env inputs lo1 = Finished lo' e"
    by (auto split: loop_end.splits)
  from Cons.IH [OF loop_run_ok [OF assms Cons.prems(1) r(1)] r(2)] show ?case .
qed simp


section \<open>The second request of a loop\<close>

text \<open>The deferred \<open>Cancel\<close> leaves a token in the main agent's abort channel, and nothing takes it out before the next ReAct run.\<close>

lemma aborted_react:
  assumes "kx_abort (w_x w)" and "\<not> w_done w" and "0 < lp_fuel env"
  shows "main_react env input sys ms tools w = (w\<lparr>w_x := (w_x w)\<lparr>kx_abort := False\<rparr>\<rparr>, [], None)"
proof (rule main_react_returns)
  obtain n where n: "lp_fuel env = Suc n" using assms(3) gr0_implies_Suc by blast
  show "execute_with_tools (lp_fuel env) (main_env env input (ss_id (w_session w))) (main_agent env input) sys ms tools w =
      Some (w\<lparr>w_x := (w_x w)\<lparr>kx_abort := False\<rparr>\<rparr>, [], None)"
    using assms(1,2)
    by (simp add: execute_with_tools_def n react_step_def main_env_def main_poll_def strip_dangling_tool_calls_def)
qed

abbreviation no_abort :: "'x kext fsm \<Rightarrow> 'x kext fsm" where
  "no_abort \<equiv> map_ctx (\<lambda>c. c\<lparr>fc_x := (fc_x c)\<lparr>kx_abort := False\<rparr>\<rparr>)"

lemma aborted_action:
  assumes "kx_abort (fc_x (ds_ext s))" and "\<not> ds_parent_done s" and "0 < lp_fuel env"
  shows "react_action (kernel_deps env input) st None s = (no_abort s, [], None)"
proof -
  have "put_world ((world_of s)\<lparr>w_x := (w_x (world_of s))\<lparr>kx_abort := False\<rparr>\<rparr>) s = no_abort s"
    by (simp add: put_world_def world_of_def map_ctx_def)
  moreover have "kx_abort (w_x (world_of s))" "\<not> w_done (world_of s)" using assms(1,2) by (simp_all add: world_of_def)
  ultimately show ?thesis
    using assms(3) by (simp add: react_action_def build_prompt_def run_react_def kernel_deps_def aborted_react Let_def)
qed

text \<open>So the mode is never asked for: the second request is always a direct one.\<close>

lemma aborted_intent:
  assumes "kx_abort (fc_x (ds_ext s))" and "\<not> ds_parent_done s" and "0 < lp_fuel env"
  shows "intent_state (kernel_deps env input) s = Some (map_ctx (\<lambda>c. c\<lparr>fc_work_mode := []\<rparr>) (no_abort s), PSDirect, None)"
  by (simp add: intent_state_def aborted_action [OF assms] extract_tool_result_def Let_def)

lemma aborted_direct:
  assumes "kx_abort (fc_x (ds_ext s))" and "\<not> ds_parent_done s" and "0 < lp_fuel env"
    and "cf_force_mode (lp_machine env) = ''simple''" and "0 < cf_max_cycles (lp_machine env)"
  shows "machine_run (kernel_deps env input) input s = Some (no_abort (run_start (kernel_deps env input) input s), None)"
proof -
  let ?d = "kernel_deps env input"
  let ?s = "run_start ?d input s"
  have c: "fd_config ?d = lp_machine env" by (simp add: kernel_deps_def)
  obtain n where n: "nat (cf_max_cycles (lp_machine env)) = Suc n" using assms(5) by (metis gr0_implies_Suc zero_less_nat_eq)
  have s: "kx_abort (fc_x (ds_ext ?s))" "\<not> ds_parent_done ?s" "fc_current (ds_ext ?s) = PSDirect" "fc_plan (ds_ext ?s) = None"
    using assms(1,2,4) by (simp_all add: run_start_def c initial_state_def)
  have "direct_state ?d ?s = Some (no_abort ?s, PSDirect, None)"
    by (simp add: direct_state_def aborted_action [OF s(1,2) assms(3)] map_ctx_def)
  then show ?thesis
    by (simp add: machine_run_start c n s Let_def is_terminal_def)
qed


section \<open>Workers and answers\<close>

text \<open>The fuel of a worker is enough: only the main agent can get stuck.\<close>

lemma worker_never_stuck:
  "execute_task 11 (loop_worker_env env input sid) (loop_worker env input) goal action w \<noteq> None"
proof -
  let ?a = "worker_react (loop_worker_env env input sid) (loop_worker env input)"
  have m: "ag_max_steps ?a = 10" by (simp add: loop_worker_def new_worker_agent_def)
  have "\<exists>s' ms e. react_loop 11 renv (override_tools None ?a) 0 inp [] st = Some (s', ms, e)" for renv inp st
    using react_loop_bounded [of "override_tools None ?a" 0 11 "[]" renv inp st] m by auto
  then have x: "execute_with_tools 11 renv ?a sys ms None st \<noteq> None" for renv sys ms st
    unfolding execute_with_tools_def by (metis option.distinct(1))
  show ?thesis
    unfolding execute_task_def Let_def
    by (simp add: case_prod_beta x finish_task_def Let_def split: sum.split option.split)
qed

text \<open>An answer of the human is taken exactly when somebody waits for one, and by the main agent if it waits.\<close>

lemma kernel_resume_iff:
  "(\<exists>r. kernel_resume answer main tm = Inr r) \<longleftrightarrow> kernel_waiting main tm"
  "human_loop_waiting main \<Longrightarrow> \<exists>m. kernel_resume answer main tm = Inr (m, tm) \<and> hm_given m = hm_given main @ [(hm_question main, answer)]"
proof -
  have "(\<exists>t. List.find (\<lambda>t. human_loop_waiting (tm_agent tm t)) (tm_reg tm) = Some t) \<longleftrightarrow> team_waiting tm"
    unfolding team_waiting_def list_ex_iff using find_None_iff [of "\<lambda>t. human_loop_waiting (tm_agent tm t)" "tm_reg tm"] by auto
  then show "(\<exists>r. kernel_resume answer main tm = Inr r) \<longleftrightarrow> kernel_waiting main tm"
    by (auto simp: kernel_resume_def kernel_waiting_def split: option.split)
qed (simp add: kernel_resume_def resume_check_def)

section \<open>A small loop\<close>

text \<open>The model calls the tool \<open>note\<close> once and then answers.\<close>

definition chat_demo_model :: "unit kext chat_model" where
  "chat_demo_model ms ts x =
     (x, [], GenOk (new_message RoleAssistant ''m''
       (if m_role (last ms) = RoleTool then TextContent ''Done.''
        else ToolCallContent [\<lparr>tcd_id = ''c'', tcd_name = ''note'', tcd_args = []\<rparr>])))"

definition note_definition :: tool_definition where
  "note_definition = \<lparr>td_name = ''note'', td_description = [], td_schema = [], td_output_schema = [], td_terminating = False\<rparr>"

definition chat_demo_env :: "unit loop_env" where
  "chat_demo_env =
     \<lparr>lp_text = chat_demo_model, lp_image = None, lp_audio = None,
      lp_registry = register note_definition (\<lambda>sid d w. (w, success_result (tcd_id d) ''note'' [])) empty_registry,
      lp_wait = (\<lambda>w. (w, Inr [])), lp_worker_wait = (\<lambda>w. (w, Inr [])), lp_on_hitl = (\<lambda>_ w. w), lp_gate = (\<lambda>w. w),
      lp_choose = (\<lambda>_. True), lp_worker_poll = (\<lambda>_. PollNone), lp_new_id = (\<lambda>x. (x, ''i'')), lp_mid = ''m'',
      lp_show = (\<lambda>_. []), lp_user_hooks = no_hooks, lp_extract = demo_xenv, lp_pipe = demo_pipe,
      lp_max_tool_result_chars = 0,
      lp_machine = \<lparr>cf_max_cycles = 5, cf_compress_max_attempts = 2, cf_keep_last_n = 6, cf_min_messages_to_compress = 10,
        cf_review_interval = 0, cf_max_failures_before_review = 0, cf_force_mode = ''simple''\<rparr>,
      lp_agent_context = [], lp_order = (\<lambda>p. map t_id (p_tasks p)), lp_sched = (\<lambda>_. []), lp_dag_fuel = 1, lp_fuel = 4,
      lp_now = 0, lp_persists = True\<rparr>"

definition chat_demo_loop :: "unit loop" where
  "chat_demo_loop =
     \<lparr>lo_state = \<lparr>ds_wm = empty_wm, ds_parent_done = False, ds_child_done = False, ds_cancel = False, ds_hitl = [], ds_paused = 0,
        ds_ext = \<lparr>fc_session = new_session ''s'', fc_current = PSNone, fc_prev = PSNone,
          fc_input = \<lparr>ai_text = [], ai_media = []\<rparr>, fc_results = [], fc_plan = None, fc_plan_id = [], fc_work_mode = [],
          fc_step = 0, fc_fails = 0,
          fc_x = \<lparr>kx_abort = False, kx_stuck = False, kx_memory = \<lparr>me_ltm = demo_ltm, me_graph = None\<rparr>, kx_rest = ()\<rparr>\<rparr>\<rparr>,
      lo_file = None, lo_dreams = None, lo_input = \<lparr>ai_text = [], ai_media = []\<rparr>\<rparr>"

lemma chat_demo_tools:
  "reg_lookup (lp_registry chat_demo_env) n =
     (if n = ''note'' then Some \<lparr>re_fn = \<lambda>sid d w. (w, success_result (tcd_id d) ''note'' []), re_def = note_definition\<rparr> else None)"
  by (simp add: chat_demo_env_def reg_lookup_def register_def reg_put_def empty_registry_def note_definition_def)

lemma chat_demo_sane: "sane_env talk_ok chat_demo_env"
  unfolding sane_env_def tools_maintain_def chat_demo_tools
  by (simp add: success_result_def sane_model_def chat_demo_env_def chat_demo_model_def new_message_def)

definition chat_demo_answer :: "message list" where
  "chat_demo_answer =
     [new_message RoleAssistant ''m'' (ToolCallContent [\<lparr>tcd_id = ''c'', tcd_name = ''note'', tcd_args = []\<rparr>]),
      new_tool_message ''i'' [success_result ''c'' ''note'' []],
      new_message RoleAssistant ''m'' (TextContent ''Done.'')]"

lemma chat_demo_react:
  assumes "\<not> kx_abort (w_x w)" and "\<not> w_done w" and "m_role (last (sys # ms)) \<noteq> RoleTool"
  shows "main_react chat_demo_env input sys ms tools w =
    (w, chat_demo_answer, None)"
proof (rule main_react_returns)
  have m: "m_role (new_tool_message i rs) = RoleTool" for i rs by (simp add: new_tool_message_def new_message_def)
  have f: "lp_fuel chat_demo_env = Suc (Suc (Suc (Suc 0)))" by (simp add: chat_demo_env_def)
  have g: "rx_generate (main_env chat_demo_env input sid) inp ts v =
      (v, GenOk (new_message RoleAssistant ''m'' (if m_role (last inp) = RoleTool then TextContent ''Done.''
        else ToolCallContent [\<lparr>tcd_id = ''c'', tcd_name = ''note'', tcd_args = []\<rparr>])))" for sid inp ts v
    by (simp add: main_env_def resolve_provider_def with_events_def world_model_def chat_demo_env_def chat_demo_model_def
        on_x_def deliver_all_def split: list.split)
  have c: "call_tool (main_env chat_demo_env input sid) (main_agent chat_demo_env input)
      \<lparr>tcd_id = ''c'', tcd_name = ''note'', tcd_args = []\<rparr> v = (v, success_result ''c'' ''note'' [])" for sid v
    by (simp add: main_call_tool ask_human_definition_def reg_call_def chat_demo_tools)
  have h: "fire_result (hk_tool_call_end (run_hooks chat_demo_env input)) AgentMain r v = (v, r)" for r v
    by (simp add: run_hooks_def rewrite_event_hooks_def world_hooks_def chain_def loop_sys_hooks_def chat_demo_env_def no_hooks_def
        compress_result_def fire_result_def on_x_def chain_result_def)
  have i: "on_x (lp_new_id chat_demo_env) w = (w, ''i'')" by (simp add: on_x_def chat_demo_env_def)
  have msg: "m_usage (new_message r i c) = None" "m_content (new_message r i c) = c" "tcr_name (success_result i k outs) = k" for r i c k outs
    by (simp_all add: new_message_def success_result_def)
  have p: "main_poll chat_demo_env w = (w, PollNone)" using assms(1,2) by (simp add: main_poll_def)
  show "execute_with_tools (lp_fuel chat_demo_env) (main_env chat_demo_env input (ss_id (w_session w)))
      (main_agent chat_demo_env input) sys ms tools w =
    Some (w, chat_demo_answer, None)"
    using assms(3) i
    by (simp add: execute_with_tools_def f chat_demo_answer_def react_step_def g p c h m notify_usage_def Let_def
        need_early_terminating_def is_terminating_def chat_demo_tools note_definition_def msg)
qed

lemma chat_demo_machine:
  assumes "\<not> kx_abort (fc_x (ds_ext s))" and "\<not> ds_parent_done s"
  shows "machine_run (kernel_deps chat_demo_env input) input s =
    Some (map_ctx (\<lambda>c. c\<lparr>fc_results := chat_demo_answer\<rparr>) (run_start (kernel_deps chat_demo_env input) input s), None)"
proof -
  let ?d = "kernel_deps chat_demo_env input"
  let ?s = "run_start ?d input s"
  have c: "fd_config ?d = lp_machine chat_demo_env" "cf_max_cycles (lp_machine chat_demo_env) = 5"
    "cf_force_mode (lp_machine chat_demo_env) = ''simple''"
    by (simp_all add: kernel_deps_def chat_demo_env_def)
  have s: "\<not> kx_abort (fc_x (ds_ext ?s))" "\<not> ds_parent_done ?s" "fc_current (ds_ext ?s) = PSDirect" "fc_plan (ds_ext ?s) = None"
    "fc_results (ds_ext ?s) = []"
    using assms by (simp_all add: run_start_def c initial_state_def)
  have "last (get_history_messages (fd_mid ?d) (fc_session (ds_ext ?s))) = build_user_message (fd_mid ?d) input"
    "get_history_messages (fd_mid ?d) (fc_session (ds_ext ?s)) \<noteq> []"
    by (simp_all add: run_start_def get_history_messages_def append_message_def)
  moreover have "m_role (build_user_message (fd_mid ?d) input) \<noteq> RoleTool"
    by (simp add: build_user_message_def new_user_message_def new_message_def)
  ultimately have l: "m_role (last (sys # get_history_messages (fd_mid ?d) (fc_session (ds_ext ?s)))) \<noteq> RoleTool" for sys by simp
  have w: "put_world (world_of ?s) ?s = ?s" by (simp add: put_world_def world_of_def)
  have w': "\<not> kx_abort (w_x (world_of ?s))" "\<not> w_done (world_of ?s)" using s(1,2) by (simp_all add: world_of_def)
  have r: "run_react ?d sys tools ?s = (?s, chat_demo_answer, None)" for sys tools
    using chat_demo_react [OF w' l, of input sys tools] w
    by (simp add: run_react_def chat_demo_answer_def) (simp add: kernel_deps_def)
  have "react_action ?d PSDirect None ?s = (?s, chat_demo_answer, None)"
    by (simp add: react_action_def build_prompt_def r Let_def)
  then have "direct_state ?d ?s = Some (map_ctx (\<lambda>c. c\<lparr>fc_results := chat_demo_answer\<rparr>) ?s, PSDirect, None)"
    using s(5) by (simp add: direct_state_def map_ctx_def)
  then show ?thesis
    by (simp add: machine_run_start c s Let_def is_terminal_def numeral_eq_Suc)
qed

lemma chat_demo_run:
  "\<exists>lo1. loop_run chat_demo_env False demo_input chat_demo_loop = Finished lo1 None \<and> lo_dreams lo1 = None \<and>
     \<not> kx_stuck (fc_x (ds_ext (lo_state lo1))) \<and> ss_summary (loop_session lo1) = [] \<and>
     ss_history (loop_session lo1) = build_user_message ''m'' demo_input # chat_demo_answer"
proof -
  let ?s = "(lo_state chat_demo_loop)\<lparr>ds_parent_done := False\<rparr>"
  let ?t = "map_ctx (\<lambda>c. c\<lparr>fc_results := chat_demo_answer\<rparr>) (run_start (kernel_deps chat_demo_env demo_input) demo_input ?s)"
  have "machine_run (kernel_deps chat_demo_env demo_input) demo_input ?s = Some (?t, None)"
    by (rule chat_demo_machine) (simp_all add: chat_demo_loop_def)
  moreover have "agent_input_validate demo_input = None" by code_simp
  ultimately show ?thesis
    by (simp add: loop_run_def execute_def Let_def persist_loop_def put_session_def)
      (simp add: chat_demo_loop_def chat_demo_env_def kernel_deps_def loop_session_def run_start_def append_messages_def
        append_message_def new_session_def loop_cancel_def kernel_cancel_def dag_cancel_def interrupt_def)
qed



end
