(* ===== verification/Paths.thy ===== *)
theory Paths
  imports Types
begin

text \<open>
  File paths: \<open>Clean\<close>, \<open>Join\<close>, \<open>Dir\<close> and \<open>Base\<close> of Go's path/filepath (on Unix), and the directory layout of core/workspace.go.
\<close>

section \<open>Go's path/filepath\<close>

definition slash :: char where "slash = CHR ''/''"

definition is_abs :: "string \<Rightarrow> bool" where
  "is_abs p = (case p of c # _ \<Rightarrow> c = slash | [] \<Rightarrow> False)"

text \<open>One element of the path; the elements so far are kept in reverse.\<close>

definition clean_step :: "bool \<Rightarrow> string list \<Rightarrow> string \<Rightarrow> string list" where
  "clean_step rooted rs c =
     (if c = [] \<or> c = ''.'' then rs
      else if c = ''..'' then
        (case rs of [] \<Rightarrow> if rooted then [] else [c] | r # rs' \<Rightarrow> if r = ''..'' then c # rs else rs')
      else c # rs)"

definition clean_comps :: "bool \<Rightarrow> string list \<Rightarrow> string list" where
  "clean_comps rooted cs = rev (foldl (clean_step rooted) [] cs)"

definition render_path :: "bool \<Rightarrow> string list \<Rightarrow> string" where
  "render_path rooted cs =
     (if rooted then slash # str_join [slash] cs else if cs = [] then ''.'' else str_join [slash] cs)"

definition go_clean :: "string \<Rightarrow> string" where
  "go_clean p = render_path (is_abs p) (clean_comps (is_abs p) (split_char slash p))"

definition go_join :: "string list \<Rightarrow> string" where
  "go_join es = (case dropWhile (\<lambda>e. e = []) es of [] \<Rightarrow> [] | es' \<Rightarrow> go_clean (str_join [slash] es'))"

definition go_dir :: "string \<Rightarrow> string" where
  "go_dir p = go_clean (rev (dropWhile (\<lambda>c. c \<noteq> slash) (rev p)))"

definition go_base :: "string \<Rightarrow> string" where
  "go_base p =
     (if p = [] then ''.''
      else (let b = rev (takeWhile (\<lambda>c. c \<noteq> slash) (dropWhile (\<lambda>c. c = slash) (rev p)))
            in if b = [] then [slash] else b))"

section \<open>The workspace (workspace.go)\<close>

definition memory_dir :: "string \<Rightarrow> string" where
  "memory_dir dir = go_join [dir, ''memory'']"

definition sessions_dir :: "string \<Rightarrow> string" where
  "sessions_dir dir = go_join [dir, ''memory'', ''sessions'']"

definition plans_dir :: "string \<Rightarrow> string" where
  "plans_dir dir = go_join [dir, ''memory'', ''plans'']"

definition skills_dir :: "string \<Rightarrow> string" where
  "skills_dir dir = go_join [dir, ''skills'']"

definition memory_file :: "string \<Rightarrow> string" where
  "memory_file dir = go_join [dir, ''MEMORY.md'']"

definition safe_id :: "string \<Rightarrow> string" where
  "safe_id i =
     (let base = go_base (go_clean i) in if base = ''.'' \<or> base = ''..'' \<or> base = [slash] then [] else base)"

definition session_path :: "string \<Rightarrow> string \<Rightarrow> string" where
  "session_path dir sid = go_join [dir, ''memory'', ''sessions'', safe_id sid @ ''.jsonl'']"

definition plan_path :: "string \<Rightarrow> string \<Rightarrow> string" where
  "plan_path dir pid = go_join [dir, ''memory'', ''plans'', safe_id pid, ''plan.jsonl'']"

definition checkpoint_path :: "string \<Rightarrow> string \<Rightarrow> int \<Rightarrow> string" where
  "checkpoint_path dir pid v =
     go_join [dir, ''memory'', ''plans'', safe_id pid, ''checkpoints'', dec04 v @ ''.jsonl'']"

definition workspace_dirs :: "string \<Rightarrow> string list" where
  "workspace_dirs dir = [dir, memory_dir dir, sessions_dir dir, plans_dir dir]"

section \<open>Clean paths\<close>

lemma is_abs_simps [simp]: "is_abs (slash # p)" "\<not> is_abs ''.''" "\<not> is_abs []"
  by (simp_all add: is_abs_def slash_def)

text \<open>A name is an element that stands for a file of its directory.\<close>

definition name_ok :: "string \<Rightarrow> bool" where
  "name_ok c \<longleftrightarrow> c \<noteq> [] \<and> c \<noteq> ''.'' \<and> c \<noteq> ''..'' \<and> slash \<notin> set c"

text \<open>The elements of a clean path: leading \<open>..\<close> if it is relative, then names.\<close>

definition clean_list :: "bool \<Rightarrow> string list \<Rightarrow> bool" where
  "clean_list rooted cs \<longleftrightarrow>
     (\<exists>k ns. cs = replicate k ''..'' @ ns \<and> list_all name_ok ns \<and> (rooted \<longrightarrow> k = 0))"

lemma slash_special: "slash \<notin> set ''.''" "slash \<notin> set ''..''"
  by (simp_all add: slash_def)

lemma clean_step_list:
  assumes "clean_list rooted (rev rs)" and "slash \<notin> set c"
  shows "clean_list rooted (rev (clean_step rooted rs c))"
proof -
  from assms(1) obtain k ns where kn: "rev rs = replicate k ''..'' @ ns" "list_all name_ok ns" "rooted \<longrightarrow> k = 0"
    unfolding clean_list_def by blast
  consider "c = [] \<or> c = ''.''" | "c = ''..''" "ns = []" | n ns' where "c = ''..''" "ns = ns' @ [n]" | "name_ok c"
    using assms(2) by (cases ns rule: rev_cases) (auto simp: name_ok_def)
  then show ?thesis
  proof cases
    case 1
    then show ?thesis using assms(1) by (auto simp: clean_step_def)
  next
    case 2
    then have rs: "rs = replicate k ''..''" using kn(1) by (metis append_Nil2 rev_replicate rev_swap)
    show ?thesis
    proof (cases k)
      case 0
      with 2 rs show ?thesis
        by (cases rooted) (auto simp: clean_step_def clean_list_def intro: exI [of _ "Suc 0"] exI [of _ 0])
    next
      case (Suc j)
      with 2 rs have "rev (clean_step rooted rs c) = replicate (Suc k) ''..'' @ []"
        by (simp add: clean_step_def replicate_append_same)
      with kn(3) Suc show ?thesis unfolding clean_list_def by (metis list.pred_inject(1) nat.distinct(1))
    qed
  next
    case 3
    then have "rs = n # rev (replicate k ''..'' @ ns')" using kn(1) by (metis append.assoc rev_eq_Cons_iff rev_swap)
    moreover have "n \<noteq> ''..''" using kn(2) 3 by (simp add: name_ok_def)
    ultimately have "rev (clean_step rooted rs c) = replicate k ''..'' @ ns'" using 3 by (simp add: clean_step_def)
    with kn 3 show ?thesis by (auto simp: clean_list_def)
  next
    case 4
    then have "rev (clean_step rooted rs c) = replicate k ''..'' @ (ns @ [c])"
      using kn(1) by (simp add: clean_step_def name_ok_def)
    with kn 4 show ?thesis unfolding clean_list_def by (metis list_all_append list.pred_inject)
  qed
qed

lemma clean_list_Nil [simp]: "clean_list rooted []"
  by (simp add: clean_list_def)

lemma clean_list_names: "list_all name_ok ns \<Longrightarrow> clean_list rooted ns"
  unfolding clean_list_def by (intro exI [of _ 0] exI [of _ ns]) simp

lemma clean_comps_list:
  assumes "\<forall>c \<in> set cs. slash \<notin> set c"
  shows "clean_list rooted (clean_comps rooted cs)"
proof -
  have "clean_list rooted (rev (foldl (clean_step rooted) rs cs))" if "clean_list rooted (rev rs)" for rs
    using assms that by (induction cs arbitrary: rs) (auto intro: clean_step_list)
  from this [of "[]"] show ?thesis by (simp add: clean_comps_def)
qed

lemma clean_list_free:
  assumes "clean_list rooted cs" and "c \<in> set cs"
  shows "slash \<notin> set c \<and> c \<noteq> [] \<and> c \<noteq> ''.''"
proof -
  from assms(1) obtain k ns where kn: "cs = replicate k ''..'' @ ns" "list_all name_ok ns"
    unfolding clean_list_def by blast
  then have "c = ''..'' \<or> name_ok c" using assms(2) by (auto simp: list_all_iff)
  then show ?thesis using slash_special by (auto simp: name_ok_def)
qed

text \<open>A clean list is its own cleaning, and elements behind a clean list are cleaned one by one.\<close>

lemma clean_comps_append: "clean_comps rooted (cs @ ds) = rev (foldl (clean_step rooted) (rev (clean_comps rooted cs)) ds)"
  by (simp add: clean_comps_def)

lemma clean_names: "list_all name_ok ns \<Longrightarrow> foldl (clean_step rooted) rs ns = rev ns @ rs"
  by (induction ns arbitrary: rs) (auto simp: clean_step_def name_ok_def)

lemma clean_comps_idem: "clean_list rooted cs \<Longrightarrow> clean_comps rooted cs = cs"
proof -
  assume "clean_list rooted cs"
  then obtain k ns where kn: "cs = replicate k ''..'' @ ns" "list_all name_ok ns" "rooted \<longrightarrow> k = 0"
    unfolding clean_list_def by blast
  have step: "clean_step False (replicate j ''..'') ''..'' = ''..'' # replicate j ''..''" for j
    by (cases j) (simp_all add: clean_step_def)
  have "foldl (clean_step rooted) (replicate j ''..'') (replicate k ''..'') = replicate (j + k) ''..''" if "\<not> rooted \<or> k = 0" for j k
  proof (cases "k = 0")
    case False
    have "foldl (clean_step False) (replicate j ''..'') (replicate k ''..'') = replicate (j + k) ''..''" for j
    proof (induction k arbitrary: j)
      case (Suc k)
      from Suc [of "Suc j"] show ?case by (simp add: step)
    qed simp
    with that False show ?thesis by simp
  qed simp
  from this [of k 0] kn show ?thesis by (auto simp: clean_comps_def clean_names)
qed

section \<open>Joining names to a directory\<close>

lemma split_char_app: "split_char c (a @ c # b) = split_char c a @ split_char c b"
proof (induction a)
  case (Cons x a)
  then show ?case by (cases "split_char c a") auto
qed simp

lemma join_Cons: "str_join sep (x # xs) = x @ concat (map (\<lambda>y. sep @ y) xs)"
  by (induction xs arbitrary: x) simp_all

lemma split_join_names: "\<forall>n \<in> set ns. c \<notin> set n \<Longrightarrow> split_char c (str_join [c] (d # ns)) = split_char c d @ ns"
proof (induction ns arbitrary: d)
  case (Cons n ns)
  have "str_join [c] (d # n # ns) = d @ c # str_join [c] (n # ns)" by simp
  then show ?case using Cons.IH [of n] Cons.prems by (simp only: split_char_app) (simp add: split_char_none)
qed simp

definition path_of :: "string \<Rightarrow> string list \<Rightarrow> string" where
  "path_of dir ns = render_path (is_abs dir) (clean_comps (is_abs dir) (split_char slash dir) @ ns)"

lemma path_of_Nil [simp]: "path_of dir [] = go_clean dir"
  by (simp add: path_of_def go_clean_def)

lemma name_ok_free: "list_all name_ok ns \<Longrightarrow> n \<in> set ns \<Longrightarrow> slash \<notin> set n \<and> n \<noteq> []"
  by (simp add: list_all_iff name_ok_def)

lemma clean_join:
  assumes "d \<noteq> []" and "list_all name_ok ns"
  shows "go_clean (str_join [slash] (d # ns)) = path_of d ns"
proof -
  have "is_abs (str_join [slash] (d # ns)) = is_abs d" using assms(1) by (cases d) (simp_all add: join_Cons is_abs_def)
  moreover have "split_char slash (str_join [slash] (d # ns)) = split_char slash d @ ns"
    by (rule split_join_names) (use name_ok_free [OF assms(2)] in blast)
  ultimately show ?thesis
    by (simp add: go_clean_def path_of_def clean_comps_append clean_names [OF assms(2)])
qed

lemma join_names:
  assumes "d \<noteq> [] \<or> ns \<noteq> []" and "list_all name_ok ns"
  shows "go_join (d # ns) = path_of d ns"
proof (cases "d = []")
  case False
  then show ?thesis using clean_join [OF _ assms(2)] by (simp add: go_join_def)
next
  case True
  then obtain n ms where ns: "ns = n # ms" using assms(1) by (cases ns) auto
  with assms(2) have n: "n \<noteq> []" "list_all name_ok ms" "is_abs n = False" "split_char slash n = [n]"
    by (auto simp: name_ok_def is_abs_def split_char_none split: list.split)
  have "clean_comps False [n] = [n]" by (rule clean_comps_idem [OF clean_list_names]) (use assms(2) ns in simp)
  then show ?thesis
    using clean_join [OF n(1,2)] n ns True
    by (simp add: go_join_def path_of_def) (simp add: is_abs_def clean_comps_def clean_step_def)
qed

lemma path_of_split:
  assumes "list_all name_ok ns"
  shows "is_abs (path_of d ns) = is_abs d"
    and "clean_comps (is_abs d) (split_char slash (path_of d ns)) = clean_comps (is_abs d) (split_char slash d) @ ns"
proof -
  let ?cs = "clean_comps (is_abs d) (split_char slash d) @ ns"
  have "clean_list (is_abs d) (clean_comps (is_abs d) (split_char slash d))"
    by (rule clean_comps_list) (blast dest: split_char_free)
  then have l: "clean_list (is_abs d) ?cs"
    using assms by (fastforce simp: clean_list_def list_all_append)
  then have free: "\<forall>c \<in> set ?cs. slash \<notin> set c" "[] \<notin> set ?cs" using clean_list_free by blast+
  have a: "is_abs (str_join [slash] cs) = False" if "cs \<noteq> []" "hd cs \<noteq> []" "slash \<notin> set (hd cs)" for cs
    using that by (cases cs; cases "hd cs") (auto simp: join_Cons is_abs_def)
  have a: "is_abs (str_join [slash] ?cs) = False" if "?cs \<noteq> []"
    by (rule a [OF that]) (use free hd_in_set [OF that] in \<open>metis\<close>)+
  show "is_abs (path_of d ns) = is_abs d"
    using a by (cases "is_abs d") (simp_all add: path_of_def render_path_def)
  have sp: "split_char slash (str_join [slash] ?cs) = ?cs" if "?cs \<noteq> []"
    using split_join_char [OF that free(1)] .
  show "clean_comps (is_abs d) (split_char slash (path_of d ns)) = ?cs"
  proof (cases "?cs = []")
    case True
    then show ?thesis by (simp add: path_of_def render_path_def clean_comps_def clean_step_def slash_def)
  next
    case False
    have root: "clean_comps True ([] # cs) = clean_comps True cs" for cs by (simp add: clean_comps_def clean_step_def)
    from False have "split_char slash (path_of d ns) = (if is_abs d then [] # ?cs else ?cs)"
      using sp [OF False] by (simp add: path_of_def render_path_def del: append_is_Nil_conv) metis
    with clean_comps_idem [OF l] root [of ?cs] show ?thesis by (cases "is_abs d") simp_all
  qed
qed

lemma path_of_path_of: "list_all name_ok ms \<Longrightarrow> path_of (path_of d ms) ns = path_of d (ms @ ns)"
  by (simp add: path_of_def [of "path_of d ms"] path_of_split) (simp add: path_of_def)

lemma path_of_clean: "list_all name_ok ns \<Longrightarrow> go_clean (path_of d ns) = path_of d ns"
  using path_of_path_of [of ns d "[]"] by simp

lemma go_clean_idem [simp]: "go_clean (go_clean p) = go_clean p"
  using path_of_path_of [of "[]" p "[]"] by simp

lemma render_nonempty: "clean_list r cs \<Longrightarrow> render_path r cs \<noteq> []"
proof (cases cs)
  case (Cons c cs')
  moreover assume "clean_list r cs"
  ultimately show ?thesis using clean_list_free [of r cs c] by (simp add: render_path_def join_Cons)
qed (simp add: render_path_def)

lemma go_clean_nonempty [simp]: "go_clean p \<noteq> []"
  unfolding go_clean_def by (rule render_nonempty, rule clean_comps_list) (blast dest: split_char_free)

lemma path_of_nonempty: "list_all name_ok ns \<Longrightarrow> path_of d ns \<noteq> []"
  by (metis path_of_clean go_clean_nonempty)

lemma go_clean_trailing: "x \<noteq> [] \<Longrightarrow> go_clean (x @ [slash]) = go_clean x"
proof -
  assume "x \<noteq> []"
  then have "is_abs (x @ [slash]) = is_abs x" by (cases x) (simp_all add: is_abs_def)
  moreover have "split_char slash (x @ [slash]) = split_char slash x @ [[]]" using split_char_app [of slash x "[]"] by simp
  ultimately show ?thesis by (simp add: go_clean_def clean_comps_append) (simp add: clean_comps_def clean_step_def)
qed

lemma last_elem:
  assumes "slash \<notin> set n"
  shows "go_dir (x @ slash # n) = go_clean (x @ [slash])" "go_dir n = ''.''"
    and "n \<noteq> [] \<Longrightarrow> go_base (x @ slash # n) = n" "n \<noteq> [] \<Longrightarrow> go_base n = n"
proof -
  have d: "dropWhile (\<lambda>c. c \<noteq> slash) (rev n @ y) = dropWhile (\<lambda>c. c \<noteq> slash) y" for y
    by (rule dropWhile_append2) (use assms in auto)
  show "go_dir (x @ slash # n) = go_clean (x @ [slash])" by (simp add: go_dir_def d)
  have "dropWhile (\<lambda>c. c \<noteq> slash) (rev n) = []" 
    unfolding dropWhile_eq_Nil_conv set_rev using assms by blast
  then show "go_dir n = ''.''" by (simp only: go_dir_def) (simp add: go_clean_def clean_comps_def clean_step_def render_path_def)
  have t: "takeWhile (\<lambda>c. c \<noteq> slash) (rev n @ slash # y) = rev n" "takeWhile (\<lambda>c. c \<noteq> slash) (rev n) = rev n" for y
    using takeWhile_append2 [of "rev n" "\<lambda>c. c \<noteq> slash" "slash # y"] takeWhile_eq_all_conv [of "\<lambda>c. c \<noteq> slash" "rev n"] assms
    unfolding set_rev by fastforce+
  have s: "dropWhile (\<lambda>c. c = slash) (rev n @ y) = rev n @ y" if "n \<noteq> []" for y
    using that assms by (cases n rule: rev_cases) auto
  show "go_base (x @ slash # n) = n" if "n \<noteq> []" using that by (simp add: go_base_def s t Let_def)
  show "go_base n = n" if "n \<noteq> []" using that s [OF that, of "[]"] by (simp add: go_base_def t Let_def)
qed

lemma render_snoc: "cs \<noteq> [] \<Longrightarrow> render_path r (cs @ [n]) = render_path r cs @ slash # n"
proof -
  assume ne: "cs \<noteq> []"
  then have "str_join [slash] (cs @ [n]) = str_join [slash] cs @ slash # n"
    by (induction "[slash]" cs rule: str_join.induct) auto
  with ne show ?thesis by (simp add: render_path_def)
qed

lemma path_of_snoc:
  assumes "list_all name_ok ns" and "name_ok n"
  shows "go_dir (path_of d (ns @ [n])) = path_of d ns" and "go_base (path_of d (ns @ [n])) = n"
proof -
  let ?cs = "clean_comps (is_abs d) (split_char slash d) @ ns"
  have n: "slash \<notin> set n" "n \<noteq> []" using assms(2) by (simp_all add: name_ok_def)
  have p: "path_of d (ns @ [n]) = render_path (is_abs d) (?cs @ [n])" "path_of d ns = render_path (is_abs d) ?cs"
    by (simp_all add: path_of_def)
  have i: "go_clean (path_of d ns) = path_of d ns" using path_of_path_of [OF assms(1), of d "[]"] by simp
  have "go_dir (path_of d (ns @ [n])) = path_of d ns \<and> go_base (path_of d (ns @ [n])) = n"
  proof (cases "?cs = []")
    case True
    have "go_clean [slash] = [slash]" by (simp add: go_clean_def clean_comps_def clean_step_def render_path_def)
    then show ?thesis
      unfolding p True using last_elem(1,3) [OF n(1), where x = "[]"] last_elem(2,4) [OF n(1)] n(2)
      by (simp add: render_path_def)
  next
    case False
    have e: "path_of d (ns @ [n]) = path_of d ns @ slash # n" unfolding p by (rule render_snoc [OF False])
    have e2: "path_of d ns \<noteq> []" using go_clean_nonempty [of "path_of d ns"] by (simp only: i) simp
    from e e2 i show ?thesis using last_elem(1,3) [OF n(1), where x = "path_of d ns"] n(2) go_clean_trailing [OF e2] by simp
  qed
  then show "go_dir (path_of d (ns @ [n])) = path_of d ns" "go_base (path_of d (ns @ [n])) = n" by simp_all
qed

section \<open>Identifiers cannot leave their directory\<close>

lemma go_base_free: "go_base p = [slash] \<or> go_base p \<noteq> [] \<and> slash \<notin> set (go_base p)"
proof -
  have "slash \<notin> set (takeWhile (\<lambda>c. c \<noteq> slash) q)" for q by (auto dest: set_takeWhileD)
  moreover have "go_base p = ''.'' \<or> go_base p = [slash] \<or>
      go_base p = rev (takeWhile (\<lambda>c. c \<noteq> slash) (dropWhile (\<lambda>c. c = slash) (rev p))) \<and> go_base p \<noteq> []"
    by (simp only: go_base_def Let_def split: if_split) simp
  ultimately show ?thesis using slash_special(1) by (metis list.distinct(1) set_rev)
qed

lemma safe_id_name: "safe_id i = [] \<or> name_ok (safe_id i)"
  using go_base_free [of "go_clean i"] unfolding safe_id_def Let_def name_ok_def by (simp split: if_split) blast

lemma safe_id_fix: "name_ok i \<Longrightarrow> safe_id i = i"
proof -
  assume n: "name_ok i"
  then have "slash \<notin> set i" "i \<noteq> []" by (simp_all add: name_ok_def)
  then have "\<not> is_abs i" "split_char slash i = [i]"
    using split_char_none [of slash i] by (auto simp: is_abs_def split: list.split)
  then have "go_clean i = i"
    using n clean_comps_idem [OF clean_list_names [of "[i]" False]] by (simp add: go_clean_def render_path_def)
  moreover have "go_base i = i" by (rule last_elem(4)) (use n in \<open>simp_all add: name_ok_def\<close>)
  ultimately show ?thesis using n by (simp add: safe_id_def Let_def name_ok_def slash_def) auto
qed

lemma name_ok_jsonl: "slash \<notin> set b \<Longrightarrow> name_ok (b @ ''.jsonl'')"
  by (cases b) (auto simp: name_ok_def slash_def)

text \<open>Every file of a session or a plan lies in its own directory of the workspace, whatever the identifier is.\<close>

lemma dirs_path_of:
  "memory_dir d = path_of d [''memory'']"
  "sessions_dir d = path_of d [''memory'', ''sessions'']"
  "plans_dir d = path_of d [''memory'', ''plans'']"
  by (simp_all add: memory_dir_def sessions_dir_def plans_dir_def join_names name_ok_def slash_def)

lemma session_path_of: "session_path d i = path_of d [''memory'', ''sessions'', safe_id i @ ''.jsonl'']"
proof -
  have "slash \<notin> set (safe_id i)" using safe_id_name [of i] by (auto simp: name_ok_def)
  then have "name_ok (safe_id i @ ''.jsonl'')" by (rule name_ok_jsonl)
  moreover have "name_ok ''memory''" "name_ok ''sessions''" by (simp_all add: name_ok_def slash_def)
  ultimately show ?thesis by (simp add: session_path_def join_names)
qed


lemma dec04_no_slash: "slash \<notin> set (dec04 v)"
proof
  assume "slash \<in> set (dec04 v)"
  then have "slash = CHR ''-'' \<or> 48 \<le> (of_char slash :: nat)"
    by (auto simp: dec04_def Let_def dest: nat_dec_digits zeros_digits split: if_splits)
  then show False by (simp add: slash_def)
qed

lemma plan_path_home:
  assumes "safe_id i \<noteq> []"
  shows "go_dir (go_dir (plan_path d i)) = plans_dir d"
    and "go_dir (go_dir (go_dir (checkpoint_path d i v))) = plans_dir d"
proof -
  have n: "name_ok (safe_id i)" using safe_id_name [of i] assms by blast
  have m: "name_ok ''memory''" "name_ok ''plans''" "name_ok ''plan.jsonl''" "name_ok ''checkpoints''" by (simp_all add: name_ok_def slash_def)
  have "slash \<notin> set (dec04 v)" by (rule dec04_no_slash)
  then have v: "name_ok (dec04 v @ ''.jsonl'')" by (rule name_ok_jsonl)
  show "go_dir (go_dir (plan_path d i)) = plans_dir d"
    using path_of_snoc(1) [of "[''memory'', ''plans'', safe_id i]" "''plan.jsonl''" d]
      path_of_snoc(1) [of "[''memory'', ''plans'']" "safe_id i" d] n m
    by (simp add: plan_path_def join_names dirs_path_of)
  show "go_dir (go_dir (go_dir (checkpoint_path d i v))) = plans_dir d"
    using path_of_snoc(1) [of "[''memory'', ''plans'', safe_id i, ''checkpoints'']" "dec04 v @ ''.jsonl''" d]
      path_of_snoc(1) [of "[''memory'', ''plans'', safe_id i]" "''checkpoints''" d]
      path_of_snoc(1) [of "[''memory'', ''plans'']" "safe_id i" d] n m v
    by (simp add: checkpoint_path_def join_names dirs_path_of)
qed

lemma neutralised_ids_share_a_file:
  "session_path d ''..'' = session_path d ''/'' \<and> session_path d ''a/b'' = session_path d ''b''"
  by (simp add: session_path_def, code_simp)

end
