(* ===== verification/FileSys.thy ===== *)
theory FileSys
  imports Paths "HOL-Library.Char_ord" "HOL-Library.List_Lexorder" "HOL-Library.Multiset"
begin

text \<open>
  The operating system as the program uses it through Go's \<open>os\<close> package: a tree of directories and files,
  kept as a table from the elements of an absolute path to a node, and the system calls.  A call may fail, or
  the machine may stop during it: \<open>os_faults\<close> says what happens to the next calls, and \<open>k\<close> bytes of a write
  reach the file before its fault.  After a crash every call answers \<open>EDOWN\<close> and changes nothing, so what a
  crashed program leaves behind is its final state.  There are no symbolic links, so a path is resolved by
  its elements; permissions, and limits on the length of names, are left out.
\<close>

section \<open>The tree\<close>

datatype errno = ENOENT | ENOTDIR | EISDIR | EEXIST | ENOTEMPTY | EBUSY | EINVAL | EIO | EDOWN

fun errno_text :: "errno \<Rightarrow> string" where
  "errno_text ENOENT = ''no such file or directory''"
| "errno_text ENOTDIR = ''not a directory''"
| "errno_text EISDIR = ''is a directory''"
| "errno_text EEXIST = ''file exists''"
| "errno_text ENOTEMPTY = ''directory not empty''"
| "errno_text EBUSY = ''device or resource busy''"
| "errno_text EINVAL = ''invalid argument''"
| "errno_text EIO = ''input/output error''"
| "errno_text EDOWN = ''the program has stopped''"

datatype os_error = PathError string string errno | LinkError string string errno | PlainError string

fun os_error_text :: "os_error \<Rightarrow> string" where
  "os_error_text (PathError op p e) = op @ '' '' @ p @ '': '' @ errno_text e"
| "os_error_text (LinkError p q e) = ''rename '' @ p @ '' '' @ q @ '': '' @ errno_text e"
| "os_error_text (PlainError t) = t"

text \<open>\<open>os.IsNotExist\<close>.\<close>

fun is_not_exist :: "os_error \<Rightarrow> bool" where
  "is_not_exist (PathError op p e) = (e = ENOENT)"
| "is_not_exist (LinkError p q e) = (e = ENOENT)"
| "is_not_exist (PlainError t) = False"

datatype node = FDir | FFile string

type_synonym path = "string list"
type_synonym fsys = "(path \<times> node) list"

definition lookup :: "fsys \<Rightarrow> path \<Rightarrow> node option" where
  "lookup fs p = (if p = [] then Some FDir else map_of fs p)"

definition ancestors :: "path \<Rightarrow> path list" where
  "ancestors p = map (\<lambda>k. take k p) [0..<length p]"

definition walk :: "fsys \<Rightarrow> path \<Rightarrow> errno option" where
  "walk fs p =
     (case find (\<lambda>q. lookup fs q \<noteq> Some FDir) (ancestors p) of
        None \<Rightarrow> None
      | Some q \<Rightarrow> Some (if lookup fs q = None then ENOENT else ENOTDIR))"

definition node_at :: "fsys \<Rightarrow> path \<Rightarrow> errno + node" where
  "node_at fs p =
     (case walk fs p of
        Some e \<Rightarrow> Inl e
      | None \<Rightarrow> (case lookup fs p of None \<Rightarrow> Inl ENOENT | Some n \<Rightarrow> Inr n))"

definition below :: "path \<Rightarrow> path \<Rightarrow> bool" where
  "below p q = (take (length p) q = p)"

definition fs_children :: "fsys \<Rightarrow> path \<Rightarrow> (string \<times> bool) list" where
  "fs_children fs p =
     sort_key fst (map (\<lambda>(q, n). (last q, n = FDir)) (filter (\<lambda>(q, n). q \<noteq> [] \<and> butlast q = p) fs))"

section \<open>System calls\<close>

datatype fault = Fail nat | Crash nat

record os =
  os_fs :: fsys
  os_cwd :: path
  os_faults :: "fault option list"
  os_down :: bool

type_synonym ('e, 'a) io = "os \<Rightarrow> ('e + 'a) \<times> os"

definition io_return :: "'a \<Rightarrow> ('e, 'a) io" where
  "io_return x s = (Inr x, s)"

definition io_fail :: "'e \<Rightarrow> ('e, 'a) io" where
  "io_fail e s = (Inl e, s)"

definition io_bind :: "('e, 'a) io \<Rightarrow> ('a \<Rightarrow> ('e, 'b) io) \<Rightarrow> ('e, 'b) io" where
  "io_bind m f s = (case m s of (Inl e, s') \<Rightarrow> (Inl e, s') | (Inr x, s') \<Rightarrow> f x s')"

text \<open>The result of a call as a value, and its error mapped.\<close>

definition io_try :: "('e, 'a) io \<Rightarrow> ('f, 'e + 'a) io" where
  "io_try m s = (case m s of (r, s') \<Rightarrow> (Inr r, s'))"

definition io_map_error :: "('e \<Rightarrow> 'f) \<Rightarrow> ('e, 'a) io \<Rightarrow> ('f, 'a) io" where
  "io_map_error g m s = (case m s of (Inl e, s') \<Rightarrow> (Inl (g e), s') | (Inr x, s') \<Rightarrow> (Inr x, s'))"

text \<open>One call: \<open>part k\<close> is what the call has done when a fault strikes it after \<open>k\<close> bytes.\<close>

definition syscall :: "(nat \<Rightarrow> fsys \<Rightarrow> fsys) \<Rightarrow> (fsys \<Rightarrow> (errno + 'a) \<times> fsys) \<Rightarrow> (errno, 'a) io" where
  "syscall part eff s =
     (if os_down s then (Inl EDOWN, s)
      else (let s' = s\<lparr>os_faults := tl (os_faults s)\<rparr> in
        case os_faults s of
          Some (Fail k) # _ \<Rightarrow> (Inl EIO, s'\<lparr>os_fs := part k (os_fs s)\<rparr>)
        | Some (Crash k) # _ \<Rightarrow> (Inl EDOWN, s'\<lparr>os_fs := part k (os_fs s), os_down := True\<rparr>)
        | _ \<Rightarrow> (case eff (os_fs s) of (r, fs) \<Rightarrow> (r, s'\<lparr>os_fs := fs\<rparr>))))"

definition sys_stat :: "path \<Rightarrow> (errno, node) io" where
  "sys_stat p = syscall (\<lambda>_ fs. fs) (\<lambda>fs. (node_at fs p, fs))"

definition fs_read :: "path \<Rightarrow> fsys \<Rightarrow> errno + string" where
  "fs_read p fs =
     (case node_at fs p of Inl e \<Rightarrow> Inl e | Inr FDir \<Rightarrow> Inl EISDIR | Inr (FFile c) \<Rightarrow> Inr c)"

definition sys_read :: "path \<Rightarrow> (errno, string) io" where
  "sys_read p = syscall (\<lambda>_ fs. fs) (\<lambda>fs. (fs_read p fs, fs))"

text \<open>Opening for writing: an existing file is truncated, unless the call is exclusive.\<close>

definition fs_create :: "bool \<Rightarrow> path \<Rightarrow> fsys \<Rightarrow> (errno + unit) \<times> fsys" where
  "fs_create excl p fs =
     (case node_at fs p of
        Inr n \<Rightarrow>
          if excl then (Inl EEXIST, fs)
          else if n = FDir then (Inl EISDIR, fs) else (Inr (), AList.update p (FFile []) fs)
      | Inl e \<Rightarrow> if walk fs p = None then (Inr (), AList.update p (FFile []) fs) else (Inl e, fs))"

definition sys_create :: "bool \<Rightarrow> path \<Rightarrow> (errno, unit) io" where
  "sys_create excl p = syscall (\<lambda>_ fs. fs) (fs_create excl p)"

text \<open>Writing to the file opened at \<open>p\<close>, from its beginning.\<close>

definition fs_write :: "path \<Rightarrow> string \<Rightarrow> fsys \<Rightarrow> (errno + unit) \<times> fsys" where
  "fs_write p data fs =
     (case node_at fs p of
        Inr (FFile _) \<Rightarrow> (Inr (), AList.update p (FFile data) fs)
      | Inr FDir \<Rightarrow> (Inl EISDIR, fs)
      | Inl e \<Rightarrow> (Inl e, fs))"

definition sys_write :: "path \<Rightarrow> string \<Rightarrow> (errno, unit) io" where
  "sys_write p data = syscall (\<lambda>k fs. snd (fs_write p (take k data) fs)) (fs_write p data)"

definition sys_flush :: "(errno, unit) io" where
  "sys_flush = syscall (\<lambda>_ fs. fs) (\<lambda>fs. (Inr (), fs))"

definition fs_mkdir :: "path \<Rightarrow> fsys \<Rightarrow> (errno + unit) \<times> fsys" where
  "fs_mkdir p fs =
     (case node_at fs p of
        Inr _ \<Rightarrow> (Inl EEXIST, fs)
      | Inl e \<Rightarrow> if walk fs p = None then (Inr (), AList.update p FDir fs) else (Inl e, fs))"

definition sys_mkdir :: "path \<Rightarrow> (errno, unit) io" where
  "sys_mkdir p = syscall (\<lambda>_ fs. fs) (fs_mkdir p)"

definition fs_remove :: "path \<Rightarrow> fsys \<Rightarrow> (errno + unit) \<times> fsys" where
  "fs_remove p fs =
     (case node_at fs p of
        Inl e \<Rightarrow> (Inl e, fs)
      | Inr n \<Rightarrow>
          if p = [] then (Inl EBUSY, fs)
          else if n = FDir \<and> fs_children fs p \<noteq> [] then (Inl ENOTEMPTY, fs)
          else (Inr (), AList.delete p fs))"

definition sys_remove :: "path \<Rightarrow> (errno, unit) io" where
  "sys_remove p = syscall (\<lambda>_ fs. fs) (fs_remove p)"

definition fs_remove_all :: "path \<Rightarrow> fsys \<Rightarrow> (errno + unit) \<times> fsys" where
  "fs_remove_all p fs = (Inr (), filter (\<lambda>(q, n). \<not> below p q) fs)"

definition sys_remove_all :: "path \<Rightarrow> (errno, unit) io" where
  "sys_remove_all p = syscall (\<lambda>_ fs. fs) (fs_remove_all p)"

text \<open>\<open>rename(2)\<close> behind the check of \<open>os.Rename\<close>: a directory is never replaced.\<close>

definition fs_move :: "path \<Rightarrow> path \<Rightarrow> fsys \<Rightarrow> fsys" where
  "fs_move p q fs =
     map (\<lambda>(r, n). (if below p r then q @ drop (length p) r else r, n)) (AList.delete q fs)"

definition fs_rename :: "path \<Rightarrow> path \<Rightarrow> fsys \<Rightarrow> (errno + unit) \<times> fsys" where
  "fs_rename p q fs =
     (case node_at fs p of
        Inl e \<Rightarrow> (Inl e, fs)
      | Inr n \<Rightarrow>
          if p = q then (Inr (), fs)
          else if p = [] then (Inl EBUSY, fs)
          else (case walk fs q of
             Some e \<Rightarrow> (Inl e, fs)
           | None \<Rightarrow>
               (case lookup fs q of
                  Some FDir \<Rightarrow> (Inl EEXIST, fs)
                | Some (FFile _) \<Rightarrow> if n = FDir then (Inl ENOTDIR, fs) else (Inr (), fs_move p q fs)
                | None \<Rightarrow> if n = FDir \<and> below p q then (Inl EINVAL, fs) else (Inr (), fs_move p q fs))))"

definition sys_rename :: "path \<Rightarrow> path \<Rightarrow> (errno, unit) io" where
  "sys_rename p q = syscall (\<lambda>_ fs. fs) (fs_rename p q)"

definition fs_read_dir :: "path \<Rightarrow> fsys \<Rightarrow> errno + (string \<times> bool) list" where
  "fs_read_dir p fs =
     (case node_at fs p of Inl e \<Rightarrow> Inl e | Inr FDir \<Rightarrow> Inr (fs_children fs p) | Inr (FFile _) \<Rightarrow> Inl ENOTDIR)"

definition sys_read_dir :: "path \<Rightarrow> (errno, (string \<times> bool) list) io" where
  "sys_read_dir p = syscall (\<lambda>_ fs. fs) (\<lambda>fs. (fs_read_dir p fs, fs))"

section \<open>Go's os package\<close>

definition canon :: "path \<Rightarrow> string \<Rightarrow> path" where
  "canon cwd p = clean_comps True ((if is_abs p then [] else cwd) @ split_char slash p)"

text \<open>A call on the path \<open>p\<close>; the empty path does not resolve.\<close>

definition on_path :: "string \<Rightarrow> string \<Rightarrow> (path \<Rightarrow> (errno, 'a) io) \<Rightarrow> (os_error, 'a) io" where
  "on_path op p f s =
     (if p = [] then (Inl (PathError op p ENOENT), s) else io_map_error (PathError op p) (f (canon (os_cwd s) p)) s)"

definition go_read_file :: "string \<Rightarrow> (os_error, string) io" where
  "go_read_file p = io_bind (on_path ''open'' p sys_stat) (\<lambda>_. on_path ''read'' p sys_read)"

definition go_write_file :: "string \<Rightarrow> string \<Rightarrow> (os_error, unit) io" where
  "go_write_file p data =
     io_bind (on_path ''open'' p (sys_create False)) (\<lambda>_. on_path ''write'' p (\<lambda>c. sys_write c data))"

definition go_stat :: "string \<Rightarrow> (os_error, node) io" where
  "go_stat p = on_path ''stat'' p sys_stat"

definition go_remove :: "string \<Rightarrow> (os_error, unit) io" where
  "go_remove p = on_path ''remove'' p sys_remove"

text \<open>\<open>RemoveAll\<close> refuses a path that ends in a dot, and accepts the empty one.\<close>

definition ends_with_dot :: "string \<Rightarrow> bool" where
  "ends_with_dot p = (p = ''.'' \<or> (length p \<ge> 2 \<and> last p = CHR ''.'' \<and> last (butlast p) = slash))"

definition go_remove_all :: "string \<Rightarrow> (os_error, unit) io" where
  "go_remove_all p =
     (if p = [] then io_return ()
      else if ends_with_dot p then io_fail (PathError ''RemoveAll'' p EINVAL)
      else on_path ''unlinkat'' p sys_remove_all)"

definition go_rename :: "string \<Rightarrow> string \<Rightarrow> (os_error, unit) io" where
  "go_rename p q s =
     (if p = [] \<or> q = [] then (Inl (LinkError p q ENOENT), s)
      else if p = q \<and> node_at (os_fs s) (canon (os_cwd s) p) = Inr FDir then (Inl (LinkError p q EEXIST), s)
      else io_map_error (LinkError p q) (sys_rename (canon (os_cwd s) p) (canon (os_cwd s) q)) s)"

definition go_read_dir :: "string \<Rightarrow> (os_error, (string \<times> bool) list) io" where
  "go_read_dir p = on_path ''open'' p sys_read_dir"

text \<open>\<open>MkdirAll\<close>: the part of the path before its last element, with the slash, is made first.\<close>

definition parent_part :: "string \<Rightarrow> string" where
  "parent_part p = rev (dropWhile (\<lambda>c. c \<noteq> slash) (dropWhile (\<lambda>c. c = slash) (rev p)))"

definition go_mkdir :: "string \<Rightarrow> (os_error, unit) io" where
  "go_mkdir p =
     io_bind (io_try (on_path ''mkdir'' p sys_mkdir)) (\<lambda>r.
       case r of
         Inr _ \<Rightarrow> io_return ()
       | Inl e \<Rightarrow> io_bind (io_try (go_stat p)) (\<lambda>r'. if r' = Inr FDir then io_return () else io_fail e))"

lemma parent_shorter: "parent_part p \<noteq> [] \<Longrightarrow> length (parent_part p) < length p"
proof -
  assume ne: "parent_part p \<noteq> []"
  have le: "length (dropWhile P q) \<le> length q" for P and q :: string by (induction q) auto
  show ?thesis
  proof (cases "rev p")
    case (Cons c q)
    have "length (parent_part p) \<le> length q"
    proof (cases "c = slash")
      case True
      then show ?thesis
        using Cons le [of "\<lambda>c. c \<noteq> slash" "dropWhile (\<lambda>c. c = slash) q"] le [of "\<lambda>c. c = slash" q]
        by (simp add: parent_part_def)
    next
      case False
      then show ?thesis using Cons le [of "\<lambda>c. c \<noteq> slash" q] by (simp add: parent_part_def)
    qed
    then show ?thesis using Cons by (metis length_Cons length_rev le_imp_less_Suc)
  qed (use ne in \<open>simp add: parent_part_def\<close>)
qed

function go_mkdir_all :: "string \<Rightarrow> (os_error, unit) io" where
  "go_mkdir_all p =
     io_bind (io_try (go_stat p)) (\<lambda>r.
       case r of
         Inr FDir \<Rightarrow> io_return ()
       | Inr (FFile _) \<Rightarrow> io_fail (PathError ''mkdir'' p ENOTDIR)
       | Inl _ \<Rightarrow>
           if parent_part p = [] then go_mkdir p
           else io_bind (go_mkdir_all (parent_part p)) (\<lambda>_. go_mkdir p))"
  by pat_completeness auto

termination by (relation "measure length") (auto simp: parent_shorter)

declare go_mkdir_all.simps [simp del]

section \<open>Well-formed trees\<close>

text \<open>Every node has a directory above it, up to the root.\<close>

definition fs_wf :: "fsys \<Rightarrow> bool" where
  "fs_wf fs \<longleftrightarrow>
     distinct (map fst fs) \<and> (\<forall>e \<in> set fs. fst e \<noteq> [] \<and> list_all name_ok (fst e) \<and> walk fs (fst e) = None)"

definition os_wf :: "os \<Rightarrow> bool" where
  "os_wf s \<longleftrightarrow> fs_wf (os_fs s) \<and> list_all name_ok (os_cwd s)"

lemma lookup_root [simp]: "lookup fs [] = Some FDir"
  by (simp add: lookup_def)

lemma lookup_update [simp]: "p \<noteq> [] \<Longrightarrow> lookup (AList.update p n fs) q = (if q = p then Some n else lookup fs q)"
  by (simp add: lookup_def update_conv)

lemma walk_None: "walk fs p = None \<longleftrightarrow> (\<forall>k < length p. lookup fs (take k p) = Some FDir)"
proof -
  have "walk fs p = None \<longleftrightarrow> find (\<lambda>q. lookup fs q \<noteq> Some FDir) (ancestors p) = None"
    by (simp add: walk_def split: option.split)
  then show ?thesis by (auto simp: find_None_iff ancestors_def)
qed

lemma walk_root [simp]: "walk fs [] = None"
  by (simp add: walk_None)

lemma node_at_Inr: "node_at fs p = Inr n \<longleftrightarrow> walk fs p = None \<and> lookup fs p = Some n"
  by (auto simp: node_at_def split: option.splits)

lemma node_at_Inl:
  "node_at fs p = Inl e \<longleftrightarrow> walk fs p = Some e \<or> walk fs p = None \<and> lookup fs p = None \<and> e = ENOENT"
  by (auto simp: node_at_def split: option.splits)

lemma fs_wf_entry:
  assumes "fs_wf fs" and "p \<noteq> []"
  shows "lookup fs p = Some n \<longleftrightarrow> (p, n) \<in> set fs"
  using assms by (simp add: fs_wf_def lookup_def)

lemma fs_wf_walk:
  assumes "fs_wf fs" and "lookup fs p = Some n"
  shows "walk fs p = None" and "list_all name_ok p"
proof -
  have "walk fs p = None \<and> list_all name_ok p"
  proof (cases "p = []")
    case False
    with assms have "(p, n) \<in> set fs" by (simp add: fs_wf_entry)
    with assms(1) show ?thesis by (auto simp: fs_wf_def)
  qed simp
  then show "walk fs p = None" "list_all name_ok p" by simp_all
qed

lemma node_at_wf: "fs_wf fs \<Longrightarrow> node_at fs p = Inr n \<longleftrightarrow> lookup fs p = Some n"
  using fs_wf_walk(1) by (auto simp: node_at_Inr)

lemma dir_above:
  assumes "fs_wf fs" and "lookup fs (p @ c # rel) = Some FDir"
  shows "lookup fs (p @ [c]) = Some FDir"
proof (cases rel)
  case Nil
  with assms(2) show ?thesis by simp
next
  case (Cons x xs)
  have "lookup fs (take (Suc (length p)) (p @ c # rel)) = Some FDir"
    by (rule fs_wf_walk(1) [OF assms, unfolded walk_None, rule_format]) (simp add: Cons)
  then show ?thesis by simp
qed

text \<open>A tree is well formed as soon as the directories above every node are there.\<close>

lemma fs_wfI:
  assumes "distinct (map fst fs)"
    and "\<And>p n. (p, n) \<in> set fs \<Longrightarrow> p \<noteq> [] \<and> list_all name_ok p \<and> (\<forall>k < length p. lookup fs (take k p) = Some FDir)"
  shows "fs_wf fs"
  using assms unfolding fs_wf_def by (auto simp: walk_None)

lemma wf_update:
  assumes "fs_wf fs" and "p \<noteq> []" and "list_all name_ok p" and "walk fs p = None"
    and "lookup fs p = Some FDir \<Longrightarrow> n = FDir"
  shows "fs_wf (AList.update p n fs)"
proof (rule fs_wfI)
  show "distinct (map fst (AList.update p n fs))" using assms(1) by (simp add: fs_wf_def distinct_update)
next
  fix q m
  assume q: "(q, m) \<in> set (AList.update p n fs)"
  have dir: "lookup (AList.update p n fs) r = Some FDir" if "lookup fs r = Some FDir" for r
    using that assms(2,5) by auto
  from q have "q = p \<or> (q, m) \<in> set fs"
    using assms(1) by (metis distinct_update fs_wf_def map_of_eq_Some_iff update_conv' map_upd_Some_unfold)
  then show "q \<noteq> [] \<and> list_all name_ok q \<and> (\<forall>k < length q. lookup (AList.update p n fs) (take k q) = Some FDir)"
  proof
    assume "q = p"
    with assms(2,3,4) dir show ?thesis by (auto simp: walk_None simp del: lookup_update)
  next
    assume "(q, m) \<in> set fs"
    then have "q \<noteq> [] \<and> list_all name_ok q \<and> walk fs q = None" using assms(1) by (auto simp: fs_wf_def)
    with dir show ?thesis by (auto simp: walk_None simp del: lookup_update)
  qed
qed

text \<open>Removing nodes: nothing that stays may lie below what goes.\<close>

lemma wf_filter:
  assumes "fs_wf fs" and "\<And>r k n. (r, n) \<in> set fs \<Longrightarrow> P r \<Longrightarrow> 0 < k \<Longrightarrow> k < length r \<Longrightarrow> P (take k r)"
  shows "fs_wf (filter (\<lambda>e. P (fst e)) fs)"
proof (rule fs_wfI)
  show "distinct (map fst (filter (\<lambda>e. P (fst e)) fs))" using assms(1) by (simp add: fs_wf_def distinct_map_filter)
next
  fix q n
  assume "(q, n) \<in> set (filter (\<lambda>e. P (fst e)) fs)"
  then have q: "(q, n) \<in> set fs" "P q" by simp_all
  then have w: "q \<noteq> []" "list_all name_ok q" "walk fs q = None" using assms(1) by (auto simp: fs_wf_def)
  have "lookup (filter (\<lambda>e. P (fst e)) fs) (take k q) = Some FDir" if "k < length q" for k
  proof (cases "k = 0")
    case False
    with that have ne: "take k q \<noteq> []" by auto
    moreover have "lookup fs (take k q) = Some FDir" using w(3) that by (simp add: walk_None)
    ultimately have "(take k q, FDir) \<in> set fs" using assms(1) by (simp add: fs_wf_entry)
    moreover have "P (take k q)" using assms(2) q that False by blast
    ultimately show ?thesis
      using ne assms(1) by (simp add: lookup_def fs_wf_def distinct_map_filter)
  qed simp
  with w show "q \<noteq> [] \<and> list_all name_ok q
      \<and> (\<forall>k < length q. lookup (filter (\<lambda>e. P (fst e)) fs) (take k q) = Some FDir)" by simp
qed

lemma below_refl [simp]: "below p p" by (simp add: below_def)

lemma below_take: "below p (take k q) \<Longrightarrow> below p q"
  by (metis append_take_drop_id below_def min_def nat_le_linear take_take take_all length_take)

lemma below_append [simp]: "below p (p @ q)" by (simp add: below_def)

lemma below_split: "below p q \<longleftrightarrow> (\<exists>r. q = p @ r)"
  by (metis append_take_drop_id below_append below_def)

lemma take_ne: "0 < k \<Longrightarrow> k < length r \<Longrightarrow> take k r \<noteq> r" by auto

lemma children_entry: "(p @ [c], n) \<in> set fs \<Longrightarrow> (c, n = FDir) \<in> set (fs_children fs p)"
proof -
  assume "(p @ [c], n) \<in> set fs"
  then have "(p @ [c], n) \<in> set (filter (\<lambda>(q, n). q \<noteq> [] \<and> butlast q = p) fs)" by simp
  from imageI [OF this, of "\<lambda>(q, n). (last q, n = FDir)"] show ?thesis
    by (simp add: fs_children_def)
qed

lemma no_children:
  assumes "fs_wf fs" and "fs_children fs p = []" and "p \<noteq> []" and "(r, n) \<in> set fs" and "below p r"
  shows "r = p"
proof (rule ccontr)
  assume "r \<noteq> p"
  with assms(5) obtain c cs where r: "r = p @ c # cs" unfolding below_split by (metis append_Nil2 list.exhaust)
  let ?d = "p @ [c]"
  have "\<exists>m. (?d, m) \<in> set fs"
  proof (cases cs)
    case Nil
    with r assms(4) show ?thesis by blast
  next
    case (Cons x xs)
    have "walk fs r = None" using assms(1,4) by (auto simp: fs_wf_def)
    moreover have "Suc (length p) < length r" using r Cons by simp
    ultimately have "lookup fs (take (Suc (length p)) r) = Some FDir" by (simp only: walk_None)
    with assms(1) show ?thesis using r by (auto simp: fs_wf_entry)
  qed
  then obtain m where "(p @ [c], m) \<in> set fs" by blast
  from children_entry [OF this] assms(2) show False by simp
qed

lemma delete_filter: "AList.delete p (fs :: fsys) = filter (\<lambda>e. fst e \<noteq> p) fs"
proof -
  have "(\<lambda>(k', _ :: node). p \<noteq> k') = (\<lambda>e. fst e \<noteq> p)" by (auto simp: fun_eq_iff)
  then show ?thesis by (simp add: AList.delete_eq)
qed

lemma wf_delete:
  assumes "fs_wf fs" and "\<And>r n. (r, n) \<in> set fs \<Longrightarrow> below p r \<Longrightarrow> r = p"
  shows "fs_wf (AList.delete p fs)"
  unfolding delete_filter
proof (rule wf_filter [OF assms(1)])
  fix r k and n :: node
  assume "(r, n) \<in> set fs" "r \<noteq> p" "0 < k" "k < length r"
  then show "take k r \<noteq> p" using assms(2) [of r n] by (metis below_refl below_take)
qed

lemma wf_remove_all: "fs_wf fs \<Longrightarrow> fs_wf (snd (fs_remove_all p fs))"
proof -
  assume "fs_wf fs"
  then have "fs_wf (filter (\<lambda>e. \<not> below p (fst e)) fs)"
    by (rule wf_filter [where P = "\<lambda>q. \<not> below p q"]) (blast dest: below_take)
  moreover have "(\<lambda>(q, n :: node). \<not> below p q) = (\<lambda>e. \<not> below p (fst e))" by auto
  ultimately show ?thesis by (simp add: fs_remove_all_def)
qed

lemma file_no_below:
  assumes "fs_wf fs" and "lookup fs p = Some (FFile c) \<or> lookup fs p = None" and "(r, n) \<in> set fs" and "below p r"
  shows "r = p"
proof (rule ccontr)
  assume "r \<noteq> p"
  with assms(4) obtain x where "r = p @ x" "x \<noteq> []" unfolding below_split by auto
  moreover have "walk fs r = None" using assms(1,3) by (auto simp: fs_wf_def)
  ultimately have "lookup fs p = Some FDir" by (auto simp: walk_None dest: spec [of _ "length p"])
  with assms(2) show False by simp
qed

lemma none_below:
  assumes "fs_wf fs" and "lookup fs p = Some (FFile c) \<or> lookup fs p = None" and "x \<noteq> []"
  shows "lookup fs (p @ x) = None"
proof (rule ccontr)
  assume "lookup fs (p @ x) \<noteq> None"
  then obtain n where "(p @ x, n) \<in> set fs" using assms(1,3) by (auto simp: fs_wf_entry)
  from file_no_below [OF assms(1,2) this] assms(3) show False by simp
qed

text \<open>Moving a node with what lies below it.\<close>

lemma fs_move_entries:
  "(r, n) \<in> set (fs_move p q fs) \<longleftrightarrow>
     (\<exists>x. r = q @ x \<and> (p @ x, n) \<in> set fs \<and> p @ x \<noteq> q) \<or> (r, n) \<in> set fs \<and> r \<noteq> q \<and> \<not> below p r"
proof -
  have "(r, n) \<in> set (fs_move p q fs) \<longleftrightarrow>
      (\<exists>a. (a, n) \<in> set fs \<and> a \<noteq> q \<and> r = (if below p a then q @ drop (length p) a else a))"
    unfolding fs_move_def delete_filter by force
  also have "\<dots> \<longleftrightarrow> (\<exists>a. (a, n) \<in> set fs \<and> a \<noteq> q \<and> below p a \<and> r = q @ drop (length p) a)
      \<or> (r, n) \<in> set fs \<and> r \<noteq> q \<and> \<not> below p r"
    by auto
  also have "(\<exists>a. (a, n) \<in> set fs \<and> a \<noteq> q \<and> below p a \<and> r = q @ drop (length p) a)
      \<longleftrightarrow> (\<exists>x. r = q @ x \<and> (p @ x, n) \<in> set fs \<and> p @ x \<noteq> q)"
    by (auto simp: below_split)
  finally show ?thesis .
qed

lemma wf_move:
  assumes wf: "fs_wf fs" and p: "p \<noteq> []" "p \<noteq> q" and q: "walk fs q = None" "list_all name_ok q" "q \<noteq> []"
    and free: "lookup fs q = None \<or> (\<exists>c. lookup fs q = Some (FFile c))"
    and apart: "\<not> below p q \<or> (\<exists>c. lookup fs p = Some (FFile c))"
  shows "fs_wf (fs_move p q fs)"
proof -
  have noq: "r = q" if "(r, n) \<in> set fs" "below q r" for r n
    using file_no_below [OF wf _ that] free by auto
  have np: "\<not> below p r" if "lookup fs r = Some FDir" "below r q" for r
  proof
    assume b: "below p r"
    with that(2) have "below p q" by (auto simp: below_split)
    with apart obtain c where c: "lookup fs p = Some (FFile c)" by blast
    have "r \<noteq> []" using b p(1) by (auto simp: below_split)
    with that(1) wf have "(r, FDir) \<in> set fs" by (simp add: fs_wf_entry)
    with c b have "r = p" using file_no_below [OF wf] by blast
    with c that(1) show False by simp
  qed
  have px: "p @ x \<noteq> q" if "(p @ x, n) \<in> set fs" "x \<noteq> []" for x n
  proof
    assume "p @ x = q"
    then have "\<exists>c. lookup fs p = Some (FFile c)" using apart by auto
    then have "p @ x = p" using file_no_below [OF wf _ that(1) below_append] by metis
    with that(2) show False by simp
  qed
  let ?g = "\<lambda>r. if below p r then q @ drop (length p) r else r"
  let ?fs = "AList.delete q fs"
  have dist: "distinct (map fst ?fs)" using wf by (simp add: fs_wf_def distinct_delete)
  have "inj_on ?g (fst ` set ?fs)"
  proof (rule inj_onI)
    fix a b
    assume a: "a \<in> fst ` set ?fs" and b: "b \<in> fst ` set ?fs" and eq: "?g a = ?g b"
    then have "(\<exists>n. (a, n) \<in> set fs) \<and> a \<noteq> q" "(\<exists>n. (b, n) \<in> set fs) \<and> b \<noteq> q"
      by (auto simp: delete_filter)
    then have "\<not> below q a" "\<not> below q b" using noq by blast+
    with eq show "a = b" by (auto simp: below_split split: if_splits)
  qed
  then have d: "distinct (map fst (fs_move p q fs))"
  proof -
    have "map fst (fs_move p q fs) = map ?g (map fst ?fs)" by (simp add: fs_move_def comp_def case_prod_beta)
    with dist \<open>inj_on ?g (fst ` set ?fs)\<close> show ?thesis by (simp only: distinct_map [of ?g] set_map)
  qed
  have lk: "lookup (fs_move p q fs) r = Some n" if "(r, n) \<in> set (fs_move p q fs)" "r \<noteq> []" for r n
    using d that by (simp add: lookup_def)
  have above: "lookup (fs_move p q fs) r = Some FDir" if "lookup fs r = Some FDir" "\<not> below p r" for r
  proof (cases "r = []")
    case False
    with that wf have "(r, FDir) \<in> set fs" by (simp add: fs_wf_entry)
    moreover have "r \<noteq> q" using free that(1) by auto
    ultimately show ?thesis using lk that(2) False by (simp add: fs_move_entries)
  qed simp
  show ?thesis
  proof (rule fs_wfI [OF d])
    fix r n
    assume "(r, n) \<in> set (fs_move p q fs)"
    then consider x where "r = q @ x" "(p @ x, n) \<in> set fs" | "(r, n) \<in> set fs" "r \<noteq> q" "\<not> below p r"
      by (auto simp: fs_move_entries)
    then show "r \<noteq> [] \<and> list_all name_ok r \<and> (\<forall>k < length r. lookup (fs_move p q fs) (take k r) = Some FDir)"
    proof cases
      case 1
      then have w: "list_all name_ok (p @ x)" "walk fs (p @ x) = None" using wf by (auto simp: fs_wf_def)
      have "lookup (fs_move p q fs) (take k r) = Some FDir" if k: "k < length r" for k
      proof (cases "k < length q")
        case True
        with 1 q(1) have "lookup fs (take k q) = Some FDir" "take k r = take k q" by (simp_all add: walk_None)
        moreover from this have "\<not> below p (take k q)" using np by (metis append_take_drop_id below_split)
        ultimately show ?thesis using above by simp
      next
        case False
        define j where "j = k - length q"
        have t: "take k r = q @ take j x" "j < length x" using 1 False k by (auto simp: j_def)
        have "lookup fs (take (length p + j) (p @ x)) = Some FDir" 
          by (rule w(2) [unfolded walk_None, rule_format]) (use t(2) in simp)
        then have e: "(p @ take j x, FDir) \<in> set fs" using wf p(1) by (simp add: fs_wf_entry)
        moreover have "p @ take j x \<noteq> q" using px [OF e] p(2) by (cases "take j x = []") auto
        ultimately have "(take k r, FDir) \<in> set (fs_move p q fs)" using t(1) by (auto simp: fs_move_entries)
        then show ?thesis using lk t(1) q(3) by simp
      qed
      with 1 q w show ?thesis by simp
    next
      case 2
      then have w: "r \<noteq> []" "list_all name_ok r" "walk fs r = None" using wf by (auto simp: fs_wf_def)
      have "lookup (fs_move p q fs) (take k r) = Some FDir" if "k < length r" for k
        using above [of "take k r"] w(3) that 2(3) by (auto simp: walk_None dest: below_take)
      with w show ?thesis by simp
    qed
  qed
qed

lemma not_dir: "n \<noteq> FDir \<longleftrightarrow> (\<exists>c. n = FFile c)"
  by (cases n) auto

lemma wf_rename: "fs_wf fs \<Longrightarrow> list_all name_ok q \<Longrightarrow> fs_wf (snd (fs_rename p q fs))"
  using wf_move [of fs p q]
  by (fastforce simp: fs_rename_def node_at_wf not_dir split: sum.splits option.splits node.splits if_splits)

section \<open>What the calls change\<close>

lemma canon_names: "list_all name_ok cwd \<Longrightarrow> list_all name_ok (canon cwd p)"
proof -
  assume "list_all name_ok cwd"
  then have "\<forall>c \<in> set ((if is_abs p then [] else cwd) @ split_char slash p). slash \<notin> set c"
    using name_ok_free by (auto dest: split_char_free split: if_splits)
  from clean_comps_list [OF this, of True] show ?thesis by (auto simp: canon_def clean_list_def)
qed

text \<open>Resolving a path is resolving its clean form, so joining a name goes one step down.\<close>

lemma clean_absorb:
  "list_all (\<lambda>r. r \<noteq> [] \<and> r \<noteq> ''.'') acc \<Longrightarrow>
     foldl (clean_step True) rs (rev (foldl (clean_step False) acc cs))
       = foldl (clean_step True) (foldl (clean_step True) rs (rev acc)) cs"
proof (induction cs arbitrary: acc)
  case (Cons c cs)
  have "foldl (clean_step True) rs (rev (clean_step False acc c)) = clean_step True (foldl (clean_step True) rs (rev acc)) c"
    using Cons.prems by (cases acc) (auto simp: clean_step_def)
  moreover have "list_all (\<lambda>r. r \<noteq> [] \<and> r \<noteq> ''.'') (clean_step False acc c)"
    using Cons.prems by (cases acc) (auto simp: clean_step_def)
  ultimately show ?case using Cons.IH [of "clean_step False acc c"] by simp
qed simp

lemma canon_clean: "\<not> is_abs p \<Longrightarrow> canon cwd p = clean_comps True (cwd @ clean_comps False (split_char slash p))"
  using clean_absorb [of "[]" "foldl (clean_step True) [] cwd" "split_char slash p"] by (simp add: canon_def clean_comps_def)

lemma canon_path_of: "list_all name_ok ns \<Longrightarrow> canon cwd (path_of d ns) = canon cwd d @ ns"
proof -
  assume ns: "list_all name_ok ns"
  show ?thesis
  proof (cases "is_abs d")
    case True
    with path_of_split [OF ns, of d] show ?thesis by (simp add: canon_def)
  next
    case False
    with path_of_split [OF ns, of d] have "canon cwd (path_of d ns) = clean_comps True (cwd @ clean_comps False (split_char slash d) @ ns)"
      by (simp add: canon_clean)
    also have "\<dots> = clean_comps True (cwd @ clean_comps False (split_char slash d)) @ ns"
      using clean_comps_append [of True "cwd @ clean_comps False (split_char slash d)" ns] by (simp add: clean_names [OF ns])
    finally show ?thesis using False by (simp add: canon_clean)
  qed
qed

lemma canon_join: "name_ok n \<Longrightarrow> canon cwd (go_join [d, n]) = canon cwd d @ [n]"
  using join_names [of d "[n]"] canon_path_of [of "[n]" cwd d] by simp

lemma join_not_empty: "name_ok n \<Longrightarrow> go_join [d, n] \<noteq> []"
  using join_names [of d "[n]"] path_of_snoc(2) [of "[]" n d] by (auto simp: go_base_def name_ok_def)

text \<open>What every run of an operation started in \<open>cwd\<close> does to the tree.\<close>

definition io_rel :: "(fsys \<Rightarrow> fsys \<Rightarrow> bool) \<Rightarrow> path \<Rightarrow> ('e, 'a) io \<Rightarrow> bool" where
  "io_rel R cwd m \<longleftrightarrow>
     (\<forall>s. os_cwd s = cwd \<longrightarrow> R (os_fs s) (os_fs (snd (m s))) \<and> os_cwd (snd (m s)) = cwd)"

lemma io_relD: "io_rel R cwd m \<Longrightarrow> os_cwd s = cwd \<Longrightarrow> m s = (r, s') \<Longrightarrow> R (os_fs s) (os_fs s') \<and> os_cwd s' = cwd"
  unfolding io_rel_def by force

locale tree_relation =
  fixes R :: "fsys \<Rightarrow> fsys \<Rightarrow> bool" and cwd :: path
  assumes refl: "R fs fs"
    and trans: "R fs gs \<Longrightarrow> R gs hs \<Longrightarrow> R fs hs"
    and cwd_names: "list_all name_ok cwd"
begin

lemma rel_return [intro]: "io_rel R cwd (io_return x)" "io_rel R cwd (io_fail e)"
  by (simp_all add: io_rel_def io_return_def io_fail_def refl)

lemma rel_bind [intro]: "io_rel R cwd m \<Longrightarrow> (\<And>x. io_rel R cwd (f x)) \<Longrightarrow> io_rel R cwd (io_bind m f)"
  unfolding io_rel_def io_bind_def
  by (auto split: prod.split sum.split) (metis snd_conv trans)+

lemma rel_try [intro]: "io_rel R cwd m \<Longrightarrow> io_rel R cwd (io_try m)"
  unfolding io_rel_def io_try_def by (simp add: case_prod_beta)

lemma rel_map_error [intro]: "io_rel R cwd m \<Longrightarrow> io_rel R cwd (io_map_error g m)"
  unfolding io_rel_def io_map_error_def by (simp add: case_prod_beta split: sum.split)

lemma rel_syscall: "(\<And>k fs. R fs (part k fs)) \<Longrightarrow> (\<And>fs. R fs (snd (eff fs))) \<Longrightarrow> io_rel R cwd (syscall part eff)"
  unfolding io_rel_def syscall_def Let_def
  by (auto simp: refl case_prod_beta split: list.split option.split fault.split)

lemma rel_look [intro]:
  "io_rel R cwd (sys_stat p)" "io_rel R cwd (sys_read p)" "io_rel R cwd (sys_read_dir p)" "io_rel R cwd sys_flush"
  by (auto simp: sys_stat_def sys_read_def sys_read_dir_def sys_flush_def refl intro!: rel_syscall)

lemma rel_on_path [intro]: "io_rel R cwd (f (canon cwd p)) \<Longrightarrow> io_rel R cwd (on_path op p f)"
proof -
  assume "io_rel R cwd (f (canon cwd p))"
  then have "io_rel R cwd (io_map_error (PathError op p) (f (canon cwd p)))" by (rule rel_map_error)
  then show ?thesis by (simp add: io_rel_def on_path_def refl)
qed

lemmas rel_intros = rel_return rel_bind rel_try rel_map_error rel_look rel_on_path

lemma rel_read_file: "io_rel R cwd (go_read_file p)" "io_rel R cwd (go_stat p)" "io_rel R cwd (go_read_dir p)"
  by (auto simp: go_read_file_def go_stat_def go_read_dir_def)

lemma rel_mkdir_all:
  assumes "\<And>c fs. list_all name_ok c \<Longrightarrow> R fs (snd (fs_mkdir c fs))"
  shows "io_rel R cwd (go_mkdir_all p)"
proof -
  have "io_rel R cwd (sys_mkdir (canon cwd q))" for q
    using assms canon_names [OF cwd_names] by (auto simp: sys_mkdir_def refl intro!: rel_syscall)
  then have m: "io_rel R cwd (go_mkdir q)" for q
    by (auto simp: go_mkdir_def rel_read_file split: sum.split intro!: rel_intros)
  show ?thesis
  proof (induction p rule: go_mkdir_all.induct)
    case (1 p)
    then show ?case
      by (subst go_mkdir_all.simps) (auto simp: m rel_read_file split: sum.split node.split intro!: rel_intros)
  qed
qed

lemma rel_write_file:
  assumes "\<And>fs. R fs (snd (fs_create False (canon cwd p) fs))"
    and "\<And>d fs. R fs (snd (fs_write (canon cwd p) d fs))"
  shows "io_rel R cwd (go_write_file p data)"
  using assms by (auto simp: go_write_file_def sys_create_def sys_write_def refl intro!: rel_bind rel_on_path rel_syscall)

end

lemma wf_create: "fs_wf fs \<Longrightarrow> list_all name_ok p \<Longrightarrow> fs_wf (snd (fs_create excl p fs))"
  by (auto simp: fs_create_def node_at_Inr node_at_Inl not_dir intro!: wf_update split: sum.split)

lemma wf_mkdir: "fs_wf fs \<Longrightarrow> list_all name_ok p \<Longrightarrow> fs_wf (snd (fs_mkdir p fs))"
  by (auto simp: fs_mkdir_def node_at_Inr node_at_Inl intro!: wf_update split: sum.split)

lemma wf_write: "fs_wf fs \<Longrightarrow> list_all name_ok p \<Longrightarrow> fs_wf (snd (fs_write p d fs))"
  by (auto simp: fs_write_def node_at_Inr node_at_Inl intro!: wf_update split: sum.split node.split)

lemma wf_remove: "fs_wf fs \<Longrightarrow> fs_wf (snd (fs_remove p fs))"
proof -
  assume wf: "fs_wf fs"
  have "r = p" if "lookup fs p = Some n" "p \<noteq> []" "n = FDir \<longrightarrow> fs_children fs p = []" "(r, m) \<in> set fs" "below p r" for n r m
    using that no_children [OF wf] file_no_below [OF wf] by (cases n) blast+
  with wf show ?thesis
    by (auto simp: fs_remove_def node_at_wf intro!: wf_delete split: sum.split)
qed

definition wf_kept :: "fsys \<Rightarrow> fsys \<Rightarrow> bool" where
  "wf_kept fs fs' \<longleftrightarrow> (fs_wf fs \<longrightarrow> fs_wf fs')"

text \<open>Nothing changes where \<open>Q\<close> holds; nothing that was there is changed, and what is new is a directory.\<close>

definition same_on :: "(path \<Rightarrow> bool) \<Rightarrow> fsys \<Rightarrow> fsys \<Rightarrow> bool" where
  "same_on Q fs fs' \<longleftrightarrow> (\<forall>p. Q p \<longrightarrow> lookup fs' p = lookup fs p)"

definition grown :: "fsys \<Rightarrow> fsys \<Rightarrow> bool" where
  "grown fs fs' \<longleftrightarrow> (\<forall>p. lookup fs' p = lookup fs p \<or> lookup fs p = None \<and> lookup fs' p = Some FDir)"

lemma tree_relations:
  assumes "list_all name_ok cwd"
  shows "tree_relation wf_kept cwd" "tree_relation (same_on Q) cwd" "tree_relation grown cwd"
  using assms by (auto simp: tree_relation_def wf_kept_def same_on_def grown_def) (metis option.distinct(1))+

lemma fs_step_lookup:
  "lookup (snd (fs_mkdir p fs)) q = (if q = p \<and> lookup fs p = None \<and> walk fs p = None then Some FDir else lookup fs q)"
  "q \<noteq> p \<Longrightarrow> lookup (snd (fs_create excl p fs)) q = lookup fs q"
  "q \<noteq> p \<Longrightarrow> lookup (snd (fs_write p d fs)) q = lookup fs q"
  "q \<noteq> p \<Longrightarrow> lookup (snd (fs_remove p fs)) q = lookup fs q"
proof -
  have u: "lookup (AList.update p n fs) q = (if q = p \<and> p \<noteq> [] then Some n else lookup fs q)" for n
    by (auto simp: lookup_def update_conv)
  show "lookup (snd (fs_mkdir p fs)) q = (if q = p \<and> lookup fs p = None \<and> walk fs p = None then Some FDir else lookup fs q)"
    by (cases "p = []") (auto simp: fs_mkdir_def u node_at_def split: sum.split option.splits)
  show "lookup (snd (fs_create excl p fs)) q = lookup fs q" "lookup (snd (fs_write p d fs)) q = lookup fs q"
    if "q \<noteq> p" using that by (auto simp: fs_create_def fs_write_def u split: sum.split node.split)
  show "lookup (snd (fs_remove p fs)) q = lookup fs q" if "q \<noteq> p"
    using that by (auto simp: fs_remove_def lookup_def delete_conv split: sum.split)
qed

lemma mkdir_all_keeps:
  assumes "list_all name_ok cwd"
  shows "io_rel wf_kept cwd (go_mkdir_all p)" "io_rel grown cwd (go_mkdir_all p)"
  by (rule tree_relation.rel_mkdir_all [OF tree_relations(1) [OF assms]], use wf_mkdir in \<open>auto simp: wf_kept_def\<close>)
    (rule tree_relation.rel_mkdir_all [OF tree_relations(3) [OF assms]], auto simp: grown_def fs_step_lookup)

section \<open>What a successful call has done\<close>

definition calm :: "os \<Rightarrow> bool" where
  "calm s \<longleftrightarrow> os_faults s = [] \<and> \<not> os_down s"

lemma bind_Inr: "io_bind m f s = (Inr y, s') \<longleftrightarrow> (\<exists>x s1. m s = (Inr x, s1) \<and> f x s1 = (Inr y, s'))"
  by (auto simp: io_bind_def split: prod.split sum.split)

lemma try_Inr: "io_try m s = (Inr r, s') \<longleftrightarrow> m s = (r, s')"
  by (auto simp: io_try_def split: prod.split)

lemma map_error_Inr: "io_map_error g m s = (Inr x, s') \<longleftrightarrow> m s = (Inr x, s')"
  by (auto simp: io_map_error_def split: prod.split sum.split)

lemma on_path_Inr: "on_path op p f s = (Inr x, s') \<longleftrightarrow> p \<noteq> [] \<and> f (canon (os_cwd s) p) s = (Inr x, s')"
  by (auto simp: on_path_def map_error_Inr)

lemma return_Inr: "io_return x s = (Inr y, s') \<longleftrightarrow> y = x \<and> s' = s" "\<not> io_fail e s = (Inr y, s')"
  by (auto simp: io_return_def io_fail_def)

lemma syscall_Inr:
  "syscall part eff s = (Inr x, s') \<Longrightarrow> eff (os_fs s) = (Inr x, os_fs s') \<and> os_cwd s' = os_cwd s"
  by (auto simp: syscall_def Let_def split: if_splits list.splits option.splits fault.splits prod.splits)

lemma syscall_calm: "calm s \<Longrightarrow> syscall part eff s = (case eff (os_fs s) of (r, fs) \<Rightarrow> (r, s\<lparr>os_fs := fs\<rparr>))"
  by (cases s) (simp add: syscall_def calm_def Let_def)

lemmas io_Inr = bind_Inr try_Inr map_error_Inr on_path_Inr return_Inr

lemma sys_Inr:
  "sys_stat p s = (Inr n, s') \<Longrightarrow> node_at (os_fs s) p = Inr n \<and> os_fs s' = os_fs s \<and> os_cwd s' = os_cwd s"
  "sys_read p s = (Inr c, s') \<Longrightarrow> node_at (os_fs s) p = Inr (FFile c) \<and> os_fs s' = os_fs s \<and> os_cwd s' = os_cwd s"
  "sys_read_dir p s = (Inr es, s') \<Longrightarrow>
     node_at (os_fs s) p = Inr FDir \<and> es = fs_children (os_fs s) p \<and> os_fs s' = os_fs s \<and> os_cwd s' = os_cwd s"
  "sys_write p d s = (Inr (), s') \<Longrightarrow> fs_write p d (os_fs s) = (Inr (), os_fs s') \<and> os_cwd s' = os_cwd s"
  "sys_create excl p s = (Inr (), s') \<Longrightarrow> fs_create excl p (os_fs s) = (Inr (), os_fs s') \<and> os_cwd s' = os_cwd s"
  "sys_mkdir p s = (Inr (), s') \<Longrightarrow> fs_mkdir p (os_fs s) = (Inr (), os_fs s') \<and> os_cwd s' = os_cwd s"
  unfolding sys_stat_def sys_read_def sys_read_dir_def sys_write_def sys_create_def sys_mkdir_def
  by (auto dest!: syscall_Inr simp: fs_read_def fs_read_dir_def split: sum.splits node.splits)

lemma syscall_cwd: "os_cwd (snd (syscall part eff s)) = os_cwd s"
  by (simp add: syscall_def Let_def case_prod_beta split: list.split option.split fault.split)

lemma on_path_cwd: "(\<And>c. os_cwd (snd (f c s)) = os_cwd s) \<Longrightarrow> os_cwd (snd (on_path op p f s)) = os_cwd s"
  by (simp add: on_path_def io_map_error_def case_prod_beta split: sum.split)

lemma mkdir_made: "fs_mkdir p fs = (Inr (), fs') \<Longrightarrow> lookup fs' p = Some FDir"
  by (cases "p = []") (auto simp: fs_mkdir_def split: sum.splits if_splits)

lemma write_made: "fs_write p d fs = (Inr (), fs') \<Longrightarrow> lookup fs' p = Some (FFile d)"
  by (cases "p = []") (auto simp: fs_write_def node_at_Inr split: sum.splits node.splits)

lemma create_made: "fs_create excl p fs = (Inr (), fs') \<Longrightarrow> lookup fs' p = Some (FFile [])"
  by (cases "p = []") (auto simp: fs_create_def node_at_Inr node_at_Inl not_dir split: sum.splits if_splits)

lemma mkdir_ok:
  assumes "go_mkdir p s = (Inr (), s')"
  shows "lookup (os_fs s') (canon (os_cwd s) p) = Some FDir"
proof -
  from assms obtain r s1 where r: "on_path ''mkdir'' p sys_mkdir s = (r, s1)"
    and c: "case r of Inr _ \<Rightarrow> s' = s1 | Inl e \<Rightarrow> go_stat p s1 = (Inr FDir, s')"
    unfolding go_mkdir_def io_Inr by (force split: sum.splits if_splits simp: io_Inr)
  show ?thesis
  proof (cases r)
    case (Inr u)
    with r c have "sys_mkdir (canon (os_cwd s) p) s = (Inr (), s')" by (simp add: on_path_Inr)
    then show ?thesis using sys_Inr(6) mkdir_made by blast
  next
    case (Inl e)
    have "os_cwd s1 = os_cwd s"
      using on_path_cwd [of sys_mkdir s "''mkdir''" p] r by (simp add: sys_mkdir_def syscall_cwd)
    with Inl c show ?thesis by (auto simp: go_stat_def on_path_Inr node_at_Inr dest!: sys_Inr(1))
  qed
qed

text \<open>\<open>MkdirAll\<close> that succeeds leaves a directory at its path, and keeps every node there was.\<close>

lemma mkdir_all_ok:
  assumes "list_all name_ok (os_cwd s)" and "go_mkdir_all p s = (Inr (), s')"
  shows "lookup (os_fs s') (canon (os_cwd s) p) = Some FDir" and "grown (os_fs s) (os_fs s')" and "os_cwd s' = os_cwd s"
    and "fs_wf (os_fs s) \<Longrightarrow> fs_wf (os_fs s')"
proof -
  show k: "grown (os_fs s) (os_fs s')" "os_cwd s' = os_cwd s"
    using io_relD [OF mkdir_all_keeps(2) [OF assms(1)] refl assms(2)] by simp_all
  show "fs_wf (os_fs s) \<Longrightarrow> fs_wf (os_fs s')"
    using io_relD [OF mkdir_all_keeps(1) [OF assms(1)] refl assms(2)] by (simp add: wf_kept_def)
  have cwd: "os_cwd s1 = os_cwd s" if "go_stat p s = (r, s1)" for r s1
    using io_relD [OF tree_relation.rel_read_file(2) [OF tree_relations(3) [OF assms(1)]] refl that] by simp
  have cwd2: "os_cwd s2 = os_cwd s1" if "go_mkdir_all q s1 = (r, s2)" "os_cwd s1 = os_cwd s" for q r s1 s2
    using io_relD [OF mkdir_all_keeps(2) [OF assms(1)] that(2) that(1)] that(2) by simp
  obtain r s1 where r: "go_stat p s = (r, s1)" by (cases "go_stat p s")
  note run = assms(2) [unfolded go_mkdir_all.simps [of p], unfolded io_bind_def [of "io_try (go_stat p)"] io_try_def r, simplified]
  show "lookup (os_fs s') (canon (os_cwd s) p) = Some FDir"
  proof (cases r)
    case (Inl e)
    with run consider "go_mkdir p s1 = (Inr (), s')"
      | s2 where "go_mkdir_all (parent_part p) s1 = (Inr (), s2)" "go_mkdir p s2 = (Inr (), s')"
      by (auto split: if_splits simp: bind_Inr)
    then show ?thesis
    proof cases
      case 1
      from mkdir_ok [OF 1] show ?thesis by (simp add: cwd [OF r])
    next
      case 2
      from mkdir_ok [OF 2(2)] show ?thesis by (simp add: cwd2 [OF 2(1) cwd [OF r]] cwd [OF r])
    qed
  next
    case (Inr n)
    with run r show ?thesis
      by (cases n) (auto simp: go_stat_def on_path_Inr node_at_Inr return_Inr dest!: sys_Inr(1))
  qed
qed

lemma write_file_ok:
  assumes "go_write_file p d s = (Inr (), s')"
  shows "node_at (os_fs s') (canon (os_cwd s) p) = Inr (FFile d)" and "os_cwd s' = os_cwd s" and "p \<noteq> []"
proof -
  let ?p = "canon (os_cwd s) p"
  from assms obtain s1 where p: "p \<noteq> []" and c0: "sys_create False ?p s = (Inr (), s1)"
    and w0: "sys_write (canon (os_cwd s1) p) d s1 = (Inr (), s')"
    unfolding go_write_file_def io_Inr by auto
  note c = sys_Inr(5) [OF c0]
  with sys_Inr(4) [OF w0] have w: "fs_write ?p d (os_fs s1) = (Inr (), os_fs s')" "os_cwd s' = os_cwd s1" by simp_all
  from w(1) obtain c0 where n: "node_at (os_fs s1) ?p = Inr (FFile c0)" and s': "os_fs s' = AList.update ?p (FFile d) (os_fs s1)"
    by (auto simp: fs_write_def split: sum.splits node.splits)
  have ne: "?p \<noteq> []" using n by (auto simp: node_at_Inr)
  have "lookup (os_fs s') (take k ?p) = Some FDir" if "k < length ?p" for k
    using n that ne unfolding s' node_at_Inr walk_None by (auto dest: spec [of _ k])
  then show "node_at (os_fs s') ?p = Inr (FFile d)" using ne unfolding s' by (simp add: node_at_Inr walk_None)
  show "os_cwd s' = os_cwd s" "p \<noteq> []" using c w p by simp_all
qed

lemma calm_ops:
  assumes "calm s" and "p \<noteq> []"
  shows "go_read_file p s =
      (case node_at (os_fs s) (canon (os_cwd s) p) of
         Inl e \<Rightarrow> (Inl (PathError ''open'' p e), s)
       | Inr FDir \<Rightarrow> (Inl (PathError ''read'' p EISDIR), s)
       | Inr (FFile c) \<Rightarrow> (Inr c, s))"
    and "go_stat p s =
      (case node_at (os_fs s) (canon (os_cwd s) p) of Inl e \<Rightarrow> (Inl (PathError ''stat'' p e), s) | Inr n \<Rightarrow> (Inr n, s))"
  using assms
  by (auto simp: go_read_file_def go_stat_def io_bind_def on_path_def io_map_error_def sys_stat_def sys_read_def syscall_calm
      fs_read_def split: sum.split node.split)

section \<open>What a directory lists\<close>

lemma children_iff: "(n, b) \<in> set (fs_children fs p) \<longleftrightarrow> (\<exists>m. (p @ [n], m) \<in> set fs \<and> b = (m = FDir))"
proof -
  have "(n, b) \<in> set (fs_children fs p) \<longleftrightarrow>
      (\<exists>q m. (q, m) \<in> set fs \<and> q \<noteq> [] \<and> butlast q = p \<and> n = last q \<and> b = (m = FDir))"
    unfolding fs_children_def by force
  also have "\<dots> \<longleftrightarrow> (\<exists>m. (p @ [n], m) \<in> set fs \<and> b = (m = FDir))"
    by (metis append_butlast_last_id append_is_Nil_conv butlast_snoc last_snoc not_Cons_self2)
  finally show ?thesis .
qed

lemma children_lookup:
  assumes "fs_wf fs"
  shows "(n, b) \<in> set (fs_children fs p) \<longleftrightarrow> (\<exists>m. lookup fs (p @ [n]) = Some m \<and> b = (m = FDir))"
  using assms by (simp add: children_iff fs_wf_entry)

lemma children_names:
  assumes "fs_wf fs"
  shows "distinct (map fst (fs_children fs p))" and "(n, b) \<in> set (fs_children fs p) \<Longrightarrow> name_ok n"
proof -
  let ?l = "filter (\<lambda>(q, n). q \<noteq> [] \<and> butlast q = p) fs"
  have "distinct (map fst ?l)" using assms by (simp add: fs_wf_def distinct_map_filter)
  moreover have "inj_on last (fst ` set ?l)"
    by (rule inj_onI) (auto, metis append_butlast_last_id)
  ultimately have "distinct (map last (map fst ?l))" by (simp only: distinct_map [of last] set_map)
  then have "distinct (map fst (map (\<lambda>(q, n). (last q, n = FDir)) ?l))"
    by (simp add: comp_def case_prod_beta)
  moreover have "distinct (map fst (sort_key fst xs)) = distinct (map fst xs)" for xs :: "(string \<times> bool) list"
    by (rule mset_eq_imp_distinct_iff) (simp only: mset_map mset_sort)
  ultimately show "distinct (map fst (fs_children fs p))" by (simp only: fs_children_def)
  show "(n, b) \<in> set (fs_children fs p) \<Longrightarrow> name_ok n"
    using assms by (auto simp: children_iff fs_wf_def)
qed

section \<open>Undisturbed runs\<close>

lemma calm_update [simp]: "calm (s\<lparr>os_fs := fs\<rparr>) = calm s"
  by (simp add: calm_def)

lemma canon_slash: "x \<noteq> [] \<Longrightarrow> canon cwd (x @ [slash]) = canon cwd x"
proof -
  assume "x \<noteq> []"
  then have "is_abs (x @ [slash]) = is_abs x" by (cases x) (simp_all add: is_abs_def)
  moreover have "split_char slash (x @ [slash]) = split_char slash x @ [[]]" using split_char_app [of slash x "[]"] by simp
  ultimately show ?thesis by (simp add: canon_def clean_comps_def clean_step_def)
qed

lemma parent_of_join:
  assumes "name_ok n"
  shows "parent_part (go_join [d, n]) = [] \<or> canon cwd (parent_part (go_join [d, n])) = canon cwd d"
proof -
  let ?cs = "clean_comps (is_abs d) (split_char slash d)"
  have n: "slash \<notin> set n" "n \<noteq> []" using assms by (simp_all add: name_ok_def)
  have pp: "parent_part (x @ slash # n) = x @ [slash]" "parent_part n = []" for x
  proof -
    have a: "dropWhile (\<lambda>c. c = slash) (rev n @ y) = rev n @ y" for y using n by (cases n rule: rev_cases) auto
    have b: "dropWhile (\<lambda>c. c \<noteq> slash) (rev n @ y) = dropWhile (\<lambda>c. c \<noteq> slash) y" for y
      by (rule dropWhile_append2) (use n in auto)
    show "parent_part (x @ slash # n) = x @ [slash]" "parent_part n = []"
      using a [of "slash # rev x"] a [of "[]"] b [of "slash # rev x"] b [of "[]"] by (simp_all add: parent_part_def)
  qed
  have j: "go_join [d, n] = render_path (is_abs d) (?cs @ [n])"
    using join_names [of d "[n]"] assms by (simp add: path_of_def)
  show ?thesis
  proof (cases "?cs = []")
    case True
    then show ?thesis
    proof (cases "is_abs d")
      case True
      with \<open>?cs = []\<close> pp(1) [of "[]"] show ?thesis
        by (simp add: j render_path_def canon_def) (simp add: clean_comps_def clean_step_def)
    qed (use pp(2) in \<open>simp add: j render_path_def\<close>)
  next
    case False
    from render_snoc [OF this] have "go_join [d, n] = path_of d [] @ slash # n" by (simp add: j path_of_def del: path_of_Nil)
    then show ?thesis using pp(1) canon_slash [of "go_clean d" cwd] canon_path_of [of "[]" cwd d] by simp
  qed
qed

text \<open>Making a new directory in one that is there.\<close>

lemma mkdir_all_calm:
  assumes "calm s" and "fs_wf (os_fs s)" and "name_ok n" and "lookup (os_fs s) (canon (os_cwd s) d) = Some FDir"
    and "lookup (os_fs s) (canon (os_cwd s) d @ [n]) = None"
  shows "go_mkdir_all (go_join [d, n]) s
    = (Inr (), s\<lparr>os_fs := AList.update (canon (os_cwd s) d @ [n]) FDir (os_fs s)\<rparr>)"
proof -
  let ?p = "go_join [d, n]" and ?q = "canon (os_cwd s) d @ [n]"
  have p: "?p \<noteq> []" "canon (os_cwd s) ?p = ?q" using assms(3) by (simp_all add: join_not_empty canon_join)
  have w: "walk (os_fs s) ?q = None"
  proof -
    have "lookup (os_fs s) (take k (canon (os_cwd s) d)) = Some FDir" if "k < Suc (length (canon (os_cwd s) d))" for k
      using that fs_wf_walk(1) [OF assms(2,4)] assms(4) by (cases "k = length (canon (os_cwd s) d)") (auto simp: walk_None)
    then show ?thesis by (auto simp: walk_None)
  qed
  have st: "go_stat ?p s = (Inl (PathError ''stat'' ?p ENOENT), s)"
    using w assms(5) by (simp add: calm_ops(2) [OF assms(1) p(1)] p(2) node_at_def)
  have mk: "go_mkdir ?p s = (Inr (), s\<lparr>os_fs := AList.update ?q FDir (os_fs s)\<rparr>)"
    using w assms(5)
    by (simp add: go_mkdir_def io_bind_def io_try_def on_path_def p sys_mkdir_def syscall_calm [OF assms(1)] fs_mkdir_def
        node_at_def io_map_error_def io_return_def)
  have par: "parent_part ?p = [] \<or> go_mkdir_all (parent_part ?p) s = (Inr (), s)"
  proof (cases "parent_part ?p = []")
    case False
    then have "node_at (os_fs s) (canon (os_cwd s) (parent_part ?p)) = Inr FDir"
      using parent_of_join [OF assms(3), of d "os_cwd s"] assms(4) by (simp add: node_at_wf [OF assms(2)])
    with False show ?thesis
      by (simp add: go_mkdir_all.simps [of "parent_part ?p"] io_bind_def io_try_def io_return_def calm_ops(2) [OF assms(1)])
  qed simp
  then show ?thesis
    by (subst go_mkdir_all.simps) (auto simp: io_bind_def io_try_def st mk)
qed

end
