(* ===== verification/FileTools.thy ===== *)
theory FileTools
  imports FileSys Registry Schema
begin

text \<open>
  The tools on files and directories (tools/internals/file\_read.go, file\_write.go, file\_delete.go,
  file\_copy.go, dir.go).  A tool acts on the operating system of \<open>FileSys\<close>.  Copying a directory recurses on
  what it reads, so it is a partial function: \<open>None\<close> is a call that never returns.
\<close>

section \<open>The definitions\<close>

definition file_read_definition :: tool_definition where
  "file_read_definition =
     \<lparr>td_name = ''file_read'',
      td_description = ''Read the contents of a file at the given path.'',
      td_schema =
      [(''type'', VStr ''object''),
       (''properties'', VMap [
          (''path'', field ''string'' ''Path to the file to read'')]),
       (''required'', VList [VStr ''path''])],
      td_output_schema =
      [(''type'', VStr ''object''),
       (''properties'', VMap [
          (''path'', field ''string'' ''File path that was read''),
          (''content'', field ''string'' ''File content as a string''),
          (''size'', field ''integer'' ''File size in bytes'')])],
      td_terminating = False\<rparr>"

definition file_write_definition :: tool_definition where
  "file_write_definition =
     \<lparr>td_name = ''file_write'',
      td_description =
      (''Write content to a file at the given path. Overwrites existing files. Creates parent '' @
      ''directories if needed.''),
      td_schema =
      [(''type'', VStr ''object''),
       (''properties'', VMap [
          (''path'', field ''string'' ''Path to the file to write''),
          (''content'', field ''string'' ''Content to write to the file'')]),
       (''required'', VList [VStr ''path'', VStr ''content''])],
      td_output_schema =
      [(''type'', VStr ''object''),
       (''properties'', VMap [
          (''path'', field ''string'' ''File path that was written''),
          (''bytes'', field ''integer'' ''Number of bytes written''),
          (''consumed'', field ''integer'' ''Same as bytes'')])],
      td_terminating = False\<rparr>"

definition file_delete_definition :: tool_definition where
  "file_delete_definition =
     \<lparr>td_name = ''file_delete'',
      td_description = ''Delete a file at the given path. Returns an error if the file does not exist.'',
      td_schema =
      [(''type'', VStr ''object''),
       (''properties'', VMap [
          (''path'', field ''string'' ''Path to the file to delete'')]),
       (''required'', VList [VStr ''path''])],
      td_output_schema =
      [(''type'', VStr ''object''),
       (''properties'', VMap [
          (''path'', field ''string'' ''Path of the deleted file''),
          (''action'', field ''string'' (''Always '' @ dq @ ''deleted'' @ dq @ '' on success''))])],
      td_terminating = False\<rparr>"

definition file_copy_definition :: tool_definition where
  "file_copy_definition =
     \<lparr>td_name = ''file_copy'',
      td_description = (''Copy or move a file from source to destination. Set '' @ sq @ ''move'' @ sq @
      '' to true to move instead of copy. Overwrites destination if it exists.''),
      td_schema =
      [(''type'', VStr ''object''),
       (''properties'', VMap [
          (''source'', field ''string'' ''Source file path''),
          (''destination'', field ''string'' ''Destination file path''),
          (''move'', field ''boolean'' ''If true, move (cut) instead of copy. Default: false.'')]),
       (''required'', VList [VStr ''source'', VStr ''destination''])],
      td_output_schema =
      [(''type'', VStr ''object''),
       (''properties'', VMap [
          (''source'', field ''string'' ''Source file path''),
          (''destination'', field ''string'' ''Destination file path''),
          (''action'', field ''string'' ''copied or moved'')])],
      td_terminating = False\<rparr>"

definition dir_create_definition :: tool_definition where
  "dir_create_definition =
     \<lparr>td_name = ''dir_create'',
      td_description =
      (''Create a directory at the given path. Creates parent directories as needed (like mkdir '' @
      ''-p).''),
      td_schema =
      [(''type'', VStr ''object''),
       (''properties'', VMap [
          (''path'', field ''string'' ''Path to the directory to create'')]),
       (''required'', VList [VStr ''path''])],
      td_output_schema =
      [(''type'', VStr ''object''),
       (''properties'', VMap [
          (''ok'', field ''boolean'' ''true if created successfully'')])],
      td_terminating = False\<rparr>"

definition dir_copy_definition :: tool_definition where
  "dir_copy_definition =
     \<lparr>td_name = ''dir_copy'',
      td_description =
      (''Copy or move a directory and all its contents from source to destination. Set '' @ sq @ ''move''
      @ sq @ '' to true to move instead of copy.''),
      td_schema =
      [(''type'', VStr ''object''),
       (''properties'', VMap [
          (''source'', field ''string'' ''Source directory path''),
          (''destination'', field ''string'' ''Destination directory path''),
          (''move'', field ''boolean'' ''If true, move (cut) instead of copy. Default: false.'')]),
       (''required'', VList [VStr ''source'', VStr ''destination''])],
      td_output_schema =
      [(''type'', VStr ''object''),
       (''properties'', VMap [
          (''source'', field ''string'' ''Source directory path''),
          (''destination'', field ''string'' ''Destination directory path''),
          (''action'', field ''string'' ''copied or moved'')])],
      td_terminating = False\<rparr>"


section \<open>The tools\<close>

definition dir_of :: "string \<Rightarrow> string" where
  "dir_of p = go_dir p"

text \<open>The end of a handler: the error of the file system as the result, or the outputs.\<close>

definition tool_io :: "string \<Rightarrow> string \<Rightarrow> (os_error, (string \<times> val) list) io \<Rightarrow> os \<Rightarrow> os \<times> tool_call_result" where
  "tool_io i tool m s =
     (case m s of
        (Inl e, s') \<Rightarrow> (s', error_result i tool (ErrOther (os_error_text e)))
      | (Inr outs, s') \<Rightarrow> (s', success_result i tool outs))"

definition file_read_execute :: "tool_call_detail \<Rightarrow> os \<Rightarrow> os \<times> tool_call_result" where
  "file_read_execute d s =
     (case arg d ''path'' of
        Inl e \<Rightarrow> (s, error_result (tcd_id d) ''file_read'' e)
      | Inr p \<Rightarrow>
          tool_io (tcd_id d) ''file_read''
            (io_bind (go_read_file p) (\<lambda>c.
               io_return [(''path'', VStr p), (''content'', VStr c), (''size'', VInt (int (length c)))])) s)"

definition file_write_execute :: "tool_call_detail \<Rightarrow> os \<Rightarrow> os \<times> tool_call_result" where
  "file_write_execute d s =
     (case arg d ''path'' of
        Inl e \<Rightarrow> (s, error_result (tcd_id d) ''file_write'' e)
      | Inr p \<Rightarrow>
          (case arg d ''content'' of
             Inl e \<Rightarrow> (s, error_result (tcd_id d) ''file_write'' e)
           | Inr c \<Rightarrow>
               tool_io (tcd_id d) ''file_write''
                 (io_bind (go_mkdir_all (dir_of p)) (\<lambda>_.
                    io_bind (go_write_file p c) (\<lambda>_.
                      io_return [(''path'', VStr p), (''bytes'', VInt (int (length c))),
                                 (''consumed'', VInt (int (length c)))]))) s))"

definition file_delete_execute :: "tool_call_detail \<Rightarrow> os \<Rightarrow> os \<times> tool_call_result" where
  "file_delete_execute d s =
     (case arg d ''path'' of
        Inl e \<Rightarrow> (s, error_result (tcd_id d) ''file_delete'' e)
      | Inr p \<Rightarrow>
          tool_io (tcd_id d) ''file_delete''
            (io_bind (go_remove p) (\<lambda>_. io_return [(''path'', VStr p), (''action'', VStr ''deleted'')])) s)"

text \<open>\<open>copyFile\<close>: the destination is truncated before the source is read.\<close>

definition copy_file :: "string \<Rightarrow> string \<Rightarrow> (os_error, unit) io" where
  "copy_file src dst =
     io_bind (on_path ''open'' src sys_stat) (\<lambda>_.
     io_bind (on_path ''stat'' src sys_stat) (\<lambda>info.
       if info = FDir then io_fail (PlainError ''source is a directory, use dir_copy instead'')
       else
         io_bind (on_path ''open'' dst (sys_create False)) (\<lambda>_.
         io_bind (on_path ''read'' src sys_read) (\<lambda>c.
         io_bind (on_path ''write'' dst (\<lambda>p. sys_write p c)) (\<lambda>_.
           io_map_error (PathError ''close'' dst) sys_flush)))))"

definition move_arg :: "tool_call_detail \<Rightarrow> bool" where
  "move_arg d = (case get_arg d ''move'' of Some (VBool b) \<Rightarrow> b | _ \<Rightarrow> False)"

definition remove_source_error :: "os_error \<Rightarrow> os_error" where
  "remove_source_error e = PlainError (''move fallback: remove source: '' @ os_error_text e)"

definition copy_outputs :: "string \<Rightarrow> string \<Rightarrow> bool \<Rightarrow> (string \<times> val) list" where
  "copy_outputs src dst move =
     [(''source'', VStr src), (''destination'', VStr dst),
      (''action'', VStr (if move then ''moved'' else ''copied''))]"

definition file_copy_io :: "string \<Rightarrow> string \<Rightarrow> bool \<Rightarrow> (os_error, unit) io" where
  "file_copy_io src dst move =
     io_bind (go_mkdir_all (dir_of dst)) (\<lambda>_.
       if move then
         io_bind (io_try (go_rename src dst)) (\<lambda>r.
           case r of
             Inr _ \<Rightarrow> io_return ()
           | Inl _ \<Rightarrow>
               io_bind (copy_file src dst) (\<lambda>_. io_map_error remove_source_error (go_remove src)))
       else copy_file src dst)"

definition file_copy_execute :: "tool_call_detail \<Rightarrow> os \<Rightarrow> os \<times> tool_call_result" where
  "file_copy_execute d s =
     (case arg d ''source'' of
        Inl e \<Rightarrow> (s, error_result (tcd_id d) ''file_copy'' e)
      | Inr src \<Rightarrow>
          (case arg d ''destination'' of
             Inl e \<Rightarrow> (s, error_result (tcd_id d) ''file_copy'' e)
           | Inr dst \<Rightarrow>
               tool_io (tcd_id d) ''file_copy''
                 (io_bind (file_copy_io src dst (move_arg d)) (\<lambda>_. io_return (copy_outputs src dst (move_arg d)))) s))"

definition dir_create_execute :: "tool_call_detail \<Rightarrow> os \<Rightarrow> os \<times> tool_call_result" where
  "dir_create_execute d s =
     (case arg d ''path'' of
        Inl e \<Rightarrow> (s, error_result (tcd_id d) ''dir_create'' e)
      | Inr p \<Rightarrow>
          (case go_mkdir_all p s of
             (Inl e, s') \<Rightarrow> (s', error_result (tcd_id d) ''dir_create'' (ErrOther (os_error_text e)))
           | (Inr _, s') \<Rightarrow> (s', ok_result (tcd_id d) ''dir_create'')))"

text \<open>\<open>copyDir\<close>: making and reading a directory, and the loop over its entries.\<close>

definition open_dir :: "string \<Rightarrow> string \<Rightarrow> (os_error, (string \<times> bool) list) io" where
  "open_dir src dst = io_bind (go_mkdir_all dst) (\<lambda>_. go_read_dir src)"

partial_function (option) copy_entries ::
    "string \<Rightarrow> string \<Rightarrow> (string \<times> bool) list \<Rightarrow> os \<Rightarrow> ((os_error + unit) \<times> os) option" where
  "copy_entries src dst es s =
     (case es of
        [] \<Rightarrow> Some (Inr (), s)
      | e # rest \<Rightarrow>
          Option.bind
            (if snd e then
               (case open_dir (go_join [src, fst e]) (go_join [dst, fst e]) s of
                  (Inl er, s1) \<Rightarrow> Some (Inl er, s1)
                | (Inr es', s1) \<Rightarrow> copy_entries (go_join [src, fst e]) (go_join [dst, fst e]) es' s1)
             else Some (copy_file (go_join [src, fst e]) (go_join [dst, fst e]) s))
            (\<lambda>r. case fst r of Inl er \<Rightarrow> Some (Inl er, snd r) | Inr _ \<Rightarrow> copy_entries src dst rest (snd r)))"

declare copy_entries.simps [code]

definition copy_dir :: "string \<Rightarrow> string \<Rightarrow> os \<Rightarrow> ((os_error + unit) \<times> os) option" where
  "copy_dir src dst s =
     (case open_dir src dst s of
        (Inl e, s1) \<Rightarrow> Some (Inl e, s1)
      | (Inr es, s1) \<Rightarrow> copy_entries src dst es s1)"

definition dir_copy_io :: "string \<Rightarrow> string \<Rightarrow> bool \<Rightarrow> os \<Rightarrow> ((os_error + unit) \<times> os) option" where
  "dir_copy_io src dst move s =
     (if move then
        (case go_rename src dst s of
           (Inr _, s1) \<Rightarrow> Some (Inr (), s1)
         | (Inl _, s1) \<Rightarrow>
             Option.bind (copy_dir src dst s1) (\<lambda>r.
               case fst r of
                 Inl e \<Rightarrow> Some (Inl e, snd r)
               | Inr _ \<Rightarrow> Some (io_map_error remove_source_error (go_remove_all src) (snd r))))
      else copy_dir src dst s)"

definition dir_copy_execute :: "tool_call_detail \<Rightarrow> os \<Rightarrow> (os \<times> tool_call_result) option" where
  "dir_copy_execute d s =
     (case arg d ''source'' of
        Inl e \<Rightarrow> Some (s, error_result (tcd_id d) ''dir_copy'' e)
      | Inr src \<Rightarrow>
          (case arg d ''destination'' of
             Inl e \<Rightarrow> Some (s, error_result (tcd_id d) ''dir_copy'' e)
           | Inr dst \<Rightarrow>
               Option.bind (dir_copy_io src dst (move_arg d) s) (\<lambda>r.
                 case fst r of
                   Inl e \<Rightarrow> Some (snd r, error_result (tcd_id d) ''dir_copy'' (ErrOther (os_error_text e)))
                 | Inr _ \<Rightarrow> Some (snd r, success_result (tcd_id d) ''dir_copy'' (copy_outputs src dst (move_arg d))))))"

section \<open>Small runs\<close>

definition demo_os :: os where
  "demo_os = \<lparr>os_fs = [([''w''], FDir), ([''w'', ''a''], FDir), ([''w'', ''a'', ''f''], FFile ''hi''), ([''w'', ''a'', ''g''], FDir)],
     os_cwd = [''w''], os_faults = [], os_down = False\<rparr>"

lemma demo_os_wf: "os_wf demo_os" "calm demo_os"
  by code_simp+

abbreviation demo_call :: "(string \<times> val) list \<Rightarrow> tool_call_detail" where
  "demo_call args \<equiv> \<lparr>tcd_id = ''c'', tcd_name = ''t'', tcd_args = args\<rparr>"

lemma demo_copy: "map_option (\<lambda>r. (fst r, lookup (os_fs (snd r)) [''w'', ''b'', ''f''])) (copy_dir ''a'' ''b'' demo_os)
    = Some (Inr (), Some (FFile ''hi''))"
  by code_simp

section \<open>What a written file reads back\<close>

lemma tool_io_error: "is_error (snd (tool_io i tool m s)) = False \<Longrightarrow> \<exists>outs s'. m s = (Inr outs, s')"
  by (auto simp: tool_io_def split: sum.splits prod.splits)

text \<open>What file\_write has written without an error, file\_read gives back for the same path,
  with its path, contents and size, unless a system call fails.\<close>

theorem written_file_reads_back:
  assumes "arg d ''path'' = Inr p" and "arg d ''content'' = Inr c" and "file_write_execute d s = (s1, w)"
    and "\<not> is_error w" and "list_all name_ok (os_cwd s)" and "calm s1" and "arg d' ''path'' = Inr p"
  shows "file_read_execute d' s1 = (s1, success_result (tcd_id d') ''file_read''
    [(''path'', VStr p), (''content'', VStr c), (''size'', VInt (int (length c)))])"
proof -
  let ?outs = "[(''path'', VStr p), (''bytes'', VInt (int (length c))), (''consumed'', VInt (int (length c)))]"
  obtain s0 where m: "go_mkdir_all (dir_of p) s = (Inr (), s0)" and w: "go_write_file p c s0 = (Inr (), s1)"
    using assms(1-4) tool_io_error [of _ _ _ s]
    by (fastforce simp: file_write_execute_def tool_io_def io_Inr split: sum.splits prod.splits)
  note f = write_file_ok [OF w]
  from f(1,2) have "node_at (os_fs s1) (canon (os_cwd s1) p) = Inr (FFile c)" by simp
  with assms(1,7) f(3) show ?thesis
    by (simp add: file_read_execute_def tool_io_def io_bind_def io_return_def calm_ops(1) [OF assms(6)])
qed

definition demo_write :: "os \<times> tool_call_result" where
  "demo_write = file_write_execute (demo_call [(''path'', VStr ''x/y''), (''content'', VStr ''hi'')]) demo_os"

theorem written_file_reads_back_witness:
  "file_read_execute (demo_call [(''path'', VStr ''x/y'')]) (fst demo_write)
    = (fst demo_write, success_result ''c'' ''file_read'' [(''path'', VStr ''x/y''), (''content'', VStr ''hi''), (''size'', VInt 2)])"
proof -
  let ?d = "demo_call [(''path'', VStr ''x/y''), (''content'', VStr ''hi'')]"
  have w: "file_write_execute ?d demo_os = (fst demo_write, snd demo_write)" by (simp add: demo_write_def)
  have h: "arg ?d ''path'' = Inr ''x/y''" "arg ?d ''content'' = Inr ''hi''" "\<not> is_error (snd demo_write)"
    "list_all name_ok (os_cwd demo_os)" "calm (fst demo_write)" "arg (demo_call [(''path'', VStr ''x/y'')]) ''path'' = Inr ''x/y''"
    by code_simp+
  from written_file_reads_back [OF h(1,2) w h(3-6)] show ?thesis by simp
qed

section \<open>What a copied file holds\<close>

lemma copy_file_ok:
  assumes "copy_file src dst s = (Inr (), s')"
  shows "os_cwd s' = os_cwd s" and "same_on (\<lambda>q. q \<noteq> canon (os_cwd s) dst) (os_fs s) (os_fs s')"
    and "canon (os_cwd s) src = canon (os_cwd s) dst \<Longrightarrow> lookup (os_fs s') (canon (os_cwd s) dst) = Some (FFile [])"
    and "canon (os_cwd s) src \<noteq> canon (os_cwd s) dst \<Longrightarrow>
      \<exists>c. lookup (os_fs s) (canon (os_cwd s) src) = Some (FFile c) \<and> lookup (os_fs s') (canon (os_cwd s) dst) = Some (FFile c)"
proof -
  let ?p = "canon (os_cwd s) src" and ?q = "canon (os_cwd s) dst"
  from assms obtain n0 n s1 s2 s3 c s4 s5 where st: "sys_stat ?p s = (Inr n0, s1)"
    "sys_stat (canon (os_cwd s1) src) s1 = (Inr n, s2)" "n \<noteq> FDir"
    "sys_create False (canon (os_cwd s2) dst) s2 = (Inr (), s3)" "sys_read (canon (os_cwd s3) src) s3 = (Inr c, s4)"
    "sys_write (canon (os_cwd s4) dst) c s4 = (Inr (), s5)" "sys_flush s5 = (Inr (), s')"
    unfolding copy_file_def io_Inr by (auto simp: io_Inr split: if_splits)
  note a = sys_Inr(1) [OF st(1)]
  from sys_Inr(1) [OF st(2)] a have b: "node_at (os_fs s) ?p = Inr n" "os_fs s2 = os_fs s" "os_cwd s2 = os_cwd s" by simp_all
  from sys_Inr(5) [OF st(4)] b have cr: "fs_create False ?q (os_fs s) = (Inr (), os_fs s3)" "os_cwd s3 = os_cwd s" by simp_all
  from sys_Inr(2) [OF st(5)] cr have rd: "node_at (os_fs s3) ?p = Inr (FFile c)" "os_fs s4 = os_fs s3" "os_cwd s4 = os_cwd s"
    by simp_all
  from sys_Inr(4) [OF st(6)] rd have wr: "fs_write ?q c (os_fs s3) = (Inr (), os_fs s5)" "os_cwd s5 = os_cwd s" by simp_all
  from st(7) have fl: "os_fs s' = os_fs s5" "os_cwd s' = os_cwd s5" by (auto simp: sys_flush_def dest!: syscall_Inr)
  show "os_cwd s' = os_cwd s" using fl wr by simp
  show same: "same_on (\<lambda>q. q \<noteq> ?q) (os_fs s) (os_fs s')"
    using fs_step_lookup(2) [of _ ?q False "os_fs s"] fs_step_lookup(3) [of _ ?q c "os_fs s3"]
    unfolding same_on_def by (simp add: cr wr fl)
  from wr(1) have q: "lookup (os_fs s') ?q = Some (FFile c)"
    unfolding fl(1) by (rule write_made)
  show "lookup (os_fs s') ?q = Some (FFile [])" if "?p = ?q"
  proof -
    have "lookup (os_fs s3) ?q = Some (FFile [])" using cr(1) by (rule create_made)
    with rd(1) that have "c = []" by (auto simp: node_at_Inr)
    with q show ?thesis by simp
  qed
  show "\<exists>c. lookup (os_fs s) ?p = Some (FFile c) \<and> lookup (os_fs s') ?q = Some (FFile c)" if "?p \<noteq> ?q"
    using rd(1) q fs_step_lookup(2) [of ?p ?q False "os_fs s"] that by (intro exI [of _ c]) (simp add: cr node_at_Inr)
qed

text \<open>C38. After a successful file\_copy without move the source and the destination both hold what the source
  held, unless both paths name the same file: then that file is empty.\<close>

theorem copied_file:
  assumes "arg d ''source'' = Inr src" and "arg d ''destination'' = Inr dst" and "\<not> move_arg d"
    and "file_copy_execute d s = (s', r)" and "\<not> is_error r" and "list_all name_ok (os_cwd s)"
  shows "if canon (os_cwd s) src = canon (os_cwd s) dst
    then lookup (os_fs s') (canon (os_cwd s) src) = Some (FFile [])
    else \<exists>c. lookup (os_fs s) (canon (os_cwd s) src) = Some (FFile c)
      \<and> lookup (os_fs s') (canon (os_cwd s) src) = Some (FFile c)
      \<and> lookup (os_fs s') (canon (os_cwd s) dst) = Some (FFile c)"
proof -
  obtain s0 where m: "go_mkdir_all (dir_of dst) s = (Inr (), s0)" and w: "copy_file src dst s0 = (Inr (), s')"
    using assms(1-5) tool_io_error [of _ _ _ s]
    by (fastforce simp: file_copy_execute_def file_copy_io_def tool_io_def io_Inr split: sum.splits prod.splits)
  note g = mkdir_all_ok [OF assms(6) m] and c = copy_file_ok [OF w, unfolded mkdir_all_ok(3) [OF assms(6) m]]
  have "lookup (os_fs s) p = Some (FFile x)" if "lookup (os_fs s0) p = Some (FFile x)" for p x
    using g(2) that unfolding grown_def by (metis node.distinct(1) option.inject)
  then show ?thesis using c(2-4) unfolding same_on_def by metis
qed

definition self_copy :: "os \<times> tool_call_result" where
  "self_copy = file_copy_execute (demo_call [(''source'', VStr ''a/f''), (''destination'', VStr ''./a/f'')]) demo_os"

theorem copied_file_witness: "\<not> is_error (snd self_copy) \<and> lookup (os_fs (fst self_copy)) [''w'', ''a'', ''f''] = Some (FFile [])"
proof -
  let ?d = "demo_call [(''source'', VStr ''a/f''), (''destination'', VStr ''./a/f'')]"
  have h: "arg ?d ''source'' = Inr ''a/f''" "arg ?d ''destination'' = Inr ''./a/f''" "\<not> move_arg ?d" "\<not> is_error (snd self_copy)"
    "list_all name_ok (os_cwd demo_os)" and c: "canon (os_cwd demo_os) ''a/f'' = [''w'', ''a'', ''f'']"
    "canon (os_cwd demo_os) ''./a/f'' = [''w'', ''a'', ''f'']" by code_simp+
  have r: "file_copy_execute ?d demo_os = (fst self_copy, snd self_copy)" by (simp add: self_copy_def)
  from copied_file [OF h(1-3) r h(4,5)] h(4) show ?thesis by (simp add: c)
qed

section \<open>Copying a directory into itself\<close>

lemma open_dir_ok:
  assumes "open_dir src dst s = (Inr es, s1)" and "os_wf s"
  shows "lookup (os_fs s1) (canon (os_cwd s) dst) = Some FDir" and "lookup (os_fs s1) (canon (os_cwd s) src) = Some FDir"
    and "es = fs_children (os_fs s1) (canon (os_cwd s) src)" and "os_wf s1" and "os_cwd s1 = os_cwd s"
    and "grown (os_fs s) (os_fs s1)"
proof -
  have cwd: "list_all name_ok (os_cwd s)" and wf: "fs_wf (os_fs s)" using assms(2) by (simp_all add: os_wf_def)
  from assms(1) obtain s0 where m: "go_mkdir_all dst s = (Inr (), s0)" and r: "sys_read_dir (canon (os_cwd s0) src) s0 = (Inr es, s1)"
    by (auto simp: open_dir_def go_read_dir_def io_Inr)
  note g = mkdir_all_ok [OF cwd m] and d = sys_Inr(3) [OF r]
  show "lookup (os_fs s1) (canon (os_cwd s) dst) = Some FDir" "lookup (os_fs s1) (canon (os_cwd s) src) = Some FDir"
    "es = fs_children (os_fs s1) (canon (os_cwd s) src)" "os_wf s1" "os_cwd s1 = os_cwd s" "grown (os_fs s) (os_fs s1)"
    using g d wf cwd by (auto simp: os_wf_def node_at_Inr)
qed


text \<open>Induction along a copy that returns: one case per way an entry can end.\<close>

lemma copy_entries_ind [consumes 1, case_names nil entry entry_error open_error dir dir_error]:
  assumes run: "copy_entries src dst es s = Some r"
    and nil: "\<And>src dst s. P src dst [] s (Inr (), s)"
    and entry: "\<And>src dst n rest s s1 r. copy_file (go_join [src, n]) (go_join [dst, n]) s = (Inr (), s1) \<Longrightarrow>
      P src dst rest s1 r \<Longrightarrow> P src dst ((n, False) # rest) s r"
    and entry_error: "\<And>src dst n rest s s1 er. copy_file (go_join [src, n]) (go_join [dst, n]) s = (Inl er, s1) \<Longrightarrow>
      P src dst ((n, False) # rest) s (Inl er, s1)"
    and open_error: "\<And>src dst n rest s s1 er. open_dir (go_join [src, n]) (go_join [dst, n]) s = (Inl er, s1) \<Longrightarrow>
      P src dst ((n, True) # rest) s (Inl er, s1)"
    and dir: "\<And>src dst n rest s es s1 s2 r. open_dir (go_join [src, n]) (go_join [dst, n]) s = (Inr es, s1) \<Longrightarrow>
      P (go_join [src, n]) (go_join [dst, n]) es s1 (Inr (), s2) \<Longrightarrow> P src dst rest s2 r \<Longrightarrow>
      P src dst ((n, True) # rest) s r"
    and dir_error: "\<And>src dst n rest s es s1 s2 er. open_dir (go_join [src, n]) (go_join [dst, n]) s = (Inr es, s1) \<Longrightarrow>
      P (go_join [src, n]) (go_join [dst, n]) es s1 (Inl er, s2) \<Longrightarrow> P src dst ((n, True) # rest) s (Inl er, s2)"
  shows "P src dst es s r"
proof (rule copy_entries.raw_induct [OF _ run, where P = P], goal_cases)
  case (1 f src dst es s r)
  note IH = 1(1) and body = 1(2)
  show ?case
  proof (cases es)
    case Nil
    with body nil show ?thesis by auto
  next
    case (Cons e rest)
    let ?a = "go_join [src, fst e]" and ?b = "go_join [dst, fst e]"
    obtain n b where e: "e = (n, b)" by (cases e)
    obtain q s1 where r1: "(if snd e then (case open_dir ?a ?b s of (Inl er, s1) \<Rightarrow> Some (Inl er, s1) | (Inr es', s1) \<Rightarrow> f ?a ?b es' s1)
          else Some (copy_file ?a ?b s)) = Some (q, s1)"
      and r: "(case q of Inl er \<Rightarrow> Some (Inl er, s1) | Inr _ \<Rightarrow> f src dst rest s1) = Some r"
    proof -
      from body [unfolded Cons list.case bind_eq_Some_conv] obtain x where "(if snd e then (case open_dir ?a ?b s of (Inl er, s1) \<Rightarrow> Some (Inl er, s1) | (Inr es', s1) \<Rightarrow> f ?a ?b es' s1)
          else Some (copy_file ?a ?b s)) = Some x" "(case fst x of Inl er \<Rightarrow> Some (Inl er, snd x) | Inr _ \<Rightarrow> f src dst rest (snd x)) = Some r"
        by blast
      then show ?thesis by (intro that [of "fst x" "snd x"]) simp_all
    qed
    show ?thesis
    proof (cases b)
      case False
      with r1 e have "copy_file (go_join [src, n]) (go_join [dst, n]) s = (q, s1)" by simp
      with r Cons e False IH entry entry_error show ?thesis by (cases q) auto
    next
      case True
      obtain o1 s0 where o: "open_dir (go_join [src, n]) (go_join [dst, n]) s = (o1, s0)"
        by (cases "open_dir (go_join [src, n]) (go_join [dst, n]) s")
      show ?thesis
      proof (cases o1)
        case (Inl er)
        with r1 r o e True Cons open_error show ?thesis by auto
      next
        case (Inr es')
        with r1 o e True have "P (go_join [src, n]) (go_join [dst, n]) es' s0 (q, s1)" by (auto intro: IH)
        with r o Inr e True Cons IH dir dir_error show ?thesis by (cases q) auto
      qed
    qed
  qed
qed

text \<open>Whatever every single step of the copy does to the tree, the whole copy does.\<close>

lemma copy_entries_rel:
  assumes "copy_entries src dst es s = Some r" and R: "tree_relation R cwd"
    and o: "\<And>a b. io_rel R cwd (open_dir a b)" and c: "\<And>a b. io_rel R cwd (copy_file a b)"
    and "os_cwd s = cwd"
  shows "R (os_fs s) (os_fs (snd r)) \<and> os_cwd (snd r) = cwd"
  using assms(1,5)
proof (induction rule: copy_entries_ind)
  case (nil src dst s)
  then show ?case by (simp add: tree_relation.refl [OF R])
next
  case (entry src dst n rest s s1 r)
  then show ?case using io_relD [OF c] tree_relation.trans [OF R] by blast
next
  case (entry_error src dst n rest s s1 er)
  from io_relD [OF c entry_error(2) entry_error(1)] show ?case by simp
next
  case (open_error src dst n rest s s1 er)
  from io_relD [OF o open_error(2) open_error(1)] show ?case by simp
next
  case (dir src dst n rest s es s1 s2 r)
  from io_relD [OF o dir(4) dir(1)] dir(2,3) show ?case by (auto intro: tree_relation.trans [OF R])
next
  case (dir_error src dst n rest s es s1 s2 er)
  from io_relD [OF o dir_error(3) dir_error(1)] dir_error(2) show ?case by (auto intro: tree_relation.trans [OF R])
qed

lemma open_dir_keeps: "list_all name_ok cwd \<Longrightarrow> io_rel wf_kept cwd (open_dir a b)"
  unfolding open_dir_def
  by (intro tree_relation.rel_bind [OF tree_relations(1)] mkdir_all_keeps(1) tree_relation.rel_read_file(3) [OF tree_relations(1)])

lemma copy_file_keeps:
  assumes cwd: "list_all name_ok cwd"
  shows "io_rel wf_kept cwd (copy_file a b)"
proof -
  note R = tree_relations(1) [OF cwd]
  have "io_rel wf_kept cwd (sys_create False (canon cwd p))" "io_rel wf_kept cwd (sys_write (canon cwd p) c)" for p c
    unfolding sys_create_def sys_write_def using wf_create wf_write canon_names [OF cwd]
    by (auto simp: wf_kept_def intro!: tree_relation.rel_syscall [OF R])
  then show ?thesis
    unfolding copy_file_def
    by (intro tree_relation.rel_intros [OF R] allI impI) (auto intro!: tree_relation.rel_intros [OF R])
qed

lemma copy_entries_wf:
  assumes "copy_entries src dst es s = Some r" and "os_wf s"
  shows "os_wf (snd r) \<and> os_cwd (snd r) = os_cwd s"
  using copy_entries_rel [OF assms(1) tree_relations(1) open_dir_keeps copy_file_keeps refl] assms(2)
  by (simp add: os_wf_def wf_kept_def)

text \<open>
  The copy lists a directory after it has made the destination there: the destination is one of the entries,
  and the copy of that entry is again a copy of a directory into itself.
\<close>

lemma copy_entries_into_itself:
  assumes "copy_entries src dst es s = Some r" and "os_wf s"
    and "(c, True) \<in> set es" and "canon (os_cwd s) dst = canon (os_cwd s) src @ c # rel"
  shows "fst r \<noteq> Inr ()"
proof -
  have "os_wf (snd r) \<and> os_cwd (snd r) = os_cwd s \<and>
      (\<forall>c rel. (c, True) \<in> set es \<longrightarrow> canon (os_cwd s) dst = canon (os_cwd s) src @ c # rel \<longrightarrow> fst r \<noteq> Inr ())"
    using assms(1,2)
  proof (induction rule: copy_entries_ind)
    case (entry src dst n rest s s1 r)
    from io_relD [OF copy_file_keeps refl entry(1)] entry(3) have "os_wf s1" "os_cwd s1 = os_cwd s"
      by (simp_all add: os_wf_def wf_kept_def)
    with entry(2) show ?case by simp
  next
    case (entry_error src dst n rest s s1 er)
    from io_relD [OF copy_file_keeps refl entry_error(1)] entry_error(2) show ?case by (simp add: os_wf_def wf_kept_def)
  next
    case (open_error src dst n rest s s1 er)
    from io_relD [OF open_dir_keeps refl open_error(1)] open_error(2) show ?case by (simp add: os_wf_def wf_kept_def)
  next
    case (dir src dst n rest s es s1 s2 r)
    note o = open_dir_ok [OF dir(1,4)]
    note h1 = dir(2) [OF o(4), unfolded o(5), simplified] 
    have h2: "os_wf s2" "os_cwd s2 = os_cwd s" using h1 by blast+
    note h3 = dir(3) [OF h2(1), unfolded h2(2)]
    have "False" if n: "canon (os_cwd s) dst = canon (os_cwd s) src @ n # rel" for rel
    proof -
      have "list_all name_ok (canon (os_cwd s) dst)" using canon_names dir(4) by (simp add: os_wf_def)
      with n have nm: "name_ok n" "list_all name_ok rel" by simp_all
      obtain c' rel' where rel: "rel @ [n] = c' # rel'" by (cases rel) auto
      have d: "canon (os_cwd s) (go_join [dst, n]) = canon (os_cwd s) (go_join [src, n]) @ c' # rel'"
        using n rel by (simp add: canon_join [OF nm(1)])
      have wf: "fs_wf (os_fs s1)" using o(4) by (simp add: os_wf_def)
      have "lookup (os_fs s1) (canon (os_cwd s) (go_join [src, n]) @ [c']) = Some FDir"
        by (rule dir_above [OF wf]) (use o(1) d in simp)
      then have "(c', True) \<in> set es" unfolding o(3) children_lookup [OF wf] by blast
      with h1 d show False by blast
    qed
    with h2 h3 show ?case by auto
  next
    case (dir_error src dst n rest s es s1 s2 er)
    note o = open_dir_ok [OF dir_error(1,3)]
    from dir_error(2) [OF o(4)] o(5) show ?case by simp
  qed simp
  with assms(3,4) show ?thesis by blast
qed

text \<open>Copying a directory to a place below itself never succeeds: the recursion finds its own
  copy again on every level.\<close>

theorem copy_into_itself_never_succeeds:
  assumes "os_wf s" and "canon (os_cwd s) dst = canon (os_cwd s) src @ c # rel"
  shows "\<nexists>s'. copy_dir src dst s = Some (Inr (), s')"
proof
  assume "\<exists>s'. copy_dir src dst s = Some (Inr (), s')"
  then obtain s' es s1 where o: "open_dir src dst s = (Inr es, s1)" and r: "copy_entries src dst es s1 = Some (Inr (), s')"
    by (auto simp: copy_dir_def split: prod.splits sum.splits)
  note d = open_dir_ok [OF o assms(1)]
  have wf: "fs_wf (os_fs s1)" using d(4) by (simp add: os_wf_def)
  have "lookup (os_fs s1) (canon (os_cwd s) src @ [c]) = Some FDir"
    by (rule dir_above [OF wf]) (use d(1) assms(2) in simp)
  then have "(c, True) \<in> set es" unfolding d(3) children_lookup [OF wf] by blast
  from copy_entries_into_itself [OF r d(4) this] assms(2) d(5) show False by simp
qed

theorem copy_into_itself_never_succeeds_witness: "\<nexists>s'. copy_dir ''a'' ''a/new/b'' demo_os = Some (Inr (), s')"
proof (rule copy_into_itself_never_succeeds [OF demo_os_wf(1)])
  show "canon (os_cwd demo_os) ''a/new/b'' = canon (os_cwd demo_os) ''a'' @ ''new'' # [''b'']" by code_simp
qed

section \<open>A directory copied elsewhere\<close>

definition apart :: "path \<Rightarrow> path \<Rightarrow> bool" where
  "apart p q \<longleftrightarrow> \<not> below p q \<and> \<not> below q p"

lemma apart_nodes: "apart p q \<Longrightarrow> below p r \<Longrightarrow> \<not> below q r"
  unfolding apart_def below_split by (metis append_eq_append_conv2)

lemma apart_step: "apart p q \<Longrightarrow> apart (p @ [n]) (q @ [n])"
  unfolding apart_def below_split by (metis append.assoc append_Cons append_Nil butlast_append butlast_snoc list.discI)

lemma copy_file_calm:
  assumes "calm s" and "os_wf s" and "a \<noteq> []" and "b \<noteq> []"
    and "lookup (os_fs s) (canon (os_cwd s) a) = Some (FFile c)" and "lookup (os_fs s) (canon (os_cwd s) b) = None"
    and "walk (os_fs s) (canon (os_cwd s) b) = None"
  shows "\<exists>s'. copy_file a b s = (Inr (), s') \<and> calm s'"
proof -
  let ?p = "canon (os_cwd s) a" and ?q = "canon (os_cwd s) b"
  let ?fs = "AList.update ?q (FFile []) (os_fs s)"
  have wf: "fs_wf (os_fs s)" and cwd: "list_all name_ok (os_cwd s)" using assms(2) by (simp_all add: os_wf_def)
  have q: "?q \<noteq> []" using assms(6) by auto
  have wf2: "fs_wf ?fs" by (rule wf_update [OF wf q canon_names [OF cwd] assms(7)]) (use assms(6) in simp)
  have n: "node_at (os_fs s) ?p = Inr (FFile c)" "node_at (os_fs s) ?q = Inl ENOENT" "node_at ?fs ?p = Inr (FFile c)"
      "node_at ?fs ?q = Inr (FFile [])"
    using assms(5,6,7) q by (auto simp: node_at_wf [OF wf] node_at_wf [OF wf2] node_at_Inl)
  show ?thesis
    using assms(1,3,4,7) n
    by (simp add: copy_file_def io_bind_def on_path_def io_map_error_def sys_stat_def sys_read_def sys_create_def sys_write_def
        sys_flush_def syscall_calm fs_create_def fs_read_def fs_write_def)
qed

lemma open_dir_calm:
  assumes "calm s" and "os_wf s" and "name_ok n" and "lookup (os_fs s) (canon (os_cwd s) dst) = Some FDir"
    and "lookup (os_fs s) (canon (os_cwd s) dst @ [n]) = None"
    and "a \<noteq> []" and "lookup (os_fs s) (canon (os_cwd s) a) = Some FDir"
  shows "\<exists>s1. open_dir a (go_join [dst, n]) s = (Inr (fs_children (os_fs s1) (canon (os_cwd s) a)), s1)
    \<and> calm s1 \<and> os_wf s1 \<and> os_cwd s1 = os_cwd s
    \<and> (\<forall>q. lookup (os_fs s1) q = (if q = canon (os_cwd s) dst @ [n] then Some FDir else lookup (os_fs s) q))"
proof -
  let ?B = "canon (os_cwd s) dst @ [n]"
  let ?s1 = "s\<lparr>os_fs := AList.update ?B FDir (os_fs s)\<rparr>"
  have wf: "fs_wf (os_fs s)" using assms(2) by (simp add: os_wf_def)
  have m: "go_mkdir_all (go_join [dst, n]) s = (Inr (), ?s1)" by (rule mkdir_all_calm [OF assms(1) wf assms(3-5)])
  have cwd: "list_all name_ok (os_cwd s)" using assms(2) by (simp add: os_wf_def)
  have wf1: "fs_wf (os_fs ?s1)" using mkdir_all_ok(4) [OF cwd m wf] .
  have "node_at (os_fs ?s1) (canon (os_cwd s) a) = Inr FDir"
    using assms(7) by (simp add: node_at_wf [OF wf1, simplified])
  then show ?thesis
    using wf1 cwd assms(1)
    by (intro exI [of _ ?s1])
      (simp add: open_dir_def io_bind_def m go_read_dir_def on_path_def assms(6)
        io_map_error_def sys_read_dir_def syscall_calm fs_read_dir_def os_wf_def)
qed

text \<open>The tree after a node has been copied to a free place, as a property of its lookups.\<close>

definition copied :: "path \<Rightarrow> path \<Rightarrow> (path \<Rightarrow> bool) \<Rightarrow> fsys \<Rightarrow> fsys \<Rightarrow> bool" where
  "copied p q S fs fs' \<longleftrightarrow>
     (\<forall>r. lookup fs' r = (if S r then lookup fs (p @ drop (length q) r) else lookup fs r))"

definition entries_below :: "path \<Rightarrow> (string \<times> bool) list \<Rightarrow> path \<Rightarrow> bool" where
  "entries_below q es r \<longleftrightarrow> (\<exists>e \<in> set es. below (q @ [fst e]) r)"

lemma copied_entry:
  assumes wf: "fs_wf fs" and "lookup fs (q @ [n]) = None"
    and l: "\<And>r. lookup fs' r = (if r = q @ [n] then lookup fs (p @ [n]) else lookup fs r)"
    and leaf: "\<And>x. x \<noteq> [] \<Longrightarrow> lookup fs (p @ n # x) = None"
  shows "copied p q (below (q @ [n])) fs fs'"
  unfolding copied_def
proof
  fix r
  show "lookup fs' r = (if below (q @ [n]) r then lookup fs (p @ drop (length q) r) else lookup fs r)"
  proof (cases "below (q @ [n]) r")
    case True
    then obtain x where r: "r = q @ n # x" by (auto simp: below_split)
    show ?thesis
    proof (cases "x = []")
      case False
      with none_below [OF wf, of "q @ [n]" _ x] assms(2) leaf r l show ?thesis by simp
    qed (use r l in simp)
  next
    case False
    then show ?thesis using l [of r] by auto
  qed
qed

lemma copied_dir:
  assumes wf: "fs_wf fs" and "lookup fs q = None" and "apart p q" and d: "lookup fs p = Some FDir"
    and l: "\<And>r. lookup fs1 r = (if r = q then Some FDir else lookup fs r)" and wf1: "fs_wf fs1"
    and c: "copied p q (entries_below q (fs_children fs1 p)) fs1 fs'"
  shows "copied p q (below q) fs fs'"
  unfolding copied_def
proof
  fix r
  have A: "lookup fs1 (p @ x) = lookup fs (p @ x)" for x
    using l apart_nodes [OF assms(3), of "p @ x"] by (auto simp: below_split)
  show "lookup fs' r = (if below q r then lookup fs (p @ drop (length q) r) else lookup fs r)"
  proof (cases "below q r")
    case True
    then obtain x where r: "r = q @ x" by (auto simp: below_split)
    show ?thesis
    proof (cases x)
      case Nil
      then have "\<not> entries_below q es r" for es using r by (auto simp: entries_below_def below_split)
      with c l r Nil d True show ?thesis by (simp add: copied_def)
    next
      case (Cons m y)
      show ?thesis
      proof (cases "entries_below q (fs_children fs1 p) r")
        case e: True
        with c r True A show ?thesis by (simp add: copied_def)
      next
        case e: False
        then have "(m, b) \<notin> set (fs_children fs1 p)" for b
          using r Cons by (force simp: entries_below_def below_split)
        then have "lookup fs1 (p @ [m]) = None" unfolding children_lookup [OF wf1] by (metis not_None_eq)
        then have "lookup fs (p @ m # y) = None"
          using none_below [OF wf, of "p @ [m]" _ y] A [of "[m]"] by (cases "y = []") auto
        moreover have "lookup fs' r = lookup fs r" using c e l r Cons by (simp add: copied_def)
        ultimately show ?thesis using none_below [OF wf, of q _ "m # y"] assms(2) r Cons True by simp
      qed
    qed
  next
    case False
    then have "\<not> entries_below q es r" for es by (auto simp: entries_below_def below_split)
    with c l [of r] False show ?thesis by (auto simp: copied_def)
  qed
qed

lemma copied_down: "copied (p @ [n]) (q @ [n]) (below (q @ [n])) fs fs' \<Longrightarrow> copied p q (below (q @ [n])) fs fs'"
  by (auto simp: copied_def below_split)

lemma copied_rest:
  assumes "apart p q" and "copied p q (below (q @ [n])) fs fs1" and "copied p q (entries_below q es) fs1 fs'"
  shows "copied p q (entries_below q ((n, b) # es)) fs fs'"
  unfolding copied_def
proof
  fix r
  have "\<not> below (q @ [n]) (p @ x)" for x
    using apart_nodes [OF assms(1), of "p @ x"] by (auto simp: below_split)
  then have "lookup fs1 (p @ x) = lookup fs (p @ x)" for x using assms(2) by (simp add: copied_def)
  then show "lookup fs' r = (if entries_below q ((n, b) # es) r then lookup fs (p @ drop (length q) r) else lookup fs r)"
    using assms(2,3) by (auto simp: copied_def entries_below_def)
qed

text \<open>What holds before the entries \<open>es\<close> are copied from \<open>p\<close> to \<open>q\<close>, \<open>h\<close> bounding the depth below \<open>p\<close>.\<close>

definition copy_ready :: "nat \<Rightarrow> path \<Rightarrow> path \<Rightarrow> (string \<times> bool) list \<Rightarrow> os \<Rightarrow> bool" where
  "copy_ready h p q es s \<longleftrightarrow>
     calm s \<and> os_wf s \<and> apart p q \<and> lookup (os_fs s) q = Some FDir \<and> distinct (map fst es) \<and>
     (\<forall>(n, b) \<in> set es. (\<exists>m. lookup (os_fs s) (p @ [n]) = Some m \<and> b = (m = FDir)) \<and> lookup (os_fs s) (q @ [n]) = None) \<and>
     (\<forall>x. lookup (os_fs s) (p @ x) \<noteq> None \<longrightarrow> length x \<le> h)"

lemma copy_ready_rest:
  assumes "copy_ready h p q ((n, b) # es) s" and "calm s1" and "os_wf s1" and "copied p q (below (q @ [n])) (os_fs s) (os_fs s1)"
  shows "copy_ready h p q es s1"
proof -
  have ap: "apart p q" using assms(1) by (simp add: copy_ready_def)
  have p: "lookup (os_fs s1) (p @ x) = lookup (os_fs s) (p @ x)" for x
    using assms(4) apart_nodes [OF ap, of "p @ x"] by (auto simp: copied_def below_split)
  have q: "lookup (os_fs s1) q = lookup (os_fs s) q"
      "m \<noteq> n \<Longrightarrow> lookup (os_fs s1) (q @ [m]) = lookup (os_fs s) (q @ [m])" for m
    using assms(4) by (auto simp: copied_def below_split)
  have "m \<noteq> n" if "(m, c) \<in> set es" for m c
    using that assms(1) by (force simp: copy_ready_def)
  then have "(\<exists>k. lookup (os_fs s1) (p @ [m]) = Some k \<and> c = (k = FDir)) \<and> lookup (os_fs s1) (q @ [m]) = None"
    if "(m, c) \<in> set es" for m c
    using that assms(1) unfolding p by (auto simp: copy_ready_def q(2))
  moreover have "distinct (map fst es)" "lookup (os_fs s) q = Some FDir" "\<forall>x. lookup (os_fs s) (p @ x) \<noteq> None \<longrightarrow> length x \<le> h"
    using assms(1) by (simp_all add: copy_ready_def)
  ultimately show ?thesis using assms(2,3) ap unfolding copy_ready_def p q(1) by blast
qed

lemma copy_entries_total:
  "copy_ready h (canon (os_cwd s) src) (canon (os_cwd s) dst) es s \<Longrightarrow>
     \<exists>s'. copy_entries src dst es s = Some (Inr (), s') \<and> calm s' \<and> os_wf s' \<and> os_cwd s' = os_cwd s \<and>
       copied (canon (os_cwd s) src) (canon (os_cwd s) dst) (entries_below (canon (os_cwd s) dst) es) (os_fs s) (os_fs s')"
proof (induction h arbitrary: src dst es s)
  case 0
  then have "es = []" by (cases es) (auto simp: copy_ready_def)
  with 0 show ?case by (subst copy_entries.simps) (simp add: copy_ready_def copied_def entries_below_def)
next
  case (Suc h)
  note deeper = Suc.IH
  from Suc.prems show ?case
  proof (induction es arbitrary: s)
    case Nil
    then show ?case by (subst copy_entries.simps) (simp add: copy_ready_def copied_def entries_below_def)
  next
    case (Cons e es)
    obtain n b where e: "e = (n, b)" by (cases e)
    let ?p = "canon (os_cwd s) src" and ?q = "canon (os_cwd s) dst"
    note ready = Cons.prems [unfolded e]
    from ready obtain m where pre: "calm s" "os_wf s" "apart ?p ?q" "lookup (os_fs s) ?q = Some FDir"
      and m: "lookup (os_fs s) (?p @ [n]) = Some m" "b = (m = FDir)" "lookup (os_fs s) (?q @ [n]) = None"
      by (auto simp: copy_ready_def)
    have wf: "fs_wf (os_fs s)" using pre(2) by (simp add: os_wf_def)
    have n: "name_ok n" using fs_wf_walk(2) [OF wf m(1)] by simp
    note cj = canon_join [OF n, of "os_cwd s"]
    have "\<exists>s1. copy_entries src dst ((n, b) # es) s = copy_entries src dst es s1 \<and> calm s1 \<and> os_wf s1 \<and> os_cwd s1 = os_cwd s
        \<and> copied ?p ?q (below (?q @ [n])) (os_fs s) (os_fs s1)"
    proof (cases m)
      case (FFile c)
      have w: "walk (os_fs s) (?q @ [n]) = None"
        using fs_wf_walk(1) [OF wf pre(4)] pre(4) by (auto simp: walk_None nth_append less_Suc_eq)
      obtain s1 where s1: "copy_file (go_join [src, n]) (go_join [dst, n]) s = (Inr (), s1)" "calm s1"
      proof -
        have "\<exists>s1. copy_file (go_join [src, n]) (go_join [dst, n]) s = (Inr (), s1) \<and> calm s1"
          by (rule copy_file_calm [OF pre(1,2) join_not_empty [OF n] join_not_empty [OF n], where c = c])
            (use m FFile w in \<open>simp_all add: cj\<close>)
        with that show thesis by blast
      qed
      note c = copy_file_ok [OF s1(1), unfolded cj]
      have ne: "?p @ [n] \<noteq> ?q @ [n]" using pre(3) by (auto simp: apart_def)
      from io_relD [OF copy_file_keeps refl s1(1)] pre(2) have k: "os_wf s1" "os_cwd s1 = os_cwd s"
        by (simp_all add: os_wf_def wf_kept_def)
      have "copied ?p ?q (below (?q @ [n])) (os_fs s) (os_fs s1)"
      proof (rule copied_entry [OF wf m(3)])
        show "lookup (os_fs s1) r = (if r = ?q @ [n] then lookup (os_fs s) (?p @ [n]) else lookup (os_fs s) r)" for r
          using c(2,4) ne by (auto simp: same_on_def)
        show "lookup (os_fs s) (?p @ n # x) = None" if "x \<noteq> []" for x
          using none_below [OF wf, of "?p @ [n]" c x] m(1) FFile that
          by (metis append.assoc append_Cons append_Nil none_below [OF wf])
      qed
      moreover have "copy_entries src dst ((n, b) # es) s = copy_entries src dst es s1"
        using m(2) FFile s1(1) by (subst copy_entries.simps) simp
      ultimately show ?thesis using s1(2) k by blast
    next
      case FDir
      from open_dir_calm [OF pre(1,2) n pre(4) m(3) join_not_empty [OF n], of src, unfolded cj] m(1) FDir obtain s1 where
        o: "open_dir (go_join [src, n]) (go_join [dst, n]) s = (Inr (fs_children (os_fs s1) (?p @ [n])), s1)"
        and k: "calm s1" "os_wf s1" "os_cwd s1 = os_cwd s"
        and l: "\<And>r. lookup (os_fs s1) r = (if r = ?q @ [n] then Some FDir else lookup (os_fs s) r)" by blast
      have wf1: "fs_wf (os_fs s1)" using k(2) by (simp add: os_wf_def)
      have P: "lookup (os_fs s1) (?p @ x) = lookup (os_fs s) (?p @ x)" for x
        using l apart_nodes [OF pre(3), of "?p @ x"] by (auto simp: below_split)
      have free: "lookup (os_fs s1) ((?q @ [n]) @ x) = None" if "x \<noteq> []" for x
        using none_below [OF wf _ that, of "?q @ [n]"] m(3) l that by simp
      have "copy_ready h (?p @ [n]) (?q @ [n]) (fs_children (os_fs s1) (?p @ [n])) s1"
        unfolding copy_ready_def
      proof (intro conjI)
        show "\<forall>(n', b) \<in> set (fs_children (os_fs s1) (?p @ [n])).
            (\<exists>m. lookup (os_fs s1) ((?p @ [n]) @ [n']) = Some m \<and> b = (m = FDir)) \<and> lookup (os_fs s1) ((?q @ [n]) @ [n']) = None"
          using free by (auto simp: children_lookup [OF wf1] simp del: append_assoc)
        show "\<forall>x. lookup (os_fs s1) ((?p @ [n]) @ x) \<noteq> None \<longrightarrow> length x \<le> h"
          using ready P by (fastforce simp: copy_ready_def)
        show "distinct (map fst (fs_children (os_fs s1) (?p @ [n])))" by (rule children_names(1) [OF wf1])
      qed (use k apart_step [OF pre(3)] l in auto)
      from deeper [of s1 "go_join [src, n]" "go_join [dst, n]", unfolded k(3) cj, OF this] obtain s2 where
        r: "copy_entries (go_join [src, n]) (go_join [dst, n]) (fs_children (os_fs s1) (?p @ [n])) s1 = Some (Inr (), s2)"
        and k2: "calm s2" "os_wf s2" "os_cwd s2 = os_cwd s"
        and c: "copied (?p @ [n]) (?q @ [n]) (entries_below (?q @ [n]) (fs_children (os_fs s1) (?p @ [n]))) (os_fs s1) (os_fs s2)"
        by blast
      have "copied ?p ?q (below (?q @ [n])) (os_fs s) (os_fs s2)"
        by (rule copied_down [OF copied_dir [OF wf m(3) apart_step [OF pre(3)] m(1) [unfolded FDir] l wf1 c]])
      moreover have "copy_entries src dst ((n, b) # es) s = copy_entries src dst es s2"
        using m(2) FDir o r by (subst copy_entries.simps) simp
      ultimately show ?thesis using k2 by blast
    qed
    then obtain s1 where s1: "copy_entries src dst ((n, b) # es) s = copy_entries src dst es s1" "calm s1" "os_wf s1"
      "os_cwd s1 = os_cwd s" "copied ?p ?q (below (?q @ [n])) (os_fs s) (os_fs s1)" by blast
    from Cons.IH [of s1, unfolded s1(4), OF copy_ready_rest [OF ready s1(2,3,5)]] obtain s' where
      s': "copy_entries src dst es s1 = Some (Inr (), s')" "calm s'" "os_wf s'" "os_cwd s' = os_cwd s"
      "copied ?p ?q (entries_below ?q es) (os_fs s1) (os_fs s')" by blast
    from copied_rest [OF pre(3) s1(5) s'(5)] s' s1(1) show ?case unfolding e by auto
  qed
qed

text \<open>C37. On a file system without faults, dir\_copy of a directory to a free name in another place returns, reports
  success, and leaves below the destination exactly the files and directories that are below the source, and
  everything else as it was.\<close>

theorem dir_copy_copies:
  assumes "calm s" and "os_wf s" and "arg d ''source'' = Inr src" and "arg d ''destination'' = Inr (go_join [e, n])" and "\<not> move_arg d"
    and "src \<noteq> []" and "name_ok n" and "lookup (os_fs s) (canon (os_cwd s) src) = Some FDir"
    and "lookup (os_fs s) (canon (os_cwd s) e) = Some FDir" and "lookup (os_fs s) (canon (os_cwd s) e @ [n]) = None"
    and "apart (canon (os_cwd s) src) (canon (os_cwd s) e @ [n])"
  shows "\<exists>s'. dir_copy_execute d s = Some (s', success_result (tcd_id d) ''dir_copy'' (copy_outputs src (go_join [e, n]) False))
    \<and> os_wf s' \<and> (\<forall>r. lookup (os_fs s') r =
         (if below (canon (os_cwd s) e @ [n]) r
          then lookup (os_fs s) (canon (os_cwd s) src @ drop (length (canon (os_cwd s) e @ [n])) r)
          else lookup (os_fs s) r))"
proof -
  let ?p = "canon (os_cwd s) src" and ?q = "canon (os_cwd s) e @ [n]"
  note cj = canon_join [OF assms(7), of "os_cwd s"]
  from open_dir_calm [OF assms(1,2,7,9,10,6,8)] obtain s1 where
    o: "open_dir src (go_join [e, n]) s = (Inr (fs_children (os_fs s1) ?p), s1)"
    and k: "calm s1" "os_wf s1" "os_cwd s1 = os_cwd s"
    and l: "\<And>r. lookup (os_fs s1) r = (if r = ?q then Some FDir else lookup (os_fs s) r)" by blast
  have wf: "fs_wf (os_fs s)" and wf1: "fs_wf (os_fs s1)" using assms(2) k(2) by (simp_all add: os_wf_def)
  have P: "lookup (os_fs s1) (?p @ x) = lookup (os_fs s) (?p @ x)" for x
    using l [of "?p @ x"] apart_nodes [OF assms(11), of "?p @ x"] by (auto simp: below_split)
  have Q: "lookup (os_fs s) (?q @ x) = None" for x
    using none_below [OF wf, of ?q _ x] assms(10) by (cases "x = []") auto
  obtain h where "\<forall>r \<in> set fs. length (fst r) \<le> h" if "fs = os_fs s1" for fs
    using finite_nat_set_iff_bounded_le [of "(length \<circ> fst) ` set (os_fs s1)"] by auto
  then have h: "length r \<le> h" if "lookup (os_fs s1) r \<noteq> None" for r
    using that wf1 by (cases "r = []") (force simp: fs_wf_entry)+
  have "copy_ready h ?p ?q (fs_children (os_fs s1) ?p) s1"
    unfolding copy_ready_def
  proof (intro conjI)
    show "\<forall>(n', b) \<in> set (fs_children (os_fs s1) ?p).
        (\<exists>m. lookup (os_fs s1) (?p @ [n']) = Some m \<and> b = (m = FDir)) \<and> lookup (os_fs s1) (?q @ [n']) = None"
      using Q l by (auto simp: children_lookup [OF wf1])
    show "\<forall>x. lookup (os_fs s1) (?p @ x) \<noteq> None \<longrightarrow> length x \<le> h" using h by fastforce
    show "distinct (map fst (fs_children (os_fs s1) ?p))" by (rule children_names(1) [OF wf1])
  qed (use k assms(11) l in auto)
  from copy_entries_total [of h s1 src "go_join [e, n]", unfolded k(3) cj, OF this] obtain s' where
    r: "copy_entries src (go_join [e, n]) (fs_children (os_fs s1) ?p) s1 = Some (Inr (), s')" and "os_wf s'"
    and c: "copied ?p ?q (entries_below ?q (fs_children (os_fs s1) ?p)) (os_fs s1) (os_fs s')" by blast
  from copied_dir [OF wf assms(10,11,8) l wf1 c]
  have "lookup (os_fs s') r = (if below ?q r then lookup (os_fs s) (?p @ drop (length ?q) r) else lookup (os_fs s) r)" for r
    unfolding copied_def by blast
  with \<open>os_wf s'\<close> show ?thesis
    using assms(3-5) by (auto simp: dir_copy_execute_def dir_copy_io_def copy_dir_def o r)
qed

theorem dir_copy_copies_witness:
  "\<exists>s'. dir_copy_execute (demo_call [(''source'', VStr ''a''), (''destination'', VStr ''b'')]) demo_os
      = Some (s', success_result ''c'' ''dir_copy'' (copy_outputs ''a'' ''b'' False))
    \<and> lookup (os_fs s') [''w'', ''b'', ''f''] = Some (FFile ''hi'')"
proof -
  let ?d = "demo_call [(''source'', VStr ''a''), (''destination'', VStr ''b'')]"
  have j: "go_join [[], ''b''] = ''b''" by code_simp
  have h: "arg ?d ''source'' = Inr ''a''" "arg ?d ''destination'' = Inr (go_join [[], ''b''])" "\<not> move_arg ?d" "''a'' \<noteq> []"
    "name_ok ''b''" "lookup (os_fs demo_os) (canon (os_cwd demo_os) ''a'') = Some FDir"
    "lookup (os_fs demo_os) (canon (os_cwd demo_os) []) = Some FDir"
    "lookup (os_fs demo_os) (canon (os_cwd demo_os) [] @ [''b'']) = None"
    "apart (canon (os_cwd demo_os) ''a'') (canon (os_cwd demo_os) [] @ [''b''])"
    by code_simp+
  from dir_copy_copies [OF demo_os_wf(2,1) h, unfolded j] obtain s' where
    "dir_copy_execute ?d demo_os = Some (s', success_result ''c'' ''dir_copy'' (copy_outputs ''a'' ''b'' False))"
    and l: "\<And>r. lookup (os_fs s') r = (if below (canon (os_cwd demo_os) [] @ [''b'']) r
          then lookup (os_fs demo_os) (canon (os_cwd demo_os) ''a'' @ drop (length (canon (os_cwd demo_os) [] @ [''b''])) r)
          else lookup (os_fs demo_os) r)" by auto
  moreover have "(if below (canon (os_cwd demo_os) [] @ [''b'']) [''w'', ''b'', ''f'']
          then lookup (os_fs demo_os) (canon (os_cwd demo_os) ''a'' @ drop (length (canon (os_cwd demo_os) [] @ [''b''])) [''w'', ''b'', ''f''])
          else lookup (os_fs demo_os) [''w'', ''b'', ''f'']) = Some (FFile ''hi'')" by code_simp
  ultimately show ?thesis by (metis l)
qed

section \<open>The tools keep the tree well formed\<close>

lemma go_ops_keep:
  assumes cwd: "list_all name_ok cwd"
  shows "io_rel wf_kept cwd (go_write_file p c)" "io_rel wf_kept cwd (go_remove p)"
    "io_rel wf_kept cwd (go_rename p q)" "io_rel wf_kept cwd (go_remove_all p)"
proof -
  note R = tree_relations(1) [OF cwd]
  note nm = canon_names [OF cwd]
  show "io_rel wf_kept cwd (go_write_file p c)"
    by (rule tree_relation.rel_write_file [OF R]) (use wf_create wf_write nm in \<open>auto simp: wf_kept_def\<close>)
  show "io_rel wf_kept cwd (go_remove p)"
    unfolding go_remove_def sys_remove_def
    by (rule tree_relation.rel_on_path [OF R], rule tree_relation.rel_syscall [OF R]) (auto simp: wf_kept_def wf_remove)
  have "io_rel wf_kept cwd (sys_rename a (canon cwd q))" for a
    unfolding sys_rename_def by (rule tree_relation.rel_syscall [OF R]) (use wf_rename nm in \<open>auto simp: wf_kept_def\<close>)
  then have "io_rel wf_kept cwd (io_map_error g (sys_rename a (canon cwd q)))" for g :: "errno \<Rightarrow> os_error" and a
    by (rule tree_relation.rel_map_error [OF R])
  then show "io_rel wf_kept cwd (go_rename p q)"
    by (simp add: io_rel_def go_rename_def tree_relation.refl [OF R])
  show "io_rel wf_kept cwd (go_remove_all p)"
    unfolding go_remove_all_def sys_remove_all_def
    by (auto intro!: tree_relation.rel_return [OF R] tree_relation.rel_on_path [OF R] tree_relation.rel_syscall [OF R]
        simp: wf_kept_def wf_remove_all)
qed

lemma dir_copy_state:
  assumes "dir_copy_execute d s = Some r"
  shows "fst r = s \<or> (\<exists>a b mv x. dir_copy_io a b mv s = Some x \<and> fst r = snd x)"
proof (cases "arg d ''source''")
  case (Inr src)
  note src = this
  show ?thesis
  proof (cases "arg d ''destination''")
    case (Inr dst)
    with assms src obtain x where x: "dir_copy_io src dst (move_arg d) s = Some x"
      by (cases "dir_copy_io src dst (move_arg d) s") (auto simp: dir_copy_execute_def)
    with assms src Inr have "fst r = snd x" by (cases "fst x") (auto simp: dir_copy_execute_def)
    with x show ?thesis by blast
  qed (use assms src in \<open>auto simp: dir_copy_execute_def\<close>)
qed (use assms in \<open>auto simp: dir_copy_execute_def\<close>)

lemma tool_io_wf:
  assumes "io_rel wf_kept (os_cwd s) m" and "os_wf s"
  shows "os_wf (fst (tool_io i tool m s))"
proof -
  obtain r s' where m: "m s = (r, s')" by (cases "m s")
  from io_relD [OF assms(1) refl m] assms(2) show ?thesis
    by (auto simp: tool_io_def m os_wf_def wf_kept_def split: sum.split)
qed

lemma io_keeps_wf:
  assumes "m s1 = (r, s2)" and "os_wf s1" and "\<And>cwd. list_all name_ok cwd \<Longrightarrow> io_rel wf_kept cwd m"
  shows "os_wf s2"
  using io_relD [OF assms(3) refl assms(1)] assms(2) by (simp add: os_wf_def wf_kept_def)

lemma copy_dir_wf:
  assumes "copy_dir a b s1 = Some (r, s2)" and "os_wf s1"
  shows "os_wf s2"
proof -
  obtain q s0 where o: "open_dir a b s1 = (q, s0)" by (cases "open_dir a b s1")
  have "os_wf s0" using io_relD [OF open_dir_keeps refl o] assms(2) by (simp add: os_wf_def wf_kept_def)
  then show ?thesis using assms(1) copy_entries_wf by (cases q) (force simp: copy_dir_def o)+
qed

text \<open>After a failed rename the copy, and after a successful copy the removal of the source, keep the tree.\<close>

lemma move_fallback_wf:
  assumes "Option.bind (copy_dir a b s1) (\<lambda>x. case fst x of
      Inl e \<Rightarrow> Some (Inl e, snd x) | Inr _ \<Rightarrow> Some (io_map_error remove_source_error (go_remove_all a) (snd x))) = Some r"
    and "os_wf s1"
  shows "os_wf (snd r)"
proof -
  from assms(1) obtain q2 s2 where c: "copy_dir a b s1 = Some (q2, s2)" by (cases "copy_dir a b s1") auto
  have w2: "os_wf s2" by (rule copy_dir_wf [OF c assms(2)])
  show ?thesis
  proof (cases q2)
    case (Inr x)
    with assms(1) c have "io_map_error remove_source_error (go_remove_all a) s2 = (fst r, snd r)" by simp
    then show ?thesis
      by (rule io_keeps_wf [OF _ w2]) (rule tree_relation.rel_map_error [OF tree_relations(1) go_ops_keep(4)])
  qed (use assms(1) c w2 in auto)
qed

lemma dir_copy_io_wf:
  assumes r: "dir_copy_io a b mv s = Some r" and s: "os_wf s"
  shows "os_wf (snd r)"
proof -
  obtain q s1 where m: "go_rename a b s = (q, s1)" by (cases "go_rename a b s")
  have w1: "os_wf s1" by (rule io_keeps_wf [OF m s go_ops_keep(3)])
  show ?thesis
  proof (cases mv)
    case False
    with r copy_dir_wf [of a b s "fst r" "snd r"] s show ?thesis by (simp add: dir_copy_io_def)
  next
    case True
    show ?thesis
    proof (cases q)
      case (Inr u)
      with r True m w1 show ?thesis by (auto simp: dir_copy_io_def)
    next
      case (Inl er)
      show ?thesis
        by (rule move_fallback_wf [OF _ w1]) (use r True m Inl in \<open>simp add: dir_copy_io_def case_prod_beta\<close>)
    qed
  qed
qed



end
