(* ===== verification/ShellTool.thy ===== *)
theory ShellTool
  imports Registry Schema
begin

text \<open>
  The shell tool (tools/internals/shell\_exec.go).  Running a command is an argument: what the command did, given
  the command, the directory and the timeout in seconds.
\<close>

definition shell_exec_definition :: tool_definition where
  "shell_exec_definition =
     \<lparr>td_name = ''shell_exec'',
      td_description =
      (''Execute a shell command and return the output. Supports optional cwd and timeout '' @
      ''(seconds, default 30). Max output: 4000 chars each for stdout/stderr.''),
      td_schema =
      [(''type'', VStr ''object''),
       (''properties'', VMap [
          (''command'', field ''string'' ''Shell command to execute''),
          (''cwd'', field ''string'' ''Working directory for the command (optional)''),
          (''timeout'', field ''integer'' ''Timeout in seconds (optional, default 30, max 120)'')]),
       (''required'', VList [VStr ''command''])],
      td_output_schema =
      [(''type'', VStr ''object''),
       (''properties'', VMap [
          (''stdout'', field ''string'' ''Standard output''),
          (''stderr'', field ''string'' ''Standard error''),
          (''exit_code'', field ''integer'' ''Exit code (0 = success)'')])],
      td_terminating = False\<rparr>"


section \<open>Runes\<close>

text \<open>
  The first rune of a non-empty string, as \<open>[]rune(s)\<close> decodes it: its bytes, or the encoding of U+FFFD for one byte
  that begins no valid encoding.  \<open>lead\<close> gives the length of an encoding and the range of its second byte.
\<close>

definition lead :: "nat \<Rightarrow> (nat \<times> nat \<times> nat) option" where
  "lead n =
     (if n < 128 then Some (1, 0, 0)
      else if n < 194 then None
      else if n < 224 then Some (2, 128, 191)
      else if n = 224 then Some (3, 160, 191)
      else if n = 237 then Some (3, 128, 159)
      else if n < 240 then Some (3, 128, 191)
      else if n = 240 then Some (4, 144, 191)
      else if n < 244 then Some (4, 128, 191)
      else if n = 244 then Some (4, 128, 143)
      else None)"

definition in_range :: "nat \<Rightarrow> nat \<Rightarrow> char \<Rightarrow> bool" where
  "in_range lo hi c = (lo \<le> of_char c \<and> of_char c \<le> hi)"

definition rune_length :: "string \<Rightarrow> nat option" where
  "rune_length s =
     (case s of
        [] \<Rightarrow> None
      | c # r \<Rightarrow>
          (case lead (of_char c) of
             None \<Rightarrow> None
           | Some (n, lo, hi) \<Rightarrow>
               if n = 1 then Some 1
               else if length s \<ge> n \<and> in_range lo hi (hd r) \<and> list_all (in_range 128 191) (take (n - 2) (tl r))
               then Some n else None))"

definition replacement :: string where "replacement = [CHR 0xEF, CHR 0xBF, CHR 0xBD]"

lemma rune_length_bounds: "rune_length s = Some n \<Longrightarrow> 1 \<le> n \<and> n \<le> length s"
  by (auto simp: rune_length_def lead_def split: list.splits option.splits if_splits)

function runes :: "string \<Rightarrow> string list" where
  "runes s =
     (case s of
        [] \<Rightarrow> []
      | c # r \<Rightarrow> (case rune_length s of Some n \<Rightarrow> take n s # runes (drop n s) | None \<Rightarrow> replacement # runes r))"
  by pat_completeness auto

termination
  by (relation "measure length") (auto dest: rune_length_bounds)

declare runes.simps [simp del]

definition truncate_string :: "string \<Rightarrow> nat \<Rightarrow> string" where
  "truncate_string s max_len =
     (if length (runes s) \<le> max_len then s
      else concat (take max_len (runes s)) @ nl @ ''... (truncated, '' @ nat_dec (length (runes s)) @ '' total chars)'')"

section \<open>shell\_exec\<close>

datatype shell_outcome =
    Exited int string string
  | TimedOut
  | CommandCancelled string
  | NotStarted err

type_synonym 'w shell = "string \<Rightarrow> string \<Rightarrow> int \<Rightarrow> 'w \<Rightarrow> shell_outcome \<times> 'w"

definition shell_timeout :: "int \<Rightarrow> int" where
  "shell_timeout t =
     (if t \<noteq> 30 then (let t1 = (if t < 1 then 1 else t) in if t1 > 120 then 120 else t1) else 30)"

text \<open>\<open>%v\<close> of a duration of whole seconds.\<close>

definition duration_text :: "int \<Rightarrow> string" where
  "duration_text t =
     (if t < 60 then int_dec t @ ''s'' else int_dec (t div 60) @ ''m'' @ int_dec (t mod 60) @ ''s'')"

definition shell_exec_execute :: "'w shell \<Rightarrow> tool_call_detail \<Rightarrow> 'w \<Rightarrow> 'w \<times> tool_call_result" where
  "shell_exec_execute shell d w =
     (case arg d ''command'' of
        Inl e \<Rightarrow> (w, error_result (tcd_id d) ''shell_exec'' e)
      | Inr command \<Rightarrow>
          (case optional_string_err d ''cwd'' of
             Inl e \<Rightarrow> (w, error_result (tcd_id d) ''shell_exec'' e)
           | Inr cwd \<Rightarrow>
               (case optional_int d ''timeout'' 30 of
                  Inl e \<Rightarrow> (w, error_result (tcd_id d) ''shell_exec'' e)
                | Inr sec \<Rightarrow>
                    (case shell command cwd (shell_timeout sec) w of
                       (TimedOut, w') \<Rightarrow>
                         (w', error_result (tcd_id d) ''shell_exec''
                            (ErrOther (''command timed out after '' @ duration_text (shell_timeout sec))))
                     | (CommandCancelled why, w') \<Rightarrow>
                         (w', error_result (tcd_id d) ''shell_exec'' (ErrOther (''command cancelled: '' @ why)))
                     | (NotStarted e, w') \<Rightarrow> (w', error_result (tcd_id d) ''shell_exec'' e)
                     | (Exited code out err, w') \<Rightarrow>
                         (w', success_result (tcd_id d) ''shell_exec''
                            [(''stdout'', VStr (truncate_string (go_trim_space out) 4000)),
                             (''stderr'', VStr (truncate_string (go_trim_space err) 4000)),
                             (''exit_code'', VInt code)])))))"

section \<open>What the output keeps\<close>

lemma timeout_in_range: "1 \<le> shell_timeout t \<and> shell_timeout t \<le> 120 \<and> (1 \<le> t \<and> t \<le> 120 \<longrightarrow> shell_timeout t = t)"
  by (simp add: shell_timeout_def Let_def)

text \<open>A text of valid encodings is the concatenation of its runes, so a short output is unchanged and a long one
  keeps its first runes.\<close>

definition valid_rune :: "string \<Rightarrow> bool" where
  "valid_rune r \<longleftrightarrow> rune_length r = Some (length r)"

lemma rune_length_append: "valid_rune r \<Longrightarrow> rune_length (r @ s) = Some (length r)"
proof -
  assume v: "valid_rune r"
  then have len: "rune_length r = Some (length r)" by (simp add: valid_rune_def)
  then obtain c t where r: "r = c # t" by (cases r) (auto simp: rune_length_def)
  from len r obtain n lo hi where l: "lead (of_char c) = Some (n, lo, hi)" "n = length r"
    by (auto simp: rune_length_def split: option.splits if_splits)
  show ?thesis
  proof (cases "n = 1")
    case False
    then obtain c2 t2 where t: "t = c2 # t2" using l(2) r by (cases t) auto
    with len r l False show ?thesis by (auto simp: rune_length_def split: if_splits)
  qed (use l r in \<open>simp add: rune_length_def\<close>)
qed

lemma runes_concat: "list_all valid_rune rs \<Longrightarrow> runes (concat rs) = rs"
proof (induction rs)
  case (Cons r rs)
  then have v: "valid_rune r" "runes (concat rs) = rs" by simp_all
  then obtain c t where "r = c # t" by (cases r) (auto simp: valid_rune_def rune_length_def)
  with v rune_length_append [OF v(1), of "concat rs"] show ?case by (subst runes.simps) simp
qed (simp add: runes.simps)

lemma truncate_string_runes:
  assumes "list_all valid_rune rs"
  shows "truncate_string (concat rs) n =
    (if length rs \<le> n then concat rs
     else concat (take n rs) @ nl @ ''... (truncated, '' @ nat_dec (length rs) @ '' total chars)'')"
  by (simp add: truncate_string_def runes_concat [OF assms])

text \<open>A timeout is an error, and a command that ends with a failure is not.\<close>

lemma shell_results:
  assumes "shell_exec_execute shell d w = (w', r)" and "\<not> is_error r"
  shows "\<exists>command cwd sec out err code. shell command cwd (shell_timeout sec) w = (Exited code out err, w') \<and>
    r = success_result (tcd_id d) ''shell_exec''
      [(''stdout'', VStr (truncate_string (go_trim_space out) 4000)),
       (''stderr'', VStr (truncate_string (go_trim_space err) 4000)), (''exit_code'', VInt code)]"
  using assms by (auto simp: shell_exec_execute_def split: sum.splits prod.splits shell_outcome.splits) blast

end
