(* ===== verification/UrlEscape.thy ===== *)
theory UrlEscape
  imports Types
begin

text \<open>\<open>url.QueryEscape\<close> and \<open>url.QueryUnescape\<close> of Go's net/url, byte by byte.\<close>

definition unreserved :: "char \<Rightarrow> bool" where
  "unreserved c =
     (let n = of_char c :: nat in
      48 \<le> n \<and> n \<le> 57 \<or> 65 \<le> n \<and> n \<le> 90 \<or> 97 \<le> n \<and> n \<le> 122 \<or> c \<in> set ''-_.~'')"

definition hex_upper :: "nat \<Rightarrow> char" where
  "hex_upper d = (if d < 10 then char_of (48 + d) else char_of (55 + d))"

definition hex_value :: "char \<Rightarrow> nat option" where
  "hex_value c =
     (let n = of_char c :: nat in
      if 48 \<le> n \<and> n \<le> 57 then Some (n - 48) else if 65 \<le> n \<and> n \<le> 70 then Some (n - 55)
      else if 97 \<le> n \<and> n \<le> 102 then Some (n - 87) else None)"

definition escape_byte :: "char \<Rightarrow> string" where
  "escape_byte c =
     (if c = CHR '' '' then ''+'' else if unreserved c then [c]
      else (let n = of_char c :: nat in [CHR ''%'', hex_upper (n div 16), hex_upper (n mod 16)]))"

definition query_escape :: "string \<Rightarrow> string" where
  "query_escape s = concat (map escape_byte s)"

fun query_unescape :: "string \<Rightarrow> string option" where
  "query_unescape [] = Some []"
| "query_unescape (c # s) =
     (if c = CHR ''%'' then
        (case s of
           h # l # s' \<Rightarrow>
             (case (hex_value h, hex_value l) of
                (Some a, Some b) \<Rightarrow> map_option (Cons (char_of (16 * a + b))) (query_unescape s')
              | _ \<Rightarrow> None)
         | _ \<Rightarrow> None)
      else map_option (Cons (if c = CHR ''+'' then CHR '' '' else c)) (query_unescape s))"

lemma hex_value_upper [simp]: "d < 16 \<Longrightarrow> hex_value (hex_upper d) = Some d"
  by (auto simp: hex_value_def hex_upper_def Let_def)

lemma char_split: "char_of (16 * (of_char c div 16) + of_char c mod 16) = c"
  by simp

lemma unescape_escape [simp]: "query_unescape (query_escape s) = Some s"
proof (induction s)
  case (Cons c s)
  consider "c = CHR '' ''" | "c \<noteq> CHR '' ''" "unreserved c" | "c \<noteq> CHR '' ''" "\<not> unreserved c" by blast
  then show ?case
  proof cases
    case 2
    then have "c \<noteq> CHR ''%''" "c \<noteq> CHR ''+''" by (auto simp: unreserved_def)
    with 2 Cons show ?thesis by (simp add: query_escape_def escape_byte_def)
  next
    case 3
    have "(of_char c :: nat) div 16 < 16" using nat_of_char_less_256 [of c] by linarith
    with 3 Cons show ?thesis
      by (simp add: query_escape_def escape_byte_def Let_def char_split del: mult_div_mod_eq)
  qed (use Cons in \<open>simp add: query_escape_def escape_byte_def\<close>)
qed (simp add: query_escape_def)

text \<open>No byte of an escaped text separates fields, lines or paths.\<close>

lemma escape_chars:
  assumes "c \<in> set (query_escape s)"
  shows "unreserved c \<or> c = CHR ''+'' \<or> c = CHR ''%''"
proof -
  have hex: "unreserved (hex_upper d)" if "d < 16" for d
    using that by (auto simp: unreserved_def hex_upper_def Let_def)
  obtain x where x: "c \<in> set (escape_byte x)" using assms by (auto simp: query_escape_def)
  have "(of_char x :: nat) div 16 < 16" using nat_of_char_less_256 [of x] by linarith
  with x hex show ?thesis by (auto simp: escape_byte_def Let_def split: if_splits)
qed

end
