(* ===== verification/WebTools.thy ===== *)
theory WebTools
  imports UrlEscape Registry Schema "HOL-Library.Multiset"
begin

text \<open>
  The web tools (tools/internals/web\_search.go, web\_fetch.go, web.go).  The network is a function of the request
  and a world; the headless browser, the HTML parser and the converter to Markdown are arguments.
\<close>

section \<open>The definitions\<close>

definition web_search_definition :: tool_definition where
  "web_search_definition =
     \<lparr>td_name = ''web_search'',
      td_description = ''Search the web and return a list of results with titles, snippets, and URLs.'',
      td_schema =
      [(''type'', VStr ''object''),
       (''properties'', VMap [
          (''query'', field ''string'' ''The search query''),
          (''limit'', field ''integer'' ''Maximum number of results (default 5, max 10)'')]),
       (''required'', VList [VStr ''query''])],
      td_output_schema =
      [(''type'', VStr ''object''),
       (''properties'', VMap [
          (''query'', field ''string'' ''The search query that was executed.''),
          (''results'', field ''array'' ''List of results, each with {title, url, snippet}.'')])],
      td_terminating = False\<rparr>"

definition web_fetch_definition :: tool_definition where
  "web_fetch_definition =
     \<lparr>td_name = ''web_fetch'',
      td_description =
      (''Fetch a web page and convert it to Markdown. Use render_js: true for JavaScript-rendered '' @
      ''pages (requires Chrome/Chromium installed).''),
      td_schema =
      [(''type'', VStr ''object''),
       (''properties'', VMap [
          (''url'', field ''string'' ''The URL to fetch (must start with http:// or https://)''),
          (''render_js'', field ''boolean''
            (''If true, render the page in a headless browser before extracting content. Use for SPAs ''
            @ ''and JS-heavy pages.''))]),
       (''required'', VList [VStr ''url''])],
      td_output_schema =
      [(''type'', VStr ''object''),
       (''properties'', VMap [
          (''url'', field ''string'' ''The fetched URL.''),
          (''title'', field ''string'' ''Page title from <title> tag.''),
          (''markdown'', field ''string'' ''Page content in Markdown (max 16000 chars).'')])],
      td_terminating = False\<rparr>"


section \<open>Strings of bytes\<close>

text \<open>\<open>string(s[i])\<close> takes the byte as a code point and encodes it in UTF-8.\<close>

definition string_of_byte :: "char \<Rightarrow> string" where
  "string_of_byte c =
     (let n = of_char c :: nat in if n < 128 then [c] else [char_of (192 + n div 64), char_of (128 + n mod 64)])"

definition find_after :: "string \<Rightarrow> string \<Rightarrow> nat \<Rightarrow> nat option" where
  "find_after s sub start = map_option (\<lambda>i. start + i) (go_index (drop start s) sub)"

function replace_all :: "string \<Rightarrow> string \<Rightarrow> string \<Rightarrow> string" where
  "replace_all old new s =
     (case s of
        [] \<Rightarrow> []
      | c # r \<Rightarrow>
          if old \<noteq> [] \<and> prefix old s then new @ replace_all old new (drop (length old) s)
          else string_of_byte c @ replace_all old new r)"
  by pat_completeness auto

termination by (relation "measure (\<lambda>(old, new, s). length s)") auto

declare replace_all.simps [simp del]

definition entities :: "(string \<times> string) list" where
  "entities =
     [(''&amp;'', ''&''), (''&lt;'', ''<''), (''&gt;'', ''>''), (''&quot;'', dq), (''&#x27;'', sq), (''&apos;'', sq)]"

text \<open>The range over the map visits the entities in any order \<open>ord\<close>.\<close>

definition decode_entities :: "(string \<times> string) list \<Rightarrow> string \<Rightarrow> string" where
  "decode_entities ord s = fold (\<lambda>(k, v) s. replace_all k v s) ord s"

fun drop_tags :: "bool \<Rightarrow> string \<Rightarrow> string" where
  "drop_tags in_tag [] = []"
| "drop_tags in_tag (c # s) =
     (if c = CHR ''<'' then drop_tags True s
      else if c = CHR ''>'' then drop_tags False s
      else if in_tag then drop_tags in_tag s else c # drop_tags in_tag s)"

definition strip_tags :: "(string \<times> string) list \<Rightarrow> string \<Rightarrow> string" where
  "strip_tags ord s = decode_entities ord (drop_tags False s)"

definition slice :: "nat \<Rightarrow> nat \<Rightarrow> string \<Rightarrow> string" where
  "slice i j s = take (j - i) (drop i s)"

section \<open>Reading search results\<close>

record search_result =
  sr_title :: string
  sr_url :: string
  sr_snippet :: string

definition lite_link :: string where "lite_link = ''<a rel='' @ dq @ ''nofollow'' @ dq @ '' href='' @ dq"
definition lite_snippet :: string where "lite_snippet = ''<td class='' @ dq @ ''result-snippet'' @ dq @ ''>''"
definition html_link :: string where
  "html_link = ''<a rel='' @ dq @ ''nofollow'' @ dq @ '' class='' @ dq @ ''result__a'' @ dq @ '' href='' @ dq"
definition html_class :: string where "html_class = ''class='' @ dq @ ''result__a'' @ dq @ '' href='' @ dq"
definition href_attr :: string where "href_attr = ''href='' @ dq"

text \<open>From the start of an address: the address, its text and where the text ends.\<close>

definition link_at :: "(string \<times> string) list \<Rightarrow> string \<Rightarrow> nat \<Rightarrow> (string \<times> string \<times> nat) option" where
  "link_at ord html a =
     (case find_after html dq a of
        None \<Rightarrow> None
      | Some b \<Rightarrow>
          (case find_after html ''>'' b of
             None \<Rightarrow> None
           | Some t \<Rightarrow>
               (case find_after html ''</a>'' (t + 1) of
                  None \<Rightarrow> None
                | Some e \<Rightarrow> Some (slice a b html, strip_tags ord (slice (t + 1) e html), e))))"

definition snippet_after :: "(string \<times> string) list \<Rightarrow> string \<Rightarrow> nat \<Rightarrow> string" where
  "snippet_after ord html i =
     (case find_after html lite_snippet i of
        None \<Rightarrow> []
      | Some a \<Rightarrow>
          (case find_after html ''</td>'' (a + length lite_snippet) of
             None \<Rightarrow> []
           | Some b \<Rightarrow> strip_tags ord (slice (a + length lite_snippet) b html)))"

definition add_result :: "string \<Rightarrow> string \<Rightarrow> string \<Rightarrow> search_result list" where
  "add_result text href snippet =
     (if href \<noteq> [] \<and> text \<noteq> [] then [\<lparr>sr_title = text, sr_url = href, sr_snippet = snippet\<rparr>] else [])"

definition lite_next :: "string \<Rightarrow> nat \<Rightarrow> nat option" where
  "lite_next html i = map_option (\<lambda>a. a + length lite_link) (find_after html lite_link i)"

text \<open>The fallback page: the address starts behind the first \<open>href\<close> from five bytes before the match.\<close>

definition html_match :: "string \<Rightarrow> nat \<Rightarrow> nat option" where
  "html_match html i = (case find_after html html_link i of Some a \<Rightarrow> Some a | None \<Rightarrow> find_after html html_class i)"

definition html_next :: "string \<Rightarrow> nat \<Rightarrow> nat option" where
  "html_next html i =
     (case html_match html i of
        None \<Rightarrow> None
      | Some a \<Rightarrow>
          (case find_after html href_attr (a - 5) of None \<Rightarrow> Some a | Some h \<Rightarrow> Some (h + length href_attr)))"

lemma go_index_less: "go_index s sub = Some k \<Longrightarrow> sub \<noteq> [] \<Longrightarrow> k < length s"
  by (induction s arbitrary: k) (auto split: if_splits)

lemma find_after_bounds: "find_after s sub i = Some j \<Longrightarrow> i \<le> j \<and> (sub \<noteq> [] \<longrightarrow> j < length s)"
  by (auto simp: find_after_def dest!: go_index_less)

lemma link_at_bounds: "link_at ord html a = Some (href, text, e) \<Longrightarrow> a < e \<and> e < length html"
  by (auto simp: link_at_def dest!: find_after_bounds split: option.splits)

lemma next_later: "lite_next html i = Some a \<Longrightarrow> i \<le> a" "html_next html i = Some a \<Longrightarrow> i \<le> a"
proof -
  show "lite_next html i = Some a \<Longrightarrow> i \<le> a" by (auto simp: lite_next_def dest!: find_after_bounds)
  assume n: "html_next html i = Some a"
  then obtain l where l: "html_match html i = Some l" by (auto simp: html_next_def split: option.splits)
  then have "i \<le> l" by (auto simp: html_match_def dest!: find_after_bounds split: option.splits)
  with n l show "i \<le> a"
    using find_after_bounds [of html href_attr "l - 5"] by (auto simp: html_next_def href_attr_def split: option.splits)
qed

text \<open>The loop of \<open>parseDDGHTML\<close> (\<open>lite\<close>) and of \<open>ddgHTMLFallback\<close>.\<close>

function read_results ::
    "bool \<Rightarrow> (string \<times> string) list \<Rightarrow> string \<Rightarrow> int \<Rightarrow> nat \<Rightarrow> search_result list \<Rightarrow> search_result list" where
  "read_results lite ord html limit i acc =
     (case (if lite then lite_next html i else html_next html i) of
        None \<Rightarrow> acc
      | Some a \<Rightarrow>
          (case link_at ord html a of
             None \<Rightarrow> acc
           | Some (href, text, e) \<Rightarrow>
               if limit \<le> int (length (acc @ add_result text href (if lite then snippet_after ord html e else [])))
               then acc @ add_result text href (if lite then snippet_after ord html e else [])
               else read_results lite ord html limit e
                      (acc @ add_result text href (if lite then snippet_after ord html e else []))))"
  by pat_completeness auto

termination
  by (relation "measure (\<lambda>(lite, ord, html, limit, i, acc). length html - i)")
    (auto dest!: link_at_bounds next_later split: if_splits)

declare read_results.simps [simp del]

definition parse_ddg_html :: "(string \<times> string) list \<Rightarrow> string \<Rightarrow> int \<Rightarrow> search_result list" where
  "parse_ddg_html ord html limit = read_results True ord html limit 0 []"

section \<open>web\_search\<close>

text \<open>The answer to a request: none, or a status with what was read of the body and the error that ended the reading.\<close>

datatype http_answer = Unreachable err | Answered int string "err option"

type_synonym 'w http = "(string \<times> string) list \<Rightarrow> string \<Rightarrow> 'w \<Rightarrow> http_answer \<times> 'w"

definition lite_url :: "string \<Rightarrow> string" where
  "lite_url query = ''https://lite.duckduckgo.com/lite/?format=json&q='' @ query_escape query"

definition html_url :: "string \<Rightarrow> string" where
  "html_url query = ''https://html.duckduckgo.com/html/?q='' @ query_escape query"

definition ddg_fallback ::
    "'w http \<Rightarrow> (string \<times> string) list \<Rightarrow> string \<Rightarrow> int \<Rightarrow> 'w \<Rightarrow> search_result list \<times> 'w" where
  "ddg_fallback http ord query limit w =
     (case http [(''User-Agent'', ''kugelblitz/1.0'')] (html_url query) w of
        (Unreachable e, w') \<Rightarrow> ([], w')
      | (Answered code body err, w') \<Rightarrow> (read_results False ord body limit 0 [], w'))"

definition ddg_search ::
    "'w http \<Rightarrow> (string \<times> string) list \<Rightarrow> string \<Rightarrow> int \<Rightarrow> 'w \<Rightarrow> (err + search_result list) \<times> 'w" where
  "ddg_search http ord query limit w =
     (case http [(''User-Agent'', ''kugelblitz/1.0''), (''Accept'', ''text/html'')] (lite_url query) w of
        (Unreachable e, w1) \<Rightarrow> (Inl (ErrWrap ''ddg search'' e), w1)
      | (Answered code body err, w1) \<Rightarrow>
          if code \<ge> 400 then (Inl (ErrOther (''ddg search: http '' @ int_dec code)), w1)
          else (case err of
                  Some e \<Rightarrow> (Inl e, w1)
                | None \<Rightarrow>
                    (case parse_ddg_html ord body limit of
                       [] \<Rightarrow> (case ddg_fallback http ord query limit w1 of (rs, w2) \<Rightarrow> (Inr rs, w2))
                     | rs \<Rightarrow> (Inr rs, w1))))"

text \<open>The backend of the configuration, or DuckDuckGo.\<close>

type_synonym 'w search_backend = "string \<Rightarrow> int \<Rightarrow> 'w \<Rightarrow> (err + search_result list) \<times> 'w"

definition new_web_search ::
    "'w http \<Rightarrow> (string \<times> string) list \<Rightarrow> 'w search_backend option \<Rightarrow> 'w search_backend" where
  "new_web_search http ord cfg = (case cfg of Some b \<Rightarrow> b | None \<Rightarrow> ddg_search http ord)"

definition result_item :: "search_result \<Rightarrow> val" where
  "result_item r = VMap [(''title'', VStr (sr_title r)), (''url'', VStr (sr_url r)), (''snippet'', VStr (sr_snippet r))]"

definition clamp_limit :: "int \<Rightarrow> int" where
  "clamp_limit l = (let l1 = (if l < 1 then 1 else l) in if l1 > 10 then 10 else l1)"

definition web_search_execute :: "'w search_backend \<Rightarrow> tool_call_detail \<Rightarrow> 'w \<Rightarrow> 'w \<times> tool_call_result" where
  "web_search_execute backend d w =
     (case arg d ''query'' of
        Inl e \<Rightarrow> (w, error_result (tcd_id d) ''web_search'' e)
      | Inr query \<Rightarrow>
          (case optional_int d ''limit'' 5 of
             Inl e \<Rightarrow> (w, error_result (tcd_id d) ''web_search'' e)
           | Inr limit \<Rightarrow>
               (case backend query (clamp_limit limit) w of
                  (Inl e, w') \<Rightarrow> (w', error_result (tcd_id d) ''web_search'' e)
                | (Inr rs, w') \<Rightarrow>
                    (w', success_result (tcd_id d) ''web_search''
                       [(''query'', VStr query), (''results'', VList (map result_item rs))]))))"

section \<open>web\_fetch\<close>

definition max_md_len :: nat where "max_md_len = 16000"

text \<open>\<open>utf8.RuneStart\<close>, and the cut before a byte that is not one.\<close>

definition rune_start :: "char \<Rightarrow> bool" where
  "rune_start c = (let n = of_char c :: nat in \<not> (128 \<le> n \<and> n < 192))"

fun cut_back :: "string \<Rightarrow> nat \<Rightarrow> nat" where
  "cut_back s 0 = 0"
| "cut_back s (Suc m) = (if rune_start (s ! Suc m) then Suc m else cut_back s m)"

definition truncate_utf8 :: "string \<Rightarrow> nat \<Rightarrow> string" where
  "truncate_utf8 s n = (if length s \<le> n then s else take (cut_back s n) s)"

definition trim_right :: "string \<Rightarrow> string" where
  "trim_right s = rev (trim_seq (map rev go_spaces) (rev s))"

definition blank_step :: "string list \<times> bool \<Rightarrow> string \<Rightarrow> string list \<times> bool" where
  "blank_step = (\<lambda>(out, prev) line.
     let t = trim_right line in
     if t = [] then (if \<not> prev \<and> out \<noteq> [] then (out @ [[]], True) else (out, prev))
     else (out @ [t], False))"

definition collapse_blank_lines :: "string \<Rightarrow> string" where
  "collapse_blank_lines s =
     str_join nl (rev (dropWhile (\<lambda>l. l = []) (rev (dropWhile (\<lambda>l. l = []) (fst (foldl blank_step ([], False) (split_char CHR 0x0A s)))))))"

text \<open>The document as the HTML parser builds it: elements by their name, and other nodes with their data.\<close>

datatype dom = DNode bool string "dom list"

fun dom_data :: "dom \<Rightarrow> string" where
  "dom_data (DNode el data cs) = data"

fun walk_title :: "dom \<Rightarrow> string \<Rightarrow> string" and walk_titles :: "dom list \<Rightarrow> string \<Rightarrow> string" where
  "walk_title (DNode el data cs) title =
     (if el \<and> data = ''title'' \<and> cs \<noteq> [] then go_trim_space (dom_data (hd cs)) else walk_titles cs title)"
| "walk_titles [] title = title"
| "walk_titles (c # cs) title = (if title \<noteq> [] then title else walk_titles cs (walk_title c title))"

definition extract_title :: "(string \<Rightarrow> dom option) \<Rightarrow> string \<Rightarrow> string" where
  "extract_title parse html = (case parse html of None \<Rightarrow> [] | Some doc \<Rightarrow> walk_title doc [])"

text \<open>What the page tools use: the browser, the HTML parser and the converter.\<close>

record 'w page_env =
  pe_http :: "'w http"
  pe_chrome :: "string \<Rightarrow> 'w \<Rightarrow> (err + string) \<times> 'w"
  pe_parse :: "string \<Rightarrow> dom option"
  pe_markdown :: "string \<Rightarrow> err + string"

definition fetch_static :: "'w page_env \<Rightarrow> string \<Rightarrow> 'w \<Rightarrow> (err + string \<times> string) \<times> 'w" where
  "fetch_static pe url w =
     (case pe_http pe [(''User-Agent'', ''kugelblitz/1.0''), (''Accept'', ''text/html, text/plain, */*'')] url w of
        (Unreachable e, w') \<Rightarrow> (Inl (ErrWrap ''fetch'' e), w')
      | (Answered code body err, w') \<Rightarrow>
          if code \<ge> 400 then (Inl (ErrOther (''http status '' @ int_dec code)), w')
          else (case (if length body \<ge> 5 * 1024 * 1024 then None else err) of
                  Some e \<Rightarrow> (Inl e, w')
                | None \<Rightarrow> (let raw = take (5 * 1024 * 1024) body in (Inr (extract_title (pe_parse pe) raw, raw), w'))))"

definition fetch_dynamic :: "'w page_env \<Rightarrow> string \<Rightarrow> 'w \<Rightarrow> (err + string) \<times> 'w" where
  "fetch_dynamic pe url w =
     (case pe_chrome pe url w of (Inl e, w') \<Rightarrow> (Inl (ErrWrap ''chromedp'' e), w') | (Inr h, w') \<Rightarrow> (Inr h, w'))"

definition html_to_markdown :: "'w page_env \<Rightarrow> string \<Rightarrow> err + string" where
  "html_to_markdown pe html =
     (case pe_markdown pe html of Inl e \<Rightarrow> Inl e | Inr m \<Rightarrow> Inr (collapse_blank_lines m))"

definition truncated_note :: string where "truncated_note = nl @ nl @ ''... (truncated)''"

definition limit_markdown :: "string \<Rightarrow> string" where
  "limit_markdown m = (if length m > max_md_len then truncate_utf8 m max_md_len @ truncated_note else m)"

definition web_fetch_execute :: "'w page_env \<Rightarrow> tool_call_detail \<Rightarrow> 'w \<Rightarrow> 'w \<times> tool_call_result" where
  "web_fetch_execute pe d w =
     (case arg d ''url'' of
        Inl e \<Rightarrow> (w, error_result (tcd_id d) ''web_fetch'' e)
      | Inr url \<Rightarrow>
          if \<not> prefix ''http://'' url \<and> \<not> prefix ''https://'' url
          then (w, error_result (tcd_id d) ''web_fetch'' (ErrOther ''url must start with http:// or https://''))
          else
            (let render = (case get_arg d ''render_js'' of Some (VBool b) \<Rightarrow> b | _ \<Rightarrow> False);
                 (r, w') = (if render
                    then (case fetch_dynamic pe url w of
                            (Inl e, w1) \<Rightarrow> (Inl (ErrWrap ''dynamic fetch'' e), w1) | (Inr h, w1) \<Rightarrow> (Inr h, w1))
                    else (case fetch_static pe url w of (Inl e, w1) \<Rightarrow> (Inl e, w1) | (Inr (t, h), w1) \<Rightarrow> (Inr h, w1)))
             in case r of
                  Inl e \<Rightarrow> (w', error_result (tcd_id d) ''web_fetch'' e)
                | Inr html \<Rightarrow>
                    (case html_to_markdown pe html of
                       Inl e \<Rightarrow> (w', error_result (tcd_id d) ''web_fetch'' (ErrWrap ''convert to markdown'' e))
                     | Inr m \<Rightarrow>
                         (w', success_result (tcd_id d) ''web_fetch''
                            [(''url'', VStr url), (''title'', VStr (extract_title (pe_parse pe) html)),
                             (''markdown'', VStr (limit_markdown m))]))))"

definition register_web_tools ::
    "'w page_env \<Rightarrow> 'w search_backend \<Rightarrow> 'w registry \<Rightarrow> 'w registry" where
  "register_web_tools pe backend tr =
     mark_as_internal [td_name web_search_definition]
       (register web_search_definition (\<lambda>_. web_search_execute backend)
         (mark_as_internal [td_name web_fetch_definition]
           (register web_fetch_definition (\<lambda>_. web_fetch_execute pe) tr)))"

section \<open>What a search returns\<close>

lemma add_result_cases: "add_result text href sn = [] \<or> add_result text href sn = [\<lparr>sr_title = text, sr_url = href, sr_snippet = sn\<rparr>] \<and> text \<noteq> [] \<and> href \<noteq> []"
  by (simp add: add_result_def)

lemma results_bounded:
  assumes "int (length acc) < limit" and "\<forall>r \<in> set acc. sr_title r \<noteq> [] \<and> sr_url r \<noteq> []"
  shows "int (length (read_results lite ord html limit i acc)) \<le> limit
    \<and> (\<forall>r \<in> set (read_results lite ord html limit i acc). sr_title r \<noteq> [] \<and> sr_url r \<noteq> [])"
  using assms
proof (induction lite ord html limit i acc rule: read_results.induct)
  case (1 lite ord html limit i acc)
  show ?case
  proof (cases "if lite then lite_next html i else html_next html i")
    case None
    with 1(2,3) show ?thesis by (subst (1 2) read_results.simps) simp
  next
    case (Some a)
    note n = this
    show ?thesis
    proof (cases "link_at ord html a")
      case None
      with n 1(2,3) show ?thesis by (subst (1 2) read_results.simps) simp
    next
      case l: (Some x)
      obtain href t e where x: "x = (href, t, e)" by (cases x)
      let ?acc = "acc @ add_result t href (if lite then snippet_after ord html e else [])"
      have step: "read_results lite ord html limit i acc = (if limit \<le> int (length ?acc) then ?acc else read_results lite ord html limit e ?acc)"
        using n l x by (subst read_results.simps) simp
      have g: "\<forall>r \<in> set ?acc. sr_title r \<noteq> [] \<and> sr_url r \<noteq> []" "int (length ?acc) \<le> limit"
        using 1(2,3) add_result_cases [of t href "if lite then snippet_after ord html e else []"] by auto
      show ?thesis
      proof (cases "limit \<le> int (length ?acc)")
        case True
        have "read_results lite ord html limit i acc = ?acc" unfolding step by (rule if_P [OF True])
        with g show ?thesis by (simp only:)
      next
        case False
        then have "int (length ?acc) < limit" by simp
        note IH = 1(1) [OF n l x [symmetric] refl False this g(1)]
        have eq: "read_results lite ord html limit i acc = read_results lite ord html limit e ?acc"
          unfolding step by (rule if_not_P [OF False])
        show ?thesis unfolding eq by (rule IH)
      qed
    qed
  qed
qed

text \<open>The backend that comes with the tool returns at most as many results as it was asked for.\<close>

lemma ddg_bounded:
  assumes "1 \<le> limit" and "ddg_search http ord query limit w = (Inr rs, w')"
  shows "int (length rs) \<le> limit \<and> (\<forall>r \<in> set rs. sr_title r \<noteq> [] \<and> sr_url r \<noteq> [])"
proof -
  have b: "int (length (read_results lite ord html limit i [])) \<le> limit
      \<and> (\<forall>r \<in> set (read_results lite ord html limit i []). sr_title r \<noteq> [] \<and> sr_url r \<noteq> [])" for lite html i
    by (rule results_bounded) (use assms(1) in auto)
  then show ?thesis
    using assms by (auto simp: ddg_search_def ddg_fallback_def parse_ddg_html_def split: prod.splits http_answer.splits if_splits option.splits list.splits)
qed

section \<open>What becomes of the text of a page\<close>

definition mangle :: "string \<Rightarrow> string" where
  "mangle s = concat (map string_of_byte s)"

definition high :: "char \<Rightarrow> bool" where
  "high c \<longleftrightarrow> (of_char c :: nat) \<ge> 128"

lemma string_of_byte_cases:
  "\<not> high c \<Longrightarrow> string_of_byte c = [c]"
  "high c \<Longrightarrow> \<exists>a b. string_of_byte c = [a, b] \<and> high a \<and> high b"
proof -
  show "\<not> high c \<Longrightarrow> string_of_byte c = [c]" by (simp add: high_def string_of_byte_def)
  assume h: "high c"
  have "(of_char c :: nat) div 64 < 4" using nat_of_char_less_256 [of c] by linarith
  then have "192 + (of_char c :: nat) div 64 < 256" "128 + (of_char c :: nat) mod 64 < 256" by simp_all
  with h show "\<exists>a b. string_of_byte c = [a, b] \<and> high a \<and> high b"
    by (auto simp: high_def string_of_byte_def Let_def)
qed

lemma replace_all_plain: "CHR ''&'' \<notin> set s \<Longrightarrow> old \<noteq> [] \<Longrightarrow> hd old = CHR ''&'' \<Longrightarrow> replace_all old new s = mangle s"
proof (induction s)
  case (Cons c s)
  then have "\<not> prefix old (c # s)" by (cases old) auto
  with Cons show ?case by (subst replace_all.simps) (simp add: mangle_def)
qed (simp add: replace_all.simps mangle_def)

lemma mangle_amp: "CHR ''&'' \<notin> set s \<Longrightarrow> CHR ''&'' \<notin> set (mangle s)"
proof -
  have "CHR ''&'' \<notin> set (string_of_byte c)" if "c \<noteq> CHR ''&''" for c
  proof (cases "high c")
    case True
    then obtain a b where "string_of_byte c = [a, b]" "high a" "high b" using string_of_byte_cases(2) by blast
    then show ?thesis by (auto simp: high_def)
  qed (use that string_of_byte_cases(1) [of c] in auto)
  note byte = this
  assume s: "CHR ''&'' \<notin> set s"
  show "CHR ''&'' \<notin> set (mangle s)"
  proof
    assume "CHR ''&'' \<in> set (mangle s)"
    then obtain c where "c \<in> set s" "CHR ''&'' \<in> set (string_of_byte c)" by (auto simp: mangle_def)
    with byte s show False by metis
  qed
qed

lemma mangle_length:
  "length (filter high (mangle s)) = 2 * length (filter high s)"
  "length (filter (\<lambda>c. \<not> high c) (mangle s)) = length (filter (\<lambda>c. \<not> high c) s)"
proof -
  have "length (filter high (string_of_byte c)) = (if high c then 2 else 0)
      \<and> length (filter (\<lambda>c. \<not> high c) (string_of_byte c)) = (if high c then 0 else 1)" for c
    using string_of_byte_cases [of c] by (cases "high c") auto
  then show "length (filter high (mangle s)) = 2 * length (filter high s)"
    "length (filter (\<lambda>c. \<not> high c) (mangle s)) = length (filter (\<lambda>c. \<not> high c) s)"
    by (induction s) (auto simp: mangle_def)
qed

lemma decode_plain:
  assumes "\<forall>e \<in> set ord. fst e \<noteq> [] \<and> hd (fst e) = CHR ''&''" and "CHR ''&'' \<notin> set s"
  shows "length (filter high (decode_entities ord s)) = 2 ^ length ord * length (filter high s)
    \<and> length (filter (\<lambda>c. \<not> high c) (decode_entities ord s)) = length (filter (\<lambda>c. \<not> high c) s)"
  using assms
proof (induction ord arbitrary: s)
  case (Cons e ord)
  obtain k v where e: "e = (k, v)" by (cases e)
  have r: "replace_all k v s = mangle s" by (rule replace_all_plain) (use Cons.prems e in auto)
  have "\<forall>e \<in> set ord. fst e \<noteq> [] \<and> hd (fst e) = CHR ''&''" using Cons.prems(1) by simp
  from Cons.IH [OF this mangle_amp [OF Cons.prems(2)]] show ?case
    by (simp add: decode_entities_def e r mangle_length)
qed (simp add: decode_entities_def)

lemma drop_tags_plain: "CHR ''<'' \<notin> set s \<Longrightarrow> CHR ''>'' \<notin> set s \<Longrightarrow> drop_tags False s = s"
  by (induction s) auto

text \<open>Text that the search tool strips of tags and entities keeps each ASCII byte once, but every byte of a
  non-ASCII character comes out as 64 bytes: each of the six replacements encodes every byte again.\<close>

theorem stripped_text_garbled:
  assumes "mset ord = mset entities" and "set s \<inter> set ''&<>'' = {}"
  shows "length (strip_tags ord s) = length (filter (\<lambda>c. \<not> high c) s) + 64 * length (filter high s)"
proof -
  have "set ord = set entities" using assms(1) by (rule mset_eq_setD)
  then have k: "\<forall>e \<in> set ord. fst e \<noteq> [] \<and> hd (fst e) = CHR ''&''" by (auto simp: entities_def)
  have "length ord = 6" using mset_eq_length [OF assms(1)] by (simp add: entities_def)
  moreover have "drop_tags False s = s" by (rule drop_tags_plain) (use assms(2) in auto)
  moreover have "CHR ''&'' \<notin> set s" using assms(2) by auto
  note decode_plain [OF k this]
  moreover have "length t = length (filter high t) + length (filter (\<lambda>c. \<not> high c) t)" for t
    using sum_length_filter_compl [of high t] by simp
  from this [of "decode_entities ord s"] calculation show ?thesis by (simp add: strip_tags_def)
qed

theorem stripped_text_garbled_witness: "length (strip_tags entities [CHR ''c'', CHR ''a'', CHR ''f'', CHR 0xC3, CHR 0xA9]) = 131"
proof -
  have h: "set [CHR ''c'', CHR ''a'', CHR ''f'', CHR 0xC3, CHR 0xA9] \<inter> set ''&<>'' = {}"
    and f: "length (filter (\<lambda>c. \<not> high c) [CHR ''c'', CHR ''a'', CHR ''f'', CHR 0xC3, CHR 0xA9]) = 3"
      "length (filter high [CHR ''c'', CHR ''a'', CHR ''f'', CHR 0xC3, CHR 0xA9]) = 2"
    by code_simp+
  from stripped_text_garbled [OF refl h] show ?thesis unfolding f by simp
qed

text \<open>The order of the entities decides what a doubly escaped text becomes, and snippets move up to results that have none.\<close>

lemma entity_order_matters:
  "strip_tags entities ''&amp;lt;'' = ''<''" "strip_tags (rev entities) ''&amp;lt;'' = ''&lt;''"
  by code_simp+

text \<open>A cut text ends with a whole rune: it is made of the first runes, as long as they fit.\<close>

definition rune_bytes :: "string \<Rightarrow> bool" where
  "rune_bytes r \<longleftrightarrow> (case r of [] \<Rightarrow> False | c # cs \<Rightarrow> rune_start c \<and> list_all (\<lambda>x. \<not> rune_start x) cs)"

lemma cut_back_start: "cut_back s m \<le> m \<and> (cut_back s m = 0 \<or> rune_start (s ! cut_back s m))"
  by (induction m) auto

lemma rune_boundary:
  assumes "list_all rune_bytes rs" and "p < length (concat rs)" and "p = 0 \<or> rune_start (concat rs ! p)"
  shows "\<exists>k. take p (concat rs) = concat (take k rs)"
  using assms
proof (induction rs arbitrary: p)
  case (Cons r rs)
  then obtain c cs where r: "r = c # cs" "list_all (\<lambda>x. \<not> rune_start x) cs" by (auto simp: rune_bytes_def split: list.splits)
  show ?case
  proof (cases "p < length r")
    case True
    have "p = 0"
    proof (rule ccontr)
      assume "p \<noteq> 0"
      with True r have "concat (r # rs) ! p = cs ! (p - 1)" "p - 1 < length cs" by (auto simp: nth_append nth_Cons')
      with r(2) Cons.prems(3) \<open>p \<noteq> 0\<close> show False by (auto simp: list_all_length)
    qed
    then show ?thesis by (intro exI [of _ 0]) simp
  next
    case False
    with Cons.prems have "p - length r < length (concat rs)" "p - length r = 0 \<or> rune_start (concat rs ! (p - length r))"
      by (auto simp: nth_append)
    moreover have "list_all rune_bytes rs" using Cons.prems(1) by simp
    ultimately obtain k where "take (p - length r) (concat rs) = concat (take k rs)" using Cons.IH by blast
    with False show ?thesis by (intro exI [of _ "Suc k"]) simp
  qed
qed simp

lemma truncate_whole_runes:
  assumes "list_all rune_bytes rs"
  shows "\<exists>k. truncate_utf8 (concat rs) n = concat (take k rs)" and "length (truncate_utf8 s n) \<le> n"
proof -
  show "\<exists>k. truncate_utf8 (concat rs) n = concat (take k rs)"
  proof (cases "length (concat rs) \<le> n")
    case True
    then show ?thesis by (intro exI [of _ "length rs"]) (simp add: truncate_utf8_def)
  next
    case False
    then have "cut_back (concat rs) n < length (concat rs)" using cut_back_start [of "concat rs" n] by linarith
    with rune_boundary [OF assms this] cut_back_start [of "concat rs" n] False show ?thesis
      by (simp add: truncate_utf8_def)
  qed
  show "length (truncate_utf8 s n) \<le> n"
    using cut_back_start [of s n] by (simp add: truncate_utf8_def)
qed

lemma markdown_bounded: "length (limit_markdown m) \<le> max_md_len + length truncated_note"
  using truncate_whole_runes(2) [of "[]" m max_md_len] by (simp add: limit_markdown_def)

text \<open>Collapsing blank lines keeps the other lines, and leaves no blank line at an end or next to another.\<close>

fun tidy :: "string list \<Rightarrow> bool" where
  "tidy (a # b # ls) \<longleftrightarrow> \<not> (a = [] \<and> b = []) \<and> tidy (b # ls)"
| "tidy _ \<longleftrightarrow> True"

lemma tidy_append: "tidy (ls @ [l]) \<longleftrightarrow> tidy ls \<and> (ls = [] \<or> \<not> (last ls = [] \<and> l = []))"
  by (induction ls rule: tidy.induct) auto

lemma blank_steps:
  assumes "tidy out" and "out = [] \<or> hd out \<noteq> []" and "prev \<longleftrightarrow> out \<noteq> [] \<and> last out = []"
  shows "let r = foldl blank_step (out, prev) ls in
    tidy (fst r) \<and> (fst r = [] \<or> hd (fst r) \<noteq> []) \<and> (snd r \<longleftrightarrow> fst r \<noteq> [] \<and> last (fst r) = []) \<and>
    filter (\<lambda>l. l \<noteq> []) (fst r) = filter (\<lambda>l. l \<noteq> []) out @ filter (\<lambda>l. l \<noteq> []) (map trim_right ls)"
  using assms
proof (induction ls arbitrary: out prev)
  case (Cons l ls)
  let ?t = "trim_right l"
  obtain o1 p1 where s: "blank_step (out, prev) l = (o1, p1)" by (cases "blank_step (out, prev) l")
  let ?s = "blank_step (out, prev) l"
  have "tidy (fst ?s) \<and> (fst ?s = [] \<or> hd (fst ?s) \<noteq> []) \<and> (snd ?s \<longleftrightarrow> fst ?s \<noteq> [] \<and> last (fst ?s) = [])
      \<and> filter (\<lambda>l. l \<noteq> []) (fst ?s) = filter (\<lambda>l. l \<noteq> []) out @ filter (\<lambda>l. l \<noteq> []) [?t]"
    using Cons.prems by (auto simp: blank_step_def Let_def tidy_append hd_append)
  with Cons.IH [of o1 p1] show ?case by (simp add: Let_def s)
qed simp

lemma drop_blank_end:
  assumes "tidy ls" and "ls = [] \<or> hd ls \<noteq> []"
  shows "let r = rev (dropWhile (\<lambda>l. l = []) (rev ls)) in
    tidy r \<and> (r = [] \<or> hd r \<noteq> [] \<and> last r \<noteq> []) \<and> filter (\<lambda>l. l \<noteq> []) r = filter (\<lambda>l. l \<noteq> []) ls"
  using assms
proof (induction ls rule: rev_induct)
  case (snoc l ls)
  show ?case
  proof (cases "l = []")
    case True
    with snoc.prems have "tidy ls" "ls = [] \<or> hd ls \<noteq> []" by (auto simp: tidy_append hd_append split: if_splits)
    from snoc.IH [OF this] True show ?thesis by (simp add: Let_def)
  next
    case False
    with snoc.prems show ?thesis by (simp add: Let_def)
  qed
qed simp

lemma collapse_tidy:
  "\<exists>ls. collapse_blank_lines s = str_join nl ls \<and> tidy ls \<and> (ls = [] \<or> hd ls \<noteq> [] \<and> last ls \<noteq> []) \<and>
     filter (\<lambda>l. l \<noteq> []) ls = filter (\<lambda>l. l \<noteq> []) (map trim_right (split_char CHR 0x0A s))"
proof -
  let ?r = "fst (foldl blank_step ([], False) (split_char CHR 0x0A s))"
  have r: "tidy ?r" "?r = [] \<or> hd ?r \<noteq> []"
    "filter (\<lambda>l. l \<noteq> []) ?r = filter (\<lambda>l. l \<noteq> []) (map trim_right (split_char CHR 0x0A s))"
    using blank_steps [of "[]" False "split_char CHR 0x0A s"] by (simp_all add: Let_def)
  have "dropWhile (\<lambda>l. l = []) ?r = ?r" using r(2) by (cases ?r) auto
  with drop_blank_end [OF r(1,2)] r(3) show ?thesis by (auto simp: collapse_blank_lines_def Let_def)
qed

section \<open>Types of the results\<close>

lemma web_search_results:
  assumes "web_search_execute backend d w = (w', r)"
  shows "is_error r \<or> (\<exists>query rs. arg d ''query'' = Inr query \<and> r = success_result (tcd_id d) ''web_search''
    [(''query'', VStr query), (''results'', VList (map result_item rs))])"
  using assms by (auto simp: web_search_execute_def split: sum.splits prod.splits)

lemma limit_in_range: "1 \<le> clamp_limit l \<and> clamp_limit l \<le> 10 \<and> (1 \<le> l \<and> l \<le> 10 \<longrightarrow> clamp_limit l = l)"
  by (simp add: clamp_limit_def Let_def)

end
