(* ===== verification/Skills.thy ===== *)
theory Skills
  imports FileSys Schema
begin

text \<open>
  Skills (skills/skill.go) and the tool that activates one (tools/internals/skill\_tools.go).  The YAML decoder is an
  argument.  The active skill is a pointer, which may be nil: \<open>None\<close> as the result of a call is the panic of a nil
  dereference.
\<close>

section \<open>The definition\<close>

definition skill_use_definition :: tool_definition where
  "skill_use_definition =
     \<lparr>td_name = ''skill_use'',
      td_description = (''Activate a skill by name to take on a specialized role (e.g. '' @ sq @
      ''code-reviewer'' @ sq @ '', '' @ sq @ ''researcher'' @ sq @
      ''). Call with no name to deactivate. Returns the skill'' @ sq @
      ''s prompt, description, and available tools.''),
      td_schema =
      [(''type'', VStr ''object''),
       (''properties'', VMap [
          (''name'', field ''string'' ''Skill name to activate (omit to deactivate)'')])],
      td_output_schema =
      [(''type'', VStr ''object''),
       (''properties'', VMap [
          (''activated'', field ''boolean'' ''Whether a skill was activated''),
          (''deactivated'', field ''boolean'' ''Whether skill was deactivated''),
          (''name'', field ''string'' ''Skill name''),
          (''prompt'', field ''string'' ''Skill prompt to follow''),
          (''skill_tools'', field ''array'' ''Tools the skill recommends'')])],
      td_terminating = False\<rparr>"


section \<open>Skills\<close>

record skill =
  sk_name :: string
  sk_description :: string
  sk_tools :: "string list"
  sk_prompt :: string

definition skill_context :: "skill \<Rightarrow> string" where
  "skill_context s = sk_prompt s"

definition parse_frontmatter :: "string \<Rightarrow> string \<times> string" where
  "parse_frontmatter content =
     (let c = go_trim_space content in
      if \<not> prefix ''---'' c then ([], c)
      else
        (let rest = drop 3 c in
         case go_index rest (nl @ ''---'') of
           None \<Rightarrow> ([], c)
         | Some e \<Rightarrow> (go_trim_space (take e rest), go_trim_space (drop (e + 4) rest))))"

definition load_error :: "string \<Rightarrow> string \<Rightarrow> os_error" where
  "load_error name why = PlainError (''load skill '' @ go_quote name @ '': '' @ why)"

text \<open>\<open>yaml\<close> fills name, description and tools of an empty skill.\<close>

definition load_skill :: "(string \<Rightarrow> err + skill) \<Rightarrow> string \<Rightarrow> string \<Rightarrow> (os_error, skill) io" where
  "load_skill yaml dir name =
     io_bind (io_map_error (\<lambda>e. load_error name (os_error_text e)) (go_read_file (go_join [skills_dir dir, name, ''SKILL.md'']))) (\<lambda>data.
       case parse_frontmatter data of (fm, prompt) \<Rightarrow>
         (case yaml fm of
            Inl e \<Rightarrow> io_fail (load_error name (''invalid YAML: '' @ err_text e))
          | Inr s \<Rightarrow>
              if sk_name s = [] then io_fail (load_error name ''name is required'')
              else io_return (s\<lparr>sk_prompt := go_trim_space prompt\<rparr>)))"

definition list_skills :: "string \<Rightarrow> (os_error, string list) io" where
  "list_skills dir =
     io_bind (io_try (go_read_dir (skills_dir dir))) (\<lambda>r.
       case r of
         Inl e \<Rightarrow> if is_not_exist e then io_return [] else io_fail e
       | Inr es \<Rightarrow> io_return (map fst (filter snd es)))"

text \<open>\<open>initSkills\<close>: a directory without a valid \<open>SKILL.md\<close> is skipped; the active skill is an empty one.\<close>

fun load_all :: "(string \<Rightarrow> err + skill) \<Rightarrow> string \<Rightarrow> string list \<Rightarrow> os \<Rightarrow> skill list \<times> os" where
  "load_all yaml dir [] s = ([], s)"
| "load_all yaml dir (n # ns) s =
     (case load_skill yaml dir n s of
        (Inl e, s1) \<Rightarrow> load_all yaml dir ns s1
      | (Inr sk, s1) \<Rightarrow> (case load_all yaml dir ns s1 of (sks, s2) \<Rightarrow> (sk # sks, s2)))"

definition no_skill :: skill where
  "no_skill = \<lparr>sk_name = [], sk_description = [], sk_tools = [], sk_prompt = []\<rparr>"

definition init_skills :: "(string \<Rightarrow> err + skill) \<Rightarrow> string \<Rightarrow> os \<Rightarrow> (skill list \<times> skill option) \<times> os" where
  "init_skills yaml dir s =
     (case list_skills dir s of
        (r, s1) \<Rightarrow>
          (case load_all yaml dir (case r of Inl _ \<Rightarrow> [] | Inr ns \<Rightarrow> ns) s1 of (sks, s2) \<Rightarrow> ((sks, Some no_skill), s2)))"

section \<open>skill\_use\<close>

definition skill_use_execute :: "skill list \<Rightarrow> tool_call_detail \<Rightarrow> skill option \<Rightarrow> (skill option \<times> tool_call_result) option" where
  "skill_use_execute skills d active =
     (let name = (case arg d ''name'' of Inl _ \<Rightarrow> [] | Inr n \<Rightarrow> n) in
      if name = [] then
        (case active of
           None \<Rightarrow> None
         | Some a \<Rightarrow> Some (Some (a\<lparr>sk_name := []\<rparr>), success_result (tcd_id d) ''skill_use''
             [(''deactivated'', VBool True), (''message'', VStr ''Skill deactivated'')]))
      else
        (case find (\<lambda>s. sk_name s = name) skills of
           None \<Rightarrow> Some (active, error_result (tcd_id d) ''skill_use'' (ErrOther (''skill '' @ go_quote name @ '' not found'')))
         | Some s \<Rightarrow>
             (case active of
                None \<Rightarrow> None
              | Some _ \<Rightarrow> Some (Some s, success_result (tcd_id d) ''skill_use''
                  [(''activated'', VBool True), (''name'', VStr (sk_name s)), (''description'', VStr (sk_description s)),
                   (''prompt'', VStr (sk_prompt s)), (''skill_tools'', VList (map VStr (sk_tools s)))]))))"

section \<open>Lemmas\<close>

text \<open>A file with a frontmatter is taken apart at the first line that begins with dashes.\<close>

lemma frontmatter_parts:
  assumes "go_trim_space c = c" and "c = ''---'' @ fm @ nl @ ''---'' @ prompt" and "go_index (fm @ nl @ ''--'') (nl @ ''---'') = None"
  shows "parse_frontmatter c = (go_trim_space fm, go_trim_space prompt)"
proof -
  have "go_index (fm @ (nl @ ''---'') @ prompt) (nl @ ''---'') = Some (length fm)"
    by (rule go_index_before) (use assms(3) in simp_all)
  then show ?thesis by (simp add: parse_frontmatter_def assms(1)) (simp add: assms(2))
qed

text \<open>An activated skill is one of the list, under the name that was asked for; a call without a name clears only the name.\<close>

lemma skill_activated:
  assumes "arg d ''name'' = Inr name" and "name \<noteq> []" and "skill_use_execute skills d (Some a) = Some (b, r)" and "\<not> is_error r"
  shows "\<exists>s \<in> set skills. b = Some s \<and> sk_name s = name \<and> map_of (tcr_outputs r) ''prompt'' = Some (VStr (sk_prompt s))"
  using assms by (auto simp: skill_use_execute_def find_Some_iff in_set_conv_nth split: option.splits)

lemma deactivated_skill_keeps_prompt:
  assumes "arg d ''name'' = Inl e" and "skill_use_execute skills d (Some a) = Some (b, r)"
  shows "b = Some (a\<lparr>sk_name := []\<rparr>) \<and> skill_context (the b) = skill_context a"
  using assms by (auto simp: skill_use_execute_def skill_context_def)

text \<open>With no skill to point to, deactivating and activating both panic.\<close>

lemma nil_skill_panics: "name = [] \<or> (\<exists>s \<in> set skills. sk_name s = name) \<Longrightarrow> arg d ''name'' = Inr name \<Longrightarrow>
    skill_use_execute skills d None = None"
  by (auto simp: skill_use_execute_def find_None_iff split: option.split)

text \<open>After \<open>initSkills\<close> no call panics, and every skill of the list has a name.\<close>

lemma skill_use_keeps: "skill_use_execute skills d (Some a) \<noteq> None \<and>
    (\<forall>b r. skill_use_execute skills d (Some a) = Some (b, r) \<longrightarrow> b \<noteq> None)"
  by (auto simp: skill_use_execute_def Let_def split: option.split)

lemma load_skill_named:
  assumes "load_skill yaml dir n s = (Inr sk, s')"
  shows "sk_name sk \<noteq> []"
proof -
  from assms obtain data s1 where r: "(case parse_frontmatter data of (fm, prompt) \<Rightarrow>
         (case yaml fm of
            Inl e \<Rightarrow> io_fail (load_error n (''invalid YAML: '' @ err_text e))
          | Inr s \<Rightarrow>
              if sk_name s = [] then io_fail (load_error n ''name is required'')
              else io_return (s\<lparr>sk_prompt := go_trim_space prompt\<rparr>))) s1 = (Inr sk, s')"
    unfolding load_skill_def bind_Inr by blast
  obtain fm p where "parse_frontmatter data = (fm, p)" by (cases "parse_frontmatter data")
  with r show ?thesis by (cases "yaml fm") (auto simp: return_Inr split: if_splits)
qed

lemma load_all_named: "sk \<in> set (fst (load_all yaml dir ns s)) \<Longrightarrow> sk_name sk \<noteq> []"
proof (induction ns arbitrary: s)
  case (Cons n ns)
  obtain r s1 where l: "load_skill yaml dir n s = (r, s1)" by (cases "load_skill yaml dir n s")
  show ?case
  proof (cases r)
    case (Inl e)
    with Cons l show ?thesis by simp
  next
    case (Inr x)
    with Cons l load_skill_named [of yaml dir n s x s1] show ?thesis by (auto simp: case_prod_beta)
  qed
qed simp

lemma init_skills_ok: "init_skills yaml dir s = ((sks, active), s') \<Longrightarrow> active \<noteq> None \<and> (\<forall>sk \<in> set sks. sk_name sk \<noteq> [])"
  using load_all_named by (auto simp: init_skills_def split: prod.splits) (metis fst_conv)

end
