(* ===== verification/Builtin.thy ===== *)
theory Builtin
  imports FileTools ShellTool WebTools Skills PlanSchemas ModelCalls
begin

text \<open>
  The list of the built-in tools and their registration (tools/internals/builtin.go).  \<open>exec\<close> gives the handler of a
  tool by its name; the handlers are the \<open>_execute\<close> functions of the theories above, on the state each of them has.
\<close>

definition builtin_tools :: "tool_definition list" where
  "builtin_tools =
     [file_read_definition, file_write_definition, file_delete_definition, file_copy_definition, dir_create_definition,
      dir_copy_definition, shell_exec_definition, plan_create_definition, plan_query_definition, confirm_plan_definition,
      task_insert_definition, task_delete_definition, task_query_definition, task_status_update_definition,
      plan_rollback_definition, set_work_mode_definition]"

definition register_builtins :: "(string \<Rightarrow> 's tool_fn) \<Rightarrow> 's registry \<Rightarrow> 's registry" where
  "register_builtins exec tr =
     fold (\<lambda>d. mark_as_internal [td_name d]) builtin_tools
       (register_all (map (\<lambda>d. (d, exec (td_name d))) builtin_tools) tr)"

lemmas builtin_definitions =
  file_read_definition_def file_write_definition_def file_delete_definition_def file_copy_definition_def
  dir_create_definition_def dir_copy_definition_def shell_exec_definition_def plan_create_definition_def
  plan_query_definition_def confirm_plan_definition_def task_insert_definition_def task_delete_definition_def
  task_query_definition_def task_status_update_definition_def plan_rollback_definition_def set_work_mode_definition_def

lemma builtin_names:
  "map td_name builtin_tools =
     [''file_read'', ''file_write'', ''file_delete'', ''file_copy'', ''dir_create'', ''dir_copy'', ''shell_exec'',
      ''plan_create'', ''plan_query'', ''confirm_plan'', ''task_insert'', ''task_delete'', ''task_query'',
      ''task_status_update'', ''plan_rollback'', ''set_work_mode'']"
  by (simp add: builtin_tools_def builtin_definitions)

text \<open>A registered tool of a list with distinct names is found under its name, and internal tools are not custom ones.\<close>

lemma register_all_lookup:
  "distinct (map (td_name \<circ> fst) ts) \<Longrightarrow> reg_lookup (register_all ts tr) n =
     (case find (\<lambda>t. td_name (fst t) = n) ts of
        Some (d, f) \<Rightarrow> Some \<lparr>re_fn = f, re_def = d\<rparr> | None \<Rightarrow> reg_lookup tr n)"
proof (induction ts arbitrary: tr)
  case (Cons t ts)
  obtain d f where t: "t = (d, f)" by (cases t)
  have "reg_lookup (register d f tr) n = (if td_name d = n then Some \<lparr>re_fn = f, re_def = d\<rparr> else reg_lookup tr n)"
    by (auto simp: register_def reg_lookup_def reg_put_def update_conv')
  moreover have "td_name d = n \<Longrightarrow> find (\<lambda>t. td_name (fst t) = n) ts = None"
    using Cons.prems t by (auto simp: find_None_iff image_iff)
  ultimately show ?case
    using Cons.IH [of "register d f tr"] Cons.prems t by (auto simp: register_all_def split: option.splits)
qed (simp add: register_all_def)

lemma marked_names: "rg_internal (fold (\<lambda>d. mark_as_internal [td_name d]) ds tr) = rev (map td_name ds) @ rg_internal tr
    \<and> rg_tools (fold (\<lambda>d. mark_as_internal [td_name d]) ds tr) = rg_tools tr"
  by (induction ds arbitrary: tr) (simp_all add: mark_as_internal_def)

theorem builtins_registered:
  assumes "d \<in> set builtin_tools"
  shows "reg_lookup (register_builtins exec tr) (td_name d) = Some \<lparr>re_fn = exec (td_name d), re_def = d\<rparr>
    \<and> td_name d \<notin> set (custom_tool_names (register_builtins exec tr))"
proof -
  let ?ts = "map (\<lambda>d. (d, exec (td_name d))) builtin_tools"
  have n: "map (td_name \<circ> fst) ?ts = map td_name builtin_tools" by simp
  have dist: "distinct (map td_name builtin_tools)" unfolding builtin_names by simp
  have "find (\<lambda>t. td_name (fst t) = td_name d) ?ts = Some (d, exec (td_name d))"
  proof (cases "find (\<lambda>t. td_name (fst t) = td_name d) ?ts")
    case None
    with assms show ?thesis by (auto simp: find_None_iff)
  next
    case (Some t)
    then obtain e where "t = (e, exec (td_name e))" "e \<in> set builtin_tools" "td_name e = td_name d"
      by (auto simp: find_Some_iff)
    moreover from this have "e = d" using dist assms by (metis distinct_map inj_onD)
    ultimately show ?thesis using Some by simp
  qed
  moreover have "distinct (map (td_name \<circ> fst) ?ts)" by (simp only: n dist)
  ultimately have "reg_lookup (register_all ?ts tr) (td_name d) = Some \<lparr>re_fn = exec (td_name d), re_def = d\<rparr>"
    by (simp only: register_all_lookup) simp
  then show ?thesis
    using assms marked_names [of builtin_tools "register_all ?ts tr"]
    by (auto simp: register_builtins_def reg_lookup_def custom_tool_names_def)
qed

end
