(* ===== verification/Markdown.thy ===== *)
theory Markdown
  imports Facts UrlEscape
begin

text \<open>
  MEMORY.md (persist/markdown\_persist.go): the text format of long-term memory, its writer and its parser,
  with what they use of the Go library: \<open>strings.Fields\<close>, \<open>Trim\<close> and \<open>LastIndex\<close>, \<open>strconv.Atoi\<close>,
  \<open>strconv.ParseFloat\<close> on decimal numerals (the writer prints no other form), \<open>%.2f\<close>, \<open>url.QueryEscape\<close>, the
  layout \<open>2006-01-02\<close> of \<open>time\<close>, and the lines of \<open>bufio.Scanner\<close> with its limit on their length.

  A time is its nanoseconds since 1970 (as in Facts); the date is taken in a zone with a fixed offset and
  read back as midnight UTC.  A \<open>float64\<close> is its rational value.
\<close>

section \<open>Strings\<close>

definition newline :: char where "newline = CHR 0x0A"
definition backtick :: char where "backtick = CHR 0x60"

text \<open>\<open>strings.Fields\<close>: \<open>cur\<close> is the field that is being read.\<close>

definition space_at :: "string \<Rightarrow> string option" where
  "space_at s = first_some (\<lambda>p. strip_prefix p s) go_spaces"

lemma space_at_shorter: "space_at s = Some r \<Longrightarrow> length r < length s"
proof -
  assume "space_at s = Some r"
  then obtain p where p: "p \<in> set go_spaces" "s = p @ r"
    by (auto simp: space_at_def strip_prefix_Some dest!: first_some_SomeD)
  then have "p \<noteq> []" by (auto simp: go_spaces_def)
  with p(2) show ?thesis by simp
qed

function fields_go :: "string \<Rightarrow> string \<Rightarrow> string list" where
  "fields_go cur s =
     (case s of
        [] \<Rightarrow> if cur = [] then [] else [cur]
      | c # s' \<Rightarrow>
          (case space_at s of
             Some r \<Rightarrow> (if cur = [] then [] else [cur]) @ fields_go [] r
           | None \<Rightarrow> fields_go (cur @ [c]) s'))"
  by pat_completeness auto
termination
  by (relation "measure (\<lambda>(cur, s). length s)") (auto dest: space_at_shorter)

declare fields_go.simps [simp del]

definition go_fields :: "string \<Rightarrow> string list" where
  "go_fields s = fields_go [] s"

definition trim_char :: "char \<Rightarrow> string \<Rightarrow> string" where
  "trim_char c s = rev (dropWhile (\<lambda>x. x = c) (rev (dropWhile (\<lambda>x. x = c) s)))"

definition is_digit :: "char \<Rightarrow> bool" where
  "is_digit c = (let n = of_char c :: nat in 48 \<le> n \<and> n < 58)"

section \<open>Numbers\<close>

definition go_atoi :: "string \<Rightarrow> int option" where
  "go_atoi s =
     (let (neg, ds) = (case s of
            c # r \<Rightarrow> if c = CHR ''-'' then (True, r) else if c = CHR ''+'' then (False, r) else (False, s)
          | [] \<Rightarrow> (False, []));
          i = (if neg then - int (dec_val ds) else int (dec_val ds))
      in if ds \<noteq> [] \<and> list_all is_digit ds \<and> - (2 ^ 63) \<le> i \<and> i < 2 ^ 63 then Some i else None)"

definition ten_pow :: "int \<Rightarrow> rat" where
  "ten_pow e = (if e \<ge> 0 then 10 ^ nat e else 1 / 10 ^ nat (- e))"

definition parse_exponent :: "string \<Rightarrow> int option" where
  "parse_exponent s = (if s = [] then Some 0 else if hd s \<in> set ''eE'' then go_atoi (tl s) else None)"

definition parse_float :: "string \<Rightarrow> rat option" where
  "parse_float s =
     (let (neg, b) = (case s of
            c # r \<Rightarrow> if c = CHR ''-'' then (True, r) else if c = CHR ''+'' then (False, r) else (False, s)
          | [] \<Rightarrow> (False, []));
          ip = takeWhile is_digit b; b1 = dropWhile is_digit b;
          (fp, b2) = (case b1 of
             c # r \<Rightarrow> if c = CHR ''.'' then (takeWhile is_digit r, dropWhile is_digit r) else ([], b1)
           | [] \<Rightarrow> ([], []))
      in if ip = [] \<and> fp = [] then None
         else map_option (\<lambda>e. (if neg then -1 else 1) * of_nat (dec_val (ip @ fp)) * ten_pow (e - int (length fp)))
                (parse_exponent b2))"

text \<open>\<open>%.2f\<close>: hundredths, rounded half to even.\<close>

definition round_half_even :: "rat \<Rightarrow> int" where
  "round_half_even x =
     (let f = \<lfloor>x\<rfloor>; d = x - of_int f
      in if d < 1 / 2 then f else if d > 1 / 2 then f + 1 else if even f then f else f + 1)"

definition pad2 :: "nat \<Rightarrow> string" where
  "pad2 n = (if n < 10 then CHR ''0'' # nat_dec n else nat_dec n)"

definition hundredths :: "rat \<Rightarrow> nat" where
  "hundredths r = nat (round_half_even (\<bar>r\<bar> * 100))"

definition fmt_2f :: "rat \<Rightarrow> string" where
  "fmt_2f r = (if r < 0 then ''-'' else []) @ nat_dec (hundredths r div 100) @ ''.'' @ pad2 (hundredths r mod 100)"

text \<open>The value that \<open>%.2f\<close> shows.\<close>

definition round2 :: "rat \<Rightarrow> rat" where
  "round2 r = (if r < 0 then -1 else 1) * of_nat (hundredths r) / 100"

section \<open>Dates\<close>

definition is_leap :: "nat \<Rightarrow> bool" where
  "is_leap y = (4 dvd y \<and> (\<not> 100 dvd y \<or> 400 dvd y))"

definition month_days :: "nat \<Rightarrow> nat \<Rightarrow> nat" where
  "month_days y m =
     (if m = 2 then (if is_leap y then 29 else 28) else if m \<in> {4, 6, 9, 11} then 30 else 31)"

text \<open>Days from 0001-01-01 to the first day of a year, of a month in its year, and to a date.\<close>

definition days_before_year :: "nat \<Rightarrow> int" where
  "days_before_year y = (let p = int y - 1 in 365 * p + p div 4 - p div 100 + p div 400)"

definition days_before_month :: "nat \<Rightarrow> nat \<Rightarrow> nat" where
  "days_before_month y m = (\<Sum>k\<leftarrow>[1..<m]. month_days y k)"

definition day_number :: "nat \<times> nat \<times> nat \<Rightarrow> int" where
  "day_number = (\<lambda>(y, m, d). days_before_year y + int (days_before_month y m) + int d - 1)"

lemma days_before_year_Suc:
  "days_before_year (Suc m) = 365 * int m + int (m div 4) - int (m div 100) + int (m div 400)"
  by (simp add: days_before_year_def Let_def zdiv_int)

lemma days_before_year_ge: "int y \<le> days_before_year (y + 1)"
proof -
  have "y div 100 \<le> y" by simp
  then show ?thesis unfolding Suc_eq_plus1 [symmetric] days_before_year_Suc by linarith
qed

text \<open>The year that contains day \<open>n\<close>, searched upwards from \<open>y\<close>.\<close>

function year_from :: "nat \<Rightarrow> int \<Rightarrow> nat" where
  "year_from y n = (if n < days_before_year (y + 1) then y else year_from (y + 1) n)"
  by pat_completeness auto
termination
proof (relation "measure (\<lambda>(y, n). nat (n + 1 - int y))")
  show "((y + 1, n), y, n) \<in> measure (\<lambda>(y, n). nat (n + 1 - int y))" if "\<not> n < days_before_year (y + 1)" for y n
    using days_before_year_ge [of y] that by simp
qed simp

declare year_from.simps [simp del]

fun month_from :: "nat \<Rightarrow> nat \<Rightarrow> nat \<Rightarrow> nat \<Rightarrow> nat \<times> nat" where
  "month_from 0 y m k = (m, k)"
| "month_from (Suc i) y m k =
     (if k < month_days y m then (m, k) else month_from i y (m + 1) (k - month_days y m))"

definition date_of_day :: "int \<Rightarrow> nat \<times> nat \<times> nat" where
  "date_of_day n =
     (let y = year_from (nat (n div 366) + 1) n; (m, k) = month_from 11 y 1 (nat (n - days_before_year y))
      in (y, m, k + 1))"

text \<open>The layout \<open>2006-01-02\<close>: formatting for the years 0 to 9999, and parsing.\<close>

definition fmt_date :: "nat \<times> nat \<times> nat \<Rightarrow> string" where
  "fmt_date = (\<lambda>(y, m, d). dec04 (int y) @ ''-'' @ pad2 m @ ''-'' @ pad2 d)"

fun parse_date :: "string \<Rightarrow> (nat \<times> nat \<times> nat) option" where
  "parse_date [a, b, c, d, s1, e, f, s2, g, h] =
     (let y = dec_val [a, b, c, d]; m = dec_val [e, f]; k = dec_val [g, h]
      in if list_all is_digit [a, b, c, d, e, f, g, h] \<and> s1 = CHR ''-'' \<and> s2 = CHR ''-'' \<and>
            1 \<le> m \<and> m \<le> 12 \<and> 1 \<le> k \<and> k \<le> month_days y m
         then Some (y, m, k) else None)"
| "parse_date _ = None"

definition day_ns :: int where "day_ns = 24 * 3600 * 10 ^ 9"

text \<open>1970-01-01 is day 719162.\<close>

definition time_day :: "int \<Rightarrow> int \<Rightarrow> int" where
  "time_day zone t = (t + zone) div day_ns + 719162"

definition time_date :: "int \<Rightarrow> int \<Rightarrow> nat \<times> nat \<times> nat" where
  "time_date zone t = date_of_day (time_day zone t)"

definition date_time :: "nat \<times> nat \<times> nat \<Rightarrow> int" where
  "date_time dt = (day_number dt - 719162) * day_ns"

section \<open>The writer\<close>

record markdown_entry =
  mk_section :: string
  mk_key :: string
  mk_value :: string
  mk_source :: string
  mk_version :: int
  mk_confidence :: rat
  mk_updated :: int

definition item_to_markdown :: "memory_item \<Rightarrow> markdown_entry" where
  "item_to_markdown f =
     \<lparr>mk_section = mi_section f, mk_key = mi_key f, mk_value = mi_value f, mk_source = mi_source f,
      mk_version = mi_version f, mk_confidence = mi_confidence f, mk_updated = mi_updated f\<rparr>"

definition markdown_to_item :: "markdown_entry \<Rightarrow> memory_item" where
  "markdown_to_item e =
     \<lparr>mi_section = mk_section e, mi_key = mk_key e, mi_value = mk_value e, mi_source = mk_source e,
      mi_version = mk_version e, mi_confidence = mk_confidence e, mi_updated = mk_updated e\<rparr>"

text \<open>The loop over the entries: the groups in the order of their first entry, each with its title.\<close>

definition add_to_group :: "(string \<Rightarrow> string) \<Rightarrow> markdown_entry \<Rightarrow>
    (string \<times> string \<times> markdown_entry list) list \<Rightarrow> (string \<times> string \<times> markdown_entry list) list" where
  "add_to_group lower e gs =
     (let k = lower (go_trim_space (mk_section e)) in
      if k \<in> set (map fst gs)
      then map (\<lambda>(k', t, es). (k', t, if k' = k then es @ [e] else es)) gs
      else gs @ [(k, mk_section e, [e])])"

definition group_entries :: "(string \<Rightarrow> string) \<Rightarrow> markdown_entry list \<Rightarrow>
    (string \<times> string \<times> markdown_entry list) list" where
  "group_entries lower es = fold (add_to_group lower) es []"

definition entry_meta :: "int \<Rightarrow> markdown_entry \<Rightarrow> string" where
  "entry_meta zone e =
     (let date = fmt_date (time_date zone (mk_updated e)) in
      if mk_source e \<noteq> []
      then [backtick] @ ''v'' @ int_dec (mk_version e) @ '' c'' @ fmt_2f (mk_confidence e) @ '' '' @ date @
           '' src='' @ query_escape (mk_source e) @ [backtick]
      else [backtick] @ ''v'' @ int_dec (mk_version e) @ '' c'' @ fmt_2f (mk_confidence e) @ '' '' @ date @ [backtick])"

definition entry_text :: "int \<Rightarrow> markdown_entry \<Rightarrow> string" where
  "entry_text zone e = ''- '' @ mk_key e @ '': '' @ mk_value e @ ''  '' @ entry_meta zone e @ [newline]"

definition format_markdown :: "(string \<Rightarrow> string) \<Rightarrow> int \<Rightarrow> markdown_entry list \<Rightarrow> string" where
  "format_markdown lower zone es =
     ''# Project Memory'' @ [newline, newline] @
     concat (map (\<lambda>(k, t, es). ''## '' @ t @ [newline] @ concat (map (entry_text zone) es) @ [newline])
       (group_entries lower es))"

section \<open>The parser\<close>

record meta_values =
  mv_version :: int
  mv_confidence :: rat
  mv_updated :: int
  mv_source :: string

definition parse_meta_part :: "string \<Rightarrow> meta_values \<Rightarrow> meta_values" where
  "parse_meta_part p v =
     (let v1 = (case strip_prefix ''src='' p of
                  None \<Rightarrow> v
                | Some r \<Rightarrow> (case query_unescape r of None \<Rightarrow> v | Some s \<Rightarrow> v\<lparr>mv_source := s\<rparr>));
          v2 = (if prefix ''v'' p then (case go_atoi (tl p) of None \<Rightarrow> v1 | Some i \<Rightarrow> v1\<lparr>mv_version := i\<rparr>) else v1);
          v3 = (if prefix ''c'' p then (case parse_float (tl p) of None \<Rightarrow> v2 | Some c \<Rightarrow> v2\<lparr>mv_confidence := c\<rparr>) else v2)
      in case parse_date p of None \<Rightarrow> v3 | Some dt \<Rightarrow> v3\<lparr>mv_updated := date_time dt\<rparr>)"

definition parse_markdown_meta :: "string \<Rightarrow> meta_values \<Rightarrow> meta_values" where
  "parse_markdown_meta meta v = fold parse_meta_part (go_fields (trim_char backtick meta)) v"

text \<open>The body of the loop over the lines; the state is the current section and the entries.\<close>

definition parse_line :: "int \<Rightarrow> string \<Rightarrow> string \<times> markdown_entry list \<Rightarrow> string \<times> markdown_entry list" where
  "parse_line now line = (\<lambda>(sec, es).
     let t = go_trim_space line in
     if prefix ''## '' t then (go_trim_space (drop 3 t), es)
     else if prefix ''- '' t \<and> sec \<noteq> [] then
       (let rest = drop 2 t in
        case go_index rest '': '' of
          None \<Rightarrow> (sec, es)
        | Some i \<Rightarrow>
            if i = 0 then (sec, es)
            else
              (let key = go_trim_space (take i rest);
                   rv = go_trim_space (drop (i + 2) rest);
                   v0 = \<lparr>mv_version = 1, mv_confidence = 1, mv_updated = now, mv_source = []\<rparr>;
                   (value, v) = (case go_last_index rv [backtick, CHR ''v''] of
                       Some j \<Rightarrow> if j > 0 then (go_trim_space (take j rv), parse_markdown_meta (drop j rv) v0) else (rv, v0)
                     | None \<Rightarrow> (rv, v0))
               in (sec, es @ [\<lparr>mk_section = sec, mk_key = key, mk_value = value, mk_source = mv_source v,
                    mk_version = mv_version v, mk_confidence = mv_confidence v, mk_updated = mv_updated v\<rparr>])))
     else (sec, es))"

text \<open>\<open>bufio.Scanner\<close> with its buffer of 65536 bytes: the lines before the first one that does not fit, and
  whether there was one.\<close>

definition drop_cr :: "string \<Rightarrow> string" where
  "drop_cr l = (if l \<noteq> [] \<and> last l = CHR 0x0D then butlast l else l)"

definition scan_lines :: "string \<Rightarrow> string list \<times> bool" where
  "scan_lines data =
     (let ls = split_char newline data;
          ls' = (if last ls = [] then butlast ls else ls);
          ok = takeWhile (\<lambda>l. length l < 65536) ls'
      in (map drop_cr ok, length ok < length ls'))"

definition parse_markdown :: "int \<Rightarrow> string \<Rightarrow> markdown_entry list \<times> err option" where
  "parse_markdown now data =
     (let (ls, too_long) = scan_lines data
      in (snd (fold (parse_line now) ls ([], [])),
          if too_long then Some (ErrOther ''bufio.Scanner: token too long'') else None))"

section \<open>Calendar\<close>

lemma year_from_correct:
  "days_before_year y \<le> n \<Longrightarrow>
   days_before_year (year_from y n) \<le> n \<and> n < days_before_year (year_from y n + 1) \<and> y \<le> year_from y n"
proof (induction y n rule: year_from.induct)
  case (1 y n)
  then show ?case by (cases "n < days_before_year (y + 1)") (auto simp: year_from.simps [of y n])
qed

lemma days_before_year_366: "0 \<le> n \<Longrightarrow> days_before_year (nat (n div 366) + 1) \<le> n"
proof -
  assume n: "0 \<le> n"
  let ?q = "nat (n div 366)"
  have "?q div 4 \<le> ?q" "?q div 400 \<le> ?q div 100" by (simp_all add: div_le_mono2)
  moreover have "366 * (n div 366) + n mod 366 = n" "0 \<le> n mod 366" by simp_all
  then have "366 * int ?q \<le> n" using n by (simp add: pos_imp_zdiv_nonneg_iff)
  ultimately show ?thesis unfolding Suc_eq_plus1 [symmetric] days_before_year_Suc by linarith
qed

lemma year_length: "1 \<le> y \<Longrightarrow> days_before_year (y + 1) = days_before_year y + int (if is_leap y then 366 else 365)"
proof -
  assume "1 \<le> y"
  then obtain m where y: "y = Suc m" by (cases y) auto
  have "Suc m div k = m div k + (if k dvd Suc m then 1 else 0)" for k
    by (simp add: div_Suc dvd_eq_mod_eq_0)
  then show ?thesis
    by (simp add: y days_before_year_Suc is_leap_def) auto
qed

lemma days_before_month_Suc: "1 \<le> m \<Longrightarrow> days_before_month y (m + 1) = days_before_month y m + month_days y m"
  by (simp add: days_before_month_def)

lemma month_from_correct:
  "m + i = 12 \<Longrightarrow> 1 \<le> m \<Longrightarrow> days_before_month y m + k < days_before_month y 13 \<Longrightarrow>
   month_from i y m k = (m', k') \<Longrightarrow>
   1 \<le> m' \<and> m' \<le> 12 \<and> k' < month_days y m' \<and> days_before_month y m' + k' = days_before_month y m + k"
proof (induction i arbitrary: m k)
  case 0
  then have "m = 12" by simp
  with 0 days_before_month_Suc [of 12 y] show ?case by auto
next
  case (Suc i)
  show ?case
  proof (cases "k < month_days y m")
    case False
    with Suc.prems have "month_from i y (m + 1) (k - month_days y m) = (m', k')" by simp
    with Suc.IH [of "m + 1" "k - month_days y m"] Suc.prems False days_before_month_Suc [OF Suc.prems(2), of y]
    show ?thesis by auto
  qed (use Suc.prems in auto)
qed

lemma year_total: "days_before_month y 13 = (if is_leap y then 366 else 365)"
  by (simp add: days_before_month_def month_days_def upt_conv_Cons numeral_eq_Suc)

text \<open>The date of a day is a valid date, and it is the date of that day only.\<close>

lemma date_of_day_correct:
  assumes "0 \<le> n" "date_of_day n = (y, m, d)"
  shows "1 \<le> y \<and> 1 \<le> m \<and> m \<le> 12 \<and> 1 \<le> d \<and> d \<le> month_days y m \<and> day_number (y, m, d) = n"
proof -
  let ?y = "year_from (nat (n div 366) + 1) n"
  note yr = year_from_correct [OF days_before_year_366 [OF assms(1)]]
  obtain m' k' where mk: "month_from 11 ?y 1 (nat (n - days_before_year ?y)) = (m', k')" by fastforce
  have y1: "1 \<le> ?y" using yr by linarith
  have "n - days_before_year ?y < int (if is_leap ?y then 366 else 365)" "0 \<le> n - days_before_year ?y"
    using yr year_length [OF y1] by linarith+
  then have "nat (n - days_before_year ?y) < days_before_month ?y 13"
    unfolding year_total by (simp only: nat_less_iff)
  then have mc: "1 \<le> m' \<and> m' \<le> 12 \<and> k' < month_days ?y m'"
    and e: "days_before_month ?y m' + k' = nat (n - days_before_year ?y)"
    using month_from_correct [OF _ _ _ mk] by (simp_all add: days_before_month_def)
  have ymd: "y = ?y" "m = m'" "d = k' + 1"
    using assms(2) mk by (simp_all add: date_of_day_def Let_def)
  have "int (days_before_month ?y m' + k') = n - days_before_year ?y"
    unfolding e using yr by simp
  then show ?thesis using y1 mc by (simp add: day_number_def ymd)
qed

section \<open>Numerals are read back\<close>

lemma is_digit_char [simp]: "d < 10 \<Longrightarrow> is_digit (digit_char d)"
  by (simp add: is_digit_def)

lemma nat_dec_is_digit: "c \<in> set (nat_dec n) \<Longrightarrow> is_digit c"
  using nat_dec_digits [of c n] by (simp add: is_digit_def)

lemma nat_dec_small: "n < 10 \<Longrightarrow> nat_dec n = [digit_char n]"
  by (simp add: nat_dec.simps [of n])

lemma nat_dec_large: "10 \<le> n \<Longrightarrow> nat_dec n = nat_dec (n div 10) @ [digit_char (n mod 10)]"
  by (simp add: nat_dec.simps [of n])

lemma nat_dec_nonempty [simp]: "nat_dec n \<noteq> []"
  by (simp add: nat_dec.simps [of n])

lemma zero_char: "CHR ''0'' = digit_char 0"
proof -
  have "(of_char CHR ''0'' :: nat) = of_char (digit_char 0)" by simp
  then show ?thesis by (simp only: of_char_eq_iff)
qed

lemma pad2_digits: "n < 100 \<Longrightarrow> pad2 n = [digit_char (n div 10), digit_char (n mod 10)]"
  by (cases "n < 10") (simp_all add: pad2_def nat_dec_small nat_dec_large zero_char)

lemma pad_lengths:
  "4 - length [a] = Suc (Suc (Suc 0))" "4 - length [a, b] = Suc (Suc 0)" "4 - length [a, b, c] = Suc 0"
  "4 - length [a, b, c, d] = 0"
  by simp_all

lemma zeros_digits3: "zeros 0 = []" "zeros (Suc k) = digit_char 0 # zeros k"
  by (simp_all add: zeros_def zero_char)

lemma tens: "(y :: nat) div 10 div 10 = y div 100" "y div 100 div 10 = y div 1000"
  using div_mult2_eq [of y 10 10] div_mult2_eq [of y 100 10] by simp_all

lemma dec04_digits:
  assumes "y < 10000"
  shows "dec04 (int y) = [digit_char (y div 1000), digit_char (y div 100 mod 10), digit_char (y div 10 mod 10), digit_char (y mod 10)]"
proof -
  have d: "dec04 (int y) = zeros (4 - length (nat_dec y)) @ nat_dec y" by (simp add: dec04_def Let_def)
  consider "y < 10" | "10 \<le> y" "y < 100" | "100 \<le> y" "y < 1000" | "1000 \<le> y" by linarith
  then show ?thesis
  proof cases
    case 1
    then have z: "y div 1000 = 0" "y div 100 = 0" "y div 10 = 0" "y mod 10 = y" by simp_all
    show ?thesis unfolding d nat_dec_small [OF 1] pad_lengths zeros_digits3 by (simp only: z append.simps mod_0)
  next
    case 2
    then have z: "y div 1000 = 0" "y div 100 = 0" "y div 10 mod 10 = y div 10" and lt: "y div 10 < 10" by simp_all
    have n: "nat_dec y = [digit_char (y div 10), digit_char (y mod 10)]"
      using nat_dec_large [OF 2(1)] nat_dec_small [OF lt] by (simp only: append.simps)
    show ?thesis unfolding d n pad_lengths zeros_digits3 by (simp only: z append.simps mod_0)
  next
    case 3
    then have z: "y div 1000 = 0" "y div 100 mod 10 = y div 100" and lt: "y div 100 < 10" "10 \<le> y" "10 \<le> y div 10" by simp_all
    have n: "nat_dec y = [digit_char (y div 100), digit_char (y div 10 mod 10), digit_char (y mod 10)]"
      using nat_dec_large [OF lt(2)] nat_dec_large [OF lt(3)] nat_dec_small [OF lt(1)] by (simp only: tens append.simps)
    show ?thesis unfolding d n pad_lengths zeros_digits3 by (simp only: z append.simps)
  next
    case 4
    then have z: "y div 1000 < 10" "10 \<le> y" "10 \<le> y div 10" "10 \<le> y div 100" using assms by simp_all
    have n: "nat_dec y = [digit_char (y div 1000), digit_char (y div 100 mod 10), digit_char (y div 10 mod 10), digit_char (y mod 10)]"
      using nat_dec_large [OF z(2)] nat_dec_large [OF z(3)] nat_dec_large [OF z(4)] nat_dec_small [OF z(1)] by (simp only: tens append.simps)
    show ?thesis unfolding d n pad_lengths zeros_digits3 by (simp only: append.simps)
  qed
qed

lemma dec_val_two: "a < 10 \<Longrightarrow> b < 10 \<Longrightarrow> dec_val [digit_char a, digit_char b] = 10 * a + b"
  by (simp add: dec_val_def)

lemma dec_val_four: "a < 10 \<Longrightarrow> b < 10 \<Longrightarrow> c < 10 \<Longrightarrow> d < 10 \<Longrightarrow>
   dec_val [digit_char a, digit_char b, digit_char c, digit_char d] = 1000 * a + 100 * b + 10 * c + d"
  by (simp add: dec_val_def)

lemma month_days_le: "month_days y m \<le> 31"
  by (simp add: month_days_def)

lemma parse_fmt_date:
  assumes "y < 10000" "1 \<le> m" "m \<le> 12" "1 \<le> d" "d \<le> month_days y m"
  shows "parse_date (fmt_date (y, m, d)) = Some (y, m, d)"
proof -
  have d: "d < 100" using assms(5) month_days_le [of y m] by simp
  have y4: "1000 * (y div 1000) + 100 * (y div 100 mod 10) + 10 * (y div 10 mod 10) + y mod 10 = y"
    using mult_div_mod_eq [of 10 y] mult_div_mod_eq [of 10 "y div 10"] mult_div_mod_eq [of 10 "y div 100"]
    unfolding tens by linarith
  have b: "y div 1000 < 10" using assms(1) by simp
  have lt: "m < 100" "m div 10 < 10" "d div 10 < 10" "\<And>k :: nat. k mod 10 < 10" using assms(3) d by simp_all
  have e: "fmt_date (y, m, d) =
      [digit_char (y div 1000), digit_char (y div 100 mod 10), digit_char (y div 10 mod 10), digit_char (y mod 10), CHR ''-'',
       digit_char (m div 10), digit_char (m mod 10), CHR ''-'', digit_char (d div 10), digit_char (d mod 10)]"
    unfolding fmt_date_def split_conv dec04_digits [OF assms(1)] pad2_digits [OF lt(1)] pad2_digits [OF d] by simp
  have v: "dec_val [digit_char (y div 1000), digit_char (y div 100 mod 10), digit_char (y div 10 mod 10), digit_char (y mod 10)] = y"
    unfolding dec_val_four [OF b lt(4) lt(4) lt(4)] by (rule y4)
  have m: "dec_val [digit_char (m div 10), digit_char (m mod 10)] = m"
    unfolding dec_val_two [OF lt(2) lt(4)] by (rule mult_div_mod_eq)
  have k: "dec_val [digit_char (d div 10), digit_char (d mod 10)] = d"
    unfolding dec_val_two [OF lt(3) lt(4)] by (rule mult_div_mod_eq)
  have dg: "list_all is_digit [digit_char (y div 1000), digit_char (y div 100 mod 10), digit_char (y div 10 mod 10),
      digit_char (y mod 10), digit_char (m div 10), digit_char (m mod 10), digit_char (d div 10), digit_char (d mod 10)]"
    by (simp only: list.pred_inject is_digit_char b lt simp_thms)
  show ?thesis
    unfolding e parse_date.simps Let_def v m k by (rule if_P, intro conjI) (rule dg refl assms)+
qed

lemma dec_val_append: "dec_val (a @ b) = dec_val a * 10 ^ length b + dec_val b"
proof (induction b rule: rev_induct)
  case (snoc c b)
  then show ?case by (simp add: dec_val_snoc append_assoc [symmetric] algebra_simps del: append_assoc)
qed (simp add: dec_val_def)

lemma go_atoi_int_dec:
  assumes "- (2 ^ 63) \<le> i" "i < 2 ^ 63"
  shows "go_atoi (int_dec i) = Some i"
proof -
  have ds: "list_all is_digit (nat_dec n)" for n by (auto simp: list_all_iff nat_dec_is_digit)
  obtain c r where r: "nat_dec (nat i) = c # r" by (cases "nat_dec (nat i)") auto
  then have "is_digit c" using nat_dec_is_digit [of c "nat i"] by simp
  then have "c \<noteq> CHR ''-''" "c \<noteq> CHR ''+''" by (auto simp: is_digit_def)
  moreover have "list_all is_digit (c # r)" "dec_val (c # r) = nat i"
    using ds [of "nat i"] dec_val_nat_dec [of "nat i"] unfolding r by blast+
  ultimately show ?thesis
    using assms by (cases "i < 0") (simp_all add: go_atoi_def int_dec_def ds r Let_def)
qed

lemma takeWhile_digits: "(\<forall>c \<in> set a. is_digit c) \<Longrightarrow> \<not> is_digit x \<Longrightarrow>
   takeWhile is_digit (a @ x # b) = a \<and> dropWhile is_digit (a @ x # b) = x # b"
  by (induction a) auto

lemma parse_float_body:
  assumes "\<forall>c \<in> set ip. is_digit c" "list_all is_digit fp" "ip \<noteq> []" "length fp = 2"
  shows "parse_float ((if neg then ''-'' else []) @ ip @ ''.'' @ fp)
    = Some ((if neg then -1 else 1) * of_nat (dec_val (ip @ fp)) / 100)"
proof -
  obtain c q where q: "ip = c # q" using assms(3) by (cases ip) auto
  then have c: "c \<noteq> CHR ''-''" "c \<noteq> CHR ''+''" using assms(1) by (auto simp: is_digit_def)
  have dot: "\<not> is_digit CHR ''.''" by (simp add: is_digit_def)
  have f: "takeWhile is_digit fp = fp" "dropWhile is_digit fp = []"
    using assms(2) by (simp_all add: list_all_iff)
  note tw = takeWhile_digits [OF assms(1) dot, of fp]
  have "parse_float s = Some ((if neg then -1 else 1) * of_nat (dec_val (ip @ fp)) / 100)"
    if "(case s of c # r \<Rightarrow> if c = CHR ''-'' then (True, r) else if c = CHR ''+'' then (False, r) else (False, s)
          | [] \<Rightarrow> (False, [])) = (neg, ip @ CHR ''.'' # fp)" for s
    unfolding parse_float_def that Let_def split_conv using assms(3,4)
    by (simp add: tw f parse_exponent_def ten_pow_def)
  then show ?thesis using c q by (cases neg) simp_all
qed

lemma ten_two: "(10 :: nat) ^ length [a, b] = 100"
  by simp

lemma hundred_split: "h div 100 * 100 + (10 * (h mod 100 div 10) + h mod 10) = (h :: nat)"
proof -
  have "h mod 100 mod 10 = h mod 10" by (rule mod_mod_cancel) simp
  then show ?thesis using div_mult_mod_eq [of h 100] mult_div_mod_eq [of 10 "h mod 100"] by linarith
qed

lemma parse_float_fmt: "parse_float (fmt_2f r) = Some (round2 r)"
proof -
  let ?h = "hundredths r"
  let ?fp = "[digit_char (?h mod 100 div 10), digit_char (?h mod 10)]"
  have fp: "pad2 (?h mod 100) = ?fp" using pad2_digits [of "?h mod 100"] by (simp add: mod_mod_cancel)
  have small: "?h mod 100 div 10 < 10" by simp
  have dg: "\<forall>c \<in> set (nat_dec (?h div 100)). is_digit c" by (simp add: nat_dec_is_digit)
  have "dec_val (nat_dec (?h div 100) @ ?fp) = ?h"
    unfolding dec_val_append dec_val_nat_dec dec_val_two [OF small mod_less_divisor [OF zero_less_numeral]]
    using hundred_split [of ?h] by (simp only: ten_two)
  moreover have "list_all is_digit ?fp" using small by simp
  ultimately show ?thesis
    using parse_float_body [of "nat_dec (?h div 100)" ?fp "r < 0"] dg
    by (simp add: fmt_2f_def fp round2_def list_all_iff)
qed

section \<open>Fields\<close>

text \<open>Printable ASCII without the space: such a byte is neither the first nor the last of a space.\<close>

definition plain :: "char \<Rightarrow> bool" where
  "plain c = (let n = of_char c :: nat in 32 < n \<and> n < 127)"

lemma space_ends: "p \<in> set go_spaces \<Longrightarrow> p \<noteq> [] \<and> \<not> plain (hd p) \<and> \<not> plain (last p)"
  by (auto simp: go_spaces_def plain_def)

lemma space_single: "p \<in> set go_spaces \<Longrightarrow> CHR '' '' \<in> set p \<Longrightarrow> p = '' ''"
  by (auto simp: go_spaces_def)

lemma space_at_plain: "plain c \<Longrightarrow> space_at (c # s) = None"
proof -
  assume "plain c"
  then have "strip_prefix p (c # s) = None" if "p \<in> set go_spaces" for p
    using space_ends [OF that] by (cases p) auto
  then show ?thesis by (simp add: space_at_def)
qed

lemma space_at_blank: "space_at (CHR '' '' # s) = Some s"
  by (simp add: space_at_def go_spaces_def)

lemma fields_end: "fields_go cur [] = (if cur = [] then [] else [cur])"
  by (simp add: fields_go.simps [of cur "[]"])

lemma fields_plain: "list_all plain w \<Longrightarrow> fields_go cur (w @ s) = fields_go (cur @ w) s"
proof (induction w arbitrary: cur)
  case (Cons c w)
  then show ?case by (simp add: fields_go.simps [of cur "c # w @ s"] space_at_plain)
qed simp

lemma fields_blank: "cur \<noteq> [] \<Longrightarrow> fields_go cur (CHR '' '' # s) = cur # fields_go [] s"
  by (simp add: fields_go.simps [of cur "CHR '' '' # s"] space_at_blank)

lemma go_fields_words: "list_all (\<lambda>w. w \<noteq> [] \<and> list_all plain w) ws \<Longrightarrow> go_fields (str_join '' '' ws) = ws"
proof (induction "'' ''" ws rule: str_join.induct)
  case (2 x)
  then show ?case using fields_plain [of x "[]" "[]"] by (simp add: go_fields_def fields_end)
next
  case (3 x y xs)
  then show ?case using fields_plain [of x "[]" "CHR '' '' # str_join '' '' (y # xs)"]
    by (simp add: go_fields_def fields_blank)
qed (simp add: go_fields_def fields_end)

section \<open>Trimming\<close>

lemma trim_plain:
  assumes "s \<noteq> []" "plain (hd s)" "plain (last s)"
  shows "go_trim_space s = s"
proof (rule go_trim_space_fix)
  fix p assume p: "p \<in> set go_spaces"
  show "\<not> prefix p s \<and> \<not> suffix p s"
    using space_ends [OF p] assms by (auto simp: prefix_def suffix_def)
qed

lemma trimmed_ends: "go_trim_space v = v \<Longrightarrow> p \<in> set go_spaces \<Longrightarrow> \<not> prefix p v \<and> \<not> suffix p v"
  by (metis go_trim_space_free)

lemma trimmed_start: "go_trim_space v = v \<Longrightarrow> v \<noteq> [] \<Longrightarrow> p \<in> set go_spaces \<Longrightarrow> \<not> prefix p (v @ CHR '' '' # w)"
proof
  assume v: "go_trim_space v = v" "v \<noteq> []" "p \<in> set go_spaces" "prefix p (v @ CHR '' '' # w)"
  then have "\<not> prefix p v" using trimmed_ends by blast
  with v(4) have "CHR '' '' \<in> set p" and "v \<noteq> [] \<longrightarrow> 1 < length p"
    by (auto simp: prefix_append prefix_Cons Suc_lessI)
  with v space_single [of p] show False by auto
qed

lemma trim_to_plain:
  assumes "go_trim_space v = v" "v \<noteq> []" "w \<noteq> []" "plain (last w)"
  shows "go_trim_space (v @ CHR '' '' # w) = v @ CHR '' '' # w"
proof (rule go_trim_space_fix)
  fix p assume p: "p \<in> set go_spaces"
  have "last (v @ CHR '' '' # w) = last p" if "suffix p (v @ CHR '' '' # w)"
    using that space_ends [OF p] by (metis last_appendR suffix_def)
  then show "\<not> prefix p (v @ CHR '' '' # w) \<and> \<not> suffix p (v @ CHR '' '' # w)"
    using trimmed_start [OF assms(1,2) p] space_ends [OF p] assms(3,4) by auto
qed

lemma trim_trailing: "trim_seq (map rev go_spaces) (CHR '' '' # s) = trim_seq (map rev go_spaces) s"
  by (subst trim_seq_Some [of _ _ s]) (simp_all add: go_spaces_def)

lemma trim_blanks:
  assumes "go_trim_space v = v" "v \<noteq> []"
  shows "go_trim_space (v @ ''  '') = v"
proof -
  have "trim_seq go_spaces (v @ ''  '') = v @ ''  ''"
    by (rule trim_seq_fix) (use trimmed_start [OF assms, of _ "'' ''"] in auto)
  moreover have "trim_seq (map rev go_spaces) (rev v) = rev v"
    by (rule trim_seq_fix) (use trimmed_ends [OF assms(1)] in \<open>auto simp: suffix_to_prefix\<close>)
  ultimately show ?thesis by (simp add: go_trim_space_def trim_trailing)
qed

lemma trim_title:
  assumes "go_trim_space t = t" "t \<noteq> []"
  shows "go_trim_space (''## '' @ t) = ''## '' @ t"
proof (rule go_trim_space_fix)
  fix p assume p: "p \<in> set go_spaces"
  have "\<not> suffix p (''## '' @ t)"
  proof
    assume s: "suffix p (''## '' @ t)"
    have "\<not> suffix p t" using trimmed_ends [OF assms(1) p] by blast
    with s have "CHR '' '' \<in> set p" and "1 < length p"
      using assms(2) by (auto simp: suffix_append suffix_Cons)
    with space_single [OF p] show False by auto
  qed
  then show "\<not> prefix p (''## '' @ t) \<and> \<not> suffix p (''## '' @ t)"
    using space_ends [OF p] by (cases p) (auto simp: plain_def)
qed

section \<open>The meta text is read back\<close>

lemma parse_date_first: "\<not> is_digit c \<Longrightarrow> parse_date (c # s) = None"
  by (cases "c # s" rule: parse_date.cases) auto

lemma letters_no_digit: "\<not> is_digit CHR ''v''" "\<not> is_digit CHR ''c''" "\<not> is_digit CHR ''s''"
  by (simp_all add: is_digit_def)

lemma part_version: "- (2 ^ 63) \<le> i \<Longrightarrow> i < 2 ^ 63 \<Longrightarrow> parse_meta_part (''v'' @ int_dec i) v = v\<lparr>mv_version := i\<rparr>"
  by (simp add: parse_meta_part_def parse_date_first letters_no_digit go_atoi_int_dec)

lemma part_confidence: "parse_meta_part (''c'' @ fmt_2f r) v = v\<lparr>mv_confidence := round2 r\<rparr>"
  by (simp add: parse_meta_part_def parse_date_first letters_no_digit parse_float_fmt)

lemma part_source: "parse_meta_part (''src='' @ query_escape s) v = v\<lparr>mv_source := s\<rparr>"
  using strip_prefix_self [of "''src=''" "query_escape s"]
  by (simp add: parse_meta_part_def parse_date_first letters_no_digit)

lemma fmt_date_digits: "list_all (\<lambda>c. is_digit c \<or> c = CHR ''-'') (fmt_date (y, m, d)) \<and> is_digit (hd (fmt_date (y, m, d))) \<and> fmt_date (y, m, d) \<noteq> []"
proof -
  have zero: "is_digit CHR ''0''" by (simp add: is_digit_def)
  have "list_all is_digit (nat_dec n)" "list_all is_digit (pad2 n)" "list_all is_digit (dec04 (int n))" for n
    using nat_dec_is_digit zero by (auto simp: list_all_iff pad2_def dec04_def zeros_def Let_def split: if_splits)
  moreover have "dec04 (int y) \<noteq> []" by (simp add: dec04_def Let_def)
  ultimately show ?thesis
    using hd_in_set [of "dec04 (int y)"] by (auto simp: fmt_date_def list_all_iff simp del: hd_in_set)
qed

lemma part_date:
  assumes "parse_date (fmt_date (y, m, d)) = Some (y, m, d)"
  shows "parse_meta_part (fmt_date (y, m, d)) v = v\<lparr>mv_updated := date_time (y, m, d)\<rparr>"
proof -
  obtain c r where f: "fmt_date (y, m, d) = c # r" "is_digit c"
    using fmt_date_digits [of y m d] by (cases "fmt_date (y, m, d)") auto
  then have "c \<noteq> CHR ''v''" "c \<noteq> CHR ''c''" "c \<noteq> CHR ''s''" using letters_no_digit by metis+
  with assms f(1) show ?thesis by (simp add: parse_meta_part_def)
qed

text \<open>The fields of the meta text of an entry.\<close>

definition meta_fields :: "int \<Rightarrow> markdown_entry \<Rightarrow> string list" where
  "meta_fields zone e =
     [''v'' @ int_dec (mk_version e), ''c'' @ fmt_2f (mk_confidence e), fmt_date (time_date zone (mk_updated e))] @
     (if mk_source e = [] then [] else [''src='' @ query_escape (mk_source e)])"

definition word_char :: "char \<Rightarrow> bool" where
  "word_char c = (plain c \<and> c \<noteq> backtick)"

lemma digit_word: "is_digit c \<Longrightarrow> word_char c"
  by (auto simp: is_digit_def word_char_def plain_def backtick_def Let_def)

lemma escaped_word: "list_all word_char (query_escape s)"
proof -
  have "word_char c" if "unreserved c \<or> c = CHR ''+'' \<or> c = CHR ''%''" for c
    using that by (auto simp: word_char_def plain_def backtick_def unreserved_def Let_def)
  then show ?thesis using escape_chars by (simp add: list_all_iff)
qed

lemma words_numbers: "list_all word_char (nat_dec n)" "list_all word_char (pad2 n)" "list_all word_char (int_dec i)"
  "list_all word_char (fmt_2f r)" "list_all word_char (fmt_date dt)"
proof -
  have d: "list_all word_char (nat_dec n)" for n
    using nat_dec_is_digit digit_word by (auto simp: list_all_iff)
  have p: "word_char CHR ''-''" "word_char CHR ''.''" "word_char CHR ''0''"
    by (simp_all add: word_char_def plain_def backtick_def)
  show "list_all word_char (nat_dec n)" "list_all word_char (int_dec i)" by (simp_all add: d p int_dec_def)
  show q: "list_all word_char (pad2 n)" for n by (simp add: d p pad2_def)
  show "list_all word_char (fmt_2f r)" using q by (simp add: d p fmt_2f_def)
  obtain y m k where "dt = (y, m, k)" by (cases dt)
  then show "list_all word_char (fmt_date dt)"
    using fmt_date_digits [of y m k] digit_word p by (auto simp: list_all_iff)
qed

lemma meta_fields_words: "w \<in> set (meta_fields zone e) \<Longrightarrow> w \<noteq> [] \<and> list_all word_char w"
proof -
  have "word_char CHR ''v''" "word_char CHR ''c''" "list_all word_char ''src=''"
    by (simp_all add: word_char_def plain_def backtick_def)
  moreover obtain y m d where "time_date zone (mk_updated e) = (y, m, d)" by (cases "time_date zone (mk_updated e)")
  moreover assume "w \<in> set (meta_fields zone e)"
  ultimately show ?thesis using fmt_date_digits [of y m d]
    by (auto simp: meta_fields_def words_numbers escaped_word split: if_splits)
qed

lemma meta_fields_nonempty: "meta_fields zone e \<noteq> []"
  by (simp add: meta_fields_def)

lemma entry_meta_fields: "entry_meta zone e = [backtick] @ str_join '' '' (meta_fields zone e) @ [backtick]"
  by (simp add: entry_meta_def meta_fields_def Let_def)

lemma trim_char_between:
  assumes "body \<noteq> []" "hd body \<noteq> c" "last body \<noteq> c"
  shows "trim_char c ([c] @ body @ [c]) = body"
proof -
  obtain x r where x: "body = x # r" "x \<noteq> c" using assms by (cases body) auto
  obtain y q where y: "rev body = y # q" "y \<noteq> c" using assms by (cases body rule: rev_cases) auto
  have "dropWhile (\<lambda>z. z = c) ([c] @ body @ [c]) = body @ [c]" using x by simp
  moreover have "dropWhile (\<lambda>z. z = c) (rev (body @ [c])) = rev body" using y by simp
  ultimately show ?thesis by (simp add: trim_char_def)
qed

lemma join_words:
  assumes "ws \<noteq> []" "\<And>w. w \<in> set ws \<Longrightarrow> w \<noteq> [] \<and> list_all word_char w"
  shows "str_join '' '' ws \<noteq> [] \<and> word_char (hd (str_join '' '' ws)) \<and> word_char (last (str_join '' '' ws)) \<and>
    backtick \<notin> set (str_join '' '' ws)"
  using assms
proof (induction "'' ''" ws rule: str_join.induct)
  case (2 x)
  then show ?case by (cases x) (auto simp: list_all_iff word_char_def)
next
  case (3 x y xs)
  then have "x \<noteq> []" "list_all word_char x" and r: "str_join '' '' (y # xs) \<noteq> [] \<and> word_char (last (str_join '' '' (y # xs))) \<and>
      backtick \<notin> set (str_join '' '' (y # xs))" by simp_all
  then show ?case by (cases x) (auto simp: list_all_iff word_char_def backtick_def)
qed simp

text \<open>What is left of a time after a round trip.\<close>

definition shown_time :: "int \<Rightarrow> int \<Rightarrow> int" where
  "shown_time zone t = date_time (time_date zone t)"

text \<open>Versions fit in a Go \<open>int\<close>, and the date is in the years 1 to 9999, where the layout is four digits.\<close>

definition numbers_ok :: "int \<Rightarrow> markdown_entry \<Rightarrow> bool" where
  "numbers_ok zone e =
     (- (2 ^ 63) \<le> mk_version e \<and> mk_version e < 2 ^ 63 \<and>
      0 \<le> time_day zone (mk_updated e) \<and> fst (time_date zone (mk_updated e)) < 10000)"

lemma meta_read_back:
  assumes "numbers_ok zone e" "mv_source v = []"
  shows "parse_markdown_meta (entry_meta zone e) v =
    \<lparr>mv_version = mk_version e, mv_confidence = round2 (mk_confidence e),
     mv_updated = shown_time zone (mk_updated e), mv_source = mk_source e\<rparr>"
proof -
  note w = meta_fields_words [of _ zone e]
  have "trim_char backtick (entry_meta zone e) = str_join '' '' (meta_fields zone e)"
    unfolding entry_meta_fields by (rule trim_char_between) (use join_words [OF meta_fields_nonempty w] in \<open>auto simp: word_char_def\<close>)
  moreover have "go_fields (str_join '' '' (meta_fields zone e)) = meta_fields zone e"
    by (rule go_fields_words) (use w in \<open>auto simp: list_all_iff word_char_def\<close>)
  moreover obtain y m d where dt: "time_date zone (mk_updated e) = (y, m, d)" by (cases "time_date zone (mk_updated e)")
  moreover have "parse_date (fmt_date (y, m, d)) = Some (y, m, d)"
    using date_of_day_correct [of "time_day zone (mk_updated e)" y m d] dt assms(1)
    by (intro parse_fmt_date) (simp_all add: numbers_ok_def time_date_def)
  moreover from this have "fold parse_meta_part (meta_fields zone e) v =
    \<lparr>mv_version = mk_version e, mv_confidence = round2 (mk_confidence e),
     mv_updated = shown_time zone (mk_updated e), mv_source = mk_source e\<rparr>"
    using assms dt unfolding meta_fields_def numbers_ok_def
    by (simp add: part_version [unfolded append.simps] part_confidence [unfolded append.simps] part_date
        part_source [unfolded append.simps] shown_time_def)
  ultimately show ?thesis by (simp only: parse_markdown_meta_def)
qed

section \<open>A line is read back\<close>

lemma last_index_here: "prefix sub (c # s) \<Longrightarrow> go_last_index s sub = None \<Longrightarrow> go_last_index (a @ c # s) sub = Some (length a)"
  by (induction a) auto

lemma no_meta_after: "backtick \<notin> set b \<Longrightarrow> go_last_index (b @ [backtick]) [backtick, CHR ''v''] = None"
proof -
  assume "backtick \<notin> set b"
  moreover have "backtick \<in> set (butlast (x @ [backtick, CHR ''v''] @ y))" for x y by (simp add: butlast_append)
  ultimately show ?thesis unfolding go_last_index_None by (metis butlast_snoc)
qed

definition text_ok :: "string \<Rightarrow> bool" where
  "text_ok s = (s \<noteq> [] \<and> go_trim_space s = s \<and> newline \<notin> set s)"

definition entry_line :: "int \<Rightarrow> markdown_entry \<Rightarrow> string" where
  "entry_line zone e = ''- '' @ mk_key e @ '': '' @ mk_value e @ ''  '' @ entry_meta zone e"

definition shown :: "int \<Rightarrow> string \<Rightarrow> markdown_entry \<Rightarrow> markdown_entry" where
  "shown zone t e = e\<lparr>mk_section := t, mk_confidence := round2 (mk_confidence e), mk_updated := shown_time zone (mk_updated e)\<rparr>"

definition entry_ok :: "int \<Rightarrow> markdown_entry \<Rightarrow> bool" where
  "entry_ok zone e =
     (text_ok (mk_key e) \<and> \<not> go_contains (mk_key e) '': '' \<and> text_ok (mk_value e) \<and> text_ok (mk_section e) \<and>
      numbers_ok zone e \<and> length (entry_line zone e) < 65536 \<and> length (mk_section e) < 65533)"

lemma key_end: "\<not> go_contains k '': '' \<Longrightarrow> go_index (k @ '': '' @ r) '': '' = Some (length k)"
proof (rule go_index_before)
  assume k: "\<not> go_contains k '': ''"
  have "k @ '':'' \<noteq> a @ '': '' @ b" for a b
  proof (cases b rule: rev_cases)
    case (snoc b' x)
    with k show ?thesis by (auto simp: go_contains_iff)
  qed simp
  then show "go_index (k @ butlast '': '') '': '' = None" by (simp add: go_index_None)
qed simp

lemma parse_entry:
  assumes "go_trim_space line = ''- '' @ k @ '': '' @ r" "sec \<noteq> []" "go_index (k @ '': '' @ r) '': '' = Some (length k)"
    and "k \<noteq> []" "go_trim_space k = k" "go_trim_space r = r" "go_last_index r [backtick, CHR ''v''] = Some j" "0 < j"
    and "parse_markdown_meta (drop j r) \<lparr>mv_version = 1, mv_confidence = 1, mv_updated = now, mv_source = []\<rparr> = v"
  shows "parse_line now line (sec, es) =
    (sec, es @ [\<lparr>mk_section = sec, mk_key = k, mk_value = go_trim_space (take j r), mk_source = mv_source v,
       mk_version = mv_version v, mk_confidence = mv_confidence v, mk_updated = mv_updated v\<rparr>])"
proof -
  have "drop 2 (''- '' @ k @ '': '' @ r) = k @ '': '' @ r" "drop (length k + 2) (k @ '': '' @ r) = r"
    "take (length k) (k @ '': '' @ r) = k" "prefix ''- '' (''- '' @ k @ '': '' @ r)" "\<not> prefix ''## '' (''- '' @ k @ '': '' @ r)"
    by simp_all
  then show ?thesis unfolding parse_line_def split_conv Let_def assms(1) using assms(2-) by (simp only: simp_thms if_True if_False option.case length_0_conv split_conv)
qed

lemma entry_line_parsed:
  assumes e: "entry_ok zone e" and sec: "sec \<noteq> []"
  shows "parse_line now (entry_line zone e) (sec, es) = (sec, es @ [shown zone sec e])"
proof -
  let ?m = "entry_meta zone e"
  have m: "?m = [backtick] @ str_join '' '' (meta_fields zone e) @ [backtick]" by (rule entry_meta_fields)
  have pb: "plain backtick" by (simp add: plain_def backtick_def)
  have jw: "backtick \<notin> set (str_join '' '' (meta_fields zone e))"
    using join_words [OF meta_fields_nonempty [of zone e] meta_fields_words [of _ zone e]] by blast
  obtain j where j: "str_join '' '' (meta_fields zone e) = CHR ''v'' # j" by (auto simp: meta_fields_def)
  have line: "go_trim_space (entry_line zone e) = entry_line zone e"
    by (rule trim_plain) (simp_all add: entry_line_def m pb, simp add: plain_def)
  have k: "text_ok (mk_key e)" "\<not> go_contains (mk_key e) '': ''" and v: "text_ok (mk_value e)" using e by (simp_all add: entry_ok_def)
  have rest: "go_trim_space (mk_value e @ ''  '' @ ?m) = mk_value e @ ''  '' @ ?m"
    using trim_to_plain [of "mk_value e" "CHR '' '' # ?m"] v by (simp add: text_ok_def m pb)
  have li: "go_last_index (mk_value e @ ''  '' @ ?m) [backtick, CHR ''v''] = Some (length (mk_value e) + 2)"
    using last_index_here [of "[backtick, CHR ''v'']" backtick "CHR ''v'' # j @ [backtick]" "mk_value e @ ''  ''"]
      no_meta_after [of "CHR ''v'' # j"] jw by (simp add: m j)
  have val: "go_trim_space (mk_value e @ ''  '') = mk_value e" using trim_blanks v by (simp add: text_ok_def)
  have n: "numbers_ok zone e" using e by (simp add: entry_ok_def)
  have key: "go_trim_space (mk_key e) = mk_key e" "mk_key e \<noteq> []" using k(1) by (simp_all add: text_ok_def)
  note p = parse_entry [OF line [unfolded entry_line_def] sec key_end [OF k(2)] key(2,1) rest li _ refl]
  have "take (length (mk_value e) + 2) (mk_value e @ ''  '' @ ?m) = mk_value e @ ''  ''"
    "drop (length (mk_value e) + 2) (mk_value e @ ''  '' @ ?m) = ?m" by simp_all
  with p show ?thesis by (simp add: meta_read_back [OF n] val shown_def entry_line_def del: append_Cons)
qed

section \<open>The file is read back\<close>

definition section_lines :: "int \<Rightarrow> string \<times> string \<times> markdown_entry list \<Rightarrow> string list" where
  "section_lines zone g = [''## '' @ fst (snd g)] @ map (entry_line zone) (snd (snd g)) @ [[]]"

definition memory_lines :: "(string \<Rightarrow> string) \<Rightarrow> int \<Rightarrow> markdown_entry list \<Rightarrow> string list" where
  "memory_lines lower zone es = [''# Project Memory'', []] @ concat (map (section_lines zone) (group_entries lower es))"

abbreviation unlines :: "string list \<Rightarrow> string" where
  "unlines ls \<equiv> concat (map (\<lambda>l. l @ [newline]) ls)"

lemma unlines_concat: "unlines (concat lss) = concat (map unlines lss)"
  by (induction lss) simp_all

lemma format_lines: "format_markdown lower zone es = unlines (memory_lines lower zone es)"
proof -
  have e: "entry_text zone x = entry_line zone x @ [newline]" for x by (simp add: entry_text_def entry_line_def)
  have "unlines (map (entry_line zone) l) = concat (map (entry_text zone) l)" for l by (induction l) (simp_all add: e)
  then have "unlines (section_lines zone g) =
      (case g of (k, t, es) \<Rightarrow> ''## '' @ t @ [newline] @ concat (map (entry_text zone) es) @ [newline])" for g
    by (simp add: section_lines_def split: prod.splits)
  then show ?thesis by (simp add: format_markdown_def memory_lines_def unlines_concat comp_def)
qed

definition line_ok :: "string \<Rightarrow> bool" where
  "line_ok l = (newline \<notin> set l \<and> length l < 65536 \<and> drop_cr l = l)"

lemma split_unlines: "list_all (\<lambda>l. newline \<notin> set l) ls \<Longrightarrow> split_char newline (unlines ls) = ls @ [[]]"
  by (induction ls) (simp_all add: split_char_append)

lemma scan_unlines: "list_all line_ok ls \<Longrightarrow> scan_lines (unlines ls) = (ls, False)"
proof -
  assume ok: "list_all line_ok ls"
  then have sp: "split_char newline (unlines ls) = ls @ [[]]" by (intro split_unlines) (auto simp: list_all_iff line_ok_def)
  have tw: "takeWhile (\<lambda>l. length l < 65536) ls = ls" "map drop_cr ls = ls"
    using ok by (auto simp: takeWhile_eq_all_conv list_all_iff line_ok_def intro: map_idI)
  show ?thesis
    unfolding scan_lines_def sp Let_def by (simp only: last_snoc butlast_snoc simp_thms if_True tw less_irrefl)
qed

lemma set_str_join: "c \<in> set (str_join sep ws) \<Longrightarrow> c \<in> set sep \<or> (\<exists>w \<in> set ws. c \<in> set w)"
  by (induction sep ws rule: str_join.induct) auto

lemma entry_line_ok: "entry_ok zone e \<Longrightarrow> line_ok (entry_line zone e)"
proof -
  assume e: "entry_ok zone e"
  have w: "\<not> word_char newline" "newline \<noteq> CHR '' ''" "newline \<noteq> backtick" "newline \<noteq> CHR ''-''" "newline \<noteq> CHR '':''"
    by (simp_all add: word_char_def plain_def newline_def backtick_def)
  then have "newline \<notin> set (str_join '' '' (meta_fields zone e))"
    using meta_fields_words [of _ zone e] by (auto simp: list_all_iff dest!: set_str_join)
  then have "newline \<notin> set (entry_line zone e)"
    using e w by (simp add: entry_line_def entry_ok_def text_ok_def entry_meta_fields)
  moreover have "last (entry_line zone e) = backtick" by (simp add: entry_line_def entry_meta_fields)
  ultimately show ?thesis using e by (simp add: line_ok_def drop_cr_def entry_ok_def backtick_def)
qed

lemma title_line_ok: "text_ok t \<Longrightarrow> length t < 65533 \<Longrightarrow> line_ok (''## '' @ t)"
proof -
  assume t: "text_ok t" "length t < 65533"
  have "[CHR 0x0D] \<in> set go_spaces" by (simp add: go_spaces_def)
  with t(1) have "\<not> suffix [CHR 0x0D] t" using trimmed_ends by (auto simp: text_ok_def)
  then have "last t \<noteq> CHR 0x0D" using t(1) by (cases t rule: rev_cases) (auto simp: text_ok_def)
  with t show ?thesis by (simp add: line_ok_def text_ok_def drop_cr_def newline_def)
qed

lemma blank_lines_skipped: "parse_line now [] st = st" "parse_line now ''# Project Memory'' st = st"
proof -
  have "go_trim_space ''# Project Memory'' = ''# Project Memory''" by (rule trim_plain) (simp_all add: plain_def)
  moreover have "go_trim_space [] = []" using go_trim_space_fix [of "[]"] go_spaces_nonempty by auto
  ultimately show "parse_line now [] st = st" "parse_line now ''# Project Memory'' st = st"
    by (simp_all add: parse_line_def Let_def split: prod.splits)
qed

lemma title_parsed: "text_ok t \<Longrightarrow> parse_line now (''## '' @ t) (sec, es) = (t, es)"
  using trim_title [of t] by (simp add: parse_line_def Let_def text_ok_def)

lemma entries_parsed: "list_all (entry_ok zone) l \<Longrightarrow> sec \<noteq> [] \<Longrightarrow>
   fold (parse_line now) (map (entry_line zone) l) (sec, es) = (sec, es @ map (shown zone sec) l)"
  by (induction l arbitrary: es) (simp_all add: entry_line_parsed)

lemma section_parsed:
  assumes "text_ok (fst (snd g))" "list_all (entry_ok zone) (snd (snd g))"
  shows "fold (parse_line now) (section_lines zone g) (sec, es) = (fst (snd g), es @ map (shown zone (fst (snd g))) (snd (snd g)))"
  using assms title_parsed [OF assms(1), of now sec es] entries_parsed [OF assms(2), of "fst (snd g)" now es]
  by (simp add: section_lines_def blank_lines_skipped text_ok_def)

definition group_ok :: "int \<Rightarrow> string \<times> string \<times> markdown_entry list \<Rightarrow> bool" where
  "group_ok zone g = (text_ok (fst (snd g)) \<and> length (fst (snd g)) < 65533 \<and> list_all (entry_ok zone) (snd (snd g)))"

lemma sections_parsed: "list_all (group_ok zone) gs \<Longrightarrow>
   snd (fold (parse_line now) (concat (map (section_lines zone) gs)) (sec, es)) =
     es @ concat (map (\<lambda>g. map (shown zone (fst (snd g))) (snd (snd g))) gs)"
  by (induction gs arbitrary: sec es) (simp_all add: section_parsed group_ok_def)

lemma section_lines_ok: "group_ok zone g \<Longrightarrow> list_all line_ok (section_lines zone g)"
proof -
  assume "group_ok zone g"
  moreover have "line_ok []" by (simp add: line_ok_def drop_cr_def)
  ultimately show ?thesis using title_line_ok [of "fst (snd g)"]
    by (simp add: section_lines_def group_ok_def list_all_iff entry_line_ok)
qed

lemma file_parsed:
  assumes "list_all (group_ok zone) (group_entries lower es)"
  shows "parse_markdown now (format_markdown lower zone es) =
    (concat (map (\<lambda>g. map (shown zone (fst (snd g))) (snd (snd g))) (group_entries lower es)), None)"
proof -
  have "line_ok ''# Project Memory''" "line_ok []" by (simp_all add: line_ok_def drop_cr_def newline_def)
  then have "list_all line_ok (memory_lines lower zone es)"
    using assms section_lines_ok by (fastforce simp: memory_lines_def list_all_iff)
  then have "parse_markdown now (format_markdown lower zone es) = (snd (fold (parse_line now) (memory_lines lower zone es) ([], [])), None)"
    by (simp add: parse_markdown_def format_lines scan_unlines)
  then show ?thesis
    using sections_parsed [OF assms, of now "[]" "[]"] by (simp add: memory_lines_def blank_lines_skipped)
qed

section \<open>Sections\<close>

definition section_key :: "(string \<Rightarrow> string) \<Rightarrow> markdown_entry \<Rightarrow> string" where
  "section_key lower e = lower (go_trim_space (mk_section e))"

definition in_section :: "(string \<Rightarrow> string) \<Rightarrow> string \<Rightarrow> markdown_entry \<Rightarrow> bool" where
  "in_section lower k e = (section_key lower e = k)"

text \<open>The groups hold each section once, with all its entries in order, under the title of the first.\<close>

definition groups_of :: "(string \<Rightarrow> string) \<Rightarrow> markdown_entry list \<Rightarrow> (string \<times> string \<times> markdown_entry list) list \<Rightarrow> bool" where
  "groups_of lower es gs =
     (distinct (map fst gs) \<and> fst ` set gs = section_key lower ` set es \<and>
      (\<forall>(k, t, l) \<in> set gs. l = filter (in_section lower k) es \<and> l \<noteq> [] \<and> t = mk_section (hd l)))"

lemma add_to_group_ok:
  assumes "groups_of lower es gs"
  shows "groups_of lower (es @ [e]) (add_to_group lower e gs)"
proof (cases "section_key lower e \<in> fst ` set gs")
  case True
  then have a: "add_to_group lower e gs = map (\<lambda>(k, t, l). (k, t, if k = section_key lower e then l @ [e] else l)) gs"
    by (simp add: add_to_group_def section_key_def image_def)
  have "case g of (k, t, l) \<Rightarrow> l = filter (in_section lower k) (es @ [e]) \<and> l \<noteq> [] \<and> t = mk_section (hd l)"
    if g: "g \<in> set (add_to_group lower e gs)" for g
  proof -
    from g obtain k t l where m: "(k, t, l) \<in> set gs" "g = (k, t, if k = section_key lower e then l @ [e] else l)"
      unfolding a by auto
    then have "l = filter (in_section lower k) es \<and> l \<noteq> [] \<and> t = mk_section (hd l)"
      using assms by (auto simp: groups_of_def)
    moreover have "in_section lower k e = (k = section_key lower e)" by (auto simp: in_section_def)
    ultimately show ?thesis unfolding m(2) by (auto simp: hd_append)
  qed
  moreover have "map fst (add_to_group lower e gs) = map fst gs" by (simp add: a comp_def case_prod_beta)
  moreover from this have "fst ` set (add_to_group lower e gs) = fst ` set gs" by (metis list.set_map)
  ultimately show ?thesis using assms True unfolding groups_of_def by auto
next
  case False
  then have a: "add_to_group lower e gs = gs @ [(section_key lower e, mk_section e, [e])]"
    by (simp add: add_to_group_def section_key_def)
  have "section_key lower x \<noteq> section_key lower e" if "x \<in> set es" for x
    using False assms that imageI [of x "set es" "section_key lower"] unfolding groups_of_def by metis
  then have "filter (in_section lower (section_key lower e)) es = []"
    by (simp add: filter_empty_conv in_section_def)
  then have new: "[e] = filter (in_section lower (section_key lower e)) (es @ [e])" by (simp add: in_section_def)
  have old: "filter (in_section lower (fst g)) (es @ [e]) = filter (in_section lower (fst g)) es" if "g \<in> set gs" for g
    using False that by (auto simp: in_section_def)
  have "case g of (k, t, l) \<Rightarrow> l = filter (in_section lower k) (es @ [e]) \<and> l \<noteq> [] \<and> t = mk_section (hd l)"
    if g: "g \<in> set (add_to_group lower e gs)" for g
  proof (cases "g \<in> set gs")
    case True
    with old [OF this] assms show ?thesis by (auto simp: groups_of_def)
  next
    case False
    with g have "g = (section_key lower e, mk_section e, [e])" by (simp add: a)
    with new [symmetric] show ?thesis by simp
  qed
  moreover have "distinct (map fst (add_to_group lower e gs))" "fst ` set (add_to_group lower e gs) = section_key lower ` set (es @ [e])"
    using assms False by (auto simp: a groups_of_def)
  ultimately show ?thesis unfolding groups_of_def by blast
qed

lemma groups_ok: "groups_of lower es (group_entries lower es)"
proof (induction es rule: rev_induct)
  case (snoc e es)
  then show ?case using add_to_group_ok by (simp add: group_entries_def)
qed (simp add: group_entries_def groups_of_def)

lemma section_filter:
  assumes gs: "groups_of lower es gs" and g: "(k, t, l) \<in> set gs"
  shows "filter (in_section lower k) (concat (map (\<lambda>g. map (shown zone (fst (snd g))) (snd (snd g))) gs)) =
    map (shown zone t) (filter (in_section lower k) es)"
proof -
  have key: "section_key lower (shown zone t' e) = k'" if "(k', t', l') \<in> set gs" for k' t' l' e
  proof -
    from gs that have "l' = filter (in_section lower k') es" "l' \<noteq> []" "t' = mk_section (hd l')" by (auto simp: groups_of_def)
    then have "in_section lower k' (hd l')" using hd_in_set [of l'] by simp
    with \<open>t' = mk_section (hd l')\<close> show ?thesis by (simp add: in_section_def section_key_def shown_def)
  qed
  have "filter (in_section lower k) (concat (map (\<lambda>g. map (shown zone (fst (snd g))) (snd (snd g))) hs)) =
      concat (map (\<lambda>g. if fst g = k then map (shown zone (fst (snd g))) (snd (snd g)) else []) hs)" if "set hs \<subseteq> set gs" for hs
    using that
  proof (induction hs)
    case (Cons h hs)
    obtain k' t' l' where h: "h = (k', t', l')" by (cases h)
    with Cons.prems key have "filter (in_section lower k) (map (shown zone t') l') = (if k' = k then map (shown zone t') l' else [])"
      by (auto simp: in_section_def filter_empty_conv filter_id_conv)
    with Cons h show ?case by simp
  qed simp
  moreover have "concat (map (\<lambda>g. if fst g = k then f g else []) hs) = f (k, t, l)"
    if "distinct (map fst hs)" "(k, t, l) \<in> set hs" for hs and f :: "string \<times> string \<times> markdown_entry list \<Rightarrow> markdown_entry list"
    using that
  proof (induction hs)
    case (Cons h hs)
    have none: "concat (map (\<lambda>g. if fst g = k then f g else []) hs) = []" if "k \<notin> fst ` set hs"
      using that by (auto simp: image_iff)
    show ?case
    proof (cases "h = (k, t, l)")
      case True
      then have "k \<notin> fst ` set hs" using Cons.prems(1) by simp
      from none [OF this] True show ?thesis by (simp del: concat_eq_Nil_conv)
    next
      case False
      have m: "(k, t, l) \<in> set hs" using Cons.prems(2) False by simp
      have "k \<in> fst ` set hs" using imageI [OF m, of fst] by simp
      then have h: "fst h \<noteq> k" using Cons.prems(1) by auto
      have "concat (map (\<lambda>g. if fst g = k then f g else []) hs) = f (k, t, l)" by (rule Cons.IH) (use Cons.prems(1) m in simp_all)
      with h show ?thesis by simp
    qed
  qed simp
  moreover have "distinct (map fst gs)" "l = filter (in_section lower k) es" using gs g by (auto simp: groups_of_def)
  ultimately show ?thesis using g by simp
qed

text \<open>The title of a section: as its first entry writes it.\<close>

definition section_title :: "(string \<Rightarrow> string) \<Rightarrow> markdown_entry list \<Rightarrow> string \<Rightarrow> string" where
  "section_title lower es k = mk_section (hd (filter (in_section lower k) es))"

lemma entries_groups_ok:
  assumes "\<forall>e \<in> set es. entry_ok zone e"
  shows "list_all (group_ok zone) (group_entries lower es)"
proof -
  have "group_ok zone g" if "g \<in> set (group_entries lower es)" for g
  proof -
    obtain k t l where g: "g = (k, t, l)" by (cases g)
    with that have l: "l = filter (in_section lower k) es" "l \<noteq> []" "t = mk_section (hd l)" using groups_ok [of lower es]
      by (auto simp: groups_of_def)
    then have "hd l \<in> set es" "set l \<subseteq> set es" by (metis filter_is_subset hd_in_set subsetD, simp)
    with assms l(3) show ?thesis by (auto simp: g group_ok_def entry_ok_def list_all_iff)
  qed
  then show ?thesis by (simp add: list_all_iff)
qed

text \<open>An example: two facts of one section that is written in two ways.\<close>

definition ascii_lower :: "string \<Rightarrow> string" where
  "ascii_lower s = map (\<lambda>c. let n = of_char c :: nat in if 65 \<le> n \<and> n \<le> 90 then char_of (n + 32) else c) s"

definition demo_facts :: "markdown_entry list" where
  "demo_facts =
     [\<lparr>mk_section = ''Style'', mk_key = ''indent'', mk_value = ''two spaces'', mk_source = ''said so'', mk_version = 3,
       mk_confidence = 7 / 8, mk_updated = 20000 * day_ns + 5\<rparr>,
      \<lparr>mk_section = ''style'', mk_key = ''quotes'', mk_value = ''single'', mk_source = [], mk_version = 1,
       mk_confidence = 1, mk_updated = 20001 * day_ns\<rparr>]"

lemma month_from_numeral [simp]:
  "month_from (numeral i) y m k = (if k < month_days y m then (m, k) else month_from (pred_numeral i) y (m + 1) (k - month_days y m))"
  by (simp add: numeral_eq_Suc)

lemma demo_date: "time_date 0 (20000 * day_ns + 5) = (2024, 10, 4)" "time_date 0 (20001 * day_ns) = (2024, 10, 5)"
  by (simp_all add: time_date_def time_day_def day_ns_def date_of_day_def Let_def days_before_year_def month_days_def is_leap_def
      year_from.simps [of 2020] year_from.simps [of 2021] year_from.simps [of 2022] year_from.simps [of 2023] year_from.simps [of 2024])

lemma demo_numbers: "fmt_2f (7 / 8) = ''0.88''" "fmt_2f 1 = ''1.00''" "int_dec 3 = ''3''" "int_dec 1 = ''1''"
  by code_simp+

lemma demo_dates: "fmt_date (2024, 10, 4) = ''2024-10-04''" "fmt_date (2024, 10, 5) = ''2024-10-05''"
  by code_simp+

lemma demo_texts: "list_all text_ok [''indent'', ''two spaces'', ''Style'', ''quotes'', ''single'', ''style'']" 
  "\<not> go_contains ''indent'' '': ''" "\<not> go_contains ''quotes'' '': ''"
  "query_escape ''said so'' = ''said+so''"
  by code_simp+

lemma demo_ok: "\<forall>e \<in> set demo_facts. entry_ok 0 e"
  using demo_texts by (simp add: demo_facts_def entry_ok_def numbers_ok_def entry_line_def entry_meta_def demo_numbers demo_dates demo_date)
    (simp add: time_day_def day_ns_def)
text \<open>Outside these conditions the file is misread: an empty value comes back as the meta text, and a colon in a key
  moves the rest of the key into the value.\<close>

lemma empty_value_misread:
  "map mk_value (snd (parse_line 0 ''- k:   `v1 c1.00 2024-10-05`'' (''s'', []))) = [''`v1 c1.00 2024-10-05`'']"
  by code_simp

lemma colon_in_key_misread:
  "map (\<lambda>e. (mk_key e, mk_value e)) (snd (parse_line 0 ''- a: b: x'' (''s'', []))) = [(''a'', ''b: x'')]"
  by code_simp

text \<open>MEMORY.md is read back as it was written: if keys, values and sections are trimmed and on one line, keys
  have no colon with a space, and numbers and lines are in range, the parser succeeds on the text of the writer, and
  in every section it finds the same entries in the same order, with sections that differ in case only merged under
  the title of the first, confidences rounded to two decimals and times cut to the day.\<close>

lemma memory_file_sections:
  assumes "\<forall>e \<in> set es. entry_ok zone e"
  shows "\<exists>es'. parse_markdown now (format_markdown lower zone es) = (es', None) \<and>
    (\<forall>k. filter (in_section lower k) es' =
       map (shown zone (section_title lower es k)) (filter (in_section lower k) es))"
proof -
  note gs = groups_ok [of lower es]
  let ?es = "concat (map (\<lambda>g. map (shown zone (fst (snd g))) (snd (snd g))) (group_entries lower es))"
  have "filter (in_section lower k) ?es = map (shown zone (section_title lower es k)) (filter (in_section lower k) es)" for k
  proof (cases "\<exists>t l. (k, t, l) \<in> set (group_entries lower es)")
    case True
    then obtain t l where g: "(k, t, l) \<in> set (group_entries lower es)" by blast
    then have "t = section_title lower es k" using gs by (auto simp: groups_of_def section_title_def)
    with section_filter [OF gs g] show ?thesis by simp
  next
    case False
    then have "k \<notin> section_key lower ` set es" using gs by (fastforce simp: groups_of_def image_iff)
    then have n: "filter (in_section lower k) es = []" by (auto simp: filter_empty_conv in_section_def)
    have "section_key lower x \<noteq> k" if "x \<in> set ?es" for x
    proof
      assume "section_key lower x = k"
      from that obtain k' t' l' where g: "(k', t', l') \<in> set (group_entries lower es)" "x \<in> set (map (shown zone t') l')" by force
      have "x \<in> set (filter (in_section lower k') ?es)"
        unfolding section_filter [OF gs g(1)] using g gs by (auto simp: groups_of_def)
      then have "k' = k" using \<open>section_key lower x = k\<close> by (simp add: in_section_def)
      with g(1) False show False by blast
    qed
    with n show ?thesis by (auto simp: filter_empty_conv in_section_def)
  qed
  then show ?thesis using file_parsed [OF entries_groups_ok [OF assms], of now] by blast
qed

lemma demo_file_read_back:
  "\<exists>es'. parse_markdown 0 (format_markdown ascii_lower 0 demo_facts) = (es', None) \<and>
     filter (in_section ascii_lower ''style'') es' = map (shown 0 ''Style'') demo_facts"
proof -
  have k: "ascii_lower (go_trim_space ''Style'') = ''style''" "ascii_lower (go_trim_space ''style'') = ''style''" by code_simp+
  have f: "filter (in_section ascii_lower ''style'') demo_facts = demo_facts"
    by (simp add: demo_facts_def in_section_def section_key_def k)
  have "section_title ascii_lower demo_facts ''style'' = ''Style''"
    unfolding section_title_def f by (simp add: demo_facts_def)
  with memory_file_sections [OF demo_ok, of 0 ascii_lower] f show ?thesis by metis
qed

end
