(* ===== verification/FilePersist.thy ===== *)
theory FilePersist
  imports FileSys
begin

text \<open>
  The storage back end on files (persist/file\_persist.go) and the layer of JSON lines on top of any back end
  (persist/jsonl\_persist.go).  A key is a path below the root of the store.  The random part of the name of a
  temporary file is an argument.
\<close>

section \<open>FilePersist\<close>

definition wrap_os :: "string \<Rightarrow> os_error \<Rightarrow> os_error" where
  "wrap_os what e = PlainError (what @ '': '' @ os_error_text e)"

definition full_path :: "string \<Rightarrow> string \<Rightarrow> os_error + string" where
  "full_path rt key =
     (let r = go_clean rt; p = go_join [r, go_clean key]
      in if p \<noteq> r \<and> \<not> prefix (r @ [slash]) p
         then Inl (PlainError (''file persist: key '' @ go_quote key @ '' escapes root''))
         else Inr p)"

text \<open>A deferred call, whose result is dropped.\<close>

definition io_finally :: "('e, 'a) io \<Rightarrow> ('f, 'b) io \<Rightarrow> ('e, 'a) io" where
  "io_finally m c s = (case m s of (r, s') \<Rightarrow> (r, snd (c s')))"

definition temp_path :: "string \<Rightarrow> string \<Rightarrow> string" where
  "temp_path dir rnd = go_join [dir, ''.tmp-'' @ rnd]"

definition store_rename :: "string \<Rightarrow> string \<Rightarrow> string \<Rightarrow> (os_error, unit) io" where
  "store_rename tmp path data =
     io_bind (io_map_error (wrap_os ''file persist store: write'') (on_path ''write'' tmp (\<lambda>p. sys_write p data))) (\<lambda>_.
     io_bind (io_map_error (wrap_os ''file persist store: sync'') (io_map_error (PathError ''sync'' tmp) sys_flush)) (\<lambda>_.
     io_bind (io_map_error (wrap_os ''file persist store: close'') (io_map_error (PathError ''close'' tmp) sys_flush)) (\<lambda>_.
       io_map_error (wrap_os ''file persist store: rename'') (go_rename tmp path))))"

definition fp_store :: "string \<Rightarrow> string \<Rightarrow> string \<Rightarrow> string \<Rightarrow> (os_error, unit) io" where
  "fp_store rt rnd key data =
     (case full_path rt key of
        Inl e \<Rightarrow> io_fail e
      | Inr path \<Rightarrow>
          io_bind (io_map_error (wrap_os ''file persist store'') (go_mkdir_all (go_dir path))) (\<lambda>_.
            let tmp = temp_path (go_dir path) rnd in
            io_bind (io_map_error (wrap_os ''file persist store: create temp'') (on_path ''open'' tmp (sys_create True))) (\<lambda>_.
              io_finally (store_rename tmp path data) (go_remove tmp))))"

definition fp_load :: "string \<Rightarrow> string \<Rightarrow> (os_error, string) io" where
  "fp_load rt key = (case full_path rt key of Inl e \<Rightarrow> io_fail e | Inr p \<Rightarrow> go_read_file p)"

definition fp_exists :: "string \<Rightarrow> string \<Rightarrow> os \<Rightarrow> bool \<times> os" where
  "fp_exists rt key s =
     (case full_path rt key of
        Inl e \<Rightarrow> (False, s)
      | Inr p \<Rightarrow> (case go_stat p s of (Inl e, s') \<Rightarrow> (False, s') | (Inr n, s') \<Rightarrow> (True, s')))"

definition fp_delete :: "string \<Rightarrow> string \<Rightarrow> (os_error, unit) io" where
  "fp_delete rt key =
     (case full_path rt key of
        Inl e \<Rightarrow> io_fail e
      | Inr p \<Rightarrow> io_bind (io_try (go_remove p)) (\<lambda>r.
          case r of
            Inl e \<Rightarrow> if is_not_exist e then io_return () else io_fail (wrap_os ''file persist delete'' e)
          | Inr _ \<Rightarrow> io_return ()))"

definition trim_jsonl :: "string \<Rightarrow> string" where
  "trim_jsonl n = (if suffix ''.jsonl'' n then take (length n - 6) n else n)"

definition list_key :: "string \<Rightarrow> string \<times> bool \<Rightarrow> string" where
  "list_key pre e = go_join [pre, if snd e then fst e else trim_jsonl (fst e)]"

definition fp_list :: "string \<Rightarrow> string \<Rightarrow> (os_error, string list) io" where
  "fp_list rt pre =
     (case full_path rt pre of
        Inl e \<Rightarrow> io_fail e
      | Inr dir \<Rightarrow> io_bind (io_try (go_read_dir dir)) (\<lambda>r.
          case r of
            Inl e \<Rightarrow> if is_not_exist e then io_return [] else io_fail (wrap_os ''file persist list'' e)
          | Inr es \<Rightarrow> io_return (map (list_key pre) es)))"

section \<open>JSONLPersist\<close>

text \<open>\<open>IPersist\<close>; \<open>JSONLPersist\<close> and \<open>MarkdownPersist\<close> pass its five operations on unchanged.\<close>

record 's ipersist =
  ip_store :: "string \<Rightarrow> string \<Rightarrow> 's \<Rightarrow> (os_error + unit) \<times> 's"
  ip_load :: "string \<Rightarrow> 's \<Rightarrow> (os_error + string) \<times> 's"
  ip_delete :: "string \<Rightarrow> 's \<Rightarrow> (os_error + unit) \<times> 's"
  ip_list :: "string \<Rightarrow> 's \<Rightarrow> (os_error + string list) \<times> 's"
  ip_exists :: "string \<Rightarrow> 's \<Rightarrow> bool \<times> 's"

definition file_backend :: "string \<Rightarrow> string \<Rightarrow> os ipersist" where
  "file_backend rt rnd = \<lparr>ip_store = fp_store rt rnd, ip_load = fp_load rt, ip_delete = fp_delete rt,
     ip_list = fp_list rt, ip_exists = fp_exists rt\<rparr>"

definition ended :: "string \<Rightarrow> string" where
  "ended old = (if old = [] \<or> last old = CHR 0x0A then old else old @ nl)"

fun jsonl_lines :: "('e \<Rightarrow> os_error + string) \<Rightarrow> string \<Rightarrow> 'e list \<Rightarrow> os_error + string" where
  "jsonl_lines enc what [] = Inr []"
| "jsonl_lines enc what (e # es) =
     (case enc e of
        Inl er \<Rightarrow> Inl (wrap_os what er)
      | Inr t \<Rightarrow> (case jsonl_lines enc what es of Inl er \<Rightarrow> Inl er | Inr ts \<Rightarrow> Inr (t @ nl @ ts)))"

definition jsonl_append ::
    "('e \<Rightarrow> os_error + string) \<Rightarrow> 's ipersist \<Rightarrow> string \<Rightarrow> 'e list \<Rightarrow> 's \<Rightarrow> (os_error + unit) \<times> 's" where
  "jsonl_append enc b key es s =
     (case ip_load b key s of
        (r, s1) \<Rightarrow>
          (case r of
             Inl e \<Rightarrow>
               if \<not> is_not_exist e then (Inl (wrap_os ''jsonl append: load existing'' e), s1)
               else (case jsonl_lines enc ''jsonl append'' es of
                       Inl er \<Rightarrow> (Inl er, s1) | Inr ts \<Rightarrow> ip_store b key ts s1)
           | Inr old \<Rightarrow>
               (case jsonl_lines enc ''jsonl append'' es of
                  Inl er \<Rightarrow> (Inl er, s1) | Inr ts \<Rightarrow> ip_store b key (ended old @ ts) s1)))"

text \<open>\<open>dec\<close> is the JSON decoder run to the end of the text.\<close>

definition jsonl_read_all ::
    "(string \<Rightarrow> os_error + 'e list) \<Rightarrow> 's ipersist \<Rightarrow> string \<Rightarrow> 's \<Rightarrow> (os_error + 'e list) \<times> 's" where
  "jsonl_read_all dec b key s =
     (case ip_load b key s of
        (Inl e, s1) \<Rightarrow> (Inl e, s1)
      | (Inr data, s1) \<Rightarrow>
          (case dec data of Inl e \<Rightarrow> (Inl (wrap_os ''jsonl read'' e), s1) | Inr es \<Rightarrow> (Inr es, s1)))"

definition jsonl_write_all ::
    "('e \<Rightarrow> os_error + string) \<Rightarrow> 's ipersist \<Rightarrow> string \<Rightarrow> 'e list \<Rightarrow> 's \<Rightarrow> (os_error + unit) \<times> 's" where
  "jsonl_write_all enc b key es s =
     (case jsonl_lines enc ''jsonl write'' es of
        Inl er \<Rightarrow> (Inl er, s)
      | Inr ts \<Rightarrow> ip_store b key ts s)"

section \<open>Keys stay below the root\<close>

definition inner_root :: "string \<Rightarrow> bool" where
  "inner_root rt \<longleftrightarrow>
     (let cs = clean_comps (is_abs rt) (split_char slash rt) in cs \<noteq> [] \<and> last cs \<noteq> ''..'')"

lemma split_prefix: "split_char c (a @ c # b) = split_char c a @ split_char c b"
  by (rule split_char_app)

lemma split_render: "clean_list r cs \<Longrightarrow> cs \<noteq> [] \<Longrightarrow> split_char slash (render_path r cs) = (if r then [[]] else []) @ cs"
proof -
  assume "clean_list r cs" "cs \<noteq> []"
  then have "split_char slash (str_join [slash] cs) = cs" using clean_list_free split_join_char by metis
  with \<open>cs \<noteq> []\<close> show ?thesis by (simp add: render_path_def)
qed

lemma clean_list_comps: "clean_list (is_abs p) (clean_comps (is_abs p) (split_char slash p))"
  by (rule clean_comps_list) (blast dest: split_char_free)

lemma clean_list_tail: "clean_list r (cs @ zs) \<Longrightarrow> cs \<noteq> [] \<Longrightarrow> last cs \<noteq> ''..'' \<Longrightarrow> list_all name_ok zs"
proof -
  assume a: "clean_list r (cs @ zs)" "cs \<noteq> []" "last cs \<noteq> ''..''"
  then obtain k ns where k: "cs @ zs = replicate k ''..'' @ ns" "list_all name_ok ns" unfolding clean_list_def by blast
  have "k < length cs"
  proof (rule ccontr)
    assume "\<not> k < length cs"
    then have "cs = take (length cs) (replicate k ''..'' @ ns)" using k(1) by (metis append_eq_conv_conj)
    with \<open>\<not> k < length cs\<close> have "cs = replicate (length cs) ''..''" by (simp add: min_def)
    with a(2,3) show False by (metis last_replicate length_0_conv)
  qed
  then have "zs = drop (length cs - k) ns" using k(1) by (simp add: append_eq_append_conv2 append_eq_conv_conj)
  with k(2) show ?thesis by (metis append_take_drop_id list_all_append)
qed

theorem full_path_inside:
  assumes "inner_root rt" and "full_path rt key = Inr p"
  shows "\<exists>ns. list_all name_ok ns \<and> p = path_of rt ns"
proof -
  let ?a = "is_abs rt" and ?cs = "clean_comps (is_abs rt) (split_char slash rt)"
  let ?r = "go_clean rt"
  have cl: "clean_list ?a ?cs" by (rule clean_list_comps)
  have cs: "?cs \<noteq> []" "last ?cs \<noteq> ''..''" using assms(1) by (simp_all add: inner_root_def Let_def)
  have r: "?r = render_path ?a ?cs" by (simp add: go_clean_def)
  have ar: "is_abs ?r = ?a" using path_of_split(1) [of "[]" rt] by simp
  have p: "p = go_join [?r, go_clean key]" and pre: "p = ?r \<or> prefix (?r @ [slash]) p"
    using assms(2) by (auto simp: full_path_def Let_def split: if_splits)
  have p2: "p = go_clean (?r @ slash # go_clean key)" unfolding p by (simp add: go_join_def)
  have ap: "is_abs (?r @ slash # go_clean key) = ?a" using ar by (cases ?r) (auto simp: is_abs_def)
  show ?thesis
  proof (cases "p = ?r")
    case True
    then show ?thesis by (intro exI [of _ "[]"]) simp
  next
    case False
    let ?ps = "clean_comps ?a (split_char slash (?r @ slash # go_clean key))"
    have ps: "clean_list ?a ?ps" using clean_list_comps [of "?r @ slash # go_clean key"] by (simp add: ap)
    have pr: "p = render_path ?a ?ps" by (simp only: p2 go_clean_def [of "?r @ slash # go_clean key"] ap)
    from False pre obtain x where x: "p = ?r @ slash # x" by (auto simp: prefix_def)
    have sx: "split_char slash p = ((if ?a then [[]] else []) @ ?cs) @ split_char slash x"
      unfolding x split_char_app by (simp only: r split_render [OF cl cs(1)])
    have "?ps \<noteq> []"
    proof
      assume "?ps = []"
      then have "p = (if ?a then [slash] else ''.'')" by (simp add: pr render_path_def)
      with x show False using go_clean_nonempty [of rt] by (auto simp: Cons_eq_append_conv split: if_splits)
    qed
    from split_render [OF ps this] pr sx have "?ps = ?cs @ split_char slash x" by (auto split: if_splits)
    with ps have "list_all name_ok (split_char slash x)" using clean_list_tail [OF _ cs] by metis
    moreover have "p = path_of rt (split_char slash x)"
      using pr \<open>?ps = ?cs @ split_char slash x\<close> by (simp add: path_of_def)
    ultimately show ?thesis by blast
  qed
qed

lemma render_below: "cs \<noteq> [] \<Longrightarrow> ns \<noteq> [] \<Longrightarrow> prefix (render_path r cs @ [slash]) (render_path r (cs @ ns))"
proof (induction ns rule: rev_induct)
  case (snoc n ns)
  have e: "render_path r ((cs @ ns) @ [n]) = render_path r (cs @ ns) @ slash # n"
    by (rule render_snoc) (use snoc.prems in simp)
  show ?case
  proof (cases "ns = []")
    case True
    with e show ?thesis by (simp add: prefix_def)
  next
    case False
    then show ?thesis using snoc e by (auto simp: prefix_def)
  qed
qed simp

text \<open>The path of a key that is a list of names, and that the check accepts it.\<close>

lemma full_path_names:
  assumes "inner_root rt" and "list_all name_ok ns" and "ns \<noteq> []"
  shows "full_path rt (str_join [slash] ns) = Inr (path_of rt ns)"
proof -
  let ?cs = "clean_comps (is_abs rt) (split_char slash rt)"
  have cs: "?cs \<noteq> []" using assms(1) by (simp add: inner_root_def Let_def)
  have k: "go_clean (str_join [slash] ns) = str_join [slash] ns"
  proof -
    obtain m ms where ns: "ns = m # ms" using assms(3) by (cases ns) auto
    have "\<not> is_abs (str_join [slash] ns)"
      using assms(2) ns by (cases m) (auto simp: join_Cons name_ok_def is_abs_def)
    moreover have "split_char slash (str_join [slash] ns) = ns"
      using split_join_char [OF assms(3)] name_ok_free [OF assms(2)] by blast
    ultimately show ?thesis
      using clean_comps_idem [OF clean_list_names [OF assms(2)], of False] assms(3) by (simp add: go_clean_def render_path_def)
  qed
  have ne: "str_join [slash] ns \<noteq> []" using go_clean_nonempty [of "str_join [slash] ns"] by (simp only: k) simp
  have "go_join [go_clean rt, str_join [slash] ns] = go_clean (str_join [slash] (go_clean rt # ns))"
    using assms(3) by (cases ns) (auto simp: go_join_def)
  then have p: "go_join [go_clean rt, str_join [slash] ns] = path_of rt ns"
    using clean_join [OF go_clean_nonempty assms(2), of rt] path_of_path_of [of "[]" rt ns] by simp
  have "prefix (go_clean rt @ [slash]) (path_of rt ns)"
    using render_below [OF cs assms(3)] by (simp add: go_clean_def path_of_def)
  then show ?thesis by (simp add: full_path_def Let_def k p)
qed

text \<open>Roots for which the check is wrong: a parent directory lets keys out, the current directory and \<open>/\<close> let none in.\<close>

lemma odd_roots:
  "full_path ''..'' ''../x'' = Inr ''../../x''"
  "full_path ''.'' ''x'' = Inl (PlainError (''file persist: key '' @ go_quote ''x'' @ '' escapes root''))"
  "full_path ''/'' ''x'' = Inl (PlainError (''file persist: key '' @ go_quote ''x'' @ '' escapes root''))"
  by code_simp+

section \<open>Storing is atomic\<close>

lemma option_eqI: "(\<And>n. x = Some n \<longleftrightarrow> y = Some n) \<Longrightarrow> x = y"
  by (cases x; cases y) auto

lemma rename_file_lookup:
  assumes "fs_wf fs" and "lookup fs p = Some (FFile c)" and "lookup fs q = None \<or> (\<exists>d. lookup fs q = Some (FFile d))"
    and "p \<noteq> q" and "walk fs q = None" and "list_all name_ok q"
  shows "lookup (fs_move p q fs) r = (if r = q then Some (FFile c) else if r = p then None else lookup fs r)"
proof -
  have p: "p \<noteq> []" and q: "q \<noteq> []" using assms(2,3) by auto
  have wf: "fs_wf (fs_move p q fs)" by (rule wf_move [OF assms(1) p assms(4,5,6) q assms(3)]) (use assms(2) in blast)
  have nb: "r = p" if "below p r" "(r, n) \<in> set fs" for r n using file_no_below [OF assms(1) _ that(2,1)] assms(2) by blast
  have pn: "(p, n) \<in> set fs \<longleftrightarrow> n = FFile c" for n
    using fs_wf_entry [OF assms(1) p, of n] assms(2) by (simp add: eq_commute)
  show ?thesis
  proof (cases "r = []")
    case False
    have m: "(r, n) \<in> set (fs_move p q fs) \<longleftrightarrow> r = q \<and> n = FFile c \<or> (r, n) \<in> set fs \<and> r \<noteq> q \<and> r \<noteq> p" for n
    proof -
      have "(\<exists>x. r = q @ x \<and> (p @ x, n) \<in> set fs \<and> p @ x \<noteq> q) \<longleftrightarrow> r = q \<and> n = FFile c"
        using nb [OF below_append] pn assms(4) by (metis append.right_neutral same_append_eq)
      moreover have "(r, n) \<in> set fs \<and> r \<noteq> q \<and> \<not> below p r \<longleftrightarrow> (r, n) \<in> set fs \<and> r \<noteq> q \<and> r \<noteq> p"
        using nb by auto
      ultimately show ?thesis unfolding fs_move_entries by blast
    qed
    have e: "lookup (fs_move p q fs) r = Some n \<longleftrightarrow> r = q \<and> n = FFile c \<or> lookup fs r = Some n \<and> r \<noteq> q \<and> r \<noteq> p" for n
      by (simp only: fs_wf_entry [OF wf False] m fs_wf_entry [OF assms(1) False])
    have "lookup (fs_move p q fs) r = Some n \<longleftrightarrow>
        (if r = q then Some (FFile c) else if r = p then None else lookup fs r) = Some n" for n
      unfolding e by (cases "r = q"; cases "r = p") auto
    then show ?thesis by (rule option_eqI)
  qed (use p q in simp)
qed

text \<open>\<open>MkdirAll\<close> on a clean absolute path touches only the directories above and at it.\<close>

lemma mkdir_all_above:
  assumes cwd: "list_all name_ok cwd" and "list_all name_ok cs"
  shows "io_rel (same_on (\<lambda>q. \<not> below q cs)) cwd (go_mkdir_all (render_path True cs))"
    and "cs \<noteq> [] \<Longrightarrow> io_rel (same_on (\<lambda>q. \<not> below q cs)) cwd (go_mkdir_all (render_path True cs @ [slash]))"
proof -
  let ?R = "\<lambda>cs. same_on (\<lambda>q. \<not> below q cs)"
  note T = tree_relations(2) [OF cwd]
  have c: "canon cwd (render_path True ds) = ds" "ds \<noteq> [] \<Longrightarrow> canon cwd (render_path True ds @ [slash]) = ds"
    if "list_all name_ok ds" for ds
  proof -
    have "path_of [slash] ds = render_path True ds" by (simp add: path_of_def) (simp add: clean_comps_def clean_step_def)
    then show "canon cwd (render_path True ds) = ds"
      using canon_path_of [OF that, of cwd "[slash]"] by (simp add: canon_def) (simp add: clean_comps_def clean_step_def)
    then show "ds \<noteq> [] \<Longrightarrow> canon cwd (render_path True ds @ [slash]) = ds"
      using canon_slash [of "render_path True ds" cwd] by (simp add: render_path_def)
  qed
  have mk: "io_rel (?R cs) cwd (go_mkdir p)" if "below (canon cwd p) cs" for p cs
  proof -
    have "?R cs fs (snd (fs_mkdir (canon cwd p) fs))" for fs
      using that by (auto simp: same_on_def fs_step_lookup)
    then have "io_rel (?R cs) cwd (sys_mkdir (canon cwd p))"
      unfolding sys_mkdir_def by (auto simp: tree_relation.refl [OF T] intro!: tree_relation.rel_syscall [OF T])
    then show ?thesis
      by (auto simp: go_mkdir_def split: sum.split
          intro!: tree_relation.rel_intros [OF T] tree_relation.rel_read_file(2) [OF T])
  qed
  have all: "io_rel (?R cs) cwd (go_mkdir_all p)"
    if "below (canon cwd p) cs" "parent_part p \<noteq> [] \<Longrightarrow> io_rel (?R cs) cwd (go_mkdir_all (parent_part p))" for p cs
    by (subst go_mkdir_all.simps)
      (use that mk [OF that(1)] in \<open>auto split: sum.split node.split
          intro!: tree_relation.rel_intros [OF T] tree_relation.rel_read_file(2) [OF T]\<close>)
  have mono: "io_rel (?R ds) cwd m" if "io_rel (?R cs) cwd m" "\<And>q. below q cs \<Longrightarrow> below q ds" for cs ds and m :: "(os_error, unit) io"
    using that unfolding io_rel_def same_on_def by blast
  have root: "io_rel (?R ds) cwd (go_mkdir_all [slash])" for ds
  proof (rule all)
    show "below (canon cwd [slash]) ds" by (simp add: canon_def below_def) (simp add: clean_comps_def clean_step_def)
  qed (simp add: parent_part_def)
  have "io_rel (?R cs) cwd (go_mkdir_all (render_path True cs)) \<and> (cs \<noteq> [] \<longrightarrow> io_rel (?R cs) cwd (go_mkdir_all (render_path True cs @ [slash])))"
    using assms(2)
  proof (induction cs rule: rev_induct)
    case Nil
    then show ?case using root by (simp add: render_path_def)
  next
    case (snoc n cs)
    then have nm: "list_all name_ok cs" "name_ok n" by simp_all
    have n: "slash \<notin> set n" "n \<noteq> []" using nm(2) by (simp_all add: name_ok_def)
    have up: "below q (cs @ [n])" if "below q cs" for q using that by (auto simp: below_split)
    define above where "above = (if cs = [] then [slash] else render_path True cs @ [slash])"
    have pp: "parent_part (render_path True (cs @ [n])) = above" "parent_part (render_path True (cs @ [n]) @ [slash]) = above"
    proof -
      have e: "render_path True (cs @ [n]) = (if cs = [] then [] else render_path True cs) @ slash # n"
        using render_snoc [of cs True n] by (simp add: render_path_def)
      have a: "dropWhile (\<lambda>c. c = slash) (rev n @ y) = rev n @ y" for y using n by (cases n rule: rev_cases) auto
      have b: "dropWhile (\<lambda>c. c \<noteq> slash) (rev n @ y) = dropWhile (\<lambda>c. c \<noteq> slash) y" for y
        by (rule dropWhile_append2) (use n in auto)
      show "parent_part (render_path True (cs @ [n])) = above" "parent_part (render_path True (cs @ [n]) @ [slash]) = above"
        unfolding e above_def by (auto simp: parent_part_def a b)
    qed
    have ab: "io_rel (?R (cs @ [n])) cwd (go_mkdir_all above)"
      unfolding above_def using root mono [OF _ up] snoc.IH [OF nm(1)] by (cases "cs = []") auto
    have "below (canon cwd (render_path True (cs @ [n]))) (cs @ [n])" "below (canon cwd (render_path True (cs @ [n]) @ [slash])) (cs @ [n])"
      using c [of "cs @ [n]"] nm by simp_all
    then show ?case using all [of "render_path True (cs @ [n])"] all [of "render_path True (cs @ [n]) @ [slash]"] ab pp by simp
  qed
  then show "io_rel (?R cs) cwd (go_mkdir_all (render_path True cs))"
    "cs \<noteq> [] \<Longrightarrow> io_rel (?R cs) cwd (go_mkdir_all (render_path True cs @ [slash]))" by blast+
qed

lemma fs_rename_file:
  assumes "fs_wf fs" and "lookup fs p = Some (FFile c)" and "p \<noteq> q" and "list_all name_ok q"
  shows "fst (fs_rename p q fs) = Inr () \<and>
      (\<forall>r. lookup (snd (fs_rename p q fs)) r = (if r = q then Some (FFile c) else if r = p then None else lookup fs r))
    \<or> (\<exists>e. fst (fs_rename p q fs) = Inl e) \<and> snd (fs_rename p q fs) = fs"
proof -
  have n: "node_at fs p = Inr (FFile c)" "p \<noteq> []" using assms(1,2) by (auto simp: node_at_wf)
  show ?thesis
  proof (cases "walk fs q = None \<and> lookup fs q \<noteq> Some FDir")
    case True
    then have "lookup fs q = None \<or> (\<exists>d. lookup fs q = Some (FFile d))" by (metis not_dir option.exhaust)
    with rename_file_lookup [OF assms(1,2) this assms(3)] True assms(3,4) n show ?thesis
      by (auto simp: fs_rename_def split: option.split)
  next
    case False
    with n assms(3) show ?thesis by (auto simp: fs_rename_def split: option.split)
  qed
qed

lemma syscall_fs:
  "(\<exists>e. fst (syscall part eff s) = Inl e) \<and>
      (os_fs (snd (syscall part eff s)) = os_fs s \<or> (\<exists>k. os_fs (snd (syscall part eff s)) = part k (os_fs s)))
    \<or> eff (os_fs s) = (fst (syscall part eff s), os_fs (snd (syscall part eff s)))"
  by (auto simp: syscall_def Let_def case_prod_beta split: list.split option.split fault.split)

text \<open>Writing the temporary file and renaming it: the target keeps what it had until it has everything.\<close>

lemma store_rename_atomic:
  assumes run: "store_rename tmp path data s = (r, s')" and wf: "os_wf s"
    and t: "canon (os_cwd s) tmp = t" "tmp \<noteq> []" and q: "canon (os_cwd s) path = q" "path \<noteq> []" "t \<noteq> q"
    and fresh: "lookup (os_fs s) t = Some (FFile [])"
  shows "same_on (\<lambda>p. p \<noteq> q \<and> p \<noteq> t) (os_fs s) (os_fs s') \<and> os_cwd s' = os_cwd s \<and> os_wf s' \<and>
    (lookup (os_fs s') q = lookup (os_fs s) q \<and> r \<noteq> Inr () \<or> lookup (os_fs s') q = Some (FFile data))"
proof -
  have cwd: "list_all name_ok (os_cwd s)" and fw: "fs_wf (os_fs s)" using wf by (simp_all add: os_wf_def)
  have names: "list_all name_ok t" "list_all name_ok q" using canon_names [OF cwd] t q by blast+
  obtain a s1 where w: "on_path ''write'' tmp (\<lambda>p. sys_write p data) s = (a, s1)"
    by (cases "on_path ''write'' tmp (\<lambda>p. sys_write p data) s")
  have "io_rel (same_on (\<lambda>p. p \<noteq> t)) (os_cwd s) (on_path ''write'' tmp (\<lambda>p. sys_write p data))"
    unfolding sys_write_def using t fs_step_lookup(3) [of _ t]
    by (auto simp: same_on_def intro!: tree_relation.rel_on_path [OF tree_relations(2) [OF cwd]]
        tree_relation.rel_syscall [OF tree_relations(2) [OF cwd]])
  from io_relD [OF this refl w] have w1: "same_on (\<lambda>p. p \<noteq> t) (os_fs s) (os_fs s1)" "os_cwd s1 = os_cwd s" by simp_all
  have "io_rel wf_kept (os_cwd s) (on_path ''write'' tmp (\<lambda>p. sys_write p data))"
    unfolding sys_write_def using t wf_write names
    by (auto simp: wf_kept_def intro!: tree_relation.rel_on_path [OF tree_relations(1) [OF cwd]]
        tree_relation.rel_syscall [OF tree_relations(1) [OF cwd]])
  from io_relD [OF this refl w] fw have w2: "fs_wf (os_fs s1)" by (simp add: wf_kept_def)
  have qs: "lookup (os_fs s1) q = lookup (os_fs s) q" using w1(1) q(3) by (auto simp: same_on_def)
  show ?thesis
  proof (cases a)
    case (Inl e)
    with run w have "s' = s1 \<and> r \<noteq> Inr ()" by (auto simp: store_rename_def io_bind_def io_map_error_def)
    with w1 w2 qs cwd show ?thesis by (auto simp: same_on_def os_wf_def)
  next
    case (Inr u)
    with w have "sys_write t data s = (Inr (), s1)" using t by (simp add: on_path_Inr)
    from sys_Inr(4) [OF this] have d: "lookup (os_fs s1) t = Some (FFile data)" using write_made by blast
    have "sys_flush x = (g, x') \<Longrightarrow> os_fs x' = os_fs x \<and> os_cwd x' = os_cwd x" for x g x'
      using syscall_fs [of "\<lambda>_ fs. fs" "\<lambda>fs. (Inr (), fs)" x] syscall_cwd [of "\<lambda>_ fs. fs" "\<lambda>fs. (Inr (), fs)" x]
      by (auto simp: sys_flush_def)
    note fl = this
    obtain f1 s2 f2 s3 where f: "sys_flush s1 = (f1, s2)" "sys_flush s2 = (f2, s3)"
      by (cases "sys_flush s1"; cases "sys_flush (snd (sys_flush s1))") auto
    note e = fl [OF f(1)] fl [OF f(2)]
    obtain g s4 where mv: "sys_rename t q s3 = (g, s4)" by (cases "sys_rename t q s3")
    have ren: "go_rename tmp path s3 = (case g of Inl e \<Rightarrow> (Inl (LinkError tmp path e), s4) | Inr x \<Rightarrow> (Inr x, s4))"
      using t q e w1(2) d w2 mv
      by (auto simp: go_rename_def io_map_error_def node_at_wf split: sum.split)
    have "s' = s2 \<and> r \<noteq> Inr () \<or> s' = s3 \<and> r \<noteq> Inr () \<or> s' = s4 \<and> (\<exists>e. g = Inl e) \<and> r \<noteq> Inr () \<or> s' = s4 \<and> g = Inr ()"
      using run w Inr f ren unfolding store_rename_def io_bind_def io_map_error_def
      by (cases f1; cases f2; cases g) auto
    moreover have "lookup (os_fs s4) q = lookup (os_fs s1) q \<and> (\<exists>e. g = Inl e) \<and> os_fs s4 = os_fs s1 \<or>
        (\<forall>p. lookup (os_fs s4) p = (if p = q then Some (FFile data) else if p = t then None else lookup (os_fs s1) p))"
      using syscall_fs [of "\<lambda>_ fs. fs" "fs_rename t q" s3] fs_rename_file [OF w2 d q(3) names(2)] mv e
      unfolding sys_rename_def by (cases g) auto
    moreover have "os_cwd s4 = os_cwd s" "fs_wf (os_fs s4)"
      using syscall_cwd [of "\<lambda>_ fs. fs" "fs_rename t q" s3] mv e w1(2) wf_rename [OF w2 names(2)]
        syscall_fs [of "\<lambda>_ fs. fs" "fs_rename t q" s3] w2 unfolding sys_rename_def by auto (metis snd_conv)
    ultimately show ?thesis using e w1 w2 qs cwd by (auto simp: same_on_def os_wf_def)
  qed
qed

lemma temp_name: "slash \<notin> set rnd \<Longrightarrow> name_ok (''.tmp-'' @ rnd)"
  by (auto simp: name_ok_def slash_def)

lemma store_atomic:
  assumes "is_abs rt" and "inner_root rt" and "list_all name_ok (ns @ [n])" and "os_wf s" and "slash \<notin> set rnd"
    and "n \<noteq> ''.tmp-'' @ rnd" and "fp_store rt rnd (str_join [slash] (ns @ [n])) data s = (r, s')"
  shows "os_wf s' \<and> os_cwd s' = os_cwd s \<and>
    (lookup (os_fs s') (canon (os_cwd s) rt @ ns @ [n]) = lookup (os_fs s) (canon (os_cwd s) rt @ ns @ [n]) \<and> r \<noteq> Inr ()
      \<or> lookup (os_fs s') (canon (os_cwd s) rt @ ns @ [n]) = Some (FFile data)) \<and>
    (\<forall>p. p \<noteq> canon (os_cwd s) rt @ ns @ [n] \<longrightarrow> p \<noteq> canon (os_cwd s) rt @ ns @ [''.tmp-'' @ rnd] \<longrightarrow>
       \<not> below p (canon (os_cwd s) rt @ ns) \<longrightarrow> lookup (os_fs s') p = lookup (os_fs s) p)"
proof -
  let ?D = "canon (os_cwd s) rt @ ns" and ?path = "path_of rt (ns @ [n])"
  let ?q = "?D @ [n]" and ?t = "?D @ [''.tmp-'' @ rnd]" and ?tmp = "temp_path (path_of rt ns) rnd"
  have cwd: "list_all name_ok (os_cwd s)" and fw: "fs_wf (os_fs s)" using assms(4) by (simp_all add: os_wf_def)
  have nm: "list_all name_ok ns" "name_ok n" using assms(3) by simp_all
  note tn = temp_name [OF assms(5)]
  have fp: "full_path rt (str_join [slash] (ns @ [n])) = Inr ?path"
    by (rule full_path_names [OF assms(2,3)]) simp
  have dir: "go_dir ?path = path_of rt ns" using path_of_snoc(1) [OF nm] by simp
  have cD: "canon (os_cwd s) (path_of rt ns) = ?D" "canon (os_cwd s) ?path = ?q" "canon (os_cwd s) ?tmp = ?t"
    using canon_path_of [OF nm(1)] canon_path_of [OF assms(3)] canon_join [OF tn] by (simp_all add: temp_path_def)
  have ne: "?path \<noteq> []" "?tmp \<noteq> []"
    using path_of_snoc(2) [OF nm, of rt] nm(2) join_not_empty [OF tn] by (auto simp: go_base_def name_ok_def temp_path_def)
  have render: "path_of rt ns = render_path True ?D"
    using assms(1) by (simp add: path_of_def canon_def)
  have above: "io_rel (same_on (\<lambda>p. \<not> below p ?D)) (os_cwd s) (go_mkdir_all (path_of rt ns))"
    unfolding render by (rule mkdir_all_above(1) [OF cwd]) (use nm canon_names [OF cwd] in simp)
  obtain a s1 where m: "go_mkdir_all (path_of rt ns) s = (a, s1)" by (cases "go_mkdir_all (path_of rt ns) s")
  from io_relD [OF above refl m] have s1: "same_on (\<lambda>p. \<not> below p ?D) (os_fs s) (os_fs s1)" "os_cwd s1 = os_cwd s" by simp_all
  from io_relD [OF mkdir_all_keeps(1) [OF cwd] refl m] fw have w1: "fs_wf (os_fs s1)" by (simp add: wf_kept_def)
  have out: "\<not> below ?q ?D" "\<not> below ?t ?D" "?t \<noteq> ?q" using assms(6) by (auto simp: below_split)
  show ?thesis
  proof (cases a)
    case (Inl e)
    with assms(7) m have "s' = s1 \<and> r \<noteq> Inr ()" by (auto simp: fp_store_def fp dir io_bind_def io_map_error_def)
    with s1 w1 cwd out show ?thesis by (auto simp: same_on_def os_wf_def)
  next
    case (Inr u)
    obtain b s2 where c: "on_path ''open'' ?tmp (sys_create True) s1 = (b, s2)"
      by (cases "on_path ''open'' ?tmp (sys_create True) s1")
    have cr: "io_rel (same_on (\<lambda>p. p \<noteq> ?t)) (os_cwd s) (on_path ''open'' ?tmp (sys_create True))"
      "io_rel wf_kept (os_cwd s) (on_path ''open'' ?tmp (sys_create True))"
      unfolding sys_create_def using fs_step_lookup(2) [of _ ?t] wf_create nm tn canon_names [OF cwd]
      by (auto simp: same_on_def wf_kept_def cD intro!: tree_relation.rel_on_path [OF tree_relations(1) [OF cwd]]
        tree_relation.rel_on_path [OF tree_relations(2) [OF cwd]]
        tree_relation.rel_syscall [OF tree_relations(1) [OF cwd]] tree_relation.rel_syscall [OF tree_relations(2) [OF cwd]])
    from io_relD [OF cr(1) s1(2) c] have s2: "same_on (\<lambda>p. p \<noteq> ?t) (os_fs s1) (os_fs s2)" "os_cwd s2 = os_cwd s" by simp_all
    from io_relD [OF cr(2) s1(2) c] w1 have w2: "fs_wf (os_fs s2)" by (simp add: wf_kept_def)
    show ?thesis
    proof (cases b)
      case (Inl e)
      with assms(7) m Inr c have "s' = s2 \<and> r \<noteq> Inr ()"
        by (auto simp: fp_store_def fp dir io_bind_def io_map_error_def Let_def)
      with s1 s2 w2 cwd out show ?thesis by (auto simp: same_on_def os_wf_def)
    next
      case (Inr v)
      with c have "sys_create True ?t s1 = (Inr (), s2)" using s1(2) cD ne by (simp add: on_path_Inr)
      then have f: "lookup (os_fs s2) ?t = Some (FFile [])" using sys_Inr(5) create_made by blast
      obtain r3 s3 where sr: "store_rename ?tmp ?path data s2 = (r3, s3)" by (cases "store_rename ?tmp ?path data s2")
      have "os_wf s2" using w2 cwd s2(2) by (simp add: os_wf_def)
      note at = store_rename_atomic [OF sr this _ ne(2) _ ne(1) out(3) f, unfolded s2(2), OF cD(3,2)]
      obtain r4 s4 where rm: "go_remove ?tmp s3 = (r4, s4)" by (cases "go_remove ?tmp s3")
      have "io_rel (same_on (\<lambda>p. p \<noteq> ?t)) (os_cwd s) (go_remove ?tmp)"
        unfolding go_remove_def sys_remove_def using fs_step_lookup(4) [of _ ?t]
        by (auto simp: same_on_def cD intro!: tree_relation.rel_on_path [OF tree_relations(2) [OF cwd]]
            tree_relation.rel_syscall [OF tree_relations(2) [OF cwd]])
      from io_relD [OF this _ rm] at have s4: "same_on (\<lambda>p. p \<noteq> ?t) (os_fs s3) (os_fs s4)" "os_cwd s4 = os_cwd s" by auto
      have w4: "os_wf s4"
      proof -
        have "io_rel wf_kept (os_cwd s) (go_remove ?tmp)"
          unfolding go_remove_def sys_remove_def
          by (auto simp: wf_kept_def wf_remove intro!: tree_relation.rel_on_path [OF tree_relations(1) [OF cwd]]
              tree_relation.rel_syscall [OF tree_relations(1) [OF cwd]])
        from io_relD [OF this _ rm] at show ?thesis by (auto simp: wf_kept_def os_wf_def)
      qed
      have "s' = s4" "r = r3"
        using assms(7) m \<open>a = Inr u\<close> c Inr sr rm
        by (simp_all add: fp_store_def fp dir io_bind_def io_map_error_def Let_def io_finally_def)
      then show ?thesis using s1 s2 at s4 w4 out by (auto simp: same_on_def)
    qed
  qed
qed

text \<open>C35. FilePersist.Store is atomic under every schedule of failing system calls and crashes: afterwards the
  file of the key holds its old contents, with an error reported, or all of the new contents; no other file changes
  but the temporary file and the directories on the way.\<close>

theorem store_is_atomic:
  assumes "is_abs rt" and "inner_root rt" and "list_all name_ok (ns @ [n])" and "os_wf s" and "slash \<notin> set rnd"
    and "n \<noteq> ''.tmp-'' @ rnd" and "fp_store rt rnd (str_join [slash] (ns @ [n])) data s = (r, s')"
  shows "(lookup (os_fs s') (canon (os_cwd s) rt @ ns @ [n]) = lookup (os_fs s) (canon (os_cwd s) rt @ ns @ [n]) \<and> r \<noteq> Inr ()
      \<or> lookup (os_fs s') (canon (os_cwd s) rt @ ns @ [n]) = Some (FFile data))
    \<and> (\<forall>p. p \<noteq> canon (os_cwd s) rt @ ns @ [n] \<longrightarrow> p \<noteq> canon (os_cwd s) rt @ ns @ [''.tmp-'' @ rnd] \<longrightarrow>
         \<not> below p (canon (os_cwd s) rt @ ns) \<longrightarrow> lookup (os_fs s') p = lookup (os_fs s) p)"
  using store_atomic [OF assms] by blast

definition crash_os :: os where
  "crash_os = \<lparr>os_fs = [([''w''], FDir), ([''w'', ''k''], FFile ''old'')], os_cwd = [],
     os_faults = [None, None, Some (Crash 2)], os_down = False\<rparr>"

lemma crash_os_wf: "os_wf crash_os"
  by code_simp

text \<open>The machine stops after two bytes of the new contents: the key keeps the old ones, a temporary file stays.\<close>

lemma crash_run: "fp_store ''/w'' ''7'' ''k'' ''new'' crash_os
    = (Inl (PlainError ''file persist store: write: write /w/.tmp-7: the program has stopped''),
       \<lparr>os_fs = [([''w''], FDir), ([''w'', ''k''], FFile ''old''), ([''w'', ''.tmp-7''], FFile ''ne'')], os_cwd = [],
        os_faults = [], os_down = True\<rparr>)"
  by code_simp

theorem store_is_atomic_witness:
  "lookup (os_fs (snd (fp_store ''/w'' ''7'' ''k'' ''new'' crash_os))) [''w'', ''k''] \<in> {Some (FFile ''old''), Some (FFile ''new'')}"
proof -
  have h: "is_abs ''/w''" "inner_root ''/w''" "list_all name_ok ([] @ [''k''])" "slash \<notin> set ''7''" "''k'' \<noteq> ''.tmp-'' @ ''7''"
    by code_simp+
  have k: "str_join [slash] ([] @ [''k'']) = ''k''" by simp
  have c: "canon (os_cwd crash_os) ''/w'' = [''w'']" "lookup (os_fs crash_os) [''w'', ''k''] = Some (FFile ''old'')" by code_simp+
  obtain r s' where run: "fp_store ''/w'' ''7'' ''k'' ''new'' crash_os = (r, s')" by (cases "fp_store ''/w'' ''7'' ''k'' ''new'' crash_os")
  from store_is_atomic [OF h(1,2,3) crash_os_wf h(4,5), unfolded k, OF run] show ?thesis by (auto simp: run c)
qed

section \<open>JSON lines on a store that gives back what was stored\<close>

lemma ended_lines: "jsonl_lines enc w es = Inr ts \<Longrightarrow> ended ts = ts"
proof (induction es arbitrary: ts)
  case (Cons e es)
  then show ?case by (cases es) (auto simp: ended_def split: sum.splits)
qed (simp add: ended_def)

lemma lines_append:
  "jsonl_lines enc w es = Inr ts \<Longrightarrow> jsonl_lines enc w' es' = Inr ts' \<Longrightarrow> jsonl_lines enc w2 (es @ es') = Inr (ts @ ts')"
proof (induction es arbitrary: ts)
  case Nil
  then have "ts = []" by simp
  moreover have "jsonl_lines enc w2 es' = Inr ts'" using Nil.prems(2)
    by (induction es' arbitrary: ts') (auto split: sum.splits)
  ultimately show ?case by simp
qed (auto split: sum.splits)

locale text_store =
  fixes b :: "'s ipersist" and ok :: "string \<Rightarrow> bool" and ready :: "'s \<Rightarrow> bool"
  assumes load_stored: "ok k \<Longrightarrow> ready s \<Longrightarrow> ip_store b k d s = (Inr (), s') \<Longrightarrow> ready s' \<and> ip_load b k s' = (Inr d, s')"
begin

lemma written_lines:
  assumes "ok k" and "ready s" and "jsonl_write_all enc b k es s = (Inr (), s')"
  shows "ready s' \<and> (\<exists>ts. jsonl_lines enc ''jsonl write'' es = Inr ts \<and> ip_load b k s' = (Inr ts, s'))"
  using assms load_stored by (auto simp: jsonl_write_all_def split: sum.splits)

lemma appended_lines:
  assumes "ok k" and "ready s" and "ip_load b k s = (Inr ts, s)" and "jsonl_lines enc w es = Inr ts"
    and "jsonl_append enc b k es' s = (Inr (), s')"
  shows "\<exists>ts'. jsonl_lines enc w2 (es @ es') = Inr (ts @ ts') \<and> ip_load b k s' = (Inr (ts @ ts'), s')"
proof -
  from assms(3,5) obtain ts' where l: "jsonl_lines enc ''jsonl append'' es' = Inr ts'"
    and st: "ip_store b k (ended ts @ ts') s = (Inr (), s')"
    by (auto simp: jsonl_append_def split: sum.splits)
  from load_stored [OF assms(1,2) st] lines_append [OF assms(4) l] show ?thesis
    by (auto simp: ended_lines [OF assms(4)])
qed

end

definition file_key :: "string \<Rightarrow> string \<Rightarrow> string \<Rightarrow> bool" where
  "file_key rt rnd key \<longleftrightarrow>
     is_abs rt \<and> inner_root rt \<and> slash \<notin> set rnd \<and>
     (\<exists>ns n. key = str_join [slash] (ns @ [n]) \<and> list_all name_ok (ns @ [n]) \<and> n \<noteq> ''.tmp-'' @ rnd)"

definition calm_kept :: "('e, 'a) io \<Rightarrow> bool" where
  "calm_kept m \<longleftrightarrow> (\<forall>s. calm s \<longrightarrow> calm (snd (m s)))"

lemma calm_kept_basic [intro]:
  "calm_kept (syscall part eff)" "calm_kept (io_return x)" "calm_kept (io_fail e)"
  by (simp_all add: calm_kept_def syscall_calm io_return_def io_fail_def case_prod_beta)

lemma calm_kept_step [intro]:
  "calm_kept m \<Longrightarrow> (\<And>x. calm_kept (f x)) \<Longrightarrow> calm_kept (io_bind m f)"
  "calm_kept m \<Longrightarrow> calm_kept (io_try m)" "calm_kept m \<Longrightarrow> calm_kept (io_map_error g m)"
  "calm_kept m \<Longrightarrow> calm_kept m' \<Longrightarrow> calm_kept (io_finally m m')"
  by (simp_all add: calm_kept_def io_bind_def io_try_def io_map_error_def io_finally_def case_prod_beta split: sum.split)

lemma calm_kept_path [intro]: "(\<And>c. calm_kept (f c)) \<Longrightarrow> calm_kept (on_path op p f)"
  by (simp add: calm_kept_def on_path_def io_map_error_def case_prod_beta split: sum.split)

lemma calm_kept_calls [intro]:
  "calm_kept (sys_stat p)" "calm_kept (sys_create x p)" "calm_kept (sys_write p d)" "calm_kept sys_flush"
  "calm_kept (sys_mkdir p)" "calm_kept (sys_remove p)" "calm_kept (sys_rename p q)"
  unfolding sys_stat_def sys_create_def sys_write_def sys_flush_def sys_mkdir_def sys_remove_def sys_rename_def by blast+

lemma calm_kept_rename [intro]: "calm_kept (go_rename a b)"
  using calm_kept_calls(7) by (simp add: calm_kept_def go_rename_def io_map_error_def case_prod_beta split: sum.split)

lemma calm_kept_mkdir_all [intro]: "calm_kept (go_mkdir_all p)"
proof (induction p rule: go_mkdir_all.induct)
  case (1 p)
  have "calm_kept (go_mkdir q)" for q
    by (auto simp: go_mkdir_def go_stat_def split: sum.split intro!: calm_kept_step calm_kept_basic calm_kept_path calm_kept_calls)
  with 1 show ?case
    by (subst go_mkdir_all.simps) (auto simp: go_stat_def split: sum.split node.split intro!: calm_kept_step calm_kept_basic calm_kept_path calm_kept_calls)
qed

lemma calm_kept_store: "calm_kept (fp_store rt rnd key data)"
  unfolding fp_store_def store_rename_def go_remove_def Let_def
  by (auto split: sum.split intro!: calm_kept_step calm_kept_path)

definition quiet :: "os \<Rightarrow> bool" where
  "quiet s \<longleftrightarrow> calm s \<and> os_wf s"

interpretation files: text_store "file_backend rt rnd" "file_key rt rnd" quiet for rt rnd
proof
  fix k s d s'
  assume k: "file_key rt rnd k" and s: "quiet s" and st: "ip_store (file_backend rt rnd) k d s = (Inr (), s')"
  from k obtain ns n where n: "is_abs rt" "inner_root rt" "slash \<notin> set rnd" "k = str_join [slash] (ns @ [n])"
    "list_all name_ok (ns @ [n])" "n \<noteq> ''.tmp-'' @ rnd" by (auto simp: file_key_def)
  have wf: "os_wf s" using s by (simp add: quiet_def)
  have run: "fp_store rt rnd (str_join [slash] (ns @ [n])) d s = (Inr (), s')" using st n(4) by (simp add: file_backend_def)
  from store_atomic [OF n(1,2,5) wf n(3,6) run] have cwd: "os_cwd s' = os_cwd s" and
    f: "os_wf s'" "lookup (os_fs s') (canon (os_cwd s) (path_of rt (ns @ [n]))) = Some (FFile d)"
    using canon_path_of [OF n(5)] by simp_all
  have c: "calm s'" using calm_kept_store [of rt rnd "str_join [slash] (ns @ [n])" d] run s
    by (auto simp: calm_kept_def quiet_def)
  have ne: "path_of rt (ns @ [n]) \<noteq> []" by (rule path_of_nonempty [OF n(5)])
  have "full_path rt k = Inr (path_of rt (ns @ [n]))" unfolding n(4) by (rule full_path_names [OF n(2,5)]) simp
  moreover have "node_at (os_fs s') (canon (os_cwd s') (path_of rt (ns @ [n]))) = Inr (FFile d)"
    using f cwd by (simp add: node_at_wf os_wf_def)
  ultimately show "quiet s' \<and> ip_load (file_backend rt rnd) k s' = (Inr d, s')"
    using f(1) c by (simp add: quiet_def file_backend_def fp_load_def calm_ops(1) [OF c ne])
qed

text \<open>After WriteAll of a list of events and Append of another, the file holds the lines of both lists in
  order.\<close>

theorem log_extends:
  assumes "file_key rt rnd key" and "quiet s" and "jsonl_write_all enc (file_backend rt rnd) key es s = (Inr (), s1)"
    and "jsonl_append enc (file_backend rt rnd) key es' s1 = (Inr (), s2)"
  shows "\<exists>ts. jsonl_lines enc [] (es @ es') = Inr ts \<and> fp_load rt key s2 = (Inr ts, s2)"
proof -
  from files.written_lines [OF assms(1-3)] obtain ts where
    "quiet s1" "jsonl_lines enc ''jsonl write'' es = Inr ts" "ip_load (file_backend rt rnd) key s1 = (Inr ts, s1)" by blast
  from files.appended_lines [OF assms(1) this(1,3,2) assms(4)] show ?thesis by (auto simp: file_backend_def)
qed

theorem log_extends_witness:
  "\<exists>ts. jsonl_lines Inr [] [''{}'', ''[]''] = Inr ts \<and>
     fp_load ''/w'' ''a/b'' (snd (jsonl_append Inr (file_backend ''/w'' ''7'') ''a/b'' [''[]'']
       (snd (jsonl_write_all Inr (file_backend ''/w'' ''7'') ''a/b'' [''{}''] (crash_os\<lparr>os_faults := []\<rparr>))))) = (Inr ts, snd (jsonl_append Inr (file_backend ''/w'' ''7'') ''a/b'' [''[]'']
       (snd (jsonl_write_all Inr (file_backend ''/w'' ''7'') ''a/b'' [''{}''] (crash_os\<lparr>os_faults := []\<rparr>)))))"
proof -
  let ?s = "crash_os\<lparr>os_faults := []\<rparr>"
  let ?b = "file_backend ''/w'' ''7''"
  have k: "file_key ''/w'' ''7'' ''a/b''"
    unfolding file_key_def by (intro conjI exI [of _ "[''a'']"] exI [of _ "''b''"]) code_simp+
  have q: "quiet ?s" by code_simp
  have "fst (jsonl_write_all Inr ?b ''a/b'' [''{}''] ?s) = Inr ()" by code_simp
  then obtain s1 where w: "jsonl_write_all Inr ?b ''a/b'' [''{}''] ?s = (Inr (), s1)" by (metis prod.collapse)
  have "fst (jsonl_append Inr ?b ''a/b'' [''[]''] (snd (jsonl_write_all Inr ?b ''a/b'' [''{}''] ?s))) = Inr ()" by code_simp
  then obtain s2 where a: "jsonl_append Inr ?b ''a/b'' [''[]''] s1 = (Inr (), s2)" using w by (metis prod.collapse snd_conv)
  from log_extends [OF k q w a] show ?thesis by (simp add: w a)
qed

end
