(* ===== verification/MemoryFile.thy ===== *)
theory MemoryFile
  imports Markdown FilePersist
begin

text \<open>
  Long-term memory on disk: \<open>MarkdownPersist.ReadAll\<close> and \<open>WriteAll\<close> on a back end, and \<open>load\<close> and \<open>write\<close> of
  memory/longterm/fact.go on them.  What the memory holds after a restart is what it held before, up to what the
  text format keeps.
\<close>

section \<open>Reading and writing MEMORY.md\<close>

definition md_read_all :: "int \<Rightarrow> 's ipersist \<Rightarrow> string \<Rightarrow> 's \<Rightarrow> (os_error + markdown_entry list \<times> err option) \<times> 's" where
  "md_read_all now b path s =
     (case ip_load b path s of
        (Inl e, s') \<Rightarrow> (Inl e, s')
      | (Inr data, s') \<Rightarrow> (Inr (parse_markdown now data), s'))"

definition md_write_all ::
    "(string \<Rightarrow> string) \<Rightarrow> int \<Rightarrow> 's ipersist \<Rightarrow> string \<Rightarrow> markdown_entry list \<Rightarrow> 's \<Rightarrow> (os_error + unit) \<times> 's" where
  "md_write_all lower zone b path es s = ip_store b path (format_markdown lower zone es) s"

definition memory_path :: string where
  "memory_path = ''MEMORY.md''"

definition read_memory :: "int \<Rightarrow> 's ipersist \<Rightarrow> 's \<Rightarrow> read_result \<times> 's" where
  "read_memory now b s =
     (case md_read_all now b memory_path s of
        (Inl e, s') \<Rightarrow> (if is_not_exist e then ReadMissing else ReadFailed (ErrOther (os_error_text e)), s')
      | (Inr (es, Some e), s') \<Rightarrow> (ReadFailed e, s')
      | (Inr (es, None), s') \<Rightarrow> (ReadEntries (map markdown_to_item es), s'))"

definition write_memory :: "(string \<Rightarrow> string) \<Rightarrow> int \<Rightarrow> 's ipersist \<Rightarrow> memory_item list \<Rightarrow> 's \<Rightarrow> (os_error + unit) \<times> 's" where
  "write_memory lower zone b items s = md_write_all lower zone b memory_path (map item_to_markdown items) s"

section \<open>Facts after a restart\<close>

definition fact_ok :: "int \<Rightarrow> memory_item \<Rightarrow> bool" where
  "fact_ok zone f = entry_ok zone (item_to_markdown f)"

text \<open>What a fact is after it was written and read: the title of its section, and what the format keeps.\<close>

definition fact_title :: "(string \<Rightarrow> string) \<Rightarrow> memory_item list \<Rightarrow> memory_item \<Rightarrow> string" where
  "fact_title lower items f =
     mi_section (hd (filter (\<lambda>g. lower (go_trim_space (mi_section g)) = lower (go_trim_space (mi_section f))) items))"

definition kept_fact :: "(string \<Rightarrow> string) \<Rightarrow> int \<Rightarrow> memory_item list \<Rightarrow> memory_item \<Rightarrow> memory_item" where
  "kept_fact lower zone items f =
     f\<lparr>mi_section := fact_title lower items f, mi_confidence := round2 (mi_confidence f), mi_updated := shown_time zone (mi_updated f)\<rparr>"

lemma same_filters_mset:
  assumes "\<And>k. filter (\<lambda>x. f x = k) xs = filter (\<lambda>x. f x = k) ys"
  shows "mset xs = mset ys"
proof (rule multiset_eqI)
  fix x
  have "count (mset zs) x = count (mset (filter (\<lambda>y. f y = f x) zs)) x" for zs by simp
  then show "count (mset xs) x = count (mset ys) x" using assms [of "f x"] by metis
qed

lemma filter_image: "(\<And>x. x \<in> set xs \<Longrightarrow> P (g x) = Q x) \<Longrightarrow> filter P (map g xs) = map g (filter Q xs)"
  by (induction xs) simp_all

lemma first_of_section:
  "f \<in> set items \<Longrightarrow>
   lower (go_trim_space (fact_title lower items f)) = lower (go_trim_space (mi_section f))"
proof -
  let ?P = "\<lambda>g. lower (go_trim_space (mi_section g)) = lower (go_trim_space (mi_section f))"
  assume "f \<in> set items"
  then have "filter ?P items \<noteq> []" by (auto simp: filter_empty_conv)
  from hd_in_set [OF this] show ?thesis by (simp add: fact_title_def)
qed

text \<open>The facts that are read are those that were written, each as it is kept.\<close>

lemma facts_read:
  assumes ok: "\<forall>f \<in> set items. fact_ok zone f"
    and p: "parse_markdown now (format_markdown lower zone (map item_to_markdown items)) = (es', oe)"
  shows "oe = None \<and> mset (map markdown_to_item es') = mset (map (kept_fact lower zone items) items)"
proof -
  let ?es = "map item_to_markdown items"
  define g where "g e = shown zone (section_title lower ?es (section_key lower e)) e" for e
  have kept: "markdown_to_item (g (item_to_markdown f)) = kept_fact lower zone items f" if "f \<in> set items" for f
  proof -
    let ?fs = "filter (\<lambda>x. lower (go_trim_space (mi_section x)) = lower (go_trim_space (mi_section f))) items"
    have "?fs \<noteq> []" using that by (auto simp: filter_empty_conv)
    then have "mk_section (hd (map item_to_markdown ?fs)) = mi_section (hd ?fs)"
      by (simp add: hd_map item_to_markdown_def)
    then have "section_title lower ?es (section_key lower (item_to_markdown f)) = fact_title lower items f"
      by (simp add: section_title_def fact_title_def filter_map comp_def in_section_def section_key_def item_to_markdown_def)
    then show ?thesis
      by (cases f) (simp add: g_def shown_def markdown_to_item_def kept_fact_def, simp add: item_to_markdown_def)
  qed
  have key: "section_key lower (g e) = section_key lower e" if "e \<in> set ?es" for e
  proof -
    have "filter (in_section lower (section_key lower e)) ?es \<noteq> []" using that by (auto simp: filter_empty_conv in_section_def)
    from hd_in_set [OF this] show ?thesis
      by (simp add: in_section_def section_key_def g_def shown_def section_title_def)
  qed
  obtain es2 where es2: "parse_markdown now (format_markdown lower zone ?es) = (es2, None)"
    and f: "\<And>k. filter (in_section lower k) es2 = map (shown zone (section_title lower ?es k)) (filter (in_section lower k) ?es)"
    using memory_file_sections [of ?es zone now lower] ok by (auto simp: fact_ok_def)
  have "filter (\<lambda>x. section_key lower x = k) es2 = filter (\<lambda>x. section_key lower x = k) (map g ?es)" for k
  proof -
    have "filter (\<lambda>x. section_key lower x = k) (map g ?es) = map g (filter (in_section lower k) ?es)"
      by (rule filter_image) (use key in \<open>simp add: in_section_def\<close>)
    also have "\<dots> = map (shown zone (section_title lower ?es k)) (filter (in_section lower k) ?es)"
      by (rule map_cong) (auto simp: g_def in_section_def)
    finally show ?thesis using f [of k] by (simp add: in_section_def [abs_def])
  qed
  then have "mset es2 = mset (map g ?es)" by (rule same_filters_mset)
  then have "mset (map markdown_to_item es2) = mset (map (\<lambda>f. markdown_to_item (g (item_to_markdown f))) items)"
    by (simp add: comp_def multiset.map_comp)
  also have "map (\<lambda>f. markdown_to_item (g (item_to_markdown f))) items = map (kept_fact lower zone items) items"
    using kept by simp
  finally show ?thesis using es2 p by simp
qed

lemma load_entries:
  assumes "distinct (map (item_key env) fs)"
  shows "ltm_ok env \<lparr>lt_items = fs, lt_index = rebuild_index env fs, lt_file = Some fs\<rparr>"
  using rebuild_index_at [OF assms order_refl] by (simp add: ltm_ok_def rebuild_index_def)

lemma kept_key: "f \<in> set items \<Longrightarrow> item_key env (kept_fact (le_lower env) zone items f) = item_key env f"
  using first_of_section [of f items "le_lower env"] by (simp add: item_key_def index_key_def normalize_def kept_fact_def)

lemma distinct_keys: "ltm_ok env s \<Longrightarrow> distinct (map (item_key env) (lt_items s))"
  by (auto simp: ltm_ok_def distinct_conv_nth) (metis option.inject)

lemma facts_reload:
  assumes s: "ltm_ok env s" and m: "mset fs = mset (map (kept_fact (le_lower env) zone (lt_items s)) (lt_items s))"
  defines "s' \<equiv> \<lparr>lt_items = fs, lt_index = rebuild_index env fs, lt_file = Some fs\<rparr>"
  shows "ltm_ok env s' \<and> fact_at s' k = map_option (kept_fact (le_lower env) zone (lt_items s)) (fact_at s k)"
proof -
  let ?g = "kept_fact (le_lower env) zone (lt_items s)"
  have "mset (map (item_key env) fs) = mset (map (item_key env) (map ?g (lt_items s)))" using m by (metis mset_map)
  also have "map (item_key env) (map ?g (lt_items s)) = map (item_key env) (lt_items s)" using kept_key by simp
  finally have d: "distinct (map (item_key env) fs)" using distinct_keys [OF s] mset_eq_imp_distinct_iff by blast
  have ok: "ltm_ok env s'" unfolding s'_def by (rule load_entries [OF d])
  have st: "set fs = ?g ` set (lt_items s)" using m by (metis list.set_map set_mset_mset)
  have "fact_at s' k = Some f' \<longleftrightarrow> map_option ?g (fact_at s k) = Some f'" for f'
  proof -
    have "fact_at s' k = Some f' \<longleftrightarrow> f' \<in> ?g ` set (lt_items s) \<and> item_key env f' = k"
      unfolding fact_at_iff [OF ok] by (simp add: s'_def st)
    also have "\<dots> \<longleftrightarrow> (\<exists>f. fact_at s k = Some f \<and> f' = ?g f)"
      unfolding fact_at_iff [OF s] using kept_key [of _ "lt_items s" env zone] by auto
    finally show ?thesis by auto
  qed
  then have "fact_at s' k = map_option ?g (fact_at s k)" by (metis not_Some_eq)
  with ok show ?thesis by simp
qed


definition demo_env :: ltm_env where
  "demo_env = \<lparr>le_now = 0, le_lower = ascii_lower, le_pow = (\<lambda>d. 1), le_judge = None, le_write = (\<lambda>fs. None)\<rparr>"

definition demo_memory :: ltm where
  "demo_memory = (let fs = map markdown_to_item demo_facts in \<lparr>lt_items = fs, lt_index = rebuild_index demo_env fs, lt_file = Some fs\<rparr>)"

definition demo_disk :: os where
  "demo_disk = crash_os\<lparr>os_faults := []\<rparr>"

lemma demo_memory_ok: "ltm_ok demo_env demo_memory" "\<forall>f \<in> set (lt_items demo_memory). fact_ok 0 f"
proof -
  have "distinct (map (item_key demo_env) (map markdown_to_item demo_facts))"
    by (simp add: demo_facts_def markdown_to_item_def item_key_def index_key_def)
  then show "ltm_ok demo_env demo_memory" unfolding demo_memory_def Let_def by (rule load_entries)
  have "item_to_markdown (markdown_to_item e) = e" for e by (cases e) (simp add: item_to_markdown_def markdown_to_item_def)
  then show "\<forall>f \<in> set (lt_items demo_memory). fact_ok 0 f"
    using demo_ok by (simp add: demo_memory_def Let_def fact_ok_def)
qed

lemma demo_stored: "fst (fp_store ''/w'' ''7'' memory_path d demo_disk) = Inr ()"
  by code_simp


end
