(* ===== verification/VectorStore.thy ===== *)
theory VectorStore
  imports FilePersist WebTools MemoryTools
begin

text \<open>
  The vector store (persist/chroma\_store.go), its wrapper (persist/vector\_persist.go) and the manager of the stores
  (persist/manager.go).  The server is reached through \<open>ce_get\<close> and \<open>ce_post\<close> on a world of its own; the JSON
  encoder, the decoder of an answer (of the text that could be read and the error that ended it) and the clock are
  fields of the environment too.  Distances and scores are rationals.
\<close>

section \<open>The client of the server\<close>

record vector_result =
  vr_document :: string
  vr_metadata :: val
  vr_score :: rat

record chroma_answer =
  ca_documents :: "string list list"
  ca_metadatas :: "val list list"
  ca_distances :: "rat list list"

record 'w chroma_env =
  ce_get :: "string \<Rightarrow> 'w \<Rightarrow> http_answer \<times> 'w"
  ce_post :: "string \<Rightarrow> string \<Rightarrow> 'w \<Rightarrow> http_answer \<times> 'w"
  ce_marshal :: "val \<Rightarrow> err + string"
  ce_decode :: "string \<Rightarrow> err option \<Rightarrow> err + chroma_answer"
  ce_clock :: "nat \<Rightarrow> int"

record chroma =
  ch_base :: string
  ch_collection :: string

definition post_json :: "'w chroma_env \<Rightarrow> chroma \<Rightarrow> string \<Rightarrow> val \<Rightarrow> 'w \<Rightarrow> http_answer \<times> 'w" where
  "post_json env c path body w =
     (case ce_marshal env body of
        Inl e \<Rightarrow> (Unreachable (ErrWrap ''chroma marshal'' e), w)
      | Inr data \<Rightarrow> ce_post env (ch_base c @ path) data w)"

text \<open>A request of which only the status counts.\<close>

definition post_checked :: "'w chroma_env \<Rightarrow> chroma \<Rightarrow> string \<Rightarrow> string \<Rightarrow> val \<Rightarrow> 'w \<Rightarrow> err option \<times> 'w" where
  "post_checked env c what path body w =
     (case post_json env c path body w of
        (Unreachable e, w') \<Rightarrow> (Some e, w')
      | (Answered code text e, w') \<Rightarrow>
          (if code \<ge> 400 then Some (ErrOther (what @ '' '' @ int_dec code @ '': '' @ text)) else None, w'))"

definition ensure_collection :: "'w chroma_env \<Rightarrow> chroma \<Rightarrow> 'w \<Rightarrow> err option \<times> 'w" where
  "ensure_collection env c w =
     (case ce_get env (ch_base c @ ''/api/v2/collections/'' @ ch_collection c) w of
        (a, w1) \<Rightarrow>
          if (case a of Answered code text e \<Rightarrow> code = 200 | Unreachable e \<Rightarrow> False) then (None, w1)
          else post_checked env c ''create collection'' ''/api/v2/collections'' (VMap [(''name'', VStr (ch_collection c))]) w1)"

definition new_chroma :: "'w chroma_env \<Rightarrow> string \<Rightarrow> string \<Rightarrow> 'w \<Rightarrow> (err + chroma) \<times> 'w" where
  "new_chroma env url collection w =
     (let c = \<lparr>ch_base = rev (dropWhile (\<lambda>x. x = slash) (rev url)), ch_collection = collection\<rparr> in
      case ensure_collection env c w of
        (Some e, w') \<Rightarrow> (Inl (ErrWrap ''chroma'' e), w')
      | (None, w') \<Rightarrow> (Inr c, w'))"

text \<open>\<open>url\<close> is the environment variable \<open>CHROMA_URL\<close>.\<close>

definition new_chroma_or_nil :: "'w chroma_env \<Rightarrow> string \<Rightarrow> 'w \<Rightarrow> chroma option \<times> 'w" where
  "new_chroma_or_nil env url w =
     (if url = [] then (None, w)
      else case new_chroma env url ''kugelblitz_memory'' w of
             (Inl e, w') \<Rightarrow> (None, w')
           | (Inr c, w') \<Rightarrow> (Some c, w'))"

definition collection_path :: "chroma \<Rightarrow> string \<Rightarrow> string" where
  "collection_path c op = ''/api/v2/collections/'' @ ch_collection c @ ''/'' @ op"

definition chroma_add :: "'w chroma_env \<Rightarrow> chroma \<Rightarrow> string list \<Rightarrow> val list \<Rightarrow> 'w \<Rightarrow> err option \<times> 'w" where
  "chroma_add env c docs metas w =
     (let ids = map (\<lambda>i. VStr (''doc-'' @ int_dec (ce_clock env i) @ ''-'' @ nat_dec i)) [0..<length docs]
      in post_checked env c ''chroma add'' (collection_path c ''add'')
           (VMap ([(''ids'', VList ids), (''documents'', VList (map VStr docs))] @
              (if metas = [] then [] else [(''metadatas'', VList metas)]))) w)"

definition distance_to_score :: "rat \<Rightarrow> rat" where
  "distance_to_score d = 1 / (1 + (if d < 0 then 0 else d))"

text \<open>The loop over the documents of the first query; \<open>nth_or\<close> is the guarded access to the parallel lists.\<close>

definition nth_or :: "'a \<Rightarrow> 'a list list \<Rightarrow> nat \<Rightarrow> 'a" where
  "nth_or d xss i = (case xss of [] \<Rightarrow> d | xs # _ \<Rightarrow> if i < length xs then xs ! i else d)"

definition answer_results :: "chroma_answer \<Rightarrow> vector_result list" where
  "answer_results a =
     (case ca_documents a of
        [] \<Rightarrow> []
      | docs # _ \<Rightarrow>
          map (\<lambda>i. \<lparr>vr_document = docs ! i, vr_metadata = nth_or VNil (ca_metadatas a) i,
                   vr_score = nth_or 1 (map (map distance_to_score) (ca_distances a)) i\<rparr>) [0..<length docs])"

definition search_body :: "string \<Rightarrow> int \<Rightarrow> val" where
  "search_body query limit =
     VMap [(''query_texts'', VList [VStr query]), (''n_results'', VInt limit),
           (''include'', VList [VStr ''documents'', VStr ''metadatas'', VStr ''distances''])]"

text \<open>The mode is only logged.\<close>

definition chroma_search :: "'w chroma_env \<Rightarrow> chroma \<Rightarrow> string \<Rightarrow> search_mode \<Rightarrow> int \<Rightarrow> 'w \<Rightarrow> (err + vector_result list) \<times> 'w" where
  "chroma_search env c query mode limit w =
     (case post_json env c (collection_path c ''query'') (search_body query limit) w of
        (Unreachable e, w') \<Rightarrow> (Inl e, w')
      | (Answered code text e, w') \<Rightarrow>
          (if code \<ge> 400 then Inl (ErrOther (''chroma query '' @ int_dec code @ '': '' @ text))
           else (case ce_decode env text e of Inl er \<Rightarrow> Inl er | Inr a \<Rightarrow> Inr (answer_results a)), w'))"

definition upsert_body :: "vector_entry list \<Rightarrow> val" where
  "upsert_body es =
     VMap [(''ids'', VList (map (VStr \<circ> ve_doc_id) es)), (''documents'', VList (map (VStr \<circ> ve_document) es)),
           (''metadatas'', VList (map (VMap \<circ> ve_meta) es))]"

definition chroma_upsert_many :: "'w chroma_env \<Rightarrow> chroma \<Rightarrow> vector_entry list \<Rightarrow> 'w \<Rightarrow> err option \<times> 'w" where
  "chroma_upsert_many env c es w =
     (if es = [] then (None, w) else post_checked env c ''chroma upsert'' (collection_path c ''upsert'') (upsert_body es) w)"

definition delete_document :: "'w chroma_env \<Rightarrow> chroma \<Rightarrow> string \<Rightarrow> 'w \<Rightarrow> err option \<times> 'w" where
  "delete_document env c doc_id w =
     post_checked env c ''chroma delete'' (collection_path c ''delete'') (VMap [(''ids'', VList [VStr doc_id])]) w"

section \<open>The store by keys\<close>

definition chroma_store :: "'w chroma_env \<Rightarrow> chroma \<Rightarrow> string \<Rightarrow> string \<Rightarrow> 'w \<Rightarrow> err option \<times> 'w" where
  "chroma_store env c key data w =
     chroma_upsert_many env c [\<lparr>ve_doc_id = key, ve_document = data, ve_meta = [(''_key'', VStr key)]\<rparr>] w"

definition chroma_load :: "'w chroma_env \<Rightarrow> chroma \<Rightarrow> string \<Rightarrow> 'w \<Rightarrow> (err + string) \<times> 'w" where
  "chroma_load env c key w =
     (case chroma_search env c key SearchSemantic 1 w of
        (Inl e, w') \<Rightarrow> (Inl e, w')
      | (Inr [], w') \<Rightarrow> (Inl (ErrOther (''chroma: not found: '' @ key)), w')
      | (Inr (r # _), w') \<Rightarrow> (Inr (vr_document r), w'))"

definition chroma_delete :: "'w chroma_env \<Rightarrow> chroma \<Rightarrow> string \<Rightarrow> 'w \<Rightarrow> err option \<times> 'w" where
  "chroma_delete env c key w = delete_document env c key w"

definition chroma_list :: "string \<Rightarrow> string list" where
  "chroma_list pre = []"

definition chroma_exists :: "'w chroma_env \<Rightarrow> chroma \<Rightarrow> string \<Rightarrow> 'w \<Rightarrow> bool \<times> 'w" where
  "chroma_exists env c key w = (case chroma_load env c key w of (r, w') \<Rightarrow> (\<not> (\<exists>e. r = Inl e), w'))"

section \<open>VectorPersist\<close>

record 's vector_persist =
  vp_backend :: "'s ipersist option"
  vp_chroma :: "chroma option"

definition vp_available :: "'s vector_persist option \<Rightarrow> bool" where
  "vp_available v = (case v of None \<Rightarrow> False | Some v \<Rightarrow> vp_chroma v \<noteq> None)"

definition vp_store :: "'s vector_persist \<Rightarrow> string \<Rightarrow> string \<Rightarrow> 's \<Rightarrow> (os_error + unit) \<times> 's" where
  "vp_store v key data s = (case vp_backend v of None \<Rightarrow> (Inr (), s) | Some b \<Rightarrow> ip_store b key data s)"

definition vp_load :: "'s vector_persist \<Rightarrow> string \<Rightarrow> 's \<Rightarrow> (os_error + string) \<times> 's" where
  "vp_load v key s =
     (case vp_backend v of None \<Rightarrow> (Inl (PlainError ''vector store not available''), s) | Some b \<Rightarrow> ip_load b key s)"

definition vp_delete :: "'s vector_persist \<Rightarrow> string \<Rightarrow> 's \<Rightarrow> (os_error + unit) \<times> 's" where
  "vp_delete v key s = (case vp_backend v of None \<Rightarrow> (Inr (), s) | Some b \<Rightarrow> ip_delete b key s)"

definition vp_list :: "'s vector_persist \<Rightarrow> string \<Rightarrow> 's \<Rightarrow> (os_error + string list) \<times> 's" where
  "vp_list v pre s = (case vp_backend v of None \<Rightarrow> (Inr [], s) | Some b \<Rightarrow> ip_list b pre s)"

definition vp_exists :: "'s vector_persist \<Rightarrow> string \<Rightarrow> 's \<Rightarrow> bool \<times> 's" where
  "vp_exists v key s = (case vp_backend v of None \<Rightarrow> (False, s) | Some b \<Rightarrow> ip_exists b key s)"

definition vp_search ::
    "'w chroma_env \<Rightarrow> 's vector_persist \<Rightarrow> string \<Rightarrow> search_mode \<Rightarrow> int \<Rightarrow> 'w \<Rightarrow> (err + vector_result list) \<times> 'w" where
  "vp_search env v query mode limit w =
     (case vp_chroma v of None \<Rightarrow> (Inr [], w) | Some c \<Rightarrow> chroma_search env c query mode limit w)"

definition vp_upsert_many :: "'w chroma_env \<Rightarrow> 's vector_persist \<Rightarrow> vector_entry list \<Rightarrow> 'w \<Rightarrow> err option \<times> 'w" where
  "vp_upsert_many env v es w =
     (case vp_chroma v of
        None \<Rightarrow> (None, w)
      | Some c \<Rightarrow> if es = [] then (None, w) else chroma_upsert_many env c es w)"

definition vp_delete_document :: "'w chroma_env \<Rightarrow> 's vector_persist \<Rightarrow> string \<Rightarrow> 'w \<Rightarrow> err option \<times> 'w" where
  "vp_delete_document env v doc_id w =
     (case vp_chroma v of None \<Rightarrow> (None, w) | Some c \<Rightarrow> delete_document env c doc_id w)"

text \<open>What \<open>IndexManager.Search\<close> reads of the results: the section and key of each (index.go).\<close>

definition meta_string :: "val \<Rightarrow> string \<Rightarrow> string" where
  "meta_string m k = (case m of VMap kvs \<Rightarrow> (case map_of kvs k of Some (VStr t) \<Rightarrow> t | _ \<Rightarrow> []) | _ \<Rightarrow> [])"

definition result_hit :: "vector_result \<Rightarrow> string \<times> string" where
  "result_hit r = (meta_string (vr_metadata r) ''section'', meta_string (vr_metadata r) ''key'')"

definition vector_hits ::
    "'w chroma_env \<Rightarrow> 's vector_persist \<Rightarrow> 'w \<Rightarrow> (string \<Rightarrow> search_mode \<Rightarrow> int \<Rightarrow> err + (string \<times> string) list) option" where
  "vector_hits env v w =
     (if vp_available (Some v)
      then Some (\<lambda>query mode limit. case fst (vp_search env v query mode limit w) of Inl e \<Rightarrow> Inl e | Inr rs \<Rightarrow> Inr (map result_hit rs))
      else None)"

section \<open>The manager\<close>

text \<open>\<open>sync.Once\<close>: the first call builds the manager for the workspace of that moment, later calls return it.\<close>

record manager =
  mg_dir :: string
  mg_files :: "os ipersist"
  mg_vector :: "os vector_persist"

definition build_manager :: "string \<Rightarrow> string \<Rightarrow> chroma option \<Rightarrow> manager" where
  "build_manager rnd dir c =
     (let fp = file_backend dir rnd in \<lparr>mg_dir = dir, mg_files = fp, mg_vector = \<lparr>vp_backend = Some fp, vp_chroma = c\<rparr>\<rparr>)"

definition get_manager ::
    "'w chroma_env \<Rightarrow> string \<Rightarrow> string \<Rightarrow> string \<Rightarrow> manager option \<times> 'w \<Rightarrow> manager \<times> manager option \<times> 'w" where
  "get_manager env rnd url dir st =
     (case st of
        (Some m, w) \<Rightarrow> (m, Some m, w)
      | (None, w) \<Rightarrow> (case new_chroma_or_nil env url w of
            (c, w') \<Rightarrow> let m = build_manager rnd dir c in (m, Some m, w')))"

definition reset_manager :: "manager option \<times> 'w \<Rightarrow> manager option \<times> 'w" where
  "reset_manager st = (None, snd st)"

section \<open>Lemmas\<close>

lemma score_bounds: "0 < distance_to_score d \<and> distance_to_score d \<le> 1"
  by (auto simp: distance_to_score_def field_simps)

lemma score_antitone: "d \<le> d' \<Longrightarrow> distance_to_score d' \<le> distance_to_score d"
  by (auto simp: distance_to_score_def field_simps)

lemma score_strict: "0 \<le> d \<Longrightarrow> d < d' \<Longrightarrow> distance_to_score d' < distance_to_score d"
  by (simp add: distance_to_score_def field_simps)

text \<open>Documents, ids and metadata stay together in an upsert, and a key is the id of its document.\<close>

lemma upsert_aligned:
  "\<exists>ids docs metas. upsert_body es = VMap [(''ids'', VList (map VStr ids)), (''documents'', VList (map VStr docs)), (''metadatas'', VList metas)] \<and>
     zip ids (zip docs metas) = map (\<lambda>e. (ve_doc_id e, ve_document e, VMap (ve_meta e))) es"
  unfolding upsert_body_def map_map [symmetric]
  by (intro exI conjI, rule refl) (simp add: zip_map_map zip_same_conv_map comp_def)

text \<open>Whatever the server answers, a search through the index finds facts of the memory only.\<close>

lemma index_finds_facts:
  assumes "f \<in> set (index_search env (map_option (\<lambda>search. search query mode limit) (vector_hits cenv v w)) query s)"
    and "ltm_ok env s"
  shows "f \<in> decay_confidence env ` set (lt_items s) \<or> f \<in> set (search_ltm env query s)"
proof -
  have "g \<in> decay_confidence env ` set (lt_items s)" if "get_fact env sec key s = Some g" for g sec key
    using that fact_at_iff [OF assms(2)] by (auto simp: get_fact_at)
  with assms(1) show ?thesis
    by (auto simp: index_search_def Let_def map_filter_def split: if_splits option.splits sum.splits)
qed

text \<open>\<open>Load\<close> gives the nearest document of a search for the text of the key, whatever its id.\<close>

lemma load_is_search:
  "chroma_search env c key SearchSemantic 1 w = (Inr (r # rs), w') \<Longrightarrow>
   chroma_load env c key w = (Inr (vr_document r), w') \<and> chroma_exists env c key w = (True, w')"
  by (simp add: chroma_load_def chroma_exists_def)

text \<open>The manager keeps the directory of its first use, whatever the workspace is later.\<close>

lemma manager_sticks:
  assumes "get_manager env rnd url dir st = (m, st')"
  shows "get_manager env' rnd' url' dir' st' = (m, st')"
  using assms by (cases st; cases "fst st") (auto simp: get_manager_def Let_def split: prod.splits)

text \<open>Without a server nothing is searched or written, and the files answer the rest.\<close>

lemma no_server:
  assumes "get_manager env rnd [] dir (None, w) = (m, st')"
  shows "snd st' = w \<and> vp_search env (mg_vector m) query mode limit w = (Inr [], w) \<and>
    vp_upsert_many env (mg_vector m) es w = (None, w) \<and> vp_load (mg_vector m) key s = fp_load dir key s"
  using assms
  by (auto simp: get_manager_def new_chroma_or_nil_def build_manager_def Let_def vp_search_def vp_upsert_many_def vp_load_def file_backend_def)

text \<open>C40. A vector search returns the documents the server found in its order, each with a
  score greater than 0 and at most 1 that never grows with the distance; the number of results is the number of
  documents even when the server sends fewer distances or metadata.\<close>

theorem search_results_aligned:
  assumes "chroma_search env c query mode limit w = (Inr rs, w')"
    and "post_json env c (collection_path c ''query'') (search_body query limit) w = (Answered code t e, w')"
    and "ce_decode env t e = Inr a" and "ca_documents a = docs # dss"
  shows "map vr_document rs = docs \<and>
    (\<forall>r \<in> set rs. 0 < vr_score r \<and> vr_score r \<le> 1) \<and>
    (\<forall>i j dist ds. ca_distances a = dist # ds \<and> i < length rs \<and> j < length rs \<and> i < length dist \<and> j < length dist \<and> dist ! i \<le> dist ! j \<longrightarrow>
       vr_score (rs ! j) \<le> vr_score (rs ! i))"
proof -
  have rs: "rs = answer_results a" using assms by (simp add: chroma_search_def split: if_splits)
  show ?thesis unfolding rs
    by (auto simp: answer_results_def assms(4) nth_or_def score_bounds score_antitone intro: nth_equalityI split: list.splits)
qed

definition demo_server :: "unit chroma_env" where
  "demo_server =
     \<lparr>ce_get = (\<lambda>u w. (Answered 200 [] None, w)), ce_post = (\<lambda>u d w. (Answered 200 ''{}'' None, w)), ce_marshal = (\<lambda>v. Inr ''{}''),
      ce_decode = (\<lambda>t e. Inr \<lparr>ca_documents = [[''near'', ''far'']], ca_metadatas = [], ca_distances = [[1 / 2, 3]]\<rparr>), ce_clock = (\<lambda>i. 0)\<rparr>"

theorem search_results_aligned_witness:
  "\<exists>r r'. chroma_search demo_server \<lparr>ch_base = ''http://x'', ch_collection = ''c''\<rparr> ''q'' SearchHybrid 2 () = (Inr [r, r'], ()) \<and>
     vr_document r = ''near'' \<and> vr_score r' \<le> vr_score r \<and> vr_score r \<le> 1"
proof -
  let ?c = "\<lparr>ch_base = ''http://x'', ch_collection = ''c''\<rparr>"
  let ?a = "\<lparr>ca_documents = [[''near'', ''far'']], ca_metadatas = [], ca_distances = [[1 / 2, 3]]\<rparr>"
  have p: "post_json demo_server ?c (collection_path ?c ''query'') (search_body ''q'' 2) () = (Answered 200 ''{}'' None, ())"
    and d: "ce_decode demo_server ''{}'' None = Inr ?a" "ca_documents ?a = [''near'', ''far''] # []"
    by (simp_all add: demo_server_def post_json_def)
  obtain rs where s: "chroma_search demo_server ?c ''q'' SearchHybrid 2 () = (Inr rs, ())"
    by (simp add: chroma_search_def p d)
  from search_results_aligned [OF s p d] have m: "map vr_document rs = [''near'', ''far'']" "\<forall>r \<in> set rs. 0 < vr_score r \<and> vr_score r \<le> 1"
    and o: "0 < length rs \<Longrightarrow> 1 < length rs \<Longrightarrow> vr_score (rs ! 1) \<le> vr_score (rs ! 0)"
    by (auto simp: numeral_2_eq_2)
  from m(1) obtain r r' where "rs = [r, r']" "vr_document r = ''near''" by (auto simp: map_eq_Cons_conv)
  with s m(2) o show ?thesis by auto
qed

end
