(* ===== verification/Media.thy ===== *)
theory Media
  imports FileTools Markdown ModelCalls
begin

text \<open>
  Media: validation of inputs (core/media.go), the files behind the session (memory/media\_converter.go) and the
  descriptions for the model (memory/media\_describe.go).  Base64 is Go's \<open>StdEncoding\<close>; the error of its decoder
  leaves the offset out.  \<open>http.DetectContentType\<close>, \<open>image.DecodeConfig\<close> and \<open>filepath.Glob\<close> are arguments.
\<close>

section \<open>Base64\<close>

definition b64_digit :: "nat \<Rightarrow> char" where
  "b64_digit d =
     (if d < 26 then char_of (65 + d) else if d < 52 then char_of (71 + d) else if d < 62 then char_of (d - 4)
      else if d = 62 then CHR ''+'' else CHR ''/'')"

definition b64_value :: "char \<Rightarrow> nat option" where
  "b64_value c =
     (let n = of_char c :: nat in
      if 65 \<le> n \<and> n \<le> 90 then Some (n - 65) else if 97 \<le> n \<and> n \<le> 122 then Some (n - 71)
      else if 48 \<le> n \<and> n \<le> 57 then Some (n + 4) else if c = CHR ''+'' then Some 62 else if c = CHR ''/'' then Some 63
      else None)"

abbreviation byte :: "char \<Rightarrow> nat" where
  "byte c \<equiv> of_char c"

fun b64_encode :: "string \<Rightarrow> string" where
  "b64_encode (a # b # c # s) =
     b64_digit (byte a div 4) # b64_digit (byte a mod 4 * 16 + byte b div 16) #
     b64_digit (byte b mod 16 * 4 + byte c div 64) # b64_digit (byte c mod 64) # b64_encode s"
| "b64_encode [a, b] =
     [b64_digit (byte a div 4), b64_digit (byte a mod 4 * 16 + byte b div 16), b64_digit (byte b mod 16 * 4), CHR ''='']"
| "b64_encode [a] = [b64_digit (byte a div 4), b64_digit (byte a mod 4 * 16), CHR ''='', CHR ''='']"
| "b64_encode [] = []"

text \<open>Quads of digits; padding ends the text, and the bits that it leaves over are not looked at.\<close>

fun b64_quads :: "string \<Rightarrow> string option" where
  "b64_quads [] = Some []"
| "b64_quads (p # q # r # t # s) =
     (case (b64_value p, b64_value q) of
        (Some a, Some b) \<Rightarrow>
          (let x = char_of ((4 * a + b div 16) mod 256) in
           if r = CHR ''='' then (if t = CHR ''='' \<and> s = [] then Some [x] else None)
           else (case b64_value r of
                   None \<Rightarrow> None
                 | Some c \<Rightarrow>
                     (let y = char_of ((16 * b + c div 4) mod 256) in
                      if t = CHR ''='' then (if s = [] then Some [x, y] else None)
                      else (case b64_value t of
                              None \<Rightarrow> None
                            | Some d \<Rightarrow> map_option (\<lambda>r. x # y # char_of ((64 * c + d) mod 256) # r) (b64_quads s)))))
      | _ \<Rightarrow> None)"
| "b64_quads s = None"

definition b64_decode :: "string \<Rightarrow> err + string" where
  "b64_decode s =
     (case b64_quads (filter (\<lambda>c. c \<noteq> CHR 0x0A \<and> c \<noteq> CHR 0x0D) s) of
        None \<Rightarrow> Inl (ErrOther ''illegal base64 data'') | Some t \<Rightarrow> Inr t)"

section \<open>Validators and detection (core/media.go)\<close>

record media_validator =
  vl_whitelist :: "string list"
  vl_max :: int
  vl_meta :: "string \<Rightarrow> (string \<times> val) list option"

text \<open>\<open>decode_config\<close> is \<open>image.DecodeConfig\<close>: width and height of an image.\<close>

definition image_validator :: "(string \<Rightarrow> (int \<times> int) option) \<Rightarrow> media_validator" where
  "image_validator decode_config =
     \<lparr>vl_whitelist = [''image/png'', ''image/jpeg'', ''image/gif'', ''image/webp''], vl_max = 20 * 1024 * 1024,
      vl_meta = (\<lambda>data. map_option (\<lambda>(w, h). [(''width'', VInt w), (''height'', VInt h)]) (decode_config data))\<rparr>"

definition audio_validator :: media_validator where
  "audio_validator =
     \<lparr>vl_whitelist = [''audio/mpeg'', ''audio/wav'', ''audio/mp4'', ''audio/webm''], vl_max = 50 * 1024 * 1024,
      vl_meta = (\<lambda>data. None)\<rparr>"

definition video_validator :: media_validator where
  "video_validator =
     \<lparr>vl_whitelist = [''video/mp4'', ''video/webm'', ''video/quicktime''], vl_max = 100 * 1024 * 1024,
      vl_meta = (\<lambda>data. None)\<rparr>"

type_synonym media_registry = "(multimodal_type \<times> media_validator) list"

definition default_registry :: "(string \<Rightarrow> (int \<times> int) option) \<Rightarrow> media_registry" where
  "default_registry decode_config =
     [(MultiModalTypeImage, image_validator decode_config), (MultiModalTypeAudio, audio_validator),
      (MultiModalTypeVideo, video_validator)]"

text \<open>The registry can be nil.\<close>

definition registry_validator :: "media_registry option \<Rightarrow> multimodal_type \<Rightarrow> media_validator option" where
  "registry_validator r t = (case r of None \<Rightarrow> None | Some vs \<Rightarrow> map_of vs t)"

definition is_isobmff :: "string \<Rightarrow> string \<Rightarrow> bool" where
  "is_isobmff data brand =
     (12 \<le> length data \<and> take 4 (drop 4 data) = ''ftyp'' \<and> take 4 (drop 8 data) = brand)"

definition is_riff :: "string \<Rightarrow> string \<Rightarrow> bool" where
  "is_riff data form =
     (12 \<le> length data \<and> take 4 data = ''RIFF'' \<and> take 4 (drop 8 data) = form)"

fun webm_track_type :: "string \<Rightarrow> nat" where
  "webm_track_type (a # b # c # s) =
     (if a = CHR 0x83 \<and> b = CHR 0x81 \<and> (byte c = 1 \<or> byte c = 2) then byte c else webm_track_type (b # c # s))"
| "webm_track_type s = 0"

definition detect_media_type :: "(string \<Rightarrow> string) \<Rightarrow> string \<Rightarrow> string" where
  "detect_media_type sniff data =
     (if is_isobmff data ''qt  '' then ''video/quicktime''
      else if is_isobmff data ''M4A '' \<or> is_isobmff data ''M4B '' \<or> is_isobmff data ''f4a '' \<or> is_isobmff data ''f4b ''
      then ''audio/mp4''
      else if prefix [CHR 0x1A, CHR 0x45, CHR 0xDF, CHR 0xA3] data
      then (if webm_track_type data = 2 then ''audio/webm'' else ''video/webm'')
      else if is_riff data ''WAVE'' then ''audio/wav''
      else sniff data)"

definition match_mime :: "string \<Rightarrow> string list \<Rightarrow> bool" where
  "match_mime detected whitelist = list_ex (\<lambda>allowed. prefix allowed detected) whitelist"

text \<open>The source of the bytes: Base64 first, then a path without a scheme.\<close>

definition media_bytes :: "multimodal \<Rightarrow> os \<Rightarrow> (err + string) \<times> os" where
  "media_bytes d s =
     (if mm_base64 d \<noteq> [] then
        (case b64_decode (mm_base64 d) of Inl e \<Rightarrow> Inl (ErrWrap ''media: decode base64'' e) | Inr t \<Rightarrow> Inr t, s)
      else if go_contains (mm_path d) ''://'' then (Inl (ErrOther ''media: URL download not yet supported''), s)
      else if mm_path d \<noteq> [] then
        (case go_read_file (mm_path d) s of
           (Inl e, s') \<Rightarrow> (Inl (ErrWrap (''media: read file '' @ go_quote (mm_path d)) (ErrOther (os_error_text e))), s')
         | (Inr t, s') \<Rightarrow> (Inr t, s'))
      else (Inl (ErrOther (''media: no source '' @ em_dash @ '' set Path or Base64'')), s))"

definition check_media :: "media_registry option \<Rightarrow> (string \<Rightarrow> string) \<Rightarrow> multimodal \<Rightarrow> string \<Rightarrow> err + multimodal" where
  "check_media reg sniff d data =
     (let mime = detect_media_type sniff data in
      case registry_validator reg (mm_type d) of
        None \<Rightarrow> Inl (ErrOther (''media: no validator registered for type '' @ go_quote (mm_type d)))
      | Some v \<Rightarrow>
          if \<not> match_mime mime (vl_whitelist v) then
            Inl (ErrOther (''media: MIME type '' @ go_quote mime @ '' not allowed for type '' @ go_quote (mm_type d)))
          else if int (length data) > vl_max v then
            Inl (ErrOther (''media: size '' @ nat_dec (length data) @ '' exceeds max '' @ int_dec (vl_max v) @
              '' bytes for type '' @ go_quote (mm_type d)))
          else
            (let d1 = (if mm_base64 d = [] then d\<lparr>mm_base64 := b64_encode data\<rparr> else d);
                 d2 = d1\<lparr>mm_mime := mime\<rparr>
             in Inr (case vl_meta v data of None \<Rightarrow> d2 | Some m \<Rightarrow> d2\<lparr>mm_meta := m\<rparr>)))"

definition media_normalize ::
    "media_registry option \<Rightarrow> (string \<Rightarrow> string) \<Rightarrow> multimodal \<Rightarrow> os \<Rightarrow> (err + multimodal) \<times> os" where
  "media_normalize reg sniff d s =
     (case media_bytes d s of
        (Inl e, s') \<Rightarrow> (Inl e, s')
      | (Inr data, s') \<Rightarrow> (check_media reg sniff d data, s'))"

section \<open>Media files (media\_converter.go)\<close>

definition mime_to_ext :: "string \<Rightarrow> string" where
  "mime_to_ext m =
     (if m = ''image/png'' then ''png'' else if m = ''image/jpeg'' then ''jpeg'' else if m = ''image/gif'' then ''gif''
      else if m = ''image/webp'' then ''webp'' else if m = ''audio/mpeg'' then ''mp3'' else if m = ''audio/wav'' then ''wav''
      else if m = ''audio/mp4'' then ''mp4'' else if m = ''audio/webm'' then ''webm'' else if m = ''video/mp4'' then ''mp4''
      else if m = ''video/webm'' then ''webm'' else if m = ''video/quicktime'' then ''mov'' else ''bin'')"

definition ext_to_mime :: "string \<Rightarrow> string" where
  "ext_to_mime e =
     (if e = ''.png'' then ''image/png'' else if e = ''.jpeg'' \<or> e = ''.jpg'' then ''image/jpeg''
      else if e = ''.gif'' then ''image/gif'' else if e = ''.webp'' then ''image/webp'' else if e = ''.mp3'' then ''audio/mpeg''
      else if e = ''.wav'' then ''audio/wav'' else if e = ''.mp4'' then ''video/mp4'' else if e = ''.webm'' then ''video/webm''
      else if e = ''.mov'' then ''video/quicktime'' else ''application/octet-stream'')"

text \<open>\<open>filepath.Ext\<close> and \<open>filepath.Rel\<close> (its error leaves the empty path).\<close>

definition go_ext :: "string \<Rightarrow> string" where
  "go_ext p =
     (let f = rev (takeWhile (\<lambda>c. c \<noteq> slash) (rev p)) in
      case go_last_index f ''.'' of None \<Rightarrow> [] | Some i \<Rightarrow> drop i f)"

definition path_parts :: "string \<Rightarrow> string list" where
  "path_parts p = filter (\<lambda>c. c \<noteq> []) (split_char slash p)"

fun drop_common :: "string list \<Rightarrow> string list \<Rightarrow> string list \<times> string list" where
  "drop_common (x # xs) (y # ys) = (if x = y then drop_common xs ys else (x # xs, y # ys))"
| "drop_common xs ys = (xs, ys)"

definition go_rel :: "string \<Rightarrow> string \<Rightarrow> string" where
  "go_rel base targ =
     (let b = go_clean base; t = go_clean targ; b' = (if b = ''.'' then [] else b) in
      if t = b then ''.''
      else if is_abs b' \<noteq> is_abs t then []
      else (case drop_common (path_parts b') (path_parts t) of
              (bs, ts) \<Rightarrow> if bs \<noteq> [] \<and> hd bs = ''..'' then [] else str_join [slash] (replicate (length bs) ''..'' @ ts)))"

definition media_rel_path :: "string \<Rightarrow> multimodal \<Rightarrow> string" where
  "media_rel_path sid d = go_join [''media'', sid, mm_id d @ ''.'' @ mime_to_ext (mm_mime d)]"

definition conv_error :: "string \<Rightarrow> os_error \<Rightarrow> err" where
  "conv_error what e = ErrWrap (''mediaconv: '' @ what) (ErrOther (os_error_text e))"

definition base64_to_file :: "string \<Rightarrow> string \<Rightarrow> multimodal \<Rightarrow> os \<Rightarrow> (err + multimodal) \<times> os" where
  "base64_to_file base sid d s =
     (case b64_decode (mm_base64 d) of
        Inl e \<Rightarrow> (Inl (ErrWrap ''mediaconv: decode base64'' e), s)
      | Inr raw \<Rightarrow>
          (let rel = media_rel_path sid d; apath = go_join [base, rel] in
           io_bind (io_map_error (conv_error ''mkdir'') (go_mkdir_all (go_dir apath))) (\<lambda>_.
           io_bind (io_map_error (conv_error ''write file'') (go_write_file apath raw)) (\<lambda>_.
             io_return (d\<lparr>mm_path := rel\<rparr>))) s))"

definition media_pattern :: "string \<Rightarrow> string \<Rightarrow> string \<Rightarrow> string" where
  "media_pattern base sid cid = go_join [base, ''media'', sid, cid @ ''.*'']"

definition file_to_base64 ::
    "(string \<Rightarrow> (err, string list) io) \<Rightarrow> string \<Rightarrow> string \<Rightarrow> string \<Rightarrow> os \<Rightarrow> (err + multimodal) \<times> os" where
  "file_to_base64 glob base sid cid s =
     (case glob (media_pattern base sid cid) s of
        (Inr (apath # _), s1) \<Rightarrow>
          (case go_read_file apath s1 of
             (Inl e, s2) \<Rightarrow> (Inl (conv_error ''read file'' e), s2)
           | (Inr raw, s2) \<Rightarrow>
               (Inr \<lparr>mm_id = cid, mm_type = [], mm_path = go_rel base apath, mm_base64 = b64_encode raw,
                  mm_mime = ext_to_mime (go_ext apath), mm_meta = []\<rparr>, s2))
      | (_, s1) \<Rightarrow> (Inl (ErrOther (''mediaconv: media file not found: '' @ media_pattern base sid cid)), s1))"

definition media_remove :: "(string \<Rightarrow> (err, string list) io) \<Rightarrow> string \<Rightarrow> string \<Rightarrow> string \<Rightarrow> os \<Rightarrow> (err + unit) \<times> os" where
  "media_remove glob base sid cid s =
     (case glob (media_pattern base sid cid) s of
        (Inl e, s1) \<Rightarrow> (Inl (ErrWrap ''mediaconv: glob'' e), s1)
      | (Inr [], s1) \<Rightarrow> (Inr (), s1)
      | (Inr (p # _), s1) \<Rightarrow> io_map_error (\<lambda>e. ErrOther (os_error_text e)) (go_remove p) s1)"

definition prune_session :: "string \<Rightarrow> string \<Rightarrow> (os_error, unit) io" where
  "prune_session base sid = go_remove_all (go_join [base, ''media'', sid])"

section \<open>Descriptions (media\_describe.go)\<close>

definition image_prompt :: string where
  "image_prompt =
     [CHR 0xE8, CHR 0xAF, CHR 0xB7, CHR 0xE7, CHR 0x94, CHR 0xA8, CHR 0xE4, CHR 0xB8, CHR 0xAD, CHR 0xE6, CHR 0x96,
     CHR 0x87, CHR 0xE7, CHR 0xAE, CHR 0x80, CHR 0xE8, CHR 0xA6, CHR 0x81, CHR 0xE6, CHR 0x8F, CHR 0x8F, CHR 0xE8,
     CHR 0xBF, CHR 0xB0, CHR 0xE8, CHR 0xBF, CHR 0x99, CHR 0xE5, CHR 0xBC, CHR 0xA0, CHR 0xE5, CHR 0x9B, CHR 0xBE,
     CHR 0xE7, CHR 0x89, CHR 0x87, CHR 0xE7, CHR 0x9A, CHR 0x84, CHR 0xE5, CHR 0x86, CHR 0x85, CHR 0xE5, CHR 0xAE,
     CHR 0xB9, CHR 0xE5, CHR 0x92, CHR 0x8C, CHR 0xE5, CHR 0x85, CHR 0xB3, CHR 0xE9, CHR 0x94, CHR 0xAE, CHR 0xE4,
     CHR 0xBF, CHR 0xA1, CHR 0xE6, CHR 0x81, CHR 0xAF, CHR 0xEF, CHR 0xBC, CHR 0x8C, CHR 0xE4, CHR 0xB8, CHR 0x8D,
     CHR 0xE8, CHR 0xB6, CHR 0x85, CHR 0xE8, CHR 0xBF, CHR 0x87, CHR 0x32, CHR 0x30, CHR 0x30, CHR 0xE5, CHR 0xAD,
     CHR 0x97, CHR 0xE3, CHR 0x80, CHR 0x82]"

definition audio_prompt :: string where
  "audio_prompt =
     [CHR 0xE8, CHR 0xAF, CHR 0xB7, CHR 0xE7, CHR 0x94, CHR 0xA8, CHR 0xE4, CHR 0xB8, CHR 0xAD, CHR 0xE6, CHR 0x96,
     CHR 0x87, CHR 0xE6, CHR 0x80, CHR 0xBB, CHR 0xE7, CHR 0xBB, CHR 0x93, CHR 0xE8, CHR 0xBF, CHR 0x99, CHR 0xE6,
     CHR 0xAE, CHR 0xB5, CHR 0xE9, CHR 0x9F, CHR 0xB3, CHR 0xE9, CHR 0xA2, CHR 0x91, CHR 0xE7, CHR 0x9A, CHR 0x84,
     CHR 0xE5, CHR 0x86, CHR 0x85, CHR 0xE5, CHR 0xAE, CHR 0xB9, CHR 0xE8, CHR 0xA6, CHR 0x81, CHR 0xE7, CHR 0x82,
     CHR 0xB9, CHR 0xEF, CHR 0xBC, CHR 0x8C, CHR 0xE5, CHR 0x8C, CHR 0x85, CHR 0xE6, CHR 0x8B, CHR 0xAC, CHR 0xE8,
     CHR 0xAF, CHR 0xB4, CHR 0xE8, CHR 0xAF, CHR 0x9D, CHR 0xE4, CHR 0xBA, CHR 0xBA, CHR 0xE6, CHR 0x84, CHR 0x8F,
     CHR 0xE5, CHR 0x9B, CHR 0xBE, CHR 0xE5, CHR 0x92, CHR 0x8C, CHR 0xE5, CHR 0x85, CHR 0xB3, CHR 0xE9, CHR 0x94,
     CHR 0xAE, CHR 0xE4, CHR 0xBF, CHR 0xA1, CHR 0xE6, CHR 0x81, CHR 0xAF, CHR 0xEF, CHR 0xBC, CHR 0x8C, CHR 0xE4,
     CHR 0xB8, CHR 0x8D, CHR 0xE8, CHR 0xB6, CHR 0x85, CHR 0xE8, CHR 0xBF, CHR 0x87, CHR 0x32, CHR 0x30, CHR 0x30,
     CHR 0xE5, CHR 0xAD, CHR 0x97, CHR 0xE3, CHR 0x80, CHR 0x82]"

definition video_prompt :: string where
  "video_prompt =
     [CHR 0xE8, CHR 0xAF, CHR 0xB7, CHR 0xE7, CHR 0x94, CHR 0xA8, CHR 0xE4, CHR 0xB8, CHR 0xAD, CHR 0xE6, CHR 0x96,
     CHR 0x87, CHR 0xE6, CHR 0xA6, CHR 0x82, CHR 0xE8, CHR 0xBF, CHR 0xB0, CHR 0xE8, CHR 0xBF, CHR 0x99, CHR 0xE4,
     CHR 0xB8, CHR 0xAA, CHR 0xE8, CHR 0xA7, CHR 0x86, CHR 0xE9, CHR 0xA2, CHR 0x91, CHR 0xE7, CHR 0x9A, CHR 0x84,
     CHR 0xE7, CHR 0x94, CHR 0xBB, CHR 0xE9, CHR 0x9D, CHR 0xA2, CHR 0xE5, CHR 0x86, CHR 0x85, CHR 0xE5, CHR 0xAE,
     CHR 0xB9, CHR 0xE5, CHR 0x92, CHR 0x8C, CHR 0xE5, CHR 0x85, CHR 0xB3, CHR 0xE9, CHR 0x94, CHR 0xAE, CHR 0xE5,
     CHR 0x9C, CHR 0xBA, CHR 0xE6, CHR 0x99, CHR 0xAF, CHR 0xEF, CHR 0xBC, CHR 0x8C, CHR 0xE4, CHR 0xB8, CHR 0x8D,
     CHR 0xE8, CHR 0xB6, CHR 0x85, CHR 0xE8, CHR 0xBF, CHR 0x87, CHR 0x32, CHR 0x30, CHR 0x30, CHR 0xE5, CHR 0xAD,
     CHR 0x97, CHR 0xE3, CHR 0x80, CHR 0x82]"

definition default_describe_prompts :: "(multimodal_type \<times> string) list" where
  "default_describe_prompts =
     [(MultiModalTypeImage, image_prompt), (MultiModalTypeAudio, audio_prompt), (MultiModalTypeVideo, video_prompt)]"

record 's media_describer =
  md_image :: "'s chat_model option"
  md_audio :: "'s chat_model option"
  md_prompts :: "(multimodal_type \<times> string) list"

definition new_media_describer :: "'s chat_model option \<Rightarrow> 's chat_model option \<Rightarrow> 's media_describer" where
  "new_media_describer ic ac = \<lparr>md_image = ic, md_audio = ac, md_prompts = default_describe_prompts\<rparr>"

definition register_prompt :: "multimodal_type \<Rightarrow> string \<Rightarrow> 's media_describer \<Rightarrow> 's media_describer" where
  "register_prompt t prompt d =
     d\<lparr>md_prompts := (if prompt = [] then AList.delete t (md_prompts d) else AList.update t prompt (md_prompts d))\<rparr>"

definition caller_for :: "'s media_describer \<Rightarrow> multimodal_type \<Rightarrow> 's chat_model option" where
  "caller_for d t =
     (if t = MultiModalTypeImage then md_image d else if t = MultiModalTypeAudio then md_audio d else None)"

definition int_from_meta :: "(string \<times> val) list \<Rightarrow> string \<Rightarrow> int option" where
  "int_from_meta m k =
     (case map_of m k of Some (VInt n) \<Rightarrow> Some n | Some (VFloat r) \<Rightarrow> Some (go_int_of_float r) | _ \<Rightarrow> None)"

definition float_from_meta :: "(string \<times> val) list \<Rightarrow> string \<Rightarrow> rat option" where
  "float_from_meta m k =
     (case map_of m k of Some (VFloat r) \<Rightarrow> Some r | Some (VInt n) \<Rightarrow> Some (of_int n) | _ \<Rightarrow> None)"

definition fmt_1f :: "rat \<Rightarrow> string" where
  "fmt_1f r =
     (let t = nat (round_half_even (\<bar>r\<bar> * 10)) in (if r < 0 then ''-'' else []) @ nat_dec (t div 10) @ ''.'' @ nat_dec (t mod 10))"

definition meta_summary :: "multimodal \<Rightarrow> string" where
  "meta_summary d =
     ''['' @ mm_type d @ '': '' @ mm_mime d @
     (case (int_from_meta (mm_meta d) ''width'', int_from_meta (mm_meta d) ''height'') of
        (Some w, Some h) \<Rightarrow> '' '' @ int_dec w @ [CHR 0xC3, CHR 0x97] @ int_dec h
      | _ \<Rightarrow> []) @
     (case float_from_meta (mm_meta d) ''duration_sec'' of Some x \<Rightarrow> '' '' @ fmt_1f x @ ''s'' | None \<Rightarrow> []) @ '']''"

definition describe_request :: "string \<Rightarrow> string \<Rightarrow> multimodal \<Rightarrow> string \<Rightarrow> unit request" where
  "describe_request mid mid' d prompt =
     \<lparr>rq_prompt = [], rq_messages = Some [new_user_message mid (MultiModalContent d), new_user_message mid' (TextContent prompt)],
      rq_mode = ModeText, rq_target = None, rq_tool = None\<rparr>"

definition call_describer :: "string \<Rightarrow> string \<Rightarrow> 's chat_model \<Rightarrow> multimodal \<Rightarrow> string \<Rightarrow> 's \<Rightarrow> 's \<times> (err + string)" where
  "call_describer mid mid' model d prompt s =
     (case call (silent model) mid (describe_request mid mid' d prompt) s of
        (s', res, Some e) \<Rightarrow> (s', Inl e)
      | (s', res, None) \<Rightarrow> (s', Inr (go_trim_space (lr_text res))))"

definition describe :: "string \<Rightarrow> string \<Rightarrow> 's media_describer \<Rightarrow> multimodal \<Rightarrow> 's \<Rightarrow> 's \<times> string" where
  "describe mid mid' d det s =
     (case caller_for d (mm_type det) of
        None \<Rightarrow> (s, meta_summary det)
      | Some model \<Rightarrow>
          (case map_of (md_prompts d) (mm_type det) of
             None \<Rightarrow> (s, meta_summary det)
           | Some prompt \<Rightarrow>
               if prompt = [] then (s, meta_summary det)
               else (case call_describer mid mid' model det prompt s of
                       (s', Inr t) \<Rightarrow> (s', if t \<noteq> [] then t else meta_summary det)
                     | (s', Inl _) \<Rightarrow> (s', meta_summary det))))"

definition build_media_message ::
    "string \<Rightarrow> string \<Rightarrow> string \<Rightarrow> 's media_describer \<Rightarrow> multimodal \<Rightarrow> 's \<Rightarrow> 's \<times> message" where
  "build_media_message mid mid1 mid2 d det s =
     (case describe mid1 mid2 d det s of
        (s', desc) \<Rightarrow> (s', new_user_message mid (CompositeContent [TextContent desc, MultiModalContent det])))"

section \<open>Base64 is read back\<close>

lemma b64_value_digit [simp]: "d < 64 \<Longrightarrow> b64_value (b64_digit d) = Some d"
proof -
  assume d: "d < 64"
  consider "d < 26" | "26 \<le> d" "d < 52" | "52 \<le> d" "d < 62" | "d = 62" | "d = 63" using d by linarith
  then show ?thesis by cases (auto simp: b64_value_def b64_digit_def Let_def)
qed

lemma b64_digit_plain: "d < 64 \<Longrightarrow> b64_digit d \<noteq> CHR ''='' \<and> b64_digit d \<noteq> CHR 0x0A \<and> b64_digit d \<noteq> CHR 0x0D"
proof -
  assume d: "d < 64"
  have "b64_value CHR ''='' = None" "b64_value CHR 0x0A = None" "b64_value CHR 0x0D = None"
    by (simp_all add: b64_value_def)
  then show ?thesis using b64_value_digit [OF d] by (metis option.distinct(1))
qed

lemma sextets: "byte a div 4 < 64" "byte a mod 4 * 16 + byte b div 16 < 64" "byte b mod 16 * 4 + byte c div 64 < 64"
  "byte c mod 64 < 64" "byte a mod 4 * 16 < 64" "byte b mod 16 * 4 < 64"
proof -
  have *: "byte x < 256" for x using nat_of_char_less_256 by simp
  show "byte a div 4 < 64" "byte a mod 4 * 16 + byte b div 16 < 64" "byte b mod 16 * 4 + byte c div 64 < 64"
    "byte c mod 64 < 64" "byte a mod 4 * 16 < 64" "byte b mod 16 * 4 < 64"
    using * [of a] * [of b] * [of c] by linarith+
qed

lemma octets:
  "char_of ((4 * (byte a div 4) + (byte a mod 4 * 16 + byte b div 16) div 16) mod 256) = a"
  "char_of ((16 * (byte a mod 4 * 16 + byte b div 16) + (byte b mod 16 * 4 + byte c div 64) div 4) mod 256) = b"
  "char_of ((64 * (byte b mod 16 * 4 + byte c div 64) + byte c mod 64) mod 256) = c"
proof -
  have lt: "byte x < 256" for x using nat_of_char_less_256 by simp
  have sm: "byte b div 16 < 16" "byte c div 64 < 4" using lt [of b] lt [of c] by linarith+
  have d: "(byte a mod 4 * 16 + byte b div 16) div 16 = byte a mod 4" "(byte b mod 16 * 4 + byte c div 64) div 4 = byte b mod 16"
    using sm by simp_all
  have r: "16 * y + z = n \<Longrightarrow> 16 * (x * 16 + y) + z = 256 * x + n" "64 * y + z = n \<Longrightarrow> 64 * (x * 4 + y) + z = 256 * x + n"
    for x y z n :: nat by auto
  have e: "16 * (byte a mod 4 * 16 + byte b div 16) + byte b mod 16 = 256 * (byte a mod 4) + byte b"
    "64 * (byte b mod 16 * 4 + byte c div 64) + byte c mod 64 = 256 * (byte b mod 16) + byte c"
    by (rule r, rule mult_div_mod_eq)+
  have x: "(4 * (byte a div 4) + (byte a mod 4 * 16 + byte b div 16) div 16) mod 256 = byte a"
    "(16 * (byte a mod 4 * 16 + byte b div 16) + (byte b mod 16 * 4 + byte c div 64) div 4) mod 256 = byte b"
    "(64 * (byte b mod 16 * 4 + byte c div 64) + byte c mod 64) mod 256 = byte c"
    unfolding d e mult_div_mod_eq using lt by simp_all
  show "char_of ((4 * (byte a div 4) + (byte a mod 4 * 16 + byte b div 16) div 16) mod 256) = a"
    "char_of ((16 * (byte a mod 4 * 16 + byte b div 16) + (byte b mod 16 * 4 + byte c div 64) div 4) mod 256) = b"
    "char_of ((64 * (byte b mod 16 * 4 + byte c div 64) + byte c mod 64) mod 256) = c"
    unfolding x by simp_all
qed

lemma octets2: "char_of ((16 * (byte a mod 4 * 16 + byte b div 16) + byte b mod 16 * 4 div 4) mod 256) = b"
  "char_of ((4 * (byte a div 4) + byte a mod 4 * 16 div 16) mod 256) = a"
  using octets(2) [of a b "CHR 0x00"] octets(1) [of a "CHR 0x00"] by simp_all

lemma b64_quads_encode: "b64_quads (b64_encode s) = Some s"
  by (induction s rule: b64_encode.induct)
    (simp_all only: b64_encode.simps b64_quads.simps b64_value_digit sextets option.case prod.case Let_def octets octets2
      b64_digit_plain if_False if_True simp_thms option.map refl)

lemma b64_encode_no_break: "c \<in> set (b64_encode s) \<Longrightarrow> c \<noteq> CHR 0x0A \<and> c \<noteq> CHR 0x0D"
  by (induction s rule: b64_encode.induct) (auto simp only: b64_encode.simps list.set b64_digit_plain sextets insert_iff empty_iff char.inject)

lemma b64_round_trip [simp]: "b64_decode (b64_encode s) = Inr s"
proof -
  have "filter (\<lambda>c. c \<noteq> CHR 0x0A \<and> c \<noteq> CHR 0x0D) (b64_encode s) = b64_encode s"
    by (rule filter_True) (use b64_encode_no_break in blast)
  then show ?thesis by (simp add: b64_decode_def b64_quads_encode)
qed

lemma b64_encode_Nil [simp]: "b64_encode s = [] \<longleftrightarrow> s = []"
  by (cases s rule: b64_encode.cases) simp_all

section \<open>What normalisation gives\<close>

lemma check_media_ok:
  assumes "check_media reg sniff d data = Inr d'"
  shows "\<exists>v. registry_validator reg (mm_type d) = Some v \<and> match_mime (detect_media_type sniff data) (vl_whitelist v) \<and>
    int (length data) \<le> vl_max v \<and> mm_mime d' = detect_media_type sniff data \<and> mm_type d' = mm_type d \<and>
    mm_base64 d' = (if mm_base64 d = [] then b64_encode data else mm_base64 d)"
  using assms by (auto simp: check_media_def Let_def split: option.splits if_splits)

text \<open>C32. Media that pass validation are of a registered type, their bytes have an allowed detected type and size, and
  the Base64 text decodes to exactly these bytes; validating the result again reads no file and changes nothing.\<close>

theorem normalized_media:
  assumes "media_normalize reg sniff d s = (Inr d', s')" and "mm_base64 d' \<noteq> []"
  shows "\<exists>v data. registry_validator reg (mm_type d') = Some v \<and> b64_decode (mm_base64 d') = Inr data \<and>
      int (length data) \<le> vl_max v \<and> mm_mime d' = detect_media_type sniff data \<and> match_mime (mm_mime d') (vl_whitelist v) \<and>
      (\<forall>s2. media_normalize reg sniff d' s2 = (Inr d', s2))"
proof -
  obtain data where b: "media_bytes d s = (Inr data, s')" and c: "check_media reg sniff d data = Inr d'"
    using assms(1) by (auto simp: media_normalize_def split: prod.splits sum.splits)
  from check_media_ok [OF c] obtain v where v: "registry_validator reg (mm_type d) = Some v"
    "match_mime (detect_media_type sniff data) (vl_whitelist v)" "int (length data) \<le> vl_max v"
    "mm_mime d' = detect_media_type sniff data" "mm_type d' = mm_type d"
    "mm_base64 d' = (if mm_base64 d = [] then b64_encode data else mm_base64 d)" by blast
  have dec: "b64_decode (mm_base64 d') = Inr data"
    using b v(6) by (auto simp: media_bytes_def split: sum.splits if_splits)
  then have bytes: "media_bytes d' s2 = (Inr data, s2)" for s2 using assms(2) by (simp add: media_bytes_def)
  have meta: "vl_meta v data = Some m \<Longrightarrow> mm_meta d' = m" for m
    using c v(1) by (auto simp: check_media_def Let_def split: if_splits)
  have "check_media reg sniff d' data = Inr d'"
    using v assms(2) meta by (cases d') (simp add: check_media_def Let_def split: option.split)
  with bytes have "media_normalize reg sniff d' s2 = (Inr d', s2)" for s2 by (simp add: media_normalize_def)
  with v dec show ?thesis by auto
qed

text \<open>An example: the header of a WAV file.\<close>

definition demo_media :: multimodal where
  "demo_media = \<lparr>mm_id = ''m'', mm_type = MultiModalTypeAudio, mm_path = [], mm_base64 = b64_encode ''RIFF....WAVE'', mm_mime = [], mm_meta = []\<rparr>"

theorem normalized_media_witness:
  "\<exists>d'. media_normalize (Some (default_registry (\<lambda>t. None))) (\<lambda>t. []) demo_media demo_os = (Inr d', demo_os) \<and>
     mm_mime d' = ''audio/wav'' \<and> media_normalize (Some (default_registry (\<lambda>t. None))) (\<lambda>t. []) d' demo_os = (Inr d', demo_os)"
proof -
  let ?r = "Some (default_registry (\<lambda>t. None))" and ?d = "demo_media\<lparr>mm_mime := ''audio/wav''\<rparr>"
  have n: "media_normalize ?r (\<lambda>t. []) demo_media demo_os = (Inr ?d, demo_os)"
    by (simp add: media_normalize_def media_bytes_def demo_media_def check_media_def Let_def registry_validator_def default_registry_def
        audio_validator_def detect_media_type_def is_isobmff_def is_riff_def match_mime_def del: b64_encode.simps)
  have "mm_base64 ?d \<noteq> []" by (simp add: demo_media_def)
  from normalized_media [OF n this] n show ?thesis by auto
qed

section \<open>Media files\<close>

text \<open>The type is kept except for audio in containers that are also used for video, and unknown types.\<close>

lemma mime_restored:
  "m \<in> {''image/png'', ''image/jpeg'', ''image/gif'', ''image/webp'', ''audio/mpeg'', ''audio/wav'', ''video/mp4'', ''video/webm'',
     ''video/quicktime''} \<Longrightarrow> ext_to_mime (''.'' @ mime_to_ext m) = m"
  by (elim insertE emptyE) (simp_all add: mime_to_ext_def ext_to_mime_def)

lemma audio_becomes_video:
  "ext_to_mime (''.'' @ mime_to_ext ''audio/mp4'') = ''video/mp4''" "ext_to_mime (''.'' @ mime_to_ext ''audio/webm'') = ''video/webm''"
  by (simp_all add: mime_to_ext_def ext_to_mime_def)

text \<open>A session id or content id is not neutralised: it can leave the directory of the media.\<close>

lemma media_path_escapes:
  "media_rel_path ''../..'' \<lparr>mm_id = ''x'', mm_type = [], mm_path = [], mm_base64 = [], mm_mime = ''image/png'', mm_meta = []\<rparr> = ''../x.png''"
  by code_simp

text \<open>The extension of a file name that ends in one.\<close>

lemma go_ext_snoc: "slash \<notin> set e \<Longrightarrow> CHR ''.'' \<notin> set e \<Longrightarrow> go_ext (p @ CHR ''.'' # e) = CHR ''.'' # e"
proof -
  assume e: "slash \<notin> set e" "CHR ''.'' \<notin> set e"
  have "takeWhile (\<lambda>c. c \<noteq> slash) (rev (p @ CHR ''.'' # e)) = rev e @ CHR ''.'' # takeWhile (\<lambda>c. c \<noteq> slash) (rev p)"
    using e(1) by (subst rev_append, subst rev.simps, subst append_assoc, subst takeWhile_append2) (auto simp: slash_def)
  then show ?thesis using go_last_index_char [OF e(2), of "rev (takeWhile (\<lambda>c. c \<noteq> slash) (rev p))"]
    by (simp add: go_ext_def)
qed

text \<open>A media file that was written is restored with the same bytes, when the glob finds it and no call fails.\<close>

lemma media_file_restored:
  assumes "base64_to_file base sid d s = (Inr d', s1)" and "calm s1"
    and "glob (media_pattern base sid cid) s1 = (Inr [go_join [base, mm_path d']], s1)"
  shows "\<exists>d2. file_to_base64 glob base sid cid s1 = (Inr d2, s1) \<and> mm_id d2 = cid \<and>
    b64_decode (mm_base64 d2) = b64_decode (mm_base64 d) \<and> mm_mime d2 = ext_to_mime (go_ext (go_join [base, mm_path d']))"
proof -
  let ?p = "go_join [base, media_rel_path sid d]"
  from assms(1) obtain raw s0 where raw: "b64_decode (mm_base64 d) = Inr raw" and w: "go_write_file ?p raw s0 = (Inr (), s1)"
    and d': "mm_path d' = media_rel_path sid d"
    unfolding base64_to_file_def Let_def by (auto simp: io_Inr split: sum.splits)
  note wf = write_file_ok [OF w]
  from calm_ops(1) [OF assms(2) wf(3)] wf(1,2) have "go_read_file ?p s1 = (Inr raw, s1)" by simp
  then show ?thesis using assms(3) d' raw by (simp add: file_to_base64_def)
qed

end
