(* ===== verification/GraphFile.thy ===== *)
theory GraphFile
  imports Graph Media FilePersist
begin

text \<open>
  The files of the knowledge graph (memory/longterm/graph.go): saving and loading on a back end, and the Mermaid
  page that both write.  The JSON encoder and decoder of one line are arguments; the iteration orders over Go's
  maps (the colours, the nodes and the legend) are one too.  What is saved is found again although the page is
  written after it, because the back end keeps other keys: the contract \<open>separate_store\<close>.
\<close>

section \<open>The Mermaid page\<close>

definition type_colors :: "(string \<times> string) list" where
  "type_colors =
     [(''project'', ''#4A90D9''), (''language'', ''#7BBA3B''), (''file'', ''#D4A84B''), (''concept'', ''#9B59B6''),
      (''bug'', ''#E74C3C''), (''tool'', ''#1ABC9C''), (''person'', ''#E67E22''), (''package'', ''#3498DB'')]"

definition node_id :: "string \<Rightarrow> string" where
  "node_id i = map (\<lambda>c. if c \<in> set ''. -'' then CHR ''_'' else c) i"

definition fence :: string where
  "fence = [backtick, backtick, backtick]"

definition entities_in :: "string list \<Rightarrow> graph \<Rightarrow> entity list" where
  "entities_in ids g = concat (map (\<lambda>i. case get_entity g i of None \<Rightarrow> [] | Some e \<Rightarrow> [e]) ids)"

definition mermaid_node :: "entity \<Rightarrow> string" where
  "mermaid_node e =
     (let labels = str_join '', '' (en_labels e); sid = node_id (en_id e) in
      ''    '' @ sid @ ''['' @ en_name e @ ''<br/>'' @ en_type e @ (if labels = [] then [] else ''<br/>'' @ labels) @ '']'' @ nl @
      ''    class '' @ sid @ '' '' @ en_type e @ nl)"

text \<open>The map \<open>nameOf\<close> holds the entities under their ids; an edge to an unknown or nameless node is left out.\<close>

definition name_of :: "string list \<Rightarrow> graph \<Rightarrow> string \<Rightarrow> string" where
  "name_of ids g i = (if i \<in> set (map en_id (entities_in ids g)) then node_id i else [])"

definition mermaid_edge :: "string list \<Rightarrow> graph \<Rightarrow> relationship \<Rightarrow> string" where
  "mermaid_edge ids g r =
     (let f = name_of ids g (rl_from r); t = name_of ids g (rl_to r) in
      if f = [] \<or> t = [] then []
      else ''    '' @ f @ '' -->|'' @ rl_type r @ (if rl_weight r < 1 then '' (w='' @ fmt_1f (rl_weight r) @ '')'' else []) @
        ''| '' @ t @ nl)"

definition entity_name :: "graph \<Rightarrow> string \<Rightarrow> string" where
  "entity_name g i = (case get_entity g i of Some e \<Rightarrow> en_name e | None \<Rightarrow> i)"

definition legend_row :: "entity \<Rightarrow> string" where
  "legend_row e = ''| '' @ en_name e @ '' | '' @ en_type e @ '' | '' @ str_join '', '' (en_labels e) @ '' |'' @ nl"

definition rel_row :: "graph \<Rightarrow> relationship \<Rightarrow> string" where
  "rel_row g r =
     ''- **'' @ entity_name g (rl_from r) @ ''** '' @ arrow @ '' _'' @ rl_type r @ ''_ '' @ arrow @ '' **'' @
     entity_name g (rl_to r) @ ''**  '' @ [backtick] @ ''w='' @ fmt_1f (rl_weight r) @ [backtick] @ nl"

record mermaid_order =
  mo_colors :: "(string \<times> string) list"
  mo_nodes :: "string list"
  mo_legend :: "string list"

definition mermaid_text :: "mermaid_order \<Rightarrow> graph \<Rightarrow> string" where
  "mermaid_text ord g =
     ''# Knowledge Graph'' @ nl @ nl @
     ''> Auto-generated from conversations. Do not edit '' @ em_dash @ '' overwritten on every graph update.'' @ nl @ nl @
     fence @ ''mermaid'' @ nl @ ''graph LR'' @ nl @
     concat (map (\<lambda>(t, c). ''    classDef '' @ t @ '' fill:'' @ c @ '',stroke:#333,color:#fff'' @ nl) (mo_colors ord)) @
     concat (map mermaid_node (entities_in (mo_nodes ord) g)) @
     concat (map (mermaid_edge (mo_nodes ord) g) (gr_rels g)) @
     fence @ nl @ nl @
     ''## Legend'' @ nl @ nl @
     ''| memorytypes.Entity | Type | Labels |'' @ nl @ ''|--------|------|--------|'' @ nl @
     concat (map legend_row (entities_in (mo_legend ord) g)) @ nl @
     ''## Relationships'' @ nl @ nl @
     concat (map (rel_row g) (gr_rels g))"

definition mermaid_path :: "string \<Rightarrow> string" where
  "mermaid_path p = (if suffix ''.jsonl'' p then take (length p - 6) p @ ''.md'' else p @ ''.md'')"

definition write_mermaid :: "mermaid_order \<Rightarrow> 's ipersist \<Rightarrow> string \<Rightarrow> graph \<Rightarrow> 's \<Rightarrow> (os_error + unit) \<times> 's" where
  "write_mermaid ord b path g s = ip_store b (mermaid_path path) (mermaid_text ord g) s"

section \<open>Saving and loading\<close>

text \<open>The path that \<open>initLTM\<close> gives the store.\<close>

definition graph_path :: string where
  "graph_path = ''memory/longterm/memory_graph.jsonl''"

definition persist_graph ::
    "(json \<Rightarrow> string) \<Rightarrow> mermaid_order \<Rightarrow> string list \<Rightarrow> 's ipersist option \<Rightarrow> string \<Rightarrow> graph \<Rightarrow> 's \<Rightarrow> (os_error + unit) \<times> 's" where
  "persist_graph enc ord ids bo path g s =
     (case bo of
        None \<Rightarrow> (Inr (), s)
      | Some b \<Rightarrow>
          if path = [] then (Inr (), s)
          else (case ip_store b path (concat (map (\<lambda>j. enc j @ nl) (graph_lines ids g))) s of
                  (Inl e, s1) \<Rightarrow> (Inl e, s1)
                | (Inr _, s1) \<Rightarrow> write_mermaid ord b path g s1))"

definition read_line :: "(string \<Rightarrow> json option) \<Rightarrow> string \<Rightarrow> json option" where
  "read_line dec l = (let t = go_trim_space l in if t = [] then None else dec t)"

definition load_graph_file ::
    "(string \<Rightarrow> json option) \<Rightarrow> (graph \<Rightarrow> mermaid_order) \<Rightarrow> 's ipersist option \<Rightarrow> string \<Rightarrow> graph \<Rightarrow> 's \<Rightarrow>
      graph \<times> (os_error + unit) \<times> 's" where
  "load_graph_file dec ord bo path g s =
     (case bo of
        None \<Rightarrow> (g, Inr (), s)
      | Some b \<Rightarrow>
          if path = [] then (g, Inr (), s)
          else (case ip_load b path s of
                  (Inl e, s1) \<Rightarrow> (g, Inl e, s1)
                | (Inr data, s1) \<Rightarrow>
                    if data = [] then (g, Inr (), s1)
                    else (case scan_lines data of
                            (ls, too_long) \<Rightarrow>
                              (let h = load_graph (map (read_line dec) ls) g in
                               if too_long then (h, Inl (PlainError ''bufio.Scanner: token too long''), s1)
                               else (h, write_mermaid (ord h) b path h s1)))))"

section \<open>The page shows the graph\<close>

lemma entities_in_iff: "e \<in> set (entities_in ids g) \<longleftrightarrow> (\<exists>i \<in> set ids. get_entity g i = Some e)"
  unfolding entities_in_def by (force split: option.splits)

text \<open>In a consistent graph every relationship has its edge.\<close>

lemma every_edge_drawn:
  assumes "graph_ok ef g" and "set (mo_nodes ord) = keys g" and "r \<in> set (gr_rels g)" and "rl_from r \<noteq> []" and "rl_to r \<noteq> []"
  shows "mermaid_edge (mo_nodes ord) g r \<noteq> []"
proof -
  have "name_of (mo_nodes ord) g i \<noteq> []" if i: "get_entity g i \<noteq> None" "i \<noteq> []" for i
  proof -
    from i obtain e where e: "get_entity g i = Some e" by blast
    then have "en_id e = i" using assms(1) by (simp add: graph_ok_def)
    moreover have "e \<in> set (entities_in (mo_nodes ord) g)"
      using e get_entity_keys [of g i] assms(2) by (auto simp: entities_in_iff)
    ultimately show ?thesis using i(2) by (auto simp: name_of_def node_id_def)
  qed
  then show ?thesis using assms(1,3-5) by (simp add: mermaid_edge_def Let_def graph_ok_def)
qed

text \<open>Different entities can be the same node of the page.\<close>

lemma node_ids_collide: "node_id ''a.b'' = node_id ''a_b''" "node_id ''a b'' = node_id ''a-b''"
  by (simp_all add: node_id_def)

section \<open>A store that keeps other keys\<close>

locale separate_store = text_store b ok ready
  for b :: "'s ipersist" and ok :: "string \<Rightarrow> bool" and ready :: "'s \<Rightarrow> bool" +
  fixes apart_keys :: "string \<Rightarrow> string \<Rightarrow> bool"
  assumes load_other: "apart_keys k k' \<Longrightarrow> ok k \<Longrightarrow> ready s \<Longrightarrow> ip_load b k' s = (Inr d, s) \<Longrightarrow>
    ip_store b k x s = (Inr (), s') \<Longrightarrow> ip_load b k' s' = (Inr d, s')"
begin

lemma stored_twice:
  assumes "ok k" and "ok k'" and "apart_keys k' k" and "ready s"
    and "ip_store b k d s = (Inr (), s1)" and "ip_store b k' d' s1 = (Inr (), s2)"
  shows "ready s2 \<and> ip_load b k s2 = (Inr d, s2)"
proof -
  from load_stored [OF assms(1,4,5)] have "ready s1" "ip_load b k s1 = (Inr d, s1)" by simp_all
  with load_stored [OF assms(2) _ assms(6)] load_other [OF assms(3,2) _ _ assms(6)] show ?thesis by blast
qed

end

definition sibling_keys :: "string \<Rightarrow> string \<Rightarrow> string \<Rightarrow> bool" where
  "sibling_keys rnd k k' \<longleftrightarrow>
     (\<exists>ns n n'. k = str_join [slash] (ns @ [n]) \<and> k' = str_join [slash] (ns @ [n']) \<and> list_all name_ok (ns @ [n, n']) \<and>
        n \<noteq> n' \<and> n \<noteq> ''.tmp-'' @ rnd \<and> n' \<noteq> ''.tmp-'' @ rnd)"

lemma load_lookup:
  assumes "inner_root rt" and "list_all name_ok (ns @ [n])" and "quiet s"
  shows "fp_load rt (str_join [slash] (ns @ [n])) s = (Inr d, s) \<longleftrightarrow>
    lookup (os_fs s) (canon (os_cwd s) rt @ ns @ [n]) = Some (FFile d)"
proof -
  let ?p = "canon (os_cwd s) rt @ ns @ [n]"
  have f: "full_path rt (str_join [slash] (ns @ [n])) = Inr (path_of rt (ns @ [n]))"
    by (rule full_path_names [OF assms(1,2)]) simp
  have q: "fs_wf (os_fs s)" "calm s" using assms(3) by (simp_all add: quiet_def os_wf_def)
  have "fp_load rt (str_join [slash] (ns @ [n])) s = (Inr d, s) \<longleftrightarrow> node_at (os_fs s) ?p = Inr (FFile d)"
    unfolding fp_load_def f sum.case calm_ops(1) [OF q(2) path_of_nonempty [OF assms(2)]] canon_path_of [OF assms(2)]
    by (cases "node_at (os_fs s) ?p") (auto split: FileSys.node.split FileSys.node.split_asm)
  then show ?thesis using node_at_wf [OF q(1)] by simp
qed

interpretation graph_files: separate_store "file_backend rt rnd" "file_key rt rnd" quiet "sibling_keys rnd" for rt rnd
proof
  fix k k' s d x s'
  assume sib: "sibling_keys rnd k k'" and key: "file_key rt rnd k" and s: "quiet s"
    and l: "ip_load (file_backend rt rnd) k' s = (Inr d, s)" and st: "ip_store (file_backend rt rnd) k x s = (Inr (), s')"
  from sib obtain ns n n' where k: "k = str_join [slash] (ns @ [n])" "k' = str_join [slash] (ns @ [n'])"
    "list_all name_ok (ns @ [n])" "list_all name_ok (ns @ [n'])" "n \<noteq> n'" "n \<noteq> ''.tmp-'' @ rnd" "n' \<noteq> ''.tmp-'' @ rnd"
    by (auto simp: sibling_keys_def)
  from key have rt: "is_abs rt" "inner_root rt" "slash \<notin> set rnd" by (auto simp: file_key_def)
  have q: "quiet s'" using files.load_stored [OF key s st] by simp
  have run: "fp_store rt rnd (str_join [slash] (ns @ [n])) x s = (Inr (), s')" using st k(1) by (simp add: file_backend_def)
  have wf: "os_wf s" using s by (simp add: quiet_def)
  let ?D = "canon (os_cwd s) rt @ ns"
  from store_atomic [OF rt(1,2) k(3) wf rt(3) k(6) run]
  have cwd: "os_cwd s' = os_cwd s" and keep: "\<And>p. p \<noteq> ?D @ [n] \<Longrightarrow> p \<noteq> ?D @ [''.tmp-'' @ rnd] \<Longrightarrow> \<not> below p ?D \<Longrightarrow>
      lookup (os_fs s') p = lookup (os_fs s) p" by simp_all
  have "\<not> below (?D @ [n']) ?D" by (simp add: below_def)
  with keep [of "?D @ [n']"] k(5,7) have "lookup (os_fs s') (?D @ [n']) = lookup (os_fs s) (?D @ [n'])" by simp
  then show "ip_load (file_backend rt rnd) k' s' = (Inr d, s')"
    using l load_lookup [OF rt(2) k(4) s] load_lookup [OF rt(2) k(4) q] cwd by (simp add: file_backend_def k(2))
qed

section \<open>The graph after a restart\<close>

text \<open>What is asked of the JSON encoder: one line of limited length, not blank, that the decoder reads back.\<close>

definition line_codec :: "(json \<Rightarrow> string) \<Rightarrow> (string \<Rightarrow> json option) \<Rightarrow> json \<Rightarrow> bool" where
  "line_codec enc dec j \<longleftrightarrow> text_ok (enc j) \<and> length (enc j) < 65536 \<and> dec (enc j) = Some j"

lemma codec_lines:
  assumes "\<forall>j \<in> set js. line_codec enc dec j"
  shows "scan_lines (concat (map (\<lambda>j. enc j @ nl) js)) = (map enc js, False) \<and> map (read_line dec) (map enc js) = map Some js"
proof -
  have "drop_cr (enc j) = enc j" if "j \<in> set js" for j
  proof -
    have "text_ok (enc j)" using assms that by (simp add: line_codec_def)
    moreover have "[CHR 0x0D] \<in> set go_spaces" by (simp add: go_spaces_def)
    ultimately have "\<not> suffix [CHR 0x0D] (enc j)" using trimmed_ends by (auto simp: text_ok_def)
    then show ?thesis by (cases "enc j" rule: rev_cases) (auto simp: drop_cr_def)
  qed
  then have "list_all line_ok (map enc js)" using assms by (auto simp: list_all_iff line_ok_def line_codec_def text_ok_def)
  from scan_unlines [OF this] have "scan_lines (concat (map (\<lambda>j. enc j @ nl) js)) = (map enc js, False)"
    by (simp add: comp_def newline_def)
  moreover have "map (read_line dec) (map enc js) = map Some js"
    using assms by (simp add: read_line_def line_codec_def text_ok_def)
  ultimately show ?thesis by blast
qed

lemma graph_key: "is_abs rt \<Longrightarrow> inner_root rt \<Longrightarrow> slash \<notin> set rnd \<Longrightarrow>
   file_key rt rnd graph_path \<and> file_key rt rnd (mermaid_path graph_path) \<and> sibling_keys rnd (mermaid_path graph_path) graph_path"
proof -
  assume rt: "is_abs rt" "inner_root rt" "slash \<notin> set rnd"
  have p: "graph_path = str_join [slash] ([''memory'', ''longterm''] @ [''memory_graph.jsonl''])"
    "mermaid_path graph_path = str_join [slash] ([''memory'', ''longterm''] @ [''memory_graph.md''])" by code_simp+
  have n: "list_all name_ok ([''memory'', ''longterm''] @ [''memory_graph.jsonl''])"
    "list_all name_ok ([''memory'', ''longterm''] @ [''memory_graph.md''])" by code_simp+
  have key: "file_key rt rnd (str_join [slash] ([''memory'', ''longterm''] @ [m]))"
    if "list_all name_ok ([''memory'', ''longterm''] @ [m])" and "m \<noteq> ''.tmp-'' @ rnd" for m
    using rt that unfolding file_key_def by blast
  have "file_key rt rnd graph_path" unfolding p(1) using n by (intro key) simp_all
  moreover have "file_key rt rnd (mermaid_path graph_path)" unfolding p(2) using n by (intro key) simp_all
  moreover have "sibling_keys rnd (mermaid_path graph_path) graph_path"
    unfolding sibling_keys_def
    by (rule exI [of _ "[''memory'', ''longterm'']"], rule exI [of _ "''memory_graph.md''"],
      rule exI [of _ "''memory_graph.jsonl''"]) (use n p in simp)
  ultimately show ?thesis by blast
qed

lemma saved_lines:
  assumes "persist_graph enc ord ids (Some b) graph_path g s = (Inr (), s2)"
  obtains s1 where "ip_store b graph_path (concat (map (\<lambda>j. enc j @ nl) (graph_lines ids g))) s = (Inr (), s1)"
    and "ip_store b (mermaid_path graph_path) (mermaid_text ord g) s1 = (Inr (), s2)"
  using assms by (auto simp: persist_graph_def write_mermaid_def graph_path_def split: prod.splits sum.splits)


section \<open>An example\<close>

text \<open>A table of lines is an encoder of those lines.\<close>

definition table_enc :: "json list \<Rightarrow> json \<Rightarrow> string" where
  "table_enc js j = (if j = js ! 0 then ''a'' else if j = js ! 1 then ''b'' else ''c'')"

definition table_dec :: "json list \<Rightarrow> string \<Rightarrow> json option" where
  "table_dec js l = Some (if l = ''a'' then js ! 0 else if l = ''b'' then js ! 1 else js ! 2)"

lemma table_codec: "length js = 3 \<Longrightarrow> \<forall>j \<in> set js. line_codec (table_enc js) (table_dec js) j"
proof -
  assume n: "length js = 3"
  have t: "text_ok ''a''" "text_ok ''b''" "text_ok ''c''" by code_simp+
  have "line_codec (table_enc js) (table_dec js) (js ! k)" if "k < 3" for k
  proof -
    from that have "k = 0 \<or> k = 1 \<or> k = 2" by auto
    then show ?thesis using t by (auto simp: line_codec_def table_enc_def table_dec_def)
  qed
  then show ?thesis using n by (auto simp: in_set_conv_nth)
qed

definition demo_order :: mermaid_order where
  "demo_order = \<lparr>mo_colors = type_colors, mo_nodes = [''ent:1'', ''ent:2''], mo_legend = [''ent:2'', ''ent:1'']\<rparr>"

definition empty_disk :: os where
  "empty_disk = crash_os\<lparr>os_faults := []\<rparr>"

lemma two_files_stored:
  "fst (fp_store ''/w'' ''7'' (mermaid_path graph_path) y (snd (fp_store ''/w'' ''7'' graph_path x empty_disk))) = Inr ()"
  "fst (fp_store ''/w'' ''7'' graph_path x empty_disk) = Inr ()"
  by code_simp+


end
